(* ===== verification/Prelude.thy ===== *)
theory Prelude
  imports Main "HOL-Library.Word"
begin

unbundle bit_operations_syntax

text \<open>
  Shared vocabulary of the development: the machine integer types of the C++ code, byte
  buffers, the bounded copy routine the code calls everywhere, and the generic facts about
  lists, words and modular arithmetic that more than one component uses. Facts collected in
  \<open>blit_simps\<close> rewrite reads of a buffer in which one range has been overwritten;
  \<open>mask_simps\<close> turn the power-of-two masks of the code into arithmetic.
\<close>

named_theorems blit_simps
named_theorems mask_simps

section \<open>Machine types\<close>

type_synonym u8 = "8 word"
type_synonym u16 = "16 word"
type_synonym u32 = "32 word"
type_synonym u64 = "64 word"
type_synonym bytes = "8 word list"

abbreviation (input) SECUREC_MEM_MAX_LEN :: nat where
  "SECUREC_MEM_MAX_LEN \<equiv> 2147483647"

text \<open>
  The C11 Annex K copy \<open>memcpy_s (dest, destMax, src, count)\<close> on non-overlapping buffers:
  None is any result other than EOK. The destination list is the memory from the
  destination pointer on; the copy overwrites its first \<open>count\<close> bytes.
\<close>

definition memcpy_s :: "bytes \<Rightarrow> nat \<Rightarrow> bytes \<Rightarrow> nat \<Rightarrow> bytes option" where
  "memcpy_s dest destMax src count =
     (if 0 < destMax \<and> destMax \<le> SECUREC_MEM_MAX_LEN \<and> count \<le> destMax
      then Some (take count src @ drop count dest) else None)"

section \<open>Overwriting a range of a buffer\<close>

text \<open>\<open>blit p xs ys\<close> is \<open>ys\<close> with the bytes from position \<open>p\<close> on replaced by \<open>xs\<close>.\<close>

definition blit :: "nat \<Rightarrow> 'a list \<Rightarrow> 'a list \<Rightarrow> 'a list" where
  "blit p xs ys = take p ys @ xs @ drop (p + length xs) ys"

text \<open>\<open>slice p n ys\<close> is the range of length \<open>n\<close> at position \<open>p\<close>.\<close>

definition slice :: "nat \<Rightarrow> nat \<Rightarrow> 'a list \<Rightarrow> 'a list" where
  "slice p n ys = take n (drop p ys)"

lemma blit_Nil [simp]: "blit p [] ys = ys"
  by (simp add: blit_def)

lemma length_blit [blit_simps]:
  "p + length xs \<le> length ys \<Longrightarrow> length (blit p xs ys) = length ys"
  by (simp add: blit_def)

lemma length_slice [simp]: "length (slice p n ys) = min n (length ys - p)"
  by (simp add: slice_def)

lemma slice_0 [simp]: "slice p 0 ys = []"
  by (simp add: slice_def)

lemma nth_slice: "i < n \<Longrightarrow> p + i < length ys \<Longrightarrow> slice p n ys ! i = ys ! (p + i)"
  by (simp add: slice_def)

lemma nth_blit [blit_simps]:
  "p + length xs \<le> length ys \<Longrightarrow> i < length ys \<Longrightarrow>
   blit p xs ys ! i = (if p \<le> i \<and> i < p + length xs then xs ! (i - p) else ys ! i)"
  by (auto simp: blit_def nth_append min_def)

lemma slice_blit_same [blit_simps]:
  "p + length xs \<le> length ys \<Longrightarrow> slice p (length xs) (blit p xs ys) = xs"
  by (simp add: slice_def blit_def min_def)

lemma slice_blit_disjoint [blit_simps]:
  assumes "p + length xs \<le> length ys" and "q + n \<le> length ys"
    and "q + n \<le> p \<or> p + length xs \<le> q"
  shows "slice q n (blit p xs ys) = slice q n ys"
proof (rule nth_equalityI)
  show "length (slice q n (blit p xs ys)) = length (slice q n ys)"
    using assms by (simp add: blit_simps)
next
  fix i
  assume "i < length (slice q n (blit p xs ys))"
  with assms show "slice q n (blit p xs ys) ! i = slice q n ys ! i"
    by (auto simp: nth_slice blit_simps)
qed

lemma blit_blit_append [blit_simps]:
  assumes "p + length xs + length zs \<le> length ys"
  shows "blit (p + length xs) zs (blit p xs ys) = blit p (xs @ zs) ys"
proof (cases "length ys \<le> p")
  case True
  with assms have "length xs = 0" and "length zs = 0" by linarith+
  then show ?thesis by simp
next
  case False
  with assms show ?thesis by (simp add: blit_def min_def algebra_simps)
qed

lemma slice_append_split:
  "slice p (m + n) ys = slice p m ys @ slice (p + m) n ys"
  by (simp add: slice_def take_add add.commute)

lemma blit_slice_id: "p + n \<le> length ys \<Longrightarrow> blit p (slice p n ys) ys = ys"
proof -
  assume "p + n \<le> length ys"
  then have len: "length (take n (drop p ys)) = n" by simp
  have "take p ys @ take n (drop p ys) = take (p + n) ys"
    by (simp add: take_add)
  then show ?thesis
    unfolding blit_def slice_def len by (metis append.assoc append_take_drop_id)
qed

lemma list_all_update [intro]: "list_all P xs \<Longrightarrow> P x \<Longrightarrow> list_all P (xs[i := x])"
  by (auto simp: list_all_iff dest: set_update_subset_insert [THEN subsetD])

section \<open>Modular arithmetic of ring indices\<close>

lemma mod_add_eq_imp_eq:
  fixes a i j n :: nat
  assumes "(a + i) mod n = (a + j) mod n" and "i < n" and "j < n"
  shows "i = j"
proof -
  have "int ((a + i) mod n) = int ((a + j) mod n)"
    using assms(1) by simp
  then have "(int a + int i) mod int n = (int a + int j) mod int n"
    by (simp add: zmod_int)
  then have "int n dvd int i - int j"
    by (simp add: mod_eq_dvd_iff)
  then show ?thesis
    using assms(2,3) by (metis mod_eq_dvd_iff mod_less of_nat_eq_iff zmod_int)
qed

lemma int_diff_mod_double:
  fixes w r n :: nat
  assumes "w < 2 * n" and "r < 2 * n"
  shows "(int w - int r) mod (2 * int n) =
    (if r \<le> w then int w - int r else int w - int r + 2 * int n)"
proof (cases "r \<le> w")
  case True
  with assms show ?thesis by (simp add: mod_pos_pos_trivial)
next
  case False
  have "(int w - int r) mod (2 * int n) = (int w - int r + 2 * int n) mod (2 * int n)"
    by simp
  also have "\<dots> = int w - int r + 2 * int n"
    using assms False by (intro mod_pos_pos_trivial) auto
  finally show ?thesis using False by simp
qed

lemma half_way_iff:
  fixes w r n :: nat
  assumes "w < 2 * n" and "r < 2 * n"
  shows "w = (r + n) mod (2 * n) \<longleftrightarrow> (int w - int r) mod (2 * int n) = int n"
  unfolding int_diff_mod_double [OF assms] using assms by (auto simp: mod_if)

section \<open>Power-of-two masks\<close>

lemma unat_and_mask [mask_simps]:
  fixes w :: "'a::len word"
  assumes "k \<le> LENGTH('a)"
  shows "unat (w AND (2 ^ k - 1)) = unat w mod 2 ^ k"
proof -
  have "w AND (2 ^ k - 1) = take_bit k w"
    by (simp add: take_bit_eq_mask mask_eq_exp_minus_1)
  then have "unat (w AND (2 ^ k - 1)) = take_bit k (unat w)"
    by (simp only: unsigned_take_bit_eq)
  then show ?thesis
    by (simp add: take_bit_eq_mod)
qed

lemma unat_add_and_mask [mask_simps]:
  fixes a b :: "'a::len word"
  assumes "k \<le> LENGTH('a)"
  shows "unat ((a + b) AND (2 ^ k - 1)) = (unat a + unat b) mod 2 ^ k"
proof -
  have "(2::nat) ^ k dvd 2 ^ LENGTH('a)"
    using assms by (rule le_imp_power_dvd)
  then have "((unat a + unat b) mod 2 ^ LENGTH('a)) mod 2 ^ k = (unat a + unat b) mod 2 ^ k"
    by (rule mod_mod_cancel)
  then show ?thesis
    using assms by (simp add: unat_and_mask unat_word_ariths)
qed

lemma int_unat_diff_and_mask [mask_simps]:
  fixes a b :: "'a::len word"
  assumes "k \<le> LENGTH('a)"
  shows "int (unat ((a - b) AND (2 ^ k - 1))) = (int (unat a) - int (unat b)) mod 2 ^ k"
proof -
  have "(2::int) ^ k dvd 2 ^ LENGTH('a)"
    using assms by (rule le_imp_power_dvd)
  then have "((uint a - uint b) mod 2 ^ LENGTH('a)) mod 2 ^ k = (uint a - uint b) mod 2 ^ k"
    by (rule mod_mod_cancel)
  moreover have "int (unat ((a - b) AND (2 ^ k - 1))) = uint (a - b) mod 2 ^ k"
    using assms by (simp add: unat_and_mask zmod_int)
  ultimately show ?thesis
    by (simp add: uint_word_ariths)
qed

lemma nat_xor_top_bit:
  fixes n :: nat
  assumes "n < 2 ^ Suc k"
  shows "n XOR 2 ^ k = (n + 2 ^ k) mod 2 ^ Suc k"
proof -
  have flip: "n XOR 2 ^ k = flip_bit k n"
    by (simp add: flip_bit_nat_def push_bit_eq_mult)
  show ?thesis
  proof (cases "2 ^ k \<le> n")
    case True
    with assms have "n div 2 ^ k = 1"
      by (simp add: div_nat_eqI)
    then have "bit n k" by (simp add: bit_iff_odd)
    then have "int (flip_bit k n) = int n - 2 ^ k"
      by (simp add: flip_bit_eq_if of_nat_unset_bit_eq unset_bit_eq bit_of_nat_iff_bit)
    moreover have "int ((n + 2 ^ k) mod 2 ^ Suc k) = int n - 2 ^ k"
      using True assms by (simp add: mod_if) linarith
    ultimately show ?thesis unfolding flip by linarith
  next
    case False
    then have "\<not> bit n k" by (simp add: bit_iff_odd)
    then have "flip_bit k n = n + 2 ^ k"
      by (simp add: flip_bit_eq_if set_bit_eq)
    with False flip show ?thesis by simp
  qed
qed

lemma unat_pow2 [mask_simps]:
  assumes "k < LENGTH('a::len)"
  shows "unat (2 ^ k :: 'a word) = 2 ^ k"
proof -
  have "(2 ^ k :: 'a word) = of_nat (2 ^ k)" by simp
  moreover have "(2::nat) ^ k < 2 ^ LENGTH('a)" using assms by simp
  ultimately show ?thesis by (simp only: unat_of_nat mod_less)
qed

lemma unat_xor_top_bit [mask_simps]:
  fixes w :: "'a::len word"
  assumes "k < LENGTH('a)" and "unat w < 2 ^ Suc k"
  shows "unat (w XOR 2 ^ k) = (unat w + 2 ^ k) mod 2 ^ Suc k"
proof -
  have "unat (2 ^ k :: 'a word) = 2 ^ k"
    using assms(1) by (rule unat_pow2)
  then show ?thesis
    using nat_xor_top_bit [OF assms(2)] by (simp add: unsigned_xor_eq)
qed

lemma nat_and_pred_0:
  fixes n :: nat
  assumes "n \<noteq> 0" and "n AND (n - 1) = 0"
  shows "\<exists>k. n = 2 ^ k"
  using assms
proof (induction n rule: less_induct)
  case (less n)
  show ?case
  proof (cases "even n")
    case True
    then obtain m where m: "n = 2 * m" by blast
    with less.prems have "m \<noteq> 0" by simp
    then have "n - 1 = 2 * (m - 1) + 1" using m by simp
    have "2 * m AND (2 * (m - 1) + 1) = 2 * (m AND (m - 1))"
      by (subst and_rec) simp
    with m less.prems(2) \<open>n - 1 = 2 * (m - 1) + 1\<close> have "m AND (m - 1) = 0"
      by simp
    with less.IH [of m] m \<open>m \<noteq> 0\<close> obtain k where "m = 2 ^ k" by auto
    with m have "n = 2 ^ Suc k" by simp
    then show ?thesis by blast
  next
    case False
    then obtain m where m: "n = 2 * m + 1" by (elim oddE)
    have "(2 * m + 1) AND 2 * m = 2 * (m AND m)"
      by (subst and_rec) simp
    with m less.prems(2) have "m = 0" by simp
    with m have "n = 2 ^ 0" by simp
    then show ?thesis by blast
  qed
qed

lemma word_and_pred_0:
  fixes n :: "'a::len word"
  assumes "n \<noteq> 0" and "n AND (n - 1) = 0"
  shows "\<exists>k<LENGTH('a). n = 2 ^ k"
proof -
  have "unat (n - 1) = unat n - 1"
    using assms(1) by (simp add: unat_minus_one)
  moreover have "unat (n AND (n - 1)) = 0" using assms(2) by simp
  ultimately have "unat n AND (unat n - 1) = 0"
    by (simp add: unsigned_and_eq)
  moreover have "unat n \<noteq> 0" using assms(1) by (simp add: unat_eq_0)
  ultimately obtain k where k: "unat n = 2 ^ k" using nat_and_pred_0 by blast
  have "(2::nat) ^ k < 2 ^ LENGTH('a)"
    using unsigned_less [of n] by (simp flip: k)
  then have "k < LENGTH('a)" by simp
  moreover have "unat n = unat (2 ^ k :: 'a word)"
    using k \<open>k < LENGTH('a)\<close> by (simp only: unat_pow2)
  then have "n = 2 ^ k" by (simp only: unsigned_word_eqI)
  ultimately show ?thesis by blast
qed

section \<open>Signed reading\<close>

lemma sint_small:
  fixes w :: "'a::len word"
  assumes "unat w < 2 ^ (LENGTH('a) - 1)"
  shows "sint w = int (unat w)"
proof -
  have "uint w < 2 ^ (LENGTH('a) - 1)"
    using assms by (metis of_nat_less_iff of_nat_numeral of_nat_power uint_nat)
  then have "signed_take_bit (LENGTH('a) - Suc 0) (uint w) = uint w"
    by (intro signed_take_bit_int_eq_self) (auto intro: order_trans [OF _ uint_ge_0])
  then show ?thesis by (simp add: sint_uint)
qed

end
