(* ===== verification/Ring_Buffer.thy ===== *)
theory Ring_Buffer
  imports Prelude
begin

text \<open>
  The bounded single-producer single-consumer queue of
  \<open>services/common/ring_buffer/ring_buffer.cpp\<close>. The record is the class's fields; a null
  array pointer is the empty list (real arrays have \<open>num_ > 0\<close> cells), a null cell is
  \<open>None\<close>. Allocation may fail: \<open>alloc n\<close> says whether the \<open>n\<close>-th \<open>new (std::nothrow)\<close>
  of a call succeeds. \<open>push\<close> and \<open>pop\<close> return \<open>Blocked\<close> where the calling thread waits
  on its condition variable; the waiting itself is the step relation of
  \<open>Ring_Concurrency\<close>. The queue contract is the locale \<open>bounded_fifo\<close>.
\<close>

section \<open>State\<close>

record ring =
  writeIndex :: u32
  readIndex :: u32
  singleSize :: u32
  num :: u32
  bufArray :: "bytes option list"
  lenArray :: "u32 list"
  isStop :: bool

datatype 'a step_result = Done 'a | Fail | Blocked

definition ring_new :: ring where
  "ring_new = \<lparr>writeIndex = 0, readIndex = 0, singleSize = 0, num = 0,
     bufArray = [], lenArray = [], isStop = False\<rparr>"

section \<open>Operations\<close>

text \<open>
  \<open>Init\<close>: the cells are allocated in order and the first failure stops the loop, leaving
  the remaining cells null and the indices unchanged.
\<close>

fun ring_alloc_cells :: "(nat \<Rightarrow> bool) \<Rightarrow> nat \<Rightarrow> nat \<Rightarrow> nat \<Rightarrow> bytes option list" where
  "ring_alloc_cells alloc sz i 0 = []"
| "ring_alloc_cells alloc sz i (Suc n) =
     (if alloc i then Some (replicate sz 0) # ring_alloc_cells alloc sz (Suc i) n
      else replicate (Suc n) None)"

definition ring_init :: "(nat \<Rightarrow> bool) \<Rightarrow> u32 \<Rightarrow> u32 \<Rightarrow> ring \<Rightarrow> bool \<times> ring" where
  "ring_init alloc sz n r =
     (if sz = 0 \<or> n = 0 \<or> n AND (n - 1) \<noteq> 0 then (False, r)
      else
        let r1 = r\<lparr>bufArray := (if alloc 0 then replicate (unat n) None else []),
                   lenArray := (if alloc 1 then replicate (unat n) 0 else [])\<rparr>
        in if \<not> alloc 0 \<or> \<not> alloc 1 then (False, r1)
           else
             let cells = ring_alloc_cells alloc (unat sz) 2 (unat n);
                 r2 = r1\<lparr>bufArray := cells\<rparr>
             in if None \<in> set cells then (False, r2)
                else (True, r2\<lparr>writeIndex := 0, readIndex := 0, num := n, singleSize := sz\<rparr>))"

definition ring_is_full :: "ring \<Rightarrow> bool" where
  "ring_is_full r \<longleftrightarrow> writeIndex r = readIndex r XOR num r"

definition ring_is_empty :: "ring \<Rightarrow> bool" where
  "ring_is_empty r \<longleftrightarrow> writeIndex r = readIndex r"

text \<open>The critical section of \<open>Push\<close> under \<open>arrayMtx_\<close>: copy into the cell, advance the index.\<close>

definition ring_push_commit :: "ring \<Rightarrow> bytes \<Rightarrow> u32 \<Rightarrow> ring option" where
  "ring_push_commit r buf len =
     (let index = unat (writeIndex r AND (num r - 1))
      in case memcpy_s (the (bufArray r ! index)) (unat (singleSize r)) buf (unat len) of
           None \<Rightarrow> None
         | Some cell \<Rightarrow>
             Some (r\<lparr>bufArray := (bufArray r)[index := Some cell],
                     lenArray := (lenArray r)[index := len],
                     writeIndex := (writeIndex r + 1) AND (2 * num r - 1)\<rparr>))"

definition ring_push :: "ring \<Rightarrow> bytes option \<Rightarrow> u32 \<Rightarrow> ring step_result" where
  "ring_push r buf len =
     (if buf = None \<or> len = 0 \<or> singleSize r < len then Fail
      else if ring_is_full r then (if isStop r then Fail else Blocked)
      else case ring_push_commit r (the buf) len of None \<Rightarrow> Fail | Some r' \<Rightarrow> Done r')"

text \<open>The critical section of \<open>Pop\<close>: copy out of the cell into a buffer of \<open>maxLen\<close> bytes.\<close>

definition ring_pop_commit :: "ring \<Rightarrow> u32 \<Rightarrow> (bytes \<times> ring) option" where
  "ring_pop_commit r maxLen =
     (let index = unat (readIndex r AND (num r - 1));
          len = unat (lenArray r ! index)
      in case memcpy_s (replicate (unat maxLen) 0) (unat maxLen)
                (the (bufArray r ! index)) len of
           None \<Rightarrow> None
         | Some out \<Rightarrow>
             Some (take len out,
                   r\<lparr>readIndex := (readIndex r + 1) AND (2 * num r - 1)\<rparr>))"

definition ring_pop :: "ring \<Rightarrow> bool \<Rightarrow> u32 \<Rightarrow> (bytes \<times> ring) step_result" where
  "ring_pop r bufNonNull maxLen =
     (if \<not> bufNonNull then Fail
      else if ring_is_empty r then (if isStop r then Fail else Blocked)
      else case ring_pop_commit r maxLen of None \<Rightarrow> Fail | Some res \<Rightarrow> Done res)"

definition ring_stop_push :: "ring \<Rightarrow> ring" where
  "ring_stop_push r = r\<lparr>isStop := True\<rparr>"

definition ring_stop_pop :: "ring \<Rightarrow> ring" where
  "ring_stop_pop r = r\<lparr>isStop := True\<rparr>"

definition ring_stop :: "ring \<Rightarrow> ring" where
  "ring_stop r = ring_stop_pop (ring_stop_push r)"

definition ring_reset :: "ring \<Rightarrow> ring" where
  "ring_reset r =
     (let r1 = (ring_stop r)\<lparr>isStop := False\<rparr>
      in r1\<lparr>writeIndex := 0, readIndex := 0,
            lenArray := replicate (min (unat (num r1)) (length (lenArray r1))) 0
              @ drop (unat (num r1)) (lenArray r1)\<rparr>)"

definition ring_release :: "ring \<Rightarrow> ring" where
  "ring_release r = r\<lparr>lenArray := [], bufArray := []\<rparr>"

section \<open>Abstraction: the queue a ring holds\<close>

definition ring_count :: "ring \<Rightarrow> nat" where
  "ring_count r = unat ((writeIndex r - readIndex r) AND (2 * num r - 1))"

definition ring_slot :: "ring \<Rightarrow> nat \<Rightarrow> nat" where
  "ring_slot r i = unat ((readIndex r + of_nat i) AND (num r - 1))"

definition ring_cell :: "ring \<Rightarrow> nat \<Rightarrow> bytes" where
  "ring_cell r j = take (unat (lenArray r ! j)) (the (bufArray r ! j))"

definition ring_list :: "ring \<Rightarrow> bytes list" where
  "ring_list r = map (\<lambda>i. ring_cell r (ring_slot r i)) [0..<ring_count r]"

text \<open>
  What every operation keeps: the capacity is a power of two, the cells and lengths are
  allocated and fit, both indices are below twice the capacity and at most one capacity
  apart.
\<close>

definition ring_wf :: "ring \<Rightarrow> bool" where
  "ring_wf r \<longleftrightarrow>
     num r \<noteq> 0 \<and> num r AND (num r - 1) = 0 \<and>
     singleSize r \<noteq> 0 \<and> unat (singleSize r) \<le> SECUREC_MEM_MAX_LEN \<and>
     length (bufArray r) = unat (num r) \<and> length (lenArray r) = unat (num r) \<and>
     list_all (\<lambda>c. c \<noteq> None \<and> length (the c) = unat (singleSize r)) (bufArray r) \<and>
     list_all (\<lambda>l. l \<le> singleSize r) (lenArray r) \<and>
     writeIndex r AND (2 * num r - 1) = writeIndex r \<and>
     readIndex r AND (2 * num r - 1) = readIndex r \<and>
     ring_count r \<le> unat (num r)"

text \<open>The same facts in arithmetic, for a capacity \<open>2 ^ k\<close>.\<close>

lemma ring_wfE:
  assumes "ring_wf r"
  obtains k where "k < 32" and "num r = 2 ^ k" and "unat (num r) = 2 ^ k"
    and "2 * num r = 2 ^ Suc k"
    and "unat (writeIndex r) < 2 ^ Suc k" and "unat (readIndex r) < 2 ^ Suc k"
    and "int (ring_count r) = (int (unat (writeIndex r)) - int (unat (readIndex r))) mod 2 ^ Suc k"
proof -
  from assms obtain k where k: "k < LENGTH(32)" "num r = 2 ^ k"
    using word_and_pred_0 [of "num r"] by (auto simp: ring_wf_def)
  then have k32: "Suc k \<le> LENGTH(32)" by simp
  have two: "2 * num r = 2 ^ Suc k" using k by simp
  have bound: "unat w < 2 ^ Suc k" if "w AND (2 * num r - 1) = w" for w :: u32
  proof -
    have "unat (w AND (2 ^ Suc k - 1)) < 2 ^ Suc k"
      using k32 by (simp only: unat_and_mask) simp
    with that two show ?thesis by simp
  qed
  show ?thesis
  proof (rule that [of k])
    show "int (ring_count r) =
        (int (unat (writeIndex r)) - int (unat (readIndex r))) mod 2 ^ Suc k"
      unfolding ring_count_def two using k32 by (rule int_unat_diff_and_mask)
  qed (use assms k two bound in \<open>auto simp: ring_wf_def unat_pow2 simp del: power_Suc\<close>)
qed

lemma ring_slot_eq:
  assumes "num r = 2 ^ k" and "k < 32"
  shows "ring_slot r i = (unat (readIndex r) + i) mod 2 ^ k"
proof -
  have "ring_slot r i = (unat (readIndex r) + unat (of_nat i :: u32)) mod 2 ^ k"
    unfolding ring_slot_def assms(1) using assms(2) by (simp add: unat_add_and_mask)
  also have "\<dots> = (unat (readIndex r) + i) mod 2 ^ k"
  proof -
    have "(2::nat) ^ k dvd 2 ^ 32" using assms(2) by (intro le_imp_power_dvd) simp
    then have "unat (of_nat i :: u32) mod 2 ^ k = i mod 2 ^ k"
      by (simp add: unat_of_nat mod_mod_cancel)
    then show ?thesis by (metis mod_add_right_eq)
  qed
  finally show ?thesis .
qed

lemma ring_list_length [simp]: "length (ring_list r) = ring_count r"
  by (simp add: ring_list_def)

lemma ring_empty_iff:
  assumes "ring_wf r"
  shows "ring_is_empty r \<longleftrightarrow> ring_list r = []"
proof -
  obtain k where k: "unat (writeIndex r) < 2 ^ Suc k" "unat (readIndex r) < 2 ^ Suc k"
    "int (ring_count r) = (int (unat (writeIndex r)) - int (unat (readIndex r))) mod 2 ^ Suc k"
    using assms by (rule ring_wfE)
  have "ring_count r = 0 \<longleftrightarrow>
      (int (unat (writeIndex r)) - int (unat (readIndex r))) mod 2 ^ Suc k = 0"
    using k(3) by linarith
  also have "\<dots> \<longleftrightarrow> int (unat (writeIndex r)) mod 2 ^ Suc k = int (unat (readIndex r)) mod 2 ^ Suc k"
    by (metis mod_eq_dvd_iff mod_eq_0_iff_dvd)
  also have "\<dots> \<longleftrightarrow> unat (writeIndex r) = unat (readIndex r)"
    using k(1,2) by (metis mod_less of_nat_eq_iff of_nat_numeral of_nat_power zmod_int)
  finally show ?thesis
    by (simp add: ring_is_empty_def ring_list_def unsigned_word_eqI) (metis unsigned_word_eqI)
qed

lemma ring_full_iff:
  assumes "ring_wf r"
  shows "ring_is_full r \<longleftrightarrow> ring_count r = unat (num r)"
proof -
  obtain k where k: "k < 32" "num r = 2 ^ k" "unat (num r) = 2 ^ k"
    "unat (writeIndex r) < 2 ^ Suc k" "unat (readIndex r) < 2 ^ Suc k"
    "int (ring_count r) = (int (unat (writeIndex r)) - int (unat (readIndex r))) mod 2 ^ Suc k"
    using assms by (rule ring_wfE)
  have "ring_is_full r \<longleftrightarrow> unat (writeIndex r) = unat (readIndex r XOR 2 ^ k)"
    unfolding ring_is_full_def k(2) by (metis unsigned_word_eqI)
  also have "\<dots> \<longleftrightarrow> unat (writeIndex r) = (unat (readIndex r) + 2 ^ k) mod 2 ^ Suc k"
    using k by (simp add: unat_xor_top_bit del: power_Suc)
  also have "\<dots> \<longleftrightarrow> (int (unat (writeIndex r)) - int (unat (readIndex r))) mod 2 ^ Suc k = 2 ^ k"
    using half_way_iff [of "unat (writeIndex r)" "2 ^ k" "unat (readIndex r)"] k(4,5)
    by (simp only: power_Suc of_nat_power of_nat_numeral)
  finally show ?thesis
    using k(3,6) by (metis of_nat_eq_iff of_nat_numeral of_nat_power)
qed

section \<open>The critical sections on the abstract queue\<close>

lemma ring_write_slot:
  assumes "ring_wf r"
  shows "unat (writeIndex r AND (num r - 1)) = ring_slot r (ring_count r)"
proof -
  obtain k where k: "k < 32" "num r = 2 ^ k"
    "int (ring_count r) = (int (unat (writeIndex r)) - int (unat (readIndex r))) mod 2 ^ Suc k"
    using assms by (rule ring_wfE)
  have dvd: "(2::int) ^ k dvd 2 ^ Suc k" by simp
  have "(int (unat (readIndex r)) + int (ring_count r)) mod 2 ^ k
      = int (unat (writeIndex r)) mod 2 ^ k"
    unfolding k(3) by (subst mod_add_right_eq [symmetric], subst mod_mod_cancel [OF dvd])
      (simp add: mod_add_right_eq)
  then have "int (ring_slot r (ring_count r)) = int (unat (writeIndex r) mod 2 ^ k)"
    using k by (simp only: ring_slot_eq zmod_int of_nat_add of_nat_power of_nat_numeral)
  then show ?thesis
    using k by (simp add: unat_and_mask)
qed

lemma ring_slot_less: "ring_wf r \<Longrightarrow> ring_slot r i < unat (num r)"
  by (erule ring_wfE) (simp add: ring_slot_eq)

lemma ring_slot_inj:
  assumes "ring_wf r" and "i < unat (num r)" and "j < unat (num r)"
    and "ring_slot r i = ring_slot r j"
  shows "i = j"
proof -
  obtain k where k: "k < 32" "num r = 2 ^ k" "unat (num r) = 2 ^ k"
    using assms(1) by (rule ring_wfE)
  show ?thesis
    using assms(2-4) k mod_add_eq_imp_eq [of "unat (readIndex r)" i "2 ^ k" j]
    by (simp add: ring_slot_eq)
qed

lemma ring_cell_shape:
  assumes "ring_wf r" and "j < unat (num r)"
  shows "\<exists>c. bufArray r ! j = Some c \<and> length c = unat (singleSize r)"
    and "unat (lenArray r ! j) \<le> unat (singleSize r)"
proof -
  have "bufArray r ! j \<noteq> None \<and> length (the (bufArray r ! j)) = unat (singleSize r)"
    using assms by (simp add: ring_wf_def list_all_length)
  then show "\<exists>c. bufArray r ! j = Some c \<and> length c = unat (singleSize r)" by auto
  show "unat (lenArray r ! j) \<le> unat (singleSize r)"
    using assms by (simp add: ring_wf_def list_all_length word_le_nat_alt)
qed

text \<open>The count after advancing the write index, and after advancing the read index.\<close>

lemma ring_index_step:
  assumes "ring_wf r"
  shows "unat ((x + 1) AND (2 * num r - 1)) < 2 * unat (num r)"
    and "((x + 1) AND (2 * num r - 1)) AND (2 * num r - 1) = (x + 1) AND (2 * num r - 1)"
proof -
  obtain k where k: "k < 32" "unat (num r) = 2 ^ k" "2 * num r = 2 ^ Suc k"
    using assms by (rule ring_wfE)
  then have "Suc k \<le> LENGTH(32)" by simp
  then have "unat ((x + 1) AND (2 * num r - 1)) < 2 ^ Suc k"
    unfolding k(3) by (simp only: unat_and_mask) simp
  then show "unat ((x + 1) AND (2 * num r - 1)) < 2 * unat (num r)"
    using k(2) by simp
  show "((x + 1) AND (2 * num r - 1)) AND (2 * num r - 1) = (x + 1) AND (2 * num r - 1)"
    by (simp add: and.assoc)
qed

lemma ring_count_write_step:
  assumes "ring_wf r" and "ring_count r < unat (num r)"
  shows "unat ((((writeIndex r + 1) AND (2 * num r - 1)) - readIndex r) AND (2 * num r - 1))
    = Suc (ring_count r)"
proof -
  obtain k where k: "k < 32" "unat (num r) = 2 ^ k" "2 * num r = 2 ^ Suc k"
    "int (ring_count r) = (int (unat (writeIndex r)) - int (unat (readIndex r))) mod 2 ^ Suc k"
    using assms(1) by (rule ring_wfE)
  have k32: "Suc k \<le> LENGTH(32)" using k by simp
  let ?w = "int (unat (writeIndex r))" and ?r = "int (unat (readIndex r))"
  have "int (unat ((((writeIndex r + 1) AND (2 * num r - 1)) - readIndex r) AND (2 * num r - 1)))
      = ((?w + 1) mod 2 ^ Suc k - ?r) mod 2 ^ Suc k"
    unfolding k(3) int_unat_diff_and_mask [OF k32] unat_add_and_mask [OF k32]
    by (simp only: zmod_int of_nat_add of_nat_power of_nat_numeral unat_1 of_nat_1)
  also have "\<dots> = ((?w - ?r) mod 2 ^ Suc k + 1) mod 2 ^ Suc k"
    by (simp only: mod_diff_left_eq mod_add_left_eq) (simp only: algebra_simps)
  also have "\<dots> = int (Suc (ring_count r)) mod 2 ^ Suc k"
    unfolding k(4) [symmetric] by (simp add: add.commute)
  also have "\<dots> = int (Suc (ring_count r))"
  proof (rule mod_pos_pos_trivial)
    have "Suc (ring_count r) < 2 ^ Suc k" using assms(2) k(2) by simp
    then show "int (Suc (ring_count r)) < 2 ^ Suc k"
      by (metis of_nat_less_iff of_nat_numeral of_nat_power)
  qed simp
  finally show ?thesis by (simp only: of_nat_eq_iff)
qed

lemma ring_count_read_step:
  assumes "ring_wf r" and "0 < ring_count r"
  shows "Suc (unat ((writeIndex r - ((readIndex r + 1) AND (2 * num r - 1))) AND (2 * num r - 1)))
    = ring_count r"
proof -
  obtain k where k: "k < 32" "unat (num r) = 2 ^ k" "2 * num r = 2 ^ Suc k"
    "int (ring_count r) = (int (unat (writeIndex r)) - int (unat (readIndex r))) mod 2 ^ Suc k"
    using assms(1) by (rule ring_wfE)
  have k32: "Suc k \<le> LENGTH(32)" using k by simp
  let ?w = "int (unat (writeIndex r))" and ?r = "int (unat (readIndex r))"
  have lt: "ring_count r < 2 ^ Suc k"
    unfolding ring_count_def k(3) using k32 by (simp only: unat_and_mask) simp
  have "int (unat ((writeIndex r - ((readIndex r + 1) AND (2 * num r - 1))) AND (2 * num r - 1)))
      = (?w - (?r + 1) mod 2 ^ Suc k) mod 2 ^ Suc k"
    unfolding k(3) int_unat_diff_and_mask [OF k32] unat_add_and_mask [OF k32]
    by (simp only: zmod_int of_nat_add of_nat_power of_nat_numeral unat_1 of_nat_1)
  also have "\<dots> = ((?w - ?r) mod 2 ^ Suc k - 1) mod 2 ^ Suc k"
    by (simp only: mod_diff_left_eq mod_diff_right_eq) (simp only: algebra_simps)
  also have "\<dots> = (int (ring_count r) - 1) mod 2 ^ Suc k"
    unfolding k(4) [symmetric] by simp
  also have "\<dots> = int (ring_count r) - 1"
  proof (rule mod_pos_pos_trivial)
    show "0 \<le> int (ring_count r) - 1" using assms(2) by simp
    show "int (ring_count r) - 1 < 2 ^ Suc k"
      using lt by (metis (mono_tags) diff_less_eq less_add_one of_nat_less_iff of_nat_numeral
          of_nat_power order_less_trans)
  qed
  finally show ?thesis using assms(2) by linarith
qed

lemma ring_push_commit_list:
  assumes wf: "ring_wf r" and room: "ring_count r < unat (num r)"
    and len: "len \<le> singleSize r" "unat len \<le> length buf"
  obtains r' where "ring_push_commit r buf len = Some r'" and "ring_wf r'"
    and "ring_list r' = ring_list r @ [take (unat len) buf]"
    and "num r' = num r" and "singleSize r' = singleSize r" and "isStop r' = isStop r"
proof -
  let ?i = "ring_slot r (ring_count r)"
  obtain c where c: "bufArray r ! ?i = Some c" "length c = unat (singleSize r)"
    using ring_cell_shape(1) [OF wf ring_slot_less [OF wf]] by blast
  let ?cell = "take (unat len) buf @ drop (unat len) c"
  define r' where "r' = r\<lparr>bufArray := (bufArray r)[?i := Some ?cell],
    lenArray := (lenArray r)[?i := len],
    writeIndex := (writeIndex r + 1) AND (2 * num r - 1)\<rparr>"
  have i: "?i < unat (num r)" using wf by (rule ring_slot_less)
  have size: "0 < unat (singleSize r)" "unat (singleSize r) \<le> SECUREC_MEM_MAX_LEN"
    "length (bufArray r) = unat (num r)" "length (lenArray r) = unat (num r)"
    using wf by (simp_all add: ring_wf_def unat_gt_0)
  have commit: "ring_push_commit r buf len = Some r'"
    using len size c by (simp add: ring_push_commit_def ring_write_slot [OF wf] memcpy_s_def
        r'_def word_le_nat_alt Let_def)
  have count: "ring_count r' = Suc (ring_count r)"
    using ring_count_write_step [OF wf room] by (simp add: ring_count_def r'_def)
  have slot: "ring_slot r' j = ring_slot r j" for j by (simp add: ring_slot_def r'_def)
  have cell_old: "ring_cell r' (ring_slot r j) = ring_cell r (ring_slot r j)"
    if "j < ring_count r" for j
  proof -
    have "ring_slot r j \<noteq> ?i"
      using ring_slot_inj [OF wf, of j "ring_count r"] that room by auto
    then show ?thesis by (simp add: ring_cell_def r'_def)
  qed
  have cell_new: "ring_cell r' ?i = take (unat len) buf"
    using i size len by (simp add: ring_cell_def r'_def)
  have list: "ring_list r' = ring_list r @ [take (unat len) buf]"
    using cell_old cell_new by (simp add: ring_list_def count slot)
  have "length ?cell = unat (singleSize r)"
    using len c(2) by (simp add: word_le_nat_alt)
  then have "ring_wf r'"
    using wf len count room ring_index_step(2) [OF wf]
    by (auto simp: ring_wf_def r'_def intro!: list_all_update)
  with commit list that show ?thesis by (simp add: r'_def)
qed

lemma ring_pop_commit_list:
  assumes wf: "ring_wf r" and some: "ring_list r \<noteq> []"
    and fits: "length (hd (ring_list r)) \<le> unat maxLen" "0 < unat maxLen"
    "unat maxLen \<le> SECUREC_MEM_MAX_LEN"
  obtains r' where "ring_pop_commit r maxLen = Some (hd (ring_list r), r')" and "ring_wf r'"
    and "ring_list r' = tl (ring_list r)"
    and "num r' = num r" and "singleSize r' = singleSize r" and "isStop r' = isStop r"
proof -
  let ?i = "ring_slot r 0"
  define r' where "r' = r\<lparr>readIndex := (readIndex r + 1) AND (2 * num r - 1)\<rparr>"
  have pos: "0 < ring_count r" using some by (simp flip: length_greater_0_conv)
  obtain k where k: "k < 32" "num r = 2 ^ k" "2 * num r = 2 ^ Suc k" using wf by (rule ring_wfE)
  have i: "?i < unat (num r)" using wf by (rule ring_slot_less)
  obtain c where c: "bufArray r ! ?i = Some c" "length c = unat (singleSize r)"
    using ring_cell_shape(1) [OF wf i] by blast
  have l: "unat (lenArray r ! ?i) \<le> length c"
    using ring_cell_shape(2) [OF wf i] c(2) by simp
  have upt: "[0..<ring_count r] = 0 # map Suc [0..<ring_count r - 1]"
    using pos by (metis Suc_pred' map_Suc_upt upt_conv_Cons)
  have hd: "hd (ring_list r) = take (unat (lenArray r ! ?i)) c"
    by (simp add: ring_list_def upt ring_cell_def c(1))
  have commit: "ring_pop_commit r maxLen = Some (hd (ring_list r), r')"
    using fits l c unfolding hd
    by (simp add: ring_pop_commit_def ring_slot_def [symmetric, where i = 0, simplified]
        memcpy_s_def r'_def Let_def)
  have count: "Suc (ring_count r') = ring_count r"
    using ring_count_read_step [OF wf pos] by (simp add: ring_count_def r'_def)
  have slot: "ring_slot r' j = ring_slot r (Suc j)" for j
  proof -
    have "unat (readIndex r') mod 2 ^ k = (unat (readIndex r) + 1) mod 2 ^ k"
    proof -
      have "Suc k \<le> LENGTH(32)" using k(1) by simp
      then have "unat (readIndex r') = (unat (readIndex r) + 1) mod 2 ^ Suc k"
        by (simp add: r'_def k(3) unat_add_and_mask del: power_Suc)
      then show ?thesis by (simp add: mod_mod_cancel)
    qed
    then have "(unat (readIndex r') + j) mod 2 ^ k = (unat (readIndex r) + Suc j) mod 2 ^ k"
      by (metis add.assoc mod_add_left_eq plus_1_eq_Suc)
    then show ?thesis
      using k by (simp add: ring_slot_eq r'_def)
  qed
  have cell: "ring_cell r' = ring_cell r" by (simp add: ring_cell_def r'_def fun_eq_iff)
  have list: "ring_list r' = tl (ring_list r)"
    unfolding ring_list_def upt using count by (simp add: slot cell o_def flip: count)
  have "ring_wf r'"
    using wf count ring_index_step(2) [OF wf, of "readIndex r"]
    by (auto simp: ring_wf_def r'_def)
  with commit list that show ?thesis by (simp add: r'_def)
qed

section \<open>The queue contract\<close>

text \<open>
  What the stream readers and writers rely on: an accepted element joins the back of the
  queue, a returned element is the front, and nothing is accepted beyond the capacity.
\<close>

fun fifo_run :: "('q \<Rightarrow> 'a \<Rightarrow> 'q step_result) \<Rightarrow> ('q \<Rightarrow> ('a \<times> 'q) step_result) \<Rightarrow>
    'q \<Rightarrow> 'a option list \<Rightarrow> 'a list \<times> 'a list \<times> 'q" where
  "fifo_run psh pp q [] = ([], [], q)"
| "fifo_run psh pp q (Some x # ops) =
     (case psh q x of
        Done q' \<Rightarrow> (case fifo_run psh pp q' ops of (ins, outs, q'') \<Rightarrow> (x # ins, outs, q''))
      | _ \<Rightarrow> fifo_run psh pp q ops)"
| "fifo_run psh pp q (None # ops) =
     (case pp q of
        Done (y, q') \<Rightarrow> (case fifo_run psh pp q' ops of (ins, outs, q'') \<Rightarrow> (ins, y # outs, q''))
      | _ \<Rightarrow> fifo_run psh pp q ops)"

locale bounded_fifo =
  fixes push :: "'q \<Rightarrow> 'a \<Rightarrow> 'q step_result"
    and pop :: "'q \<Rightarrow> ('a \<times> 'q) step_result"
    and contents :: "'q \<Rightarrow> 'a list"
    and capacity :: "'q \<Rightarrow> nat"
    and inv :: "'q \<Rightarrow> bool"
  assumes push_done: "\<lbrakk>inv q; push q x = Done q'\<rbrakk> \<Longrightarrow>
      inv q' \<and> contents q' = contents q @ [x] \<and> capacity q' = capacity q"
    and pop_done: "\<lbrakk>inv q; pop q = Done (y, q')\<rbrakk> \<Longrightarrow>
      inv q' \<and> contents q = y # contents q' \<and> capacity q' = capacity q"
    and bound: "inv q \<Longrightarrow> length (contents q) \<le> capacity q"
    and pop_progress: "\<lbrakk>inv q; contents q \<noteq> []\<rbrakk> \<Longrightarrow> \<exists>y q'. pop q = Done (y, q')"
begin

lemma run_keeps_order:
  assumes "inv q" and "fifo_run push pop q ops = (ins, outs, q')"
  shows "inv q' \<and> contents q @ ins = outs @ contents q' \<and> capacity q' = capacity q"
  using assms
proof (induction ops arbitrary: q ins outs)
  case Nil
  then show ?case by simp
next
  case (Cons a ops)
  show ?case
  proof (cases a)
    case (Some x)
    show ?thesis
    proof (cases "push q x")
      case (Done q1)
      with Cons.prems(2) Some obtain ins1 where run: "fifo_run push pop q1 ops = (ins1, outs, q')"
        and ins: "ins = x # ins1" by (auto split: prod.splits)
      from push_done [OF Cons.prems(1) Done] Cons.IH [OF _ run] show ?thesis
        by (simp add: ins)
    qed (use Cons Some in auto)
  next
    case None
    show ?thesis
    proof (cases "pop q")
      case (Done yq)
      obtain y q1 where yq: "yq = (y, q1)" by (cases yq)
      with Done Cons.prems(2) None obtain outs1 where
        run: "fifo_run push pop q1 ops = (ins, outs1, q')" and outs: "outs = y # outs1"
        by (auto split: prod.splits)
      from pop_done [OF Cons.prems(1) Done [unfolded yq]] Cons.IH [OF _ run] show ?thesis
        by (simp add: outs)
    qed (use Cons None in auto)
  qed
qed

lemma run_bounded:
  assumes "inv q" and "fifo_run push pop q ops = (ins, outs, q')"
  shows "length (contents q) + length ins \<le> length outs + capacity q"
proof -
  from run_keeps_order [OF assms] have "inv q'"
    and eq: "contents q @ ins = outs @ contents q'" and "capacity q' = capacity q" by auto
  then have "length (contents q') \<le> capacity q" using bound by metis
  with arg_cong [OF eq, of length] show ?thesis by simp
qed

end

lemma ring_push_done:
  assumes "ring_wf r" and "unat len \<le> length buf" and "ring_push r (Some buf) len = Done r'"
  shows "ring_wf r'" and "ring_list r' = ring_list r @ [take (unat len) buf]"
    and "num r' = num r" and "singleSize r' = singleSize r" and "isStop r' = isStop r"
    and "ring_count r < unat (num r)"
proof -
  from assms(3) have acc: "len \<noteq> 0" "len \<le> singleSize r" "\<not> ring_is_full r"
    and commit: "ring_push_commit r buf len = Some r'"
    by (auto simp: ring_push_def split: if_splits option.splits)
  from acc(3) assms(1) show room: "ring_count r < unat (num r)"
    by (simp add: ring_full_iff ring_wf_def order_less_le)
  from ring_push_commit_list [OF assms(1) room acc(2) assms(2)] commit
  show "ring_wf r'" and "ring_list r' = ring_list r @ [take (unat len) buf]"
    and "num r' = num r" and "singleSize r' = singleSize r" and "isStop r' = isStop r"
    by auto
qed

lemma ring_list_elem_length:
  assumes "ring_wf r" and "x \<in> set (ring_list r)"
  shows "length x \<le> unat (singleSize r)"
proof -
  from assms(2) obtain i where x: "x = ring_cell r (ring_slot r i)"
    by (auto simp: ring_list_def)
  have "unat (lenArray r ! ring_slot r i) \<le> unat (singleSize r)"
    by (rule ring_cell_shape(2) [OF assms(1) ring_slot_less [OF assms(1)]])
  then show ?thesis by (simp add: x ring_cell_def)
qed

lemma ring_pop_done:
  assumes wf: "ring_wf r" and pop: "ring_pop r True maxLen = Done (y, r')"
  shows "ring_wf r'" and "ring_list r = y # ring_list r'"
    and "num r' = num r" and "singleSize r' = singleSize r" and "isStop r' = isStop r"
proof -
  from pop have ne: "\<not> ring_is_empty r" and commit: "ring_pop_commit r maxLen = Some (y, r')"
    by (auto simp: ring_pop_def split: if_splits option.splits)
  then have some: "ring_list r \<noteq> []" using ring_empty_iff [OF wf] by simp
  have pos: "0 < ring_count r" using some by (simp flip: length_greater_0_conv)
  have upt: "[0..<ring_count r] = 0 # map Suc [0..<ring_count r - 1]"
    using pos by (metis Suc_pred' map_Suc_upt upt_conv_Cons)
  have hd: "hd (ring_list r) = ring_cell r (ring_slot r 0)"
    by (simp add: ring_list_def upt)
  obtain c where c: "bufArray r ! ring_slot r 0 = Some c" "length c = unat (singleSize r)"
    using ring_cell_shape(1) [OF wf ring_slot_less [OF wf]] by blast
  have l: "unat (lenArray r ! ring_slot r 0) \<le> unat (singleSize r)"
    by (rule ring_cell_shape(2) [OF wf ring_slot_less [OF wf]])
  from commit have "0 < unat maxLen" "unat maxLen \<le> SECUREC_MEM_MAX_LEN"
    "unat (lenArray r ! ring_slot r 0) \<le> unat maxLen"
    by (auto simp: ring_pop_commit_def memcpy_s_def Let_def ring_slot_def
        split: if_splits option.splits)
  moreover from this have "length (hd (ring_list r)) \<le> unat maxLen"
    using c l by (simp add: hd ring_cell_def)
  ultimately obtain r'' where
    "ring_pop_commit r maxLen = Some (hd (ring_list r), r'')" "ring_wf r''"
    "ring_list r'' = tl (ring_list r)" "num r'' = num r"
    "singleSize r'' = singleSize r" "isStop r'' = isStop r"
    using ring_pop_commit_list [OF wf some] by blast
  with commit some show "ring_wf r'" and "ring_list r = y # ring_list r'"
    and "num r' = num r" and "singleSize r' = singleSize r" and "isStop r' = isStop r"
    by auto
qed

lemma ring_pop_progress:
  assumes wf: "ring_wf r" and some: "ring_list r \<noteq> []" and buf: "singleSize r \<le> maxLen"
    "unat maxLen \<le> SECUREC_MEM_MAX_LEN"
  shows "\<exists>r'. ring_pop r True maxLen = Done (hd (ring_list r), r')"
proof -
  have "0 < unat (singleSize r)" using wf by (simp add: ring_wf_def unat_gt_0)
  with buf(1) have "0 < unat maxLen" by (simp add: word_le_nat_alt)
  moreover have "length (hd (ring_list r)) \<le> unat maxLen"
    using ring_list_elem_length [OF wf, of "hd (ring_list r)"] some buf(1)
    by (simp add: word_le_nat_alt)
  ultimately obtain r' where "ring_pop_commit r maxLen = Some (hd (ring_list r), r')"
    using ring_pop_commit_list [OF wf some _ _ buf(2)] by blast
  moreover have "\<not> ring_is_empty r" using ring_empty_iff [OF wf] some by simp
  ultimately show ?thesis by (simp add: ring_pop_def)
qed

definition ring_push_bytes :: "ring \<Rightarrow> bytes \<Rightarrow> ring step_result" where
  "ring_push_bytes r x =
     (if length x < 2 ^ 32 then ring_push r (Some x) (of_nat (length x)) else Fail)"

definition ring_pop_bytes :: "ring \<Rightarrow> (bytes \<times> ring) step_result" where
  "ring_pop_bytes r = ring_pop r True (singleSize r)"

interpretation ring: bounded_fifo ring_push_bytes ring_pop_bytes ring_list
  "\<lambda>r. unat (num r)" ring_wf
proof unfold_locales
  fix q q' :: ring and x :: bytes
  assume wf: "ring_wf q" and psh: "ring_push_bytes q x = Done q'"
  then have "length x < 2 ^ 32" and "ring_push q (Some x) (of_nat (length x)) = Done q'"
    by (auto simp: ring_push_bytes_def split: if_splits)
  then show "ring_wf q' \<and> ring_list q' = ring_list q @ [x] \<and> unat (num q') = unat (num q)"
    using ring_push_done [OF wf, of "of_nat (length x)" x q'] by (simp add: unat_of_nat)
next
  fix q q' :: ring and y :: bytes
  assume "ring_wf q" and "ring_pop_bytes q = Done (y, q')"
  then show "ring_wf q' \<and> ring_list q = y # ring_list q' \<and> unat (num q') = unat (num q)"
    using ring_pop_done [of q "singleSize q" y q'] by (simp add: ring_pop_bytes_def)
next
  fix q :: ring
  assume "ring_wf q"
  then show "length (ring_list q) \<le> unat (num q)" by (simp add: ring_wf_def)
next
  fix q :: ring
  assume wf: "ring_wf q" and "ring_list q \<noteq> []"
  then show "\<exists>y q'. ring_pop_bytes q = Done (y, q')"
    using ring_pop_progress [OF wf, of "singleSize q"] wf
    by (auto simp: ring_pop_bytes_def ring_wf_def)
qed

section \<open>Initialisation and reset\<close>

lemma ring_alloc_cells_all:
  "(\<And>j. i \<le> j \<Longrightarrow> j < i + n \<Longrightarrow> alloc j) \<Longrightarrow>
   ring_alloc_cells alloc sz i n = replicate n (Some (replicate sz 0))"
  by (induction n arbitrary: i) auto

lemma ring_alloc_cells_None:
  "None \<in> set (ring_alloc_cells alloc sz i n) \<longleftrightarrow> (\<exists>j. i \<le> j \<and> j < i + n \<and> \<not> alloc j)"
proof (induction n arbitrary: i)
  case 0
  then show ?case by simp
next
  case (Suc n)
  show ?case
  proof (cases "alloc i")
    case True
    then have "(\<exists>j. Suc i \<le> j \<and> j < Suc i + n \<and> \<not> alloc j) \<longleftrightarrow>
        (\<exists>j. i \<le> j \<and> j < i + Suc n \<and> \<not> alloc j)"
      by (metis Suc_leD Suc_leI add_Suc_shift le_neq_implies_less)
    with True Suc.IH show ?thesis by simp
  next
    case False
    then show ?thesis by (auto intro!: exI [of _ i])
  qed
qed

lemma ring_wf_fresh:
  assumes "n \<noteq> 0" and "n AND (n - 1) = 0" and "sz \<noteq> 0" and "unat sz \<le> SECUREC_MEM_MAX_LEN"
    and "writeIndex r = 0" and "readIndex r = 0" and "num r = n" and "singleSize r = sz"
    and "bufArray r = replicate (unat n) (Some (replicate (unat sz) 0))"
    and "lenArray r = replicate (unat n) 0"
  shows "ring_wf r" and "ring_list r = []"
  using assms by (simp_all add: ring_wf_def ring_list_def ring_count_def list_all_iff)

lemma ring_init_cases:
  assumes "ring_init alloc sz n r = (ok, r')"
  shows "ok = (sz \<noteq> 0 \<and> n \<noteq> 0 \<and> n AND (n - 1) = 0 \<and> (\<forall>i<unat n + 2. alloc i))"
    and "ok \<Longrightarrow> unat sz \<le> SECUREC_MEM_MAX_LEN \<Longrightarrow>
      ring_wf r' \<and> ring_list r' = [] \<and> num r' = n \<and> singleSize r' = sz \<and> isStop r' = isStop r"
    and "\<not> ok \<Longrightarrow> writeIndex r' = writeIndex r \<and> readIndex r' = readIndex r \<and>
      num r' = num r \<and> singleSize r' = singleSize r"
proof -
  have split: "(\<forall>i<unat n + 2. alloc i) \<longleftrightarrow>
      alloc 0 \<and> alloc 1 \<and> \<not> (\<exists>j. 2 \<le> j \<and> j < 2 + unat n \<and> \<not> alloc j)"
    by (auto simp: less_Suc_eq_0_disj numeral_2_eq_2) (metis One_nat_def Suc_le_eq add.commute
        add_Suc_right less_one not_less_eq nat_neq_iff plus_1_eq_Suc)
  show "ok = (sz \<noteq> 0 \<and> n \<noteq> 0 \<and> n AND (n - 1) = 0 \<and> (\<forall>i<unat n + 2. alloc i))"
    using assms unfolding split
    by (simp add: ring_init_def Let_def ring_alloc_cells_None split: if_splits) blast+
  then show "ok \<Longrightarrow> unat sz \<le> SECUREC_MEM_MAX_LEN \<Longrightarrow>
      ring_wf r' \<and> ring_list r' = [] \<and> num r' = n \<and> singleSize r' = sz \<and> isStop r' = isStop r"
    using assms ring_wf_fresh [of n sz r']
    by (auto simp: ring_init_def Let_def ring_alloc_cells_all split: if_splits)
  show "\<not> ok \<Longrightarrow> writeIndex r' = writeIndex r \<and> readIndex r' = readIndex r \<and>
      num r' = num r \<and> singleSize r' = singleSize r"
    using assms by (auto simp: ring_init_def Let_def split: if_splits)
qed

text \<open>
  \<open>Init\<close> succeeds exactly for a positive cell size, a power-of-two cell count and no
  failed allocation; the ring is then well formed and empty. A failed \<open>Init\<close> leaves the
  indices, the capacity and the cell size as they were.
\<close>

theorem ring_init_spec:
  assumes "ring_init alloc sz n r = (ok, r')" and "unat sz \<le> SECUREC_MEM_MAX_LEN"
  shows "ok = (sz \<noteq> 0 \<and> n \<noteq> 0 \<and> n AND (n - 1) = 0 \<and> (\<forall>i<unat n + 2. alloc i)) \<and>
    (if ok then ring_wf r' \<and> ring_list r' = [] \<and> num r' = n \<and> singleSize r' = sz
     else writeIndex r' = writeIndex r \<and> readIndex r' = readIndex r \<and>
       num r' = num r \<and> singleSize r' = singleSize r)"
proof (cases ok)
  case True
  with ring_init_cases(1,2) [OF assms(1)] assms(2) show ?thesis by simp
next
  case False
  with ring_init_cases(1,3) [OF assms(1)] show ?thesis by simp
qed

text \<open>
  C14. \<open>Push\<close> on a well-formed ring accepts a buffer of 1 to \<open>singleSize_\<close> bytes while fewer
  than \<open>num_\<close> cells are used and appends exactly its first \<open>len\<close> bytes to the queue; on a
  full ring it waits, or fails once the ring is stopped; it never overwrites a cell.
\<close>

theorem ring_push_spec:
  assumes "ring_wf r" and "unat len \<le> length buf"
  shows "case ring_push r (Some buf) len of
      Done r' \<Rightarrow> ring_wf r' \<and> ring_list r' = ring_list r @ [take (unat len) buf] \<and>
        len \<noteq> 0 \<and> len \<le> singleSize r \<and> ring_count r < unat (num r)
    | Blocked \<Rightarrow> ring_count r = unat (num r) \<and> \<not> isStop r \<and> len \<noteq> 0 \<and> len \<le> singleSize r
    | Fail \<Rightarrow> len = 0 \<or> singleSize r < len \<or> ring_count r = unat (num r) \<and> isStop r"
proof (cases "ring_push r (Some buf) len")
  case (Done r')
  moreover from this have "len \<noteq> 0" and "len \<le> singleSize r"
    by (auto simp: ring_push_def split: if_splits)
  ultimately show ?thesis using ring_push_done [OF assms] by simp
next
  case Fail
  have "ring_push_commit r buf len \<noteq> None" if "len \<le> singleSize r" "\<not> ring_is_full r"
  proof -
    have "ring_count r < unat (num r)"
      using that assms(1) by (simp add: ring_full_iff ring_wf_def order_less_le)
    then show ?thesis
      using ring_push_commit_list [OF assms(1) _ that(1) assms(2)] by (metis option.distinct(1))
  qed
  with Fail assms(1) show ?thesis
    by (auto simp: ring_push_def ring_full_iff not_less split: if_splits option.splits)
next
  case Blocked
  with assms(1) show ?thesis
    by (auto simp: ring_push_def ring_full_iff split: if_splits option.splits)
qed

text \<open>
  For every sequence of push and pop attempts on a ring, what comes out is what went in,
  in order and without loss or duplication: the bytes held at the start followed by the
  accepted buffers are the returned buffers followed by the bytes held at the end.
\<close>

theorem ring_fifo_order:
  assumes "ring_wf r" and "fifo_run ring_push_bytes ring_pop_bytes r ops = (ins, outs, r')"
  shows "ring_list r @ ins = outs @ ring_list r' \<and> ring_wf r' \<and>
    length (ring_list r) + length ins \<le> length outs + unat (num r)"
  using ring.run_keeps_order [OF assms] ring.run_bounded [OF assms] by auto

lemma ring_reset_wf:
  assumes "ring_wf r"
  shows "ring_wf (ring_reset r)" and "ring_list (ring_reset r) = []" and "\<not> isStop (ring_reset r)"
  using assms
  by (auto simp: ring_reset_def ring_stop_def ring_stop_push_def ring_stop_pop_def ring_wf_def
      ring_list_def ring_count_def Let_def list_all_iff)

section \<open>Witnesses\<close>

definition ring_example :: ring where
  "ring_example = snd (ring_init (\<lambda>_. True) 2 2 ring_new)"

lemma replicate_two: "replicate 2 x = [x, x]"
  by (simp add: numeral_2_eq_2)

lemma ring_example_eq:
  "ring_init (\<lambda>_. True) 2 2 ring_new = (True, ring_example)"
  "ring_example = \<lparr>writeIndex = 0, readIndex = 0, singleSize = 2, num = 2,
     bufArray = [Some [0, 0], Some [0, 0]], lenArray = [0, 0], isStop = False\<rparr>"
  by (simp_all add: ring_example_def ring_init_def ring_new_def Let_def ring_alloc_cells_all
      replicate_two)

lemma ring_example_wf: "ring_wf ring_example"
  by (simp add: ring_example_eq(2) ring_wf_def ring_count_def)

theorem ring_init_spec_witness:
  "ring_wf ring_example \<and> ring_list ring_example = [] \<and> num ring_example = 2 \<and>
   singleSize ring_example = 2"
  using ring_init_spec [OF ring_example_eq(1)] by simp

theorem ring_push_spec_witness:
  "\<exists>r'. ring_push ring_example (Some [7, 8, 9]) 2 = Done r' \<and> ring_list r' = [[7, 8]]"
proof -
  have "ring_push ring_example (Some [7, 8, 9]) 2 \<noteq> Blocked"
    and "ring_push ring_example (Some [7, 8, 9]) 2 \<noteq> Fail"
    by (simp_all add: ring_example_eq(2) ring_push_def ring_is_full_def ring_push_commit_def
        memcpy_s_def Let_def)
  moreover have "ring_list ring_example = []"
    by (simp add: ring_example_eq(2) ring_list_def ring_count_def)
  ultimately show ?thesis
    using ring_push_spec [OF ring_example_wf, of 2 "[7, 8, 9]"]
    by (auto split: step_result.splits)
qed

theorem ring_fifo_order_witness:
  "\<exists>r'. fifo_run ring_push_bytes ring_pop_bytes ring_example
      [None, Some [7], Some [8, 9], Some [5], None] = ([[7], [8, 9]], [[7]], r')
    \<and> [[7], [8, 9]] = [[7]] @ ring_list r'"
proof -
  have "\<exists>r'. fifo_run ring_push_bytes ring_pop_bytes ring_example
      [None, Some [7], Some [8, 9], Some [5], None] = ([[7], [8, 9]], [[7]], r')"
    by (simp add: ring_example_eq(2) ring_push_bytes_def ring_pop_bytes_def ring_push_def
        ring_pop_def ring_is_full_def ring_is_empty_def ring_push_commit_def ring_pop_commit_def
        memcpy_s_def Let_def)
  then obtain r' where run: "fifo_run ring_push_bytes ring_pop_bytes ring_example
      [None, Some [7], Some [8, 9], Some [5], None] = ([[7], [8, 9]], [[7]], r')" by blast
  have "ring_list ring_example = []"
    by (simp add: ring_example_eq(2) ring_list_def ring_count_def)
  with ring_fifo_order [OF ring_example_wf run] run show ?thesis by simp
qed

end
