(* ===== verification/Ring_Concurrency.thy ===== *)
theory Ring_Concurrency
  imports Ring_Buffer
begin

text \<open>
  \<open>RingBuffer::Push\<close> and \<open>RingBuffer::Pop\<close> run by one producer and one consumer thread, with
  \<open>StopPush\<close>, \<open>StopPop\<close> and \<open>Reset\<close> called by a third. One action is one section of the code
  that no other thread can split: a call of \<open>IsFull\<close> or \<open>IsEmpty\<close> (under \<open>arrayMtx_\<close>), an
  acquisition of \<open>notifyMtx_\<close>, the copy (under \<open>arrayMtx_\<close>), a wait, which releases
  \<open>notifyMtx_\<close>, and the notification at the end (under \<open>notifyMtx_\<close>). The condition variables
  are the sleeping states: \<open>notify_all\<close> moves a sleeper to the acquisition of the lock, and so
  may a spurious wake-up. The scheduler is the list of actions.
\<close>

section \<open>The system of threads\<close>

datatype ppc = PIdle | PTest bytes | PLock bytes | PLoop bytes | PFull bytes | PSleep bytes
  | PCopy bytes | PNotify

datatype cpc = CIdle | CTest u32 | CLock u32 | CLoop u32 | CEmpty u32 | CSleep u32
  | CCopy u32 | CNotify

text \<open>The thread in \<open>Reset\<close>: \<open>Stop\<close> is \<open>StopPush\<close> then \<open>StopPop\<close>, then the flag, then the indices.\<close>

datatype rpc = RIdle | RStopPop | RFlag | RClear

datatype thread = Producer | Consumer

record sys =
  rb :: ring
  prod :: ppc
  cons :: cpc
  resetter :: rpc
  owner :: "thread option"
  accepted :: "bytes list"
  returned :: "bytes list"

datatype action = ActPCall bytes | ActP | ActPSpurious | ActCCall u32 | ActC | ActCSpurious
  | ActStopPush | ActStopPop | ActResetCall | ActReset

fun wake_producer :: "ppc \<Rightarrow> ppc" where
  "wake_producer (PSleep d) = PLock d"
| "wake_producer p = p"

fun wake_consumer :: "cpc \<Rightarrow> cpc" where
  "wake_consumer (CSleep m) = CLock m"
| "wake_consumer c = c"

text \<open>One step of the producer inside \<open>Push\<close>; None where it cannot move.\<close>

definition producer_step :: "sys \<Rightarrow> sys option" where
  "producer_step s =
     (case prod s of
        PIdle \<Rightarrow> None
      | PTest d \<Rightarrow> Some (s\<lparr>prod := (if ring_is_full (rb s) then PLock d else PCopy d)\<rparr>)
      | PLock d \<Rightarrow>
          (if owner s = None then Some (s\<lparr>prod := PLoop d, owner := Some Producer\<rparr>) else None)
      | PLoop d \<Rightarrow>
          Some (if ring_is_full (rb s) then s\<lparr>prod := PFull d\<rparr>
                else s\<lparr>prod := PCopy d, owner := None\<rparr>)
      | PFull d \<Rightarrow>
          Some (if isStop (rb s) then s\<lparr>prod := PIdle, owner := None\<rparr>
                else s\<lparr>prod := PSleep d, owner := None\<rparr>)
      | PSleep d \<Rightarrow> None
      | PCopy d \<Rightarrow>
          Some (case ring_push_commit (rb s) d (of_nat (length d)) of
              None \<Rightarrow> s\<lparr>prod := PIdle\<rparr>
            | Some r' \<Rightarrow> s\<lparr>rb := r', prod := PNotify, accepted := accepted s @ [d]\<rparr>)
      | PNotify \<Rightarrow>
          (if owner s = None then Some (s\<lparr>prod := PIdle, cons := wake_consumer (cons s)\<rparr>)
           else None))"

definition consumer_step :: "sys \<Rightarrow> sys option" where
  "consumer_step s =
     (case cons s of
        CIdle \<Rightarrow> None
      | CTest m \<Rightarrow> Some (s\<lparr>cons := (if ring_is_empty (rb s) then CLock m else CCopy m)\<rparr>)
      | CLock m \<Rightarrow>
          (if owner s = None then Some (s\<lparr>cons := CLoop m, owner := Some Consumer\<rparr>) else None)
      | CLoop m \<Rightarrow>
          Some (if ring_is_empty (rb s) then s\<lparr>cons := CEmpty m\<rparr>
                else s\<lparr>cons := CCopy m, owner := None\<rparr>)
      | CEmpty m \<Rightarrow>
          Some (if isStop (rb s) then s\<lparr>cons := CIdle, owner := None\<rparr>
                else s\<lparr>cons := CSleep m, owner := None\<rparr>)
      | CSleep m \<Rightarrow> None
      | CCopy m \<Rightarrow>
          Some (case ring_pop_commit (rb s) m of
              None \<Rightarrow> s\<lparr>cons := CIdle\<rparr>
            | Some (y, r') \<Rightarrow> s\<lparr>rb := r', cons := CNotify, returned := returned s @ [y]\<rparr>)
      | CNotify \<Rightarrow>
          (if owner s = None then Some (s\<lparr>cons := CIdle, prod := wake_producer (prod s)\<rparr>)
           else None))"

definition stop_push_step :: "sys \<Rightarrow> sys option" where
  "stop_push_step s =
     (if owner s = None
      then Some (s\<lparr>rb := ring_stop_push (rb s), prod := wake_producer (prod s)\<rparr>) else None)"

definition stop_pop_step :: "sys \<Rightarrow> sys option" where
  "stop_pop_step s =
     (if owner s = None
      then Some (s\<lparr>rb := ring_stop_pop (rb s), cons := wake_consumer (cons s)\<rparr>) else None)"

text \<open>
  \<open>Reset\<close> one section at a time; the last one discards what the ring holds, so the history
  starts again.
\<close>

definition reset_step :: "sys \<Rightarrow> sys option" where
  "reset_step s =
     (case resetter s of
        RIdle \<Rightarrow> map_option (\<lambda>t. t\<lparr>resetter := RStopPop\<rparr>) (stop_push_step s)
      | RStopPop \<Rightarrow> map_option (\<lambda>t. t\<lparr>resetter := RFlag\<rparr>) (stop_pop_step s)
      | RFlag \<Rightarrow> Some (s\<lparr>rb := (rb s)\<lparr>isStop := False\<rparr>, resetter := RClear\<rparr>)
      | RClear \<Rightarrow> Some (s\<lparr>rb := (ring_reset (rb s))\<lparr>isStop := isStop (rb s)\<rparr>,
                         resetter := RIdle, accepted := [], returned := []\<rparr>))"

fun conc_exec :: "action \<Rightarrow> sys \<Rightarrow> sys option" where
  "conc_exec (ActPCall d) s =
     (if prod s = PIdle \<and> d \<noteq> [] \<and> length d \<le> unat (singleSize (rb s))
      then Some (s\<lparr>prod := PTest d\<rparr>) else None)"
| "conc_exec ActP s = producer_step s"
| "conc_exec ActPSpurious s =
     (case prod s of PSleep d \<Rightarrow> Some (s\<lparr>prod := PLock d\<rparr>) | _ \<Rightarrow> None)"
| "conc_exec (ActCCall m) s = (if cons s = CIdle then Some (s\<lparr>cons := CTest m\<rparr>) else None)"
| "conc_exec ActC s = consumer_step s"
| "conc_exec ActCSpurious s =
     (case cons s of CSleep m \<Rightarrow> Some (s\<lparr>cons := CLock m\<rparr>) | _ \<Rightarrow> None)"
| "conc_exec ActStopPush s = stop_push_step s"
| "conc_exec ActStopPop s = stop_pop_step s"
| "conc_exec ActResetCall s = (if resetter s = RIdle then reset_step s else None)"
| "conc_exec ActReset s = (if resetter s = RIdle then None else reset_step s)"

fun is_reset :: "action \<Rightarrow> bool" where
  "is_reset ActResetCall = True"
| "is_reset ActReset = True"
| "is_reset _ = False"

fun conc_run :: "action list \<Rightarrow> sys \<Rightarrow> sys option" where
  "conc_run [] s = Some s"
| "conc_run (a # as) s = (case conc_exec a s of None \<Rightarrow> None | Some t \<Rightarrow> conc_run as t)"

definition sys_init :: "ring \<Rightarrow> sys" where
  "sys_init r = \<lparr>rb = r, prod = PIdle, cons = CIdle, resetter = RIdle, owner = None,
     accepted = [], returned = []\<rparr>"

inductive conc_reach :: "ring \<Rightarrow> sys \<Rightarrow> bool" for r0 :: ring where
  start: "conc_reach r0 (sys_init r0)"
| step: "conc_reach r0 s \<Longrightarrow> \<not> is_reset a \<Longrightarrow> conc_exec a s = Some t \<Longrightarrow> conc_reach r0 t"

section \<open>The invariant\<close>

text \<open>
  \<open>prod_ok r n p\<close> is what is known of the ring when the producer is at \<open>p\<close>, where \<open>n\<close> says
  that the consumer has popped and not yet notified; symmetrically for \<open>cons_ok\<close>.
\<close>

definition valid_item :: "ring \<Rightarrow> bytes \<Rightarrow> bool" where
  "valid_item r d \<longleftrightarrow> d \<noteq> [] \<and> length d \<le> unat (singleSize r)"

fun prod_ok :: "ring \<Rightarrow> bool \<Rightarrow> ppc \<Rightarrow> bool" where
  "prod_ok r n PIdle = True"
| "prod_ok r n (PTest d) = valid_item r d"
| "prod_ok r n (PLock d) = valid_item r d"
| "prod_ok r n (PLoop d) = valid_item r d"
| "prod_ok r n (PFull d) = (valid_item r d \<and> (ring_is_full r \<or> n))"
| "prod_ok r n (PSleep d) = (valid_item r d \<and> (ring_is_full r \<or> n))"
| "prod_ok r n (PCopy d) = (valid_item r d \<and> \<not> ring_is_full r)"
| "prod_ok r n PNotify = True"

fun cons_ok :: "ring \<Rightarrow> bool \<Rightarrow> cpc \<Rightarrow> bool" where
  "cons_ok r n (CEmpty m) = (ring_is_empty r \<or> n)"
| "cons_ok r n (CSleep m) = (ring_is_empty r \<or> n)"
| "cons_ok r n (CCopy m) = (\<not> ring_is_empty r)"
| "cons_ok r n _ = True"

fun prod_holds :: "ppc \<Rightarrow> bool" where
  "prod_holds (PLoop d) = True"
| "prod_holds (PFull d) = True"
| "prod_holds _ = False"

fun cons_holds :: "cpc \<Rightarrow> bool" where
  "cons_holds (CLoop m) = True"
| "cons_holds (CEmpty m) = True"
| "cons_holds _ = False"

definition conc_inv :: "sys \<Rightarrow> bool" where
  "conc_inv s \<longleftrightarrow>
     ring_wf (rb s) \<and>
     accepted s = returned s @ ring_list (rb s) \<and>
     prod_ok (rb s) (cons s = CNotify) (prod s) \<and>
     cons_ok (rb s) (prod s = PNotify) (cons s) \<and>
     (owner s = Some Producer \<longleftrightarrow> prod_holds (prod s)) \<and>
     (owner s = Some Consumer \<longleftrightarrow> cons_holds (cons s))"

lemma prod_ok_notify: "\<not> ring_is_full r' \<Longrightarrow> prod_ok r n p \<Longrightarrow> singleSize r' = singleSize r \<Longrightarrow>
    prod_ok r' True p"
  by (cases p) (auto simp: valid_item_def)

lemma prod_ok_weaken: "prod_ok r False p \<Longrightarrow> prod_ok r n p"
  by (cases p) auto

lemma prod_ok_wake: "prod_ok r n p \<Longrightarrow> \<not> prod_holds p \<Longrightarrow> prod_ok r n' (wake_producer p)"
  by (cases p) auto

lemma cons_ok_notify: "\<not> ring_is_empty r' \<Longrightarrow> cons_ok r' True c"
  by (cases c) auto

lemma cons_ok_weaken: "cons_ok r False c \<Longrightarrow> cons_ok r n c"
  by (cases c) auto

lemma cons_ok_wake: "cons_ok r n c \<Longrightarrow> \<not> cons_holds c \<Longrightarrow> cons_ok r n' (wake_consumer c)"
  by (cases c) auto

lemma wake_producer_simps [simp]:
  "prod_holds (wake_producer p) = prod_holds p" "wake_producer p = PNotify \<longleftrightarrow> p = PNotify"
  by (cases p; simp)+

lemma wake_consumer_simps [simp]:
  "cons_holds (wake_consumer c) = cons_holds c" "wake_consumer c = CNotify \<longleftrightarrow> c = CNotify"
  by (cases c; simp)+

text \<open>The two copies, as facts about fullness and emptiness.\<close>

lemma commit_push_effect:
  assumes "ring_wf r" and "\<not> ring_is_full r" and "d \<noteq> []" and "length d \<le> unat (singleSize r)"
  obtains r' where "ring_push_commit r d (of_nat (length d)) = Some r'" and "ring_wf r'"
    and "ring_list r' = ring_list r @ [d]" and "\<not> ring_is_empty r'"
    and "singleSize r' = singleSize r"
proof -
  have "length d < 2 ^ 32"
    using assms(4) unsigned_less [of "singleSize r", where 'a = nat] by simp
  then have u: "unat (of_nat (length d) :: u32) = length d" by (simp add: unat_of_nat)
  then have le: "(of_nat (length d) :: u32) \<le> singleSize r"
    using assms(4) by (simp add: word_le_nat_alt)
  have room: "ring_count r < unat (num r)"
    using assms(1,2) by (simp add: ring_full_iff ring_wf_def order_less_le)
  obtain r' where r': "ring_push_commit r d (of_nat (length d)) = Some r'" "ring_wf r'"
    "ring_list r' = ring_list r @ [take (unat (of_nat (length d) :: u32)) d]"
    "singleSize r' = singleSize r"
    using ring_push_commit_list [OF assms(1) room le] u by (metis order_refl)
  from r' u that show ?thesis by (simp add: ring_empty_iff)
qed

lemma commit_pop_effect:
  assumes "ring_wf r" and "\<not> ring_is_empty r" and "ring_pop_commit r m = Some (y, r')"
  shows "ring_wf r'" and "ring_list r = y # ring_list r'" and "\<not> ring_is_full r'"
    and "singleSize r' = singleSize r"
proof -
  have pop: "ring_pop r True m = Done (y, r')"
    using assms(2,3) by (simp add: ring_pop_def)
  note facts = ring_pop_done [OF assms(1) pop]
  show "ring_wf r'" and "ring_list r = y # ring_list r'" and "singleSize r' = singleSize r"
    by (rule facts)+
  have "length (ring_list r) \<le> unat (num r)" using assms(1) by (simp add: ring_wf_def)
  with facts(2,3) have "length (ring_list r') < unat (num r')" by simp
  then show "\<not> ring_is_full r'" using facts(1) by (simp add: ring_full_iff)
qed

lemma ring_not_both:
  assumes "ring_wf r" and "ring_is_full r" and "ring_is_empty r"
  shows False
proof -
  have "ring_count r = unat (num r)" using assms by (simp add: ring_full_iff)
  moreover have "ring_list r = []" using assms by (simp add: ring_empty_iff)
  then have "ring_count r = 0" by (metis list.size(3) ring_list_length)
  ultimately show False using assms(1) by (simp add: ring_wf_def unat_eq_0)
qed

lemma producer_step_inv:
  assumes inv: "conc_inv s" and step: "producer_step s = Some t"
  shows "conc_inv t"
proof (cases "prod s")
  case (PCopy d)
  from inv PCopy have "ring_wf (rb s)" "\<not> ring_is_full (rb s)" "d \<noteq> []"
    "length d \<le> unat (singleSize (rb s))"
    by (auto simp: conc_inv_def valid_item_def)
  then obtain r' where r': "ring_push_commit (rb s) d (of_nat (length d)) = Some r'" "ring_wf r'"
    "ring_list r' = ring_list (rb s) @ [d]" "\<not> ring_is_empty r'"
    "singleSize r' = singleSize (rb s)"
    by (rule commit_push_effect)
  with step PCopy have "t = s\<lparr>rb := r', prod := PNotify, accepted := accepted s @ [d]\<rparr>"
    by (simp add: producer_step_def)
  with inv r' PCopy show ?thesis by (simp add: conc_inv_def cons_ok_notify)
next
  case PNotify
  with inv step show ?thesis
    by (auto simp: conc_inv_def producer_step_def split: if_splits
        intro: cons_ok_wake)
qed (use inv step in \<open>auto simp: conc_inv_def producer_step_def split: if_splits\<close>)

lemma consumer_step_inv:
  assumes inv: "conc_inv s" and step: "consumer_step s = Some t"
  shows "conc_inv t"
proof (cases "cons s")
  case (CCopy m)
  show ?thesis
  proof (cases "ring_pop_commit (rb s) m")
    case None
    with inv step CCopy show ?thesis by (auto simp: conc_inv_def consumer_step_def)
  next
    case (Some yr)
    obtain y r' where yr: "yr = (y, r')" by (cases yr)
    from inv CCopy have wf: "ring_wf (rb s)" "\<not> ring_is_empty (rb s)"
      by (auto simp: conc_inv_def)
    note pop = commit_pop_effect [OF wf Some [unfolded yr]]
    from step CCopy Some yr have
      "t = s\<lparr>rb := r', cons := CNotify, returned := returned s @ [y]\<rparr>"
      by (simp add: consumer_step_def)
    with inv pop CCopy show ?thesis by (auto simp: conc_inv_def intro: prod_ok_notify)
  qed
next
  case CNotify
  with inv step show ?thesis
    by (auto simp: conc_inv_def consumer_step_def split: if_splits
        intro: prod_ok_wake)
qed (use inv step in \<open>auto simp: conc_inv_def consumer_step_def split: if_splits\<close>)

lemma ring_stop_view [simp]:
  "ring_wf (ring_stop_push r) = ring_wf r" "ring_list (ring_stop_push r) = ring_list r"
  "ring_is_full (ring_stop_push r) = ring_is_full r"
  "ring_is_empty (ring_stop_push r) = ring_is_empty r"
  "singleSize (ring_stop_push r) = singleSize r"
  "ring_wf (ring_stop_pop r) = ring_wf r" "ring_list (ring_stop_pop r) = ring_list r"
  "ring_is_full (ring_stop_pop r) = ring_is_full r"
  "ring_is_empty (ring_stop_pop r) = ring_is_empty r"
  "singleSize (ring_stop_pop r) = singleSize r"
  by (auto simp: ring_stop_push_def ring_stop_pop_def ring_wf_def ring_list_def ring_count_def
      ring_cell_def ring_slot_def ring_is_full_def ring_is_empty_def)

lemma stop_step_inv:
  assumes "conc_inv s"
  shows "stop_push_step s = Some t \<Longrightarrow> conc_inv t" and "stop_pop_step s = Some t \<Longrightarrow> conc_inv t"
proof -
  have view: "prod_ok (ring_stop_push r) n p = prod_ok r n p" "prod_ok (ring_stop_pop r) n p = prod_ok r n p"
    for r n p by (cases p; simp add: valid_item_def)+
  have view': "cons_ok (ring_stop_push r) n c = cons_ok r n c" "cons_ok (ring_stop_pop r) n c = cons_ok r n c"
    for r n c by (cases c; simp)+
  show "stop_push_step s = Some t \<Longrightarrow> conc_inv t"
    using assms by (auto simp: conc_inv_def stop_push_step_def view view' split: if_splits
        intro: prod_ok_wake)
  show "stop_pop_step s = Some t \<Longrightarrow> conc_inv t"
    using assms by (auto simp: conc_inv_def stop_pop_step_def view view' split: if_splits
        intro: cons_ok_wake)
qed

lemma conc_exec_inv:
  assumes inv: "conc_inv s" and nr: "\<not> is_reset a" and step: "conc_exec a s = Some t"
  shows "conc_inv t"
proof (cases a)
  case (ActPCall d)
  with inv step show ?thesis by (auto simp: conc_inv_def valid_item_def split: if_splits)
next
  case ActPSpurious
  with inv step show ?thesis by (auto simp: conc_inv_def split: ppc.splits)
next
  case (ActCCall m)
  with inv step show ?thesis by (auto simp: conc_inv_def split: if_splits)
next
  case ActCSpurious
  with inv step show ?thesis by (auto simp: conc_inv_def split: cpc.splits)
next
  case ActP
  with step show ?thesis using producer_step_inv [OF inv] by simp
next
  case ActC
  with step show ?thesis using consumer_step_inv [OF inv] by simp
next
  case ActStopPush
  with step show ?thesis using stop_step_inv(1) [OF inv] by simp
next
  case ActStopPop
  with step show ?thesis using stop_step_inv(2) [OF inv] by simp
qed (use nr in simp_all)

lemma conc_reach_inv:
  assumes "conc_reach r0 s" and "ring_wf r0" and "ring_list r0 = []"
  shows "conc_inv s"
  using assms(1)
proof (induction rule: conc_reach.induct)
  case start
  with assms(2,3) show ?case by (simp add: conc_inv_def sys_init_def)
next
  case (step s a t)
  then show ?case by (blast intro: conc_exec_inv)
qed

lemma holder_moves:
  "prod_holds (prod s) \<Longrightarrow> producer_step s \<noteq> None"
  "cons_holds (cons s) \<Longrightarrow> consumer_step s \<noteq> None"
  by (cases "prod s"; simp add: producer_step_def) (cases "cons s"; simp add: consumer_step_def)

section \<open>Properties of every interleaving\<close>

text \<open>
  C20. Under every scheduling of producer, consumer and stops, the buffers the consumer has
  received followed by those in the ring are exactly the buffers the producer had accepted,
  in order, and never more than \<open>num_\<close> are held.
\<close>

theorem ring_interleaving_fifo:
  assumes "ring_wf r0" and "ring_list r0 = []" and "conc_reach r0 s"
  shows "accepted s = returned s @ ring_list (rb s) \<and>
    length (accepted s) \<le> length (returned s) + unat (num (rb s))"
proof -
  have "conc_inv s" using conc_reach_inv assms by blast
  then show ?thesis by (auto simp: conc_inv_def ring_wf_def)
qed

text \<open>
  C21. No wake-up is lost: if a thread sleeps, then either what it waits for is still missing
  or the other thread is on its way to notify it; both never sleep together; and when both
  threads are inside their calls, one of them can take a step that is no spurious wake-up.
\<close>

theorem ring_no_lost_wakeup:
  assumes "ring_wf r0" and "ring_list r0 = []" and "conc_reach r0 s"
  shows "(\<forall>d. prod s = PSleep d \<longrightarrow> ring_is_full (rb s) \<or> cons s = CNotify) \<and>
    (\<forall>m. cons s = CSleep m \<longrightarrow> ring_is_empty (rb s) \<or> prod s = PNotify) \<and>
    \<not> (\<exists>d m. prod s = PSleep d \<and> cons s = CSleep m) \<and>
    (prod s \<noteq> PIdle \<and> cons s \<noteq> CIdle \<longrightarrow>
       producer_step s \<noteq> None \<or> consumer_step s \<noteq> None)"
proof -
  have inv: "conc_inv s" using conc_reach_inv assms by blast
  have psleep: "ring_is_full (rb s) \<or> cons s = CNotify" if "prod s = PSleep d" for d
    using inv that by (simp add: conc_inv_def)
  have csleep: "ring_is_empty (rb s) \<or> prod s = PNotify" if "cons s = CSleep m" for m
    using inv that by (simp add: conc_inv_def)
  have both: "\<not> (prod s = PSleep d \<and> cons s = CSleep m)" for d m
  proof
    assume *: "prod s = PSleep d \<and> cons s = CSleep m"
    with psleep csleep have "ring_is_full (rb s)" "ring_is_empty (rb s)" by auto
    moreover have "ring_wf (rb s)" using inv by (simp add: conc_inv_def)
    ultimately have "ring_is_full (rb s)" "ring_is_empty (rb s)" "ring_wf (rb s)" by blast+
    then show False using ring_not_both by blast
  qed
  have "producer_step s \<noteq> None \<or> consumer_step s \<noteq> None"
    if busy: "prod s \<noteq> PIdle" "cons s \<noteq> CIdle"
  proof (cases "owner s")
    case None
    with busy both inv show ?thesis
      by (cases "prod s"; cases "cons s")
        (auto simp: producer_step_def consumer_step_def conc_inv_def)
  next
    case (Some th)
    with inv holder_moves show ?thesis
      by (cases th) (auto simp: conc_inv_def)
  qed
  with both psleep csleep show ?thesis by blast
qed

text \<open>
  C32. \<open>Reset\<close> is not safe against waiting threads: it lowers \<open>isStop_\<close> before it clears the
  indices and notifies nobody afterwards. On a ring of one cell, a producer that \<open>Stop\<close> has
  woken can find the flag down and the ring still full, sleep again, and then sleep on while
  the ring is empty and the consumer sleeps too; no thread can then move.
\<close>

definition ring_one :: ring where
  "ring_one = snd (ring_init (\<lambda>_. True) 1 1 ring_new)"

definition reset_schedule :: "action list" where
  "reset_schedule =
     [ActPCall [1], ActP, ActP, ActP,
      ActPCall [2], ActP, ActP, ActP, ActP,
      ActResetCall, ActReset, ActReset,
      ActP, ActP, ActP,
      ActReset,
      ActCCall 1, ActC, ActC, ActC, ActC]"

theorem ring_reset_deadlock:
  "\<exists>s. conc_run reset_schedule (sys_init ring_one) = Some s \<and> resetter s = RIdle \<and>
     prod s = PSleep [2] \<and> cons s = CSleep 1 \<and> ring_is_empty (rb s) \<and> owner s = None \<and>
     producer_step s = None \<and> consumer_step s = None"
proof -
  have one: "ring_one = \<lparr>writeIndex = 0, readIndex = 0, singleSize = 1, num = 1,
     bufArray = [Some [0]], lenArray = [0], isStop = False\<rparr>"
    by (simp add: ring_one_def ring_init_def ring_new_def Let_def ring_alloc_cells_all)
  show ?thesis
    by (simp add: one reset_schedule_def sys_init_def producer_step_def consumer_step_def
        reset_step_def stop_push_step_def stop_pop_step_def ring_is_full_def ring_is_empty_def
        ring_push_commit_def memcpy_s_def Let_def ring_stop_push_def ring_stop_pop_def
        ring_reset_def ring_stop_def)
qed

section \<open>Witnesses\<close>

lemma ring_example_empty: "ring_list ring_example = []"
  by (simp add: ring_example_eq(2) ring_list_def ring_count_def)

text \<open>A consumer asleep on an empty ring is reachable.\<close>

lemma conc_reach_run:
  "conc_reach r0 s \<Longrightarrow> list_all (\<lambda>a. \<not> is_reset a) as \<Longrightarrow> conc_run as s = Some t \<Longrightarrow> conc_reach r0 t"
  by (induction as arbitrary: s) (auto split: option.splits intro: conc_reach.step)

lemma conc_example:
  "\<exists>s. conc_reach ring_example s \<and> cons s = CSleep 5 \<and> accepted s = [[1]] \<and> prod s = PNotify"
proof -
  have "\<exists>s. conc_run [ActCCall 5, ActC, ActC, ActC, ActC, ActPCall [1], ActP, ActP]
      (sys_init ring_example) = Some s \<and> cons s = CSleep 5 \<and> accepted s = [[1]] \<and>
      prod s = PNotify"
    by (simp add: ring_example_eq(2) sys_init_def producer_step_def consumer_step_def
        ring_is_full_def ring_is_empty_def ring_push_commit_def memcpy_s_def Let_def)
  then obtain s where s: "conc_run [ActCCall 5, ActC, ActC, ActC, ActC, ActPCall [1], ActP, ActP]
      (sys_init ring_example) = Some s" "cons s = CSleep 5" "accepted s = [[1]]" "prod s = PNotify"
    by blast
  have "conc_reach ring_example s"
    by (rule conc_reach_run [OF conc_reach.start _ s(1)]) simp
  with s show ?thesis by blast
qed

theorem ring_interleaving_fifo_witness:
  "\<exists>s. conc_reach ring_example s \<and> [[1]] = returned s @ ring_list (rb s)"
proof -
  obtain s where s: "conc_reach ring_example s" "accepted s = [[1]]"
    using conc_example by blast
  with ring_interleaving_fifo [OF ring_example_wf ring_example_empty s(1)] show ?thesis
    by metis
qed

theorem ring_no_lost_wakeup_witness:
  "\<exists>s. conc_reach ring_example s \<and> cons s = CSleep 5 \<and>
     (ring_is_empty (rb s) \<or> prod s = PNotify)"
proof -
  obtain s where s: "conc_reach ring_example s" "cons s = CSleep 5"
    using conc_example by blast
  with ring_no_lost_wakeup [OF ring_example_wf ring_example_empty s(1)] show ?thesis
    by blast
qed

end
