(* ===== verification/Posix.thy ===== *)
theory Posix
  imports Prelude "HOL-Library.AList"
begin

text \<open>
  The part of the C library the update code runs on: named objects (block devices of fixed
  size and regular files), directories, open descriptors with a position, and the calls
  \<open>lseek64\<close>, \<open>read\<close>, \<open>write\<close>, \<open>fsync\<close>, \<open>open\<close>, \<open>close\<close>, \<open>unlink\<close>, \<open>mkdir\<close> and \<open>stat\<close>. The environment
  decides how each call ends: \<open>faults\<close> is the list of outcomes of the next calls, and an
  empty list means that every further call succeeds in full. Descriptor numbers are fresh
  (the code never depends on their reuse) and access modes are not tracked.

  On these calls stand the loops \<open>WriteFully\<close>, \<open>ReadFully\<close> and \<open>WriteStringToFile\<close> of
  \<open>utils/utils.cpp\<close>. \<open>core\<close> erases the pending outcomes and \<open>errno\<close>: the lemmas say
  which \<open>core\<close> a call leaves, for every list of outcomes, and that it succeeds when no
  outcome is a failure.
\<close>

section \<open>The world\<close>

datatype errno = EOK | EIO | EINTR | ENOENT | EEXIST | EISDIR | EBADF | EINVAL | ENOSPC | EOPNOTSUPP

datatype fault = NoFault | Fault errno | Short nat

record world =
  objs :: "(string \<times> bytes) list"
  dirs :: "string list"
  is_dev :: "string \<Rightarrow> bool"
  fds :: "int \<Rightarrow> (string \<times> nat) option"
  next_fd :: int
  faults :: "fault list"
  errno :: errno

definition obj :: "world \<Rightarrow> string \<Rightarrow> bytes option" where
  "obj w p = map_of (objs w) p"

definition set_obj :: "string \<Rightarrow> bytes \<Rightarrow> world \<Rightarrow> world" where
  "set_obj p c w = w\<lparr>objs := AList.update p c (objs w)\<rparr>"

definition del_obj :: "string \<Rightarrow> world \<Rightarrow> world" where
  "del_obj p w = w\<lparr>objs := AList.delete p (objs w)\<rparr>"

definition set_fd :: "int \<Rightarrow> string \<Rightarrow> nat \<Rightarrow> world \<Rightarrow> world" where
  "set_fd fd p q w = w\<lparr>fds := (fds w)(fd := Some (p, q))\<rparr>"

definition next_fault :: "world \<Rightarrow> fault" where
  "next_fault w = (case faults w of [] \<Rightarrow> NoFault | f # _ \<Rightarrow> f)"

definition pop_fault :: "world \<Rightarrow> world" where
  "pop_fault w = w\<lparr>faults := tl (faults w)\<rparr>"

definition fail_with :: "errno \<Rightarrow> world \<Rightarrow> world" where
  "fail_with e w = w\<lparr>errno := e\<rparr>"

definition core :: "world \<Rightarrow> world" where
  "core w = w\<lparr>faults := [], errno := EOK\<rparr>"

named_theorems world_simps

lemma obj_set_obj [world_simps]: "obj (set_obj p c w) q = (if q = p then Some c else obj w q)"
  by (simp add: obj_def set_obj_def update_conv')

lemma obj_del_obj [world_simps]: "obj (del_obj p w) q = (if q = p then None else obj w q)"
  by (simp add: obj_def del_obj_def delete_conv')

lemma set_obj_same [world_simps]: "obj w p = Some c \<Longrightarrow> set_obj p c w = w"
  by (simp add: obj_def set_obj_def AList.update_triv)

lemma set_obj_twice [world_simps]: "set_obj p c (set_obj p d w) = set_obj p c w"
proof -
  have "AList.update p c (AList.update p d xs) = AList.update p c xs" for xs
    by (induction xs) auto
  then show ?thesis by (simp add: set_obj_def)
qed

lemma set_fd_twice [world_simps]: "set_fd fd p q (set_fd fd p' q' w) = set_fd fd p q w"
  by (simp add: set_fd_def)

lemma set_fd_set_obj [world_simps]: "set_fd fd p q (set_obj r c w) = set_obj r c (set_fd fd p q w)"
  by (simp add: set_fd_def set_obj_def)

lemma set_fd_same [world_simps]: "fds w fd = Some (p, q) \<Longrightarrow> set_fd fd p q w = w"
  by (simp add: set_fd_def fun_upd_idem)

lemma world_sel [world_simps]:
  "obj (set_fd fd p q w) = obj w" "is_dev (set_fd fd p q w) = is_dev w"
  "dirs (set_fd fd p q w) = dirs w" "faults (set_fd fd p q w) = faults w"
  "fds (set_fd fd p q w) = (fds w)(fd := Some (p, q))"
  "is_dev (set_obj r c w) = is_dev w" "fds (set_obj r c w) = fds w"
  "dirs (set_obj r c w) = dirs w" "faults (set_obj r c w) = faults w"
  "is_dev (del_obj r w) = is_dev w" "fds (del_obj r w) = fds w"
  "dirs (del_obj r w) = dirs w" "faults (del_obj r w) = faults w"
  "obj (pop_fault w) = obj w" "is_dev (pop_fault w) = is_dev w" "fds (pop_fault w) = fds w"
  "dirs (pop_fault w) = dirs w" "faults (pop_fault w) = tl (faults w)"
  "obj (fail_with e w) = obj w" "is_dev (fail_with e w) = is_dev w" "fds (fail_with e w) = fds w"
  "dirs (fail_with e w) = dirs w" "faults (fail_with e w) = faults w"
  "obj (core w) = obj w" "is_dev (core w) = is_dev w" "fds (core w) = fds w"
  "dirs (core w) = dirs w" "faults (core w) = []"
  by (simp_all add: set_fd_def set_obj_def del_obj_def pop_fault_def fail_with_def core_def obj_def
      fun_eq_iff)

lemma core_simps [world_simps]:
  "core (core w) = core w" "core (pop_fault w) = core w" "core (fail_with e w) = core w"
  "core (set_obj p c w) = set_obj p c (core w)" "core (set_fd fd p q w) = set_fd fd p q (core w)"
  "core (del_obj p w) = del_obj p (core w)"
  by (simp_all add: core_def pop_fault_def fail_with_def set_obj_def set_fd_def del_obj_def)

lemma core_eqD:
  assumes "core w = core w'"
  shows "obj w = obj w'" "fds w = fds w'" "is_dev w = is_dev w'" "dirs w = dirs w'"
    "next_fd w = next_fd w'"
  using arg_cong [OF assms, of obj] arg_cong [OF assms, of fds] arg_cong [OF assms, of is_dev]
    arg_cong [OF assms, of dirs] arg_cong [OF assms, of next_fd]
  by (simp_all add: core_def obj_def fun_eq_iff)

section \<open>System calls\<close>

text \<open>
  Results are \<open>Inl errno\<close> for \<open>-1\<close> and \<open>Inr\<close> otherwise. A block device refuses to seek past
  its end and to write at its end; a regular file grows.
\<close>

definition sys_lseek :: "world \<Rightarrow> int \<Rightarrow> int \<Rightarrow> (errno + int) \<times> world" where
  "sys_lseek w fd off =
     (let w' = pop_fault w in
      case next_fault w of
        Fault e \<Rightarrow> (Inl e, fail_with e w')
      | _ \<Rightarrow>
        (case fds w fd of
           None \<Rightarrow> (Inl EBADF, fail_with EBADF w')
         | Some (p, _) \<Rightarrow>
             (case obj w p of
                None \<Rightarrow> (Inl EBADF, fail_with EBADF w')
              | Some c \<Rightarrow>
                  if off < 0 \<or> is_dev w p \<and> int (length c) < off
                  then (Inl EINVAL, fail_with EINVAL w')
                  else (Inr off, set_fd fd p (nat off) w'))))"

fun transfer_size :: "fault \<Rightarrow> nat \<Rightarrow> nat" where
  "transfer_size (Short m) n = min m n"
| "transfer_size _ n = n"

definition sys_read :: "world \<Rightarrow> int \<Rightarrow> nat \<Rightarrow> (errno + bytes) \<times> world" where
  "sys_read w fd n =
     (let w' = pop_fault w in
      case next_fault w of
        Fault e \<Rightarrow> (Inl e, fail_with e w')
      | f \<Rightarrow>
        (case fds w fd of
           None \<Rightarrow> (Inl EBADF, fail_with EBADF w')
         | Some (p, q) \<Rightarrow>
             (case obj w p of
                None \<Rightarrow> (Inl EBADF, fail_with EBADF w')
              | Some c \<Rightarrow>
                  (let data = slice q (transfer_size f n) c
                   in (Inr data, set_fd fd p (q + length data) w')))))"

text \<open>A regular file is extended with zero bytes up to the write position.\<close>

definition write_at :: "nat \<Rightarrow> bytes \<Rightarrow> bytes \<Rightarrow> bytes" where
  "write_at q data c =
     (if data = [] then c
      else take q c @ replicate (q - length c) 0 @ data @ drop (q + length data) c)"

definition sys_write :: "world \<Rightarrow> int \<Rightarrow> bytes \<Rightarrow> (errno + nat) \<times> world" where
  "sys_write w fd data =
     (let w' = pop_fault w in
      case next_fault w of
        Fault e \<Rightarrow> (Inl e, fail_with e w')
      | f \<Rightarrow>
        (case fds w fd of
           None \<Rightarrow> (Inl EBADF, fail_with EBADF w')
         | Some (p, q) \<Rightarrow>
             (case obj w p of
                None \<Rightarrow> (Inl EBADF, fail_with EBADF w')
              | Some c \<Rightarrow>
                  if is_dev w p \<and> data \<noteq> [] \<and> length c \<le> q
                  then (Inl ENOSPC, fail_with ENOSPC w')
                  else
                    (let room = (if is_dev w p then min (length data) (length c - q)
                                 else length data);
                         k = transfer_size f room
                     in (Inr k, set_obj p (write_at q (take k data) c)
                                  (set_fd fd p (q + k) w'))))))"

definition sys_fsync :: "world \<Rightarrow> int \<Rightarrow> bool \<times> world" where
  "sys_fsync w fd =
     (let w' = pop_fault w in
      case next_fault w of
        Fault e \<Rightarrow> (False, fail_with e w')
      | _ \<Rightarrow> if fds w fd = None then (False, fail_with EBADF w') else (True, w'))"

text \<open>\<open>open\<close> of an existing object or directory, and with \<open>O_CREAT | O_TRUNC\<close>.\<close>

definition fresh_fd :: "string \<Rightarrow> world \<Rightarrow> int \<times> world" where
  "fresh_fd p w = (next_fd w, (set_fd (next_fd w) p 0 w)\<lparr>next_fd := next_fd w + 1\<rparr>)"

definition parent_dir :: "string \<Rightarrow> string" where
  "parent_dir p = rev (tl (dropWhile (\<lambda>c. c \<noteq> CHR ''/'') (rev p)))"

text \<open>
  Path names reach the calls as the code builds them; objects and directories are kept under
  their canonical names, without repeated or trailing slashes (the root is the empty name).
\<close>

definition collapse :: "string \<Rightarrow> string" where
  "collapse p = foldr (\<lambda>c q. if c = CHR ''/'' \<and> q \<noteq> [] \<and> hd q = CHR ''/'' then q else c # q) p []"

definition canon :: "string \<Rightarrow> string" where
  "canon p = (let q = collapse p in if q \<noteq> [] \<and> last q = CHR ''/'' then butlast q else q)"

definition sys_open :: "world \<Rightarrow> string \<Rightarrow> (errno + int) \<times> world" where
  "sys_open w p =
     (let w' = pop_fault w in
      case next_fault w of
        Fault e \<Rightarrow> (Inl e, fail_with e w')
      | _ \<Rightarrow> if obj w (canon p) = None \<and> canon p \<notin> set (dirs w)
             then (Inl ENOENT, fail_with ENOENT w')
             else (let (fd, w'') = fresh_fd (canon p) w' in (Inr fd, w'')))"

definition sys_open_create :: "world \<Rightarrow> string \<Rightarrow> (errno + int) \<times> world" where
  "sys_open_create w p =
     (let w' = pop_fault w in
      case next_fault w of
        Fault e \<Rightarrow> (Inl e, fail_with e w')
      | _ \<Rightarrow> if canon p \<in> set (dirs w) then (Inl EISDIR, fail_with EISDIR w')
             else if parent_dir (canon p) \<notin> set (dirs w) then (Inl ENOENT, fail_with ENOENT w')
             else (let (fd, w'') = fresh_fd (canon p) (set_obj (canon p) [] w') in (Inr fd, w'')))"

definition sys_close :: "world \<Rightarrow> int \<Rightarrow> world" where
  "sys_close w fd = w\<lparr>fds := (fds w)(fd := None)\<rparr>"

definition sys_unlink :: "world \<Rightarrow> string \<Rightarrow> bool \<times> world" where
  "sys_unlink w p =
     (let w' = pop_fault w in
      case next_fault w of
        Fault e \<Rightarrow> (False, fail_with e w')
      | _ \<Rightarrow> if canon p \<in> set (dirs w) then (False, fail_with EISDIR w')
             else if obj w (canon p) = None then (False, fail_with ENOENT w')
             else (True, del_obj (canon p) w'))"

text \<open>\<open>stat\<close> gives the size of a file and \<open>None\<close> for a directory.\<close>

definition sys_stat :: "world \<Rightarrow> string \<Rightarrow> (errno + nat option) \<times> world" where
  "sys_stat w p =
     (let w' = pop_fault w in
      case next_fault w of
        Fault e \<Rightarrow> (Inl e, fail_with e w')
      | _ \<Rightarrow> (case obj w (canon p) of
                Some c \<Rightarrow> (Inr (Some (length c)), w')
              | None \<Rightarrow> if canon p \<in> set (dirs w) then (Inr None, w')
                        else (Inl ENOENT, fail_with ENOENT w')))"

definition sys_mkdir :: "world \<Rightarrow> string \<Rightarrow> bool \<times> world" where
  "sys_mkdir w p =
     (let w' = pop_fault w in
      case next_fault w of
        Fault e \<Rightarrow> (False, fail_with e w')
      | _ \<Rightarrow> if canon p \<in> set (dirs w) \<or> obj w (canon p) \<noteq> None
             then (False, fail_with EEXIST w')
             else if parent_dir (canon p) \<notin> set (dirs w) then (False, fail_with ENOENT w')
             else (True, w'\<lparr>dirs := canon p # dirs w\<rparr>))"

text \<open>The names in a directory: the part behind the last slash of every path below it.\<close>

definition base_name :: "string \<Rightarrow> string" where
  "base_name p = rev (takeWhile (\<lambda>c. c \<noteq> CHR ''/'') (rev p))"

definition readdir_names :: "world \<Rightarrow> string \<Rightarrow> string list" where
  "readdir_names w d =
     ''.'' # ''..'' # List.map base_name
       (filter (\<lambda>p. parent_dir p = canon d \<and> p \<noteq> canon d) (List.map fst (objs w) @ dirs w))"

fun no_double :: "string \<Rightarrow> bool" where
  "no_double (a # b # xs) \<longleftrightarrow> \<not> (a = CHR ''/'' \<and> b = CHR ''/'') \<and> no_double (b # xs)"
| "no_double xs \<longleftrightarrow> True"

text \<open>A directory name the model can hold: canonical. A file name: no slash, not empty.\<close>

definition good_dir :: "string \<Rightarrow> bool" where
  "good_dir d \<longleftrightarrow> d \<noteq> [] \<and> no_double d \<and> last d \<noteq> CHR ''/''"

definition good_name :: "string \<Rightarrow> bool" where
  "good_name f \<longleftrightarrow> f \<noteq> [] \<and> CHR ''/'' \<notin> set f"

lemma collapse_id: "no_double p \<Longrightarrow> collapse p = p"
  by (induction p rule: no_double.induct) (auto simp: collapse_def)

lemma no_double_name: "CHR ''/'' \<notin> set f \<Longrightarrow> no_double f"
  by (induction f rule: no_double.induct) auto

lemma no_double_path:
  "no_double d \<Longrightarrow> d \<noteq> [] \<Longrightarrow> last d \<noteq> CHR ''/'' \<Longrightarrow> CHR ''/'' \<notin> set f \<Longrightarrow> no_double (d @ CHR ''/'' # f)"
proof (induction d rule: no_double.induct, goal_cases)
  case (3 c)
  then show ?case
    using no_double_name [of f] by (cases f) auto
qed auto

lemma canon_good_dir: "good_dir d \<Longrightarrow> canon d = d"
  by (simp add: good_dir_def canon_def collapse_id Let_def)

lemma canon_dir_slash: "good_dir d \<Longrightarrow> canon (d @ ''/'') = d"
  using no_double_path [of d "[]"] by (simp add: good_dir_def canon_def collapse_id Let_def)

lemma canon_path:
  assumes "good_dir d" and "good_name f"
  shows "canon (d @ CHR ''/'' # f) = d @ CHR ''/'' # f"
proof -
  have "last f \<noteq> CHR ''/''"
    using assms(2) by (metis good_name_def last_in_set)
  then show ?thesis
    using assms no_double_path [of d f]
    by (simp add: good_dir_def good_name_def canon_def collapse_id Let_def)
qed

lemma canon_path_double:
  assumes "good_dir d" and "good_name f"
  shows "canon (d @ CHR ''/'' # CHR ''/'' # f) = d @ CHR ''/'' # f"
proof -
  have "collapse (d @ CHR ''/'' # CHR ''/'' # f) = collapse (d @ CHR ''/'' # f)"
    using assms(2) no_double_name [of f] collapse_id [of f]
    by (cases f) (auto simp: collapse_def good_name_def)
  then show ?thesis using canon_path [OF assms] by (simp add: canon_def)
qed

lemma parent_dir_path: "CHR ''/'' \<notin> set f \<Longrightarrow> parent_dir (d @ CHR ''/'' # f) = d"
  by (subst parent_dir_def, subst rev_append, simp, subst dropWhile_append2) auto

lemma base_name_path: "CHR ''/'' \<notin> set f \<Longrightarrow> base_name (d @ CHR ''/'' # f) = f"
  by (subst base_name_def, subst rev_append, simp, subst takeWhile_append2) auto

lemmas sys_defs = sys_lseek_def sys_read_def sys_write_def sys_fsync_def sys_open_def
  sys_open_create_def sys_unlink_def sys_stat_def

lemma write_at_Nil [simp]: "write_at q [] c = c"
  by (simp add: write_at_def)

lemma write_at_blit: "q \<le> length c \<Longrightarrow> write_at q data c = blit q data c"
  by (simp add: write_at_def blit_def)

lemma write_at_append:
  "write_at (q + length xs) ys (write_at q xs c) = write_at q (xs @ ys) c"
  by (auto simp: write_at_def min_def ac_simps)

lemma length_write_at:
  "length (write_at q xs c) = (if xs = [] then length c else max (length c) (q + length xs))"
  by (auto simp: write_at_def)

section \<open>Descriptors positioned in an object\<close>

text \<open>
  \<open>at w fd p q c\<close>: descriptor \<open>fd\<close> stands at position \<open>q\<close> of object \<open>p\<close>, which holds \<open>c\<close>.
  \<open>wrote fd data w\<close> is the world after \<open>data\<close> was written there in full.
\<close>

definition at :: "world \<Rightarrow> int \<Rightarrow> string \<Rightarrow> nat \<Rightarrow> bytes \<Rightarrow> bool" where
  "at w fd p q c \<longleftrightarrow> fds w fd = Some (p, q) \<and> obj w p = Some c"

definition wrote :: "int \<Rightarrow> bytes \<Rightarrow> world \<Rightarrow> world" where
  "wrote fd data w =
     (case fds w fd of None \<Rightarrow> w
      | Some (p, q) \<Rightarrow>
          (case obj w p of None \<Rightarrow> w
           | Some c \<Rightarrow> set_obj p (write_at q data c) (set_fd fd p (q + length data) w)))"

text \<open>Room for \<open>n\<close> more bytes at the position of the descriptor.\<close>

definition room :: "world \<Rightarrow> int \<Rightarrow> nat \<Rightarrow> bool" where
  "room w fd n =
     (case fds w fd of None \<Rightarrow> False
      | Some (p, q) \<Rightarrow>
          (case obj w p of None \<Rightarrow> False | Some c \<Rightarrow> is_dev w p \<longrightarrow> q + n \<le> length c))"

lemma wrote_Nil [simp]: "wrote fd [] w = w"
  by (simp add: wrote_def world_simps split: option.splits prod.splits)

lemma wrote_append: "wrote fd ys (wrote fd xs w) = wrote fd (xs @ ys) w"
  by (simp add: wrote_def world_simps write_at_append add.assoc split: option.splits prod.splits)

lemma core_wrote: "core (wrote fd data w) = wrote fd data (core w)"
  by (simp add: wrote_def world_simps split: option.splits prod.splits)

lemma wrote_at: "at w fd p q c \<Longrightarrow>
    wrote fd data w = set_obj p (write_at q data c) (set_fd fd p (q + length data) w)"
  by (simp add: wrote_def at_def)

lemma at_wrote: "at w fd p q c \<Longrightarrow> at (wrote fd data w) fd p (q + length data) (write_at q data c)"
  by (simp add: wrote_def at_def world_simps)

lemma room_wrote: "room w fd (length xs + n) \<Longrightarrow> room (wrote fd xs w) fd n"
  by (auto simp: room_def wrote_def world_simps length_write_at split: option.splits prod.splits)

lemma at_core: "at (core w) fd p q c = at w fd p q c"
  by (simp add: at_def world_simps)

lemma room_core: "room (core w) fd n = room w fd n"
  by (simp add: room_def world_simps split: option.splits)

lemma wrote_sel:
  "is_dev (wrote fd xs w) = is_dev w" "dirs (wrote fd xs w) = dirs w"
  "faults (wrote fd xs w) = faults w"
  by (simp_all add: wrote_def world_simps split: option.splits prod.splits)

section \<open>Single calls\<close>

lemma sys_write_faults: "faults (snd (sys_write w fd data)) = tl (faults w)"
  by (simp add: sys_write_def world_simps Let_def split: fault.splits option.splits prod.splits)

lemma sys_read_faults: "faults (snd (sys_read w fd n)) = tl (faults w)"
  by (simp add: sys_read_def world_simps Let_def split: fault.splits option.splits prod.splits)

lemma transfer_size_le: "transfer_size f n \<le> n"
  by (cases f) auto

lemma sys_write_Inr:
  assumes "sys_write w fd data = (Inr k, w')"
  shows "k \<le> length data \<and> core w' = core (wrote fd (take k data) w)"
proof -
  have no_fault: "next_fault w \<noteq> Fault e" for e
    using assms by (auto simp: sys_write_def Let_def)
  then obtain p q c where at: "fds w fd = Some (p, q)" "obj w p = Some c"
    using assms by (auto simp: sys_write_def Let_def split: fault.splits option.splits)
  define n where "n = (if is_dev w p then min (length data) (length c - q) else length data)"
  have "k = transfer_size (next_fault w) n \<and>
      w' = set_obj p (write_at q (take k data) c) (set_fd fd p (q + k) (pop_fault w))"
    using assms at no_fault
    by (cases "next_fault w") (auto simp: sys_write_def Let_def n_def split: if_splits)
  moreover have "transfer_size (next_fault w) n \<le> length data"
    using transfer_size_le [of "next_fault w" n] by (auto simp: n_def split: if_splits)
  ultimately show ?thesis
    using at by (simp add: wrote_def world_simps)
qed

lemma sys_write_Inl: "sys_write w fd data = (Inl e, w') \<Longrightarrow> core w' = core w"
  by (auto simp: sys_write_def world_simps Let_def
      split: fault.splits option.splits prod.splits if_splits)

lemma sys_write_ok:
  assumes "faults w = []" and "room w fd (length data)"
  shows "sys_write w fd data = (Inr (length data), wrote fd data w)"
proof -
  have [simp]: "pop_fault w = w" using assms(1) by (simp add: pop_fault_def)
  show ?thesis
    using assms by (cases data) (auto simp: sys_write_def room_def wrote_def next_fault_def Let_def
        split: option.splits prod.splits)
qed

lemma sys_write_progress:
  assumes "faults w = []" and "data \<noteq> []"
  shows "case sys_write w fd data of (Inl e, w') \<Rightarrow> e \<noteq> EINTR | (Inr k, w') \<Rightarrow> 0 < k"
  using assms by (auto simp: sys_write_def next_fault_def Let_def min_def split: option.splits prod.splits)

lemma sys_read_Inr:
  assumes "sys_read w fd n = (Inr xs, w')"
  shows "length xs \<le> n \<and> (\<forall>p q c. at w fd p q c \<longrightarrow>
    xs = slice q (length xs) c \<and> core w' = core (set_fd fd p (q + length xs) w))"
  using assms transfer_size_le [of _ n]
  by (auto simp: sys_read_def at_def world_simps Let_def slice_def min_def
      intro: le_trans split: fault.splits option.splits prod.splits if_splits)

lemma sys_read_ok:
  assumes "faults w = []" and "at w fd p q c" and "q + n \<le> length c"
  shows "sys_read w fd n = (Inr (slice q n c), set_fd fd p (q + n) w)"
proof -
  have [simp]: "pop_fault w = w" using assms(1) by (simp add: pop_fault_def)
  show ?thesis
    using assms by (simp add: sys_read_def at_def next_fault_def Let_def)
qed

lemma sys_read_Inl: "sys_read w fd n = (Inl e, w') \<Longrightarrow> core w' = core w"
  by (auto simp: sys_read_def world_simps Let_def
      split: fault.splits option.splits prod.splits if_splits)

lemma sys_lseek_Inr:
  assumes "sys_lseek w fd off = (Inr r, w')"
  shows "r = off \<and> 0 \<le> off \<and> (\<exists>p q c. at w fd p q c \<and> (is_dev w p \<longrightarrow> off \<le> int (length c)) \<and>
    core w' = core (set_fd fd p (nat off) w))"
  using assms by (auto simp: sys_lseek_def at_def world_simps Let_def
      split: fault.splits option.splits prod.splits if_splits)

lemma sys_lseek_Inl: "sys_lseek w fd off = (Inl e, w') \<Longrightarrow> core w' = core w"
  by (auto simp: sys_lseek_def world_simps Let_def
      split: fault.splits option.splits prod.splits if_splits)

lemma sys_lseek_ok:
  assumes "faults w = []" and "at w fd p q c" and "is_dev w p \<longrightarrow> n \<le> length c"
  shows "sys_lseek w fd (int n) = (Inr (int n), set_fd fd p n w)"
proof -
  have [simp]: "pop_fault w = w" using assms(1) by (simp add: pop_fault_def)
  show ?thesis
    using assms by (auto simp: sys_lseek_def at_def next_fault_def Let_def)
qed

lemma sys_fsync_core: "core (snd (sys_fsync w fd)) = core w"
  by (simp add: sys_fsync_def world_simps Let_def split: fault.splits)

lemma sys_fsync_ok:
  assumes "faults w = []" and "fds w fd \<noteq> None"
  shows "sys_fsync w fd = (True, w)"
proof -
  have [simp]: "pop_fault w = w" using assms(1) by (simp add: pop_fault_def)
  show ?thesis using assms by (simp add: sys_fsync_def next_fault_def Let_def)
qed

section \<open>WriteFully, WriteStringToFile and ReadFully\<close>

text \<open>
  The write loop: \<open>retry\<close> says whether an interrupted call is repeated. The list of
  outcomes is finite and every call uses one up, and without faults every call makes
  progress, so the loop ends.
\<close>

function write_loop :: "bool \<Rightarrow> world \<Rightarrow> int \<Rightarrow> bytes \<Rightarrow> bool \<times> world" where
  "write_loop retry w fd data =
     (if data = [] then (True, w)
      else case sys_write w fd data of
          (Inl e, w') \<Rightarrow> if retry \<and> e = EINTR then write_loop retry w' fd data else (False, w')
        | (Inr k, w') \<Rightarrow> write_loop retry w' fd (drop k data))"
  by pat_completeness auto
termination
proof (relation "measure (\<lambda>(retry, w, fd, data). length (faults w) + length data)",
    goal_cases)
  case 1
  show ?case by simp
next
  case (2 retry w fd data x w' e)
  then have "sys_write w fd data = (Inl EINTR, w')" by simp
  with 2(1) sys_write_faults [of w fd data] sys_write_progress [of w data fd]
  show ?case by (cases "faults w") auto
next
  case (3 retry w fd data x w' k)
  then have "sys_write w fd data = (Inr k, w')" by simp
  with 3(1) sys_write_faults [of w fd data] sys_write_progress [of w data fd]
  show ?case by (cases "faults w") auto
qed

declare write_loop.simps [simp del]

definition WriteFully :: "world \<Rightarrow> int \<Rightarrow> bytes \<Rightarrow> bool \<times> world" where
  "WriteFully w fd data = write_loop True w fd data"

definition WriteStringToFile :: "world \<Rightarrow> int \<Rightarrow> bytes \<Rightarrow> bool \<times> world" where
  "WriteStringToFile w fd content = write_loop False w fd content"

text \<open>
  \<open>ReadFully\<close> returns the bytes read so far too: after a failure they are already in the
  caller's buffer.
\<close>

function ReadFully :: "world \<Rightarrow> int \<Rightarrow> nat \<Rightarrow> bool \<times> bytes \<times> world" where
  "ReadFully w fd n =
     (if n = 0 then (True, [], w)
      else case sys_read w fd n of
          (Inl e, w') \<Rightarrow> (False, [], w')
        | (Inr xs, w') \<Rightarrow>
            if xs = [] then (False, [], w')
            else (case ReadFully w' fd (n - length xs) of
                (ok, ys, w'') \<Rightarrow> (ok, xs @ ys, w'')))"
  by pat_completeness auto
termination by (relation "measure (\<lambda>(w, fd, n). n)") auto

declare ReadFully.simps [simp del]

lemma write_loop_wrote:
  "write_loop retry w fd data = (ok, w') \<Longrightarrow>
   \<exists>n\<le>length data. core w' = core (wrote fd (take n data) w) \<and> (ok \<longrightarrow> n = length data)"
proof (induction retry w fd data arbitrary: ok w' rule: write_loop.induct)
  case (1 retry w fd data)
  show ?case
  proof (cases "data = []")
    case True
    with "1.prems" show ?thesis by (simp add: write_loop.simps [of retry w])
  next
    case False
    obtain x w1 where sw: "sys_write w fd data = (x, w1)" by (metis surj_pair)
    show ?thesis
    proof (cases x)
      case (Inl e)
      with sw have core: "core w1 = core w" by (simp add: sys_write_Inl)
      show ?thesis
      proof (cases "retry \<and> e = EINTR")
        case True
        with sw Inl False have "write_loop retry w fd data = write_loop retry w1 fd data"
          by (subst write_loop.simps) simp
        with "1.prems" have "write_loop retry w1 fd data = (ok, w')" by simp
        with "1.IH"(1) [OF False sw [symmetric] Inl True] core show ?thesis
          by (simp add: core_wrote)
      next
        case rest: False
        with "1.prems" sw Inl False core have "\<not> ok \<and> core w' = core w"
          by (auto simp: write_loop.simps [of retry w])
        then show ?thesis by (intro exI [of _ 0]) simp
      qed
    next
      case (Inr k)
      with sw have k: "k \<le> length data" "core w1 = core (wrote fd (take k data) w)"
        using sys_write_Inr by auto
      have "write_loop retry w1 fd (drop k data) = (ok, w')"
        using "1.prems" sw Inr False by (simp add: write_loop.simps [of retry w])
      then obtain m where m: "m \<le> length data - k"
        "core w' = core (wrote fd (take m (drop k data)) w1)" "ok \<longrightarrow> m = length data - k"
        using "1.IH"(2) [OF False sw [symmetric] Inr] by auto
      then have "core w' = core (wrote fd (take (k + m) data) w)"
        using k by (simp add: core_wrote wrote_append take_add)
      with m(1,3) k(1) show ?thesis by (intro exI [of _ "k + m"]) auto
    qed
  qed
qed

lemma write_loop_ok:
  assumes "faults w = []" and "room w fd (length data)"
  shows "write_loop retry w fd data = (True, wrote fd data w)"
  using assms
  by (simp add: write_loop.simps [of retry w] sys_write_ok write_loop.simps [of retry _ _ "[]"])

lemma ReadFully_reads:
  assumes "ReadFully w fd n = (ok, xs, w')" and "at w fd p q c"
  shows "length xs \<le> n \<and> (ok \<longrightarrow> length xs = n) \<and> xs = slice q (length xs) c \<and>
    core w' = core (set_fd fd p (q + length xs) w)"
  using assms
proof (induction w fd n arbitrary: ok xs w' q rule: ReadFully.induct)
  case (1 w fd n)
  have here: "core (set_fd fd p q w) = core w"
    using "1.prems"(2) by (simp add: at_def world_simps)
  show ?case
  proof (cases "n = 0")
    case True
    with "1.prems" here show ?thesis by (auto simp: ReadFully.simps [of w])
  next
    case False
    obtain x w1 where sr: "sys_read w fd n = (x, w1)" by (metis surj_pair)
    show ?thesis
    proof (cases x)
      case (Inl e)
      with "1.prems" sr False here sys_read_Inl [of w fd n e w1] show ?thesis
        by (auto simp: ReadFully.simps [of w])
    next
      case (Inr ys)
      with sr have r: "length ys \<le> n" "ys = slice q (length ys) c"
        "core w1 = core (set_fd fd p (q + length ys) w)"
        using sys_read_Inr [of w fd n ys w1] "1.prems"(2) by auto
      show ?thesis
      proof (cases "ys = []")
        case True
        with "1.prems" sr Inr False here r show ?thesis
          by (auto simp: ReadFully.simps [of w])
      next
        case ne: False
        obtain zs w2 where rest: "ReadFully w1 fd (n - length ys) = (ok, zs, w2)"
          and xs: "xs = ys @ zs" "w' = w2"
          using "1.prems"(1) sr Inr False ne
          by (auto simp: ReadFully.simps [of w] split: prod.splits)
        have "at w1 fd p (q + length ys) c"
          using r(3) "1.prems"(2) by (metis at_core at_def core_simps(5) fun_upd_same world_sel(1,5))
        from "1.IH" [OF False sr [symmetric] Inr ne rest this] r xs show ?thesis
          by (auto simp: slice_append_split world_simps ac_simps)
      qed
    qed
  qed
qed

lemma ReadFully_ok:
  assumes "faults w = []" and "at w fd p q c" and "q + n \<le> length c"
  shows "ReadFully w fd n = (True, slice q n c, set_fd fd p (q + n) w)"
proof (cases "n = 0")
  case True
  with assms(2) show ?thesis
    by (simp add: ReadFully.simps [of w] at_def world_simps)
next
  case False
  with assms(3) have "slice q n c \<noteq> []" by (simp add: slice_def)
  with False assms show ?thesis
    by (simp add: ReadFully.simps [of w] sys_read_ok ReadFully.simps [of _ _ 0])
qed

end
