(* ===== verification/Text_Utils.thy ===== *)
theory Text_Utils
  imports Posix
begin

text \<open>
  String helpers of \<open>utils/utils.cpp\<close> and \<open>utils.h\<close> on which the command parsers stand:
  \<open>SplitString\<close>, \<open>Trim\<close>, \<open>ConvertSha256Hex\<close>, \<open>String2Int\<close> (with the \<open>strtoull\<close> and \<open>strtol\<close> of
  the C library) and \<open>DeleteFile\<close>. The printing functions \<open>join_with\<close> and \<open>dec\<close> are the other
  half of the round trips.
\<close>

section \<open>SplitString\<close>

text \<open>\<open>str.find_first_of (del, start)\<close>; None is \<open>npos\<close>.\<close>

definition find_first_of :: "string \<Rightarrow> string \<Rightarrow> nat \<Rightarrow> nat option" where
  "find_first_of str del start =
     (let k = length (takeWhile (\<lambda>c. c \<notin> set del) (drop start str))
      in if start + k < length str then Some (start + k) else None)"

lemma find_first_of_bounds:
  "find_first_of str del start = Some i \<Longrightarrow> start \<le> i \<and> i < length str"
  by (auto simp: find_first_of_def Let_def split: if_splits)

function split_loop :: "string \<Rightarrow> string \<Rightarrow> nat \<Rightarrow> string list" where
  "split_loop str del start =
     (case find_first_of str del start of
        None \<Rightarrow> [drop start str]
      | Some found \<Rightarrow> slice start (found - start) str # split_loop str del (found + 1))"
  by pat_completeness auto
termination
  by (relation "measure (\<lambda>(str, del, start). length str - start)")
    (auto dest: find_first_of_bounds)

declare split_loop.simps [simp del]

definition SplitString :: "string \<Rightarrow> string \<Rightarrow> string list" where
  "SplitString str del = split_loop str del 0"

fun join_with :: "char \<Rightarrow> string list \<Rightarrow> string" where
  "join_with d [] = []"
| "join_with d [x] = x"
| "join_with d (x # y # xs) = x @ d # join_with d (y # xs)"

lemma find_first_of_hit:
  assumes "set x \<inter> set del = {}" and "d \<in> set del"
  shows "find_first_of (p @ x @ d # r) del (length p) = Some (length p + length x)"
proof -
  have "takeWhile (\<lambda>c. c \<notin> set del) (x @ d # r) = x"
    using assms by (subst takeWhile_append2) auto
  then show ?thesis by (simp add: find_first_of_def)
qed

lemma find_first_of_miss:
  assumes "set x \<inter> set del = {}"
  shows "find_first_of (p @ x) del (length p) = None"
proof -
  have "takeWhile (\<lambda>c. c \<notin> set del) x = x"
    using assms by (auto simp: takeWhile_eq_all_conv)
  then have "length (takeWhile (\<lambda>c. c \<notin> set del) x) = length x" by (simp only:)
  then show ?thesis by (simp add: find_first_of_def Let_def)
qed

lemma split_loop_join:
  assumes "xs \<noteq> []" and "\<forall>x\<in>set xs. set x \<inter> set del = {}" and "d \<in> set del"
  shows "split_loop (p @ join_with d xs) del (length p) = xs"
  using assms
proof (induction d xs arbitrary: p rule: join_with.induct)
  case (1 d)
  then show ?case by simp
next
  case (2 d' x)
  then show ?case
    by (simp add: split_loop.simps [of _ del] find_first_of_miss)
next
  case (3 d' x y xs)
  have "split_loop ((p @ x @ [d']) @ join_with d' (y # xs)) del (length (p @ x @ [d'])) = y # xs"
    using 3 by (intro "3.IH") auto
  moreover have "find_first_of (p @ x @ d' # join_with d' (y # xs)) del (length p)
      = Some (length p + length x)"
    using 3 by (intro find_first_of_hit) auto
  ultimately show ?case
    by (simp add: split_loop.simps [of _ del "length p"] slice_def)
qed

lemma SplitString_join:
  assumes "xs \<noteq> []" and "\<forall>x\<in>set xs. set x \<inter> set del = {}" and "d \<in> set del"
  shows "SplitString (join_with d xs) del = xs"
  using split_loop_join [OF assms, of "[]"] by (simp add: SplitString_def)

lemma split_loop_pieces:
  "x \<in> set (split_loop str del start) \<Longrightarrow> set x \<inter> set del = {}"
proof (induction str del start rule: split_loop.induct)
  case (1 str del start)
  show ?case
  proof (cases "find_first_of str del start")
    case None
    define t where "t = takeWhile (\<lambda>c. c \<notin> set del) (drop start str)"
    have "\<not> length t < length (drop start str)"
      using None by (auto simp: find_first_of_def Let_def t_def split: if_splits)
    then have "t = drop start str"
      unfolding t_def by (metis length_takeWhile_le nat_less_le takeWhile_eq_take take_all_iff)
    then have "set (drop start str) \<inter> set del = {}"
      unfolding t_def by (auto dest: set_takeWhileD)
    with None 1 show ?thesis
      by (simp add: split_loop.simps [of str])
  next
    case (Some i)
    then have "i - start = length (takeWhile (\<lambda>c. c \<notin> set del) (drop start str))"
      by (auto simp: find_first_of_def Let_def split: if_splits)
    then have "slice start (i - start) str = takeWhile (\<lambda>c. c \<notin> set del) (drop start str)"
      unfolding slice_def by (metis takeWhile_eq_take)
    then have "set (slice start (i - start) str) \<inter> set del = {}"
      by (auto dest: set_takeWhileD)
    with Some 1 show ?thesis
      by (auto simp: split_loop.simps [of str])
  qed
qed

lemma split_loop_nonempty [simp]: "split_loop str del start \<noteq> []"
  by (simp add: split_loop.simps [of str] split: option.splits)

lemma SplitString_nonempty [simp]: "SplitString str del \<noteq> []"
  by (simp add: SplitString_def)

section \<open>Trim\<close>

definition isspace :: "char \<Rightarrow> bool" where
  "isspace c \<longleftrightarrow> c \<in> set [CHR '' '', CHR 0x09, CHR 0x0A, CHR 0x0B, CHR 0x0C, CHR 0x0D]"

fun trim_start :: "string \<Rightarrow> nat \<Rightarrow> nat \<Rightarrow> nat" where
  "trim_start str start 0 = start"
| "trim_start str start (Suc k) =
     (if start < length str \<and> isspace (str ! start) then trim_start str (start + 1) k else start)"

fun trim_end :: "string \<Rightarrow> nat \<Rightarrow> nat \<Rightarrow> nat" where
  "trim_end str start 0 = 0"
| "trim_end str start (Suc e) =
     (if start < Suc e \<and> isspace (str ! Suc e) then trim_end str start e else Suc e)"

definition Trim :: "string \<Rightarrow> string" where
  "Trim str =
     (if str = [] then str
      else let start = trim_start str 0 (length str);
               e = trim_end str start (length str - 1)
           in if e < start then [] else slice start (e - start + 1) str)"

section \<open>ConvertSha256Hex\<close>

definition hexChars :: string where
  "hexChars = ''0123456789abcdef''"

definition ConvertSha256Hex :: "bytes \<Rightarrow> string" where
  "ConvertSha256Hex shaDigest =
     concat (List.map (\<lambda>d. [hexChars ! unat (drop_bit 4 d AND 0xf), hexChars ! unat (d AND 0xf)])
       shaDigest)"

lemma length_ConvertSha256Hex: "length (ConvertSha256Hex ds) = 2 * length ds"
  by (induction ds) (simp_all add: ConvertSha256Hex_def)

lemma hex_pair_inj:
  assumes "hexChars ! unat (drop_bit 4 d AND 0xf) = hexChars ! unat (drop_bit 4 e AND 0xf)"
    and "hexChars ! unat (d AND 0xf) = hexChars ! unat (e AND 0xf)"
  shows "d = (e :: u8)"
proof -
  have nib: "unat (drop_bit 4 x AND 0xf) = unat x div 16" "unat (x AND 0xf) = unat x mod 16"
    for x :: u8
  proof -
    have "unat (drop_bit 4 x) = unat x div 16"
      by (simp only: unat_drop_bit_eq drop_bit_eq_div [of 4 "unat x"]) simp
    moreover have "unat x div 16 < 16"
      using unsigned_less [of x, where 'a = nat] by simp
    ultimately show "unat (drop_bit 4 x AND 0xf) = unat x div 16"
      using unat_and_mask [of 4 "drop_bit 4 x"] by simp
    show "unat (x AND 0xf) = unat x mod 16"
      using unat_and_mask [of 4 x] by simp
  qed
  have "i = j" if "hexChars ! i = hexChars ! j" "i < 16" "j < 16" for i j
  proof -
    have "distinct hexChars" and "length hexChars = 16" by (simp_all add: hexChars_def)
    with that show ?thesis by (metis nth_eq_iff_index_eq)
  qed
  moreover have "unat x div 16 < 16" for x :: u8
    using unsigned_less [of x, where 'a = nat] by simp
  ultimately have "unat d div 16 = unat e div 16" and "unat d mod 16 = unat e mod 16"
    using assms unfolding nib(1) unfolding nib(2) by simp_all
  then have "unat d = unat e" by (metis div_mult_mod_eq)
  then show ?thesis by (rule unsigned_word_eqI)
qed

lemma ConvertSha256Hex_inj: "ConvertSha256Hex ds = ConvertSha256Hex es \<Longrightarrow> ds = es"
proof (induction ds es rule: list_induct2')
  case (4 d ds e es)
  then show ?case by (auto simp: ConvertSha256Hex_def intro: hex_pair_inj)
qed (simp_all add: ConvertSha256Hex_def)

section \<open>String2Int\<close>

definition digit_val :: "char \<Rightarrow> nat option" where
  "digit_val c =
     (let n = of_char c :: nat
      in if 48 \<le> n \<and> n \<le> 57 then Some (n - 48)
         else if 97 \<le> n \<and> n \<le> 122 then Some (n - 87)
         else if 65 \<le> n \<and> n \<le> 90 then Some (n - 55) else None)"

fun scan_digits :: "nat \<Rightarrow> nat \<Rightarrow> string \<Rightarrow> nat" where
  "scan_digits base acc [] = acc"
| "scan_digits base acc (c # cs) =
     (case digit_val c of
        Some d \<Rightarrow> if d < base then scan_digits base (acc * base + d) cs else acc
      | None \<Rightarrow> acc)"

text \<open>The common part of \<open>strtol\<close>, \<open>strtoll\<close> and \<open>strtoull\<close>: the sign and the digits read.\<close>

definition scan_number :: "nat \<Rightarrow> string \<Rightarrow> bool \<times> nat" where
  "scan_number base str =
     (let s = dropWhile isspace str;
          neg = (s \<noteq> [] \<and> hd s = CHR ''-'');
          s1 = (if s \<noteq> [] \<and> (hd s = CHR ''-'' \<or> hd s = CHR ''+'') then tl s else s);
          s2 = (if base = 16 \<and> 2 < length s1 \<and> s1 ! 0 = CHR ''0'' \<and> s1 ! 1 \<in> {CHR ''x'', CHR ''X''} \<and>
                   (case digit_val (s1 ! 2) of None \<Rightarrow> False | Some d \<Rightarrow> d < 16)
                then drop 2 s1 else s1)
      in (neg, scan_digits base 0 s2))"

definition strtoull :: "nat \<Rightarrow> string \<Rightarrow> u64" where
  "strtoull base str =
     (case scan_number base str of (neg, v) \<Rightarrow>
        if 2 ^ 64 \<le> v then - 1 else if neg then - of_nat v else of_nat v)"

definition strtol :: "nat \<Rightarrow> string \<Rightarrow> int" where
  "strtol base str =
     (case scan_number base str of (neg, v) \<Rightarrow>
        max (- (2 ^ 63)) (min (2 ^ 63 - 1) (if neg then - int v else int v)))"

text \<open>\<open>str[i]\<close> of a \<open>std::string\<close>: the position after the last character reads as NUL.\<close>

definition char_at :: "string \<Rightarrow> nat \<Rightarrow> char" where
  "char_at str i = (if i < length str then str ! i else CHR 0x00)"

definition effective_base :: "string \<Rightarrow> nat \<Rightarrow> nat" where
  "effective_base str base =
     (if char_at str 0 = CHR ''0'' \<and> char_at str 1 = CHR ''x'' \<or> char_at str 1 = CHR ''X''
      then 16 else base)"

definition String2Int_u64 :: "string \<Rightarrow> nat \<Rightarrow> u64" where
  "String2Int_u64 str base = (if str = [] then 0 else strtoull (effective_base str base) str)"

definition String2Int_i64 :: "string \<Rightarrow> nat \<Rightarrow> int" where
  "String2Int_i64 str base = (if str = [] then 0 else strtol (effective_base str base) str)"

definition String2Int_int :: "string \<Rightarrow> nat \<Rightarrow> int" where
  "String2Int_int str base =
     (if str = [] then 0
      else sint (word_of_int (strtol (effective_base str base) str) :: 32 word))"

text \<open>Decimal printing.\<close>

definition dec_digit :: "nat \<Rightarrow> char" where
  "dec_digit d = char_of (48 + d)"

fun dec :: "nat \<Rightarrow> string" where
  "dec n = (if n < 10 then [dec_digit n] else dec (n div 10) @ [dec_digit (n mod 10)])"

declare dec.simps [simp del]

lemma dec_digit_code: "d < 10 \<Longrightarrow> of_char (dec_digit d) = 48 + d"
  by (simp add: dec_digit_def)

lemma digit_val_dec_digit: "d < 10 \<Longrightarrow> digit_val (dec_digit d) = Some d"
  by (simp add: digit_val_def dec_digit_code)

definition is_dec :: "char \<Rightarrow> bool" where
  "is_dec c \<longleftrightarrow> (\<exists>d<10. c = dec_digit d)"

lemma dec_chars: "c \<in> set (dec n) \<Longrightarrow> is_dec c"
proof (induction n rule: dec.induct)
  case (1 n)
  have "is_dec (dec_digit (n mod 10))"
    unfolding is_dec_def by (intro exI [of _ "n mod 10"]) simp
  with 1 show ?case
    by (cases "n < 10") (auto simp: dec.simps [of n] is_dec_def)
qed

lemma dec_nonempty [simp]: "dec n \<noteq> []"
  by (simp add: dec.simps [of n])

lemma is_dec_code: "is_dec c \<Longrightarrow> 48 \<le> (of_char c :: nat) \<and> of_char c < (58 :: nat)"
  by (auto simp: is_dec_def dec_digit_code)

lemma is_dec_not:
  assumes "is_dec c"
  shows "\<not> isspace c" "c \<noteq> CHR ''-''" "c \<noteq> CHR ''+''" "c \<noteq> CHR ''x''" "c \<noteq> CHR ''X''"
    "c \<noteq> CHR '',''" "c \<noteq> CHR '':''" "c \<noteq> CHR '' ''"
  using is_dec_code [OF assms] by (auto simp: isspace_def)

lemma scan_digits_append:
  "(\<forall>c\<in>set xs. is_dec c) \<Longrightarrow> scan_digits 10 acc (xs @ ys) = scan_digits 10 (scan_digits 10 acc xs) ys"
  by (induction xs arbitrary: acc) (auto simp: is_dec_def digit_val_dec_digit)

lemma scan_digits_dec: "scan_digits 10 0 (dec n) = n"
proof (induction n rule: dec.induct)
  case (1 n)
  show ?case
  proof (cases "n < 10")
    case True
    then show ?thesis by (simp add: dec.simps [of n] digit_val_dec_digit)
  next
    case False
    with 1 show ?thesis
      by (simp add: dec.simps [of n] scan_digits_append dec_chars digit_val_dec_digit)
  qed
qed

lemma scan_number_dec: "scan_number 10 (dec n) = (False, n)"
proof -
  obtain c cs where c: "dec n = c # cs" by (cases "dec n") auto
  then have "is_dec c" using dec_chars [of c n] by simp
  with c have "dropWhile isspace (dec n) = dec n" and "hd (dec n) \<noteq> CHR ''-''"
    and "hd (dec n) \<noteq> CHR ''+''"
    using is_dec_not by auto
  then show ?thesis by (simp add: scan_number_def scan_digits_dec)
qed

lemma effective_base_dec: "effective_base (dec n) base = base"
proof -
  have "is_dec (char_at (dec n) 1) \<or> char_at (dec n) 1 = CHR 0x00"
    using dec_chars [OF nth_mem, of 1 n] by (simp add: char_at_def)
  then have "char_at (dec n) 1 \<noteq> CHR ''x'' \<and> char_at (dec n) 1 \<noteq> CHR ''X''"
    using is_dec_not(4,5) by auto
  then show ?thesis by (simp add: effective_base_def)
qed

lemma String2Int_dec: "n < 2 ^ 64 \<Longrightarrow> String2Int_u64 (dec n) 10 = of_nat n"
  by (simp add: String2Int_u64_def strtoull_def effective_base_dec scan_number_dec)

lemma unat_String2Int_dec: "n < 2 ^ 64 \<Longrightarrow> unat (String2Int_u64 (dec n) 10) = n"
  by (simp add: String2Int_dec unat_of_nat)

section \<open>DeleteFile\<close>

definition DeleteFile :: "world \<Rightarrow> string \<Rightarrow> int \<times> world" where
  "DeleteFile w filename =
     (if filename = [] then (-1, w)
      else case sys_unlink w filename of
          (ok, w') \<Rightarrow> if \<not> ok \<and> errno w' \<noteq> ENOENT then (-1, w') else (0, w'))"

end
