(* ===== verification/Ranges.thy ===== *)
theory Ranges
  imports Prelude
begin

text \<open>
  Reading and writing a buffer through a list of ranges: \<open>gather\<close> concatenates the ranges,
  \<open>scatter\<close> lays consecutive parts of the data into them. They are the reference for the block
  sets of \<open>services/applypatch\<close>, which address a partition by such lists.
\<close>

type_synonym ranges = "(nat \<times> nat) list"

fun gather :: "ranges \<Rightarrow> 'a list \<Rightarrow> 'a list" where
  "gather [] c = []"
| "gather ((p, n) # rs) c = slice p n c @ gather rs c"

fun scatter :: "ranges \<Rightarrow> 'a list \<Rightarrow> 'a list \<Rightarrow> 'a list" where
  "scatter [] data c = c"
| "scatter ((p, n) # rs) data c = scatter rs (drop n data) (blit p (take n data) c)"

fun total :: "ranges \<Rightarrow> nat" where
  "total [] = 0"
| "total ((p, n) # rs) = n + total rs"

definition in_bounds :: "ranges \<Rightarrow> nat \<Rightarrow> bool" where
  "in_bounds rs m \<longleftrightarrow> list_all (\<lambda>(p, n). p + n \<le> m) rs"

definition apart :: "nat \<Rightarrow> nat \<Rightarrow> ranges \<Rightarrow> bool" where
  "apart p n rs \<longleftrightarrow> list_all (\<lambda>(q, m). p + n \<le> q \<or> q + m \<le> p) rs"

fun disjoint_ranges :: "ranges \<Rightarrow> bool" where
  "disjoint_ranges [] \<longleftrightarrow> True"
| "disjoint_ranges ((p, n) # rs) \<longleftrightarrow> apart p n rs \<and> disjoint_ranges rs"

lemma in_bounds_simps [simp]:
  "in_bounds [] m" "in_bounds ((p, n) # rs) m \<longleftrightarrow> p + n \<le> m \<and> in_bounds rs m"
  "in_bounds (rs @ rs') m \<longleftrightarrow> in_bounds rs m \<and> in_bounds rs' m"
  by (simp_all add: in_bounds_def)

lemma apart_simps [simp]:
  "apart p n []" "apart p n ((q, m) # rs) \<longleftrightarrow> (p + n \<le> q \<or> q + m \<le> p) \<and> apart p n rs"
  by (simp_all add: apart_def)

lemma total_append [simp]: "total (rs @ rs') = total rs + total rs'"
  by (induction rs rule: total.induct) auto

lemma scatter_Nil [simp]: "scatter rs [] c = c"
  by (induction rs arbitrary: c rule: total.induct) auto

lemma length_gather: "in_bounds rs (length c) \<Longrightarrow> length (gather rs c) = total rs"
  by (induction rs rule: total.induct) auto

lemma length_scatter: "in_bounds rs (length c) \<Longrightarrow> length (scatter rs data c) = length c"
proof (induction rs data c rule: scatter.induct)
  case (2 p n rs data c)
  then have "length (blit p (take n data) c) = length c" by (intro length_blit) auto
  with 2 show ?case by simp
qed simp

lemma slice_scatter:
  "in_bounds rs (length c) \<Longrightarrow> q + m \<le> length c \<Longrightarrow> apart q m rs \<Longrightarrow>
   slice q m (scatter rs data c) = slice q m c"
proof (induction rs data c rule: scatter.induct)
  case (2 p n rs data c)
  have len: "length (blit p (take n data) c) = length c"
    using 2 by (intro length_blit) auto
  have "slice q m (blit p (take n data) c) = slice q m c"
    using 2 by (intro slice_blit_disjoint) auto
  with 2 len show ?case by simp
qed simp

lemma nth_scatter_outside:
  assumes "in_bounds rs (length c)" and "i < length c" and "apart i 1 rs"
  shows "scatter rs data c ! i = c ! i"
proof -
  have "slice i 1 (scatter rs data c) ! 0 = slice i 1 c ! 0"
    using assms by (subst slice_scatter) auto
  then show ?thesis
    using assms by (simp add: nth_slice length_scatter)
qed

lemma gather_blit_apart:
  "in_bounds rs (length c) \<Longrightarrow> p + length xs \<le> length c \<Longrightarrow> apart p (length xs) rs \<Longrightarrow>
   gather rs (blit p xs c) = gather rs c"
  by (induction rs rule: total.induct) (auto simp: slice_blit_disjoint)

lemma gather_scatter:
  "in_bounds rs (length c) \<Longrightarrow> disjoint_ranges rs \<Longrightarrow> length data = total rs \<Longrightarrow>
   gather rs (scatter rs data c) = data"
proof (induction rs data c rule: scatter.induct)
  case (2 p n rs data c)
  then have len: "length (take n data) = n" by simp
  have lenb: "length (blit p (take n data) c) = length c"
    using 2 by (intro length_blit) auto
  have "slice p n (scatter rs (drop n data) (blit p (take n data) c)) = slice p n (blit p (take n data) c)"
    using 2 lenb by (intro slice_scatter) auto
  also have "\<dots> = take n data"
    using 2 len slice_blit_same [of p "take n data" c] by simp
  finally show ?case
    using 2 lenb by simp
qed simp

lemma scatter_gather: "in_bounds rs (length c) \<Longrightarrow> scatter rs (gather rs c) c = c"
proof (induction rs rule: total.induct)
  case (2 p n rs)
  then have "n \<le> length c - p" by auto
  with 2 show ?case
    by (simp add: blit_slice_id min_absorb1)
qed simp

text \<open>Appending to the data written so far is one more write at the cursor.\<close>

lemma scatter_append_at:
  assumes "rs ! i = (p, n)" and "i < length rs"
    and "length xs = total (take i rs) + k" and "k + length ys \<le> n"
    and "in_bounds rs (length c)"
  shows "scatter rs (xs @ ys) c = blit (p + k) ys (scatter rs xs c)"
  using assms
proof (induction rs arbitrary: i xs c rule: total.induct)
  case (2 q m rs)
  show ?case
  proof (cases i)
    case 0
    with 2 have "q = p" "m = n" "length xs = k" by auto
    moreover have "p + length xs + length ys \<le> length c"
      using 2 0 \<open>length xs = k\<close> by auto
    ultimately show ?thesis
      using 2 0 blit_blit_append [of p xs ys c] by simp
  next
    case (Suc j)
    have "length (blit q (take m xs) c) = length c"
      using 2 by (intro length_blit) auto
    with 2 Suc show ?thesis
      by (simp add: "2.IH" [of j])
  qed
qed simp

lemma gather_append [simp]: "gather (rs @ rs') c = gather rs c @ gather rs' c"
  by (induction rs rule: total.induct) auto

lemma scatter_append:
  "length xs = total rs \<Longrightarrow> scatter (rs @ rs') (xs @ ys) c = scatter rs' ys (scatter rs xs c)"
  by (induction rs arbitrary: xs c rule: total.induct) auto

lemma blit_commute:
  assumes "p + length xs \<le> length c" and "q + length ys \<le> length c"
    and "p + length xs \<le> q \<or> q + length ys \<le> p"
  shows "blit p xs (blit q ys c) = blit q ys (blit p xs c)"
  using assms by (intro nth_equalityI) (auto simp: blit_simps)

lemma scatter_blit_commute:
  "in_bounds rs (length c) \<Longrightarrow> q + length ys \<le> length c \<Longrightarrow> apart q (length ys) rs \<Longrightarrow>
   blit q ys (scatter rs xs c) = scatter rs xs (blit q ys c)"
proof (induction rs xs c rule: scatter.induct)
  case (2 p n rs xs c)
  have len: "length (blit p (take n xs) c) = length c"
    using 2 by (intro length_blit) auto
  have "blit q ys (blit p (take n xs) c) = blit p (take n xs) (blit q ys c)"
    using 2 by (intro blit_commute) auto
  with 2 len show ?case by simp
qed simp

text \<open>Ranges in increasing order, the first not below \<open>lo\<close>.\<close>

fun ascending :: "nat \<Rightarrow> ranges \<Rightarrow> bool" where
  "ascending lo [] \<longleftrightarrow> True"
| "ascending lo ((p, n) # rs) \<longleftrightarrow> lo \<le> p \<and> ascending (p + n) rs"

lemma ascending_append_single:
  "ascending lo (rs @ [(p, n)]) \<longleftrightarrow>
   ascending lo rs \<and> (if rs = [] then lo else fst (last rs) + snd (last rs)) \<le> p"
  by (induction lo rs rule: ascending.induct) auto

lemma ascending_total: "ascending lo (rs @ [(p, n)]) \<Longrightarrow> lo + total rs \<le> p"
  by (induction lo rs rule: ascending.induct) auto

lemma ascending_apart: "ascending lo (rs @ [(p, n)]) \<Longrightarrow> apart p n rs"
proof (induction lo rs rule: ascending.induct)
  case (2 lo q m rs)
  then have "q + m \<le> p" using ascending_total [of "q + m" rs p n] by simp
  with 2 show ?case by simp
qed simp

lemma ascending_mono: "ascending lo rs \<Longrightarrow> lo' \<le> lo \<Longrightarrow> ascending lo' rs"
  by (cases rs) auto

lemma ascending_above: "ascending lo rs \<Longrightarrow> p + n \<le> lo \<Longrightarrow> apart p n rs"
  by (induction lo rs rule: ascending.induct) auto

lemma ascending_disjoint: "ascending lo rs \<Longrightarrow> disjoint_ranges rs"
  by (induction lo rs rule: ascending.induct) (auto intro: ascending_above)

lemma ascending_fits:
  "ascending lo rs \<Longrightarrow> in_bounds rs m \<Longrightarrow> lo \<le> m \<Longrightarrow> lo + total rs \<le> m"
  by (induction lo rs rule: ascending.induct) auto

end
