(* ===== verification/Block_Set.thy ===== *)
theory Block_Set
  imports Text_Utils Ranges
begin

text \<open>
  \<open>services/applypatch/block_set.cpp\<close>, the part that needs no command: the block ranges of a
  transfer command, their parser, and reading, writing, zeroing, moving and comparing
  partition data through them. A block pair is a half-open range of 4096-byte blocks held in
  \<open>size_t\<close>; all range arithmetic wraps as in the code. A function whose value is an option
  returns None where the code reads or writes outside a buffer or loops for ever.
  \<open>byte_ranges\<close> is the abstraction: the ranges of bytes a block set addresses.
\<close>

section \<open>Data and parser\<close>

type_synonym block_pair = "u64 \<times> u64"

record block_set =
  blocks :: "block_pair list"
  blockSize :: u64
  offset :: u64

abbreviation (input) H_BLOCK_SIZE :: nat where
  "H_BLOCK_SIZE \<equiv> 4096"

definition BlockSet_new :: "u64 \<Rightarrow> block_set" where
  "BlockSet_new off = \<lparr>blocks = [], blockSize = 0, offset = off\<rparr>"

definition CheckReliablePair :: "block_set \<Rightarrow> block_pair \<Rightarrow> bool" where
  "CheckReliablePair bs pair =
     (if snd pair \<le> fst pair then False
      else \<not> (- 1 - (snd pair - fst pair) \<le> blockSize bs))"

definition PushBack :: "block_pair \<Rightarrow> block_set \<Rightarrow> block_set" where
  "PushBack pair bs =
     bs\<lparr>blocks := blocks bs @ [pair], blockSize := blockSize bs + (snd pair - fst pair)\<rparr>"

definition ClearBlocks :: "block_set \<Rightarrow> block_set" where
  "ClearBlocks bs = bs\<lparr>blocks := [], blockSize := 0\<rparr>"

fun push_reliable :: "block_pair list \<Rightarrow> block_set \<Rightarrow> block_set" where
  "push_reliable [] bs = bs"
| "push_reliable (p # ps) bs =
     (if CheckReliablePair bs p then push_reliable ps (PushBack p bs) else bs)"

definition BlockSet_of_pairs :: "block_pair list \<Rightarrow> block_set" where
  "BlockSet_of_pairs pairs =
     (if pairs = [] then BlockSet_new 0 else push_reliable pairs (BlockSet_new 0))"

text \<open>The loop over the tokens after the count, two at a time.\<close>

fun insert_tokens :: "string list \<Rightarrow> block_set \<Rightarrow> block_set" where
  "insert_tokens (t # u # ts) bs =
     insert_tokens ts (PushBack (String2Int_u64 t 10, String2Int_u64 u 10) bs)"
| "insert_tokens _ bs = bs"

definition ParserAndInsert_tokens :: "string list \<Rightarrow> block_set \<Rightarrow> bool \<times> block_set" where
  "ParserAndInsert_tokens blockToken bs =
     (let bs0 = ClearBlocks bs in
      if blockToken = [] then (False, bs0)
      else if length blockToken < 3 then (False, bs0)
      else let blockPairSize = String2Int_u64 (hd blockToken) 10 in
           if blockPairSize = 0 \<or> blockPairSize mod 2 \<noteq> 0
              \<or> blockPairSize \<noteq> of_nat (length blockToken - 1)
           then (False, bs0)
           else (True, insert_tokens (tl blockToken) bs0))"

definition ParserAndInsert :: "string \<Rightarrow> block_set \<Rightarrow> bool \<times> block_set" where
  "ParserAndInsert blockStr bs =
     (if blockStr = '''' then (False, bs)
      else ParserAndInsert_tokens (SplitString blockStr '','') bs)"

definition parsed :: "string \<Rightarrow> block_set \<Rightarrow> block_set" where
  "parsed blockStr bs = snd (ParserAndInsert blockStr bs)"

definition BlockSet_of_str :: "string \<Rightarrow> u64 \<Rightarrow> block_set" where
  "BlockSet_of_str blockStr off = (parsed blockStr (BlockSet_new 0))\<lparr>offset := off\<rparr>"

definition CountOfRanges :: "block_set \<Rightarrow> nat" where
  "CountOfRanges bs = length (blocks bs)"

definition TotalBlockSize :: "block_set \<Rightarrow> u64" where
  "TotalBlockSize bs = blockSize bs"

section \<open>Reading and writing\<close>

text \<open>
  The seek offset of a range and its size in bytes; the result of \<open>lseek64\<close> is stored in an
  \<open>int\<close> and compared with \<open>-1\<close>.
\<close>

definition seek_offset :: "u64 \<Rightarrow> block_pair \<Rightarrow> int" where
  "seek_offset off p = sint (fst p * 4096 + off)"

definition pair_bytes :: "block_pair \<Rightarrow> nat" where
  "pair_bytes p = unat ((snd p - fst p) * 4096)"

definition seek_failed :: "errno + int \<Rightarrow> bool" where
  "seek_failed r =
     (case r of Inl _ \<Rightarrow> True | Inr n \<Rightarrow> sint (word_of_int n :: 32 word) = -1)"

fun read_blocks :: "u64 \<Rightarrow> block_pair list \<Rightarrow> world \<Rightarrow> int \<Rightarrow> nat \<Rightarrow> bytes \<Rightarrow> nat \<times> bytes \<times> world" where
  "read_blocks off [] w fd pos buffer = (pos, buffer, w)"
| "read_blocks off (p # ps) w fd pos buffer =
     (case sys_lseek w fd (seek_offset off p) of
        (r, w1) \<Rightarrow>
          if seek_failed r then (0, buffer, w1)
          else (let n = min (length buffer - pos) (pair_bytes p)
                in case ReadFully w1 fd n of
                     (ok, xs, w2) \<Rightarrow>
                       if \<not> ok then (0, blit pos xs buffer, w2)
                       else read_blocks off ps w2 fd (pos + n) (blit pos xs buffer)))"

definition ReadDataFromBlock :: "block_set \<Rightarrow> world \<Rightarrow> int \<Rightarrow> bytes \<Rightarrow> nat \<times> bytes \<times> world" where
  "ReadDataFromBlock bs w fd buffer = read_blocks (offset bs) (blocks bs) w fd 0 buffer"

fun write_blocks :: "u64 \<Rightarrow> block_pair list \<Rightarrow> world \<Rightarrow> int \<Rightarrow> nat \<Rightarrow> bytes \<Rightarrow> (nat \<times> world) option" where
  "write_blocks off [] w fd pos buffer =
     (case sys_fsync w fd of (ok, w1) \<Rightarrow> Some (if ok then pos else 0, w1))"
| "write_blocks off (p # ps) w fd pos buffer =
     (case sys_lseek w fd (seek_offset off p) of
        (r, w1) \<Rightarrow>
          if seek_failed r then Some (0, w1)
          else if length buffer < pos + pair_bytes p then None
          else case WriteFully w1 fd (slice pos (pair_bytes p) buffer) of
                 (ok, w2) \<Rightarrow>
                   if \<not> ok then Some (0, w2)
                   else write_blocks off ps w2 fd (pos + pair_bytes p) buffer)"

definition WriteDataToBlock :: "block_set \<Rightarrow> world \<Rightarrow> int \<Rightarrow> bytes \<Rightarrow> (nat \<times> world) option" where
  "WriteDataToBlock bs w fd buffer = write_blocks (offset bs) (blocks bs) w fd 0 buffer"

section \<open>Verification, overlap and moves\<close>

text \<open>\<open>sha256\<close> is the digest function of the crypto library.\<close>

definition VerifySha256 :: "(bytes \<Rightarrow> bytes) \<Rightarrow> bytes \<Rightarrow> u64 \<Rightarrow> string \<Rightarrow> (int \<times> string) option" where
  "VerifySha256 sha256 buffer sz expected =
     (let n = unat (sz * 4096) in
      if length buffer < n then None
      else let hexDigest = ConvertSha256Hex (sha256 (take n buffer))
           in Some (if hexDigest = expected then 0 else -1, hexDigest))"

definition IsTwoBlocksOverlap :: "block_set \<Rightarrow> block_set \<Rightarrow> bool" where
  "IsTwoBlocksOverlap source target =
     list_ex (\<lambda>(a, b). list_ex (\<lambda>(c, d). \<not> (b \<le> c \<or> d \<le> a)) (blocks target)) (blocks source)"

text \<open>
  \<open>MoveBlock\<close>: the ranges are visited from the last to the first, each copied in pieces that
  \<open>memmove_s\<close> accepts. One caller passes the same vector as target and source, so the source
  is either a vector of its own (\<open>Some\<close>) or the target itself (\<open>None\<close>).
\<close>

definition move_source :: "bytes option \<Rightarrow> bytes \<Rightarrow> bytes" where
  "move_source source target = (case source of Some s \<Rightarrow> s | None \<Rightarrow> target)"

function move_pieces :: "bytes option \<Rightarrow> nat \<Rightarrow> nat \<Rightarrow> nat \<Rightarrow> bytes \<Rightarrow> bytes option" where
  "move_pieces source to from remainSize target =
     (if remainSize = 0 then Some target
      else let moveSize = min remainSize SECUREC_MEM_MAX_LEN;
               src = move_source source target
           in if length target < to + moveSize \<or> length src < from + moveSize then None
              else move_pieces source (to + moveSize) (from + moveSize) (remainSize - moveSize)
                     (blit to (slice from moveSize src) target))"
  by pat_completeness auto
termination by (relation "measure (\<lambda>(source, to, from, n, target). n)") auto

declare move_pieces.simps [simp del]

fun move_ranges :: "bytes option \<Rightarrow> block_pair list \<Rightarrow> u64 \<Rightarrow> bytes \<Rightarrow> bytes option" where
  "move_ranges source [] start target = Some target"
| "move_ranges source (p # ps) start target =
     (let start' = start - (snd p - fst p) in
      case move_pieces source (unat (fst p * 4096)) (unat (start' * 4096)) (pair_bytes p) target of
        None \<Rightarrow> None
      | Some target' \<Rightarrow> move_ranges source ps start' target')"

definition MoveBlock :: "bytes \<Rightarrow> block_set \<Rightarrow> bytes option \<Rightarrow> bytes option" where
  "MoveBlock target locations source =
     move_ranges source (rev (blocks locations)) (TotalBlockSize locations) target"

section \<open>Zeroing and comparing\<close>

text \<open>
  \<open>updater_mode\<close> is the value of \<open>IsUpdaterMode ()\<close>: then erasing is the \<open>BLKDISCARD\<close> ioctl,
  whose outcome the environment decides like that of any call; it leaves the contents of a
  discarded range to the device, here unchanged.
\<close>

definition sys_discard :: "world \<Rightarrow> int \<Rightarrow> bool \<times> world" where
  "sys_discard w fd =
     (case next_fault w of
        Fault e \<Rightarrow> (False, fail_with e (pop_fault w))
      | _ \<Rightarrow> (True, pop_fault w))"

text \<open>The inner loop writes one zero block for each \<open>pos\<close> from \<open>first\<close> to \<open>second\<close>.\<close>

fun zero_loop :: "nat \<Rightarrow> world \<Rightarrow> int \<Rightarrow> int option \<times> world" where
  "zero_loop 0 w fd = (None, w)"
| "zero_loop (Suc n) w fd =
     (case WriteFully w fd (replicate H_BLOCK_SIZE 0) of
        (True, w1) \<Rightarrow> zero_loop n w1 fd
      | (False, w1) \<Rightarrow> (Some (if errno w1 = EIO then 1 else -1), w1))"

fun zero_blocks :: "u64 \<Rightarrow> bool \<Rightarrow> bool \<Rightarrow> block_pair list \<Rightarrow> world \<Rightarrow> int \<Rightarrow> int \<times> world" where
  "zero_blocks off updater_mode isErase [] w fd = (0, w)"
| "zero_blocks off updater_mode isErase (p # ps) w fd =
     (if isErase \<and> updater_mode
      then case sys_discard w fd of
             (ok, w1) \<Rightarrow> if \<not> ok \<and> errno w1 \<noteq> EOPNOTSUPP then (-1, w1)
                         else zero_blocks off updater_mode isErase ps w1 fd
      else case sys_lseek w fd (seek_offset off p) of
             (r, w1) \<Rightarrow>
               if seek_failed r then (-1, w1)
               else case zero_loop (unat (snd p) - unat (fst p)) w1 fd of
                      (Some e, w2) \<Rightarrow> (e, w2)
                    | (None, w2) \<Rightarrow> zero_blocks off updater_mode isErase ps w2 fd)"

definition WriteZeroToBlock :: "block_set \<Rightarrow> bool \<Rightarrow> world \<Rightarrow> int \<Rightarrow> bool \<Rightarrow> int \<times> world" where
  "WriteZeroToBlock bs updater_mode w fd isErase =
     zero_blocks (offset bs) updater_mode isErase (blocks bs) w fd"

function CompareBlocks :: "bytes \<Rightarrow> bytes \<Rightarrow> nat \<Rightarrow> nat \<Rightarrow> bool" where
  "CompareBlocks lhs rhs sz off =
     (if sz \<le> off then True
      else let currSize = min (sz - off) H_BLOCK_SIZE
           in if slice off currSize lhs \<noteq> slice off currSize rhs then False
              else CompareBlocks lhs rhs sz (off + H_BLOCK_SIZE))"
  by pat_completeness auto
termination by (relation "measure (\<lambda>(lhs, rhs, sz, off). sz - off)") auto

declare CompareBlocks.simps [simp del]

function compare_range :: "nat \<Rightarrow> bytes \<Rightarrow> world \<Rightarrow> int \<Rightarrow> nat \<Rightarrow> nat \<Rightarrow> (bool \<times> nat \<times> world) option" where
  "compare_range bufferSize buffer w fd bufferPos remaining =
     (if remaining = 0 then Some (True, bufferPos, w)
      else let readSize = min remaining bufferSize in
           if readSize = 0 then None
           else case ReadFully w fd readSize of
                  (ok, xs, w1) \<Rightarrow>
                    if \<not> ok then Some (False, bufferPos, w1)
                    else if length buffer < bufferPos + readSize then None
                    else if \<not> CompareBlocks xs (drop bufferPos buffer) readSize 0
                    then Some (False, bufferPos, w1)
                    else compare_range bufferSize buffer w1 fd (bufferPos + readSize)
                           (remaining - readSize))"
  by pat_completeness auto
termination
  by (relation "measure (\<lambda>(bufferSize, buffer, w, fd, bufferPos, remaining). remaining)")
    (auto simp: min_def split: if_splits)

declare compare_range.simps [simp del]

fun compare_blocks :: "u64 \<Rightarrow> nat \<Rightarrow> block_pair list \<Rightarrow> bytes \<Rightarrow> world \<Rightarrow> int \<Rightarrow> nat \<Rightarrow> (bool \<times> world) option" where
  "compare_blocks off bufferSize [] buffer w fd bufferPos = Some (True, w)"
| "compare_blocks off bufferSize (p # ps) buffer w fd bufferPos =
     (case sys_lseek w fd (seek_offset off p) of
        (Inl _, w1) \<Rightarrow> Some (False, w1)
      | (Inr _, w1) \<Rightarrow>
          (case compare_range bufferSize buffer w1 fd bufferPos (pair_bytes p) of
             None \<Rightarrow> None
           | Some (ok, bufferPos', w2) \<Rightarrow>
               if \<not> ok then Some (False, w2)
               else compare_blocks off bufferSize ps buffer w2 fd bufferPos'))"

definition CompareDataFromBlock :: "block_set \<Rightarrow> world \<Rightarrow> int \<Rightarrow> bytes \<Rightarrow> (bool \<times> world) option" where
  "CompareDataFromBlock bs w fd buffer =
     (let totalBytes = unat (TotalBlockSize bs * 4096) in
      if totalBytes \<noteq> length buffer then Some (False, w)
      else let maxBufferSize = 128 * 1024
           in compare_blocks (offset bs) (min totalBytes maxBufferSize) (blocks bs) buffer w fd 0)"

section \<open>The byte ranges of a block set\<close>

definition pair_range :: "u64 \<Rightarrow> block_pair \<Rightarrow> nat \<times> nat" where
  "pair_range off p = (unat (fst p) * 4096 + unat off, (unat (snd p) - unat (fst p)) * 4096)"

definition wf_pair :: "u64 \<Rightarrow> block_pair \<Rightarrow> bool" where
  "wf_pair off p \<longleftrightarrow> fst p < snd p \<and> unat (snd p) * 4096 + unat off < 2 ^ 63"

definition byte_ranges :: "block_set \<Rightarrow> ranges" where
  "byte_ranges bs = List.map (pair_range (offset bs)) (blocks bs)"

definition wf_blocks :: "block_set \<Rightarrow> bool" where
  "wf_blocks bs \<longleftrightarrow> list_all (wf_pair (offset bs)) (blocks bs)"

text \<open>No range starts at an offset whose low 32 bits are all set (the offset is then taken for an error).\<close>

definition seekable :: "u64 \<Rightarrow> bool" where
  "seekable off \<longleftrightarrow> unat off mod 4096 \<noteq> 4095"

lemma wf_pair_bytes:
  assumes "wf_pair off p"
  shows "pair_bytes p = snd (pair_range off p)"
proof -
  have "unat (snd p - fst p) = unat (snd p) - unat (fst p)"
    using assms by (intro unat_sub) (auto simp: wf_pair_def)
  moreover have "(unat (snd p) - unat (fst p)) * 4096 < 2 ^ 64"
    using assms by (auto simp: wf_pair_def diff_mult_distrib)
  ultimately show ?thesis
    unfolding pair_bytes_def pair_range_def by (subst unat_word_ariths(2)) simp
qed

lemma wf_pair_start:
  assumes "wf_pair off p"
  shows "unat (fst p * 4096 + off) = fst (pair_range off p)"
    and "fst (pair_range off p) < 2 ^ 63"
proof -
  have "unat (fst p) < unat (snd p)"
    using assms by (simp add: wf_pair_def word_less_nat_alt)
  then show less: "fst (pair_range off p) < 2 ^ 63"
    using assms by (simp add: wf_pair_def pair_range_def)
  then show "unat (fst p * 4096 + off) = fst (pair_range off p)"
    by (simp add: pair_range_def unat_word_ariths)
qed

lemma wf_seek_offset:
  assumes "wf_pair off p"
  shows "seek_offset off p = int (fst (pair_range off p))"
proof -
  have "sint (fst p * 4096 + off) = int (unat (fst p * 4096 + off))"
    using wf_pair_start [OF assms] by (intro sint_small) simp
  then show ?thesis
    using wf_pair_start(1) [OF assms] by (simp add: seek_offset_def)
qed

lemma seek_ok:
  assumes "wf_pair off p" and "seekable off"
  shows "\<not> seek_failed (Inr (seek_offset off p))"
proof
  assume "seek_failed (Inr (seek_offset off p))"
  then have "sint (word_of_int (seek_offset off p) :: 32 word) = sint (- 1 :: 32 word)"
    by (simp add: seek_failed_def)
  then have "(word_of_int (seek_offset off p) :: 32 word) = - 1"
    by (simp only: signed_word_eqI)
  then have "uint (word_of_int (seek_offset off p) :: 32 word) = 2 ^ 32 - 1"
    by (simp add: unsigned_minus_1_eq_mask mask_eq_exp_minus_1)
  then have "seek_offset off p mod 2 ^ 32 = 2 ^ 32 - 1"
    by (simp add: uint_word_of_int)
  then have "seek_offset off p mod 2 ^ 32 mod 4096 = 4095" by simp
  then have "seek_offset off p mod 4096 = 4095"
    by (simp add: mod_mod_cancel)
  then have "int (unat off) mod 4096 = 4095"
    by (simp add: wf_seek_offset [OF assms(1)] pair_range_def mod_simps)
  then have "int (unat off mod 4096) = int 4095"
    by (simp only: zmod_int) simp
  then show False
    using assms(2) by (simp only: of_nat_eq_iff seekable_def)
qed

section \<open>Reading\<close>

lemma at_set_fd: "at w fd P q c \<Longrightarrow> at (set_fd fd P q' w) fd P q' c"
  by (simp add: at_def world_simps)

lemma at_core_cong: "core w = core w' \<Longrightarrow> at w fd P q c = at w' fd P q c"
  by (metis at_core)

text \<open>A successful seek: where the descriptor stands afterwards.\<close>

lemma seek_pair:
  assumes "sys_lseek w fd (seek_offset off p) = (r, w1)" and "\<not> seek_failed r"
    and "wf_pair off p" and "at w fd P q c"
  shows "core w1 = core (set_fd fd P (fst (pair_range off p)) w)"
    and "at w1 fd P (fst (pair_range off p)) c"
proof -
  obtain n where "r = Inr n" using assms(2) by (cases r) (auto simp: seek_failed_def)
  with assms(1) have lseek: "sys_lseek w fd (seek_offset off p) = (Inr n, w1)" by simp
  then show core: "core w1 = core (set_fd fd P (fst (pair_range off p)) w)"
    using sys_lseek_Inr [OF lseek] assms(4) wf_seek_offset [OF assms(3)] by (auto simp: at_def)
  show "at w1 fd P (fst (pair_range off p)) c"
    using at_core_cong [OF core] at_set_fd [OF assms(4)] by blast
qed

lemma blit_take_gather:
  assumes "pos \<le> length buf" and "n = min (length buf - pos) m" and "length (slice p n c) = n"
  shows "blit (pos + n) (take (length buf - (pos + n)) (gather rs c)) (blit pos (slice p n c) buf)
    = blit pos (take (length buf - pos) (gather ((p, m) # rs) c)) buf"
proof -
  have "take (length buf - pos) (slice p m c @ gather rs c)
      = slice p n c @ take (length buf - (pos + n)) (gather rs c)"
  proof (cases "m \<le> length buf - pos")
    case True
    with assms(2,3) have "n = m" and "length (slice p m c) = m" by auto
    with True show ?thesis by simp
  next
    case False
    with assms have "n = length buf - pos" by simp
    moreover have "n \<le> length c - p" using assms(3) by simp
    ultimately have "n \<le> length (slice p m c)" and "take n (slice p m c) = slice p n c"
      using False by (auto simp: slice_def)
    with \<open>n = length buf - pos\<close> assms(1) show ?thesis by (auto simp: min_def)
  qed
  moreover have "blit (pos + n) t (blit pos (slice p n c) buf) = blit pos (slice p n c @ t) buf"
    if "t = take (length buf - (pos + n)) (gather rs c)" for t
  proof -
    have "pos + n \<le> length buf" using assms(1,2) by simp
    with that have "pos + length (slice p n c) + length t \<le> length buf"
      using assms(3) by simp
    from blit_blit_append [OF this] show ?thesis using assms(3) by simp
  qed
  ultimately show ?thesis by simp
qed

lemma read_blocks_spec:
  assumes "read_blocks off ps w fd pos buf = (k, buf', w')" and "k \<noteq> 0"
    and "list_all (wf_pair off) ps" and "at w fd P q c" and "pos \<le> length buf"
  shows "buf' = blit pos (take (length buf - pos) (gather (List.map (pair_range off) ps) c)) buf
    \<and> (\<exists>q'. core w' = core (set_fd fd P q' w))
    \<and> k = pos + min (length buf - pos) (total (List.map (pair_range off) ps))"
  using assms
proof (induction off ps w fd pos buf arbitrary: q rule: read_blocks.induct)
  case (1 off w fd pos buf)
  then have "core w' = core (set_fd fd P q w)" by (auto simp: at_def world_simps)
  with 1 show ?case by auto
next
  case (2 off p ps w fd pos buf)
  obtain r w1 where lseek: "sys_lseek w fd (seek_offset off p) = (r, w1)" by (metis surj_pair)
  have ok: "\<not> seek_failed r" using "2.prems"(1,2) lseek by auto
  obtain s m where sm: "pair_range off p = (s, m)" by (metis surj_pair)
  have wf: "wf_pair off p" using "2.prems"(3) by simp
  note seek = seek_pair [OF lseek ok wf "2.prems"(4)]
  define n where "n = min (length buf - pos) (pair_bytes p)"
  then have n: "n = min (length buf - pos) m" using wf_pair_bytes [OF wf] sm by simp
  obtain b xs w2 where rf: "ReadFully w1 fd n = (b, xs, w2)" by (metis surj_pair)
  have b: "b" using "2.prems"(1,2) lseek ok rf by (auto simp: n_def split: if_splits)
  have xs: "length xs = n" "xs = slice s n c" "core w2 = core (set_fd fd P (s + n) w1)"
    using ReadFully_reads [OF rf seek(2)] b sm by auto
  have "at w2 fd P (s + n) c"
    using at_core_cong [OF xs(3)] at_set_fd [OF seek(2)] by blast
  moreover have "read_blocks off ps w2 fd (pos + n) (blit pos xs buf) = (k, buf', w')"
    using "2.prems"(1) lseek ok rf b by (simp add: n_def Let_def)
  moreover have len: "length (blit pos xs buf) = length buf"
    using xs(1) n "2.prems"(5) by (intro length_blit) simp
  ultimately have IH: "buf' = blit (pos + n) (take (length buf - (pos + n))
        (gather (List.map (pair_range off) ps) c)) (blit pos xs buf)"
    "\<exists>q'. core w' = core (set_fd fd P q' w2)"
    "k = pos + n + min (length buf - (pos + n)) (total (List.map (pair_range off) ps))"
    using "2.IH" [OF lseek [symmetric] ok n_def rf [symmetric] refl] "2.prems" n by (auto simp: b)
  have "buf' = blit pos (take (length buf - pos) (gather (List.map (pair_range off) (p # ps)) c)) buf"
    using IH(1) blit_take_gather [OF "2.prems"(5) n, of s c] xs sm by simp
  moreover have "\<exists>q'. core w' = core (set_fd fd P q' w)"
    using IH(2) xs(3) seek(1) by (auto simp: world_simps)
  moreover have "k = pos + min (length buf - pos) (total (List.map (pair_range off) (p # ps)))"
    using IH(3) n sm by (auto simp: min_def)
  ultimately show ?case by blast
qed

end
