(* ===== verification/Block_Laws.thy ===== *)
theory Block_Laws
  imports Block_Set
begin

text \<open>
  What the operations of \<open>Block_Set\<close> do to the partition, stated with \<open>gather\<close> and \<open>scatter\<close>:
  the parser and its printer, writing then reading, the frame of every write (bytes outside the
  ranges and other objects never change, whatever call fails), the overlap test, moves inside
  one buffer, zeroing and comparing.
\<close>

section \<open>The frame of a write\<close>

text \<open>
  \<open>within P rs w w'\<close>: between \<open>w\<close> and \<open>w'\<close> only bytes of object \<open>P\<close> in the ranges \<open>rs\<close> changed.
\<close>

definition within :: "string \<Rightarrow> ranges \<Rightarrow> world \<Rightarrow> world \<Rightarrow> bool" where
  "within P rs w w' \<longleftrightarrow>
     (\<forall>p. p \<noteq> P \<longrightarrow> obj w' p = obj w p) \<and> is_dev w' = is_dev w \<and> dirs w' = dirs w \<and>
     (\<forall>c. obj w P = Some c \<longrightarrow> (\<exists>c'. obj w' P = Some c' \<and> length c' = length c \<and>
        (\<forall>i<length c. apart i 1 rs \<longrightarrow> c' ! i = c ! i)))"

lemma within_refl [simp]: "within P rs w w"
  by (simp add: within_def)

lemma within_trans: "within P rs w w' \<Longrightarrow> within P rs w' w'' \<Longrightarrow> within P rs w w''"
  by (simp add: within_def) metis

lemma within_core: "core w = core v \<Longrightarrow> core w' = core v' \<Longrightarrow> within P rs w w' = within P rs v v'"
  using core_eqD [of w v] core_eqD [of w' v'] by (simp add: within_def)

lemma within_mono:
  assumes "within P rs w w'" and "\<And>i. apart i 1 rs' \<Longrightarrow> apart i 1 rs"
  shows "within P rs' w w'"
  using assms(1) unfolding within_def by (meson assms(2))

lemma within_Cons: "within P rs w w' \<Longrightarrow> within P (r # rs) w w'"
  by (cases r) (auto intro: within_mono)

lemma within_seek: "core w' = core (set_fd fd P q w) \<Longrightarrow> within P rs w w'"
  using core_eqD [of w' "set_fd fd P q w"] by (simp add: within_def world_simps)

lemma within_wrote:
  assumes "core w' = core (wrote fd xs w)" and "at w fd P q c"
    and "q + length xs \<le> length c" and "\<And>i. q \<le> i \<Longrightarrow> i < q + length xs \<Longrightarrow> \<not> apart i 1 rs"
  shows "within P rs w w'"
proof -
  have "obj w' = obj (wrote fd xs w)" "is_dev w' = is_dev w" "dirs w' = dirs w"
    using core_eqD [OF assms(1)] by (simp_all add: wrote_sel)
  moreover have "blit q xs c ! i = c ! i" if "i < length c" "apart i 1 rs" for i
    using assms(3,4) that by (auto simp: nth_blit)
  ultimately show ?thesis
    using assms(2,3) by (auto simp: within_def wrote_at at_def world_simps write_at_blit length_blit)
qed

section \<open>Writing\<close>

lemma WriteFully_within:
  assumes "WriteFully w fd xs = (ok, w')" and "at w fd P q c" and "q + length xs \<le> length c"
    and "\<And>i. q \<le> i \<Longrightarrow> i < q + length xs \<Longrightarrow> \<not> apart i 1 rs"
  shows "within P rs w w' \<and> (ok \<longrightarrow> core w' = core (wrote fd xs w))"
proof -
  obtain n where n: "n \<le> length xs" "core w' = core (wrote fd (take n xs) w)" "ok \<longrightarrow> n = length xs"
    using write_loop_wrote [of True w fd xs ok w'] assms(1) by (auto simp: WriteFully_def)
  have "within P rs w w'"
    using assms n(1) by (intro within_wrote [OF n(2) assms(2)]) auto
  with n show ?thesis by auto
qed

lemma not_apart_inside: "p \<le> i \<Longrightarrow> i < p + n \<Longrightarrow> \<not> apart i 1 ((p, n) # rs)"
  by simp

lemma lseek_core_seek:
  assumes "sys_lseek w fd x = (r, w1)" and "at w fd P q c"
  shows "\<exists>q'. core w1 = core (set_fd fd P q' w)"
proof (cases r)
  case (Inl e)
  then have "core w1 = core (set_fd fd P q w)"
    using assms sys_lseek_Inl [of w fd x e w1] by (simp add: at_def world_simps)
  then show ?thesis by blast
next
  case (Inr n)
  then show ?thesis
    using assms sys_lseek_Inr [of w fd x n w1] by (auto simp: at_def)
qed

lemma write_blocks_spec:
  assumes "write_blocks off ps w fd pos buf = Some (k, w')"
    and "list_all (wf_pair off) ps" and "at w fd P q c"
    and "in_bounds (List.map (pair_range off) ps) (length c)" and "pos \<le> length buf"
  shows "within P (List.map (pair_range off) ps) w w' \<and>
    (k \<noteq> 0 \<longrightarrow> k = pos + total (List.map (pair_range off) ps) \<and> k \<le> length buf \<and>
      (\<exists>q'. core w' = core (set_obj P (scatter (List.map (pair_range off) ps) (drop pos buf) c)
                           (set_fd fd P q' w))))"
  using assms
proof (induction off ps w fd pos buf arbitrary: q c rule: write_blocks.induct)
  case (1 off w fd pos buf)
  have "core w' = core w"
    using "1.prems"(1) sys_fsync_core [of w fd] by (auto split: prod.splits)
  moreover have "set_obj P c (set_fd fd P q w) = w"
    using "1.prems"(3) by (simp add: at_def world_simps)
  ultimately show ?case
    using 1 within_core [of w' w w w P "[]"]
    by (auto simp: within_core [of w w w' w] split: prod.splits if_splits) metis
next
  case (2 off p ps w fd pos buf)
  let ?rs = "List.map (pair_range off) ps"
  obtain r w1 where lseek: "sys_lseek w fd (seek_offset off p) = (r, w1)" by (metis surj_pair)
  obtain s m where sm: "pair_range off p = (s, m)" by (metis surj_pair)
  have wf: "wf_pair off p" using "2.prems"(2) by simp
  have m: "pair_bytes p = m" using wf_pair_bytes [OF wf] sm by simp
  have seek: "within P ((s, m) # ?rs) w w1"
    using lseek_core_seek [OF lseek "2.prems"(3)] within_seek by blast
  show ?case
  proof (cases "seek_failed r")
    case True
    with "2.prems"(1) lseek seek sm show ?thesis by auto
  next
    case ok: False
    note sp = seek_pair [OF lseek ok wf "2.prems"(3)]
    have room: "pos + m \<le> length buf"
      using "2.prems"(1) lseek ok m by (auto split: if_splits)
    define xs where "xs = slice pos m buf"
    then have len: "length xs = m" using room by simp
    have bound: "s + m \<le> length c" "in_bounds ?rs (length c)" using "2.prems"(4) sm by simp_all
    obtain b w2 where wr: "WriteFully w1 fd xs = (b, w2)" by (metis surj_pair)
    have at1: "at w1 fd P s c" using sp(2) sm by simp
    have W: "within P ((s, m) # ?rs) w1 w2" "b \<longrightarrow> core w2 = core (wrote fd xs w1)"
      using WriteFully_within [OF wr at1, of "(s, m) # ?rs"] bound len by auto
    have win2: "within P ((s, m) # ?rs) w w2" using within_trans [OF seek W(1)] .
    show ?thesis
    proof (cases b)
      case False
      with "2.prems"(1) lseek ok m room wr win2 sm show ?thesis
        by (auto simp: xs_def)
    next
      case True
      have rest: "write_blocks off ps w2 fd (pos + m) buf = Some (k, w')"
        using "2.prems"(1) lseek ok m room wr True by (simp add: xs_def)
      have core2: "core w2 = core (set_obj P (blit s xs c) (set_fd fd P (s + m) w1))"
        using W(2) True at1 bound len by (simp add: wrote_at write_at_blit)
      then have at2: "at w2 fd P (s + m) (blit s xs c)"
        using at_core_cong by (fastforce simp: at_def world_simps)
      have lenb: "length (blit s xs c) = length c"
        using bound len by (intro length_blit) simp
      have IH: "within P ?rs w2 w' \<and> (k \<noteq> 0 \<longrightarrow> k = pos + m + total ?rs \<and> k \<le> length buf \<and>
        (\<exists>q'. core w' = core (set_obj P (scatter ?rs (drop (pos + m) buf) (blit s xs c))
            (set_fd fd P q' w2))))"
        using "2.IH" [OF lseek [symmetric] ok _ wr [unfolded xs_def, folded m, symmetric] _ _ _ at2]
          rest True room "2.prems"(2) bound lenb m by auto
      have "scatter ((s, m) # ?rs) (drop pos buf) c = scatter ?rs (drop (pos + m) buf) (blit s xs c)"
        by (simp add: xs_def slice_def add.commute)
      moreover have "core (set_obj P d (set_fd fd P q' w2)) = core (set_obj P d (set_fd fd P q' w))"
        for d q'
        using core2 sp(1) by (simp add: world_simps)
      ultimately show ?thesis
        using IH win2 within_trans [OF win2 within_Cons] sm by auto
    qed
  qed
qed

lemma write_blocks_ok:
  assumes "faults w = []" and "list_all (wf_pair off) ps" and "seekable off"
    and "at w fd P q c" and "in_bounds (List.map (pair_range off) ps) (length c)"
    and "pos + total (List.map (pair_range off) ps) \<le> length buf"
  shows "\<exists>w'. write_blocks off ps w fd pos buf =
    Some (pos + total (List.map (pair_range off) ps), w')"
  using assms
proof (induction ps arbitrary: w pos q c)
  case Nil
  then show ?case by (auto simp: sys_fsync_ok at_def)
next
  case (Cons p ps)
  obtain s m where sm: "pair_range off p = (s, m)" by (metis surj_pair)
  have wf: "wf_pair off p" using Cons.prems(2) by simp
  have m: "pair_bytes p = m" using wf_pair_bytes [OF wf] sm by simp
  have s: "seek_offset off p = int s" using wf_seek_offset [OF wf] sm by simp
  have lseek: "sys_lseek w fd (int s) = (Inr (int s), set_fd fd P s w)"
    using Cons.prems sm by (intro sys_lseek_ok) auto
  have at1: "at (set_fd fd P s w) fd P s c" using at_set_fd Cons.prems(4) .
  define xs where "xs = slice pos m buf"
  have len: "length xs = m" using Cons.prems(6) sm by (simp add: xs_def)
  have wr: "WriteFully (set_fd fd P s w) fd xs = (True, wrote fd xs (set_fd fd P s w))"
    using at1 Cons.prems(1,5) sm len unfolding WriteFully_def
    by (intro write_loop_ok) (auto simp: room_def at_def world_simps)
  have at2: "at (wrote fd xs (set_fd fd P s w)) fd P (s + m) (blit s xs c)"
    using at_wrote [OF at1, of xs] Cons.prems(5) sm len by (simp add: write_at_blit)
  have "length (blit s xs c) = length c"
    using Cons.prems(5) sm len by (intro length_blit) simp
  then obtain w' where "write_blocks off ps (wrote fd xs (set_fd fd P s w)) fd (pos + m) buf =
      Some (pos + m + total (List.map (pair_range off) ps), w')"
    using Cons.IH [OF _ _ Cons.prems(3) at2, of "pos + m"] Cons.prems sm
    by (auto simp: wrote_sel world_simps add.assoc)
  moreover have "\<not> length buf < pos + m" using Cons.prems(6) sm by simp
  moreover have "\<not> seek_failed (Inr (int s))"
    using seek_ok [OF wf Cons.prems(3)] s by simp
  ultimately show ?case
    using s m sm lseek wr by (simp add: xs_def)
qed

lemma read_blocks_ok:
  assumes "faults w = []" and "list_all (wf_pair off) ps" and "seekable off"
    and "at w fd P q c" and "in_bounds (List.map (pair_range off) ps) (length c)"
    and "pos \<le> length buf"
  shows "fst (read_blocks off ps w fd pos buf) =
    pos + min (length buf - pos) (total (List.map (pair_range off) ps))"
  using assms
proof (induction ps arbitrary: w pos q buf)
  case Nil
  then show ?case by simp
next
  case (Cons p ps)
  obtain s m where sm: "pair_range off p = (s, m)" by (metis surj_pair)
  have wf: "wf_pair off p" using Cons.prems(2) by simp
  have m: "pair_bytes p = m" using wf_pair_bytes [OF wf] sm by simp
  have s: "seek_offset off p = int s" using wf_seek_offset [OF wf] sm by simp
  define n where "n = min (length buf - pos) m"
  have lseek: "sys_lseek w fd (int s) = (Inr (int s), set_fd fd P s w)"
    using Cons.prems sm by (intro sys_lseek_ok) auto
  have at1: "at (set_fd fd P s w) fd P s c" using at_set_fd Cons.prems(4) .
  have rd: "ReadFully (set_fd fd P s w) fd n = (True, slice s n c, set_fd fd P (s + n) (set_fd fd P s w))"
    using at1 Cons.prems(1,5) sm n_def by (intro ReadFully_ok) (auto simp: world_simps)
  have at2: "at (set_fd fd P (s + n) (set_fd fd P s w)) fd P (s + n) c"
    using at_set_fd at1 .
  have len: "length (slice s n c) = n" using Cons.prems(5) sm n_def by auto
  moreover have "n \<le> length buf - pos" by (simp add: n_def)
  ultimately have len': "length (blit pos (slice s n c) buf) = length buf"
    using Cons.prems(6) by (intro length_blit) linarith
  have ns: "\<not> seek_failed (Inr (int s))"
    using seek_ok [OF wf Cons.prems(3)] s by simp
  have "fst (read_blocks off ps (set_fd fd P (s + n) (set_fd fd P s w)) fd (pos + n)
      (blit pos (slice s n c) buf)) =
      pos + n + min (length buf - (pos + n)) (total (List.map (pair_range off) ps))"
    using Cons.IH [OF _ _ Cons.prems(3) at2, of "pos + n" "blit pos (slice s n c) buf"] Cons.prems
      sm len' n_def by (simp add: world_simps)
  then show ?case
    using s m sm lseek rd ns unfolding n_def [symmetric]
    by (simp add: n_def [symmetric] Let_def) (auto simp: n_def min_def)
qed

section \<open>Sizes\<close>

text \<open>The invariant of the block count: it is the (wrapped) sum of the range lengths.\<close>

definition block_sum :: "block_pair list \<Rightarrow> u64" where
  "block_sum ps = sum_list (List.map (\<lambda>p. snd p - fst p) ps)"

definition sized :: "block_set \<Rightarrow> bool" where
  "sized bs \<longleftrightarrow> blockSize bs = block_sum (blocks bs)"

lemma block_sum_simps [simp]:
  "block_sum [] = 0" "block_sum (p # ps) = (snd p - fst p) + block_sum ps"
  "block_sum (ps @ qs) = block_sum ps + block_sum qs"
  by (simp_all add: block_sum_def)

lemma sized_new [simp]: "sized (BlockSet_new off)"
  by (simp add: sized_def BlockSet_new_def)

lemma sized_PushBack: "sized bs \<Longrightarrow> sized (PushBack p bs)"
  by (simp add: sized_def PushBack_def)

lemma sized_Clear [simp]: "sized (ClearBlocks bs)"
  by (simp add: sized_def ClearBlocks_def)

lemma sized_push_reliable: "sized bs \<Longrightarrow> sized (push_reliable ps bs)"
  by (induction ps bs rule: push_reliable.induct) (auto intro: sized_PushBack)

lemma sized_insert_tokens: "sized bs \<Longrightarrow> sized (insert_tokens ts bs)"
  by (induction ts bs rule: insert_tokens.induct) (auto intro: sized_PushBack)

lemma sized_parsed: "sized bs \<Longrightarrow> sized (parsed s bs)"
  by (auto simp: parsed_def ParserAndInsert_def ParserAndInsert_tokens_def Let_def
      intro: sized_insert_tokens)

lemma unat_block_sum:
  "list_all (wf_pair off) ps \<Longrightarrow> total (List.map (pair_range off) ps) < 2 ^ 64 \<Longrightarrow>
   unat (block_sum ps) * 4096 = total (List.map (pair_range off) ps)"
proof (induction ps)
  case (Cons p ps)
  have sub: "unat (snd p - fst p) = unat (snd p) - unat (fst p)"
    using Cons.prems(1) by (intro unat_sub) (auto simp: wf_pair_def)
  obtain s m where sm: "pair_range off p = (s, m)" by (metis surj_pair)
  then have m: "m = unat (snd p - fst p) * 4096"
    using sub by (simp add: pair_range_def)
  have IH: "unat (block_sum ps) * 4096 = total (List.map (pair_range off) ps)"
    using Cons sm by simp
  have "(unat (snd p - fst p) + unat (block_sum ps)) * 4096 < 2 ^ 64"
    using Cons.prems(2) sm m IH by simp
  then have "unat (snd p - fst p + block_sum ps) = unat (snd p - fst p) + unat (block_sum ps)"
    by (subst unat_word_ariths(1)) simp
  then have "unat (block_sum (p # ps)) = unat (snd p - fst p) + unat (block_sum ps)" by simp
  then show ?case using sm m IH by simp
qed simp

lemma unat_total_bytes:
  assumes "sized bs" and "wf_blocks bs" and "total (byte_ranges bs) < 2 ^ 64"
  shows "unat (TotalBlockSize bs * 4096) = total (byte_ranges bs)"
proof -
  have "unat (TotalBlockSize bs) * 4096 = total (byte_ranges bs)"
    using assms unat_block_sum [of "offset bs" "blocks bs"]
    by (simp add: sized_def TotalBlockSize_def wf_blocks_def byte_ranges_def)
  with assms(3) show ?thesis by (subst unat_word_ariths(2)) simp
qed

section \<open>The parser\<close>

definition block_str :: "block_pair list \<Rightarrow> string" where
  "block_str ps = join_with CHR '',''
     (dec (2 * length ps) # concat (List.map (\<lambda>(a, b). [dec (unat a), dec (unat b)]) ps))"

lemma insert_tokens_pairs:
  "insert_tokens (concat (List.map (\<lambda>(a, b). [dec (unat a), dec (unat b)]) ps)) bs =
   bs\<lparr>blocks := blocks bs @ ps, blockSize := blockSize bs + block_sum ps\<rparr>"
proof (induction ps arbitrary: bs)
  case (Cons p ps)
  have "String2Int_u64 (dec (unat x)) 10 = x" for x :: u64
    using unsigned_less [of x, where 'a = nat] by (simp add: String2Int_dec)
  with Cons show ?case by (cases p) (simp add: PushBack_def add.assoc)
qed simp

lemma ParserAndInsert_block_str:
  assumes "ps \<noteq> []" and "2 * length ps < 2 ^ 64"
  shows "ParserAndInsert (block_str ps) bs =
    (True, bs\<lparr>blocks := ps, blockSize := block_sum ps\<rparr>)"
proof -
  define ts where "ts = concat (List.map (\<lambda>(a, b). [dec (unat a), dec (unat b)]) ps)"
  have len: "length ts = 2 * length ps"
    unfolding ts_def by (induction ps) auto
  have "set t \<inter> set '','' = {}" if t: "t \<in> set (dec (2 * length ps) # ts)" for t
  proof -
    obtain n where "t = dec n" using t by (auto simp: ts_def)
    then show ?thesis using dec_chars is_dec_not(6) by auto
  qed
  then have split: "SplitString (block_str ps) '','' = dec (2 * length ps) # ts"
    unfolding block_str_def ts_def [symmetric] by (intro SplitString_join) auto
  obtain t u ts' where ts': "ts = t # u # ts'"
    using assms(1) by (cases ps) (auto simp: ts_def split: prod.splits)
  have "block_str ps \<noteq> ''''"
    unfolding block_str_def ts_def [symmetric] ts' by simp
  moreover have un: "unat (of_nat (2 * length ps) :: u64) = 2 * length ps"
    using assms(2) by (simp only: unat_of_nat) simp
  moreover have "(of_nat (2 * length ps) :: u64) \<noteq> 0"
    using assms(1) un unat_0 [where 'a = 64] by (metis length_0_conv mult_is_0 zero_neq_numeral)
  moreover have "(of_nat (2 * length ps) :: u64) mod 2 = 0"
  proof -
    have "unat ((of_nat (2 * length ps) :: u64) mod 2) = 0"
      using un by (simp only: unat_mod_distrib) simp
    then show ?thesis by (simp only: unat_eq_0)
  qed
  moreover have "String2Int_u64 (dec (2 * length ps)) 10 = of_nat (2 * length ps)"
    using assms(2) by (rule String2Int_dec)
  moreover have "length (dec (2 * length ps) # ts) - 1 = 2 * length ps"
    and "\<not> length (dec (2 * length ps) # ts) < 3"
    using len assms(1) by (cases ps; simp)+
  ultimately have "ParserAndInsert (block_str ps) bs = (True, insert_tokens ts (ClearBlocks bs))"
    by (simp only: ParserAndInsert_def split ParserAndInsert_tokens_def Let_def list.sel
        if_False list.distinct simp_thms not_True_eq_False if_True)
  then show ?thesis
    using insert_tokens_pairs [of ps "ClearBlocks bs", folded ts_def]
    by (simp add: ClearBlocks_def)
qed

text \<open>
  C33. Printing a list of block pairs and parsing the text gives back exactly these pairs and
  their total, whatever the set held before.
\<close>

theorem block_parse_print:
  assumes "ps \<noteq> []" and "2 * length ps < 2 ^ 64"
  shows "ParserAndInsert (block_str ps) bs =
    (True, bs\<lparr>blocks := ps, blockSize := block_sum ps\<rparr>)"
  by (rule ParserAndInsert_block_str [OF assms])

theorem block_parse_print_witness:
  "ParserAndInsert (block_str [(0, 4), (8, 9)]) (BlockSet_new 0) =
    (True, (BlockSet_new 0)\<lparr>blocks := [(0, 4), (8, 9)], blockSize := 5\<rparr>)"
  using block_parse_print [of "[(0, 4), (8, 9)]" "BlockSet_new 0"] by simp

section \<open>Overlap\<close>

definition covers :: "block_set \<Rightarrow> u64 \<Rightarrow> bool" where
  "covers bs x \<longleftrightarrow> (\<exists>(a, b) \<in> set (blocks bs). a \<le> x \<and> x < b)"

lemma pair_overlap:
  fixes a b c d :: u64
  assumes "a < b" and "c < d"
  shows "\<not> (b \<le> c \<or> d \<le> a) \<longleftrightarrow> (\<exists>x. a \<le> x \<and> x < b \<and> c \<le> x \<and> x < d)"
proof
  assume "\<not> (b \<le> c \<or> d \<le> a)"
  then have "a \<le> max a c" "max a c < b" "c \<le> max a c" "max a c < d"
    using assms by (auto simp: max_def)
  then show "\<exists>x. a \<le> x \<and> x < b \<and> c \<le> x \<and> x < d" by blast
qed (meson leD le_less_trans less_le_trans)



section \<open>Moves\<close>

definition loc_ranges :: "block_set \<Rightarrow> ranges" where
  "loc_ranges bs = List.map (pair_range 0) (blocks bs)"

lemma move_pieces_apart:
  assumes "to + n \<le> length target" and "from + n \<le> length s"
  shows "move_pieces (Some s) to from n target = Some (blit to (slice from n s) target)"
  using assms
proof (induction "Some s" to "from" n target rule: move_pieces.induct)
  case (1 to "from" n target)
  show ?case
  proof (cases "n = 0")
    case True
    then show ?thesis by (simp add: move_pieces.simps [of _ _ _ 0])
  next
    case False
    define k where "k = min n SECUREC_MEM_MAX_LEN"
    have k: "k \<le> n" by (simp add: k_def)
    have len: "length (slice from k s) = k" using "1.prems" k by simp
    have lenb: "length (blit to (slice from k s) target) = length target"
      using "1.prems" k len by (intro length_blit) simp
    have "move_pieces (Some s) (to + k) (from + k) (n - k) (blit to (slice from k s) target) =
        Some (blit (to + k) (slice (from + k) (n - k) s) (blit to (slice from k s) target))"
      using "1.hyps" [OF False k_def, of s] "1.prems" k lenb by (simp add: move_source_def)
    moreover have "blit (to + k) (slice (from + k) (n - k) s) (blit to (slice from k s) target) =
        blit to (slice from k s @ slice (from + k) (n - k) s) target"
    proof -
      have "to + length (slice from k s) + length (slice (from + k) (n - k) s) \<le> length target"
        using "1.prems" k len by simp
      from blit_blit_append [OF this] show ?thesis using len by simp
    qed
    moreover have "slice from k s @ slice (from + k) (n - k) s = slice from n s"
      using k slice_append_split [of "from" k "n - k" s] by simp
    moreover have "\<not> length target < to + k" "\<not> length s < from + k" using "1.prems" k by auto
    ultimately show ?thesis
      using False by (simp add: move_pieces.simps [of _ _ _ n] Let_def move_source_def flip: k_def)
  qed
qed

text \<open>One piece inside one buffer is a single \<open>memmove\<close>.\<close>

lemma move_pieces_self:
  assumes "to + n \<le> length target" and "from + n \<le> length target" and "n \<le> SECUREC_MEM_MAX_LEN"
  shows "move_pieces None to from n target = Some (blit to (slice from n target) target)"
proof (cases "n = 0")
  case False
  have "\<not> length target < to + n" "\<not> length target < from + n" using assms by auto
  with False assms(3) show ?thesis
    by (simp add: move_pieces.simps [of None _ _ n] Let_def move_source_def min_absorb1
        move_pieces.simps [of None _ _ 0])
qed (simp add: move_pieces.simps [of _ _ _ 0])

lemma pair_range_0: "unat (fst p * 4096) = fst (pair_range 0 p)" if "wf_pair 0 p"
  using wf_pair_start(1) [OF that] by simp

lemma unat_blocks_step:
  assumes "wf_pair 0 p" and "pair_range 0 p = (d, n)"
    and "unat start * 4096 = t + n" and "t + n < 2 ^ 64"
  shows "unat (start - (snd p - fst p)) * 4096 = t"
    and "unat ((start - (snd p - fst p)) * 4096) = t"
proof -
  have "unat (snd p - fst p) = unat (snd p) - unat (fst p)"
    using assms(1) by (intro unat_sub) (auto simp: wf_pair_def)
  then have n: "n = unat (snd p - fst p) * 4096"
    using assms(2) by (simp add: pair_range_def)
  then have "unat (start - (snd p - fst p)) = unat start - unat (snd p - fst p)"
    using assms(3) by (intro unat_sub) (simp add: word_le_nat_alt)
  then show t: "unat (start - (snd p - fst p)) * 4096 = t"
    using assms(3) n by (simp add: diff_mult_distrib)
  show "unat ((start - (snd p - fst p)) * 4096) = t"
    unfolding unat_word_ariths(2) using t assms(4) by simp
qed

text \<open>
  The loop from the last range to the first, for a source of its own. \<open>start\<close> is the number
  of source blocks not yet placed.
\<close>

lemma move_ranges_apart:
  assumes "list_all (wf_pair 0) ps" and "disjoint_ranges (rev (List.map (pair_range 0) ps))"
    and "in_bounds (List.map (pair_range 0) ps) (length target)"
    and "unat start * 4096 = total (List.map (pair_range 0) ps)"
    and "total (List.map (pair_range 0) ps) \<le> length s"
    and "total (List.map (pair_range 0) ps) < 2 ^ 64"
  shows "move_ranges (Some s) (rev ps) start target =
    Some (scatter (List.map (pair_range 0) ps) s target)"
  using assms
proof (induction ps arbitrary: start target rule: rev_induct)
  case (snoc p ps)
  let ?rs = "List.map (pair_range 0) ps"
  obtain d n where dn: "pair_range 0 p = (d, n)" by (metis surj_pair)
  have wf: "wf_pair 0 p" using snoc.prems(1) by simp
  define start' where "start' = start - (snd p - fst p)"
  have st: "unat start' * 4096 = total ?rs" "unat (start' * 4096) = total ?rs"
    unfolding start'_def using unat_blocks_step [OF wf dn] snoc.prems(4,6) dn by simp_all
  have bounds: "d + n \<le> length target" "total ?rs + n \<le> length s" "in_bounds ?rs (length target)"
    using snoc.prems(3,5) dn by simp_all
  define xs where "xs = slice (total ?rs) n s"
  have len: "length xs = n" using bounds(2) by (simp add: xs_def)
  have apart: "apart d n ?rs" using snoc.prems(2) dn by (simp add: apart_def)
  have "move_pieces (Some s) (unat (fst p * 4096)) (unat (start' * 4096)) (pair_bytes p) target =
      Some (blit d xs target)"
    using move_pieces_apart [OF bounds(1,2)] wf_pair_bytes [OF wf] pair_range_0 [OF wf] dn st(2)
    by (simp add: xs_def)
  moreover have "length (blit d xs target) = length target"
    using bounds(1) len by (intro length_blit) simp
  then have "move_ranges (Some s) (rev ps) start' (blit d xs target) =
      Some (scatter ?rs s (blit d xs target))"
    using snoc st dn by (intro snoc.IH) simp_all
  moreover have "scatter ?rs s (blit d xs target) = scatter (?rs @ [(d, n)]) s target"
  proof -
    have "scatter (?rs @ [(d, n)]) (take (total ?rs) s @ drop (total ?rs) s) target =
        blit d xs (scatter ?rs (take (total ?rs) s) target)"
      using bounds(2) by (subst scatter_append) (simp_all add: xs_def slice_def)
    moreover have "scatter (?rs @ []) (take (total ?rs) s @ drop (total ?rs) s) target =
        scatter ?rs (take (total ?rs) s) target"
      using bounds(2) by (subst scatter_append) simp_all
    moreover have "blit d xs (scatter ?rs s target) = scatter ?rs s (blit d xs target)"
      using bounds(1,3) len apart by (intro scatter_blit_commute) auto
    ultimately show ?thesis by simp
  qed
  ultimately show ?case using dn by (simp add: start'_def)
qed simp

text \<open>
  With increasing locations every range is written at or above the source of the ranges still
  to come, so moving inside one buffer reads the same data.
\<close>

lemma move_ranges_self:
  assumes "list_all (wf_pair 0) ps" and "ascending 0 (List.map (pair_range 0) ps)"
    and "in_bounds (List.map (pair_range 0) ps) (length target)"
    and "unat start * 4096 = total (List.map (pair_range 0) ps)"
    and "total (List.map (pair_range 0) ps) < 2 ^ 64"
    and "list_all (\<lambda>p. pair_bytes p \<le> SECUREC_MEM_MAX_LEN) ps"
    and "take (total (List.map (pair_range 0) ps)) target = take (total (List.map (pair_range 0) ps)) s"
    and "length s = length target"
  shows "move_ranges None (rev ps) start target = move_ranges (Some s) (rev ps) start target"
  using assms
proof (induction ps arbitrary: start target rule: rev_induct)
  case (snoc p ps)
  let ?rs = "List.map (pair_range 0) ps"
  obtain d n where dn: "pair_range 0 p = (d, n)" by (metis surj_pair)
  have wf: "wf_pair 0 p" using snoc.prems(1) by simp
  define start' where "start' = start - (snd p - fst p)"
  have st: "unat start' * 4096 = total ?rs" "unat (start' * 4096) = total ?rs"
    unfolding start'_def using unat_blocks_step [OF wf dn] snoc.prems(4,5) dn by simp_all
  have asc: "ascending 0 (?rs @ [(d, n)])" using snoc.prems(2) dn by simp
  then have above: "total ?rs \<le> d" using ascending_total by fastforce
  have bounds: "d + n \<le> length target" "in_bounds ?rs (length target)"
    using snoc.prems(3) dn by simp_all
  then have fits: "total ?rs + n \<le> length target" using above by linarith
  define xs where "xs = slice (total ?rs) n s"
  have same: "slice (total ?rs) n target = xs"
    using arg_cong [OF snoc.prems(7), of "drop (total ?rs)"] dn
    by (simp add: xs_def slice_def drop_take)
  have len: "length xs = n" using fits snoc.prems(8) by (simp add: xs_def)
  have dest: "unat (fst p * 4096) = d" "pair_bytes p = n"
    using wf_pair_bytes [OF wf] pair_range_0 [OF wf] dn by simp_all
  have "move_pieces None d (total ?rs) n target = Some (blit d xs target)"
    using move_pieces_self [OF bounds(1) fits] snoc.prems(6) dest same by simp
  moreover have "move_pieces (Some s) d (total ?rs) n target = Some (blit d xs target)"
    using move_pieces_apart [OF bounds(1), of "total ?rs" s] fits snoc.prems(8) by (simp add: xs_def)
  moreover have lenb: "length (blit d xs target) = length target"
    using bounds(1) len by (intro length_blit) simp
  moreover have "take (total ?rs) (blit d xs target) = take (total ?rs) s"
  proof -
    have "take (total ?rs) (blit d xs target) = take (total ?rs) target"
      using above bounds(1) by (simp add: blit_def min_absorb1)
    also have "\<dots> = take (total ?rs) s"
      using arg_cong [OF snoc.prems(7), of "take (total ?rs)"] dn by (simp add: min_absorb1)
    finally show ?thesis .
  qed
  moreover have "ascending 0 ?rs" using asc ascending_append_single by blast
  ultimately have "move_ranges None (rev ps) start' (blit d xs target) =
      move_ranges (Some s) (rev ps) start' (blit d xs target)"
    using snoc bounds(2) st(1) dn by (intro snoc.IH) auto
  with \<open>move_pieces None d (total ?rs) n target = Some (blit d xs target)\<close>
    \<open>move_pieces (Some s) d (total ?rs) n target = Some (blit d xs target)\<close>
  show ?case
    using dest st(2) by (simp add: start'_def)
qed simp

lemma ascending_disjoint_rev: "ascending lo rs \<Longrightarrow> disjoint_ranges (rev rs)"
proof (induction rs rule: rev_induct)
  case (snoc r rs)
  obtain p n where "r = (p, n)" by (cases r)
  with snoc ascending_apart [of lo rs p n] ascending_append_single [of lo rs p n] show ?case
    by (simp add: apart_def)
qed simp

text \<open>
  C25. Moving blocks inside one buffer, which the transfer commands do when the source list names
  locations: for locations in increasing order (and ranges one \<open>memmove_s\<close> accepts) the blocks
  packed at the front of the buffer all arrive at their locations although source and target
  overlap, the same as when they come from a copy, and every other byte keeps its value.
\<close>

theorem block_move_in_place:
  assumes "sized locations" and "list_all (wf_pair 0) (blocks locations)"
    and "ascending 0 (loc_ranges locations)" and "in_bounds (loc_ranges locations) (length buffer)"
    and "total (loc_ranges locations) < 2 ^ 64"
    and "list_all (\<lambda>p. pair_bytes p \<le> SECUREC_MEM_MAX_LEN) (blocks locations)"
  shows "\<exists>buffer'. MoveBlock buffer locations None = Some buffer' \<and>
    MoveBlock buffer locations (Some buffer) = Some buffer' \<and>
    length buffer' = length buffer \<and>
    gather (loc_ranges locations) buffer' = take (total (loc_ranges locations)) buffer \<and>
    (\<forall>i<length buffer. apart i 1 (loc_ranges locations) \<longrightarrow> buffer' ! i = buffer ! i)"
proof -
  let ?rs = "loc_ranges locations"
  have total: "unat (blockSize locations) * 4096 = total ?rs"
    using unat_block_sum assms(1,2,5) by (simp add: sized_def loc_ranges_def)
  have fits: "total ?rs \<le> length buffer"
    using ascending_fits [OF assms(3,4)] by simp
  have disj: "disjoint_ranges ?rs" "disjoint_ranges (rev ?rs)"
    using assms(3) ascending_disjoint ascending_disjoint_rev by blast+
  have "MoveBlock buffer locations (Some buffer) = Some (scatter ?rs buffer buffer)"
    unfolding MoveBlock_def TotalBlockSize_def loc_ranges_def
    using assms disj total fits by (intro move_ranges_apart) (simp_all add: loc_ranges_def)
  moreover have "MoveBlock buffer locations None = MoveBlock buffer locations (Some buffer)"
    unfolding MoveBlock_def TotalBlockSize_def
    using assms total by (intro move_ranges_self) (simp_all add: loc_ranges_def)
  moreover have "scatter ?rs buffer buffer = scatter ?rs (take (total ?rs) buffer) buffer"
    using scatter_append [of "take (total ?rs) buffer" ?rs "[]" "drop (total ?rs) buffer" buffer] fits
    by simp
  moreover have "gather ?rs (scatter ?rs (take (total ?rs) buffer) buffer) = take (total ?rs) buffer"
    using assms(4) disj(1) fits by (intro gather_scatter) simp_all
  ultimately show ?thesis
    using assms(4) by (simp add: length_scatter nth_scatter_outside)
qed

theorem block_move_in_place_witness:
  "\<exists>buffer'. MoveBlock (replicate 8192 7 @ replicate 8192 9)
      \<lparr>blocks = [(1, 2), (3, 4)], blockSize = 2, offset = 0\<rparr> None = Some buffer' \<and>
    gather [(4096, 4096), (12288, 4096)] buffer' = replicate 8192 (7 :: u8)"
proof -
  define buffer :: bytes where "buffer = replicate 8192 7 @ replicate 8192 9"
  define locs :: block_set where "locs = \<lparr>blocks = [(1, 2), (3, 4)], blockSize = 2, offset = 0\<rparr>"
  have len: "length buffer = 16384" by (simp add: buffer_def)
  have rs: "loc_ranges locs = [(4096, 4096), (12288, 4096)]"
    by (simp add: loc_ranges_def locs_def pair_range_def)
  have "sized locs" by (simp add: sized_def locs_def block_sum_def)
  moreover have "list_all (wf_pair 0) (blocks locs)" by (simp add: locs_def wf_pair_def)
  moreover have "ascending 0 (loc_ranges locs)" by (simp add: rs)
  moreover have "in_bounds (loc_ranges locs) (length buffer)" by (simp add: rs len)
  moreover have "total (loc_ranges locs) < 2 ^ 64" by (simp add: rs)
  moreover have "list_all (\<lambda>p. pair_bytes p \<le> SECUREC_MEM_MAX_LEN) (blocks locs)"
    by (simp add: locs_def pair_bytes_def)
  ultimately obtain buffer' where "MoveBlock buffer locs None = Some buffer'"
    "gather (loc_ranges locs) buffer' = take (total (loc_ranges locs)) buffer"
    using block_move_in_place by blast
  moreover have "take (total (loc_ranges locs)) buffer = replicate 8192 7"
    by (simp add: rs buffer_def)
  ultimately show ?thesis unfolding buffer_def locs_def rs [unfolded locs_def] by metis
qed

lemma core_content:
  assumes "core w' = core (set_obj P d (set_fd fd P q v))"
  shows "obj w' P = Some d" and "fds w' fd = Some (P, q)" and "at w' fd P q d"
  using core_eqD(1,2) [OF assms] by (simp_all add: world_simps at_def)

section \<open>Properties of reading and writing\<close>

text \<open>
  C35. Whatever the system calls under it do, \<open>WriteDataToBlock\<close> changes only bytes of the
  target inside the ranges of the set; and when it reports a size, it is the size of all
  ranges and the target holds the buffer laid out in them.
\<close>

theorem block_write_spec:
  assumes "WriteDataToBlock bs w fd buffer = Some (k, w')" and "wf_blocks bs"
    and "at w fd P q c" and "in_bounds (byte_ranges bs) (length c)"
  shows "within P (byte_ranges bs) w w' \<and>
    (k \<noteq> 0 \<longrightarrow> k = total (byte_ranges bs) \<and> k \<le> length buffer \<and>
      obj w' P = Some (scatter (byte_ranges bs) buffer c))"
proof -
  have spec: "within P (byte_ranges bs) w w'"
    "k \<noteq> 0 \<Longrightarrow> k = total (byte_ranges bs) \<and> k \<le> length buffer \<and>
      (\<exists>q'. core w' = core (set_obj P (scatter (byte_ranges bs) buffer c) (set_fd fd P q' w)))"
    using write_blocks_spec [of "offset bs" "blocks bs" w fd 0 buffer k w' P q c] assms
    by (simp_all add: WriteDataToBlock_def wf_blocks_def byte_ranges_def)
  then show ?thesis using core_content(1) by blast
qed

definition demo_world :: "nat \<Rightarrow> fault list \<Rightarrow> world" where
  "demo_world n fs = \<lparr>objs = [(''dev'', replicate n 0)], dirs = [], is_dev = (\<lambda>_. True),
     fds = (\<lambda>f. if f = 3 then Some (''dev'', 0) else None), next_fd = 4, faults = fs, errno = EOK\<rparr>"

definition demo_set :: block_set where
  "demo_set = \<lparr>blocks = [(2, 3), (0, 1)], blockSize = 2, offset = 0\<rparr>"

lemma demo_facts:
  "wf_blocks demo_set" "byte_ranges demo_set = [(8192, 4096), (0, 4096)]" "sized demo_set"
  "at (demo_world n fs) 3 ''dev'' 0 (replicate n 0)" "faults (demo_world n fs) = fs"
  "seekable (offset demo_set)"
  by (simp_all add: wf_blocks_def wf_pair_def demo_set_def byte_ranges_def pair_range_def sized_def
      at_def demo_world_def obj_def seekable_def)

lemma demo_write: "\<exists>w'. WriteDataToBlock demo_set (demo_world 16384 []) 3 (replicate 8192 9) = Some (8192, w')"
  using write_blocks_ok [of "demo_world 16384 []" "offset demo_set" "blocks demo_set" 3 "''dev''" 0
      "replicate 16384 0" 0 "replicate 8192 9"] demo_facts [unfolded wf_blocks_def byte_ranges_def]
  by (simp add: WriteDataToBlock_def)

theorem block_write_spec_witness:
  "\<exists>w'. WriteDataToBlock demo_set (demo_world 16384 []) 3 (replicate 8192 9) = Some (8192, w') \<and>
    within ''dev'' [(8192, 4096), (0, 4096)] (demo_world 16384 []) w' \<and>
    obj w' ''dev'' = Some (scatter [(8192, 4096), (0, 4096)] (replicate 8192 9) (replicate 16384 0))"
proof -
  obtain w' where w': "WriteDataToBlock demo_set (demo_world 16384 []) 3 (replicate 8192 9) = Some (8192, w')"
    using demo_write by blast
  with block_write_spec [OF w' demo_facts(1,4)] show ?thesis
    by (auto simp: demo_facts(2))
qed

text \<open>
  C22. What one command writes through a set of disjoint ranges, a later one reads back: if the
  target still has the contents \<open>WriteDataToBlock\<close> left and both calls report success, the
  buffer read is the buffer written.
\<close>

theorem block_write_read:
  assumes "WriteDataToBlock bs w fd buffer = Some (k, w1)" and "k \<noteq> 0"
    and "wf_blocks bs" and "disjoint_ranges (byte_ranges bs)"
    and "at w fd P q c" and "in_bounds (byte_ranges bs) (length c)" and "length buffer = k"
    and "obj w2 P = obj w1 P" and "fds w2 fd2 = Some (P, q2)"
    and "ReadDataFromBlock bs w2 fd2 buf = (j, buf', w3)" and "j \<noteq> 0" and "length buf = k"
  shows "buf' = buffer \<and> j = k \<and> core w3 = core (set_fd fd2 P (snd (the (fds w3 fd2))) w2)"
proof -
  let ?rs = "byte_ranges bs"
  have k: "k = total ?rs"
    and content: "\<exists>q'. core w1 = core (set_obj P (scatter ?rs buffer c) (set_fd fd P q' w))"
    using write_blocks_spec [of "offset bs" "blocks bs" w fd 0 buffer k w1 P q c] assms
    by (simp_all add: WriteDataToBlock_def wf_blocks_def byte_ranges_def)
  then have "obj w1 P = Some (scatter ?rs buffer c)"
    using core_content(1) by blast
  then have at2: "at w2 fd2 P q2 (scatter ?rs buffer c)"
    using assms(8,9) by (simp add: at_def)
  have R: "buf' = blit 0 (take k (gather ?rs (scatter ?rs buffer c))) buf"
      "\<exists>q'. core w3 = core (set_fd fd2 P q' w2)" "j = k"
    using read_blocks_spec [of "offset bs" "blocks bs" w2 fd2 0 buf j buf' w3 P q2] at2 assms(3,10-12) k
    by (simp_all add: ReadDataFromBlock_def wf_blocks_def byte_ranges_def)
  have "gather ?rs (scatter ?rs buffer c) = buffer"
    using assms(4,6,7) k by (intro gather_scatter) simp_all
  with R(1) have "buf' = buffer" using assms(7,12) by (simp add: blit_def)
  moreover obtain q' where q': "core w3 = core (set_fd fd2 P q' w2)" using R(2) by blast
  have "snd (the (fds w3 fd2)) = q'"
    using core_eqD(2) [OF q'] by (simp add: world_simps)
  with q' have "core w3 = core (set_fd fd2 P (snd (the (fds w3 fd2))) w2)" by simp
  ultimately show ?thesis using R(3) by blast
qed

theorem block_write_read_witness:
  "\<exists>w1 w3. WriteDataToBlock demo_set (demo_world 16384 []) 3 (replicate 8192 9) = Some (8192, w1) \<and>
     ReadDataFromBlock demo_set (w1\<lparr>faults := []\<rparr>) 3 (replicate 8192 0) = (8192, replicate 8192 9, w3)"
proof -
  let ?w = "demo_world 16384 []"
  obtain w1 where w1: "WriteDataToBlock demo_set ?w 3 (replicate 8192 9) = Some (8192, w1)"
    using demo_write by blast
  obtain q' where core: "core w1 = core (set_obj ''dev''
      (scatter [(8192, 4096), (0, 4096)] (replicate 8192 9) (replicate 16384 0)) (set_fd 3 ''dev'' q' ?w))"
    using write_blocks_spec [of "offset demo_set" "blocks demo_set" ?w 3 0 "replicate 8192 9" 8192 w1
        "''dev''" 0 "replicate 16384 0"] w1 demo_facts
    by (auto simp: WriteDataToBlock_def wf_blocks_def byte_ranges_def)
  define d :: bytes where "d = scatter [(8192, 4096), (0, 4096)] (replicate 8192 9) (replicate 16384 0)"
  have len: "length d = 16384" unfolding d_def by (subst length_scatter) simp_all
  define w2 where "w2 = w1\<lparr>faults := []\<rparr>"
  have "core w2 = core w1" by (simp add: w2_def core_def)
  then have at2: "at w2 3 ''dev'' q' d"
    using core core_content(3) unfolding d_def by metis
  obtain j buf w3 where rd: "ReadDataFromBlock demo_set w2 3 (replicate 8192 0) = (j, buf, w3)"
    by (metis prod_cases3)
  have "faults w2 = []" by (simp add: w2_def)
  then have j: "j = 8192"
    using read_blocks_ok [of w2 "offset demo_set" "blocks demo_set" 3 "''dev''" q' d 0 "replicate 8192 0"]
      rd at2 demo_facts len by (simp add: ReadDataFromBlock_def wf_blocks_def byte_ranges_def)
  have "fds w2 3 = Some (''dev'', q')" "obj w2 ''dev'' = obj w1 ''dev''"
    using at2 core_eqD(1) [OF \<open>core w2 = core w1\<close>] by (simp_all add: at_def)
  then have "buf = replicate 8192 9"
    using block_write_read [OF w1 _ demo_facts(1) _ demo_facts(4) _ _ _ _ rd] j
    by (simp add: demo_facts(2))
  with w1 rd j show ?thesis unfolding w2_def by blast
qed

text \<open>
  When no call fails, both directions complete: a well-formed set inside the target is
  written and read in full.
\<close>

theorem block_io_completes:
  assumes "faults w = []" and "wf_blocks bs" and "seekable (offset bs)" and "at w fd P q c"
    and "in_bounds (byte_ranges bs) (length c)" and "total (byte_ranges bs) = length buffer"
  shows "(\<exists>w'. WriteDataToBlock bs w fd buffer = Some (length buffer, w')) \<and>
    (\<exists>w'. ReadDataFromBlock bs w fd buffer = (length buffer, gather (byte_ranges bs) c, w'))"
proof
  show "\<exists>w'. WriteDataToBlock bs w fd buffer = Some (length buffer, w')"
    using write_blocks_ok [of w "offset bs" "blocks bs" fd P q c 0 buffer] assms
    by (simp add: WriteDataToBlock_def wf_blocks_def byte_ranges_def)
next
  obtain j buf w' where rd: "ReadDataFromBlock bs w fd buffer = (j, buf, w')" by (metis prod_cases3)
  then have j: "j = length buffer"
    using read_blocks_ok [of w "offset bs" "blocks bs" fd P q c 0 buffer] assms
    by (simp add: ReadDataFromBlock_def wf_blocks_def byte_ranges_def)
  have "buf = gather (byte_ranges bs) c"
  proof (cases "length buffer = 0")
    case True
    have "length (gather (byte_ranges bs) c) = 0"
      using True assms by (subst length_gather) simp_all
    moreover have "blocks bs = [] \<or> wf_pair (offset bs) (hd (blocks bs))"
      using assms(2) by (cases "blocks bs") (simp_all add: wf_blocks_def)
    moreover have "0 < snd (pair_range off p)" if "wf_pair off p" for off p
      using that by (auto simp: pair_range_def wf_pair_def word_less_nat_alt)
    ultimately have "0 < total (byte_ranges bs)" if "blocks bs = p # ps" for p ps
      using that by (cases "pair_range (offset bs) p") (fastforce simp: byte_ranges_def)
    then have "blocks bs = []"
      using True assms(6) by (cases "blocks bs") auto
    with rd True show ?thesis by (simp add: ReadDataFromBlock_def byte_ranges_def)
  next
    case False
    then show ?thesis
      using read_blocks_spec [of "offset bs" "blocks bs" w fd 0 buffer j buf w' P q c] rd j assms
      by (auto simp: ReadDataFromBlock_def wf_blocks_def byte_ranges_def blit_def length_gather)
  qed
  with rd j show "\<exists>w'. ReadDataFromBlock bs w fd buffer = (length buffer, gather (byte_ranges bs) c, w')"
    by simp
qed

theorem block_io_completes_witness:
  "\<exists>w'. WriteDataToBlock demo_set (demo_world 16384 []) 3 (replicate 8192 9) = Some (8192, w')"
  using block_io_completes [of "demo_world 16384 []" demo_set 3 "''dev''" 0 "replicate 16384 0"
      "replicate 8192 9"] demo_facts
  by simp

lemma core_set_fdD:
  assumes "core w' = core (set_fd fd P q v)" and "obj v P = Some c"
  shows "at w' fd P q c"
  using core_eqD(1,2) [OF assms(1)] assms(2) by (simp_all add: world_simps at_def)

section \<open>Zeroing\<close>

lemma zero_loop_spec:
  assumes "zero_loop n w fd = (r, w')" and "at w fd P q c" and "q + n * 4096 \<le> length c"
  shows "within P [(q, n * 4096)] w w' \<and> (case r of None \<Rightarrow>
      core w' = core (wrote fd (replicate (n * 4096) 0) w) | Some e \<Rightarrow> e = 1 \<or> e = -1)"
  using assms
proof (induction n arbitrary: w q c)
  case (Suc n)
  let ?z = "replicate 4096 (0 :: u8)"
  obtain b w1 where wr: "WriteFully w fd ?z = (b, w1)" by (metis surj_pair)
  have W: "within P [(q, Suc n * 4096)] w w1" "b \<longrightarrow> core w1 = core (wrote fd ?z w)"
    using WriteFully_within [OF wr Suc.prems(2), of "[(q, Suc n * 4096)]"] Suc.prems(3) by auto
  show ?case
  proof (cases b)
    case False
    with Suc.prems(1) wr W show ?thesis by (auto split: if_splits)
  next
    case True
    have rest: "zero_loop n w1 fd = (r, w')" using Suc.prems(1) wr True by simp
    have core1: "core w1 = core (wrote fd ?z w)" using W(2) True by simp
    then have at1: "at w1 fd P (q + 4096) (blit q ?z c)"
      using at_wrote [OF Suc.prems(2), of ?z] Suc.prems(3) at_core_cong [OF core1, of fd P]
      by (simp add: write_at_blit)
    have "length (blit q ?z c) = length c" using Suc.prems(3) by (intro length_blit) simp
    then have IH: "within P [(q + 4096, n * 4096)] w1 w'" "case r of None \<Rightarrow>
        core w' = core (wrote fd (replicate (n * 4096) 0) w1) | Some e \<Rightarrow> e = 1 \<or> e = -1"
      using Suc.IH [OF rest at1] Suc.prems(3) by simp_all
    have "within P [(q, Suc n * 4096)] w1 w'"
      using IH(1) by (rule within_mono) auto
    with W(1) have "within P [(q, Suc n * 4096)] w w'" by (rule within_trans)
    moreover have "core (wrote fd (replicate (n * 4096) 0) w1)
        = core (wrote fd (replicate (Suc n * 4096) 0) w)"
      using core1 by (simp add: core_wrote wrote_append replicate_add)
    ultimately show ?thesis using IH(2) by (auto split: option.splits)
  qed
qed simp

lemma zero_blocks_spec:
  assumes "zero_blocks off mode isErase ps w fd = (r, w')" and "\<not> (isErase \<and> mode)"
    and "list_all (wf_pair off) ps" and "at w fd P q c"
    and "in_bounds (List.map (pair_range off) ps) (length c)"
  shows "within P (List.map (pair_range off) ps) w w' \<and> r \<in> {0, 1, -1} \<and>
    (r = 0 \<longrightarrow> (\<exists>q'. core w' = core (set_obj P
        (scatter (List.map (pair_range off) ps) (replicate (total (List.map (pair_range off) ps)) 0) c)
        (set_fd fd P q' w))))"
  using assms
proof (induction off mode isErase ps w fd arbitrary: q c rule: zero_blocks.induct)
  case (1 off mode isErase w fd)
  have "core w' = core (set_obj P c (set_fd fd P q w))"
    using 1 by (simp add: at_def world_simps)
  with 1 show ?case by auto
next
  case (2 off mode isErase p ps w fd)
  let ?rs = "List.map (pair_range off) ps"
  obtain x w1 where lseek: "sys_lseek w fd (seek_offset off p) = (x, w1)" by (metis surj_pair)
  obtain s m where sm: "pair_range off p = (s, m)" by (metis surj_pair)
  define n where "n = unat (snd p) - unat (fst p)"
  have n: "m = n * 4096" using sm by (simp add: pair_range_def n_def)
  have wf: "wf_pair off p" using "2.prems"(3) by simp
  have bound: "s + m \<le> length c" "in_bounds ?rs (length c)" using "2.prems"(5) sm by simp_all
  have seek: "within P ((s, m) # ?rs) w w1"
    using lseek_core_seek [OF lseek "2.prems"(4)] within_seek by blast
  show ?case
  proof (cases "seek_failed x")
    case True
    with "2.prems"(1,2) lseek seek sm show ?thesis by auto
  next
    case ok: False
    note sp = seek_pair [OF lseek ok wf "2.prems"(4)]
    have at1: "at w1 fd P s c" using sp(2) sm by simp
    obtain z w2 where zl: "zero_loop n w1 fd = (z, w2)" by (metis surj_pair)
    have Z: "within P [(s, m)] w1 w2" "case z of None \<Rightarrow>
        core w2 = core (wrote fd (replicate m 0) w1) | Some e \<Rightarrow> e = 1 \<or> e = -1"
      using zero_loop_spec [OF zl at1] bound n by (auto split: option.splits)
    have "within P ((s, m) # ?rs) w1 w2"
      using Z(1) by (rule within_mono) simp
    then have win2: "within P ((s, m) # ?rs) w w2" by (rule within_trans [OF seek])
    show ?thesis
    proof (cases z)
      case (Some e)
      with "2.prems"(1,2) lseek ok zl n_def have "r = e" "w' = w2" by auto
      with Some Z(2) win2 sm show ?thesis by auto
    next
      case None
      have rest: "zero_blocks off mode isErase ps w2 fd = (r, w')"
        using "2.prems"(1,2) lseek ok zl None by (auto simp: n_def)
      have "core w2 = core (set_obj P (blit s (replicate m 0) c) (set_fd fd P (s + m) w1))"
        using Z(2) None at1 bound by (simp add: wrote_at write_at_blit)
      then have core2: "core w2 = core (set_obj P (blit s (replicate m 0) c) (set_fd fd P (s + m) w))"
        using sp(1) by (simp add: world_simps)
      note at2 = core_content(3) [OF core2]
      have "length (blit s (replicate m 0) c) = length c" using bound by (intro length_blit) simp
      then have IH: "within P ?rs w2 w' \<and> r \<in> {0, 1, -1} \<and> (r = 0 \<longrightarrow> (\<exists>q'. core w' = core (set_obj P
          (scatter ?rs (replicate (total ?rs) 0) (blit s (replicate m 0) c)) (set_fd fd P q' w2))))"
        using "2.IH"(2) [OF "2.prems"(2) lseek [symmetric] ok _ _ _ "2.prems"(2) _ at2, of z]
          zl None rest "2.prems"(3) bound(2) by (simp add: n_def)
      have "within P ((s, m) # ?rs) w w'"
        using IH within_trans [OF win2 within_Cons] by blast
      moreover have "scatter ((s, m) # ?rs) (replicate (m + total ?rs) 0) c
          = scatter ?rs (replicate (total ?rs) 0) (blit s (replicate m 0) c)"
        by simp
      moreover have "core (set_obj P d (set_fd fd P q' w2)) = core (set_obj P d (set_fd fd P q' w))"
        for d q'
        using core2 by (simp add: world_simps)
      ultimately show ?thesis using IH sm by auto
    qed
  qed
qed



section \<open>Comparing\<close>

lemma CompareBlocks_eq:
  "off \<le> sz \<Longrightarrow> sz \<le> length l \<Longrightarrow> sz \<le> length r \<Longrightarrow>
   CompareBlocks l r sz off \<longleftrightarrow> slice off (sz - off) l = slice off (sz - off) r"
proof (induction l r sz off rule: CompareBlocks.induct)
  case (1 l r sz off)
  show ?case
  proof (cases "sz \<le> off")
    case True
    with 1 show ?thesis by (simp add: CompareBlocks.simps [of l])
  next
    case False
    define k where "k = min (sz - off) H_BLOCK_SIZE"
    then have k: "k \<le> sz - off" by simp
    have split: "slice off (sz - off) x = slice off k x @ slice (off + k) (sz - off - k) x" for x :: bytes
    proof -
      have "k + (sz - off - k) = sz - off" using k by simp
      then show ?thesis using slice_append_split [of off k "sz - off - k" x] by simp
    qed
    have lens: "length (slice off k l) = k" "length (slice off k r) = k"
      using "1.prems" k by simp_all
    have rest: "CompareBlocks l r sz (off + H_BLOCK_SIZE) \<longleftrightarrow>
        slice (off + k) (sz - off - k) l = slice (off + k) (sz - off - k) r"
      if eq: "slice off k l = slice off k r"
    proof (cases "sz - off \<le> H_BLOCK_SIZE")
      case True
      then have "sz \<le> off + H_BLOCK_SIZE" "sz - off - k = 0" by (auto simp: k_def)
      then show ?thesis by (simp add: CompareBlocks.simps [of l r sz "off + H_BLOCK_SIZE"])
    next
      case far: False
      then have "k = H_BLOCK_SIZE" by (simp add: k_def)
      with "1.IH" [OF False k_def] eq far "1.prems" show ?thesis by simp
    qed
    have "CompareBlocks l r sz off \<longleftrightarrow>
        slice off k l = slice off k r \<and> CompareBlocks l r sz (off + H_BLOCK_SIZE)"
      using False by (subst CompareBlocks.simps) (simp add: k_def Let_def)
    also have "\<dots> \<longleftrightarrow> slice off (sz - off) l = slice off (sz - off) r"
      using rest lens by (auto simp: split)
    finally show ?thesis .
  qed
qed

lemma compare_piece:
  assumes "length xs = n" and "pos + n \<le> length buffer"
  shows "CompareBlocks xs (drop pos buffer) n 0 \<longleftrightarrow> xs = slice pos n buffer"
  using CompareBlocks_eq [of 0 n xs "drop pos buffer"] assms by (simp add: slice_def)

lemma compare_range_sound:
  assumes "compare_range b buffer w fd pos n = Some (ok, pos', w')" and "at w fd P q c"
  shows "(\<exists>q'. core w' = core (set_fd fd P q' w)) \<and>
    (ok \<longrightarrow> pos' = pos + n \<and> (n = 0 \<or> pos + n \<le> length buffer) \<and> slice q n c = slice pos n buffer)"
  using assms
proof (induction b buffer w fd pos n arbitrary: q rule: compare_range.induct)
  case (1 b buffer w fd pos n)
  have here: "core w = core (set_fd fd P q w)"
    using "1.prems"(2) by (simp add: at_def world_simps)
  show ?case
  proof (cases "n = 0")
    case True
    with "1.prems"(1) here show ?thesis by (auto simp: compare_range.simps [of b])
  next
    case False
    define k where "k = min n b"
    have kn: "k \<le> n" by (simp add: k_def)
    have k0: "k \<noteq> 0"
    proof
      assume "k = 0"
      then show False using "1.prems"(1) False by (simp add: compare_range.simps [of b] k_def Let_def)
    qed
    obtain g xs w1 where rf: "ReadFully w fd k = (g, xs, w1)" by (metis prod_cases3)
    note R = ReadFully_reads [OF rf "1.prems"(2)]
    have unf: "compare_range b buffer w fd pos n =
        (if \<not> g then Some (False, pos, w1)
         else if length buffer < pos + k then None
         else if \<not> CompareBlocks xs (drop pos buffer) k 0 then Some (False, pos, w1)
         else compare_range b buffer w1 fd (pos + k) (n - k))"
      using False k0 rf by (simp add: compare_range.simps [of b _ w] Let_def flip: k_def)
    show ?thesis
    proof (cases "g \<and> pos + k \<le> length buffer \<and> CompareBlocks xs (drop pos buffer) k 0")
      case no: False
      then have "\<not> ok \<and> w' = w1" using "1.prems"(1) unf by (auto split: if_splits)
      with R show ?thesis by blast
    next
      case yes: True
      then have rest: "compare_range b buffer w1 fd (pos + k) (n - k) = Some (ok, pos', w')"
        using "1.prems"(1) unf by simp
      have xs: "length xs = k" "xs = slice q k c" "core w1 = core (set_fd fd P (q + k) w)"
        using R yes by auto
      have piece: "slice q k c = slice pos k buffer"
        using compare_piece [OF xs(1), of pos buffer] yes xs(2) by simp
      have "obj w P = Some c" using "1.prems"(2) by (simp add: at_def)
      note at1 = core_set_fdD [OF xs(3) this]
      have IH: "(\<exists>q'. core w' = core (set_fd fd P q' w1)) \<and>
          (ok \<longrightarrow> pos' = pos + k + (n - k) \<and> (n - k = 0 \<or> pos + k + (n - k) \<le> length buffer) \<and>
            slice (q + k) (n - k) c = slice (pos + k) (n - k) buffer)"
        using "1.IH" [OF False k_def k0 rf [symmetric] refl _ _ _ rest at1] yes xs(1) by simp
      moreover have "slice q n c = slice q k c @ slice (q + k) (n - k) c"
        "slice pos n buffer = slice pos k buffer @ slice (pos + k) (n - k) buffer"
        using kn slice_append_split [of _ k "n - k"] by (metis le_add_diff_inverse)+
      moreover have "core (set_fd fd P q' w1) = core (set_fd fd P q' w)" for q'
        using xs(3) by (simp add: world_simps)
      ultimately show ?thesis using piece kn yes by auto
    qed
  qed
qed

lemma compare_range_ok:
  assumes "faults w = []" and "at w fd P q c" and "0 < b" and "q + n \<le> length c"
    and "pos + n \<le> length buffer"
  shows "if slice q n c = slice pos n buffer
    then compare_range b buffer w fd pos n = Some (True, pos + n, set_fd fd P (q + n) w)
    else (\<exists>p w'. compare_range b buffer w fd pos n = Some (False, p, w'))"
  using assms
proof (induction n arbitrary: w q pos rule: less_induct)
  case (less n)
  show ?case
  proof (cases "n = 0")
    case True
    with less.prems show ?thesis
      by (simp add: compare_range.simps [of b] at_def world_simps)
  next
    case False
    define k where "k = min n b"
    have k: "k \<le> n" "k \<noteq> 0" using False less.prems(3) by (auto simp: k_def)
    have rf: "ReadFully w fd k = (True, slice q k c, set_fd fd P (q + k) w)"
      using less.prems k by (intro ReadFully_ok) auto
    have len: "length (slice q k c) = k" using less.prems k by simp
    have unf: "compare_range b buffer w fd pos n =
        (if slice q k c \<noteq> slice pos k buffer then Some (False, pos, set_fd fd P (q + k) w)
         else compare_range b buffer (set_fd fd P (q + k) w) fd (pos + k) (n - k))"
    proof -
      have "\<not> length buffer < pos + k" using less.prems(5) k by simp
      then show ?thesis
        using False k rf compare_piece [OF len, of pos buffer]
        by (simp add: compare_range.simps [of b _ w] Let_def flip: k_def)
    qed
    have IH: "if slice (q + k) (n - k) c = slice (pos + k) (n - k) buffer
      then compare_range b buffer (set_fd fd P (q + k) w) fd (pos + k) (n - k) =
          Some (True, pos + k + (n - k), set_fd fd P (q + k + (n - k)) (set_fd fd P (q + k) w))
      else (\<exists>p w'. compare_range b buffer (set_fd fd P (q + k) w) fd (pos + k) (n - k) =
          Some (False, p, w'))"
      using less.prems k at_set_fd [OF less.prems(2)]
      by (intro less.IH) (simp_all add: world_simps)
    moreover have "slice q n c = slice q k c @ slice (q + k) (n - k) c"
      "slice pos n buffer = slice pos k buffer @ slice (pos + k) (n - k) buffer"
      using k slice_append_split [of _ k "n - k"] by (metis le_add_diff_inverse)+
    moreover have "length (slice pos k buffer) = k" using less.prems(5) k by simp
    ultimately show ?thesis
      using unf len k by (auto simp: world_simps)
  qed
qed

lemma compare_blocks_sound:
  assumes "compare_blocks off b ps buffer w fd pos = Some (True, w')" and "at w fd P q c"
    and "list_all (wf_pair off) ps"
  shows "gather (List.map (pair_range off) ps) c
      = slice pos (total (List.map (pair_range off) ps)) buffer"
  using assms
proof (induction off b ps buffer w fd pos arbitrary: q rule: compare_blocks.induct)
  case (2 off b p ps buffer w fd pos)
  obtain s m where sm: "pair_range off p = (s, m)" by (metis surj_pair)
  have wf: "wf_pair off p" using "2.prems"(3) by simp
  then have m: "pair_bytes p = m" "seek_offset off p = int s"
    using wf_pair_bytes wf_seek_offset sm by simp_all
  obtain x w1 where lseek: "sys_lseek w fd (int s) = (Inr x, w1)"
    using "2.prems"(1) m by (cases "fst (sys_lseek w fd (int s))") (auto split: prod.splits)
  have "core w1 = core (set_fd fd P s w)"
    using sys_lseek_Inr [OF lseek] "2.prems"(2) by (auto simp: at_def)
  moreover have "obj w P = Some c" using "2.prems"(2) by (simp add: at_def)
  ultimately have at1: "at w1 fd P s c" by (rule core_set_fdD)
  obtain pos' w2 where cr: "compare_range b buffer w1 fd pos m = Some (True, pos', w2)"
    and rest: "compare_blocks off b ps buffer w2 fd pos' = Some (True, w')"
    using "2.prems"(1) lseek m by (auto split: option.splits if_splits)
  obtain q' where core2: "core w2 = core (set_fd fd P q' w1)" and pos': "pos' = pos + m"
    and piece: "slice s m c = slice pos m buffer"
    using compare_range_sound [OF cr at1] by blast
  have "obj w1 P = Some c" using at1 by (simp add: at_def)
  note at2 = core_set_fdD [OF core2 this]
  have "gather (List.map (pair_range off) ps) c
      = slice (pos + m) (total (List.map (pair_range off) ps)) buffer"
    using "2.IH" [OF lseek [folded m(2), symmetric] refl cr [folded m(1)] refl refl _ rest at2]
      "2.prems"(3) pos' by simp
  then show ?case
    using sm piece by (simp add: slice_append_split)
qed simp

lemma compare_blocks_ok:
  assumes "faults w = []" and "at w fd P q c" and "list_all (wf_pair off) ps" and "0 < b"
    and "in_bounds (List.map (pair_range off) ps) (length c)"
    and "pos + total (List.map (pair_range off) ps) \<le> length buffer"
  shows "\<exists>w'. compare_blocks off b ps buffer w fd pos = Some
    (gather (List.map (pair_range off) ps) c
      = slice pos (total (List.map (pair_range off) ps)) buffer, w')"
  using assms
proof (induction ps arbitrary: w q pos)
  case (Cons p ps)
  obtain s m where sm: "pair_range off p = (s, m)" by (metis surj_pair)
  have wf: "wf_pair off p" using Cons.prems(3) by simp
  then have m: "pair_bytes p = m" "seek_offset off p = int s"
    using wf_pair_bytes wf_seek_offset sm by simp_all
  have bounds: "s + m \<le> length c" "pos + m \<le> length buffer"
    "in_bounds (List.map (pair_range off) ps) (length c)"
    using Cons.prems(5,6) sm by simp_all
  have lseek: "sys_lseek w fd (int s) = (Inr (int s), set_fd fd P s w)"
    using Cons.prems bounds by (intro sys_lseek_ok) auto
  have at1: "at (set_fd fd P s w) fd P s c" using at_set_fd Cons.prems(2) .
  have cr: "if slice s m c = slice pos m buffer
    then compare_range b buffer (set_fd fd P s w) fd pos m
      = Some (True, pos + m, set_fd fd P (s + m) (set_fd fd P s w))
    else (\<exists>p w'. compare_range b buffer (set_fd fd P s w) fd pos m = Some (False, p, w'))"
    using Cons.prems bounds at1 by (intro compare_range_ok) (simp_all add: world_simps)
  have len: "length (slice s m c) = m" "length (slice pos m buffer) = m" using bounds by simp_all
  obtain w' where rest: "compare_blocks off b ps buffer (set_fd fd P (s + m) (set_fd fd P s w)) fd (pos + m)
      = Some (gather (List.map (pair_range off) ps) c
          = slice (pos + m) (total (List.map (pair_range off) ps)) buffer, w')"
    using Cons.IH [OF _ at_set_fd [OF at1], of "s + m" "pos + m"] Cons.prems bounds sm
    by (auto simp: world_simps)
  show ?case
    using cr rest lseek m sm len
    by (auto simp: slice_append_split world_simps split: if_splits)
qed simp

text \<open>
  Comparing a buffer with the blocks of a set: an answer yes is right whatever the reads
  did, and when no call fails the answer is exactly whether the blocks hold the buffer.
\<close>

theorem block_compare_spec:
  assumes "sized bs" and "wf_blocks bs" and "total (byte_ranges bs) < 2 ^ 64"
    and "at w fd P q c" and "in_bounds (byte_ranges bs) (length c)"
  shows "(\<forall>w'. CompareDataFromBlock bs w fd buffer = Some (True, w') \<longrightarrow>
      gather (byte_ranges bs) c = buffer) \<and>
    (faults w = [] \<longrightarrow> (\<exists>w'. CompareDataFromBlock bs w fd buffer =
      Some (gather (byte_ranges bs) c = buffer, w')))"
proof -
  let ?rs = "byte_ranges bs"
  have bytes: "unat (TotalBlockSize bs * 4096) = total ?rs"
    using assms(1-3) by (rule unat_total_bytes)
  have len: "length (gather ?rs c) = total ?rs" using assms(5) by (rule length_gather)
  define b where "b = min (total ?rs) (128 * 1024)"
  have unf: "CompareDataFromBlock bs w fd buffer =
      (if total ?rs \<noteq> length buffer then Some (False, w)
       else compare_blocks (offset bs) b (blocks bs) buffer w fd 0)"
    by (simp add: CompareDataFromBlock_def bytes Let_def b_def)
  show ?thesis
  proof (cases "total ?rs = length buffer")
    case False
    then have "gather ?rs c \<noteq> buffer" using len by auto
    with False unf show ?thesis by simp
  next
    case True
    have "gather ?rs c = buffer"
      if "compare_blocks (offset bs) b (blocks bs) buffer w fd 0 = Some (True, w')" for w'
      using compare_blocks_sound [OF that assms(4)] assms(2) True
      by (simp add: wf_blocks_def byte_ranges_def slice_def)
    moreover have "\<exists>w'. compare_blocks (offset bs) b (blocks bs) buffer w fd 0 =
        Some (gather ?rs c = buffer, w')" if "faults w = []"
    proof (cases "blocks bs = []")
      case True
      with \<open>total ?rs = length buffer\<close> show ?thesis by (simp add: byte_ranges_def)
    next
      case False
      then have "0 < total ?rs"
        using assms(2) by (cases "blocks bs")
          (auto simp: byte_ranges_def wf_blocks_def wf_pair_def pair_range_def word_less_nat_alt)
      then have "0 < b" by (simp add: b_def)
      then show ?thesis
        using compare_blocks_ok [of w fd P q c "offset bs" "blocks bs" b 0 buffer] that assms(2,4,5) True
        by (simp add: wf_blocks_def byte_ranges_def slice_def)
    qed
    ultimately show ?thesis using True unf by auto
  qed
qed

theorem block_compare_spec_witness:
  "\<exists>w'. CompareDataFromBlock demo_set (demo_world 16384 []) 3 (replicate 8192 0) = Some (True, w')"
proof -
  have "gather [(8192, 4096), (0, 4096)] (replicate 16384 (0 :: u8)) = replicate 8192 0"
    by (simp add: slice_def flip: replicate_add)
  moreover have "faults (demo_world 16384 []) = []" by (simp add: demo_facts)
  ultimately show ?thesis
    using block_compare_spec [OF demo_facts(3,1) _ demo_facts(4), of 16384 "[]" "replicate 8192 0"]
    by (auto simp: demo_facts(2))
qed

end
