(* ===== verification/Block_Writer.thy ===== *)
theory Block_Writer
  imports Block_Laws
begin

text \<open>
  \<open>services/applypatch/block_writer.cpp\<close>: the sink that lays a stream of buffers of any size into
  the ranges of a block set. \<open>bw_inv\<close> ties its cursor to the data written so far; the theorems
  show that any way of cutting the data into buffers gives what \<open>WriteDataToBlock\<close> gives.
\<close>

record block_writer =
  bw_fd :: int
  bw_bs :: block_set
  bw_offset :: u64
  totalWritten :: u64
  blockIndex :: nat
  currentBlockLeft :: u64

definition BlockWriter_new :: "int \<Rightarrow> u64 \<Rightarrow> block_set \<Rightarrow> block_writer" where
  "BlockWriter_new fd off bs = \<lparr>bw_fd = fd, bw_bs = bs, bw_offset = off, totalWritten = 0,
     blockIndex = 0, currentBlockLeft = 0\<rparr>"

definition IsWriteDone :: "block_writer \<Rightarrow> bool" where
  "IsWriteDone wr \<longleftrightarrow> blockIndex wr = CountOfRanges (bw_bs wr) \<and> currentBlockLeft wr = 0"

definition GetBlocksSize :: "block_writer \<Rightarrow> u64" where
  "GetBlocksSize wr = TotalBlockSize (bw_bs wr) * 4096"

definition GetTotalWritten :: "block_writer \<Rightarrow> u64" where
  "GetTotalWritten wr = totalWritten wr"

text \<open>
  Taking the next range: its byte offset is computed in \<open>off_t\<close>, whose overflow is undefined
  (None); \<open>Some (False, _, _)\<close> is a failed seek.
\<close>

definition next_range :: "block_writer \<Rightarrow> world \<Rightarrow> (bool \<times> block_writer \<times> world) option" where
  "next_range wr w =
     (let bp = blocks (bw_bs wr) ! blockIndex wr;
          start = sint (fst bp) * 4096;
          off = start + sint (bw_offset wr);
          wr' = wr\<lparr>currentBlockLeft := (snd bp - fst bp) * 4096, blockIndex := blockIndex wr + 1\<rparr>
      in if start < - (2 ^ 63) \<or> 2 ^ 63 \<le> start \<or> off < - (2 ^ 63) \<or> 2 ^ 63 \<le> off then None
         else case sys_lseek w (bw_fd wr) off of
                (Inl _, w') \<Rightarrow> Some (False, wr', w')
              | (Inr _, w') \<Rightarrow> Some (True, wr', w'))"

text \<open>One turn of the loop once a range is open: what fits of \<open>data\<close> is written.\<close>

definition write_some :: "block_writer \<Rightarrow> world \<Rightarrow> bytes \<Rightarrow> nat \<times> bool \<times> block_writer \<times> world" where
  "write_some wr w data =
     (let written = min (length data) (unat (currentBlockLeft wr))
      in case WriteFully w (bw_fd wr) (take written data) of
           (False, w') \<Rightarrow> (0, False, wr, w')
         | (True, w') \<Rightarrow> (written, True,
             wr\<lparr>currentBlockLeft := currentBlockLeft wr - of_nat written,
                totalWritten := totalWritten wr + of_nat written\<rparr>, w'))"

lemma next_range_index:
  "next_range wr w = Some (b, wr', w') \<Longrightarrow>
   blockIndex wr' = Suc (blockIndex wr) \<and> bw_bs wr' = bw_bs wr"
  by (auto simp: next_range_def Let_def split: if_splits sum.splits prod.splits)

lemma write_some_progress:
  "write_some wr w data = (k, True, wr', w') \<Longrightarrow>
   k = min (length data) (unat (currentBlockLeft wr)) \<and> blockIndex wr' = blockIndex wr
   \<and> bw_bs wr' = bw_bs wr"
  by (auto simp: write_some_def Let_def split: bool.splits prod.splits)

function write_stream :: "block_writer \<Rightarrow> world \<Rightarrow> bytes \<Rightarrow> (bool \<times> block_writer \<times> world) option" where
  "write_stream wr w data =
     (if data = [] then Some (True, wr, w)
      else if currentBlockLeft wr = 0 then
        (if CountOfRanges (bw_bs wr) \<le> blockIndex wr then Some (False, wr, w)
         else case next_range wr w of
                None \<Rightarrow> None
              | Some (False, wr1, w1) \<Rightarrow> Some (False, wr1, w1)
              | Some (True, wr1, w1) \<Rightarrow>
                  (case write_some wr1 w1 data of
                     (k, False, wr2, w2) \<Rightarrow> Some (False, wr2, w2)
                   | (k, True, wr2, w2) \<Rightarrow> write_stream wr2 w2 (drop k data)))
      else case write_some wr w data of
             (k, False, wr2, w2) \<Rightarrow> Some (False, wr2, w2)
           | (k, True, wr2, w2) \<Rightarrow> write_stream wr2 w2 (drop k data))"
  by pat_completeness auto
termination
proof (relation "measures [\<lambda>(wr, w, data). length data,
    \<lambda>(wr, w, data). CountOfRanges (bw_bs wr) - blockIndex wr]", goal_cases)
  case (2 wr w data)
  then show ?case
    by (auto dest!: write_some_progress [OF sym] dest: next_range_index simp: CountOfRanges_def)
next
  case (3 wr w data)
  then have "0 < unat (currentBlockLeft wr)" by (simp add: unat_gt_0)
  with 3 show ?case
    by (auto dest!: write_some_progress [OF sym])
qed simp

declare write_stream.simps [simp del]

definition BlockWriter_Write :: "block_writer \<Rightarrow> world \<Rightarrow> bytes \<Rightarrow> (bool \<times> block_writer \<times> world) option" where
  "BlockWriter_Write wr w addr =
     (if IsWriteDone wr then Some (False, wr, w) else write_stream wr w addr)"

text \<open>A client of the writer: one call for each buffer, stopping at the first failure.\<close>

fun write_buffers :: "block_writer \<Rightarrow> world \<Rightarrow> bytes list \<Rightarrow> (bool \<times> block_writer \<times> world) option" where
  "write_buffers wr w [] = Some (True, wr, w)"
| "write_buffers wr w (b # bs) =
     (case BlockWriter_Write wr w b of
        None \<Rightarrow> None
      | Some (False, wr', w') \<Rightarrow> Some (False, wr', w')
      | Some (True, wr', w') \<Rightarrow> write_buffers wr' w' bs)"

section \<open>The cursor\<close>

definition bw_ranges :: "block_writer \<Rightarrow> ranges" where
  "bw_ranges wr = List.map (pair_range (bw_offset wr)) (blocks (bw_bs wr))"

definition bw_wf :: "block_writer \<Rightarrow> bool" where
  "bw_wf wr \<longleftrightarrow> list_all (wf_pair (bw_offset wr)) (blocks (bw_bs wr))"

text \<open>
  \<open>bw_inv wr w P c d\<close>: the data \<open>d\<close> has been laid into object \<open>P\<close>, which held \<open>c\<close>; the cursor
  stands behind it, \<open>currentBlockLeft\<close> bytes before the end of the open range.
\<close>

definition bw_inv :: "block_writer \<Rightarrow> world \<Rightarrow> string \<Rightarrow> bytes \<Rightarrow> bytes \<Rightarrow> bool" where
  "bw_inv wr w P c d \<longleftrightarrow>
     (let rs = bw_ranges wr; i = blockIndex wr; left = unat (currentBlockLeft wr) in
      bw_wf wr \<and> in_bounds rs (length c) \<and> i \<le> length rs \<and> length d + left = total (take i rs) \<and>
      (left = 0 \<or> 0 < i \<and> left \<le> snd (rs ! (i - 1))) \<and>
      (\<exists>q. at w (bw_fd wr) P q (scatter rs d c) \<and>
         (left = 0 \<or> q + left = fst (rs ! (i - 1)) + snd (rs ! (i - 1)))))"

definition same_target :: "block_writer \<Rightarrow> block_writer \<Rightarrow> bool" where
  "same_target wr wr' \<longleftrightarrow> bw_fd wr' = bw_fd wr \<and> bw_bs wr' = bw_bs wr \<and> bw_offset wr' = bw_offset wr"

lemma same_target_ranges: "same_target wr wr' \<Longrightarrow> bw_ranges wr' = bw_ranges wr \<and> bw_wf wr' = bw_wf wr"
  by (simp add: same_target_def bw_ranges_def bw_wf_def)

lemma bw_inv_new:
  assumes "list_all (wf_pair off) (blocks bs)" and "at w fd P q c"
    and "in_bounds (List.map (pair_range off) (blocks bs)) (length c)"
  shows "bw_inv (BlockWriter_new fd off bs) w P c []"
  using assms by (auto simp: bw_inv_def BlockWriter_new_def bw_ranges_def bw_wf_def Let_def)

lemma next_range_inv:
  assumes "next_range wr w = Some (b, wr', w')" and "bw_inv wr w P c d"
    and "currentBlockLeft wr = 0" and "blockIndex wr < CountOfRanges (bw_bs wr)"
  shows "same_target wr wr' \<and> within P (bw_ranges wr) w w' \<and> (b \<longrightarrow> bw_inv wr' w' P c d \<and>
    0 < unat (currentBlockLeft wr'))"
proof -
  define bp where "bp = blocks (bw_bs wr) ! blockIndex wr"
  define i where "i = blockIndex wr"
  let ?rs = "bw_ranges wr"
  have len: "length ?rs = CountOfRanges (bw_bs wr)" by (simp add: bw_ranges_def CountOfRanges_def)
  have wf: "wf_pair (bw_offset wr) bp"
    using assms(2,4) by (auto simp: bw_inv_def Let_def bw_wf_def list_all_length bp_def CountOfRanges_def)
  obtain s m where sm: "pair_range (bw_offset wr) bp = (s, m)" by (metis surj_pair)
  have rs_i: "?rs ! i = (s, m)"
    using assms(4) sm by (simp add: bw_ranges_def i_def bp_def CountOfRanges_def)
  have bytes: "unat ((snd bp - fst bp) * 4096) = m"
    using wf_pair_bytes [OF wf] sm by (simp add: pair_bytes_def)
  have m0: "0 < m" using wf sm by (auto simp: pair_range_def wf_pair_def word_less_nat_alt)
  have off: "sint (fst bp) * 4096 + sint (bw_offset wr) = int s"
    and small: "sint (fst bp) = int (unat (fst bp))" "sint (bw_offset wr) = int (unat (bw_offset wr))"
  proof -
    have "s = unat (fst bp) * 4096 + unat (bw_offset wr)" "s < 2 ^ 63"
      using sm wf_pair_start(2) [OF wf] by (simp_all add: pair_range_def)
    then have "unat (fst bp) < 2 ^ 63" "unat (bw_offset wr) < 2 ^ 63" by simp_all
    then show s': "sint (fst bp) = int (unat (fst bp))" "sint (bw_offset wr) = int (unat (bw_offset wr))"
      using sint_small [of "fst bp"] sint_small [of "bw_offset wr"] by simp_all
    from s' \<open>s = _\<close> show "sint (fst bp) * 4096 + sint (bw_offset wr) = int s" by simp
  qed
  obtain x w1 where lseek: "sys_lseek w (bw_fd wr) (int s) = (x, w1)" by (metis surj_pair)
  obtain q where at0: "at w (bw_fd wr) P q (scatter ?rs d c)"
    using assms(2) by (auto simp: bw_inv_def Let_def)
  have res: "wr' = wr\<lparr>currentBlockLeft := (snd bp - fst bp) * 4096, blockIndex := i + 1\<rparr>"
    "w' = w1" "b = (\<not> isl x)"
    using assms(1) lseek off by (auto simp: next_range_def Let_def bp_def i_def split: if_splits sum.splits)
  have frame: "within P ?rs w w1"
    using lseek_core_seek [OF lseek at0] within_seek by blast
  have "bw_inv wr' w' P c d" if ok: "b"
  proof -
    obtain y where y: "x = Inr y" using ok res by (cases x) auto
    have "core w1 = core (set_fd (bw_fd wr) P s w)"
      using sys_lseek_Inr [of w "bw_fd wr" "int s" y w1] lseek at0 by (auto simp: y at_def)
    moreover have "obj w P = Some (scatter ?rs d c)" using at0 by (simp add: at_def)
    ultimately have at1: "at w1 (bw_fd wr) P s (scatter ?rs d c)" by (rule core_set_fdD)
    have "take (i + 1) ?rs = take i ?rs @ [(s, m)]"
      using rs_i assms(4) len by (simp add: take_Suc_conv_app_nth i_def)
    then show ?thesis
      using assms(2-4) res bytes at1 rs_i len
      by (auto simp: bw_inv_def Let_def bw_ranges_def bw_wf_def i_def)
  qed
  with res frame bytes m0 show ?thesis
    by (auto simp: same_target_def)
qed

lemma write_some_inv:
  assumes "write_some wr w data = (k, b, wr', w')" and "bw_inv wr w P c d"
    and "0 < unat (currentBlockLeft wr)"
  shows "same_target wr wr' \<and> within P (bw_ranges wr) w w' \<and> (b \<longrightarrow> bw_inv wr' w' P c (d @ take k data))"
proof -
  let ?rs = "bw_ranges wr" and ?i = "blockIndex wr - 1" and ?left = "unat (currentBlockLeft wr)"
  obtain p n where pn: "?rs ! ?i = (p, n)" by (metis surj_pair)
  obtain q where at0: "at w (bw_fd wr) P q (scatter ?rs d c)" and q: "q + ?left = p + n"
    and i: "0 < blockIndex wr" "blockIndex wr \<le> length ?rs" and left: "?left \<le> n"
    and d: "length d + ?left = total (take (blockIndex wr) ?rs)"
    and bounds: "in_bounds ?rs (length c)"
    using assms(2,3) pn by (auto simp: bw_inv_def Let_def)
  define j where "j = min (length data) ?left"
  have j: "j \<le> ?left" "j \<le> length data" by (simp_all add: j_def)
  have idx: "blockIndex wr = Suc ?i" "?i < length ?rs" using i by auto
  have "take (blockIndex wr) ?rs = take ?i ?rs @ [(p, n)]"
    using idx pn by (metis take_Suc_conv_app_nth)
  then have d': "length d = total (take ?i ?rs) + (n - ?left)" using d left by simp
  have lenc: "length (scatter ?rs d c) = length c" using bounds by (rule length_scatter)
  have "p + n \<le> length c"
    using bounds idx(2) pn by (auto simp: in_bounds_def list_all_length)
  then have fit: "q + length (take j data) \<le> length (scatter ?rs d c)" using q j lenc by simp
  have inside: "\<not> apart x 1 ?rs" if "q \<le> x" "x < q + length (take j data)" for x
  proof -
    have "p \<le> x" "x < p + n" using that q left j by auto
    then show ?thesis using idx(2) pn by (auto simp: apart_def list_all_length)
  qed
  obtain g w1 where wr: "WriteFully w (bw_fd wr) (take j data) = (g, w1)" by (metis surj_pair)
  note W = WriteFully_within [OF wr at0 fit inside]
  have res: "b = g" "w' = w1" "b \<longrightarrow> k = j"
    "b \<longrightarrow> wr' = wr\<lparr>currentBlockLeft := currentBlockLeft wr - of_nat j,
                totalWritten := totalWritten wr + of_nat j\<rparr>" "\<not> b \<longrightarrow> wr' = wr"
    using assms(1) wr by (auto simp: write_some_def Let_def j_def split: bool.splits)
  have "bw_inv wr' w' P c (d @ take k data)" if "b"
  proof -
    have k: "k = j" using that res by simp
    have "core w1 = core (set_obj P (write_at q (take j data) (scatter ?rs d c))
        (set_fd (bw_fd wr) P (q + j) w))"
      using W res(1) that at0 j(2) by (auto simp: wrote_at)
    moreover have "write_at q (take j data) (scatter ?rs d c) = scatter ?rs (d @ take j data) c"
    proof -
      have "scatter ?rs (d @ take j data) c = blit (p + (n - ?left)) (take j data) (scatter ?rs d c)"
        using d' j left bounds by (intro scatter_append_at [OF pn idx(2)]) simp_all
      moreover have "p + (n - ?left) = q" using q left by simp
      ultimately show ?thesis using fit by (simp add: write_at_blit)
    qed
    ultimately have at1: "at w1 (bw_fd wr) P (q + j) (scatter ?rs (d @ take j data) c)"
      using core_content(3) by metis
    have left': "unat (currentBlockLeft wr') = ?left - j"
    proof -
      have "unat (of_nat j :: u64) = j"
        using j(1) unsigned_less [of "currentBlockLeft wr", where 'a = nat]
        by (simp add: unat_of_nat)
      then show ?thesis using res that j(1) by (simp add: unat_sub word_le_nat_alt)
    qed
    have "bw_ranges wr' = ?rs" "bw_wf wr' = bw_wf wr" "blockIndex wr' = blockIndex wr"
      "bw_fd wr' = bw_fd wr"
      using res that by (simp_all add: bw_ranges_def bw_wf_def)
    moreover have "bw_wf wr" using assms(2) by (simp add: bw_inv_def Let_def)
    moreover have "length (d @ take j data) + (?left - j) = total (take (blockIndex wr) ?rs)"
      using d j by simp
    moreover have "q + j + (?left - j) = p + n" using q j by simp
    ultimately show ?thesis
      using k res(2) at1 left' i left pn bounds unfolding bw_inv_def Let_def by auto
  qed
  with W res show ?thesis by (auto simp: same_target_def)
qed

section \<open>Streams\<close>

lemma same_target_trans: "same_target a b \<Longrightarrow> same_target b c \<Longrightarrow> same_target a c"
  by (simp add: same_target_def)

text \<open>What a run of the writer from \<open>(wr, w)\<close> to \<open>(wr', w')\<close> with data \<open>xs\<close> keeps and establishes.\<close>

definition bw_run :: "string \<Rightarrow> bytes \<Rightarrow> bytes \<Rightarrow> bytes \<Rightarrow> bool \<Rightarrow> block_writer \<Rightarrow> world
    \<Rightarrow> block_writer \<Rightarrow> world \<Rightarrow> bool" where
  "bw_run P c d xs b wr w wr' w' \<longleftrightarrow>
     same_target wr wr' \<and> within P (bw_ranges wr) w w' \<and> (b \<longrightarrow> bw_inv wr' w' P c (d @ xs))"

lemma bw_run_trans:
  assumes "bw_run P c d xs True wr w wr1 w1" and "bw_run P c (d @ xs) ys b wr1 w1 wr2 w2"
  shows "bw_run P c d (xs @ ys) b wr w wr2 w2"
proof -
  have "bw_ranges wr1 = bw_ranges wr" using assms(1) same_target_ranges by (simp add: bw_run_def)
  then show ?thesis
    using assms within_trans same_target_trans by (auto simp: bw_run_def)
qed

lemma write_some_then:
  assumes "(case write_some wr w data of
       (k, False, wr2, w2) \<Rightarrow> Some (False, wr2, w2)
     | (k, True, wr2, w2) \<Rightarrow> write_stream wr2 w2 (drop k data)) = Some (b, wr', w')"
    and "bw_inv wr w P c d" and "0 < unat (currentBlockLeft wr)"
    and IH: "\<And>k wr2 w2. write_some wr w data = (k, True, wr2, w2) \<Longrightarrow>
      write_stream wr2 w2 (drop k data) = Some (b, wr', w') \<Longrightarrow>
      bw_inv wr2 w2 P c (d @ take k data) \<Longrightarrow> bw_run P c (d @ take k data) (drop k data) b wr2 w2 wr' w'"
  shows "bw_run P c d data b wr w wr' w'"
proof -
  obtain k h wr2 w2 where ws: "write_some wr w data = (k, h, wr2, w2)" by (metis prod_cases4)
  have S: "bw_run P c d (take k data) h wr w wr2 w2"
    using write_some_inv [OF ws assms(2,3)] by (simp add: bw_run_def)
  show ?thesis
  proof (cases h)
    case False
    with assms(1) ws have "\<not> b \<and> wr' = wr2 \<and> w' = w2" by auto
    with S show ?thesis by (simp add: bw_run_def)
  next
    case True
    with ws have ws': "write_some wr w data = (k, True, wr2, w2)" by simp
    with assms(1) have "write_stream wr2 w2 (drop k data) = Some (b, wr', w')" by simp
    moreover have "bw_inv wr2 w2 P c (d @ take k data)" using S True by (simp add: bw_run_def)
    ultimately have "bw_run P c (d @ take k data) (drop k data) b wr2 w2 wr' w'"
      by (rule IH [OF ws'])
    with S True bw_run_trans [of P c d "take k data" wr w wr2 w2 "drop k data" b wr' w']
    show ?thesis by simp
  qed
qed

lemma write_stream_inv:
  "write_stream wr w data = Some (b, wr', w') \<Longrightarrow> bw_inv wr w P c d \<Longrightarrow>
   bw_run P c d data b wr w wr' w'"
proof (induction wr w data arbitrary: d rule: write_stream.induct)
  case (1 wr w data)
  consider "data = []" | "data \<noteq> []" "currentBlockLeft wr = 0" "CountOfRanges (bw_bs wr) \<le> blockIndex wr"
    | "data \<noteq> []" "currentBlockLeft wr = 0" "\<not> CountOfRanges (bw_bs wr) \<le> blockIndex wr"
    | "data \<noteq> []" "currentBlockLeft wr \<noteq> 0" by blast
  then show ?case
  proof cases
    case 1
    with "1.prems" show ?thesis
      by (simp add: write_stream.simps [of wr w] same_target_def bw_run_def)
  next
    case 2
    with "1.prems" show ?thesis
      by (auto simp: write_stream.simps [of wr w] same_target_def bw_run_def)
  next
    case 3
    obtain g wr1 w1 where nr: "next_range wr w = Some (g, wr1, w1)"
      using "1.prems"(1) 3 by (auto simp: write_stream.simps [of wr w] split: option.splits)
    have N: "bw_run P c d [] g wr w wr1 w1" "g \<longrightarrow> 0 < unat (currentBlockLeft wr1)"
      using next_range_inv [OF nr "1.prems"(2)] 3 by (simp_all add: bw_run_def)
    show ?thesis
    proof (cases g)
      case False
      with "1.prems" 3 nr have "\<not> b \<and> wr' = wr1 \<and> w' = w1"
        by (auto simp: write_stream.simps [of wr w])
      with N False show ?thesis by (simp add: bw_run_def)
    next
      case g: True
      have nr': "next_range wr w = Some (True, wr1, w1)" using nr g by simp
      have "bw_run P c d data b wr1 w1 wr' w'"
      proof (rule write_some_then)
        show "(case write_some wr1 w1 data of
            (k, False, wr2, w2) \<Rightarrow> Some (False, wr2, w2)
          | (k, True, wr2, w2) \<Rightarrow> write_stream wr2 w2 (drop k data)) = Some (b, wr', w')"
          using "1.prems"(1) 3 nr' by (simp add: write_stream.simps [of wr w])
        show "bw_inv wr1 w1 P c d" "0 < unat (currentBlockLeft wr1)"
          using N g by (simp_all add: bw_run_def)
      next
        fix k wr2 w2
        assume "write_some wr1 w1 data = (k, True, wr2, w2)"
          and "write_stream wr2 w2 (drop k data) = Some (b, wr', w')"
          and "bw_inv wr2 w2 P c (d @ take k data)"
        then show "bw_run P c (d @ take k data) (drop k data) b wr2 w2 wr' w'"
          using "1.IH"(1) [OF 3 nr'] by simp
      qed
      with N g show ?thesis using bw_run_trans [of P c d "[]" wr w wr1 w1 data b wr' w'] by simp
    qed
  next
    case 4
    show ?thesis
    proof (rule write_some_then)
      show "(case write_some wr w data of
          (k, False, wr2, w2) \<Rightarrow> Some (False, wr2, w2)
        | (k, True, wr2, w2) \<Rightarrow> write_stream wr2 w2 (drop k data)) = Some (b, wr', w')"
        using "1.prems"(1) 4 by (simp add: write_stream.simps [of wr w])
      show "bw_inv wr w P c d" by (fact "1.prems"(2))
      show "0 < unat (currentBlockLeft wr)" using 4 by (simp add: unat_gt_0)
    next
      fix k wr2 w2
      assume "write_some wr w data = (k, True, wr2, w2)"
        and "write_stream wr2 w2 (drop k data) = Some (b, wr', w')"
        and "bw_inv wr2 w2 P c (d @ take k data)"
      then show "bw_run P c (d @ take k data) (drop k data) b wr2 w2 wr' w'"
        using "1.IH"(2) [OF 4] by simp
    qed
  qed
qed

lemma write_buffers_inv:
  "write_buffers wr w bufs = Some (b, wr', w') \<Longrightarrow> bw_inv wr w P c d \<Longrightarrow>
   bw_run P c d (concat bufs) b wr w wr' w'"
proof (induction bufs arbitrary: wr w d)
  case Nil
  then show ?case by (simp add: bw_run_def same_target_def)
next
  case (Cons buf bufs)
  obtain h wr1 w1 where W: "BlockWriter_Write wr w buf = Some (h, wr1, w1)"
    using Cons.prems(1) by (auto split: option.splits)
  have S: "bw_run P c d buf h wr w wr1 w1"
    using W Cons.prems(2) write_stream_inv
    by (auto simp: BlockWriter_Write_def bw_run_def same_target_def split: if_splits)
  show ?case
  proof (cases h)
    case False
    with Cons.prems(1) W S show ?thesis by (auto simp: bw_run_def)
  next
    case True
    have "write_buffers wr1 w1 bufs = Some (b, wr', w')"
      using Cons.prems(1) W True by simp
    then have "bw_run P c (d @ buf) (concat bufs) b wr1 w1 wr' w'"
      using S True by (intro Cons.IH) (simp_all add: bw_run_def)
    with S True show ?thesis using bw_run_trans by simp
  qed
qed

lemma total_take_less:
  assumes "list_all (\<lambda>r. 0 < snd r) rs" and "i < length rs"
  shows "total (take i rs) < total rs"
proof -
  have "rs = take i rs @ rs ! i # drop (Suc i) rs" using assms(2) by (rule id_take_nth_drop)
  then have "total rs = total (take i rs) + total (rs ! i # drop (Suc i) rs)"
    by (metis total_append)
  moreover have "0 < snd (rs ! i)" using assms by (simp add: list_all_length)
  ultimately show ?thesis by (cases "rs ! i") auto
qed

lemma total_take_le: "total (take i rs) \<le> total rs"
  by (metis append_take_drop_id le_add1 total_append)

lemma bw_inv_done:
  assumes "bw_inv wr w P c d" and "length d = total (bw_ranges wr)"
  shows "IsWriteDone wr"
proof -
  let ?rs = "bw_ranges wr" and ?i = "blockIndex wr"
  have inv: "bw_wf wr" "?i \<le> length ?rs" "length d + unat (currentBlockLeft wr) = total (take ?i ?rs)"
    using assms(1) by (simp_all add: bw_inv_def Let_def)
  have "list_all (\<lambda>r. 0 < snd r) ?rs"
    using inv(1) by (auto simp: bw_wf_def bw_ranges_def list_all_iff wf_pair_def pair_range_def
        word_less_nat_alt)
  moreover have "unat (currentBlockLeft wr) = 0" "total (take ?i ?rs) = total ?rs"
    using inv(3) assms(2) total_take_le [of ?i ?rs] by linarith+
  ultimately show ?thesis
    using inv(2) total_take_less [of ?rs ?i]
    by (auto simp: IsWriteDone_def CountOfRanges_def bw_ranges_def unat_eq_0 le_less)
qed

lemma next_range_ok:
  assumes "faults w = []" and "bw_inv wr w P c d" and "currentBlockLeft wr = 0"
    and "blockIndex wr < CountOfRanges (bw_bs wr)"
  shows "\<exists>wr' w'. next_range wr w = Some (True, wr', w') \<and> faults w' = []"
proof -
  define bp where "bp = blocks (bw_bs wr) ! blockIndex wr"
  let ?rs = "bw_ranges wr"
  have wf: "wf_pair (bw_offset wr) bp"
    using assms(2,4) by (auto simp: bw_inv_def Let_def bw_wf_def list_all_length bp_def CountOfRanges_def)
  obtain s m where sm: "pair_range (bw_offset wr) bp = (s, m)" by (metis surj_pair)
  have s: "s = unat (fst bp) * 4096 + unat (bw_offset wr)" "s < 2 ^ 63"
    using sm wf_pair_start(2) [OF wf] by (simp_all add: pair_range_def)
  then have "unat (fst bp) < 2 ^ 63" "unat (bw_offset wr) < 2 ^ 63" by simp_all
  then have small: "sint (fst bp) = int (unat (fst bp))" "sint (bw_offset wr) = int (unat (bw_offset wr))"
    using sint_small [of "fst bp"] sint_small [of "bw_offset wr"] by simp_all
  have off: "sint (fst bp) * 4096 + sint (bw_offset wr) = int s" using small s(1) by simp
  have range: "0 \<le> sint (fst bp) * 4096" "sint (fst bp) * 4096 < 2 ^ 63"
  proof -
    have "unat (fst bp) < 2 ^ 51" using s by simp
    then have "int (unat (fst bp)) < 2 ^ 51" by (simp only: of_nat_less_numeral_power_cancel_iff)
    then show "0 \<le> sint (fst bp) * 4096" "sint (fst bp) * 4096 < 2 ^ 63"
      unfolding small by simp_all
  qed
  obtain q where at0: "at w (bw_fd wr) P q (scatter ?rs d c)" and bounds: "in_bounds ?rs (length c)"
    using assms(2) by (auto simp: bw_inv_def Let_def)
  have "?rs ! blockIndex wr = (s, m)" "blockIndex wr < length ?rs"
    using assms(4) sm by (simp_all add: bw_ranges_def bp_def CountOfRanges_def)
  then have "s + m \<le> length c" using bounds by (auto simp: in_bounds_def list_all_length)
  then have "sys_lseek w (bw_fd wr) (int s) = (Inr (int s), set_fd (bw_fd wr) P s w)"
    using assms(1) at0 bounds by (intro sys_lseek_ok) (auto simp: length_scatter)
  then show ?thesis
    using off range s(2) assms(1)
    by (simp add: next_range_def Let_def flip: bp_def) (simp add: world_simps)
qed

lemma write_some_ok:
  assumes "faults w = []" and "bw_inv wr w P c d" and "0 < unat (currentBlockLeft wr)"
  shows "\<exists>wr' w'. write_some wr w data = (min (length data) (unat (currentBlockLeft wr)), True, wr', w')
    \<and> faults w' = []"
proof -
  let ?rs = "bw_ranges wr" and ?i = "blockIndex wr - 1" and ?left = "unat (currentBlockLeft wr)"
  obtain p n where pn: "?rs ! ?i = (p, n)" by (metis surj_pair)
  obtain q where at0: "at w (bw_fd wr) P q (scatter ?rs d c)" and q: "q + ?left = p + n"
    and i: "0 < blockIndex wr" "blockIndex wr \<le> length ?rs" and bounds: "in_bounds ?rs (length c)"
    using assms(2,3) pn by (auto simp: bw_inv_def Let_def)
  have "p + n \<le> length c"
    using bounds i pn by (auto simp: in_bounds_def list_all_length dest: spec [of _ ?i])
  then have "room w (bw_fd wr) (length (take (min (length data) ?left) data))"
    using at0 q bounds by (auto simp: room_def at_def length_scatter)
  then have "WriteFully w (bw_fd wr) (take (min (length data) ?left) data) =
      (True, wrote (bw_fd wr) (take (min (length data) ?left) data) w)"
    unfolding WriteFully_def using assms(1) by (intro write_loop_ok)
  then show ?thesis
    using assms(1) by (simp add: write_some_def Let_def wrote_sel)
qed

lemma write_stream_ok:
  "faults w = [] \<Longrightarrow> bw_inv wr w P c d \<Longrightarrow> length d + length data \<le> total (bw_ranges wr) \<Longrightarrow>
   \<exists>wr' w'. write_stream wr w data = Some (True, wr', w') \<and> faults w' = []"
proof (induction wr w data arbitrary: d rule: write_stream.induct)
  case (1 wr w data)
  consider "data = []" | "data \<noteq> []" "currentBlockLeft wr = 0" | "data \<noteq> []" "currentBlockLeft wr \<noteq> 0"
    by blast
  then show ?case
  proof cases
    case 1
    with "1.prems" show ?thesis by (simp add: write_stream.simps [of wr w])
  next
    case 2
    have idx: "\<not> CountOfRanges (bw_bs wr) \<le> blockIndex wr"
    proof
      assume "CountOfRanges (bw_bs wr) \<le> blockIndex wr"
      then have "length d = total (bw_ranges wr)"
        using "1.prems"(2) 2(2) by (auto simp: bw_inv_def Let_def CountOfRanges_def bw_ranges_def)
      with "1.prems"(3) 2(1) show False by (cases data) auto
    qed
    obtain wr1 w1 where nr: "next_range wr w = Some (True, wr1, w1)" "faults w1 = []"
      using next_range_ok [OF "1.prems"(1,2) 2(2)] idx by auto
    have N: "same_target wr wr1" "bw_inv wr1 w1 P c d" "0 < unat (currentBlockLeft wr1)"
      using next_range_inv [OF nr(1) "1.prems"(2) 2(2)] idx by simp_all
    obtain wr2 w2 where ws: "write_some wr1 w1 data =
        (min (length data) (unat (currentBlockLeft wr1)), True, wr2, w2)" "faults w2 = []"
      using write_some_ok [OF nr(2) N(2,3)] by blast
    have S: "same_target wr1 wr2" "bw_inv wr2 w2 P c (d @ take (min (length data) (unat (currentBlockLeft wr1))) data)"
      using write_some_inv [OF ws(1) N(2,3)] by simp_all
    have "bw_ranges wr2 = bw_ranges wr" using S(1) N(1) same_target_ranges by metis
    then have "\<exists>wr' w'. write_stream wr2 w2 (drop (min (length data) (unat (currentBlockLeft wr1))) data)
        = Some (True, wr', w') \<and> faults w' = []"
      using "1.IH"(1) [OF 2 idx nr(1) refl refl refl ws(1) [symmetric] refl refl refl ws(2) S(2)] "1.prems"(3)
      by simp
    then show ?thesis
      using 2 idx nr ws by (simp add: write_stream.simps [of wr w])
  next
    case 3
    then have left: "0 < unat (currentBlockLeft wr)" by (simp add: unat_gt_0)
    obtain wr2 w2 where ws: "write_some wr w data =
        (min (length data) (unat (currentBlockLeft wr)), True, wr2, w2)" "faults w2 = []"
      using write_some_ok [OF "1.prems"(1,2) left] by blast
    have S: "same_target wr wr2" "bw_inv wr2 w2 P c (d @ take (min (length data) (unat (currentBlockLeft wr))) data)"
      using write_some_inv [OF ws(1) "1.prems"(2) left] by simp_all
    have "bw_ranges wr2 = bw_ranges wr" using S(1) same_target_ranges by metis
    then have "\<exists>wr' w'. write_stream wr2 w2 (drop (min (length data) (unat (currentBlockLeft wr))) data)
        = Some (True, wr', w') \<and> faults w' = []"
      using "1.IH"(2) [OF 3 ws(1) [symmetric] refl refl refl ws(2) S(2)] "1.prems"(3)
      by simp
    then show ?thesis
      using 3 ws by (simp add: write_stream.simps [of wr w])
  qed
qed

lemma write_buffers_ok:
  "faults w = [] \<Longrightarrow> bw_inv wr w P c d \<Longrightarrow> length d + length (concat bufs) \<le> total (bw_ranges wr) \<Longrightarrow>
   [] \<notin> set bufs \<Longrightarrow> \<exists>wr' w'. write_buffers wr w bufs = Some (True, wr', w')"
proof (induction bufs arbitrary: wr w d)
  case (Cons buf bufs)
  have "\<not> IsWriteDone wr"
  proof
    assume "IsWriteDone wr"
    then have "length d = total (bw_ranges wr)"
      using Cons.prems(2) by (auto simp: bw_inv_def Let_def IsWriteDone_def CountOfRanges_def bw_ranges_def)
    with Cons.prems(3,4) show False by (cases buf) auto
  qed
  moreover obtain wr1 w1 where ws: "write_stream wr w buf = Some (True, wr1, w1)" "faults w1 = []"
    using write_stream_ok [OF Cons.prems(1,2), of buf] Cons.prems(3) by auto
  moreover have S: "bw_run P c d buf True wr w wr1 w1"
    using write_stream_inv [OF ws(1) Cons.prems(2)] .
  then have "bw_inv wr1 w1 P c (d @ buf)" "bw_ranges wr1 = bw_ranges wr"
    using same_target_ranges by (auto simp: bw_run_def)
  then have "\<exists>wr' w'. write_buffers wr1 w1 bufs = Some (True, wr', w')"
    using Cons.prems(3,4) ws(2) by (intro Cons.IH [of w1 wr1 "d @ buf"]) simp_all
  ultimately show ?case by (auto simp: BlockWriter_Write_def)
qed simp

text \<open>
  C36. Streaming is equivalent to writing at once: if the buffers of a stream, cut in any way,
  are all accepted and together fill the set, the target holds exactly what
  \<open>WriteDataToBlock\<close> leaves for the concatenated data, the writer reports itself done, and
  outside the ranges nothing has changed.
\<close>

theorem block_writer_stream:
  assumes "write_buffers (BlockWriter_new fd (offset bs) bs) w bufs = Some (True, wr', w1)"
    and "WriteDataToBlock bs v fd' (concat bufs) = Some (k, v1)" and "k \<noteq> 0"
    and "length (concat bufs) = total (byte_ranges bs)"
    and "wf_blocks bs" and "at w fd P q c" and "at v fd' P q' c"
    and "in_bounds (byte_ranges bs) (length c)"
  shows "obj w1 P = obj v1 P \<and> IsWriteDone wr' \<and> within P (byte_ranges bs) w w1"
proof -
  have "bw_inv (BlockWriter_new fd (offset bs) bs) w P c []"
    using assms by (intro bw_inv_new) (simp_all add: wf_blocks_def byte_ranges_def)
  from write_buffers_inv [OF assms(1) this]
  have R: "same_target (BlockWriter_new fd (offset bs) bs) wr'"
    "within P (byte_ranges bs) w w1" "bw_inv wr' w1 P c (concat bufs)"
    by (simp_all add: bw_run_def bw_ranges_def BlockWriter_new_def byte_ranges_def)
  have rs: "bw_ranges wr' = byte_ranges bs"
    using same_target_ranges [OF R(1)] by (simp add: bw_ranges_def BlockWriter_new_def byte_ranges_def)
  have "obj w1 P = Some (scatter (byte_ranges bs) (concat bufs) c)"
    using R(3) rs by (auto simp: bw_inv_def Let_def at_def)
  moreover have "obj v1 P = Some (scatter (byte_ranges bs) (concat bufs) c)"
    using write_blocks_spec [of "offset bs" "blocks bs" v fd' 0 "concat bufs" k v1 P q' c] assms
      core_content(1)
    by (fastforce simp: WriteDataToBlock_def wf_blocks_def byte_ranges_def)
  moreover have "IsWriteDone wr'" using bw_inv_done [OF R(3)] assms(4) rs by simp
  ultimately show ?thesis using R(2) by simp
qed

theorem block_writer_stream_witness:
  "\<exists>wr' w1. write_buffers (BlockWriter_new 3 0 demo_set) (demo_world 16384 [])
      [replicate 5000 1, replicate 3192 2] = Some (True, wr', w1) \<and> IsWriteDone wr'"
proof -
  let ?w = "demo_world 16384 []" and ?bufs = "[replicate 5000 1, replicate 3192 (2 :: u8)]"
  have off: "offset demo_set = 0" by (simp add: demo_set_def)
  have "bw_inv (BlockWriter_new 3 0 demo_set) ?w ''dev'' (replicate 16384 0) []"
    using demo_facts by (intro bw_inv_new) (simp_all add: wf_blocks_def byte_ranges_def off)
  moreover have "total (bw_ranges (BlockWriter_new 3 0 demo_set)) = 8192"
    using demo_facts(2) by (simp add: bw_ranges_def BlockWriter_new_def byte_ranges_def off)
  ultimately obtain wr' w1
    where run: "write_buffers (BlockWriter_new 3 (offset demo_set) demo_set) ?w ?bufs = Some (True, wr', w1)"
    using write_buffers_ok [of ?w "BlockWriter_new 3 0 demo_set" "''dev''" "replicate 16384 0" "[]" ?bufs]
      demo_facts(5) [of 16384 "[]"] off by auto
  obtain v1 where v1: "WriteDataToBlock demo_set ?w 3 (concat ?bufs) = Some (8192, v1)"
    using write_blocks_ok [of ?w "offset demo_set" "blocks demo_set" 3 "''dev''" 0
      "replicate 16384 0" 0 "concat ?bufs"] demo_facts [unfolded wf_blocks_def byte_ranges_def]
    by (auto simp: WriteDataToBlock_def)
  have "IsWriteDone wr'"
    using block_writer_stream [OF run v1 _ _ demo_facts(1,4,4)] demo_facts(2) by simp
  with run off show ?thesis by auto
qed

end
