(* ===== verification/Raw_Writer.thy ===== *)
theory Raw_Writer
  imports Block_Laws
begin

text \<open>
  \<open>services/applypatch/raw_writer.cpp\<close> and \<open>data_writer.cpp\<close>: the writer of consecutive raw data
  and the registry of writer constructors.
\<close>

section \<open>Opening the target\<close>

text \<open>\<open>access\<close> and \<open>realpath\<close> of an existing object succeed; there are no symbolic links.\<close>

definition sys_lookup :: "world \<Rightarrow> string \<Rightarrow> bool \<times> world" where
  "sys_lookup w p =
     (let w' = pop_fault w in
      case next_fault w of
        Fault e \<Rightarrow> (False, fail_with e w')
      | _ \<Rightarrow> if obj w (canon p) = None then (False, fail_with ENOENT w') else (True, w'))"

definition OpenPath :: "world \<Rightarrow> string \<Rightarrow> int \<times> world" where
  "OpenPath w path =
     (if path = [] then (-1, w)
      else case sys_lookup w path of
          (False, w1) \<Rightarrow> (-1, w1)
        | (True, w1) \<Rightarrow>
            (case sys_lookup w1 path of
               (False, w2) \<Rightarrow> (-1, w2)
             | (True, w2) \<Rightarrow>
                 (case sys_open w2 path of
                    (Inl e, w3) \<Rightarrow> (-1, w3)
                  | (Inr fd, w3) \<Rightarrow>
                      (case sys_lseek w3 fd 0 of
                         (Inl e, w4) \<Rightarrow> (-1, sys_close w4 fd)
                       | (Inr _, w4) \<Rightarrow> (fd, w4)))))"

section \<open>RawWriter\<close>

record raw_writer =
  rw_fd :: int
  rw_path :: string
  rw_offset :: u64

definition RawWriter_new :: "string \<Rightarrow> u64 \<Rightarrow> u64 \<Rightarrow> raw_writer" where
  "RawWriter_new path startAddr off = \<lparr>rw_fd = -1, rw_path = path, rw_offset = startAddr + off\<rparr>"

definition RawWriter_WriteInternal :: "raw_writer \<Rightarrow> world \<Rightarrow> int \<Rightarrow> bytes \<Rightarrow> int \<times> raw_writer \<times> world" where
  "RawWriter_WriteInternal rw w fd data =
     (case sys_lseek w fd (sint (rw_offset rw)) of
        (r, w1) \<Rightarrow>
          if seek_failed r then (-1, rw, w1)
          else case write_loop False w1 fd data of
                 (False, w2) \<Rightarrow> (-1, rw, w2)
               | (True, w2) \<Rightarrow>
                   (0, rw\<lparr>rw_offset := rw_offset rw + of_nat (length data)\<rparr>, w2))"

definition RawWriter_Write :: "raw_writer \<Rightarrow> world \<Rightarrow> bytes option \<Rightarrow> bool \<times> raw_writer \<times> world" where
  "RawWriter_Write rw w addr =
     (case addr of
        None \<Rightarrow> (False, rw, w)
      | Some data \<Rightarrow>
          if data = [] then (False, rw, w)
          else case (if rw_fd rw < 0 then OpenPath w (rw_path rw) else (rw_fd rw, w)) of
                 (fd, w1) \<Rightarrow>
                   if fd < 0 then (False, rw\<lparr>rw_fd := fd\<rparr>, w1)
                   else case RawWriter_WriteInternal (rw\<lparr>rw_fd := fd\<rparr>) w1 fd data of
                          (ret, rw2, w2) \<Rightarrow> (\<not> ret < 0, rw2, w2))"

definition RawWriter_Sync :: "raw_writer \<Rightarrow> world \<Rightarrow> bool \<times> world" where
  "RawWriter_Sync rw w = (if rw_fd rw < 0 then (False, w) else sys_fsync w (rw_fd rw))"

fun raw_write_all :: "raw_writer \<Rightarrow> world \<Rightarrow> bytes list \<Rightarrow> bool \<times> raw_writer \<times> world" where
  "raw_write_all rw w [] = (True, rw, w)"
| "raw_write_all rw w (b # bs) =
     (case RawWriter_Write rw w (Some b) of
        (False, rw', w') \<Rightarrow> (False, rw', w')
      | (True, rw', w') \<Rightarrow> raw_write_all rw' w' bs)"

section \<open>The registry\<close>

text \<open>Constructors are kept under their mode; a mode is registered once.\<close>

definition RegisterDataWriter :: "(string \<rightharpoonup> 'c) \<Rightarrow> string \<Rightarrow> 'c option \<Rightarrow> (string \<rightharpoonup> 'c)" where
  "RegisterDataWriter m mode ctor =
     (case ctor of
        None \<Rightarrow> m
      | Some c \<Rightarrow> if mode = [] \<or> m mode \<noteq> None then m else m(mode \<mapsto> c))"

definition CreateDataWriter ::
    "(string \<rightharpoonup> string \<Rightarrow> string \<Rightarrow> u64 \<Rightarrow> u64 \<Rightarrow> 'w) \<Rightarrow> string \<Rightarrow> string \<Rightarrow> string \<Rightarrow> u64 \<Rightarrow> u64 \<Rightarrow> 'w option" where
  "CreateDataWriter m mode path partName startAddr off =
     (case m mode of None \<Rightarrow> None | Some ctor \<Rightarrow> Some (ctor path partName startAddr off))"

definition RegisterRawWriter ::
    "(string \<rightharpoonup> string \<Rightarrow> string \<Rightarrow> u64 \<Rightarrow> u64 \<Rightarrow> raw_writer) \<Rightarrow>
     (string \<rightharpoonup> string \<Rightarrow> string \<Rightarrow> u64 \<Rightarrow> u64 \<Rightarrow> raw_writer)" where
  "RegisterRawWriter m =
     RegisterDataWriter m ''WRITE_RAW'' (Some (\<lambda>path partName startAddr off. RawWriter_new path startAddr off))"

section \<open>Consecutive writes\<close>

lemma write_internal_spec:
  assumes "RawWriter_WriteInternal rw w fd data = (r, rw', w')" and "at w fd P q c"
    and "unat (rw_offset rw) + length data < 2 ^ 63"
  shows "rw_fd rw' = rw_fd rw \<and> rw_path rw' = rw_path rw \<and> (r = 0 \<or> r = -1) \<and>
    (r = 0 \<longrightarrow> unat (rw_offset rw') = unat (rw_offset rw) + length data \<and>
      at w' fd P (unat (rw_offset rw')) (write_at (unat (rw_offset rw)) data c))"
proof -
  have off: "sint (rw_offset rw) = int (unat (rw_offset rw))"
    using assms(3) by (intro sint_small) simp
  obtain x w1 where lseek: "sys_lseek w fd (sint (rw_offset rw)) = (x, w1)" by (metis surj_pair)
  show ?thesis
  proof (cases "seek_failed x")
    case True
    with assms(1) lseek show ?thesis by (auto simp: RawWriter_WriteInternal_def)
  next
    case ok: False
    then obtain n where "x = Inr n" by (cases x) (auto simp: seek_failed_def)
    then have "core w1 = core (set_fd fd P (unat (rw_offset rw)) w)"
      using sys_lseek_Inr [of w fd "sint (rw_offset rw)" n w1] lseek off assms(2) by (auto simp: at_def)
    moreover have "obj w P = Some c" using assms(2) by (simp add: at_def)
    ultimately have at1: "at w1 fd P (unat (rw_offset rw)) c" by (rule core_set_fdD)
    obtain b w2 where wl: "write_loop False w1 fd data = (b, w2)" by (metis surj_pair)
    show ?thesis
    proof (cases b)
      case False
      with assms(1) lseek ok wl show ?thesis by (auto simp: RawWriter_WriteInternal_def)
    next
      case True
      with write_loop_wrote [OF wl] have "core w2 = core (wrote fd data w1)" by auto
      then have at2: "at w2 fd P (unat (rw_offset rw) + length data)
          (write_at (unat (rw_offset rw)) data c)"
        using at_core_cong at_wrote [OF at1] by blast
      have "unat (rw_offset rw + of_nat (length data)) = unat (rw_offset rw) + length data"
        using assms(3) by (simp add: unat_word_ariths unat_of_nat)
      with assms(1) lseek ok wl True at2 show ?thesis
        by (auto simp: RawWriter_WriteInternal_def)
    qed
  qed
qed

text \<open>
  The raw writer keeps its own position: accepted buffers land one after the other from the
  start offset, whatever another user of the descriptor did to the file position in between.
\<close>

theorem raw_write_all_spec:
  assumes "raw_write_all rw w bufs = (True, rw', w')" and "0 \<le> rw_fd rw"
    and "at w (rw_fd rw) P q c" and "unat (rw_offset rw) + length (concat bufs) < 2 ^ 63"
  shows "obj w' P = Some (write_at (unat (rw_offset rw)) (concat bufs) c) \<and>
    unat (rw_offset rw') = unat (rw_offset rw) + length (concat bufs) \<and> rw_fd rw' = rw_fd rw"
  using assms
proof (induction bufs arbitrary: rw w q c)
  case Nil
  then show ?case by (simp add: at_def)
next
  case (Cons b bufs)
  obtain rw1 w1 where first: "RawWriter_Write rw w (Some b) = (True, rw1, w1)"
    and rest: "raw_write_all rw1 w1 bufs = (True, rw', w')"
    using Cons.prems(1) by (auto split: prod.splits bool.splits)
  have "rw\<lparr>rw_fd := rw_fd rw\<rparr> = rw" by simp
  then obtain r where wi: "RawWriter_WriteInternal rw w (rw_fd rw) b = (r, rw1, w1)" "\<not> r < 0"
    using first Cons.prems(2) by (auto simp: RawWriter_Write_def split: if_splits prod.splits)
  have "unat (rw_offset rw) + length b < 2 ^ 63" using Cons.prems(4) by simp
  from write_internal_spec [OF wi(1) Cons.prems(3) this] wi(2)
  have W: "rw_fd rw1 = rw_fd rw" "unat (rw_offset rw1) = unat (rw_offset rw) + length b"
    "at w1 (rw_fd rw1) P (unat (rw_offset rw1)) (write_at (unat (rw_offset rw)) b c)"
    by auto
  have "obj w' P = Some (write_at (unat (rw_offset rw1)) (concat bufs)
        (write_at (unat (rw_offset rw)) b c)) \<and>
      unat (rw_offset rw') = unat (rw_offset rw1) + length (concat bufs) \<and> rw_fd rw' = rw_fd rw1"
    using Cons.prems W by (intro Cons.IH [OF rest _ W(3)]) simp_all
  then show ?case using W by (simp add: write_at_append)
qed

definition demo_raw :: raw_writer where
  "demo_raw = \<lparr>rw_fd = 3, rw_path = ''dev'', rw_offset = 2\<rparr>"

theorem raw_write_all_spec_witness:
  "\<exists>rw' w'. raw_write_all demo_raw (demo_world 8 []) [[1, 2], [3]] = (True, rw', w') \<and>
     obj w' ''dev'' = Some [0, 0, 1, 2, 3, 0, 0, 0]"
proof -
  have eight: "replicate 8 (0 :: u8) = [0, 0, 0, 0, 0, 0, 0, 0]" by (simp add: numeral_eq_Suc)
  have "fst (raw_write_all demo_raw (demo_world 8 []) [[1, 2], [3]])"
    by (simp add: RawWriter_Write_def RawWriter_WriteInternal_def demo_raw_def demo_world_def
        sys_lseek_def next_fault_def obj_def pop_fault_def set_fd_def seek_failed_def
        write_loop.simps sys_write_def set_obj_def length_write_at Let_def)
  then obtain rw' w' where run: "raw_write_all demo_raw (demo_world 8 []) [[1, 2], [3]] = (True, rw', w')"
    by (metis prod.collapse)
  have "at (demo_world 8 []) (rw_fd demo_raw) ''dev'' 0 (replicate 8 0)"
    using demo_facts(4) by (simp add: demo_raw_def)
  from raw_write_all_spec [OF run _ this] have
    "obj w' ''dev'' = Some (write_at 2 [1, 2, 3] (replicate 8 0))"
    by (simp add: demo_raw_def)
  with run show ?thesis by (simp add: eight write_at_def)
qed

text \<open>
  The result of \<open>lseek64\<close> is kept in an \<open>int\<close>: at any offset whose low 32 bits are all set
  the writer refuses to write although the seek has succeeded.
\<close>

theorem raw_write_seek_truncated:
  assumes "faults w = []" and "0 \<le> rw_fd rw" and "at w (rw_fd rw) P q c"
    and "unat (rw_offset rw) < 2 ^ 63" and "unat (rw_offset rw) mod 2 ^ 32 = 2 ^ 32 - 1"
    and "is_dev w P \<longrightarrow> unat (rw_offset rw) \<le> length c"
  shows "fst (sys_lseek w (rw_fd rw) (sint (rw_offset rw))) = Inr (int (unat (rw_offset rw))) \<and>
    fst (RawWriter_Write rw w (Some data)) = False"
proof -
  have off: "sint (rw_offset rw) = int (unat (rw_offset rw))"
    using assms(4) by (intro sint_small) simp
  have lseek: "sys_lseek w (rw_fd rw) (sint (rw_offset rw)) =
      (Inr (int (unat (rw_offset rw))), set_fd (rw_fd rw) P (unat (rw_offset rw)) w)"
    unfolding off using assms by (intro sys_lseek_ok) auto
  have "(word_of_int (int (unat (rw_offset rw))) :: 32 word) = - 1"
  proof -
    have "(of_nat (unat (rw_offset rw)) :: 32 word) = - 1"
    proof (rule unsigned_word_eqI)
      show "unat (of_nat (unat (rw_offset rw)) :: 32 word) = unat (- 1 :: 32 word)"
        using assms(5)
        by (subst unat_of_nat) (simp add: unsigned_minus_1_eq_mask mask_eq_exp_minus_1)
    qed
    then show ?thesis by simp
  qed
  then have "seek_failed (Inr (int (unat (rw_offset rw))))"
    unfolding seek_failed_def by simp
  then have "fst (RawWriter_Write rw w (Some data)) = False"
    using assms(2) lseek by (simp add: RawWriter_Write_def RawWriter_WriteInternal_def)
  with lseek show ?thesis by simp
qed

theorem raw_write_seek_truncated_witness:
  "\<not> fst (RawWriter_Write (demo_raw\<lparr>rw_offset := 4294967295\<rparr>)
      ((demo_world 8 [])\<lparr>is_dev := (\<lambda>_. False)\<rparr>) (Some [1]))"
proof -
  have "at ((demo_world 8 [])\<lparr>is_dev := (\<lambda>_. False)\<rparr>) 3 ''dev'' 0 (replicate 8 0)"
    by (simp add: at_def demo_world_def obj_def)
  then show ?thesis
    using raw_write_seek_truncated [of "(demo_world 8 [])\<lparr>is_dev := (\<lambda>_. False)\<rparr>"
        "demo_raw\<lparr>rw_offset := 4294967295\<rparr>" "''dev''" 0 "replicate 8 0" "[1]"]
    by (simp add: demo_raw_def demo_facts)
qed

end
