(* ===== verification/Store.thy ===== *)
theory Store
  imports Block_Laws
begin

text \<open>
  \<open>services/applypatch/store.cpp\<close> with \<open>MkdirRecursive\<close> and the flat \<open>GetFilesFromDirectory\<close> of
  \<open>utils/utils_fs.cpp\<close>: the directory of stashed blocks, one file per hash.
\<close>

section \<open>Directories\<close>

abbreviation (input) PATH_MAX :: nat where
  "PATH_MAX \<equiv> 4096"

function mkdir_loop :: "world \<Rightarrow> string \<Rightarrow> nat \<Rightarrow> bool \<times> world" where
  "mkdir_loop w pathName slashPos =
     (case find_first_of pathName ''/'' slashPos of
        None \<Rightarrow> (True, w)
      | Some pos \<Rightarrow>
          if pos = 0 then mkdir_loop w pathName 1
          else if PATH_MAX < pos then (False, w)
          else (let subDir = take pos pathName in
                case sys_stat w subDir of
                  (Inr _, w1) \<Rightarrow> mkdir_loop w1 pathName (pos + 1)
                | (Inl _, w1) \<Rightarrow>
                    (case sys_mkdir w1 subDir of
                       (ok, w2) \<Rightarrow> if \<not> ok \<and> errno w2 \<noteq> EEXIST then (False, w2)
                                   else mkdir_loop w2 pathName (pos + 1))))"
  by pat_completeness auto
termination
  by (relation "measure (\<lambda>(w, pathName, slashPos). length pathName - slashPos)")
    (auto dest: find_first_of_bounds)

declare mkdir_loop.simps [simp del]

definition MkdirRecursive :: "world \<Rightarrow> string \<Rightarrow> int \<times> world" where
  "MkdirRecursive w pathName =
     (case mkdir_loop w pathName 0 of
        (False, w1) \<Rightarrow> (-1, w1)
      | (True, w1) \<Rightarrow>
          (case sys_mkdir w1 pathName of
             (ok, w2) \<Rightarrow> if \<not> ok \<and> errno w2 \<noteq> EEXIST then (-1, w2) else (0, w2)))"

text \<open>
  \<open>GetFilesFromDirectory (path, files)\<close> without recursion. Only the sign of its result is
  used, so None stands for -1 and \<open>Some files\<close> for the sum of the sizes.
\<close>

fun dir_entries :: "string \<Rightarrow> string list \<Rightarrow> world \<Rightarrow> string list \<times> world" where
  "dir_entries path [] w = ([], w)"
| "dir_entries path (n # ns) w =
     (let fileName = path @ ''/'' @ n in
      case sys_stat w fileName of
        (Inl _, w1) \<Rightarrow> dir_entries path ns w1
      | (Inr _, w1) \<Rightarrow>
          if n = ''.'' \<or> n = ''..'' then dir_entries path ns w1
          else (case dir_entries path ns w1 of (files, w2) \<Rightarrow> (fileName # files, w2)))"

definition GetFilesFromDirectory :: "world \<Rightarrow> string \<Rightarrow> string list option \<times> world" where
  "GetFilesFromDirectory w path =
     (case sys_stat w path of
        (Inl _, w1) \<Rightarrow> (None, w1)
      | (Inr _, w1) \<Rightarrow>
          (case sys_open w1 path of
             (Inl _, w2) \<Rightarrow> (None, w2)
           | (Inr dirp, w2) \<Rightarrow>
               if canon path \<notin> set (dirs w2) then (None, sys_close w2 dirp)
               else (case dir_entries path (readdir_names w2 path) w2 of
                       (files, w3) \<Rightarrow> (Some files, sys_close w3 dirp))))"

fun delete_files :: "string list \<Rightarrow> world \<Rightarrow> world" where
  "delete_files [] w = w"
| "delete_files (f # fs) w = delete_files fs (snd (DeleteFile w f))"

definition CreateNewSpace :: "world \<Rightarrow> string \<Rightarrow> bool \<Rightarrow> int \<times> world" where
  "CreateNewSpace w path needClear =
     (let dirPath = path @ ''/'' in
      case sys_stat w dirPath of
        (Inl e, w1) \<Rightarrow>
          if e \<noteq> ENOENT then (-1, w1)
          else (case MkdirRecursive w1 dirPath of
                  (r, w2) \<Rightarrow> if r \<noteq> 0 then (-1, w2) else (0, w2))
      | (Inr _, w1) \<Rightarrow>
          if \<not> needClear then (0, w1)
          else (case GetFilesFromDirectory w1 dirPath of
                  (None, w2) \<Rightarrow> (-1, w2)
                | (Some files, w2) \<Rightarrow> (0, delete_files files w2)))"

section \<open>Stash files\<close>

definition FreeStore :: "world \<Rightarrow> string \<Rightarrow> string \<Rightarrow> int \<times> world" where
  "FreeStore w dirPath fileName =
     (if dirPath = [] \<or> fileName = [] then (-1, w)
      else case DeleteFile w (dirPath @ ''/'' @ fileName) of
             (r, w1) \<Rightarrow> if r \<noteq> -1 then (0, w1) else (-1, w1))"

definition store_path :: "string \<Rightarrow> string \<Rightarrow> string" where
  "store_path dirPath fileName = dirPath @ ''/'' @ fileName"

text \<open>
  \<open>size\<close> is an \<open>int\<close>; None is a read behind the end of the buffer. On a negative size the
  branch on \<open>errno\<close> looks at whatever the last failing call left there.
\<close>

definition WriteDataToStore :: "world \<Rightarrow> string \<Rightarrow> string \<Rightarrow> bytes \<Rightarrow> int \<Rightarrow> (int \<times> world) option" where
  "WriteDataToStore w dirPath fileName buffer sz =
     (if dirPath = [] then Some (-1, w)
      else let path = (if fileName = [] then fileName else store_path dirPath fileName) in
        case sys_open_create w path of
          (Inl _, w1) \<Rightarrow> Some (-1, w1)
        | (Inr fd, w1) \<Rightarrow>
            if 0 \<le> sz \<and> int (length buffer) < sz then None
            else (case (if sz < 0 then (False, w1) else WriteFully w1 fd (take (nat sz) buffer)) of
                    (False, w2) \<Rightarrow> Some (if errno w2 = EIO then 1 else -1, sys_close w2 fd)
                  | (True, w2) \<Rightarrow>
                      (let w3 = sys_close (snd (sys_fsync w2 fd)) fd in
                       case sys_open w3 dirPath of
                         (Inl _, w4) \<Rightarrow> Some (-1, w4)
                       | (Inr fdd, w4) \<Rightarrow> Some (0, sys_close w4 fdd))))"

definition LoadDataFromStore :: "world \<Rightarrow> string \<Rightarrow> string \<Rightarrow> bytes \<Rightarrow> int \<times> bytes \<times> world" where
  "LoadDataFromStore w dirPath fileName buffer =
     (let path = (if fileName = [] then dirPath else store_path dirPath fileName) in
      case sys_stat w path of
        (Inl _, w1) \<Rightarrow> (-2, buffer, w1)
      | (Inr n, w1) \<Rightarrow>
          (let st_size = (case n of None \<Rightarrow> H_BLOCK_SIZE | Some k \<Rightarrow> k) in
           if st_size mod H_BLOCK_SIZE \<noteq> 0 then (-1, buffer, w1)
           else case sys_open w1 path of
                  (Inl _, w2) \<Rightarrow> (-1, buffer, w2)
                | (Inr fd, w2) \<Rightarrow>
                    (let buffer1 = take st_size buffer @ replicate (st_size - length buffer) 0 in
                     case ReadFully w2 fd st_size of
                       (ok, xs, w3) \<Rightarrow>
                         (if ok then 0 else -1, blit 0 xs buffer1, sys_close w3 fd))))"

section \<open>What the operations leave alone\<close>

text \<open>
  \<open>stable S w w'\<close>: from \<open>w\<close> to \<open>w'\<close> only objects named in \<open>S\<close> changed, no directory went away,
  and every descriptor that was open then is as it was.
\<close>

definition stable :: "string set \<Rightarrow> world \<Rightarrow> world \<Rightarrow> bool" where
  "stable S w w' \<longleftrightarrow>
     (\<forall>p. p \<notin> S \<longrightarrow> obj w' p = obj w p) \<and> is_dev w' = is_dev w \<and> dirs w' = dirs w \<and>
     next_fd w \<le> next_fd w' \<and> (\<forall>f<next_fd w. fds w' f = fds w f)"

lemma stable_refl [simp]: "stable S w w"
  by (simp add: stable_def)

lemma stable_trans: "stable S w w' \<Longrightarrow> stable S w' w'' \<Longrightarrow> stable S w w''"
  by (auto simp: stable_def)

lemma stable_core: "core w' = core w \<Longrightarrow> stable S w w'"
  using core_eqD [of w' w] by (simp add: stable_def)

lemma stable_mono: "stable S w w' \<Longrightarrow> S \<subseteq> T \<Longrightarrow> stable T w w'"
  by (auto simp: stable_def)

lemma stable_at:
  "stable S w w' \<Longrightarrow> P \<notin> S \<Longrightarrow> fd < next_fd w \<Longrightarrow> at w fd P q c \<Longrightarrow> at w' fd P q c"
  by (simp add: stable_def at_def)

lemma next_fd_sel [world_simps]:
  "next_fd (pop_fault w) = next_fd w" "next_fd (fail_with e w) = next_fd w"
  "next_fd (set_obj p c w) = next_fd w" "next_fd (set_fd fd p q w) = next_fd w"
  "next_fd (del_obj p w) = next_fd w" "next_fd (core w) = next_fd w"
  by (simp_all add: pop_fault_def fail_with_def set_obj_def set_fd_def del_obj_def core_def)

lemma sys_close_sel [world_simps]:
  "obj (sys_close w fd) = obj w" "is_dev (sys_close w fd) = is_dev w" "dirs (sys_close w fd) = dirs w"
  "next_fd (sys_close w fd) = next_fd w" "faults (sys_close w fd) = faults w"
  "fds (sys_close w fd) = (fds w)(fd := None)" "errno (sys_close w fd) = errno w"
  by (simp_all add: sys_close_def obj_def fun_eq_iff)

lemma fresh_sel [world_simps]:
  "obj (w\<lparr>next_fd := n\<rparr>) = obj w" "core (w\<lparr>next_fd := n\<rparr>) = (core w)\<lparr>next_fd := n\<rparr>"
  by (simp_all add: obj_def core_def fun_eq_iff)

lemma sys_stat_core: "sys_stat w p = (r, w') \<Longrightarrow> core w' = core w"
  by (auto simp: sys_stat_def world_simps Let_def split: fault.splits option.splits if_splits)

lemma sys_stat_Inr:
  "sys_stat w p = (Inr n, w') \<Longrightarrow>
   (case n of Some k \<Rightarrow> \<exists>c. obj w (canon p) = Some c \<and> length c = k
    | None \<Rightarrow> obj w (canon p) = None \<and> canon p \<in> set (dirs w))"
  by (auto simp: sys_stat_def Let_def split: fault.splits option.splits if_splits)

lemma sys_open_Inr:
  assumes "sys_open w p = (Inr fd, w')"
  shows "fd = next_fd w \<and> obj w' = obj w \<and> dirs w' = dirs w \<and> is_dev w' = is_dev w
    \<and> next_fd w' = next_fd w + 1 \<and> fds w' = (fds w)(fd := Some (canon p, 0))
    \<and> (obj w (canon p) \<noteq> None \<or> canon p \<in> set (dirs w))"
  using assms by (auto simp: sys_open_def fresh_fd_def Let_def world_simps split: fault.splits if_splits)

lemma sys_open_Inl: "sys_open w p = (Inl e, w') \<Longrightarrow> core w' = core w"
  by (auto simp: sys_open_def fresh_fd_def Let_def world_simps split: fault.splits if_splits)

lemma sys_open_create_Inr:
  assumes "sys_open_create w p = (Inr fd, w')"
  shows "fd = next_fd w \<and> obj w' = (obj w)(canon p := Some []) \<and> dirs w' = dirs w
    \<and> is_dev w' = is_dev w \<and> next_fd w' = next_fd w + 1 \<and> fds w' = (fds w)(fd := Some (canon p, 0))"
  using assms
  by (auto simp: sys_open_create_def fresh_fd_def Let_def world_simps fun_eq_iff split: fault.splits if_splits)

lemma sys_open_create_Inl: "sys_open_create w p = (Inl e, w') \<Longrightarrow> core w' = core w"
  by (auto simp: sys_open_create_def fresh_fd_def Let_def world_simps split: fault.splits if_splits)

lemma stable_close:
  "stable S w w' \<Longrightarrow> next_fd w \<le> fd \<Longrightarrow> stable S w (sys_close w' fd)"
  by (simp add: stable_def world_simps)

lemma stable_open: "sys_open w p = (Inr fd, w') \<Longrightarrow> stable S w w'"
  using sys_open_Inr [of w p fd w'] by (auto simp: stable_def)

lemma stable_wrote:
  assumes "core w' = core (wrote fd xs w)" and "at w fd P q c" and "next_fd v \<le> fd" and "stable {P} v w"
  shows "stable {P} v w'"
  using core_eqD [OF assms(1)] assms(2-4)
  by (auto simp: stable_def wrote_at at_def world_simps)

section \<open>Writing and loading a stash\<close>

lemma store_load_spec:
  assumes "LoadDataFromStore w dirPath fileName buffer = (r, buffer', w')"
    and "good_dir dirPath" and "good_name fileName"
    and "store_path dirPath fileName \<notin> set (dirs w)"
  shows "stable {} w w' \<and> r \<in> {0, -1, -2} \<and> (r = 0 \<longrightarrow>
    obj w (store_path dirPath fileName) = Some buffer' \<and> length buffer' mod H_BLOCK_SIZE = 0)"
proof -
  have ne: "fileName \<noteq> []" using assms(3) by (simp add: good_name_def)
  let ?p = "store_path dirPath fileName"
  have canon: "canon ?p = ?p" using canon_path [OF assms(2,3)] by (simp add: store_path_def)
  obtain x w1 where st: "sys_stat w ?p = (x, w1)" by (metis surj_pair)
  have c1: "core w1 = core w" using sys_stat_core [OF st] .
  note e1 = core_eqD [OF c1]
  show ?thesis
  proof (cases x)
    case (Inl e)
    with assms(1) st ne c1 show ?thesis by (auto simp: LoadDataFromStore_def Let_def stable_core)
  next
    case (Inr n)
    obtain k c where n: "n = Some k" and c: "obj w ?p = Some c" "length c = k"
      using sys_stat_Inr [OF st [unfolded Inr]] canon assms(4) by (auto split: option.splits)
    obtain y w2 where op: "sys_open w1 ?p = (y, w2)" by (metis surj_pair)
    show ?thesis
    proof (cases "k mod H_BLOCK_SIZE = 0 \<and> \<not> isl y")
      case False
      with assms(1) st ne Inr op c1 n have "r = -1 \<and> (w' = w1 \<or> w' = w2 \<and> isl y)"
        by (auto simp: LoadDataFromStore_def Let_def split: sum.splits if_splits)
      moreover have "core w2 = core w1" if "isl y"
        using that op sys_open_Inl by (cases y) auto
      ultimately show ?thesis using c1 by (auto intro: stable_core)
    next
      case True
      then obtain fd where y: "y = Inr fd" by (cases y) auto
      note O = sys_open_Inr [OF op [unfolded y]]
      obtain ok xs w3 where rf: "ReadFully w2 fd k = (ok, xs, w3)" by (metis prod_cases3)
      have res: "r = (if ok then 0 else -1)" "w' = sys_close w3 fd"
        "buffer' = blit 0 xs (take k buffer @ replicate (k - length buffer) 0)"
        using assms(1) st ne Inr op y True rf n
        by (auto simp: LoadDataFromStore_def Let_def)
      have at2: "at w2 fd ?p 0 c" using O e1 c canon by (simp add: at_def)
      note R = ReadFully_reads [OF rf at2]
      have "stable {} w w2" using O e1 by (auto simp: stable_def)
      moreover have "stable {} w w3"
        using \<open>stable {} w w2\<close> core_eqD [of w3 "set_fd fd ?p (0 + length xs) w2"] R O e1
        by (auto simp: stable_def world_simps)
      moreover have "fd = next_fd w" using O e1 by simp
      ultimately have "stable {} w w'" using res(2) by (simp add: stable_close)
      moreover have "buffer' = c" if "ok"
      proof -
        have "xs = c" using R that c(2) by (auto simp: slice_def)
        then show ?thesis using res(3) c(2) by (simp add: blit_def)
      qed
      ultimately show ?thesis using res(1) c True by auto
    qed
  qed
qed

lemma store_load_ok:
  assumes "faults w = []" and "good_dir dirPath" and "good_name fileName"
    and "obj w (store_path dirPath fileName) = Some c" and "length c mod H_BLOCK_SIZE = 0"
  shows "fst (LoadDataFromStore w dirPath fileName buffer) = 0"
proof -
  let ?p = "store_path dirPath fileName"
  have ne: "fileName \<noteq> []" using assms(3) by (simp add: good_name_def)
  have canon: "canon ?p = ?p" using canon_path [OF assms(2,3)] by (simp add: store_path_def)
  have [simp]: "pop_fault w = w" using assms(1) by (simp add: pop_fault_def)
  have st: "sys_stat w ?p = (Inr (Some (length c)), w)"
    using assms by (simp add: sys_stat_def next_fault_def canon Let_def)
  define w2 where "w2 = snd (fresh_fd ?p w)"
  have op: "sys_open w ?p = (Inr (next_fd w), w2)"
    using assms by (simp add: sys_open_def next_fault_def canon Let_def fresh_fd_def w2_def)
  have "at w2 (next_fd w) ?p 0 c" "faults w2 = []"
    using assms by (simp_all add: w2_def fresh_fd_def at_def world_simps)
  from ReadFully_ok [OF this(2,1), of "length c"]
  have "fst (ReadFully w2 (next_fd w) (length c))" by simp
  then show ?thesis
    using ne st op assms(5) by (auto simp: LoadDataFromStore_def Let_def split: prod.splits)
qed

lemma store_write_spec:
  assumes "WriteDataToStore w dirPath fileName buffer sz = Some (r, w')"
    and "good_dir dirPath" and "good_name fileName"
  shows "stable {store_path dirPath fileName} w w' \<and> (r = 0 \<longrightarrow> 0 \<le> sz \<and> sz \<le> int (length buffer) \<and>
    obj w' (store_path dirPath fileName) = Some (take (nat sz) buffer)) \<and>
    (\<exists>c. r \<noteq> 0 \<longrightarrow> obj w' (store_path dirPath fileName) = obj w (store_path dirPath fileName) \<or>
       obj w' (store_path dirPath fileName) = Some (take c (take (nat sz) buffer)))"
proof -
  have ne: "fileName \<noteq> []" "dirPath \<noteq> []"
    using assms(2,3) by (auto simp: good_name_def good_dir_def)
  let ?p = "store_path dirPath fileName"
  have canon: "canon ?p = ?p" using canon_path [OF assms(2,3)] by (simp add: store_path_def)
  obtain x w1 where op: "sys_open_create w ?p = (x, w1)" by (metis surj_pair)
  show ?thesis
  proof (cases x)
    case (Inl e)
    with assms(1) ne op have res: "r = -1" "w' = w1" by (auto simp: WriteDataToStore_def Let_def)
    have "core w1 = core w" using op Inl sys_open_create_Inl by simp
    with res core_eqD(1) [of w1 w] show ?thesis by (auto intro: stable_core)
  next
    case (Inr fd)
    note O = sys_open_create_Inr [OF op [unfolded Inr]]
    have at1: "at w1 fd ?p 0 []" using O canon by (simp add: at_def)
    have st1: "stable {?p} w w1" using O canon by (auto simp: stable_def)
    have fd: "fd = next_fd w" using O by simp
    define d where "d = take (nat sz) buffer"
    obtain b w2 where wf: "(if sz < 0 then (False, w1) else WriteFully w1 fd d) = (b, w2)"
      by (metis surj_pair)
    have guard: "0 \<le> sz \<Longrightarrow> sz \<le> int (length buffer)"
      using assms(1) ne op Inr by (auto simp: WriteDataToStore_def Let_def split: if_splits)
    obtain n where n: "n \<le> length d" "core w2 = core (wrote fd (take n d) w1)"
      "b \<longrightarrow> n = length d \<and> 0 \<le> sz"
    proof (cases "sz < 0")
      case True
      with wf have "w2 = w1" "\<not> b" by auto
      then show thesis using that [of 0] by simp
    next
      case False
      with wf write_loop_wrote [of True w1 fd d b w2] obtain n where
        "n \<le> length d" "core w2 = core (wrote fd (take n d) w1)" "b \<longrightarrow> n = length d"
        by (auto simp: WriteFully_def)
      with False show thesis using that [of n] by simp
    qed
    have st2: "stable {?p} w w2" using stable_wrote [OF n(2) at1 _ st1] fd by simp
    have content: "obj w2 ?p = Some (take n d)"
      using core_eqD(1) [OF n(2)] at1 by (simp add: wrote_at world_simps write_at_def)
    have same: "write_at 0 xs [] = xs" for xs by (simp add: write_at_def)
    show ?thesis
    proof (cases b)
      case False
      have "w' = sys_close w2 fd" "r \<noteq> 0"
        using assms(1) ne op Inr wf False guard by (auto simp: WriteDataToStore_def Let_def d_def
            split: if_splits)
      then show ?thesis
        using st2 content fd by (auto simp: stable_close world_simps d_def)
    next
      case True
      define w3 where "w3 = sys_close (snd (sys_fsync w2 fd)) fd"
      have core3: "core (snd (sys_fsync w2 fd)) = core w2" by (rule sys_fsync_core)
      then have "stable {?p} w (snd (sys_fsync w2 fd))"
        using st2 stable_core stable_trans by metis
      then have st3: "stable {?p} w w3" using fd by (simp add: w3_def stable_close)
      have c3: "obj w3 ?p = Some (take n d)"
        using core_eqD(1) [OF core3] content by (simp add: w3_def world_simps)
      obtain y w4 where od: "sys_open w3 dirPath = (y, w4)" by (metis surj_pair)
      have res: "case y of Inl _ \<Rightarrow> r = -1 \<and> w' = w4 | Inr fdd \<Rightarrow> r = 0 \<and> w' = sys_close w4 fdd"
        using assms(1) ne op Inr wf True od guard
        by (auto simp: WriteDataToStore_def Let_def d_def w3_def split: sum.splits if_splits)
      show ?thesis
      proof (cases y)
        case Inl2: (Inl e)
        then have "core w4 = core w3" using od sys_open_Inl by simp
        then have "stable {?p} w w4" "obj w4 ?p = Some (take n d)"
          using st3 stable_core stable_trans c3 core_eqD(1) by metis+
        with res Inl2 show ?thesis by (auto simp: d_def)
      next
        case Inr2: (Inr fdd)
        note O4 = sys_open_Inr [OF od [unfolded Inr2]]
        have "stable {?p} w w4" using st3 stable_open [OF od [unfolded Inr2]] stable_trans by blast
        moreover have "next_fd w \<le> fdd" using O4 st3 by (simp add: stable_def)
        ultimately show ?thesis
          using res Inr2 O4 c3 n(3) True guard by (auto simp: stable_close world_simps d_def)
      qed
    qed
  qed
qed

lemma store_write_ok:
  assumes "faults w = []" and "good_dir dirPath" and "good_name fileName"
    and "dirPath \<in> set (dirs w)" and "store_path dirPath fileName \<notin> set (dirs w)"
    and "\<not> is_dev w (store_path dirPath fileName)" and "0 \<le> sz" and "sz \<le> int (length buffer)"
  shows "\<exists>w'. WriteDataToStore w dirPath fileName buffer sz = Some (0, w') \<and> faults w' = []"
proof -
  let ?p = "store_path dirPath fileName" and ?d = "take (nat sz) buffer"
  have ne: "fileName \<noteq> []" "dirPath \<noteq> []"
    using assms(2,3) by (auto simp: good_name_def good_dir_def)
  have canon: "canon ?p = ?p" using canon_path [OF assms(2,3)] by (simp add: store_path_def)
  have parent: "parent_dir ?p = dirPath"
    using assms(3) parent_dir_path [of fileName dirPath] by (simp add: store_path_def good_name_def)
  have [simp]: "pop_fault v = v" if "faults v = []" for v :: world using that by (simp add: pop_fault_def)
  define w1 where "w1 = snd (fresh_fd ?p (set_obj ?p [] w))"
  have op: "sys_open_create w ?p = (Inr (next_fd w), w1)"
    using assms by (simp add: sys_open_create_def next_fault_def canon parent Let_def fresh_fd_def
        w1_def world_simps)
  have f1: "faults w1 = []" and d1: "dirs w1 = dirs w" and at1: "at w1 (next_fd w) ?p 0 []"
    and dev: "is_dev w1 = is_dev w"
    using assms(1) by (simp_all add: w1_def fresh_fd_def world_simps at_def)
  have "room w1 (next_fd w) (length ?d)" using at1 dev assms(6) by (simp add: room_def at_def)
  then have wr: "WriteFully w1 (next_fd w) ?d = (True, wrote (next_fd w) ?d w1)"
    unfolding WriteFully_def using f1 by (intro write_loop_ok)
  have "fds (wrote (next_fd w) ?d w1) (next_fd w) \<noteq> None"
    using at_wrote [OF at1, of ?d] by (auto simp: at_def)
  then have sync: "sys_fsync (wrote (next_fd w) ?d w1) (next_fd w) = (True, wrote (next_fd w) ?d w1)"
    using f1 by (intro sys_fsync_ok) (simp add: wrote_sel)
  define w3 where "w3 = sys_close (wrote (next_fd w) ?d w1) (next_fd w)"
  have "canon dirPath \<in> set (dirs w3)"
    using assms(2,4) d1 by (simp add: w3_def world_simps wrote_sel canon_good_dir)
  then obtain fdd w4 where "sys_open w3 dirPath = (Inr fdd, w4)" "faults w4 = []"
    using f1 by (simp add: sys_open_def next_fault_def w3_def world_simps wrote_sel fresh_fd_def Let_def)
  then show ?thesis
    using ne op wr sync assms(7,8)
    by (simp add: WriteDataToStore_def Let_def w3_def [symmetric] world_simps)
qed

section \<open>Properties\<close>

text \<open>
  C8. What was stashed under a hash is what is loaded under it: after a successful write of
  whole blocks, as long as nothing else touched the file, loading returns exactly the bytes
  written, whatever the target buffer held, changes no object, and cannot fail but by a
  failing call.
\<close>

theorem store_roundtrip:
  assumes "WriteDataToStore w dirPath fileName buffer sz = Some (0, w1)"
    and "good_dir dirPath" and "good_name fileName" and "sz mod 4096 = 0"
    and "stable S w1 w2" and "store_path dirPath fileName \<notin> S"
    and "store_path dirPath fileName \<notin> set (dirs w)"
  shows "(\<forall>old r new w3. LoadDataFromStore w2 dirPath fileName old = (r, new, w3) \<longrightarrow>
      stable {} w2 w3 \<and> (r = 0 \<longrightarrow> new = take (nat sz) buffer) \<and> (faults w2 = [] \<longrightarrow> r = 0))"
proof (intro allI impI)
  fix old r new w3
  assume load: "LoadDataFromStore w2 dirPath fileName old = (r, new, w3)"
  let ?p = "store_path dirPath fileName"
  have W: "stable {?p} w w1" "0 \<le> sz" "sz \<le> int (length buffer)"
    "obj w1 ?p = Some (take (nat sz) buffer)"
    using store_write_spec [OF assms(1-3)] by auto
  then have o2: "obj w2 ?p = Some (take (nat sz) buffer)" and "?p \<notin> set (dirs w2)"
    using assms(5-7) by (simp_all add: stable_def)
  note L = store_load_spec [OF load assms(2,3) \<open>?p \<notin> set (dirs w2)\<close>]
  have "length (take (nat sz) buffer) = nat sz" using W(2,3) by simp
  moreover have "nat sz mod H_BLOCK_SIZE = 0"
    using assms(4) W(2) by (metis nat_eq_iff2 nat_mod_distrib nat_numeral nat_zero_as_int zero_le_numeral)
  ultimately have "faults w2 = [] \<Longrightarrow> r = 0"
    using store_load_ok [OF _ assms(2,3) o2, of old] load by simp
  with L o2 show "stable {} w2 w3 \<and> (r = 0 \<longrightarrow> new = take (nat sz) buffer) \<and> (faults w2 = [] \<longrightarrow> r = 0)"
    by auto
qed

definition demo_store :: world where
  "demo_store = \<lparr>objs = [], dirs = ['''', ''/s''], is_dev = (\<lambda>_. False), fds = (\<lambda>_. None),
     next_fd = 3, faults = [], errno = EOK\<rparr>"

theorem store_roundtrip_witness:
  "\<exists>w1 new w3. WriteDataToStore demo_store ''/s'' ''h'' (replicate 4096 5) 4096 = Some (0, w1) \<and>
     LoadDataFromStore w1 ''/s'' ''h'' [] = (0, replicate 4096 5, w3)"
proof -
  have good: "good_dir ''/s''" "good_name ''h''" by (simp_all add: good_dir_def good_name_def)
  have side: "store_path ''/s'' ''h'' \<notin> set (dirs demo_store)"
    by (simp add: demo_store_def store_path_def)
  obtain w1 where w1: "WriteDataToStore demo_store ''/s'' ''h'' (replicate 4096 5) 4096 = Some (0, w1)"
    and f1: "faults w1 = []"
    using store_write_ok [of demo_store "''/s''" "''h''" 4096 "replicate 4096 5"] good side
    by (auto simp: demo_store_def)
  obtain r new w3 where load: "LoadDataFromStore w1 ''/s'' ''h'' [] = (r, new, w3)" by (metis prod_cases3)
  have all: "\<forall>old r new w3. LoadDataFromStore w1 ''/s'' ''h'' old = (r, new, w3) \<longrightarrow>
      stable {} w1 w3 \<and> (r = 0 \<longrightarrow> new = take (nat 4096) (replicate 4096 5)) \<and> (faults w1 = [] \<longrightarrow> r = 0)"
    by (rule store_roundtrip [OF w1 good _ stable_refl [of "{}"] _ side]) simp_all
  then have "r = 0" "r = 0 \<longrightarrow> new = take (nat 4096) (replicate 4096 5)" using load f1 by blast+
  then have "new = replicate 4096 5" by simp
  with \<open>r = 0\<close> w1 load show ?thesis by blast
qed

lemma sys_unlink_spec:
  assumes "sys_unlink w p = (b, w')"
  shows "if b then core w' = del_obj (canon p) (core w) \<and> obj w (canon p) \<noteq> None
    else core w' = core w \<and> (faults w = [] \<longrightarrow>
      (if canon p \<in> set (dirs w) then errno w' = EISDIR else obj w (canon p) = None \<and> errno w' = ENOENT))"
proof -
  have "errno (fail_with e v) = e" for e v by (simp add: fail_with_def)
  with assms show ?thesis
    by (auto simp: sys_unlink_def Let_def world_simps next_fault_def
        split: fault.splits if_splits list.splits)
qed

text \<open>
  Freeing a stash removes that file and nothing else; afterwards loading it reports a
  missing file.
\<close>

theorem store_free_load:
  assumes "FreeStore w dirPath fileName = (0, w1)" and "good_dir dirPath" and "good_name fileName"
    and "faults w = []" and "store_path dirPath fileName \<notin> set (dirs w)"
  shows "obj w1 (store_path dirPath fileName) = None \<and> stable {store_path dirPath fileName} w w1 \<and>
    fst (LoadDataFromStore w1 dirPath fileName old) = -2"
proof -
  let ?p = "store_path dirPath fileName"
  have ne: "fileName \<noteq> []" "dirPath \<noteq> []"
    using assms(2,3) by (auto simp: good_name_def good_dir_def)
  have canon: "canon ?p = ?p" using canon_path [OF assms(2,3)] by (simp add: store_path_def)
  obtain b v where ul: "sys_unlink w ?p = (b, v)" by (metis surj_pair)
  have v: "w1 = v" "faults v = []"
    using assms(1,4) ne ul by (auto simp: FreeStore_def DeleteFile_def store_path_def sys_unlink_def
        Let_def world_simps next_fault_def split: if_splits)
  have gone: "obj v ?p = None \<and> stable {?p} w v"
  proof (cases b)
    case True
    then have "core v = core (del_obj ?p w)"
      using sys_unlink_spec [OF ul] canon by (simp add: world_simps)
    from core_eqD [OF this] show ?thesis by (auto simp: stable_def world_simps)
  next
    case False
    then have "core v = core w" "obj w ?p = None"
      using sys_unlink_spec [OF ul] canon assms(4,5) by auto
    then show ?thesis using core_eqD(1) [of v w] stable_core by auto
  qed
  have "?p \<notin> set (dirs v)" using gone assms(5) by (simp add: stable_def)
  then have "isl (fst (sys_stat v ?p))"
    using gone canon by (simp add: sys_stat_def Let_def split: fault.splits)
  then obtain e x where "sys_stat v ?p = (Inl e, x)" by (cases "sys_stat v ?p") (auto simp: isl_def)
  then have "fst (LoadDataFromStore v dirPath fileName old) = -2"
    using ne by (simp add: LoadDataFromStore_def Let_def)
  with gone v show ?thesis by simp
qed

theorem store_free_load_witness:
  "\<exists>w1. FreeStore demo_store ''/s'' ''h'' = (0, w1) \<and> fst (LoadDataFromStore w1 ''/s'' ''h'' []) = -2"
proof -
  have "fst (FreeStore demo_store ''/s'' ''h'') = 0"
    by (simp add: FreeStore_def DeleteFile_def sys_unlink_def demo_store_def next_fault_def obj_def
        canon_def collapse_def fail_with_def Let_def)
  then obtain w1 where w1: "FreeStore demo_store ''/s'' ''h'' = (0, w1)" by (metis prod.collapse)
  moreover have "good_dir ''/s''" "good_name ''h''" by (simp_all add: good_dir_def good_name_def)
  ultimately show ?thesis
    using store_free_load [OF w1] by (auto simp: demo_store_def store_path_def)
qed

section \<open>Clearing the store\<close>

text \<open>Names as a file system keeps them: canonical, and no file is a directory too.\<close>

definition names_ok :: "world \<Rightarrow> bool" where
  "names_ok w \<longleftrightarrow> (\<forall>p. obj w p \<noteq> None \<longrightarrow> canon p = p \<and> p \<notin> set (dirs w) \<and>
     base_name p \<noteq> ''.'' \<and> base_name p \<noteq> ''..'')"

lemma delete_files_spec:
  assumes "faults w = []" and "\<forall>f\<in>set fs. f \<noteq> []"
  shows "stable (canon ` set fs) w (delete_files fs w) \<and> faults (delete_files fs w) = [] \<and>
    (\<forall>f\<in>set fs. canon f \<notin> set (dirs w) \<longrightarrow> obj (delete_files fs w) (canon f) = None) \<and>
    (\<forall>p. obj w p = None \<longrightarrow> obj (delete_files fs w) p = None)"
  using assms
proof (induction fs arbitrary: w)
  case (Cons f fs)
  obtain b v where ul: "sys_unlink w f = (b, v)" by (metis surj_pair)
  have v: "snd (DeleteFile w f) = v" using ul Cons.prems(2) by (simp add: DeleteFile_def)
  have fv: "faults v = []"
    using ul Cons.prems(1) by (auto simp: sys_unlink_def Let_def world_simps split: fault.splits if_splits)
  have step: "stable {canon f} w v" "canon f \<notin> set (dirs w) \<longrightarrow> obj v (canon f) = None"
    "\<forall>p. obj w p = None \<longrightarrow> obj v p = None"
  proof -
    have "core v = core (if b then del_obj (canon f) w else w)"
      using sys_unlink_spec [OF ul] by (auto simp: world_simps split: if_splits)
    note e = core_eqD [OF this]
    show "stable {canon f} w v" using e by (auto simp: stable_def world_simps split: if_splits)
    show "\<forall>p. obj w p = None \<longrightarrow> obj v p = None" using e(1) by (auto simp: world_simps)
    show "canon f \<notin> set (dirs w) \<longrightarrow> obj v (canon f) = None"
      using e(1) sys_unlink_spec [OF ul] Cons.prems(1) by (auto simp: world_simps split: if_splits)
  qed
  have "\<forall>f\<in>set fs. f \<noteq> []" using Cons.prems(2) by simp
  from Cons.IH [OF fv this]
  have IH: "stable (canon ` set fs) v (delete_files fs v)" "faults (delete_files fs v) = []"
    "\<forall>f\<in>set fs. canon f \<notin> set (dirs v) \<longrightarrow> obj (delete_files fs v) (canon f) = None"
    "\<forall>p. obj v p = None \<longrightarrow> obj (delete_files fs v) p = None"
    by auto
  have "stable (canon ` set (f # fs)) w (delete_files fs v)"
    using stable_trans [OF stable_mono [OF step(1)] stable_mono [OF IH(1)]] by auto
  moreover have "dirs v = dirs w" using step(1) by (simp add: stable_def)
  ultimately show ?case
    using IH step v by (auto simp del: delete_files.simps simp add: delete_files.simps(2))
qed simp

lemma path_split:
  assumes "parent_dir p = d" and "d \<noteq> []"
  shows "p = d @ CHR ''/'' # base_name p \<and> CHR ''/'' \<notin> set (base_name p)"
proof -
  have split: "rev p = takeWhile (\<lambda>c. c \<noteq> CHR ''/'') (rev p) @ dropWhile (\<lambda>c. c \<noteq> CHR ''/'') (rev p)"
    by simp
  have ne: "dropWhile (\<lambda>c. c \<noteq> CHR ''/'') (rev p) \<noteq> []"
  proof
    assume "dropWhile (\<lambda>c. c \<noteq> CHR ''/'') (rev p) = []"
    then have "parent_dir p = []" unfolding parent_dir_def by (simp only: list.sel rev.simps)
    with assms show False by simp
  qed
  then have hd: "hd (dropWhile (\<lambda>c. c \<noteq> CHR ''/'') (rev p)) = CHR ''/''"
    using hd_dropWhile by blast
  then have "dropWhile (\<lambda>c. c \<noteq> CHR ''/'') (rev p) = CHR ''/'' # rev d"
    using ne assms(1) by (cases "dropWhile (\<lambda>c. c \<noteq> CHR ''/'') (rev p)") (auto simp: parent_dir_def)
  then have "rev p = takeWhile (\<lambda>c. c \<noteq> CHR ''/'') (rev p) @ CHR ''/'' # rev d" using split by metis
  then have "p = d @ CHR ''/'' # rev (takeWhile (\<lambda>c. c \<noteq> CHR ''/'') (rev p))"
    by (metis append.assoc append_Cons append_Nil rev.simps(2) rev_append rev_rev_ident)
  moreover have "CHR ''/'' \<notin> set (takeWhile (\<lambda>c. c \<noteq> CHR ''/'') (rev p))"
    by (auto dest: set_takeWhileD)
  ultimately show ?thesis by (simp add: base_name_def)
qed

lemma errno_chain: "x = v\<lparr>errno := a\<rparr> \<Longrightarrow> v = w\<lparr>errno := b\<rparr> \<Longrightarrow> x = (w :: world)\<lparr>errno := a\<rparr>"
  by simp

lemma dir_entries_spec:
  assumes "faults w = []"
  shows "snd (dir_entries path ns w) = w\<lparr>errno := errno (snd (dir_entries path ns w))\<rparr> \<and>
    set (fst (dir_entries path ns w)) =
      {path @ ''/'' @ n |n. n \<in> set ns \<and> n \<noteq> ''.'' \<and> n \<noteq> ''..'' \<and>
        (obj w (canon (path @ ''/'' @ n)) \<noteq> None \<or> canon (path @ ''/'' @ n) \<in> set (dirs w))}"
  using assms
proof (induction path ns w rule: dir_entries.induct)
  case (2 path n ns w)
  let ?f = "path @ ''/'' @ n"
  have st: "sys_stat w ?f = (x, v) \<Longrightarrow> v = w\<lparr>errno := errno v\<rparr> \<and> faults v = [] \<and> obj v = obj w \<and>
      dirs v = dirs w \<and>
      (isl x \<longleftrightarrow> obj w (canon ?f) = None \<and> canon ?f \<notin> set (dirs w))" for x v
    using "2.prems" by (auto simp: sys_stat_def next_fault_def Let_def pop_fault_def fail_with_def
        obj_def fun_eq_iff split: option.splits if_splits)
  obtain x v where xv: "sys_stat w ?f = (x, v)" by (metis surj_pair)
  note S = st [OF xv]
  have IH: "snd (dir_entries path ns v) = v\<lparr>errno := errno (snd (dir_entries path ns v))\<rparr> \<and>
    set (fst (dir_entries path ns v)) =
      {path @ ''/'' @ n |n. n \<in> set ns \<and> n \<noteq> ''.'' \<and> n \<noteq> ''..'' \<and>
        (obj v (canon (path @ ''/'' @ n)) \<noteq> None \<or> canon (path @ ''/'' @ n) \<in> set (dirs v))}"
  proof (cases x)
    case (Inl e)
    then show ?thesis using "2.IH"(1) [OF refl xv [symmetric]] S by simp
  next
    case (Inr k)
    show ?thesis
    proof (cases "n = ''.'' \<or> n = ''..''")
      case True
      then show ?thesis using "2.IH"(2) [OF refl xv [symmetric] Inr] S by simp
    next
      case False
      then show ?thesis using "2.IH"(3) [OF refl xv [symmetric] Inr] S by simp
    qed
  qed
  have "sys_stat w ?f = (x, v) \<Longrightarrow> dir_entries path (n # ns) w =
      (if isl x \<or> n = ''.'' \<or> n = ''..'' then dir_entries path ns v
       else (?f # fst (dir_entries path ns v), snd (dir_entries path ns v)))"
    by (cases x) (auto simp: Let_def split: prod.splits)
  note unf = this [OF xv]
  have snd: "snd (dir_entries path (n # ns) w) = snd (dir_entries path ns v)"
    unfolding unf by simp
  have "snd (dir_entries path (n # ns) w) = w\<lparr>errno := errno (snd (dir_entries path (n # ns) w))\<rparr>"
    unfolding snd by (rule errno_chain [OF conjunct1 [OF IH] conjunct1 [OF S]])
  moreover have "set (fst (dir_entries path (n # ns) w)) =
      {path @ ''/'' @ m |m. m \<in> set (n # ns) \<and> m \<noteq> ''.'' \<and> m \<noteq> ''..'' \<and>
        (obj w (canon (path @ ''/'' @ m)) \<noteq> None \<or> canon (path @ ''/'' @ m) \<in> set (dirs w))}"
    unfolding unf using conjunct2 [OF IH] conjunct2 [OF S] by auto
  ultimately show ?case by (rule conjI)
qed simp

lemma snd_errno: "x = (w :: world)\<lparr>errno := a\<rparr> \<Longrightarrow>
    faults x = faults w \<and> obj x = obj w \<and> dirs x = dirs w \<and> core x = core w"
  by (simp add: obj_def fun_eq_iff core_def)

text \<open>
  Preparing the store of a fresh update: if the directory exists and no call fails,
  \<open>CreateNewSpace (path, true)\<close> succeeds, removes every file in the directory, and touches no
  file outside it.
\<close>

theorem store_clear_spec:
  assumes "faults w = []" and "names_ok w" and "good_dir d" and "d \<in> set (dirs w)" and "obj w d = None"
  shows "\<exists>w'. CreateNewSpace w d True = (0, w') \<and>
    (\<forall>p. obj w' p = (if parent_dir p = d then None else obj w p)) \<and> dirs w' = dirs w"
proof -
  let ?D = "d @ ''/''"
  have canon: "canon ?D = d" using assms(3) by (rule canon_dir_slash)
  have [simp]: "pop_fault w = w" using assms(1) by (simp add: pop_fault_def)
  have st: "sys_stat w ?D = (Inr None, w)"
    using assms by (simp add: sys_stat_def next_fault_def canon Let_def)
  define w2 where "w2 = snd (fresh_fd d w)"
  have op: "sys_open w ?D = (Inr (next_fd w), w2)"
    using assms by (simp add: sys_open_def next_fault_def canon Let_def fresh_fd_def w2_def)
  have w2: "faults w2 = []" "obj w2 = obj w" "dirs w2 = dirs w" "objs w2 = objs w"
    using assms(1) by (simp_all add: w2_def fresh_fd_def world_simps) (simp add: set_fd_def)
  define ns where "ns = readdir_names w2 ?D"
  obtain files w3 where de: "dir_entries ?D ns w2 = (files, w3)" by (metis surj_pair)
  note D = dir_entries_spec [OF w2(1), of ?D ns, unfolded de fst_conv snd_conv]
  note W3 = snd_errno [OF conjunct1 [OF D]]
  define w4 where "w4 = sys_close w3 (next_fd w)"
  have w4: "faults w4 = []" "obj w4 = obj w" "dirs w4 = dirs w"
    using W3 w2 by (simp_all add: w4_def world_simps)
  have run: "CreateNewSpace w d True = (0, delete_files files w4)"
    using st op de assms(4) w2(3) canon
    by (simp add: CreateNewSpace_def GetFilesFromDirectory_def ns_def w4_def Let_def)
  have ne: "\<forall>f\<in>set files. f \<noteq> []" using conjunct2 [OF D] by auto
  note F = delete_files_spec [OF w4(1) ne]
  have dne: "d \<noteq> []" using assms(3) by (simp add: good_dir_def)
  have below: "obj (delete_files files w4) p = None" if "parent_dir p = d" for p
  proof (cases "obj w p = None")
    case True
    then show ?thesis using F w4(2) by simp
  next
    case False
    note P = path_split [OF that dne]
    have bn: "base_name p \<noteq> ''.''" "base_name p \<noteq> ''..''" and pc: "canon p = p" "p \<notin> set (dirs w)"
      using assms(2) False by (auto simp: names_ok_def)
    have "base_name p \<noteq> []"
    proof
      assume "base_name p = []"
      then have "p = ?D" using P by simp
      then show False using pc(1) canon by simp
    qed
    then have "good_name (base_name p)" using P by (simp add: good_name_def)
    then have cp: "canon (?D @ ''/'' @ base_name p) = p"
      using canon_path_double [OF assms(3)] P by simp
    obtain c where "map_of (objs w2) p = Some c" using False w2(4) by (auto simp: obj_def)
    then have "p \<in> set (List.map fst (objs w2))" by (force dest: map_of_SomeD)
    moreover have "p \<noteq> d" using False assms(5) by auto
    ultimately have "base_name p \<in> set ns"
      using that canon by (auto simp: ns_def readdir_names_def)
    then have "?D @ ''/'' @ base_name p \<in> set files"
      using conjunct2 [OF D] bn cp False w2(2) by auto
    then show ?thesis using F cp pc(2) w4(3) by metis
  qed
  have other: "obj (delete_files files w4) p = obj w p" if "parent_dir p \<noteq> d" for p
  proof (cases "obj w p = None")
    case True
    then show ?thesis using F w4(2) by simp
  next
    case False
    have "p \<notin> canon ` set files"
    proof
      assume "p \<in> canon ` set files"
      then obtain n where n: "n \<in> set ns" "p = canon (?D @ ''/'' @ n)" "n \<noteq> ''.''" "n \<noteq> ''..''"
        using conjunct2 [OF D] by auto
      then have "CHR ''/'' \<notin> set n"
        using set_takeWhileD by (fastforce simp: ns_def readdir_names_def base_name_def)
      show False
      proof (cases "n = []")
        case True
        have "canon (?D @ ''/'') = d"
        proof -
          have "collapse (?D @ ''/'') = collapse ?D" by (simp add: collapse_def)
          then show ?thesis using canon by (simp add: canon_def)
        qed
        then show False using n(2) True False assms(5) by simp
      next
        case ne: False
        then have "p = d @ CHR ''/'' # n"
          using canon_path_double [OF assms(3), of n] n(2) \<open>CHR ''/'' \<notin> set n\<close> by (simp add: good_name_def)
        then show False using that parent_dir_path [OF \<open>CHR ''/'' \<notin> set n\<close>] by simp
      qed
    qed
    then show ?thesis using F w4(2) by (simp add: stable_def)
  qed
  have "dirs (delete_files files w4) = dirs w" using F w4(3) by (simp add: stable_def)
  with run below other show ?thesis by auto
qed

theorem store_clear_spec_witness:
  "\<exists>w'. CreateNewSpace (demo_store\<lparr>objs := [(''/s/h'', [1]), (''/t'', [2])]\<rparr>) ''/s'' True = (0, w') \<and>
     obj w' ''/s/h'' = None \<and> obj w' ''/t'' = Some [2]"
proof -
  let ?w = "demo_store\<lparr>objs := [(''/s/h'', [1]), (''/t'', [2])]\<rparr>"
  have "names_ok ?w"
    by (simp add: names_ok_def obj_def demo_store_def canon_def collapse_def base_name_def)
  moreover have "good_dir ''/s''" by (simp add: good_dir_def)
  ultimately obtain w' where "CreateNewSpace ?w ''/s'' True = (0, w')"
    and o: "\<forall>p. obj w' p = (if parent_dir p = ''/s'' then None else obj ?w p)"
    using store_clear_spec [of ?w "''/s''"] by (auto simp: demo_store_def obj_def)
  moreover have "parent_dir ''/s/h'' = ''/s''" "parent_dir ''/t'' = ''''" by (simp_all add: parent_dir_def)
  ultimately show ?thesis by (simp add: obj_def)
qed

end
