(* ===== verification/Bs_Codec.thy ===== *)
theory Bs_Codec
  imports Prelude
begin

text \<open>
  The number format of the binary patches (\<open>WriteLE64\<close> of \<open>diffpatch/diff/blocks_diff.cpp\<close>,
  \<open>ReadLE64\<close> of \<open>diffpatch/patch/blocks_patch.cpp\<close>): eight little-endian bytes of the absolute
  value, the sign in the top bit of the last one.
\<close>

text \<open>Checked reads: None outside the buffer.\<close>

definition rd :: "bytes \<Rightarrow> int \<Rightarrow> u8 option" where
  "rd b i = (if 0 \<le> i \<and> i < int (length b) then Some (b ! nat i) else None)"

lemma rd_Some [simp]: "0 \<le> i \<Longrightarrow> i < int (length b) \<Longrightarrow> rd b i = Some (b ! nat i)"
  by (simp add: rd_def)

fun le_bytes :: "nat \<Rightarrow> nat \<Rightarrow> bytes" where
  "le_bytes 0 y = []"
| "le_bytes (Suc n) y = (let b = y mod 256 in of_nat b # le_bytes n ((y - b) div 256))"

definition WriteLE64 :: "int \<Rightarrow> bytes" where
  "WriteLE64 value =
     (let bs = le_bytes 8 (nat \<bar>value\<bar>) in if value < 0 then bs[7 := bs ! 7 OR 0x80] else bs)"

fun le_value :: "bytes \<Rightarrow> nat" where
  "le_value [] = 0"
| "le_value (b # bs) = le_value bs * 256 + unat b"

definition ReadLE64 :: "bytes \<Rightarrow> int" where
  "ReadLE64 buffer =
     (let y = int (le_value (take 7 buffer @ [buffer ! 7 AND 0x7f]))
      in if buffer ! 7 AND 0x80 \<noteq> 0 then - y else y)"

definition BSDIFF_MAGIC :: bytes where
  "BSDIFF_MAGIC = [0x42, 0x53, 0x44, 0x49, 0x46, 0x46, 0x34, 0x30]"

lemma length_le_bytes [simp]: "length (le_bytes n y) = n"
  by (induction n y rule: le_bytes.induct) (simp_all add: Let_def)

lemma length_WriteLE64 [simp]: "length (WriteLE64 v) = 8"
  by (simp add: WriteLE64_def Let_def)

lemma le_value_bytes: "y < 256 ^ n \<Longrightarrow> le_value (le_bytes n y) = y"
proof (induction n y rule: le_bytes.induct)
  case (2 n y)
  have "(y - y mod 256) div 256 = y div 256" by (simp add: minus_mod_eq_mult_div)
  moreover have "y div 256 < 256 ^ n" using 2(2) by (simp add: less_mult_imp_div_less mult.commute)
  moreover have "unat (of_nat (y mod 256) :: u8) = y mod 256" by (simp add: unat_of_nat)
  ultimately show ?case using 2(1) [OF refl] by (simp add: Let_def)
qed simp

lemma le_bytes_split: "le_bytes (m + n) y = le_bytes m y @ le_bytes n (y div 256 ^ m)"
proof (induction m arbitrary: y)
  case (Suc m)
  have "(y - y mod 256) div 256 = y div 256" by (simp add: minus_mod_eq_mult_div)
  with Suc show ?case by (simp add: Let_def div_mult2_eq)
qed simp

lemma le_bytes_8: "le_bytes 8 y = le_bytes 7 y @ [of_nat (y div 256 ^ 7 mod 256)]"
  using le_bytes_split [of 7 1 y] by (simp add: Let_def)

lemma sign_byte:
  assumes "b < (0x80 :: u8)"
  shows "b AND 0x80 = 0" "b AND 0x7f = b" "(b OR 0x80) AND 0x80 = 0x80" "(b OR 0x80) AND 0x7f = b"
proof -
  have small: "unat b < 2 ^ 7" using assms by (simp add: word_less_nat_alt)
  then have eq: "b = take_bit 7 b"
  proof (intro unsigned_word_eqI [where 'a = nat])
    show "unat b = unat (take_bit 7 b)"
      using small by (simp add: unsigned_take_bit_eq take_bit_nat_eq_self)
  qed
  have "bit b n = bit (take_bit 7 b) n" for n
    using eq by (rule arg_cong [where f = "\<lambda>x. bit x n"])
  then have bits: "bit b n \<Longrightarrow> n < 7" for n
    unfolding bit_take_bit_iff by blast
  have m7: "(0x7f :: u8) = mask 7" and m80: "(0x80 :: u8) = 2 ^ 7" by (simp_all add: mask_eq_exp_minus_1)
  have b80: "bit (0x80 :: u8) n \<longleftrightarrow> n = 7" for n
    by (subst m80) (auto simp only: bit_exp_iff possible_bit_word simp_thms, simp)
  have b7f: "bit (0x7f :: u8) n \<longleftrightarrow> n < 7" for n
    by (subst m7) (auto simp: bit_mask_iff)
  show "b AND 0x80 = 0"
  proof (rule bit_word_eqI)
    fix n show "bit (b AND 0x80) n = bit (0 :: u8) n"
      unfolding bit_and_iff b80 using bits [of n] by auto
  qed
  show "b AND 0x7f = b"
  proof (rule bit_word_eqI)
    fix n show "bit (b AND 0x7f) n = bit b n"
      unfolding bit_and_iff b7f using bits [of n] by auto
  qed
  show "(b OR 0x80) AND 0x80 = 0x80"
  proof (rule bit_word_eqI)
    fix n show "bit ((b OR 0x80) AND 0x80) n = bit (0x80 :: u8) n"
      unfolding bit_and_iff bit_or_iff by auto
  qed
  show "(b OR 0x80) AND 0x7f = b"
  proof (rule bit_word_eqI)
    fix n show "bit ((b OR 0x80) AND 0x7f) n = bit b n"
      unfolding bit_and_iff bit_or_iff b80 b7f using bits [of n] by auto
  qed
qed

lemma ReadLE64_WriteLE64:
  assumes "\<bar>v\<bar> < 2 ^ 63"
  shows "ReadLE64 (WriteLE64 v @ rest) = v"
proof -
  define y where "y = nat \<bar>v\<bar>"
  define t where "t = (of_nat (y div 256 ^ 7 mod 256) :: u8)"
  have y: "y < 2 ^ 63" using assms by (simp add: y_def nat_less_iff)
  then have q: "y div 256 ^ 7 < 128" by simp
  then have ut: "unat t = y div 256 ^ 7" by (simp add: t_def unat_of_nat)
  then have t: "t < 0x80" using q by (simp add: word_less_nat_alt)
  have bs: "le_bytes 8 y = le_bytes 7 y @ [t]" by (simp add: le_bytes_8 t_def)
  have val: "le_value (le_bytes 7 y @ [t]) = y"
    using le_value_bytes [of y 8] y by (simp add: bs)
  have abs: "le_bytes 8 (nat \<bar>v\<bar>) = le_bytes 7 y @ [t]" using bs by (simp only: y_def)
  show ?thesis
  proof (cases "v < 0")
    case True
    then have "WriteLE64 v = le_bytes 7 y @ [t OR 0x80]"
      unfolding WriteLE64_def Let_def abs by (simp add: list_update_append nth_append)
    then show ?thesis
      using sign_byte [OF t] val True by (simp add: ReadLE64_def nth_append y_def)
  next
    case False
    then have "WriteLE64 v = le_bytes 7 y @ [t]"
      unfolding WriteLE64_def Let_def abs by simp
    then show ?thesis
      using sign_byte [OF t] val False by (simp add: ReadLE64_def nth_append y_def)
  qed
qed

end
