(* ===== verification/Bs_Diff.thy ===== *)
theory Bs_Diff
  imports Bs_Codec
begin

text \<open>
  \<open>services/diffpatch/diff/blocks_diff.cpp\<close>: producing a binary patch. The suffix array is a
  list of positions; the search in it, the scoring of a candidate match, the extension of a
  match to both sides and the resolution of their overlap are the code's loops on signed
  offsets. None is a read outside the old or new data. \<open>compress\<close> is the bzip2 library.
\<close>

section \<open>The search\<close>

fun match_length :: "bytes \<Rightarrow> bytes \<Rightarrow> int" where
  "match_length (a # as) (b # bs) = (if a \<noteq> b then 0 else 1 + match_length as bs)"
| "match_length _ _ = 0"

text \<open>\<open>memcmp (a, b, n) < 0\<close> on the first \<open>n\<close> bytes.\<close>

fun memcmp_less :: "bytes \<Rightarrow> bytes \<Rightarrow> nat \<Rightarrow> bool" where
  "memcmp_less (a # as) (b # bs) (Suc n) = (if a = b then memcmp_less as bs n else a < b)"
| "memcmp_less _ _ _ = False"

text \<open>The suffix of \<open>old\<close> named by entry \<open>i\<close> of the suffix array.\<close>

definition sa_suffix :: "int list \<Rightarrow> bytes \<Rightarrow> int \<Rightarrow> bytes option" where
  "sa_suffix sa old i =
     (if 0 \<le> i \<and> i < int (length sa) \<and> 0 \<le> sa ! nat i \<and> sa ! nat i \<le> int (length old)
      then Some (drop (nat (sa ! nat i)) old) else None)"

function Search :: "int list \<Rightarrow> bytes \<Rightarrow> bytes \<Rightarrow> int \<Rightarrow> int \<Rightarrow> (int \<times> int) option" where
  "Search sa old new start end =
     (if end - start < 2 then
        (case (sa_suffix sa old start, sa_suffix sa old end) of
           (Some s, Some e) \<Rightarrow>
             (let x = match_length s new; y = match_length e new
              in if y < x then Some (x, sa ! nat start) else Some (y, sa ! nat end))
         | _ \<Rightarrow> None)
      else let x = start + (end - start) div 2 in
        (case sa_suffix sa old x of
           None \<Rightarrow> None
         | Some s \<Rightarrow>
             if memcmp_less s new (min (length s) (length new)) then Search sa old new x end
             else Search sa old new start x))"
  by pat_completeness auto
termination
  by (relation "measure (\<lambda>(sa, old, new, start, end). nat (end - start))") auto

declare Search.simps [simp del]

section \<open>The state of a diff\<close>

record diff_state =
  matchPos :: int
  currentOffset :: int
  lastOffset :: int
  lastScan :: int
  lastPos :: int

record control_data =
  diffLength :: int
  extraLength :: int
  offsetIncrement :: int
  diffNewStart :: int
  diffOldStart :: int
  extraNewStart :: int

abbreviation (input) BLOCK_SCORE :: int where
  "BLOCK_SCORE \<equiv> 8"

function score_loop :: "bytes \<Rightarrow> bytes \<Rightarrow> int \<Rightarrow> int \<Rightarrow> int \<Rightarrow> int \<Rightarrow> int option" where
  "score_loop new old lastOff beg lim score =
     (if beg < lim then
        (if beg + lastOff < int (length old) then
           (case (rd old (beg + lastOff), rd new beg) of
              (Some a, Some b) \<Rightarrow>
                score_loop new old lastOff (beg + 1) lim (if a = b then score + 1 else score)
            | _ \<Rightarrow> None)
         else score_loop new old lastOff (beg + 1) lim score)
      else Some score)"
  by pat_completeness auto
termination
  by (relation "measure (\<lambda>(new, old, lastOff, beg, lim, score). nat (lim - beg))") auto

declare score_loop.simps [simp del]

text \<open>The loop of \<open>ComputeOldScore\<close>; the result is the offset, the score, the match and its place.\<close>

function old_score_loop ::
    "int list \<Rightarrow> bytes \<Rightarrow> bytes \<Rightarrow> int \<Rightarrow> int \<Rightarrow> int \<Rightarrow> int \<Rightarrow> int \<Rightarrow> int \<Rightarrow> (int \<times> int \<times> int \<times> int) option" where
  "old_score_loop sa new old lastOff cur beg score mlen mpos =
     (if cur < int (length new) then
        (case Search sa old (drop (nat cur) new) 0 (int (length old)) of
           None \<Rightarrow> None
         | Some (mlen', mpos') \<Rightarrow>
             (case score_loop new old lastOff beg (cur + mlen') score of
                None \<Rightarrow> None
              | Some score' \<Rightarrow>
                  if mlen' = score' \<and> mlen' \<noteq> 0 \<or> score' + BLOCK_SCORE < mlen'
                  then Some (cur, score', mlen', mpos')
                  else if cur + lastOff < int (length old) then
                    (case (rd old (cur + lastOff), rd new cur) of
                       (Some a, Some b) \<Rightarrow>
                         old_score_loop sa new old lastOff (cur + 1) (max beg (cur + mlen'))
                           (if a = b then score' - 1 else score') mlen' mpos'
                     | _ \<Rightarrow> None)
                  else old_score_loop sa new old lastOff (cur + 1) (max beg (cur + mlen')) score' mlen' mpos'))
      else Some (cur, score, mlen, mpos))"
  by pat_completeness auto
termination
  by (relation "measure (\<lambda>(sa, new, old, lastOff, cur, beg, score, mlen, mpos). nat (int (length new) - cur))")
    auto

declare old_score_loop.simps [simp del]

definition ComputeOldScore ::
    "int list \<Rightarrow> bytes \<Rightarrow> bytes \<Rightarrow> diff_state \<Rightarrow> int \<Rightarrow> (int \<times> int \<times> diff_state) option" where
  "ComputeOldScore sa new old st matchLen =
     (let cur = currentOffset st + matchLen in
      case old_score_loop sa new old (lastOffset st) cur cur 0 matchLen (matchPos st) of
        None \<Rightarrow> None
      | Some (cur', score, mlen, mpos) \<Rightarrow>
          Some (score, mlen, st\<lparr>currentOffset := cur', matchPos := mpos\<rparr>))"

section \<open>Extending a match\<close>

text \<open>The three loops of \<open>ComputeLength\<close>.\<close>

function front_loop :: "bytes \<Rightarrow> bytes \<Rightarrow> diff_state \<Rightarrow> int \<Rightarrow> int \<Rightarrow> int \<Rightarrow> int \<Rightarrow> int option" where
  "front_loop new old st i s tmp len =
     (if lastScan st + i < currentOffset st \<and> lastPos st + i < int (length old) then
        (case (rd old (lastPos st + i), rd new (lastScan st + i)) of
           (Some a, Some b) \<Rightarrow>
             (let s' = (if a = b then s + 1 else s); i' = i + 1
              in if tmp * 2 - len < s' * 2 - i' then front_loop new old st i' s' s' i'
                 else front_loop new old st i' s' tmp len)
         | _ \<Rightarrow> None)
      else Some len)"
  by pat_completeness auto
termination
  by (relation "measure (\<lambda>(new, old, st, i, s, tmp, len). nat (currentOffset st - lastScan st - i))") auto

declare front_loop.simps [simp del]

function back_loop :: "bytes \<Rightarrow> bytes \<Rightarrow> diff_state \<Rightarrow> int \<Rightarrow> int \<Rightarrow> int \<Rightarrow> int \<Rightarrow> int option" where
  "back_loop new old st i s tmp len =
     (if lastScan st + i \<le> currentOffset st \<and> i \<le> matchPos st then
        (case (rd old (matchPos st - i), rd new (currentOffset st - i)) of
           (Some a, Some b) \<Rightarrow>
             (let s' = (if a = b then s + 1 else s)
              in if tmp * 2 - len < s' * 2 - i then back_loop new old st (i + 1) s' s' i
                 else back_loop new old st (i + 1) s' tmp len)
         | _ \<Rightarrow> None)
      else Some len)"
  by pat_completeness auto
termination
  by (relation "measure (\<lambda>(new, old, st, i, s, tmp, len). nat (currentOffset st - lastScan st + 1 - i))")
    auto

declare back_loop.simps [simp del]

function overlap_loop ::
    "bytes \<Rightarrow> bytes \<Rightarrow> diff_state \<Rightarrow> int \<Rightarrow> int \<Rightarrow> int \<Rightarrow> int \<Rightarrow> int \<Rightarrow> int \<Rightarrow> int \<Rightarrow> int option" where
  "overlap_loop new old st lengthFront lengthBack overlap i s tmp lens =
     (if i < overlap then
        (case (rd new (lastScan st + lengthFront - overlap + i), rd old (lastPos st + lengthFront - overlap + i),
               rd new (currentOffset st - lengthBack + i), rd old (matchPos st - lengthBack + i)) of
           (Some a, Some b, Some c, Some d) \<Rightarrow>
             (let s1 = (if a = b then s + 1 else s); s2 = (if c = d then s1 - 1 else s1)
              in if tmp < s2 then overlap_loop new old st lengthFront lengthBack overlap (i + 1) s2 s2 (i + 1)
                 else overlap_loop new old st lengthFront lengthBack overlap (i + 1) s2 tmp lens)
         | _ \<Rightarrow> None)
      else Some lens)"
  by pat_completeness auto
termination
  by (relation "measure (\<lambda>(new, old, st, lf, lb, overlap, i, s, tmp, lens). nat (overlap - i))") auto

declare overlap_loop.simps [simp del]

definition ComputeLength :: "bytes \<Rightarrow> bytes \<Rightarrow> diff_state \<Rightarrow> (int \<times> int) option" where
  "ComputeLength new old st =
     (case front_loop new old st 0 0 0 0 of
        None \<Rightarrow> None
      | Some lengthFront \<Rightarrow>
          (case (if currentOffset st < int (length new) then back_loop new old st 1 0 0 0 else Some 0) of
             None \<Rightarrow> None
           | Some lengthBack \<Rightarrow>
               if currentOffset st - lengthBack < lastScan st + lengthFront
               then (let overlap = (lastScan st + lengthFront) - (currentOffset st - lengthBack) in
                     case overlap_loop new old st lengthFront lengthBack overlap 0 0 0 0 of
                       None \<Rightarrow> None
                     | Some lens \<Rightarrow> Some (lengthFront + (lens - overlap), lengthBack - lens))
               else Some (lengthFront, lengthBack)))"

section \<open>Bounds of the search and progress of the scan\<close>

lemma match_length_bounds:
  "0 \<le> match_length a b \<and> match_length a b \<le> int (length a) \<and> match_length a b \<le> int (length b)"
  by (induction a b rule: match_length.induct) auto

lemma match_length_matches: "take (nat (match_length a b)) a = take (nat (match_length a b)) b"
proof (induction a b rule: match_length.induct)
  case (1 a as b bs)
  have "nat (1 + match_length as bs) = Suc (nat (match_length as bs))"
    using match_length_bounds [of as bs] by (simp add: nat_add_distrib)
  with 1 show ?case by simp
qed simp_all

lemma sa_suffix_Some:
  "sa_suffix sa old i = Some s \<Longrightarrow>
   0 \<le> sa ! nat i \<and> sa ! nat i \<le> int (length old) \<and> s = drop (nat (sa ! nat i)) old"
  by (auto simp: sa_suffix_def split: if_splits)

text \<open>Every answer of the search is a real match inside both buffers.\<close>

lemma take_drop_match:
  assumes "sa_suffix sa old i = Some s" "len = match_length s new" "pos = sa ! nat i"
  shows "0 \<le> len \<and> len \<le> int (length new) \<and> 0 \<le> pos \<and> pos + len \<le> int (length old) \<and>
    take (nat len) (drop (nat pos) old) = take (nat len) new"
  using sa_suffix_Some [OF assms(1)] match_length_bounds [of s new] match_length_matches [of s new]
    assms(2, 3)
  by (simp add: of_nat_diff nat_le_iff)

lemma Search_sound:
  "Search sa old new start end = Some (len, pos) \<Longrightarrow>
   0 \<le> len \<and> len \<le> int (length new) \<and> 0 \<le> pos \<and> pos + len \<le> int (length old) \<and>
   take (nat len) (drop (nat pos) old) = take (nat len) new"
proof (induction sa old new start "end" rule: Search.induct)
  case (1 sa old new start "end")
  show ?case
  proof (cases "end - start < 2")
    case True
    then obtain s e where se: "sa_suffix sa old start = Some s" "sa_suffix sa old end = Some e"
      using "1.prems" by (auto simp: Search.simps [of sa] split: option.splits)
    show ?thesis
    proof (cases "match_length e new < match_length s new")
      case less: True
      with "1.prems" True se have "len = match_length s new" "pos = sa ! nat start"
        by (simp_all add: Search.simps [of sa] Let_def)
      then show ?thesis by (rule take_drop_match [OF se(1)])
    next
      case False
      with "1.prems" True se have "len = match_length e new" "pos = sa ! nat end"
        by (simp_all add: Search.simps [of sa] Let_def)
      then show ?thesis by (rule take_drop_match [OF se(2)])
    qed
  next
    case False
    define x where "x = start + (end - start) div 2"
    obtain s where s: "sa_suffix sa old x = Some s"
      using "1.prems" False by (auto simp: Search.simps [of sa] x_def Let_def split: option.splits)
    have step: "Search sa old new start end =
        (if memcmp_less s new (min (length s) (length new)) then Search sa old new x end
         else Search sa old new start x)"
      using False s by (subst Search.simps) (simp add: Let_def flip: x_def)
    show ?thesis
    proof (cases "memcmp_less s new (min (length s) (length new))")
      case True
      then show ?thesis using "1.IH"(1) [OF False x_def s True] "1.prems" step by simp
    next
      case F: False
      then show ?thesis using "1.IH"(2) [OF False x_def s F] "1.prems" step by simp
    qed
  qed
qed

definition sa_ok :: "int list \<Rightarrow> bytes \<Rightarrow> bool" where
  "sa_ok sa old \<longleftrightarrow> length sa = length old + 1 \<and> list_all (\<lambda>i. 0 \<le> i \<and> i \<le> int (length old)) sa"

lemma sa_suffix_defined:
  "sa_ok sa old \<Longrightarrow> 0 \<le> i \<Longrightarrow> i \<le> int (length old) \<Longrightarrow> \<exists>s. sa_suffix sa old i = Some s"
  by (auto simp: sa_ok_def sa_suffix_def list_all_length)

lemma Search_defined:
  "sa_ok sa old \<Longrightarrow> 0 \<le> start \<Longrightarrow> start \<le> end \<Longrightarrow> end \<le> int (length old) \<Longrightarrow>
   \<exists>r. Search sa old new start end = Some r"
proof (induction sa old new start "end" rule: Search.induct)
  case (1 sa old new start "end")
  show ?case
  proof (cases "end - start < 2")
    case True
    then show ?thesis
      using sa_suffix_defined [OF "1.prems"(1), of start] sa_suffix_defined [OF "1.prems"(1), of "end"]
        "1.prems" by (auto simp: Search.simps [of sa] Let_def)
  next
    case False
    define x where "x = start + (end - start) div 2"
    have x: "start \<le> x" "x \<le> end" using False by (auto simp: x_def)
    obtain s where s: "sa_suffix sa old x = Some s"
      using sa_suffix_defined [OF "1.prems"(1), of x] x "1.prems" by auto
    have step: "Search sa old new start end =
        (if memcmp_less s new (min (length s) (length new)) then Search sa old new x end
         else Search sa old new start x)"
      using False s by (subst Search.simps) (simp add: Let_def flip: x_def)
    show ?thesis
    proof (cases "memcmp_less s new (min (length s) (length new))")
      case True
      then show ?thesis using "1.IH"(1) [OF False x_def s True] "1.prems" step x by simp
    next
      case F: False
      then show ?thesis using "1.IH"(2) [OF False x_def s F] "1.prems" step x by simp
    qed
  qed
qed

lemma score_loop_mono: "score_loop new old l beg lim s = Some s' \<Longrightarrow> s \<le> s'"
proof (induction new old l beg lim s rule: score_loop.induct)
  case (1 new old l beg lim s)
  show ?case
  proof (cases "beg < lim")
    case False
    with "1.prems" show ?thesis by (simp add: score_loop.simps [of new])
  next
    case True
    show ?thesis
    proof (cases "beg + l < int (length old)")
      case False
      with True "1.prems" "1.IH"(2) show ?thesis by (simp add: score_loop.simps [of new old l beg])
    next
      case near: True
      obtain a b where ab: "rd old (beg + l) = Some a" "rd new beg = Some b"
        using "1.prems" True near by (auto simp: score_loop.simps [of new] split: option.splits)
      have "score_loop new old l (beg + 1) lim (if a = b then s + 1 else s) = Some s'"
        using "1.prems" True near ab by (simp add: score_loop.simps [of new old l beg])
      from "1.IH"(1) [OF True near refl ab this] show ?thesis by (simp split: if_splits)
    qed
  qed
qed

lemma old_score_loop_progress:
  "old_score_loop sa new old l cur beg score mlen mpos = Some (cur', score', mlen', mpos') \<Longrightarrow>
   cur \<le> cur' \<and> (cur' < int (length new) \<longrightarrow> 0 \<le> mlen' \<and> (0 \<le> score \<and> mlen' = 0 \<longrightarrow> cur < cur'))"
proof (induction sa new old l cur beg score mlen mpos rule: old_score_loop.induct)
  case (1 sa new old l cur beg score mlen mpos)
  show ?case
  proof (cases "cur < int (length new)")
    case False
    with "1.prems" show ?thesis by (simp add: old_score_loop.simps [of sa])
  next
    case True
    obtain m p where S: "Search sa old (drop (nat cur) new) 0 (int (length old)) = Some (m, p)"
      using "1.prems" True by (auto simp: old_score_loop.simps [of sa] split: option.splits)
    obtain s where s: "score_loop new old l beg (cur + m) score = Some s"
      using "1.prems" True S by (auto simp: old_score_loop.simps [of sa] split: option.splits)
    have m: "0 \<le> m" using Search_sound [OF S] by simp
    have mono: "score \<le> s" using score_loop_mono [OF s] .
    show ?thesis
    proof (cases "m = s \<and> m \<noteq> 0 \<or> s + BLOCK_SCORE < m")
      case True
      with "1.prems" \<open>cur < int (length new)\<close> S s have "cur' = cur" "mlen' = m"
        by (auto simp: old_score_loop.simps [of sa])
      with True m mono show ?thesis by auto
    next
      case no: False
      show ?thesis
      proof (cases "cur + l < int (length old)")
        case near: True
        obtain a b where ab: "rd old (cur + l) = Some a" "rd new cur = Some b"
          using "1.prems" True S s no near
          by (auto simp: old_score_loop.simps [of sa] split: option.splits)
        have "old_score_loop sa new old l (cur + 1) (max beg (cur + m)) (if a = b then s - 1 else s) m p
            = Some (cur', score', mlen', mpos')"
          using "1.prems" True S s no near ab by (simp add: old_score_loop.simps [of sa new old l cur])
        from "1.IH"(1) [OF True S refl s no near refl ab this] show ?thesis by auto
      next
        case far: False
        have "old_score_loop sa new old l (cur + 1) (max beg (cur + m)) s m p
            = Some (cur', score', mlen', mpos')"
          using "1.prems" True S s no far by (simp add: old_score_loop.simps [of sa new old l cur])
        from "1.IH"(2) [OF True S refl s no far this] show ?thesis by auto
      qed
    qed
  qed
qed

lemma ComputeOldScore_progress:
  assumes "ComputeOldScore sa new old st mlen = Some (score, mlen', st')"
  shows "currentOffset st + mlen \<le> currentOffset st' \<and>
    (currentOffset st' < int (length new) \<longrightarrow>
      0 \<le> mlen' \<and> currentOffset st + mlen < currentOffset st' + mlen')"
  using assms old_score_loop_progress
  by (auto simp: ComputeOldScore_def Let_def split: option.splits) fastforce+

section \<open>The control data\<close>

text \<open>
  The loop of \<open>GetCtrlDatas\<close>. It ends because the end of the current match moves forward in
  every turn.
\<close>

definition next_control :: "diff_state \<Rightarrow> int \<Rightarrow> int \<Rightarrow> control_data" where
  "next_control st lenFront lenBack =
     \<lparr>diffLength = lenFront,
      extraLength = (currentOffset st - lenBack) - (lastScan st + lenFront),
      offsetIncrement = (matchPos st - lenBack) - (lastPos st + lenFront),
      diffNewStart = lastScan st, diffOldStart = lastPos st, extraNewStart = lastScan st + lenFront\<rparr>"

definition after_control :: "diff_state \<Rightarrow> int \<Rightarrow> diff_state" where
  "after_control st lenBack =
     st\<lparr>lastScan := currentOffset st - lenBack, lastPos := matchPos st - lenBack,
        lastOffset := matchPos st - currentOffset st\<rparr>"

function ctrl_loop :: "int list \<Rightarrow> bytes \<Rightarrow> bytes \<Rightarrow> diff_state \<Rightarrow> int \<Rightarrow> control_data list option" where
  "ctrl_loop sa new old st matchLen =
     (if currentOffset st < int (length new) then
        (case ComputeOldScore sa new old st matchLen of
           None \<Rightarrow> None
         | Some (oldScore, matchLen', st1) \<Rightarrow>
             if matchLen' = oldScore \<and> currentOffset st1 \<noteq> int (length new)
             then ctrl_loop sa new old st1 matchLen'
             else (case ComputeLength new old st1 of
                     None \<Rightarrow> None
                   | Some (lenFront, lenBack) \<Rightarrow>
                       (case ctrl_loop sa new old (after_control st1 lenBack) matchLen' of
                          None \<Rightarrow> None
                        | Some cs \<Rightarrow> Some (next_control st1 lenFront lenBack # cs))))
      else Some [])"
  by pat_completeness auto
termination
proof (relation "measure (\<lambda>(sa, new, old, st, m). if currentOffset st < int (length new)
    then Suc (nat (int (length new) - (currentOffset st + m))) else 0)", goal_cases)
  case (2 sa new old st m x score y m' st1)
  then have "ComputeOldScore sa new old st m = Some (score, m', st1)" by simp
  from ComputeOldScore_progress [OF this] 2(1) show ?case by auto
next
  case (3 sa new old st m x score y m' st1 z lf lb)
  then have "ComputeOldScore sa new old st m = Some (score, m', st1)" by simp
  from ComputeOldScore_progress [OF this] 3(1) show ?case by (auto simp: after_control_def)
qed simp

declare ctrl_loop.simps [simp del]

definition diff_start :: diff_state where
  "diff_start = \<lparr>matchPos = 0, currentOffset = 0, lastOffset = 0, lastScan = 0, lastPos = 0\<rparr>"

definition GetCtrlDatas :: "int list \<Rightarrow> bytes \<Rightarrow> bytes \<Rightarrow> control_data list option" where
  "GetCtrlDatas sa new old = ctrl_loop sa new old diff_start 0"

section \<open>Writing the patch\<close>

definition control_bytes :: "control_data list \<Rightarrow> bytes" where
  "control_bytes cs =
     concat (List.map (\<lambda>c. WriteLE64 (diffLength c) @ WriteLE64 (extraLength c)
       @ WriteLE64 (offsetIncrement c)) cs)"

abbreviation (input) IGMDIFF_LIMIT_UNIT :: int where
  "IGMDIFF_LIMIT_UNIT \<equiv> 10240"

text \<open>One piece of difference data: \<open>diffNewStart[offset + k] - diffOldStart[offset + k]\<close>.\<close>

fun diff_piece :: "bytes \<Rightarrow> bytes \<Rightarrow> int \<Rightarrow> int \<Rightarrow> nat \<Rightarrow> bytes option" where
  "diff_piece new old i j 0 = Some []"
| "diff_piece new old i j (Suc n) =
     (case (rd new i, rd old j, diff_piece new old (i + 1) (j + 1) n) of
        (Some a, Some b, Some d) \<Rightarrow> Some ((a - b) # d)
      | _ \<Rightarrow> None)"

function diff_pieces :: "bytes \<Rightarrow> bytes \<Rightarrow> control_data \<Rightarrow> int \<Rightarrow> bytes option" where
  "diff_pieces new old c off =
     (if off < diffLength c then
        (let cpyLen = (if diffLength c < off + IGMDIFF_LIMIT_UNIT then diffLength c - off
                       else IGMDIFF_LIMIT_UNIT)
         in case (diff_piece new old (diffNewStart c + off) (diffOldStart c + off) (nat cpyLen),
                  diff_pieces new old c (off + cpyLen)) of
              (Some d, Some ds) \<Rightarrow> Some (d @ ds)
            | _ \<Rightarrow> None)
      else Some [])"
  by pat_completeness auto
termination
  by (relation "measure (\<lambda>(new, old, c, off). nat (diffLength c - off))") auto

declare diff_pieces.simps [simp del]

fun diff_bytes :: "bytes \<Rightarrow> bytes \<Rightarrow> control_data list \<Rightarrow> bytes option" where
  "diff_bytes new old [] = Some []"
| "diff_bytes new old (c # cs) =
     (case (if diffLength c \<le> 0 then Some [] else diff_pieces new old c 0, diff_bytes new old cs) of
        (Some d, Some ds) \<Rightarrow> Some (d @ ds)
      | _ \<Rightarrow> None)"

fun extra_bytes :: "bytes \<Rightarrow> control_data list \<Rightarrow> bytes option" where
  "extra_bytes new [] = Some []"
| "extra_bytes new (c # cs) =
     (case extra_bytes new cs of
        None \<Rightarrow> None
      | Some es \<Rightarrow>
          if extraLength c \<le> 0 then Some es
          else if extraNewStart c < 0 \<or> int (length new) < extraNewStart c + extraLength c then None
          else Some (slice (nat (extraNewStart c)) (nat (extraLength c)) new @ es))"

definition patch_header :: "int \<Rightarrow> int \<Rightarrow> int \<Rightarrow> bytes" where
  "patch_header controlSize diffDataSize newSize =
     BSDIFF_MAGIC @ WriteLE64 controlSize @ WriteLE64 diffDataSize @ WriteLE64 newSize"

text \<open>\<open>WritePatchData\<close>: the header is written over its first, all-zero version at the end.\<close>

definition WritePatchData ::
    "(bytes \<Rightarrow> bytes) \<Rightarrow> bytes \<Rightarrow> bytes \<Rightarrow> control_data list \<Rightarrow> bytes option" where
  "WritePatchData compress new old controlDatas =
     (let c = compress (control_bytes controlDatas) in
      case (diff_bytes new old controlDatas, extra_bytes new controlDatas) of
        (Some ds, Some es) \<Rightarrow>
          (let d = compress ds; e = compress es;
               zero = patch_header 0 0 0 @ c @ d @ e
           in Some (blit 0 (patch_header (int (length c)) (int (length d)) (int (length new))) zero))
      | _ \<Rightarrow> None)"

definition MakePatch :: "(bytes \<Rightarrow> bytes) \<Rightarrow> int list \<Rightarrow> bytes \<Rightarrow> bytes \<Rightarrow> bytes option" where
  "MakePatch compress sa new old =
     (case GetCtrlDatas sa new old of
        None \<Rightarrow> None
      | Some controlDatas \<Rightarrow> WritePatchData compress new old controlDatas)"

section \<open>Bounds of the extension\<close>

lemma rd_defined: "0 \<le> i \<Longrightarrow> i < int (length b) \<Longrightarrow> \<exists>x. rd b i = Some x"
  by simp

lemma front_loop_bounds:
  "0 \<le> lastScan st \<Longrightarrow> currentOffset st \<le> int (length new) \<Longrightarrow> 0 \<le> lastPos st \<Longrightarrow>
   0 \<le> len \<Longrightarrow> len \<le> i \<Longrightarrow> lastScan st + i \<le> currentOffset st \<Longrightarrow> lastPos st + i \<le> int (length old) \<Longrightarrow>
   \<exists>len'. front_loop new old st i s tmp len = Some len' \<and> 0 \<le> len' \<and>
     lastScan st + len' \<le> currentOffset st \<and> lastPos st + len' \<le> int (length old)"
proof (induction new old st i s tmp len rule: front_loop.induct)
  case (1 new old st i s tmp len)
  show ?case
  proof (cases "lastScan st + i < currentOffset st \<and> lastPos st + i < int (length old)")
    case False
    with "1.prems" show ?thesis by (auto simp: front_loop.simps [of new old st i])
  next
    case True
    define a b where "a = old ! nat (lastPos st + i)" and "b = new ! nat (lastScan st + i)"
    have ab: "rd old (lastPos st + i) = Some a" "rd new (lastScan st + i) = Some b"
      using True "1.prems" by (simp_all add: a_def b_def)
    define s' where "s' = (if a = b then s + 1 else s)"
    show ?thesis
    proof (cases "tmp * 2 - len < s' * 2 - (i + 1)")
      case up: True
      with True ab have "front_loop new old st i s tmp len = front_loop new old st (i + 1) s' s' (i + 1)"
        by (subst front_loop.simps) (simp add: Let_def flip: s'_def)
      with "1.IH"(1) [OF True refl ab s'_def refl up] "1.prems" True show ?thesis by simp
    next
      case no: False
      with True ab have "front_loop new old st i s tmp len = front_loop new old st (i + 1) s' tmp len"
        by (subst front_loop.simps) (simp add: Let_def flip: s'_def)
      with "1.IH"(2) [OF True refl ab s'_def refl no] "1.prems" True show ?thesis by simp
    qed
  qed
qed

lemma back_loop_bounds:
  "0 \<le> lastScan st \<Longrightarrow> currentOffset st \<le> int (length new) \<Longrightarrow> matchPos st \<le> int (length old) \<Longrightarrow>
   0 \<le> len \<Longrightarrow> len < i \<Longrightarrow> lastScan st + len \<le> currentOffset st \<Longrightarrow> len \<le> matchPos st \<Longrightarrow>
   \<exists>len'. back_loop new old st i s tmp len = Some len' \<and> 0 \<le> len' \<and>
     lastScan st + len' \<le> currentOffset st \<and> len' \<le> matchPos st"
proof (induction new old st i s tmp len rule: back_loop.induct)
  case (1 new old st i s tmp len)
  show ?case
  proof (cases "lastScan st + i \<le> currentOffset st \<and> i \<le> matchPos st")
    case False
    with "1.prems" show ?thesis by (auto simp: back_loop.simps [of new old st i])
  next
    case True
    define a b where "a = old ! nat (matchPos st - i)" and "b = new ! nat (currentOffset st - i)"
    have ab: "rd old (matchPos st - i) = Some a" "rd new (currentOffset st - i) = Some b"
      using True "1.prems" by (simp_all add: a_def b_def)
    define s' where "s' = (if a = b then s + 1 else s)"
    show ?thesis
    proof (cases "tmp * 2 - len < s' * 2 - i")
      case up: True
      with True ab have "back_loop new old st i s tmp len = back_loop new old st (i + 1) s' s' i"
        by (subst back_loop.simps) (simp add: Let_def flip: s'_def)
      with "1.IH"(1) [OF True refl ab s'_def up] "1.prems" True show ?thesis by simp
    next
      case no: False
      with True ab have "back_loop new old st i s tmp len = back_loop new old st (i + 1) s' tmp len"
        by (subst back_loop.simps) (simp add: Let_def flip: s'_def)
      with "1.IH"(2) [OF True refl ab s'_def no] "1.prems" True show ?thesis by simp
    qed
  qed
qed

lemma overlap_loop_bounds:
  "0 \<le> lastScan st + lf - ov \<Longrightarrow> lastScan st + lf \<le> int (length new) \<Longrightarrow>
   0 \<le> lastPos st + lf - ov \<Longrightarrow> lastPos st + lf \<le> int (length old) \<Longrightarrow>
   0 \<le> currentOffset st - lb \<Longrightarrow> currentOffset st - lb + ov \<le> int (length new) \<Longrightarrow>
   0 \<le> matchPos st - lb \<Longrightarrow> matchPos st - lb + ov \<le> int (length old) \<Longrightarrow>
   0 \<le> lens \<Longrightarrow> lens \<le> i \<Longrightarrow> i \<le> ov \<Longrightarrow>
   \<exists>lens'. overlap_loop new old st lf lb ov i s tmp lens = Some lens' \<and> 0 \<le> lens' \<and> lens' \<le> ov"
proof (induction new old st lf lb ov i s tmp lens rule: overlap_loop.induct)
  case (1 new old st lf lb ov i s tmp lens)
  show ?case
  proof (cases "i < ov")
    case False
    with "1.prems" show ?thesis by (simp add: overlap_loop.simps [of new old st lf lb ov])
  next
    case True
    define a b c d where "a = new ! nat (lastScan st + lf - ov + i)"
      and "b = old ! nat (lastPos st + lf - ov + i)"
      and "c = new ! nat (currentOffset st - lb + i)" and "d = old ! nat (matchPos st - lb + i)"
    have ab: "rd new (lastScan st + lf - ov + i) = Some a" "rd old (lastPos st + lf - ov + i) = Some b"
      "rd new (currentOffset st - lb + i) = Some c" "rd old (matchPos st - lb + i) = Some d"
      using True "1.prems" by (simp_all add: a_def b_def c_def d_def)
    define s1 where "s1 = (if a = b then s + 1 else s)"
    define s2 where "s2 = (if c = d then s1 - 1 else s1)"
    show ?thesis
    proof (cases "tmp < s2")
      case up: True
      with True ab have "overlap_loop new old st lf lb ov i s tmp lens
          = overlap_loop new old st lf lb ov (i + 1) s2 s2 (i + 1)"
        by (subst overlap_loop.simps) (simp add: Let_def flip: s1_def s2_def)
      with "1.IH"(1) [OF True refl ab(1) refl ab(2) refl ab(3) ab(4) s1_def s2_def up] "1.prems" True show ?thesis by simp
    next
      case no: False
      with True ab have "overlap_loop new old st lf lb ov i s tmp lens
          = overlap_loop new old st lf lb ov (i + 1) s2 tmp lens"
        by (subst overlap_loop.simps) (simp add: Let_def flip: s1_def s2_def)
      with "1.IH"(2) [OF True refl ab(1) refl ab(2) refl ab(3) ab(4) s1_def s2_def no] "1.prems" True show ?thesis by simp
    qed
  qed
qed

text \<open>What the diff keeps true of its offsets.\<close>

definition diff_inv :: "bytes \<Rightarrow> bytes \<Rightarrow> diff_state \<Rightarrow> bool" where
  "diff_inv new old st \<longleftrightarrow> 0 \<le> lastScan st \<and> lastScan st \<le> currentOffset st \<and>
     currentOffset st \<le> int (length new) \<and> 0 \<le> lastPos st \<and> lastPos st \<le> int (length old) \<and>
     0 \<le> matchPos st \<and> matchPos st \<le> int (length old) \<and> 0 \<le> currentOffset st + lastOffset st"

lemma ComputeLength_bounds:
  assumes inv: "diff_inv new old st"
  shows "\<exists>lf lb. ComputeLength new old st = Some (lf, lb) \<and> 0 \<le> lf \<and> 0 \<le> lb \<and>
    lastScan st + lf \<le> currentOffset st - lb \<and> lastPos st + lf \<le> int (length old) \<and> lb \<le> matchPos st \<and>
    (currentOffset st = int (length new) \<longrightarrow> lb = 0)"
proof -
  obtain lf where lf: "front_loop new old st 0 0 0 0 = Some lf" "0 \<le> lf"
      "lastScan st + lf \<le> currentOffset st" "lastPos st + lf \<le> int (length old)"
    using front_loop_bounds [of st new 0 0 old 0 0] inv by (auto simp: diff_inv_def)
  show ?thesis
  proof (cases "currentOffset st < int (length new)")
    case False
    then show ?thesis using lf inv by (simp add: ComputeLength_def diff_inv_def)
  next
    case True
    obtain lb where lb: "back_loop new old st 1 0 0 0 = Some lb" "0 \<le> lb"
        "lastScan st + lb \<le> currentOffset st" "lb \<le> matchPos st"
      using back_loop_bounds [of st new old 0 1 0 0] inv by (auto simp: diff_inv_def)
    show ?thesis
    proof (cases "currentOffset st - lb < lastScan st + lf")
      case False
      then show ?thesis using True lf lb by (simp add: ComputeLength_def)
    next
      case ov: True
      define ov where "ov = (lastScan st + lf) - (currentOffset st - lb)"
      obtain lens where "overlap_loop new old st lf lb ov 0 0 0 0 = Some lens" "0 \<le> lens" "lens \<le> ov"
        using overlap_loop_bounds [of st lf ov new old lb 0 0 0 0] lf lb inv True ov
        by (auto simp: ov_def diff_inv_def)
      then show ?thesis using True ov lf lb by (simp add: ComputeLength_def Let_def ov_def)
    qed
  qed
qed

section \<open>Bounds of the scores and the invariant of the diff\<close>

lemma score_loop_defined:
  "0 \<le> beg \<Longrightarrow> 0 \<le> beg + l \<Longrightarrow> lim \<le> int (length new) \<Longrightarrow> \<exists>s'. score_loop new old l beg lim s = Some s'"
proof (induction new old l beg lim s rule: score_loop.induct)
  case (1 new old l beg lim s)
  show ?case
  proof (cases "beg < lim")
    case False
    then show ?thesis by (simp add: score_loop.simps [of new])
  next
    case True
    show ?thesis
    proof (cases "beg + l < int (length old)")
      case False
      with True "1.prems" "1.IH"(2) show ?thesis by (simp add: score_loop.simps [of new old l beg])
    next
      case near: True
      define a b where "a = old ! nat (beg + l)" and "b = new ! nat beg"
      have ab: "rd old (beg + l) = Some a" "rd new beg = Some b"
        using "1.prems" True near by (simp_all add: a_def b_def)
      have "score_loop new old l beg lim s = score_loop new old l (beg + 1) lim (if a = b then s + 1 else s)"
        using True near ab by (simp add: score_loop.simps [of new old l beg])
      with "1.IH"(1) [OF True near refl ab] "1.prems" show ?thesis by simp
    qed
  qed
qed

lemma old_score_loop_bounds:
  "sa_ok sa old \<Longrightarrow> 0 \<le> cur \<Longrightarrow> cur \<le> int (length new) \<Longrightarrow> 0 \<le> beg \<Longrightarrow> 0 \<le> beg + l \<Longrightarrow> 0 \<le> cur + l \<Longrightarrow>
   0 \<le> mpos \<Longrightarrow> mpos \<le> int (length old) \<Longrightarrow>
   (case old_score_loop sa new old l cur beg score mlen mpos of
      None \<Rightarrow> False
    | Some (cur', score', mlen', mpos') \<Rightarrow>
        cur \<le> cur' \<and> cur' \<le> int (length new) \<and> 0 \<le> mpos' \<and> mpos' \<le> int (length old) \<and>
        (cur' < int (length new) \<longrightarrow> cur' + mlen' \<le> int (length new)))"
proof (induction sa new old l cur beg score mlen mpos rule: old_score_loop.induct)
  case (1 sa new old l cur beg score mlen mpos)
  show ?case
  proof (cases "cur < int (length new)")
    case False
    with "1.prems" show ?thesis by (simp add: old_score_loop.simps [of sa])
  next
    case True
    obtain m p where S: "Search sa old (drop (nat cur) new) 0 (int (length old)) = Some (m, p)"
      using Search_defined [OF "1.prems"(1), of 0 "int (length old)" "drop (nat cur) new"] by auto
    have m: "0 \<le> m" "cur + m \<le> int (length new)" "0 \<le> p" "p + m \<le> int (length old)"
      using Search_sound [OF S] "1.prems" True by (simp_all add: of_nat_diff nat_le_iff)
    obtain s where s: "score_loop new old l beg (cur + m) score = Some s"
      using score_loop_defined [of beg l "cur + m" new old score] "1.prems" m by auto
    have nb: "0 \<le> max beg (cur + m)" "0 \<le> max beg (cur + m) + l"
      using "1.prems" by (simp_all add: le_max_iff_disj max_add_distrib_left)
    show ?thesis
    proof (cases "m = s \<and> m \<noteq> 0 \<or> s + BLOCK_SCORE < m")
      case stop: True
      with True S s have "old_score_loop sa new old l cur beg score mlen mpos = Some (cur, s, m, p)"
        by (subst old_score_loop.simps) simp
      with m True show ?thesis by simp
    next
      case no: False
      show ?thesis
      proof (cases "cur + l < int (length old)")
        case near: True
        define a b where "a = old ! nat (cur + l)" and "b = new ! nat cur"
        have ab: "rd old (cur + l) = Some a" "rd new cur = Some b"
          using "1.prems" True near by (simp_all add: a_def b_def)
        have "old_score_loop sa new old l cur beg score mlen mpos =
          old_score_loop sa new old l (cur + 1) (max beg (cur + m)) (if a = b then s - 1 else s) m p"
          by (subst old_score_loop.simps)
            (simp only: if_P [OF True] S s option.case prod.case if_not_P [OF no] if_P [OF near] ab)
        with "1.IH"(1) [OF True S refl s no near refl ab] "1.prems" m True nb show ?thesis
          by (fastforce simp del: if_split split: option.split_asm)
      next
        case far: False
        have "old_score_loop sa new old l cur beg score mlen mpos =
          old_score_loop sa new old l (cur + 1) (max beg (cur + m)) s m p"
          by (subst old_score_loop.simps)
            (simp only: if_P [OF True] S s option.case prod.case if_not_P [OF no] if_not_P [OF far])
        with "1.IH"(2) [OF True S refl s no far] "1.prems" m True nb show ?thesis
          by (fastforce simp del: if_split split: option.split_asm)
      qed
    qed
  qed
qed

lemma ComputeOldScore_inv:
  assumes "sa_ok sa old" "diff_inv new old st" "0 \<le> mlen" "currentOffset st + mlen \<le> int (length new)"
  shows "\<exists>score mlen' st'. ComputeOldScore sa new old st mlen = Some (score, mlen', st') \<and>
    diff_inv new old st' \<and> lastScan st' = lastScan st \<and> lastPos st' = lastPos st \<and>
    (currentOffset st' < int (length new) \<longrightarrow> 0 \<le> mlen' \<and> currentOffset st' + mlen' \<le> int (length new))"
proof -
  let ?c = "currentOffset st + mlen"
  obtain c s m p where L: "old_score_loop sa new old (lastOffset st) ?c ?c 0 mlen (matchPos st) = Some (c, s, m, p)"
      "?c \<le> c" "c \<le> int (length new)" "0 \<le> p" "p \<le> int (length old)"
      "c < int (length new) \<longrightarrow> c + m \<le> int (length new)"
    using old_score_loop_bounds [of sa old ?c new ?c "lastOffset st" "matchPos st" 0 mlen] assms
    by (auto simp: diff_inv_def split: option.splits)
  then show ?thesis
    using old_score_loop_progress [OF L(1)] assms by (simp add: ComputeOldScore_def diff_inv_def)
qed

text \<open>The control data describe \<open>new\<close> from \<open>scan\<close> to its end, with \<open>old\<close> read from \<open>pos\<close> on.\<close>

fun ctrls_ok :: "bytes \<Rightarrow> bytes \<Rightarrow> int \<Rightarrow> int \<Rightarrow> control_data list \<Rightarrow> bool" where
  "ctrls_ok new old scan pos [] \<longleftrightarrow> scan = int (length new)"
| "ctrls_ok new old scan pos (c # cs) \<longleftrightarrow>
     diffNewStart c = scan \<and> diffOldStart c = pos \<and> extraNewStart c = scan + diffLength c \<and>
     0 \<le> diffLength c \<and> 0 \<le> extraLength c \<and> 0 \<le> scan \<and> 0 \<le> pos \<and>
     pos + diffLength c \<le> int (length old) \<and> scan + diffLength c + extraLength c \<le> int (length new) \<and>
     \<bar>offsetIncrement c\<bar> \<le> int (length old) \<and>
     ctrls_ok new old (scan + diffLength c + extraLength c) (pos + diffLength c + offsetIncrement c) cs"

lemma ctrl_loop_ok:
  "sa_ok sa old \<Longrightarrow> diff_inv new old st \<Longrightarrow> 0 \<le> mlen \<Longrightarrow>
   (currentOffset st < int (length new) \<longrightarrow> currentOffset st + mlen \<le> int (length new)) \<Longrightarrow>
   (currentOffset st = int (length new) \<longrightarrow> lastScan st = int (length new)) \<Longrightarrow>
   \<exists>cs. ctrl_loop sa new old st mlen = Some cs \<and> ctrls_ok new old (lastScan st) (lastPos st) cs"
proof (induction sa new old st mlen rule: ctrl_loop.induct)
  case (1 sa new old st mlen)
  show ?case
  proof (cases "currentOffset st < int (length new)")
    case False
    with "1.prems" show ?thesis by (simp add: ctrl_loop.simps [of sa] diff_inv_def)
  next
    case True
    obtain score m st1 where S: "ComputeOldScore sa new old st mlen = Some (score, m, st1)"
      "diff_inv new old st1" "lastScan st1 = lastScan st" "lastPos st1 = lastPos st"
      "currentOffset st1 < int (length new) \<longrightarrow> 0 \<le> m \<and> currentOffset st1 + m \<le> int (length new)"
      using ComputeOldScore_inv [OF "1.prems"(1-3)] "1.prems"(4) True by blast
    show ?thesis
    proof (cases "m = score \<and> currentOffset st1 \<noteq> int (length new)")
      case again: True
      with True S have "ctrl_loop sa new old st mlen = ctrl_loop sa new old st1 m"
        by (subst ctrl_loop.simps) simp
      with "1.IH"(1) [OF True S(1) refl refl again] "1.prems"(1) S again show ?thesis
        by (auto simp: diff_inv_def)
    next
      case no: False
      obtain lf lb where L: "ComputeLength new old st1 = Some (lf, lb)" "0 \<le> lf" "0 \<le> lb"
          "lastScan st1 + lf \<le> currentOffset st1 - lb" "lastPos st1 + lf \<le> int (length old)"
          "lb \<le> matchPos st1" "currentOffset st1 = int (length new) \<longrightarrow> lb = 0"
        using ComputeLength_bounds [OF S(2)] by blast
      let ?st2 = "after_control st1 lb"
      have inv2: "diff_inv new old ?st2"
        using S(2) L by (simp add: diff_inv_def after_control_def)
      have "\<exists>cs. ctrl_loop sa new old ?st2 m = Some cs \<and> ctrls_ok new old (lastScan ?st2) (lastPos ?st2) cs"
      proof (cases "currentOffset st1 < int (length new)")
        case more: True
        with "1.IH"(2) [OF True S(1) refl refl no L(1) refl] "1.prems"(1) inv2 S L show ?thesis
          by (simp add: after_control_def)
      next
        case False
        with S(2) have "currentOffset st1 = int (length new)" by (simp add: diff_inv_def)
        with L show ?thesis by (simp add: ctrl_loop.simps [of sa] after_control_def)
      qed
      then obtain cs where cs: "ctrl_loop sa new old ?st2 m = Some cs"
        "ctrls_ok new old (lastScan ?st2) (lastPos ?st2) cs" by blast
      have "ctrl_loop sa new old st mlen = Some (next_control st1 lf lb # cs)"
        using True S(1) no L(1) cs(1) by (subst ctrl_loop.simps) auto
      moreover have "ctrls_ok new old (lastScan st) (lastPos st) (next_control st1 lf lb # cs)"
        using cs(2) S(2-4) L by (simp add: next_control_def after_control_def diff_inv_def algebra_simps abs_le_iff)
      ultimately show ?thesis by blast
    qed
  qed
qed

lemma GetCtrlDatas_ok:
  "sa_ok sa old \<Longrightarrow> \<exists>cs. GetCtrlDatas sa new old = Some cs \<and> ctrls_ok new old 0 0 cs"
  using ctrl_loop_ok [of sa old new diff_start 0]
  by (simp add: GetCtrlDatas_def diff_start_def diff_inv_def)

end
