(* ===== verification/Bs_Patch.thy ===== *)
theory Bs_Patch
  imports Bs_Codec
begin

text \<open>
  \<open>services/diffpatch/patch/blocks_patch.cpp\<close>: applying a binary patch. A bzip2 reader
  (\<open>bzip2/bzip2_adapter.cpp\<close>) is None until it is open and then the bytes its stream still delivers;
  \<open>decompress\<close>, a parameter, gives the bytes the bzip2 library delivers from a stream before its
  end or its first error. Where the code would write outside its buffer, or add signed numbers
  beyond 64 bits, its behaviour is undefined and the result here is None. The two virtual methods
  of \<open>BlocksPatch\<close> are function arguments of the loop, so that it is the same loop for the buffer
  and for the stream variant, as in the code. Reads of 4 GB and more, whose length the bzip2
  interface truncates, are outside the model.
\<close>

section \<open>Readers\<close>

type_synonym reader = "bytes option"

definition BZip2_Open :: "(bytes \<Rightarrow> bytes) \<Rightarrow> bytes \<Rightarrow> nat \<Rightarrow> nat \<Rightarrow> reader" where
  "BZip2_Open decompress buffer offset dataLength =
     (if length buffer < offset \<or> length buffer - offset < dataLength then None
      else Some (decompress (take dataLength (drop offset buffer))))"

text \<open>The return code, the bytes stored at the destination, and the reader afterwards.\<close>

definition ReadData :: "reader \<Rightarrow> nat \<Rightarrow> int \<times> bytes \<times> reader" where
  "ReadData r n =
     (case r of
        None \<Rightarrow> (-1, [], None)
      | Some bs \<Rightarrow> (if n \<le> length bs then 0 else -1, take n bs, Some (drop n bs)))"

section \<open>The header and the control data\<close>

record patch_buffer =
  patch_data :: bytes
  patch_start :: nat

definition ok64 :: "int \<Rightarrow> bool" where
  "ok64 x \<longleftrightarrow> - (2 ^ 63) \<le> x \<and> x < 2 ^ 63"

record patch_header =
  hdr_newSize :: int
  hdr_control :: reader
  hdr_diff :: reader
  hdr_extra :: reader

abbreviation (input) PATCH_MIN :: nat where
  "PATCH_MIN \<equiv> 32"

definition ReadHeader :: "(bytes \<Rightarrow> bytes) \<Rightarrow> patch_buffer \<Rightarrow> (int + patch_header) option" where
  "ReadHeader decompress p =
     (let n = length (patch_data p) in
      if n < patch_start p \<or> n - patch_start p \<le> PATCH_MIN then Some (Inl (-1))
      else let header = drop (patch_start p) (patch_data p) in
        if take 8 header \<noteq> BSDIFF_MAGIC then Some (Inl (-1))
        else let controlDataSize = ReadLE64 (drop 8 header);
                 diffDataSize = ReadLE64 (drop 16 header);
                 newSize = ReadLE64 (drop 24 header)
          in if controlDataSize < 0 then Some (Inl (-1))
             else if newSize < 0 then Some (Inl (-1))
             else if diffDataSize < 0 then Some (Inl (-1))
             else if \<not> ok64 (diffDataSize + controlDataSize) then None
             else if int n < diffDataSize + controlDataSize then Some (Inl (-1))
             else let o1 = 32 + nat controlDataSize; o2 = o1 + nat diffDataSize
               in Some (Inr \<lparr>hdr_newSize = newSize,
                    hdr_control = BZip2_Open decompress header 32 (nat controlDataSize),
                    hdr_diff = BZip2_Open decompress header o1 (nat diffDataSize),
                    hdr_extra = BZip2_Open decompress header o2 (length header - o2)\<rparr>))"

record patch_control =
  pc_diffLength :: int
  pc_extraLength :: int
  pc_offsetIncrement :: int

definition ReadControlData :: "reader \<Rightarrow> (int + patch_control) \<times> reader" where
  "ReadControlData r =
     (case ReadData r 8 of
        (rc, d1, r1) \<Rightarrow>
          if rc \<noteq> 0 then (Inl rc, r1)
          else (case ReadData r1 8 of
            (rc, d2, r2) \<Rightarrow>
              if rc \<noteq> 0 then (Inl rc, r2)
              else (case ReadData r2 8 of
                (rc, d3, r3) \<Rightarrow>
                  if rc \<noteq> 0 then (Inl rc, r3)
                  else (Inr \<lparr>pc_diffLength = ReadLE64 d1, pc_extraLength = ReadLE64 d2,
                             pc_offsetIncrement = ReadLE64 d3\<rparr>, r3))))"

lemma ReadControlData_shrinks:
  "ReadControlData r = (Inr c, r') \<Longrightarrow> \<exists>bs. r = Some bs \<and> 24 \<le> length bs \<and> r' = Some (drop 24 bs)"
  by (auto simp: ReadControlData_def ReadData_def split: if_splits option.splits)

section \<open>The loop\<close>

text \<open>
  \<open>restoreDiff c old_offset new_offset r s\<close> is \<open>RestoreDiffData\<close>: the code, the reader and the
  target afterwards; likewise \<open>restoreExtra\<close>.
\<close>

abbreviation (input) PATCH_INVALID_PATCH :: int where
  "PATCH_INVALID_PATCH \<equiv> 4"

text \<open>One turn of the loop: a final return code, or the offsets, readers and target to go on with.\<close>

type_synonym 's restore_diff = "patch_control \<Rightarrow> int \<Rightarrow> int \<Rightarrow> reader \<Rightarrow> 's \<Rightarrow> (int \<times> reader \<times> 's) option"
type_synonym 's restore_extra = "patch_control \<Rightarrow> int \<Rightarrow> reader \<Rightarrow> 's \<Rightarrow> (int \<times> reader \<times> 's) option"

definition apply_control ::
    "'s restore_diff \<Rightarrow> 's restore_extra \<Rightarrow> int \<Rightarrow> patch_control \<Rightarrow> int \<times> int \<times> reader \<times> reader \<times> 's \<Rightarrow>
     (int \<times> 's + int \<times> int \<times> reader \<times> reader \<times> 's) option" where
  "apply_control restoreDiff restoreExtra newSize c st =
     (case st of (oldOff, newOff, dr, er, s) \<Rightarrow>
        if \<not> ok64 (newOff + pc_diffLength c) then None
        else if newSize < newOff + pc_diffLength c then Some (Inl (PATCH_INVALID_PATCH, s))
        else (case restoreDiff c oldOff newOff dr s of
          None \<Rightarrow> None
        | Some (rc, dr', s') \<Rightarrow>
            if rc \<noteq> 0 then Some (Inl (rc, s'))
            else let oldOff' = oldOff + pc_diffLength c; newOff' = newOff + pc_diffLength c in
              if \<not> ok64 oldOff' \<or> \<not> ok64 (newOff' + pc_extraLength c) then None
              else if newSize < newOff' + pc_extraLength c then Some (Inl (PATCH_INVALID_PATCH, s'))
              else (case restoreExtra c newOff' er s' of
                None \<Rightarrow> None
              | Some (rc, er', s'') \<Rightarrow>
                  if rc \<noteq> 0 then Some (Inl (rc, s''))
                  else let oldOff'' = oldOff' + pc_offsetIncrement c in
                    if \<not> ok64 oldOff'' then None
                    else Some (Inr (oldOff'', newOff' + pc_extraLength c, dr', er', s'')))))"

function apply_loop ::
    "'s restore_diff \<Rightarrow> 's restore_extra \<Rightarrow> int \<Rightarrow> reader \<Rightarrow> int \<times> int \<times> reader \<times> reader \<times> 's \<Rightarrow> (int \<times> 's) option" where
  "apply_loop restoreDiff restoreExtra newSize cr st =
     (if fst (snd st) < newSize then
        (case ReadControlData cr of
           (Inl rc, _) \<Rightarrow> Some (rc, snd (snd (snd (snd st))))
         | (Inr c, cr') \<Rightarrow>
             (case apply_control restoreDiff restoreExtra newSize c st of
                None \<Rightarrow> None
              | Some (Inl r) \<Rightarrow> Some r
              | Some (Inr st') \<Rightarrow> apply_loop restoreDiff restoreExtra newSize cr' st'))
      else Some (0, snd (snd (snd (snd st)))))"
  by pat_completeness auto
termination
  by (relation "measure (\<lambda>(rdf, rex, n, cr, st). case cr of None \<Rightarrow> 0 | Some bs \<Rightarrow> length bs)")
    (auto dest!: ReadControlData_shrinks [OF sym])

declare apply_loop.simps [simp del]

text \<open>\<open>ApplyPatch\<close>; \<open>resize\<close> is what the subclass does to its target once the header is read.\<close>

definition ApplyPatch ::
    "(bytes \<Rightarrow> bytes) \<Rightarrow> (int \<Rightarrow> 's \<Rightarrow> 's) \<Rightarrow> 's restore_diff \<Rightarrow> 's restore_extra \<Rightarrow> patch_buffer \<Rightarrow> 's \<Rightarrow>
     (int \<times> 's) option" where
  "ApplyPatch decompress resize restoreDiff restoreExtra p s =
     (case ReadHeader decompress p of
        None \<Rightarrow> None
      | Some (Inl _) \<Rightarrow> Some (-1, s)
      | Some (Inr h) \<Rightarrow>
          apply_loop restoreDiff restoreExtra (hdr_newSize h) (hdr_control h)
            (0, 0, hdr_diff h, hdr_extra h, resize (hdr_newSize h) s))"

section \<open>The two targets\<close>

text \<open>The old bytes are added where the old offset falls inside the old data.\<close>

fun add_old :: "bytes \<Rightarrow> int \<Rightarrow> bytes \<Rightarrow> bytes" where
  "add_old old off [] = []"
| "add_old old off (d # ds) =
     (if 0 \<le> off \<and> off < int (length old) then d + old ! nat off else d) # add_old old (off + 1) ds"

definition Buffer_resize :: "int \<Rightarrow> bytes \<Rightarrow> bytes" where
  "Buffer_resize n buf = take (nat n) buf @ replicate (nat n - length buf) 0"

text \<open>Storing into \<open>newData_\<close> at a signed offset; None outside the vector.\<close>

definition store_at :: "int \<Rightarrow> bytes \<Rightarrow> bytes \<Rightarrow> bytes option" where
  "store_at off d buf =
     (if d = [] then Some buf
      else if 0 \<le> off \<and> off + int (length d) \<le> int (length buf) then Some (blit (nat off) d buf) else None)"

definition Buffer_RestoreDiffData :: "bytes \<Rightarrow> bytes restore_diff" where
  "Buffer_RestoreDiffData old c oldOff newOff r buf =
     (if pc_diffLength c \<le> 0 then Some (0, r, buf)
      else case ReadData r (nat (pc_diffLength c)) of
        (rc, d, r') \<Rightarrow>
          if rc \<noteq> 0 then map_option (\<lambda>b. (rc, r', b)) (store_at newOff d buf)
          else map_option (\<lambda>b. (0, r', b)) (store_at newOff (add_old old oldOff d) buf))"

definition Buffer_RestoreExtraData :: "bytes restore_extra" where
  "Buffer_RestoreExtraData c newOff r buf =
     (if pc_extraLength c \<le> 0 then Some (0, r, buf)
      else case ReadData r (nat (pc_extraLength c)) of
        (rc, d, r') \<Rightarrow> map_option (\<lambda>b. (rc, r', b)) (store_at newOff d buf))"

text \<open>
  The stream variant reads the old data of a memory stream in place. For any other stream it
  passes an empty \<open>PkgBuffer\<close> to \<open>Read\<close>, which every stream class refuses. Without a stream at all
  (\<open>No_Stream\<close>, a null pointer) the first difference is undefined.
\<close>

datatype old_stream = Memory_Stream bytes | Other_Stream | No_Stream

abbreviation (input) PKG_INVALID_STREAM :: int where
  "PKG_INVALID_STREAM \<equiv> 108"

text \<open>The conversion of a signed offset to \<open>size_t\<close>.\<close>

definition size_of_int :: "int \<Rightarrow> nat" where
  "size_of_int i = nat (i mod 2 ^ 64)"

type_synonym 's patch_writer = "nat \<Rightarrow> bytes \<Rightarrow> 's \<Rightarrow> int \<times> 's"

definition Stream_RestoreDiffData :: "old_stream \<Rightarrow> 's patch_writer \<Rightarrow> 's restore_diff" where
  "Stream_RestoreDiffData stream write c oldOff newOff r s =
     (if pc_diffLength c \<le> 0 then Some (0, r, s)
      else case ReadData r (nat (pc_diffLength c)) of
        (rc, d, r') \<Rightarrow>
          if rc \<noteq> 0 then Some (rc, r', s)
          else case stream of
            No_Stream \<Rightarrow> None
          | Other_Stream \<Rightarrow> Some (PKG_INVALID_STREAM, r', s)
          | Memory_Stream old \<Rightarrow>
              (case write (size_of_int newOff) (add_old old oldOff d) s of (rc, s') \<Rightarrow> Some (rc, r', s')))"

definition Stream_RestoreExtraData :: "'s patch_writer \<Rightarrow> 's restore_extra" where
  "Stream_RestoreExtraData write c newOff r s =
     (if pc_extraLength c \<le> 0 then Some (0, r, s)
      else case ReadData r (nat (pc_extraLength c)) of
        (rc, d, r') \<Rightarrow>
          if rc \<noteq> 0 then Some (rc, r', s)
          else (case write (size_of_int newOff) d s of (rc, s') \<Rightarrow> Some (rc, r', s')))"

definition BlocksBufferPatch_ApplyPatch ::
    "(bytes \<Rightarrow> bytes) \<Rightarrow> patch_buffer \<Rightarrow> bytes \<Rightarrow> bytes \<Rightarrow> (int \<times> bytes) option" where
  "BlocksBufferPatch_ApplyPatch decompress p old newData =
     ApplyPatch decompress Buffer_resize (Buffer_RestoreDiffData old) Buffer_RestoreExtraData p newData"

definition BlocksStreamPatch_ApplyPatch ::
    "(bytes \<Rightarrow> bytes) \<Rightarrow> 's patch_writer \<Rightarrow> patch_buffer \<Rightarrow> old_stream \<Rightarrow> 's \<Rightarrow> (int \<times> 's) option" where
  "BlocksStreamPatch_ApplyPatch decompress write p stream s =
     ApplyPatch decompress (\<lambda>_ s. s) (Stream_RestoreDiffData stream write)
       (Stream_RestoreExtraData write) p s"

section \<open>Writers\<close>

text \<open>
  \<open>FilePatchWriter\<close>: an output file stream. \<open>fw_left\<close> is what the file system still takes; the state
  of the stream after a write is never looked at.
\<close>

record file_writer =
  fw_init :: bool
  fw_data :: bytes
  fw_left :: nat

definition FilePatchWriter_Init :: "bool \<Rightarrow> file_writer \<Rightarrow> int \<times> file_writer" where
  "FilePatchWriter_Init opens fw =
     (if fw_init fw then (-1, fw)
      else if \<not> opens then (-1, fw)
      else (0, fw\<lparr>fw_init := True, fw_data := []\<rparr>))"

definition FilePatchWriter_Write :: "file_writer patch_writer" where
  "FilePatchWriter_Write start d fw =
     (if \<not> fw_init fw then (-1, fw)
      else if d = [] then (0, fw)
      else (0, fw\<lparr>fw_data := fw_data fw @ take (fw_left fw) d, fw_left := fw_left fw - length d\<rparr>))"

definition FilePatchWriter_Finish :: "file_writer \<Rightarrow> int \<times> file_writer" where
  "FilePatchWriter_Finish fw = (if \<not> fw_init fw then (-1, fw) else (0, fw\<lparr>fw_init := False\<rparr>))"

text \<open>\<open>ImagePatchWriter\<close>: what passes through it is hashed and handed to the callback.\<close>

record 's image_writer =
  iw_init :: bool
  iw_hashed :: bytes
  iw_target :: 's

definition ImagePatchWriter_new :: "'s \<Rightarrow> 's image_writer" where
  "ImagePatchWriter_new s = \<lparr>iw_init = False, iw_hashed = [], iw_target = s\<rparr>"

definition ImagePatchWriter_Init :: "'s image_writer \<Rightarrow> int \<times> 's image_writer" where
  "ImagePatchWriter_Init iw =
     (if iw_init iw then (-1, iw) else (0, iw\<lparr>iw_init := True, iw_hashed := []\<rparr>))"

definition ImagePatchWriter_Write :: "'s patch_writer \<Rightarrow> 's image_writer patch_writer" where
  "ImagePatchWriter_Write callback start d iw =
     (if \<not> iw_init iw then (-1, iw)
      else if d = [] then (0, iw)
      else case callback start d (iw_target iw) of
        (rc, s') \<Rightarrow> (rc, iw\<lparr>iw_hashed := iw_hashed iw @ d, iw_target := s'\<rparr>))"

text \<open>\<open>Finish\<close> returns \<open>std::string::compare\<close>, zero only for equal strings.\<close>

definition ImagePatchWriter_Finish ::
    "(bytes \<Rightarrow> string) \<Rightarrow> string \<Rightarrow> 's image_writer \<Rightarrow> bool \<times> 's image_writer" where
  "ImagePatchWriter_Finish sha256_hex expected iw =
     (if \<not> iw_init iw then (False, iw)
      else (sha256_hex (iw_hashed iw) = expected, iw\<lparr>iw_init := False\<rparr>))"

text \<open>
  The overload of \<open>ApplyBlockPatch\<close> that the block commands use: success is the conjunction of a
  successful patch and the right hash.
\<close>

definition ApplyBlockPatch_writer ::
    "(bytes \<Rightarrow> bytes) \<Rightarrow> (bytes \<Rightarrow> string) \<Rightarrow> 's patch_writer \<Rightarrow> patch_buffer \<Rightarrow> bytes \<Rightarrow> string \<Rightarrow> 's \<Rightarrow>
     (bool \<times> 's) option" where
  "ApplyBlockPatch_writer decompress sha256_hex callback p old expected s =
     (case ImagePatchWriter_Init (ImagePatchWriter_new s) of
        (rc, iw) \<Rightarrow>
          if rc \<noteq> 0 then Some (False, iw_target iw)
          else (case BlocksStreamPatch_ApplyPatch decompress (ImagePatchWriter_Write callback) p
                    (Memory_Stream old) iw of
              None \<Rightarrow> None
            | Some (rc, iw') \<Rightarrow>
                if rc \<noteq> 0 then Some (False, iw_target iw')
                else (case ImagePatchWriter_Finish sha256_hex expected iw' of
                    (ok, iw'') \<Rightarrow> Some (ok, iw_target iw''))))"

section \<open>What a patch means\<close>

text \<open>The reference reading of the format: the new data the controls describe.\<close>

fun replay :: "bytes \<Rightarrow> int \<Rightarrow> patch_control list \<Rightarrow> bytes \<Rightarrow> bytes \<Rightarrow> bytes" where
  "replay old off [] ds es = []"
| "replay old off (c # cs) ds es =
     add_old old off (take (nat (pc_diffLength c)) ds) @ take (nat (pc_extraLength c)) es @
     replay old (off + pc_diffLength c + pc_offsetIncrement c) cs
       (drop (nat (pc_diffLength c)) ds) (drop (nat (pc_extraLength c)) es)"

text \<open>The controls describe exactly \<open>n\<close> bytes and find the data they ask for.\<close>

fun fits :: "nat \<Rightarrow> int \<Rightarrow> patch_control list \<Rightarrow> bytes \<Rightarrow> bytes \<Rightarrow> bool" where
  "fits n off [] ds es \<longleftrightarrow> n = 0"
| "fits n off (c # cs) ds es \<longleftrightarrow>
     0 \<le> pc_diffLength c \<and> 0 \<le> pc_extraLength c \<and> \<bar>pc_offsetIncrement c\<bar> < 2 ^ 63 \<and>
     nat (pc_diffLength c) + nat (pc_extraLength c) \<le> n \<and>
     nat (pc_diffLength c) \<le> length ds \<and> nat (pc_extraLength c) \<le> length es \<and>
     ok64 (off + pc_diffLength c) \<and> ok64 (off + pc_diffLength c + pc_offsetIncrement c) \<and>
     fits (n - nat (pc_diffLength c) - nat (pc_extraLength c)) (off + pc_diffLength c + pc_offsetIncrement c)
       cs (drop (nat (pc_diffLength c)) ds) (drop (nat (pc_extraLength c)) es)"

definition encode_controls :: "patch_control list \<Rightarrow> bytes" where
  "encode_controls cs = concat (List.map (\<lambda>c. WriteLE64 (pc_diffLength c) @ WriteLE64 (pc_extraLength c)
     @ WriteLE64 (pc_offsetIncrement c)) cs)"

lemma length_add_old [simp]: "length (add_old old off ds) = length ds"
  by (induction old off ds rule: add_old.induct) auto

lemma add_old_eq_Nil [simp]: "add_old old off ds = [] \<longleftrightarrow> ds = []"
  by (cases ds) auto

lemma replay_0: "fits 0 off cs ds es \<Longrightarrow> replay old off cs ds es = []"
  by (induction cs arbitrary: off ds es) auto

lemma length_replay: "fits n off cs ds es \<Longrightarrow> length (replay old off cs ds es) = n"
  by (induction cs arbitrary: n off ds es) (auto simp: min_def)

lemma ReadControlData_encode:
  assumes "\<bar>pc_diffLength c\<bar> < 2 ^ 63" "\<bar>pc_extraLength c\<bar> < 2 ^ 63" "\<bar>pc_offsetIncrement c\<bar> < 2 ^ 63"
  shows "ReadControlData (Some (encode_controls (c # cs) @ rest)) = (Inr c, Some (encode_controls cs @ rest))"
proof -
  have t: "take 8 (WriteLE64 v @ xs) = WriteLE64 v" "drop 8 (WriteLE64 v @ xs) = xs" for v xs
    by simp_all
  have r: "ReadLE64 (WriteLE64 v) = v" if "\<bar>v\<bar> < 2 ^ 63" for v
    using ReadLE64_WriteLE64 [OF that, of "[]"] by (simp only: append_Nil2)
  have "encode_controls (c # cs) @ rest = WriteLE64 (pc_diffLength c) @ WriteLE64 (pc_extraLength c)
      @ WriteLE64 (pc_offsetIncrement c) @ encode_controls cs @ rest"
    by (simp add: encode_controls_def)
  then show ?thesis
    by (simp add: ReadControlData_def ReadData_def t r [OF assms(1)] r [OF assms(2)] r [OF assms(3)]
        del: take_append drop_append)
qed

text \<open>
  The contract between the loop and its targets: after \<open>out\<close> bytes of a file of \<open>n\<close>, a target that
  \<open>holds\<close> them takes what the next control says and holds the longer output.
\<close>

locale patch_target =
  fixes restoreDiff :: "'s restore_diff"
    and restoreExtra :: "'s restore_extra"
    and old :: bytes
    and holds :: "nat \<Rightarrow> bytes \<Rightarrow> 's \<Rightarrow> bool"
  assumes diff_law: "holds n out s \<Longrightarrow> 0 \<le> pc_diffLength c \<Longrightarrow>
      length out + nat (pc_diffLength c) \<le> n \<Longrightarrow> nat (pc_diffLength c) \<le> length bs \<Longrightarrow>
      \<exists>s'. restoreDiff c off (int (length out)) (Some bs) s = Some (0, Some (drop (nat (pc_diffLength c)) bs), s') \<and>
        holds n (out @ add_old old off (take (nat (pc_diffLength c)) bs)) s'"
    and extra_law: "holds n out s \<Longrightarrow> 0 \<le> pc_extraLength c \<Longrightarrow>
      length out + nat (pc_extraLength c) \<le> n \<Longrightarrow> nat (pc_extraLength c) \<le> length bs \<Longrightarrow>
      \<exists>s'. restoreExtra c (int (length out)) (Some bs) s = Some (0, Some (drop (nat (pc_extraLength c)) bs), s') \<and>
        holds n (out @ take (nat (pc_extraLength c)) bs) s'"
begin

lemma apply_control_ok:
  assumes "holds n out s" and "fits k off (c # cs) ds es" and "n = length out + k" and "n < 2 ^ 63"
  shows "\<exists>s'. apply_control restoreDiff restoreExtra (int n) c (off, int (length out), Some ds, Some es, s) =
      Some (Inr (off + pc_diffLength c + pc_offsetIncrement c,
        int (length out) + pc_diffLength c + pc_extraLength c,
        Some (drop (nat (pc_diffLength c)) ds), Some (drop (nat (pc_extraLength c)) es), s')) \<and>
    holds n (out @ add_old old off (take (nat (pc_diffLength c)) ds) @ take (nat (pc_extraLength c)) es) s'"
proof -
  let ?out' = "out @ add_old old off (take (nat (pc_diffLength c)) ds)"
  obtain s1 where s1: "restoreDiff c off (int (length out)) (Some ds) s
      = Some (0, Some (drop (nat (pc_diffLength c)) ds), s1)" "holds n ?out' s1"
    using diff_law [OF assms(1), of c ds off] assms by auto
  have len: "int (length ?out') = int (length out) + pc_diffLength c"
    using assms by (simp add: min_absorb2)
  obtain s2 where s2: "restoreExtra c (int (length ?out')) (Some es) s1
      = Some (0, Some (drop (nat (pc_extraLength c)) es), s2)"
    "holds n (?out' @ take (nat (pc_extraLength c)) es) s2"
    using extra_law [OF s1(2), of c es] assms by (auto simp: min_absorb2)
  have "ok64 (int (length out) + pc_diffLength c)"
    "ok64 (int (length out) + pc_diffLength c + pc_extraLength c)"
    "pc_diffLength c + pc_extraLength c \<le> int k"
    using assms by (auto simp: ok64_def)
  then show ?thesis
    using assms s1(1) s2 len by (simp add: apply_control_def Let_def)
qed

lemma apply_loop_replay:
  "fits k off cs ds es \<Longrightarrow> holds n out s \<Longrightarrow> n = length out + k \<Longrightarrow> n < 2 ^ 63 \<Longrightarrow>
   \<exists>s'. apply_loop restoreDiff restoreExtra (int n) (Some (encode_controls cs @ rest))
       (off, int (length out), Some ds, Some es, s) = Some (0, s') \<and>
     holds n (out @ replay old off cs ds es) s'"
proof (induction cs arbitrary: k off ds es out s)
  case Nil
  then show ?case by (auto simp: apply_loop.simps [of restoreDiff])
next
  case (Cons c cs)
  show ?case
  proof (cases "k = 0")
    case True
    then show ?thesis using Cons.prems replay_0 [of off "c # cs" ds es old]
      by (auto simp: apply_loop.simps [of restoreDiff])
  next
    case False
    let ?dl = "nat (pc_diffLength c)" and ?el = "nat (pc_extraLength c)"
    let ?out' = "out @ add_old old off (take ?dl ds) @ take ?el es"
    let ?off' = "off + pc_diffLength c + pc_offsetIncrement c"
    obtain s' where s': "apply_control restoreDiff restoreExtra (int n) c
        (off, int (length out), Some ds, Some es, s) =
        Some (Inr (?off', int (length out) + pc_diffLength c + pc_extraLength c, Some (drop ?dl ds), Some (drop ?el es), s'))"
      "holds n ?out' s'"
      using apply_control_ok [OF Cons.prems(2,1,3,4)] by blast
    have len: "int (length ?out') = int (length out) + pc_diffLength c + pc_extraLength c"
      using Cons.prems(1) by (simp add: min_absorb2)
    have k': "n = length ?out' + (k - ?dl - ?el)" using Cons.prems(1,3) by (simp add: min_absorb2)
    have fits': "fits (k - ?dl - ?el) ?off' cs (drop ?dl ds) (drop ?el es)" using Cons.prems(1) by simp
    have small: "\<bar>pc_diffLength c\<bar> < 2 ^ 63" "\<bar>pc_extraLength c\<bar> < 2 ^ 63" "\<bar>pc_offsetIncrement c\<bar> < 2 ^ 63"
      using Cons.prems(1,3,4) by auto
    have "apply_loop restoreDiff restoreExtra (int n) (Some (encode_controls (c # cs) @ rest))
        (off, int (length out), Some ds, Some es, s) =
      apply_loop restoreDiff restoreExtra (int n) (Some (encode_controls cs @ rest))
        (?off', int (length ?out'), Some (drop ?dl ds), Some (drop ?el es), s')"
      using False Cons.prems(3) s'(1) ReadControlData_encode [OF small]
      unfolding len by (subst apply_loop.simps) simp
    with Cons.IH [OF fits' s'(2) k' Cons.prems(4)] show ?thesis by simp
  qed
qed

end

text \<open>The vector that \<open>BlocksBufferPatch\<close> fills.\<close>

lemma store_at_ok:
  assumes "length out + length d \<le> length buf" "take (length out) buf = out"
  shows "\<exists>b. store_at (int (length out)) d buf = Some b \<and> length b = length buf \<and>
    take (length out + length d) b = out @ d"
  using assms by (auto simp: store_at_def blit_def min_def)

interpretation buffer_target: patch_target "Buffer_RestoreDiffData old" Buffer_RestoreExtraData old
  "\<lambda>n out buf. length buf = n \<and> length out \<le> n \<and> take (length out) buf = out" for old
proof (unfold_locales, goal_cases)
  case (1 n out s c bs off)
  let ?d = "add_old old off (take (nat (pc_diffLength c)) bs)"
  show ?case
  proof (cases "pc_diffLength c = 0")
    case False
    have "\<exists>b. store_at (int (length out)) ?d s = Some b \<and> length b = length s \<and>
        take (length out + length ?d) b = out @ ?d"
      by (rule store_at_ok) (use 1 in \<open>simp_all add: min_def\<close>)
    with 1 False show ?thesis by (auto simp: Buffer_RestoreDiffData_def ReadData_def min_def)
  qed (use 1 in \<open>simp add: Buffer_RestoreDiffData_def\<close>)
next
  case (2 n out s c bs)
  let ?d = "take (nat (pc_extraLength c)) bs"
  show ?case
  proof (cases "pc_extraLength c = 0")
    case False
    have "\<exists>b. store_at (int (length out)) ?d s = Some b \<and> length b = length s \<and>
        take (length out + length ?d) b = out @ ?d"
      by (rule store_at_ok) (use 2 in \<open>simp_all add: min_def\<close>)
    with 2 False show ?thesis by (auto simp: Buffer_RestoreExtraData_def ReadData_def min_def)
  qed (use 2 in \<open>simp add: Buffer_RestoreExtraData_def\<close>)
qed

text \<open>
  A writer that takes what it is given while it has room is a target too; \<open>room\<close> counts the bytes
  it still accepts and \<open>taken\<close> are those it has.
\<close>

locale accepting_writer =
  fixes put :: "'s patch_writer" and taken :: "'s \<Rightarrow> bytes" and room :: "'s \<Rightarrow> nat"
  assumes put_law: "d \<noteq> [] \<Longrightarrow> length d \<le> room s \<Longrightarrow>
    \<exists>s'. put start d s = (0, s') \<and> taken s' = taken s @ d \<and> room s' = room s - length d"

sublocale accepting_writer \<subseteq> stream_target: patch_target "Stream_RestoreDiffData (Memory_Stream old) put"
  "Stream_RestoreExtraData put" old "\<lambda>n out s. taken s = out \<and> length out \<le> n \<and> n - length out \<le> room s"
  for old
proof (unfold_locales, goal_cases)
  case (1 n out s c bs off)
  let ?d = "add_old old off (take (nat (pc_diffLength c)) bs)"
  show ?case
  proof (cases "pc_diffLength c = 0")
    case False
    with 1 have "?d \<noteq> []" "length ?d \<le> room s" by (auto simp: min_def)
    from put_law [OF this, of "size_of_int (int (length out))"] 1 False show ?thesis
      by (auto simp: Stream_RestoreDiffData_def ReadData_def min_absorb2 simp flip: diff_diff_left
          intro!: diff_le_mono)
  qed (use 1 in \<open>simp add: Stream_RestoreDiffData_def\<close>)
next
  case (2 n out s c bs)
  let ?d = "take (nat (pc_extraLength c)) bs"
  show ?case
  proof (cases "pc_extraLength c = 0")
    case False
    with 2 have "?d \<noteq> []" "length ?d \<le> room s" by (auto simp: min_def)
    from put_law [OF this, of "size_of_int (int (length out))"] 2 False show ?thesis
      by (auto simp: Stream_RestoreExtraData_def ReadData_def min_absorb2 simp flip: diff_diff_left
          intro!: diff_le_mono)
  qed (use 2 in \<open>simp add: Stream_RestoreExtraData_def\<close>)
qed

lemma ImagePatchWriter_accepting:
  assumes "accepting_writer put taken room"
  shows "accepting_writer (ImagePatchWriter_Write put) iw_hashed
    (\<lambda>iw. if iw_init iw then room (iw_target iw) else 0)"
proof (unfold_locales, goal_cases)
  case (1 d iw start)
  then have "iw_init iw" by (cases "iw_init iw") auto
  with accepting_writer.put_law [OF assms 1(1), of "iw_target iw" start] 1 show ?case
    by (auto simp: ImagePatchWriter_Write_def)
qed

interpretation file_target: accepting_writer FilePatchWriter_Write fw_data
  "\<lambda>fw. if fw_init fw then fw_left fw else 0"
proof (unfold_locales, goal_cases)
  case (1 d s start)
  then have "fw_init s" by (cases "fw_init s") auto
  with 1 show ?case by (simp add: FilePatchWriter_Write_def)
qed

end
