(* ===== verification/Bs_Roundtrip.thy ===== *)
theory Bs_Roundtrip
  imports Bs_Diff Bs_Patch
begin

text \<open>
  Making a patch and applying it: what \<open>blocks_diff.cpp\<close> writes is read back by
  \<open>blocks_patch.cpp\<close> into the same new data, whatever order the suffix array has.
\<close>

section \<open>The diff and extra data of a control\<close>

definition to_patch :: "control_data \<Rightarrow> patch_control" where
  "to_patch c = \<lparr>pc_diffLength = diffLength c, pc_extraLength = extraLength c,
     pc_offsetIncrement = offsetIncrement c\<rparr>"

lemma control_bytes_encode: "control_bytes cs = encode_controls (List.map to_patch cs)"
  by (simp add: control_bytes_def encode_controls_def to_patch_def comp_def)

lemma slice_Suc: "0 \<le> i \<Longrightarrow> i < int (length b) \<Longrightarrow>
  slice (nat i) (Suc n) b = b ! nat i # slice (nat (i + 1)) n b"
  by (simp add: slice_def nat_add_distrib Cons_nth_drop_Suc [symmetric] nat_less_iff)

lemma diff_piece_ok:
  "0 \<le> i \<Longrightarrow> 0 \<le> j \<Longrightarrow> i + int n \<le> int (length new) \<Longrightarrow> j + int n \<le> int (length old) \<Longrightarrow>
   \<exists>d. diff_piece new old i j n = Some d \<and> length d = n \<and> add_old old j d = slice (nat i) n new"
proof (induction new old i j n rule: diff_piece.induct)
  case (2 new old i j n)
  have rds: "rd new i = Some (new ! nat i)" "rd old j = Some (old ! nat j)" using 2 by simp_all
  obtain d where "diff_piece new old (i + 1) (j + 1) n = Some d" "length d = n"
      "add_old old (j + 1) d = slice (nat (i + 1)) n new"
    using 2 by (auto simp: algebra_simps)
  with rds 2 show ?case by (simp add: slice_Suc)
qed simp

lemma diff_piece_append:
  "diff_piece new old i j (m + n) =
    (case (diff_piece new old i j m, diff_piece new old (i + int m) (j + int m) n) of
       (Some d, Some e) \<Rightarrow> Some (d @ e) | _ \<Rightarrow> None)"
proof (induction m arbitrary: i j)
  case 0
  show ?case by (simp split: option.splits)
next
  case (Suc m)
  have "i + int (Suc m) = i + 1 + int m" "j + int (Suc m) = j + 1 + int m" by simp_all
  then show ?case
    by (simp only: add_Suc diff_piece.simps Suc.IH) (auto split: option.splits)
qed

lemma diff_pieces_piece:
  "off \<le> diffLength c \<Longrightarrow> diff_pieces new old c off =
    diff_piece new old (diffNewStart c + off) (diffOldStart c + off) (nat (diffLength c - off))"
proof (induction new old c off rule: diff_pieces.induct)
  case (1 new old c off)
  show ?case
  proof (cases "off < diffLength c")
    case False
    with 1 show ?thesis by (simp add: diff_pieces.simps [of new])
  next
    case True
    define k where "k = (if diffLength c < off + IGMDIFF_LIMIT_UNIT then diffLength c - off else IGMDIFF_LIMIT_UNIT)"
    have k: "0 < k" "off + k \<le> diffLength c" using True by (simp_all add: k_def)
    have n: "nat (diffLength c - off) = nat k + nat (diffLength c - (off + k))"
      using k by (simp flip: nat_add_distrib)
    have "diff_pieces new old c off =
      (case (diff_piece new old (diffNewStart c + off) (diffOldStart c + off) (nat k), diff_pieces new old c (off + k)) of
              (Some d, Some ds) \<Rightarrow> Some (d @ ds)
            | _ \<Rightarrow> None)"
      using True by (subst diff_pieces.simps) (simp only: if_True Let_def flip: k_def)
    also have "diff_pieces new old c (off + k) =
      diff_piece new old (diffNewStart c + (off + k)) (diffOldStart c + (off + k)) (nat (diffLength c - (off + k)))"
      using "1.IH" [OF True k_def k(2)] by simp
    finally show ?thesis
      using k by (simp only: n diff_piece_append) (simp add: algebra_simps)
  qed
qed

lemma controls_describe:
  "ctrls_ok new old scan pos cs \<Longrightarrow> length new < 2 ^ 62 \<Longrightarrow> length old < 2 ^ 62 \<Longrightarrow>
   \<exists>ds es. diff_bytes new old cs = Some ds \<and> extra_bytes new cs = Some es \<and>
     fits (length new - nat scan) pos (List.map to_patch cs) ds es \<and>
     replay old pos (List.map to_patch cs) ds es = drop (nat scan) new"
proof (induction cs arbitrary: scan pos)
  case (Cons c cs)
  let ?dl = "diffLength c" and ?el = "extraLength c"
  have c: "diffNewStart c = scan" "diffOldStart c = pos" "extraNewStart c = scan + ?dl" "0 \<le> ?dl" "0 \<le> ?el"
    "0 \<le> scan" "0 \<le> pos" "pos + ?dl \<le> int (length old)" "scan + ?dl + ?el \<le> int (length new)"
    "\<bar>offsetIncrement c\<bar> \<le> int (length old)"
    "ctrls_ok new old (scan + ?dl + ?el) (pos + ?dl + offsetIncrement c) cs"
    using Cons.prems(1) by simp_all
  obtain ds es where rest: "diff_bytes new old cs = Some ds" "extra_bytes new cs = Some es"
    "fits (length new - nat (scan + ?dl + ?el)) (pos + ?dl + offsetIncrement c) (List.map to_patch cs) ds es"
    "replay old (pos + ?dl + offsetIncrement c) (List.map to_patch cs) ds es = drop (nat (scan + ?dl + ?el)) new"
    using Cons.IH [OF c(11) Cons.prems(2,3)] by blast
  obtain d where d: "diff_piece new old scan pos (nat ?dl) = Some d" "length d = nat ?dl"
      "add_old old pos d = slice (nat scan) (nat ?dl) new"
    using diff_piece_ok [of scan pos "nat ?dl" new old] c by auto
  have d': "(if ?dl \<le> 0 then Some [] else diff_pieces new old c 0) = Some d"
    using d c diff_pieces_piece [of 0 c new old] by (cases "?dl = 0") auto
  define e where "e = slice (nat (scan + ?dl)) (nat ?el) new"
  have e: "length e = nat ?el" using c by (simp add: e_def)
  have e': "extra_bytes new (c # cs) = Some (e @ es)"
    using rest(2) c by (cases "?el = 0") (auto simp: e_def)
  have n: "nat (scan + ?dl + ?el) = nat scan + nat ?dl + nat ?el" using c by (simp add: nat_add_distrib)
  have "drop (nat scan) new = slice (nat scan) (nat ?dl) new @ e @ drop (nat (scan + ?dl + ?el)) new"
    using c by (simp add: slice_def e_def nat_add_distrib ac_simps)
      (metis append_take_drop_id drop_drop add.commute)
  then have "replay old pos (List.map to_patch (c # cs)) (d @ ds) (e @ es) = drop (nat scan) new"
    using d e rest(4) by (simp add: to_patch_def)
  moreover have "fits (length new - nat scan) pos (List.map to_patch (c # cs)) (d @ ds) (e @ es)"
  proof -
    have "nat (scan + ?dl + ?el) \<le> length new" using c by (simp add: nat_le_iff)
    then have "nat ?dl + nat ?el \<le> length new - nat scan" using n by linarith
    moreover have "length new - nat scan - nat ?dl - nat ?el = length new - nat (scan + ?dl + ?el)"
      using n by simp
    moreover have old: "int (length old) < 2 ^ 62" using Cons.prems(3) by simp
    moreover have "ok64 (pos + ?dl)" "ok64 (pos + ?dl + offsetIncrement c)"
      using c old by (simp_all add: ok64_def abs_le_iff)
    moreover have "\<bar>offsetIncrement c\<bar> < 2 ^ 63" using c(10) old by simp
    ultimately show ?thesis
      using rest(3) c(4,5) d(2) e by (simp add: to_patch_def)
  qed
  ultimately show ?case using rest(1) d' e' by simp
qed simp

section \<open>The whole file\<close>

lemma length_patch_header [simp]: "length (patch_header a b c) = 32"
  by (simp add: patch_header_def BSDIFF_MAGIC_def)

lemma ReadHeader_patch:
  assumes "0 \<le> a" "0 \<le> b" "0 \<le> n" "n < 2 ^ 63" "a = int (length C)" "b = int (length D)"
    and "length C + length D + length E < 2 ^ 62" "C @ D @ E \<noteq> []"
  shows "ReadHeader decompress \<lparr>patch_data = patch_header a b n @ C @ D @ E, patch_start = 0\<rparr> =
    Some (Inr \<lparr>hdr_newSize = n, hdr_control = Some (decompress C), hdr_diff = Some (decompress D),
      hdr_extra = Some (decompress E)\<rparr>)"
proof -
  let ?p = "patch_header a b n @ C @ D @ E"
  have m: "length BSDIFF_MAGIC = 8" by (simp add: BSDIFF_MAGIC_def)
  have h: "take 8 ?p = BSDIFF_MAGIC" "drop 8 ?p = WriteLE64 a @ WriteLE64 b @ WriteLE64 n @ C @ D @ E"
    by (simp_all add: patch_header_def m)
  have h16: "drop 16 ?p = WriteLE64 b @ WriteLE64 n @ C @ D @ E"
    and h24: "drop 24 ?p = WriteLE64 n @ C @ D @ E"
    by (simp_all add: patch_header_def m)
  have small: "\<bar>a\<bar> < 2 ^ 63" "\<bar>b\<bar> < 2 ^ 63" "\<bar>n\<bar> < 2 ^ 63" using assms by auto
  have v: "ReadLE64 (drop 8 ?p) = a" "ReadLE64 (drop 16 ?p) = b" "ReadLE64 (drop 24 ?p) = n"
    unfolding h h16 h24 by (rule ReadLE64_WriteLE64, rule small)+
  have len: "length ?p = 32 + length C + length D + length E" by simp
  have pos: "0 < length C + length D + length E" using assms(8) by auto
  have ok: "ok64 (b + a)" using assms by (simp add: ok64_def)
  have sec: "BZip2_Open decompress ?p 32 (length C) = Some (decompress C)"
    "BZip2_Open decompress ?p (32 + length C) (length D) = Some (decompress D)"
    "BZip2_Open decompress ?p (32 + length C + length D) (length ?p - (32 + length C + length D)) = Some (decompress E)"
    by (simp_all add: BZip2_Open_def)
  show ?thesis
    unfolding ReadHeader_def Let_def patch_buffer.select_convs drop_0 h(1) v
    using assms(1-6) pos ok sec len by simp
qed

text \<open>The codec in the theorems: what bzip2 promises of a compressed stream.\<close>

definition codec_ok :: "(bytes \<Rightarrow> bytes) \<Rightarrow> (bytes \<Rightarrow> bytes) \<Rightarrow> bool" where
  "codec_ok compress decompress \<longleftrightarrow> (\<forall>x. decompress (compress x) = x) \<and> (\<forall>x. compress x \<noteq> [])"

text \<open>What \<open>MakePatch\<close> leaves in the file and what it means.\<close>

lemma MakePatch_describes:
  assumes "sa_ok sa old" "length new < 2 ^ 62" "length old < 2 ^ 62"
  shows "\<exists>cs ds es. MakePatch compress sa new old = Some (patch_header
        (int (length (compress (encode_controls cs)))) (int (length (compress ds))) (int (length new))
        @ compress (encode_controls cs) @ compress ds @ compress es) \<and>
     fits (length new) 0 cs ds es \<and> replay old 0 cs ds es = new"
proof -
  obtain cs where cs: "GetCtrlDatas sa new old = Some cs" "ctrls_ok new old 0 0 cs"
    using GetCtrlDatas_ok [OF assms(1)] by blast
  obtain ds es where d: "diff_bytes new old cs = Some ds" "extra_bytes new cs = Some es"
    "fits (length new) 0 (List.map to_patch cs) ds es" "replay old 0 (List.map to_patch cs) ds es = new"
    using controls_describe [OF cs(2) assms(2,3)] by auto
  have "blit 0 (patch_header a b c) (patch_header 0 0 0 @ xs) = patch_header a b c @ xs" for a b c xs
    by (simp add: blit_def)
  then show ?thesis
    using cs(1) d by (intro exI [of _ "List.map to_patch cs"] exI [of _ ds] exI [of _ es])
      (simp add: MakePatch_def WritePatchData_def Let_def control_bytes_encode)
qed

section \<open>Applying a well-formed patch\<close>

definition patch_file :: "(bytes \<Rightarrow> bytes) \<Rightarrow> nat \<Rightarrow> patch_control list \<Rightarrow> bytes \<Rightarrow> bytes \<Rightarrow> patch_buffer" where
  "patch_file compress n cs ds es = \<lparr>patch_data = patch_header
      (int (length (compress (encode_controls cs)))) (int (length (compress ds))) (int n)
      @ compress (encode_controls cs) @ compress ds @ compress es, patch_start = 0\<rparr>"

lemma ReadHeader_patch_file:
  assumes "codec_ok compress decompress" "n < 2 ^ 62" "length (patch_data (patch_file compress n cs ds es)) < 2 ^ 62"
  shows "ReadHeader decompress (patch_file compress n cs ds es) =
    Some (Inr \<lparr>hdr_newSize = int n, hdr_control = Some (encode_controls cs), hdr_diff = Some ds,
      hdr_extra = Some es\<rparr>)"
proof -
  have "compress (encode_controls cs) \<noteq> []" and d: "decompress (compress x) = x" for x
    using assms(1) by (simp_all add: codec_ok_def)
  then show ?thesis
    using assms(2,3) unfolding patch_file_def by (subst ReadHeader_patch) simp_all
qed

lemma buffer_applies:
  assumes "codec_ok compress decompress" "fits n 0 cs ds es" "n < 2 ^ 62"
    and "length (patch_data (patch_file compress n cs ds es)) < 2 ^ 62"
  shows "BlocksBufferPatch_ApplyPatch decompress (patch_file compress n cs ds es) old buf =
    Some (0, replay old 0 cs ds es)"
proof -
  have start: "length (Buffer_resize (int n) buf) = n \<and> length [] \<le> n \<and>
      take (length []) (Buffer_resize (int n) buf) = []"
    by (simp add: Buffer_resize_def min_def)
  have n: "n = length [] + n" "n < 2 ^ 63" using assms(3) by simp_all
  obtain s' where s': "apply_loop (Buffer_RestoreDiffData old) Buffer_RestoreExtraData (int n)
      (Some (encode_controls cs)) (0, 0, Some ds, Some es, Buffer_resize (int n) buf) = Some (0, s')"
      "length s' = n" "take n s' = replay old 0 cs ds es"
    using buffer_target.apply_loop_replay [OF assms(2) start n, of old "[]"] length_replay [OF assms(2), of old]
    by auto
  then show ?thesis
    by (simp add: BlocksBufferPatch_ApplyPatch_def ApplyPatch_def ReadHeader_patch_file [OF assms(1,3,4)])
qed

context accepting_writer
begin

lemma stream_applies:
  assumes "codec_ok compress decompress" "fits n 0 cs ds es" "n < 2 ^ 62"
    and "length (patch_data (patch_file compress n cs ds es)) < 2 ^ 62"
    and "taken s = []" "n \<le> room s"
  shows "\<exists>s'. BlocksStreamPatch_ApplyPatch decompress put (patch_file compress n cs ds es) (Memory_Stream old) s
    = Some (0, s') \<and> taken s' = replay old 0 cs ds es"
proof -
  have start: "taken s = [] \<and> length [] \<le> n \<and> n - length [] \<le> room s" using assms(5,6) by simp
  have n: "n = length [] + n" "n < 2 ^ 63" using assms(3) by simp_all
  from stream_target.apply_loop_replay [OF assms(2) start n, of old "[]"] show ?thesis
    by (auto simp: BlocksStreamPatch_ApplyPatch_def ApplyPatch_def ReadHeader_patch_file [OF assms(1,3,4)])
qed

end

lemma ImagePatchWriter_passes:
  assumes "accepting_writer put taken room"
  shows "accepting_writer (ImagePatchWriter_Write put) (\<lambda>iw. taken (iw_target iw))
    (\<lambda>iw. if iw_init iw then room (iw_target iw) else 0)"
proof (unfold_locales, goal_cases)
  case (1 d iw start)
  then have "iw_init iw" by (cases "iw_init iw") auto
  with accepting_writer.put_law [OF assms 1(1), of "iw_target iw" start] 1 show ?case
    by (auto simp: ImagePatchWriter_Write_def)
qed

lemma put_keeps:
  "\<forall>start d s. P s \<longrightarrow> P (snd (put start d s)) \<Longrightarrow> put start d s = (rc, s') \<Longrightarrow> P s \<Longrightarrow> P s'"
  by (metis snd_conv)

lemma restore_keeps:
  assumes "\<forall>start d s. P s \<longrightarrow> P (snd (put start d s))" and "P s"
  shows "Stream_RestoreDiffData stream put c i j r s = Some (rc, r', s') \<Longrightarrow> P s'"
    and "Stream_RestoreExtraData put c j r s = Some (rc, r', s') \<Longrightarrow> P s'"
  using assms(2) put_keeps [where P = P and put = put, OF assms(1)]
  by (auto simp: Stream_RestoreDiffData_def Stream_RestoreExtraData_def
      split: prod.splits old_stream.splits if_splits)

lemma apply_control_keeps:
  assumes k: "\<forall>start d s. P s \<longrightarrow> P (snd (put start d s))" and P: "P (snd (snd (snd (snd st))))"
    and ac: "apply_control (Stream_RestoreDiffData stream put) (Stream_RestoreExtraData put) n c st = Some r"
  shows "case r of Inl (_, s) \<Rightarrow> P s | Inr st' \<Rightarrow> P (snd (snd (snd (snd st'))))"
proof -
  obtain i j dr er s where st: "st = (i, j, dr, er, s)" using prod_cases5 by blast
  have Ps: "P s" using P st by simp
  show ?thesis
  proof (cases "Stream_RestoreDiffData stream put c i j dr s")
    case None
    with ac st Ps show ?thesis by (auto simp: apply_control_def split: if_splits)
  next
    case (Some x)
    obtain rc dr' s1 where x: "x = (rc, dr', s1)" using prod_cases3 by blast
    have P1: "P s1" using restore_keeps(1) [OF k Ps] Some x by blast
    show ?thesis
    proof (cases "Stream_RestoreExtraData put c (j + pc_diffLength c) er s1")
      case None
      with ac st Ps P1 Some x show ?thesis by (auto simp: apply_control_def Let_def split: if_splits)
    next
      case e: (Some y)
      obtain rc' er' s2 where y: "y = (rc', er', s2)" using prod_cases3 by blast
      have "P s2" using restore_keeps(2) [OF k P1] e y by blast
      with ac st Ps P1 Some x e y show ?thesis by (auto simp: apply_control_def Let_def split: if_splits)
    qed
  qed
qed

lemma apply_loop_keeps:
  assumes "\<forall>start d s. P s \<longrightarrow> P (snd (put start d s))"
  shows "apply_loop (Stream_RestoreDiffData stream put) (Stream_RestoreExtraData put) n cr st = Some (rc, s') \<Longrightarrow>
    P (snd (snd (snd (snd st)))) \<Longrightarrow> P s'"
proof (induction "Stream_RestoreDiffData stream put" "Stream_RestoreExtraData put" n cr st
    rule: apply_loop.induct)
  case (1 n cr st)
  note step = apply_loop.simps [of _ _ n cr st]
  show ?case
  proof (cases "fst (snd st) < n")
    case False
    with 1 show ?thesis by (simp add: step)
  next
    case True
    obtain x cr' where r: "ReadControlData cr = (x, cr')" by fastforce
    show ?thesis
    proof (cases x)
      case (Inl e)
      with 1 True r show ?thesis by (simp add: step)
    next
      case (Inr c)
      note keep = apply_control_keeps [where P = P, OF assms "1.prems"(2)]
      show ?thesis
      proof (cases "apply_control (Stream_RestoreDiffData stream put) (Stream_RestoreExtraData put) n c st")
        case None
        with "1.prems" True r Inr show ?thesis by (simp add: step)
      next
        case (Some y)
        show ?thesis
        proof (cases y)
          case (Inl z)
          with "1.prems" True r Inr Some keep [OF Some] show ?thesis by (auto simp: step)
        next
          case i: (Inr st')
          have "apply_loop (Stream_RestoreDiffData stream put) (Stream_RestoreExtraData put) n cr' st' = Some (rc, s')"
            using "1.prems"(1) True r Inr Some i by (simp add: step)
          moreover have "P (snd (snd (snd (snd st'))))" using keep [OF Some] i by simp
          ultimately show ?thesis
            using "1.hyps" [OF True r [symmetric] Inr Some i] by blast
        qed
      qed
    qed
  qed
qed

lemma hashed_applies:
  assumes acc: "accepting_writer put taken room"
    and "codec_ok compress decompress" "fits n 0 cs ds es" "n < 2 ^ 62"
    and "length (patch_data (patch_file compress n cs ds es)) < 2 ^ 62" "taken s = []" "n \<le> room s"
  shows "\<exists>s'. ApplyBlockPatch_writer decompress sha256_hex put (patch_file compress n cs ds es) old expected s
    = Some (sha256_hex (replay old 0 cs ds es) = expected, s') \<and> taken s' = replay old 0 cs ds es"
proof -
  let ?iw = "\<lparr>iw_init = True, iw_hashed = [], iw_target = s\<rparr>"
  let ?apply = "BlocksStreamPatch_ApplyPatch decompress (ImagePatchWriter_Write put) (patch_file compress n cs ds es)
    (Memory_Stream old) ?iw"
  obtain iw where iw: "?apply = Some (0, iw)" "iw_hashed iw = replay old 0 cs ds es"
    using accepting_writer.stream_applies [OF ImagePatchWriter_accepting [OF acc] assms(2-5), of ?iw old] assms(7)
    by auto
  have taken: "taken (iw_target iw) = replay old 0 cs ds es"
    using accepting_writer.stream_applies [OF ImagePatchWriter_passes [OF acc] assms(2-5), of ?iw old]
      assms(6,7) iw(1) by auto
  have keep: "\<forall>start d i. iw_init i \<longrightarrow> iw_init (snd (ImagePatchWriter_Write put start d i))"
    by (auto simp: ImagePatchWriter_Write_def split: prod.splits)
  have "iw_init iw"
    using iw(1) apply_loop_keeps [OF keep]
    by (fastforce simp: BlocksStreamPatch_ApplyPatch_def ApplyPatch_def split: option.splits sum.splits)
  with iw taken show ?thesis
    by (auto simp: ApplyBlockPatch_writer_def ImagePatchWriter_Init_def ImagePatchWriter_new_def
        ImagePatchWriter_Finish_def)
qed

section \<open>The size of a patch\<close>

lemma ctrl_loop_count:
  "ctrl_loop sa new old st m = Some cs \<Longrightarrow>
   length cs \<le> (if currentOffset st < int (length new)
     then Suc (nat (int (length new) - (currentOffset st + m))) else 0)"
proof (induction sa new old st m arbitrary: cs rule: ctrl_loop.induct)
  case (1 sa new old st m)
  note step = ctrl_loop.simps [of sa new old st m]
  show ?case
  proof (cases "currentOffset st < int (length new)")
    case False
    with "1.prems" show ?thesis by (simp add: step)
  next
    case True
    obtain score m' st1 where sc: "ComputeOldScore sa new old st m = Some (score, m', st1)"
      using "1.prems" True by (auto simp: step split: option.splits)
    note p = ComputeOldScore_progress [OF sc]
    show ?thesis
    proof (cases "m' = score \<and> currentOffset st1 \<noteq> int (length new)")
      case again: True
      have "ctrl_loop sa new old st1 m' = Some cs" using "1.prems" True sc again by (simp add: step)
      from "1.IH"(1) [OF True sc refl refl again this] p True show ?thesis
        by (auto split: if_splits)
    next
      case False
      obtain lf lb where l: "ComputeLength new old st1 = Some (lf, lb)"
        using "1.prems" True sc False by (auto simp: step split: option.splits if_splits)
      obtain cs' where cs': "ctrl_loop sa new old (after_control st1 lb) m' = Some cs'" "length cs = Suc (length cs')"
        using "1.prems" True sc False l by (auto simp: step split: option.splits if_splits)
      from "1.IH"(2) [OF True sc refl refl False l refl cs'(1)] cs'(2) p True show ?thesis
        by (auto simp: after_control_def split: if_splits)
    qed
  qed
qed

lemma diff_piece_length: "diff_piece new old i j n = Some d \<Longrightarrow> length d = n"
  by (induction new old i j n arbitrary: d rule: diff_piece.induct) (auto split: option.splits)

lemma data_length:
  "ctrls_ok new old scan pos cs \<Longrightarrow> diff_bytes new old cs = Some ds \<Longrightarrow> extra_bytes new cs = Some es \<Longrightarrow>
   length ds + length es \<le> length new - nat scan"
proof (induction cs arbitrary: scan pos ds es)
  case (Cons c cs)
  let ?dl = "diffLength c" and ?el = "extraLength c"
  obtain d ds' where d: "(if ?dl \<le> 0 then Some [] else diff_pieces new old c 0) = Some d"
      "diff_bytes new old cs = Some ds'" "ds = d @ ds'"
    using Cons.prems(2) by (auto split: option.splits)
  have "length d = nat ?dl"
    using d(1) diff_pieces_piece [of 0 c new old] diff_piece_length [of new old _ _ "nat ?dl" d]
    by (auto split: if_splits)
  moreover obtain es' where e: "extra_bytes new cs = Some es'" "length es \<le> nat ?el + length es'"
    using Cons.prems(3) by (auto split: option.splits if_splits)
  moreover have "length ds' + length es' \<le> length new - nat (scan + ?dl + ?el)"
    using Cons.IH [OF _ d(2) e(1), of "scan + ?dl + ?el" "pos + ?dl + offsetIncrement c"] Cons.prems(1) by simp
  moreover have "nat (scan + ?dl + ?el) = nat scan + nat ?dl + nat ?el"
    using Cons.prems(1) by (simp add: nat_add_distrib)
  moreover have "nat (scan + ?dl + ?el) \<le> length new" using Cons.prems(1) by (simp add: nat_le_iff)
  ultimately show ?case unfolding d(3) length_append by arith
qed simp

lemma MakePatch_size:
  assumes "sa_ok sa old" "MakePatch compress sa new old = Some patch" "\<And>x. length (compress x) \<le> length x + k"
  shows "length patch \<le> 56 + 25 * length new + 3 * k"
proof -
  obtain cs where cs: "GetCtrlDatas sa new old = Some cs" "ctrls_ok new old 0 0 cs"
    using GetCtrlDatas_ok [OF assms(1)] by blast
  obtain ds es where d: "diff_bytes new old cs = Some ds" "extra_bytes new cs = Some es"
    using assms(2) cs(1) by (auto simp: MakePatch_def WritePatchData_def Let_def split: option.splits)
  have n: "length cs \<le> Suc (length new)"
    using ctrl_loop_count [of sa new old diff_start 0 cs] cs(1)
    by (auto simp: GetCtrlDatas_def diff_start_def split: if_splits)
  have "length (control_bytes cs) = 24 * length cs"
    by (induction cs) (simp_all add: control_bytes_def)
  then have "length (control_bytes cs) \<le> 24 + 24 * length new" using n by simp
  moreover have "length ds + length es \<le> length new" using data_length [OF cs(2) d] by simp
  moreover have "length patch = 32 + (length (compress (control_bytes cs)) + (length (compress ds) + length (compress es)))"
    using assms(2) cs(1) d by (auto simp: MakePatch_def WritePatchData_def Let_def length_blit)
  ultimately show ?thesis
    using assms(3) [of "control_bytes cs"] assms(3) [of ds] assms(3) [of es] by linarith
qed

section \<open>The round trip\<close>

lemma MakePatch_file:
  assumes "sa_ok sa old" "length new < 2 ^ 62" "length old < 2 ^ 62" "MakePatch compress sa new old = Some patch"
  shows "\<exists>cs ds es. patch = patch_data (patch_file compress (length new) cs ds es) \<and>
    \<lparr>patch_data = patch, patch_start = 0\<rparr> = patch_file compress (length new) cs ds es \<and>
    fits (length new) 0 cs ds es \<and> replay old 0 cs ds es = new"
  using MakePatch_describes [OF assms(1-3), of compress] assms(4) by (auto simp: patch_file_def)

text \<open>The patch from \<open>[1, 2, 3]\<close> to \<open>[1, 7, 2]\<close>, for the examples.\<close>

definition demo_bytes :: bytes where
  "demo_bytes = patch_header 25 2 3 @ (0 # WriteLE64 1 @ WriteLE64 2 @ WriteLE64 1) @ [0, 0] @ [0, 7, 2]"

lemma demo_patch: "MakePatch (Cons 0) [3, 0, 2, 1] [1, 7, 2] [1, 2, 3] = Some demo_bytes"
proof -
  let ?c = "\<lparr>diffLength = 1, extraLength = 2, offsetIncrement = 1, diffNewStart = 0, diffOldStart = 0,
    extraNewStart = 1\<rparr>"
  have g: "GetCtrlDatas [3, 0, 2, 1] [1, 7, 2] [1, 2, 3] = Some [?c]" by code_simp
  have d: "diff_bytes [1, 7, 2] [1, 2, 3] [?c] = Some [0]" "extra_bytes [1, 7, 2] [?c] = Some [7, 2]"
    by code_simp+
  show ?thesis
    by (simp add: demo_bytes_def MakePatch_def g WritePatchData_def d control_bytes_def blit_def Let_def del: diff_bytes.simps extra_bytes.simps)
qed
text \<open>
  C29. Making a patch always succeeds: with a suffix array of the right size whose entries are
  positions of the old data - in whatever order - every loop of the diff ends, nothing is read
  outside the old and the new data, and a patch is written.
\<close>

theorem bsdiff_total:
  assumes "sa_ok sa old" "length new < 2 ^ 62" "length old < 2 ^ 62"
  shows "\<exists>patch. MakePatch compress sa new old = Some patch"
  using MakePatch_describes [OF assms] by blast

theorem bsdiff_total_witness:
  "\<exists>patch. MakePatch (Cons 0) [3, 0, 2, 1] [1, 7, 2] [1, 2, 3] = Some patch"
  by (rule bsdiff_total) (simp_all add: sa_ok_def)

text \<open>
  C1. Round trip of a binary patch: applying to the old data what \<open>MakePatch\<close> wrote for them
  returns 0 and leaves exactly the new data in the buffer, whatever the buffer held before and
  whatever the order of the suffix array.
\<close>

theorem bsdiff_roundtrip:
  assumes "codec_ok compress decompress" "sa_ok sa old" "length new < 2 ^ 62" "length old < 2 ^ 62"
    and "MakePatch compress sa new old = Some patch" "length patch < 2 ^ 62"
  shows "BlocksBufferPatch_ApplyPatch decompress \<lparr>patch_data = patch, patch_start = 0\<rparr> old buf = Some (0, new)"
proof -
  obtain cs ds es where f: "patch = patch_data (patch_file compress (length new) cs ds es)"
      "\<lparr>patch_data = patch, patch_start = 0\<rparr> = patch_file compress (length new) cs ds es"
      "fits (length new) 0 cs ds es" "replay old 0 cs ds es = new"
    using MakePatch_file [OF assms(2-5)] by (elim exE conjE)
  have "length (patch_data (patch_file compress (length new) cs ds es)) < 2 ^ 62"
    using assms(6) f(1) by (simp only:)
  from buffer_applies [OF assms(1) f(3) assms(3) this] show ?thesis by (simp only: f(2,4))
qed

theorem bsdiff_roundtrip_witness:
  "BlocksBufferPatch_ApplyPatch tl
     \<lparr>patch_data = demo_bytes, patch_start = 0\<rparr>
     [1, 2, 3] [9] = Some (0, [1, 7, 2])"
proof (rule bsdiff_roundtrip)
  show "MakePatch (Cons 0) [3, 0, 2, 1] [1, 7, 2] [1, 2, 3] = Some demo_bytes" by (rule demo_patch)
  show "length demo_bytes < 2 ^ 62" by (simp add: demo_bytes_def)
qed (simp_all add: sa_ok_def codec_ok_def)

text \<open>
  The variant that the block commands use: the patched data pass through a writer that hashes
  them; with any callback that has room for the new data, the callback receives exactly the new
  data and the call succeeds exactly when their hash is the expected one.
\<close>

theorem bsdiff_hashed_roundtrip:
  assumes "codec_ok compress decompress" "sa_ok sa old" "length new < 2 ^ 62" "length old < 2 ^ 62"
    and "MakePatch compress sa new old = Some patch" "length patch < 2 ^ 62"
    and "accepting_writer put taken room" "taken s = []" "length new \<le> room s"
  shows "\<exists>s'. ApplyBlockPatch_writer decompress sha256_hex put \<lparr>patch_data = patch, patch_start = 0\<rparr> old
    expected s = Some (sha256_hex new = expected, s') \<and> taken s' = new"
proof -
  obtain cs ds es where f: "patch = patch_data (patch_file compress (length new) cs ds es)"
      "\<lparr>patch_data = patch, patch_start = 0\<rparr> = patch_file compress (length new) cs ds es"
      "fits (length new) 0 cs ds es" "replay old 0 cs ds es = new"
    using MakePatch_file [OF assms(2-5)] by (elim exE conjE)
  have "length (patch_data (patch_file compress (length new) cs ds es)) < 2 ^ 62"
    using assms(6) f(1) by (simp only:)
  from hashed_applies [OF assms(7,1) f(3) assms(3) this assms(8,9), of sha256_hex old expected]
  show ?thesis by (simp only: f(2,4))
qed

theorem bsdiff_hashed_roundtrip_witness:
  "\<exists>s'. ApplyBlockPatch_writer tl (List.map (\<lambda>b. char_of (unat b))) FilePatchWriter_Write
     \<lparr>patch_data = demo_bytes, patch_start = 0\<rparr>
     [1, 2, 3] ''x'' \<lparr>fw_init = True, fw_data = [], fw_left = 3\<rparr> =
       Some (List.map (\<lambda>b. char_of (unat b)) [1, 7, 2 :: u8] = ''x'', s') \<and> fw_data s' = [1, 7, 2]"
proof (rule bsdiff_hashed_roundtrip)
  show "MakePatch (Cons 0) [3, 0, 2, 1] [1, 7, 2] [1, 2, 3] = Some demo_bytes" by (rule demo_patch)
  show "length demo_bytes < 2 ^ 62" by (simp add: demo_bytes_def)
  show "accepting_writer FilePatchWriter_Write fw_data (\<lambda>fw. if fw_init fw then fw_left fw else 0)"
    by (rule file_target.accepting_writer_axioms)
qed (simp_all add: sa_ok_def codec_ok_def)

text \<open>
  Both variants of \<open>BlocksPatch\<close> implement the same format: for every well-formed patch,
  not only one that this program made, the buffer variant and the stream variant with an output
  file of enough room both return 0 with the data the controls describe.
\<close>

theorem patch_variants_agree:
  assumes "codec_ok compress decompress" "fits n 0 cs ds es" "n < 2 ^ 62"
    and "length (patch_data (patch_file compress n cs ds es)) < 2 ^ 62"
    and "fw_init fw" "fw_data fw = []" "n \<le> fw_left fw"
  shows "\<exists>fw'. BlocksBufferPatch_ApplyPatch decompress (patch_file compress n cs ds es) old buf
      = Some (0, fw_data fw') \<and>
    BlocksStreamPatch_ApplyPatch decompress FilePatchWriter_Write (patch_file compress n cs ds es)
      (Memory_Stream old) fw = Some (0, fw') \<and> fw_data fw' = replay old 0 cs ds es"
  using file_target.stream_applies [OF assms(1-4,6), of old] buffer_applies [OF assms(1-4), of old buf] assms(5,7)
  by auto

theorem patch_variants_agree_witness:
  "\<exists>fw'. BlocksBufferPatch_ApplyPatch tl (patch_file (Cons 0) 2
        [\<lparr>pc_diffLength = 1, pc_extraLength = 1, pc_offsetIncrement = 0\<rparr>] [4] [5]) [6] []
      = Some (0, fw_data fw') \<and>
    BlocksStreamPatch_ApplyPatch tl FilePatchWriter_Write (patch_file (Cons 0) 2
        [\<lparr>pc_diffLength = 1, pc_extraLength = 1, pc_offsetIncrement = 0\<rparr>] [4] [5])
      (Memory_Stream [6]) \<lparr>fw_init = True, fw_data = [], fw_left = 2\<rparr> = Some (0, fw') \<and>
    fw_data fw' = replay [6] 0 [\<lparr>pc_diffLength = 1, pc_extraLength = 1, pc_offsetIncrement = 0\<rparr>] [4] [5]"
  by (rule patch_variants_agree)
    (simp_all add: codec_ok_def ok64_def patch_file_def encode_controls_def)

section \<open>Patches from elsewhere\<close>

text \<open>Control data as a benign patch has them; the loop reads them in groups of 24 bytes.\<close>

function sane_controls :: "bytes \<Rightarrow> bool" where
  "sane_controls bs =
     (if length bs < 24 then True
      else 0 \<le> ReadLE64 bs \<and> ReadLE64 bs < 2 ^ 61 \<and>
        0 \<le> ReadLE64 (drop 8 bs) \<and> ReadLE64 (drop 8 bs) < 2 ^ 61 \<and>
        \<bar>ReadLE64 (drop 16 bs)\<bar> \<le> 2 ^ 32 \<and> sane_controls (drop 24 bs))"
  by pat_completeness auto
termination by (relation "measure length") auto

declare sane_controls.simps [simp del]

lemma ReadLE64_take: "8 \<le> n \<Longrightarrow> ReadLE64 (take n bs) = ReadLE64 bs"
  by (simp add: ReadLE64_def min_def)

lemma ReadControlData_sane:
  assumes "ReadControlData (Some bs) = (Inr c, r)" "sane_controls bs"
  shows "24 \<le> length bs \<and> r = Some (drop 24 bs) \<and> sane_controls (drop 24 bs) \<and>
    0 \<le> pc_diffLength c \<and> pc_diffLength c < 2 ^ 61 \<and> 0 \<le> pc_extraLength c \<and> pc_extraLength c < 2 ^ 61 \<and>
    \<bar>pc_offsetIncrement c\<bar> \<le> 2 ^ 32"
  using assms sane_controls.simps [of bs]
  by (auto simp: ReadControlData_def ReadData_def ReadLE64_take split: if_splits)

lemma store_at_inside:
  "0 \<le> off \<Longrightarrow> off + int (length d) \<le> int (length buf) \<Longrightarrow>
   \<exists>b. store_at off d buf = Some b \<and> length b = length buf"
  by (auto simp: store_at_def blit_def min_def)

lemma Buffer_restore_inside:
  assumes "0 \<le> j"
  shows "j + pc_diffLength c \<le> int (length buf) \<Longrightarrow>
      \<exists>rc r' b. Buffer_RestoreDiffData old c i j r buf = Some (rc, r', b) \<and> length b = length buf"
    and "j + pc_extraLength c \<le> int (length buf) \<Longrightarrow>
      \<exists>rc r' b. Buffer_RestoreExtraData c j r buf = Some (rc, r', b) \<and> length b = length buf"
proof -
  assume a: "j + pc_diffLength c \<le> int (length buf)"
  show "\<exists>rc r' b. Buffer_RestoreDiffData old c i j r buf = Some (rc, r', b) \<and> length b = length buf"
  proof (cases "pc_diffLength c \<le> 0")
    case False
    obtain rc d r' where rd: "ReadData r (nat (pc_diffLength c)) = (rc, d, r')" using prod_cases3 by blast
    then have len: "length d \<le> nat (pc_diffLength c)" by (auto simp: ReadData_def split: option.splits)
    with a False have "j + int (length d) \<le> int (length buf)" by linarith
    with store_at_inside [OF assms, of d buf] store_at_inside [OF assms, of "add_old old i d" buf]
    show ?thesis using False rd by (auto simp: Buffer_RestoreDiffData_def)
  qed (simp add: Buffer_RestoreDiffData_def)
next
  assume a: "j + pc_extraLength c \<le> int (length buf)"
  show "\<exists>rc r' b. Buffer_RestoreExtraData c j r buf = Some (rc, r', b) \<and> length b = length buf"
  proof (cases "pc_extraLength c \<le> 0")
    case False
    obtain rc d r' where rd: "ReadData r (nat (pc_extraLength c)) = (rc, d, r')" using prod_cases3 by blast
    then have len: "length d \<le> nat (pc_extraLength c)" by (auto simp: ReadData_def split: option.splits)
    with a False have "j + int (length d) \<le> int (length buf)" by linarith
    with store_at_inside [OF assms, of d buf] show ?thesis
      using False rd by (auto simp: Buffer_RestoreExtraData_def)
  qed (simp add: Buffer_RestoreExtraData_def)
qed

lemma apply_control_inside:
  assumes "0 \<le> j" "j \<le> n" "n = int (length buf)" "n < 2 ^ 61" "\<bar>i\<bar> \<le> j + M" "M < 2 ^ 61"
    and "0 \<le> pc_diffLength c" "pc_diffLength c < 2 ^ 61" "0 \<le> pc_extraLength c" "pc_extraLength c < 2 ^ 61"
    and "\<bar>pc_offsetIncrement c\<bar> \<le> 2 ^ 32"
  shows "\<exists>r. apply_control (Buffer_RestoreDiffData old) Buffer_RestoreExtraData n c (i, j, dr, er, buf) = Some r \<and>
    (\<forall>i' j' dr' er' b. r = Inr (i', j', dr', er', b) \<longrightarrow> 0 \<le> j' \<and> j' \<le> n \<and> length b = length buf \<and>
      \<bar>i'\<bar> \<le> j' + (M + 2 ^ 32))"
proof -
  have ok: "ok64 (j + pc_diffLength c)" "ok64 (i + pc_diffLength c)"
      "ok64 (j + pc_diffLength c + pc_extraLength c)" "ok64 (i + pc_diffLength c + pc_offsetIncrement c)"
    using assms by (auto simp: ok64_def)
  show ?thesis
  proof (cases "n < j + pc_diffLength c")
    case True
    then show ?thesis using ok by (simp add: apply_control_def)
  next
    case d: False
    obtain rc r1 b1 where D: "Buffer_RestoreDiffData old c i j dr buf = Some (rc, r1, b1)" "length b1 = length buf"
      using Buffer_restore_inside(1) [OF assms(1), of c buf old i dr] d assms(3) by auto
    show ?thesis
    proof (cases "rc \<noteq> 0 \<or> n < j + pc_diffLength c + pc_extraLength c")
      case True
      then show ?thesis using ok d D by (auto simp: apply_control_def Let_def)
    next
      case e: False
      obtain rc2 r2 b2 where E: "Buffer_RestoreExtraData c (j + pc_diffLength c) er b1 = Some (rc2, r2, b2)"
          "length b2 = length buf"
        using Buffer_restore_inside(2) [of "j + pc_diffLength c" c b1 er] e D assms(1,3,7) by auto
      show ?thesis
        using ok d D e E assms(1,5,7,9,11) by (auto simp: apply_control_def Let_def)
    qed
  qed
qed

lemma apply_loop_inside:
  "0 \<le> j \<Longrightarrow> j \<le> n \<Longrightarrow> n = int (length buf) \<Longrightarrow> n < 2 ^ 61 \<Longrightarrow> \<bar>i\<bar> \<le> j + M \<Longrightarrow> sane_controls bs \<Longrightarrow>
   M + int (length bs) * 2 ^ 32 < 2 ^ 61 \<Longrightarrow>
   \<exists>r. apply_loop (Buffer_RestoreDiffData old) Buffer_RestoreExtraData n (Some bs) (i, j, dr, er, buf) = Some r"
proof (induction "length bs" arbitrary: bs i j dr er buf M rule: less_induct)
  case less
  note step = apply_loop.simps [of _ _ n "Some bs"]
  show ?case
  proof (cases "j < n")
    case False
    then show ?thesis by (simp add: step)
  next
    case True
    obtain x r where r: "ReadControlData (Some bs) = (x, r)" by fastforce
    show ?thesis
    proof (cases x)
      case (Inl e)
      with True r show ?thesis by (simp add: step)
    next
      case (Inr c)
      note c = ReadControlData_sane [OF r [unfolded Inr] less.prems(6)]
      have M: "M < 2 ^ 61" using less.prems(7) by simp
      obtain y where y: "apply_control (Buffer_RestoreDiffData old) Buffer_RestoreExtraData n c (i, j, dr, er, buf) = Some y"
          "\<And>i' j' dr' er' b. y = Inr (i', j', dr', er', b) \<Longrightarrow> 0 \<le> j' \<and> j' \<le> n \<and> length b = length buf \<and>
            \<bar>i'\<bar> \<le> j' + (M + 2 ^ 32)"
        using apply_control_inside [OF less.prems(1-5) M, of c old dr er] c by blast
      show ?thesis
      proof (cases y)
        case (Inl z)
        with True r Inr y show ?thesis by (simp add: step)
      next
        case i: (Inr st)
        obtain i' j' dr' er' b where st: "st = (i', j', dr', er', b)" using prod_cases5 by blast
        note inv = y(2) [OF i [unfolded st]]
        have "length (drop 24 bs) < length bs" using conjunct1 [OF c] by simp
        moreover have "M + 2 ^ 32 + int (length (drop 24 bs)) * 2 ^ 32 < 2 ^ 61"
          using less.prems(7) c by (simp add: of_nat_diff)
        ultimately have "\<exists>r. apply_loop (Buffer_RestoreDiffData old) Buffer_RestoreExtraData n
            (Some (drop 24 bs)) (i', j', dr', er', b) = Some r"
          using less.hyps [of "drop 24 bs" j' b i' "M + 2 ^ 32" dr' er'] inv less.prems(3,4) c by simp
        with True r Inr y i st c show ?thesis by (simp add: step)
      qed
    qed
  qed
qed


text \<open>A patch file with no compression at all, for the examples.\<close>

definition raw_patch :: "bytes \<Rightarrow> bytes \<Rightarrow> bytes \<Rightarrow> int \<Rightarrow> patch_buffer" where
  "raw_patch c d e n = \<lparr>patch_data = patch_header (int (length c)) (int (length d)) n @ c @ d @ e, patch_start = 0\<rparr>"


text \<open>
  A negative length is not refused: the control (-8, 0, 0) passes both checks of the loop and
  moves the write position to 8 bytes before the buffer, where the next control makes
  \<open>RestoreDiffData\<close> store its data - a write outside \<open>newData_\<close> chosen by the patch.
\<close>

theorem patch_negative_length_escapes:
  "BlocksBufferPatch_ApplyPatch id
     (raw_patch (WriteLE64 (- 8) @ WriteLE64 0 @ WriteLE64 0 @ WriteLE64 4 @ WriteLE64 0 @ WriteLE64 0)
        [1, 2, 3, 4] [] 16) [] [] = None \<and>
   apply_control (Buffer_RestoreDiffData []) Buffer_RestoreExtraData 16
     \<lparr>pc_diffLength = -8, pc_extraLength = 0, pc_offsetIncrement = 0\<rparr> (0, 0, Some [1, 2, 3, 4], Some [], replicate 16 0)
     = Some (Inr (-8, -8, Some [1, 2, 3, 4], Some [], replicate 16 0))"
  by code_simp

text \<open>
  An output file whose disk is full is not noticed: \<open>FilePatchWriter\<close> returns 0 for data it
  could not write, and the patch is reported as applied.
\<close>

theorem file_writer_hides_full_disk:
  assumes "fw_init fw" "d \<noteq> []" "fw_left fw < length d"
  shows "\<exists>fw'. FilePatchWriter_Write start d fw = (0, fw') \<and>
    fst (FilePatchWriter_Finish fw') = 0 \<and> length (fw_data fw') < length (fw_data fw) + length d"
  using assms by (simp add: FilePatchWriter_Write_def FilePatchWriter_Finish_def)

theorem file_writer_hides_full_disk_witness:
  "\<exists>fw'. FilePatchWriter_Write 0 [1, 2] \<lparr>fw_init = True, fw_data = [], fw_left = 1\<rparr> = (0, fw') \<and>
    fst (FilePatchWriter_Finish fw') = 0 \<and> length (fw_data fw') < length ([] :: bytes) + length [1, 2 :: u8]"
  using file_writer_hides_full_disk [of "\<lparr>fw_init = True, fw_data = [], fw_left = 1\<rparr>" "[1, 2]" 0] by simp

end
