(* ===== verification/Deflate_Adapter.thy ===== *)
theory Deflate_Adapter
  imports Bs_Patch
begin

text \<open>
  \<open>services/diffpatch/bzip2/zip_adapter.cpp\<close> and \<open>lz4_adapter.cpp\<close>: the adapters that compress what
  a patch produces and hand it to the writer behind them. The calls into zlib and lz4 are the
  parameter \<open>compress_lib\<close>. \<open>'z\<close> is the state the libraries keep; \<open>'s\<close> is the state of the writer.
  None is undefined behaviour or a loop that does not end.
\<close>

section \<open>The libraries\<close>

text \<open>
  \<open>deflate lib z finish input room\<close> gives the return code, the input not yet consumed, the output
  (at most \<open>room\<close> bytes) and the state. The lz4 calls give None for an error. \<open>expand lib info data n\<close> is
  the package manager's \<open>DecompressBuffer\<close> into a memory stream of \<open>n\<close> bytes: how many bytes it
  unpacked, and the memory.
\<close>

record zip_info =
  zi_level :: int
  zi_method :: int
  zi_windowBits :: int
  zi_memLevel :: int
  zi_strategy :: int

record lz4_info =
  li_block :: bool
  li_compressionLevel :: int
  li_blockIndependence :: int
  li_contentChecksumFlag :: int
  li_blockSizeID :: int
  li_autoFlush :: int

datatype codec_info = Zip_Codec zip_info | Lz4_Codec lz4_info

record 'z compress_lib =
  deflateInit2 :: "zip_info \<Rightarrow> 'z option"
  deflate :: "'z \<Rightarrow> bool \<Rightarrow> bytes \<Rightarrow> nat \<Rightarrow> int \<times> bytes \<times> bytes \<times> 'z"
  lz4f_begin :: "lz4_info \<Rightarrow> (bytes \<times> 'z) option"
  lz4f_update :: "'z \<Rightarrow> bytes \<Rightarrow> (bytes \<times> 'z) option"
  lz4f_end :: "'z \<Rightarrow> bytes option"
  lz4_compress :: "int \<Rightarrow> bytes \<Rightarrow> bytes option"
  expand :: "codec_info \<Rightarrow> bytes \<Rightarrow> nat \<Rightarrow> (nat \<times> bytes) option"

abbreviation (input) Z_OK :: int where
  "Z_OK \<equiv> 0"

abbreviation (input) Z_STREAM_END :: int where
  "Z_STREAM_END \<equiv> 1"

abbreviation (input) DEFLATE_BUFFER_SIZE :: nat where
  "DEFLATE_BUFFER_SIZE \<equiv> 32768"

section \<open>zlib\<close>

record 'z zip_adapter =
  za_stream :: 'z
  za_offset :: nat

definition ZipAdapter_Open :: "'z compress_lib \<Rightarrow> zip_info \<Rightarrow> 'z zip_adapter option" where
  "ZipAdapter_Open L info = map_option (\<lambda>z. \<lparr>za_stream = z, za_offset = 0\<rparr>) (deflateInit2 L info)"

text \<open>
  One turn of the two loops: a failed write ends them; after a write the return code is that of the
  write, which is \<open>Z_OK\<close>.
\<close>

definition zip_step ::
    "'z compress_lib \<Rightarrow> 's patch_writer \<Rightarrow> bool \<Rightarrow> 'z zip_adapter \<Rightarrow> bytes \<Rightarrow> 's \<Rightarrow>
     bool \<times> int \<times> bytes \<times> 'z zip_adapter \<times> 's" where
  "zip_step L put finish za input s =
     (case deflate L (za_stream za) finish input DEFLATE_BUFFER_SIZE of
        (ret, rest, out, z) \<Rightarrow>
          if out = [] then (True, ret, rest, za\<lparr>za_stream := z\<rparr>, s)
          else (case put (za_offset za) out s of
              (rc, s') \<Rightarrow> (rc = 0, rc, rest,
                \<lparr>za_stream = z, za_offset = (if rc = 0 then za_offset za + length out else za_offset za)\<rparr>, s')))"

partial_function (option) ZipAdapter_WriteData ::
    "'z compress_lib \<Rightarrow> 's patch_writer \<Rightarrow> 'z zip_adapter \<Rightarrow> bytes \<Rightarrow> 's \<Rightarrow> (int \<times> 'z zip_adapter \<times> 's) option" where
  "ZipAdapter_WriteData L put za input s =
     (case zip_step L put False za input s of
        (ok, ret, rest, za', s') \<Rightarrow>
          if \<not> ok then Some (-1, za', s')
          else if rest = [] \<or> ret \<noteq> Z_OK then Some (ret, za', s')
          else ZipAdapter_WriteData L put za' rest s')"

partial_function (option) ZipAdapter_FlushData ::
    "'z compress_lib \<Rightarrow> 's patch_writer \<Rightarrow> 'z zip_adapter \<Rightarrow> 's \<Rightarrow> (int \<times> 'z zip_adapter \<times> 's) option" where
  "ZipAdapter_FlushData L put za s =
     (case zip_step L put True za [] s of
        (ok, ret, rest, za', s') \<Rightarrow>
          if \<not> ok then Some (1, za', s')
          else if ret = Z_STREAM_END then Some (Z_OK, za', s')
          else if ret \<noteq> Z_OK then Some (ret, za', s')
          else ZipAdapter_FlushData L put za' s')"

section \<open>lz4\<close>

text \<open>
  The two subclasses differ in \<open>la_frame\<close>. \<open>la_data\<close> are the first \<open>currDataSize_\<close> bytes of \<open>inData_\<close> and
  \<open>la_size\<close> is its size; \<open>la_ctx\<close> is the context of a frame.
\<close>

record 'z lz4_adapter =
  la_frame :: bool
  la_ctx :: "'z option"
  la_level :: int
  la_block :: nat
  la_size :: nat
  la_data :: bytes
  la_offset :: nat

abbreviation (input) LZ4B_BLOCK_SIZE :: nat where
  "LZ4B_BLOCK_SIZE \<equiv> 4194304"

text \<open>\<open>LZ4_BLOCK_SIZE\<close>, with an \<open>unsigned\<close> argument; a shift by 32 and more is undefined.\<close>

definition LZ4_BLOCK_SIZE :: "int \<Rightarrow> nat option" where
  "LZ4_BLOCK_SIZE blockId =
     (let k = nat ((8 + 2 * blockId) mod 2 ^ 32) in if k < 32 then Some (2 ^ k) else None)"

definition lz4_level :: "int \<Rightarrow> int" where
  "lz4_level level = (if level < 1 then 2 else if 12 \<le> level then 12 else level)"

text \<open>\<open>CompressData\<close> of the frame and of the block adapter.\<close>

definition Lz4Frame_CompressData ::
    "'z compress_lib \<Rightarrow> 's patch_writer \<Rightarrow> bytes \<Rightarrow> 'z lz4_adapter \<Rightarrow> 's \<Rightarrow> int \<times> 'z lz4_adapter \<times> 's" where
  "Lz4Frame_CompressData L put srcData la s =
     (case Option.bind (la_ctx la) (\<lambda>ctx. lz4f_update L ctx srcData) of
        None \<Rightarrow> (-1, la, s)
      | Some (out, ctx) \<Rightarrow>
          let la' = la\<lparr>la_ctx := Some ctx\<rparr> in
          if out = [] then (0, la', s)
          else (case put (la_offset la) out s of
              (rc, s') \<Rightarrow> if rc \<noteq> 0 then (-1, la', s')
                         else (0, la'\<lparr>la_offset := la_offset la + length out\<rparr>, s')))"

definition le32 :: "nat \<Rightarrow> bytes" where
  "le32 n = le_bytes 4 n"

definition Lz4Block_CompressData ::
    "'z compress_lib \<Rightarrow> 's patch_writer \<Rightarrow> bytes \<Rightarrow> 'z lz4_adapter \<Rightarrow> 's \<Rightarrow> int \<times> 'z lz4_adapter \<times> 's" where
  "Lz4Block_CompressData L put srcData la s =
     (case lz4_compress L (la_level la) srcData of
        None \<Rightarrow> (-1, la, s)
      | Some out \<Rightarrow>
          if out = [] then (-1, la, s)
          else (case put (la_offset la) (le32 (length out) @ out) s of
              (rc, s') \<Rightarrow> if rc \<noteq> 0 then (-1, la, s')
                         else (0, la\<lparr>la_offset := la_offset la + (length out + 4)\<rparr>, s')))"

definition Lz4_CompressData ::
    "'z compress_lib \<Rightarrow> 's patch_writer \<Rightarrow> bytes \<Rightarrow> 'z lz4_adapter \<Rightarrow> 's \<Rightarrow> int \<times> 'z lz4_adapter \<times> 's" where
  "Lz4_CompressData L put srcData la s =
     (if la_frame la then Lz4Frame_CompressData L put srcData la s else Lz4Block_CompressData L put srcData la s)"

text \<open>
  The loop over the whole blocks of the data; its pieces are of \<open>LZ4_BLOCK_SIZE\<close> bytes, which is more
  than the size of \<open>inData_\<close> when that was cut to 4 MB.
\<close>

function lz4_blocks ::
    "'z compress_lib \<Rightarrow> 's patch_writer \<Rightarrow> bytes \<Rightarrow> 'z lz4_adapter \<Rightarrow> 's \<Rightarrow> (int \<times> bytes \<times> 'z lz4_adapter \<times> 's) option" where
  "lz4_blocks L put rest la s =
     (if length rest < la_size la then Some (0, rest, la, s)
      else let n = min (la_block la) (length rest) in
        if n = 0 then None
        else (case Lz4_CompressData L put (take n rest) la s of
            (rc, la', s') \<Rightarrow> if rc \<noteq> 0 then Some (-1, rest, la', s') else lz4_blocks L put (drop n rest) la' s'))"
  by pat_completeness auto
termination by (relation "measure (\<lambda>(L, put, rest, la, s). length rest)") auto

declare lz4_blocks.simps [simp del]

text \<open>\<open>memcpy_s\<close> refuses a destination of size 0.\<close>

definition Lz4Adapter_WriteData ::
    "'z compress_lib \<Rightarrow> 's patch_writer \<Rightarrow> bytes \<Rightarrow> 'z lz4_adapter \<Rightarrow> 's \<Rightarrow> (int \<times> 'z lz4_adapter \<times> 's) option" where
  "Lz4Adapter_WriteData L put srcData la s =
     (let cur = length (la_data la); size = la_size la; hasCopyLen = size - cur in
      if cur < size \<and> length srcData < size - cur then Some (0, la\<lparr>la_data := la_data la @ srcData\<rparr>, s)
      else if size < cur then Some (-1, la, s)
      else if hasCopyLen = 0 then Some (-1, la, s)
      else (case Lz4_CompressData L put (la_data la @ take hasCopyLen srcData) la s of
          (rc, la1, s1) \<Rightarrow>
            if rc \<noteq> 0 then Some (-1, la1, s1)
            else (case lz4_blocks L put (drop hasCopyLen srcData) (la1\<lparr>la_data := []\<rparr>) s1 of
                None \<Rightarrow> None
              | Some (rc, rest, la2, s2) \<Rightarrow>
                  if rc \<noteq> 0 then Some (-1, la2, s2) else Some (0, la2\<lparr>la_data := rest\<rparr>, s2))))"

definition Lz4FrameAdapter_Open ::
    "'z compress_lib \<Rightarrow> 's patch_writer \<Rightarrow> lz4_info \<Rightarrow> nat \<Rightarrow> 's \<Rightarrow> int \<times> 'z lz4_adapter option \<times> 's" where
  "Lz4FrameAdapter_Open L put info blockSize s =
     (case lz4f_begin L (info\<lparr>li_compressionLevel := lz4_level (li_compressionLevel info)\<rparr>) of
        None \<Rightarrow> (-1, None, s)
      | Some (header, ctx) \<Rightarrow>
          (case put 0 header s of
             (rc, s') \<Rightarrow> if rc \<noteq> 0 then (-1, None, s')
               else (0, Some \<lparr>la_frame = True, la_ctx = Some ctx, la_level = lz4_level (li_compressionLevel info),
                       la_block = blockSize, la_size = min blockSize LZ4B_BLOCK_SIZE, la_data = [],
                       la_offset = length header\<rparr>, s')))"

definition Lz4BlockAdapter_Open ::
    "'s patch_writer \<Rightarrow> lz4_info \<Rightarrow> nat \<Rightarrow> 's \<Rightarrow> int \<times> 'z lz4_adapter option \<times> 's" where
  "Lz4BlockAdapter_Open put info blockSize s =
     (case put 0 (le32 0x184C2102) s of
        (rc, s') \<Rightarrow> if rc \<noteq> 0 then (-1, None, s')
          else (0, Some \<lparr>la_frame = False, la_ctx = None, la_level = lz4_level (li_compressionLevel info),
                  la_block = blockSize, la_size = min blockSize LZ4B_BLOCK_SIZE, la_data = [],
                  la_offset = 4\<rparr>, s'))"

definition Lz4FrameAdapter_FlushData ::
    "'z compress_lib \<Rightarrow> 's patch_writer \<Rightarrow> 'z lz4_adapter \<Rightarrow> 's \<Rightarrow> int \<times> 'z lz4_adapter \<times> 's" where
  "Lz4FrameAdapter_FlushData L put la s =
     (case (if la_data la \<noteq> [] then Lz4_CompressData L put (la_data la) la s else (0, la, s)) of
        (rc, la1, s1) \<Rightarrow>
          if rc \<noteq> 0 then (-1, la1, s1)
          else (case Option.bind (la_ctx la1) (lz4f_end L) of
              None \<Rightarrow> (-1, la1, s1)
            | Some out \<Rightarrow>
                (case put (la_offset la1) out s1 of
                   (rc, s2) \<Rightarrow> if rc \<noteq> 0 then (-1, la1, s2)
                     else (0, la1\<lparr>la_offset := la_offset la1 + length out\<rparr>, s2))))"

definition Lz4BlockAdapter_FlushData ::
    "'z compress_lib \<Rightarrow> 's patch_writer \<Rightarrow> 'z lz4_adapter \<Rightarrow> 's \<Rightarrow> int \<times> 'z lz4_adapter \<times> 's" where
  "Lz4BlockAdapter_FlushData L put la s =
     (case (if la_data la \<noteq> [] then Lz4_CompressData L put (la_data la) la s else (0, la, s)) of
        (rc, la1, s1) \<Rightarrow> if rc \<noteq> 0 then (-1, la1, s1) else (0, la1, s1))"

section \<open>The restoring writer\<close>

text \<open>
  \<open>CompressedFileRestore\<close> of \<open>diffpatch/patch/image_patch.cpp\<close>: a patch writer that counts what it gets
  and passes it to an adapter. Its state is None once an adapter call was undefined. The
  digest it also computes is only logged.
\<close>

datatype 'z adapter = Zip "'z zip_adapter" | Lz4 "'z lz4_adapter"

record ('z, 's) file_restore =
  cr_dataSize :: nat
  cr_adapter :: "'z adapter"
  cr_target :: 's

definition CompressedFileRestore_Init ::
    "'z compress_lib \<Rightarrow> 's patch_writer \<Rightarrow> codec_info \<Rightarrow> 's \<Rightarrow> (int \<times> 'z adapter option \<times> 's) option" where
  "CompressedFileRestore_Init L put info s =
     (case info of
        Zip_Codec zi \<Rightarrow>
          Some (case ZipAdapter_Open L zi of None \<Rightarrow> (-1, None, s) | Some za \<Rightarrow> (0, Some (Zip za), s))
      | Lz4_Codec li \<Rightarrow>
          map_option (\<lambda>blockSize.
              case (if li_block li then Lz4BlockAdapter_Open put li blockSize s
                    else Lz4FrameAdapter_Open L put li blockSize s) of
                (rc, la, s') \<Rightarrow> (rc, map_option Lz4 la, s'))
            (LZ4_BLOCK_SIZE (li_blockSizeID li)))"

definition adapter_WriteData ::
    "'z compress_lib \<Rightarrow> 's patch_writer \<Rightarrow> 'z adapter \<Rightarrow> bytes \<Rightarrow> 's \<Rightarrow> (int \<times> 'z adapter \<times> 's) option" where
  "adapter_WriteData L put ad d s =
     (case ad of
        Zip za \<Rightarrow> map_option (\<lambda>(rc, za', s'). (rc, Zip za', s')) (ZipAdapter_WriteData L put za d s)
      | Lz4 la \<Rightarrow> map_option (\<lambda>(rc, la', s'). (rc, Lz4 la', s')) (Lz4Adapter_WriteData L put d la s))"

definition adapter_FlushData ::
    "'z compress_lib \<Rightarrow> 's patch_writer \<Rightarrow> 'z adapter \<Rightarrow> 's \<Rightarrow> (int \<times> 'z adapter \<times> 's) option" where
  "adapter_FlushData L put ad s =
     (case ad of
        Zip za \<Rightarrow> map_option (\<lambda>(rc, za', s'). (rc, Zip za', s')) (ZipAdapter_FlushData L put za s)
      | Lz4 la \<Rightarrow> Some (case (if la_frame la then Lz4FrameAdapter_FlushData L put la s
                             else Lz4BlockAdapter_FlushData L put la s) of
                        (rc, la', s') \<Rightarrow> (rc, Lz4 la', s')))"

definition CompressedFileRestore_Write ::
    "'z compress_lib \<Rightarrow> 's patch_writer \<Rightarrow> ('z, 's) file_restore option patch_writer" where
  "CompressedFileRestore_Write L put start d st =
     (case st of
        None \<Rightarrow> (-1, None)
      | Some cr \<Rightarrow>
          if d = [] then (0, st)
          else (case adapter_WriteData L put (cr_adapter cr) d (cr_target cr) of
              None \<Rightarrow> (-1, None)
            | Some (rc, ad, s') \<Rightarrow>
                (rc, Some \<lparr>cr_dataSize = cr_dataSize cr + length d, cr_adapter = ad, cr_target = s'\<rparr>)))"

text \<open>The size stays 0 for the caller when the flush fails.\<close>

definition CompressedFileRestore_CompressData ::
    "'z compress_lib \<Rightarrow> 's patch_writer \<Rightarrow> ('z, 's) file_restore \<Rightarrow> (nat \<times> 's) option" where
  "CompressedFileRestore_CompressData L put cr =
     map_option (\<lambda>(rc, ad, s'). (if rc \<noteq> 0 then 0 else cr_dataSize cr, s'))
       (adapter_FlushData L put (cr_adapter cr) (cr_target cr))"

end
