(* ===== verification/Image_Patch.thy ===== *)
theory Image_Patch
  imports Bs_Roundtrip Deflate_Adapter
begin

text \<open>
  \<open>services/diffpatch/patch/update_patch.cpp\<close> and \<open>image_patch.cpp\<close>: the container of image
  patches and its chunks, normal, raw and compressed. The codec libraries are the parameter
  \<open>compress_lib\<close>. A read past the end of the patch is None.
\<close>

section \<open>Numbers in the container\<close>

definition read_le :: "nat \<Rightarrow> bytes \<Rightarrow> nat \<Rightarrow> nat option" where
  "read_le width patch off =
     (if length patch < off + width then None else Some (le_value (slice off width patch)))"

definition read_i32 :: "bytes \<Rightarrow> nat \<Rightarrow> int option" where
  "read_i32 patch off = map_option (\<lambda>v. if v < 2 ^ 31 then int v else int v - 2 ^ 32) (read_le 4 patch off)"

record patch_param =
  pp_old :: bytes
  pp_patch :: bytes

abbreviation (input) PATCH_NORMAL_MIN_HEADER_LEN :: nat where
  "PATCH_NORMAL_MIN_HEADER_LEN \<equiv> 24"

definition PKGDIFF_MAGIC :: bytes where
  "PKGDIFF_MAGIC = [0x50, 0x4b, 0x47, 0x44, 0x49, 0x46, 0x46, 0x30]"

section \<open>Chunks\<close>

text \<open>A chunk gives its return code, the offset behind it and the target.\<close>

type_synonym 's chunk_result = "(int \<times> nat \<times> 's) option"

definition NormalImagePatch_Apply ::
    "(bytes \<Rightarrow> bytes) \<Rightarrow> 's patch_writer \<Rightarrow> patch_param \<Rightarrow> nat \<Rightarrow> 's \<Rightarrow> 's chunk_result" where
  "NormalImagePatch_Apply decompress put param off s =
     (let patch = pp_patch param in
      if length patch < off + PATCH_NORMAL_MIN_HEADER_LEN then Some (-1, off, s)
      else case (read_le 8 patch off, read_le 8 patch (off + 8), read_le 8 patch (off + 16)) of
        (Some srcStart, Some srcLen, Some patchOffset) \<Rightarrow>
          if length (pp_old param) < srcStart \<or> length (pp_old param) - srcStart < srcLen
             \<or> length patch < patchOffset
          then Some (-1, off, s)
          else (case BlocksStreamPatch_ApplyPatch decompress put
                  \<lparr>patch_data = patch, patch_start = patchOffset\<rparr>
                  (Memory_Stream (slice srcStart srcLen (pp_old param))) s of
              None \<Rightarrow> None
            | Some (rc, s') \<Rightarrow> if rc \<noteq> 0 then Some (-1, off, s') else Some (0, off + 24, s'))
      | _ \<Rightarrow> None)"

text \<open>The length is checked before the offset moves behind the length field.\<close>

definition RowImagePatch_Apply :: "'s patch_writer \<Rightarrow> patch_param \<Rightarrow> nat \<Rightarrow> 's \<Rightarrow> 's chunk_result" where
  "RowImagePatch_Apply put param off s =
     (let patch = pp_patch param in
      if length patch < off + 4 then Some (-1, off, s)
      else case read_le 4 patch off of
        None \<Rightarrow> None
      | Some dataLen \<Rightarrow>
          if length patch < off + dataLen then Some (-1, off, s)
          else let off' = off + 4 in
            if length patch < off' + dataLen then None
            else (case put 0 (slice off' dataLen patch) s of
                (rc, s') \<Rightarrow> if rc \<noteq> 0 then Some (-1, off, s') else Some (0, off' + dataLen, s')))"

section \<open>Compressed chunks\<close>

text \<open>
  A compressed chunk expands a piece of the old image, patches it and compresses the result again.
  The reads of the header are behind the length check.
\<close>

definition le_at :: "nat \<Rightarrow> bytes \<Rightarrow> nat \<Rightarrow> nat" where
  "le_at width patch off = le_value (slice off width patch)"

definition i32_at :: "bytes \<Rightarrow> nat \<Rightarrow> int" where
  "i32_at patch off = sint (of_nat (le_at 4 patch off) :: 32 word)"

record chunk_header =
  srcStart :: nat
  srcLength :: nat
  patchOffset :: nat
  expandedLen :: nat
  targetSize :: nat

definition read_chunk_header :: "bytes \<Rightarrow> nat \<Rightarrow> chunk_header" where
  "read_chunk_header patch off = \<lparr>srcStart = le_at 8 patch off, srcLength = le_at 8 patch (off + 8),
     patchOffset = le_at 8 patch (off + 16), expandedLen = le_at 8 patch (off + 24),
     targetSize = le_at 8 patch (off + 32)\<rparr>"

abbreviation (input) PATCH_DEFLATE_MIN_HEADER_LEN :: nat where
  "PATCH_DEFLATE_MIN_HEADER_LEN \<equiv> 60"

abbreviation (input) PATCH_LZ4_MIN_HEADER_LEN :: nat where
  "PATCH_LZ4_MIN_HEADER_LEN \<equiv> 64"

text \<open>The header, the parameters of the codec and the offset behind them; None is the return of -1.\<close>

definition ZipImagePatch_ReadHeader :: "patch_param \<Rightarrow> nat \<Rightarrow> (chunk_header \<times> codec_info \<times> nat) option" where
  "ZipImagePatch_ReadHeader param off =
     (let patch = pp_patch param in
      if length patch < off + PATCH_DEFLATE_MIN_HEADER_LEN then None
      else Some (read_chunk_header patch off,
        Zip_Codec \<lparr>zi_level = i32_at patch (off + 40), zi_method = i32_at patch (off + 44),
          zi_windowBits = i32_at patch (off + 48), zi_memLevel = i32_at patch (off + 52),
          zi_strategy = i32_at patch (off + 56)\<rparr>, off + 60))"

definition int8 :: "int \<Rightarrow> int" where
  "int8 i = sint (word_of_int i :: 8 word)"

abbreviation (input) LZ4B_MAGIC :: int where
  "LZ4B_MAGIC \<equiv> 0x184C2102"

definition Lz4ImagePatch_ReadHeader :: "patch_param \<Rightarrow> nat \<Rightarrow> (chunk_header \<times> codec_info \<times> nat) option" where
  "Lz4ImagePatch_ReadHeader param off =
     (let patch = pp_patch param in
      if length patch < off + PATCH_LZ4_MIN_HEADER_LEN then None
      else Some (read_chunk_header patch off,
        Lz4_Codec \<lparr>li_block = (i32_at patch (off + 44) = LZ4B_MAGIC),
          li_compressionLevel = int8 (i32_at patch (off + 40)),
          li_blockIndependence = int8 (i32_at patch (off + 48)),
          li_contentChecksumFlag = int8 (i32_at patch (off + 52)),
          li_blockSizeID = int8 (i32_at patch (off + 56)),
          li_autoFlush = int8 (i32_at patch (off + 60))\<rparr>, off + 64))"

definition StartReadHeader ::
    "(patch_param \<Rightarrow> nat \<Rightarrow> (chunk_header \<times> codec_info \<times> nat) option) \<Rightarrow> patch_param \<Rightarrow> nat \<Rightarrow>
     (chunk_header \<times> codec_info \<times> nat) option" where
  "StartReadHeader readHeader param off =
     (case readHeader param off of
        None \<Rightarrow> None
      | Some (h, info, off') \<Rightarrow>
          if length (pp_old param) < srcStart h \<or> length (pp_old param) - srcStart h < srcLength h
             \<or> length (pp_patch param) < patchOffset h
          then None else Some (h, info, off'))"

text \<open>
  \<open>DecompressData\<close>, called for a memory stream: no stream at all for a length of 0. The bonus data
  go behind the unpacked data; the comparison before that is made on \<open>size_t\<close>, where a longer bonus
  makes the difference wrap, and then \<open>memcpy_s\<close> refuses to copy.
\<close>

definition DecompressData ::
    "'z compress_lib \<Rightarrow> codec_info \<Rightarrow> bytes \<Rightarrow> nat \<Rightarrow> bytes \<Rightarrow> (int \<times> old_stream) option" where
  "DecompressData L info buffer expanded bonusData =
     (if expanded = 0 then Some (0, No_Stream)
      else case expand L info buffer expanded of
        None \<Rightarrow> Some (-1, No_Stream)
      | Some (unpackedSize, mem) \<Rightarrow>
          if bonusData = [] then Some (0, Memory_Stream mem)
          else if (int expanded - int (length bonusData)) mod 2 ^ 64 < int unpackedSize
          then Some (-1, No_Stream)
          else if expanded < unpackedSize then None
          else if expanded - unpackedSize < length bonusData then Some (-1, No_Stream)
          else Some (0, Memory_Stream (blit unpackedSize bonusData mem)))"

definition CompressedImagePatch_Apply ::
    "(bytes \<Rightarrow> bytes) \<Rightarrow> 'z compress_lib \<Rightarrow> 's patch_writer \<Rightarrow>
     (patch_param \<Rightarrow> nat \<Rightarrow> (chunk_header \<times> codec_info \<times> nat) option) \<Rightarrow> bytes \<Rightarrow> patch_param \<Rightarrow> nat \<Rightarrow> 's \<Rightarrow>
     's chunk_result" where
  "CompressedImagePatch_Apply decompress L put readHeader bonusData param off s =
     (case StartReadHeader readHeader param off of
        None \<Rightarrow> Some (-1, off, s)
      | Some (h, info, off') \<Rightarrow>
          (case DecompressData L info (slice (srcStart h) (srcLength h) (pp_old param)) (expandedLen h) bonusData of
             None \<Rightarrow> None
           | Some (rc, stream) \<Rightarrow>
               if rc \<noteq> 0 then Some (-1, off, s)
               else (case CompressedFileRestore_Init L put info s of
                   None \<Rightarrow> None
                 | Some (_, None, s1) \<Rightarrow> Some (-1, off, s1)
                 | Some (_, Some ad, s1) \<Rightarrow>
                     (case BlocksStreamPatch_ApplyPatch decompress (CompressedFileRestore_Write L put)
                         \<lparr>patch_data = pp_patch param, patch_start = patchOffset h\<rparr> stream
                         (Some \<lparr>cr_dataSize = 0, cr_adapter = ad, cr_target = s1\<rparr>) of
                        Some (rc, Some cr) \<Rightarrow>
                          if rc \<noteq> 0 then Some (-1, off, cr_target cr)
                          else (case CompressedFileRestore_CompressData L put cr of
                              None \<Rightarrow> None
                            | Some (originalSize, s2) \<Rightarrow>
                                if originalSize \<noteq> targetSize h then Some (-1, off, s2) else Some (0, off', s2))
                      | _ \<Rightarrow> None))))"

section \<open>The container\<close>

definition PreCheck :: "patch_param \<Rightarrow> bool" where
  "PreCheck param \<longleftrightarrow> \<not> length (pp_patch param) < 12 \<and> take 8 (pp_patch param) = PKGDIFF_MAGIC"

definition apply_chunk ::
    "(bytes \<Rightarrow> bytes) \<Rightarrow> 'z compress_lib \<Rightarrow> 's patch_writer \<Rightarrow> bytes \<Rightarrow> int \<Rightarrow> patch_param \<Rightarrow> nat \<Rightarrow> 's \<Rightarrow>
     's chunk_result" where
  "apply_chunk decompress L put bonusData i param off s =
     (if length (pp_patch param) < off + 4 then Some (-1, off, s)
      else case read_i32 (pp_patch param) off of
        None \<Rightarrow> None
      | Some chunk_type \<Rightarrow>
          let off' = off + 4 in
          if chunk_type = 0 then NormalImagePatch_Apply decompress put param off' s
          else if chunk_type = 3 then RowImagePatch_Apply put param off' s
          else if chunk_type = 2
          then CompressedImagePatch_Apply decompress L put ZipImagePatch_ReadHeader
                 (if i = 1 then bonusData else []) param off' s
          else if chunk_type = 4
          then CompressedImagePatch_Apply decompress L put Lz4ImagePatch_ReadHeader
                 (if i = 1 then bonusData else []) param off' s
          else Some (-1, off', s))"

function chunk_loop ::
    "(bytes \<Rightarrow> bytes) \<Rightarrow> 'z compress_lib \<Rightarrow> 's patch_writer \<Rightarrow> bytes \<Rightarrow> int \<Rightarrow> int \<Rightarrow> patch_param \<Rightarrow> nat \<Rightarrow> 's \<Rightarrow>
     (int \<times> 's) option" where
  "chunk_loop decompress L put bonusData i numChunks param off s =
     (if i < numChunks then
        (case apply_chunk decompress L put bonusData i param off s of
           None \<Rightarrow> None
         | Some (rc, off', s') \<Rightarrow>
             if rc \<noteq> 0 then Some (-1, s')
             else chunk_loop decompress L put bonusData (i + 1) numChunks param off' s')
      else Some (0, s))"
  by pat_completeness auto
termination
  by (relation "measure (\<lambda>(decompress, L, put, bonusData, i, numChunks, param, off, s).
    nat (numChunks - i))") auto

declare chunk_loop.simps [simp del]

definition ApplyImagePatch ::
    "(bytes \<Rightarrow> bytes) \<Rightarrow> 'z compress_lib \<Rightarrow> 's patch_writer \<Rightarrow> patch_param \<Rightarrow> bytes \<Rightarrow> 's \<Rightarrow> (int \<times> 's) option" where
  "ApplyImagePatch decompress L put param bonusData s =
     (if \<not> PreCheck param then Some (-1, s)
      else case read_i32 (pp_patch param) 8 of
        None \<Rightarrow> None
      | Some numChunks \<Rightarrow> chunk_loop decompress L put bonusData 0 numChunks param 12 s)"

text \<open>The overload with a callback and an expected hash, as the block commands call it.\<close>

definition ApplyImagePatch_writer ::
    "(bytes \<Rightarrow> bytes) \<Rightarrow> 'z compress_lib \<Rightarrow> (bytes \<Rightarrow> string) \<Rightarrow> 's patch_writer \<Rightarrow> patch_param \<Rightarrow>
     bytes \<Rightarrow> string \<Rightarrow> 's \<Rightarrow> (bool \<times> 's) option" where
  "ApplyImagePatch_writer decompress L sha256_hex callback param bonusData expected s =
     (case ImagePatchWriter_Init (ImagePatchWriter_new s) of
        (rc, iw) \<Rightarrow>
          if rc \<noteq> 0 then Some (False, iw_target iw)
          else (case ApplyImagePatch decompress L (ImagePatchWriter_Write callback) param bonusData iw of
              None \<Rightarrow> None
            | Some (rc, iw') \<Rightarrow>
                if rc \<noteq> 0 then Some (False, iw_target iw')
                else (case ImagePatchWriter_Finish sha256_hex expected iw' of
                    (ok, iw'') \<Rightarrow> Some (ok, iw_target iw''))))"

text \<open>
  \<open>UpdateApplyPatch::ApplyPatch\<close> on files: None for a file that could not be mapped; the result of
  \<open>writer->Init\<close> is not looked at.
\<close>

definition ApplyPatch_files ::
    "(bytes \<Rightarrow> bytes) \<Rightarrow> 'z compress_lib \<Rightarrow> bytes option \<Rightarrow> bytes option \<Rightarrow> bool \<Rightarrow> file_writer \<Rightarrow>
     (int \<times> file_writer) option" where
  "ApplyPatch_files decompress L patchFile oldFile opens fw =
     (case (patchFile, oldFile) of
        (Some patchData, Some oldData) \<Rightarrow>
          let fw1 = snd (FilePatchWriter_Init opens fw) in
          if length patchData < 8 then Some (-1, fw1)
          else if take 8 patchData = PKGDIFF_MAGIC then
            (case ApplyImagePatch decompress L FilePatchWriter_Write
                \<lparr>pp_old = oldData, pp_patch = patchData\<rparr> [] fw1 of
               None \<Rightarrow> None
             | Some (rc, fw2) \<Rightarrow> if rc \<noteq> 0 then Some (-1, fw2) else Some (0, snd (FilePatchWriter_Finish fw2)))
          else if take 8 patchData = BSDIFF_MAGIC then
            (case BlocksStreamPatch_ApplyPatch decompress FilePatchWriter_Write
                \<lparr>patch_data = patchData, patch_start = 0\<rparr> (Memory_Stream oldData) fw1 of
               None \<Rightarrow> None
             | Some (rc, fw2) \<Rightarrow> if rc \<noteq> 0 then Some (-1, fw2) else Some (0, snd (FilePatchWriter_Finish fw2)))
          else Some (-1, fw1)
      | _ \<Rightarrow> Some (-1, fw))"

section \<open>Properties\<close>

text \<open>
  Files: applying the patch file that \<open>MakePatch\<close> wrote for an old file writes exactly the new
  file, returns 0 and closes the writer, when the output can be opened and has room.
\<close>

theorem apply_patch_files_roundtrip:
  assumes "codec_ok compress decompress" "sa_ok sa old" "length new < 2 ^ 62" "length old < 2 ^ 62"
    and "MakePatch compress sa new old = Some patch" "length patch < 2 ^ 62"
    and "\<not> fw_init fw" "length new \<le> fw_left fw"
  shows "\<exists>fw'. ApplyPatch_files decompress L (Some patch) (Some old) True fw = Some (0, fw') \<and>
    fw_data fw' = new \<and> \<not> fw_init fw'"
proof -
  obtain cs ds es where f: "patch = patch_data (patch_file compress (length new) cs ds es)"
      "\<lparr>patch_data = patch, patch_start = 0\<rparr> = patch_file compress (length new) cs ds es"
      "fits (length new) 0 cs ds es" "replay old 0 cs ds es = new"
    using MakePatch_file [OF assms(2-5)] by (elim exE conjE)
  have magic: "take 8 patch = BSDIFF_MAGIC" "\<not> length patch < 8"
    unfolding f(1) by (simp_all add: patch_file_def patch_header_def BSDIFF_MAGIC_def)
  define fw1 where "fw1 = fw\<lparr>fw_init := True, fw_data := []\<rparr>"
  have small: "length (patch_data (patch_file compress (length new) cs ds es)) < 2 ^ 62"
    using assms(6) f(1) by (simp only:)
  have fw1: "fw_data fw1 = []" "length new \<le> (if fw_init fw1 then fw_left fw1 else 0)"
    using assms(8) by (simp_all add: fw1_def)
  obtain fw2 where fw2: "BlocksStreamPatch_ApplyPatch decompress FilePatchWriter_Write
      (patch_file compress (length new) cs ds es) (Memory_Stream old) fw1 = Some (0, fw2)" "fw_data fw2 = new"
    using file_target.stream_applies [OF assms(1) f(3) assms(3) small fw1, of old] f(4) by auto
  have "BSDIFF_MAGIC \<noteq> PKGDIFF_MAGIC" by (simp add: BSDIFF_MAGIC_def PKGDIFF_MAGIC_def)
  then show ?thesis
    using fw2 assms(7) magic
    by (simp add: ApplyPatch_files_def Let_def f(2) FilePatchWriter_Init_def FilePatchWriter_Finish_def
        flip: fw1_def)
qed

text \<open>A library that stores: for the examples.\<close>

definition stored_lib :: "unit compress_lib" where
  "stored_lib = \<lparr>deflateInit2 = \<lambda>_. Some (), deflate = \<lambda>z finish input room. (if finish then 1 else 0, drop room input, take room input, ()),
     lz4f_begin = \<lambda>_. Some ([], ()), lz4f_update = \<lambda>_ d. Some (d, ()), lz4f_end = \<lambda>_. Some [],
     lz4_compress = \<lambda>_ d. Some d, expand = \<lambda>_ d n. Some (length d, take n (d @ replicate n 0))\<rparr>"

theorem apply_patch_files_roundtrip_witness:
  "\<exists>fw'. ApplyPatch_files tl stored_lib (Some demo_bytes) (Some [1, 2, 3]) True
      \<lparr>fw_init = False, fw_data = [], fw_left = 5\<rparr> = Some (0, fw') \<and> fw_data fw' = [1, 7, 2] \<and> \<not> fw_init fw'"
proof (rule apply_patch_files_roundtrip)
  show "MakePatch (Cons 0) [3, 0, 2, 1] [1, 7, 2] [1, 2, 3] = Some demo_bytes" by (rule demo_patch)
  show "length demo_bytes < 2 ^ 62" by (simp add: demo_bytes_def)
qed (simp_all add: sa_ok_def codec_ok_def)

text \<open>
  A raw chunk whose length field counts the last four bytes of the patch twice passes the length
  check, which is made before the offset moves behind the field, and the chunk is read past the
  end of the patch buffer.
\<close>

theorem raw_chunk_reads_past_end:
  assumes "read_le 4 (pp_patch param) off = Some n" "off + n \<le> length (pp_patch param)"
    and "length (pp_patch param) < off + 4 + n"
  shows "RowImagePatch_Apply put param off s = None"
  using assms by (auto simp: RowImagePatch_Apply_def read_le_def split: if_splits)

theorem raw_chunk_reads_past_end_witness:
  "RowImagePatch_Apply FilePatchWriter_Write \<lparr>pp_old = [], pp_patch = [6, 0, 0, 0, 65, 66]\<rparr> 0
     \<lparr>fw_init = True, fw_data = [], fw_left = 9\<rparr> = None"
  by (rule raw_chunk_reads_past_end [where n = 6]) (simp_all add: read_le_def slice_def)

end
