(* ===== verification/Command.thy ===== *)
theory Command
  imports Block_Writer Store Image_Patch
begin

text \<open>
  \<open>services/applypatch/command.cpp\<close>, \<open>command_iterator.cpp\<close>, \<open>command_function.cpp\<close> and the members
  of \<open>block_set.cpp\<close> that take a command: the commands of a transfer list, the shared parameters
  they work on, and loading the source, stash and target data of a command. The crypto and
  compression libraries are the fields of \<open>lib\<close>. None is a read or write outside a buffer.
\<close>

section \<open>Commands\<close>

datatype command_type = ABORT | BSDIFF | IMGDIFF | ERASE | FREE | MOVE | NEW | STASH | ZERO | COPY | LAST

datatype command_result = FAILED | SUCCESS | NEED_RETRY

text \<open>The cast \<open>CommandResult (n)\<close>; the code passes it 0, 1 and -1.\<close>

definition CommandResult_of :: "int \<Rightarrow> command_result" where
  "CommandResult_of n = (if n = 0 then SUCCESS else if n = 1 then NEED_RETRY else FAILED)"

record command =
  cmd_type :: command_type
  cmdhead :: string
  cmdLine :: string
  tokens :: "string list"
  srcFd :: "int option"
  targetFd :: "int option"
  isStreamCmd :: bool

definition Command_new :: command where
  "Command_new = \<lparr>cmd_type = LAST, cmdhead = [], cmdLine = [], tokens = [], srcFd = None,
     targetFd = None, isStreamCmd = False\<rparr>"

definition ParseCommandType :: "string \<Rightarrow> command_type" where
  "ParseCommandType firstCmd =
     (if firstCmd = ''abort'' then ABORT
      else if firstCmd = ''bsdiff'' then BSDIFF
      else if firstCmd = ''erase'' then ERASE
      else if firstCmd = ''free'' then FREE
      else if firstCmd = ''pkgdiff'' then IMGDIFF
      else if firstCmd = ''move'' then MOVE
      else if firstCmd = ''new'' then NEW
      else if firstCmd = ''stash'' then STASH
      else if firstCmd = ''zero'' then ZERO
      else if firstCmd = ''copy'' then COPY
      else LAST)"

definition Command_Init :: "string \<Rightarrow> command \<Rightarrow> bool \<times> command" where
  "Command_Init line cmd =
     (if line = [] then (False, cmd)
      else let ts = SplitString line '' '' in
        (True, cmd\<lparr>cmdLine := line, tokens := ts, cmdhead := ts ! 0, cmd_type := ParseCommandType (ts ! 0)\<rparr>))"

definition GetArgumentByPos :: "command \<Rightarrow> nat \<Rightarrow> string" where
  "GetArgumentByPos cmd pos = (if length (tokens cmd) \<le> pos then [] else tokens cmd ! pos)"

definition GetSrcFileDescriptor :: "command \<Rightarrow> int" where
  "GetSrcFileDescriptor cmd = (case srcFd cmd of None \<Rightarrow> -1 | Some fd \<Rightarrow> fd)"

definition GetTargetFileDescriptor :: "command \<Rightarrow> int" where
  "GetTargetFileDescriptor cmd = (case targetFd cmd of None \<Rightarrow> -1 | Some fd \<Rightarrow> fd)"

definition SetSrcFileDescriptor :: "int \<Rightarrow> command \<Rightarrow> command" where
  "SetSrcFileDescriptor fd cmd = cmd\<lparr>srcFd := Some fd\<rparr>"

definition SetTargetFileDescriptor :: "int \<Rightarrow> command \<Rightarrow> command" where
  "SetTargetFileDescriptor fd cmd = cmd\<lparr>targetFd := Some fd\<rparr>"

definition SetIsStreamCmd :: "bool \<Rightarrow> command \<Rightarrow> command" where
  "SetIsStreamCmd b cmd = cmd\<lparr>isStreamCmd := b\<rparr>"

section \<open>The command iterator and the registry of command functions\<close>

record command_iterator =
  items :: "string list"
  ct :: nat

definition Iter_Check :: "command_iterator \<Rightarrow> bool" where
  "Iter_Check it \<longleftrightarrow> \<not> int (length (items it)) - int (ct it) < 1"

definition Iter_Done :: "command_iterator \<Rightarrow> bool" where
  "Iter_Done it \<longleftrightarrow> ct it = length (items it)"

definition Iter_Current :: "command_iterator \<Rightarrow> string" where
  "Iter_Current it = (if ct it < length (items it) then items it ! ct it else [])"

definition Iter_Next :: "command_iterator \<Rightarrow> command_iterator" where
  "Iter_Next it = (if length (items it) \<le> ct it then it else it\<lparr>ct := ct it + 1\<rparr>)"

datatype command_fn = AbortFn | DiffAndMoveFn | NewFn | ZeroAndEraseFn | FreeFn | StashFn

text \<open>\<open>emplace\<close> keeps the function registered first.\<close>

definition RegistCommandFunction ::
    "string \<Rightarrow> command_fn \<Rightarrow> (string \<times> command_fn) list \<Rightarrow> (string \<times> command_fn) list" where
  "RegistCommandFunction name fn reg = (if map_of reg name = None then (name, fn) # reg else reg)"

definition RegistBlockUpdateCommandFunction :: "(string \<times> command_fn) list \<Rightarrow> (string \<times> command_fn) list" where
  "RegistBlockUpdateCommandFunction reg = fold (\<lambda>(n, f). RegistCommandFunction n f)
     [(''abort'', AbortFn), (''bsdiff'', DiffAndMoveFn), (''new'', NewFn), (''pkgdiff'', DiffAndMoveFn),
      (''zero'', ZeroAndEraseFn), (''erase'', ZeroAndEraseFn), (''free'', FreeFn), (''move'', DiffAndMoveFn),
      (''stash'', StashFn), (''copy'', DiffAndMoveFn)] reg"

definition GetCommandFunction :: "string \<Rightarrow> command_fn option" where
  "GetCommandFunction command = map_of (RegistBlockUpdateCommandFunction []) command"

section \<open>The parameters of a transfer\<close>

text \<open>
  \<open>updaterMode\<close> is \<open>IsUpdaterMode ()\<close>. \<open>readyToWrite\<close> and \<open>newData\<close> stand for the thread that extracts
  the new data: the buffers it will hand to \<open>ExtractNewData\<close>, the first one possibly in part
  consumed. \<open>messages\<close> are the posted messages, \<open>env\<close> whether there is an environment.
\<close>

record transfer_params =
  version :: u64
  blockCount :: u64
  maxEntries :: u64
  maxBlocks :: u64
  written :: u64
  hasEnv :: bool
  isRetry :: bool
  messages :: "(string \<times> string) list"
  readyToWrite :: bool
  newData :: "bytes list"
  storeCreated :: int
  storeBase :: string
  freeStash :: string
  retryFile :: string
  patchDatFile :: string
  dataBuffer :: bytes
  dataBufferSize :: u64
  tp_offset :: u64
  canWrite :: bool
  isUpdaterMode :: bool
  updaterMode :: bool
  inPlaceDiff :: bool

type_synonym bw_state = "(block_writer \<times> world) option"

record 'z lib =
  lib_sha256 :: "bytes \<Rightarrow> bytes"
  lib_bunzip :: "bytes \<Rightarrow> bytes"
  lib_compress :: "'z compress_lib"

section \<open>Loading\<close>

definition LoadStreamStashBuffer ::
    "transfer_params \<Rightarrow> world \<Rightarrow> command \<Rightarrow> string list \<Rightarrow> string list \<Rightarrow> int \<times> bytes \<times> world" where
  "LoadStreamStashBuffer tp w cmd stashTokens toks =
     (if updaterMode tp then
        (case LoadDataFromStore w (storeBase tp) (toks ! 0) [] of
           (ret, stash, w1) \<Rightarrow> if ret = -1 then (-1, stash, w1) else (0, stash, w1))
      else if length stashTokens \<le> 1 then (-1, [], w)
      else let srcBlk = parsed (stashTokens ! 1) (BlockSet_new 0) in
        (case ReadDataFromBlock srcBlk w (GetSrcFileDescriptor cmd)
            (replicate (unat (TotalBlockSize srcBlk * 4096)) 0) of
           (n, stash, w1) \<Rightarrow> if n = 0 then (-1, stash, w1) else (0, stash, w1)))"

text \<open>The loop over the stash arguments; the result 1 is success.\<close>

function LoadStashBuffer ::
    "transfer_params \<Rightarrow> world \<Rightarrow> command \<Rightarrow> nat \<Rightarrow> bytes \<Rightarrow> (int \<times> nat \<times> bytes \<times> world) option" where
  "LoadStashBuffer tp w cmd pos sourceBuffer =
     (let lastArg = GetArgumentByPos cmd pos in
      if lastArg = [] then Some (1, pos + 1, sourceBuffer, w)
      else let toks = SplitString lastArg '':'' in
        if length toks \<noteq> 2 then Some (-1, pos + 1, sourceBuffer, w)
        else if \<not> isStreamCmd cmd \<or> CHR ''-'' \<notin> set (toks ! 1) then
          (case LoadDataFromStore w (storeBase tp) (toks ! 0) [] of
             (ret, stash, w1) \<Rightarrow>
               if ret \<noteq> 0 then Some (ret, pos + 1, sourceBuffer, w1)
               else (case MoveBlock sourceBuffer (parsed (toks ! 1) (BlockSet_new 0)) (Some stash) of
                   None \<Rightarrow> None
                 | Some buf \<Rightarrow> LoadStashBuffer tp w1 cmd (pos + 1) buf))
        else let stashTokens = SplitString (toks ! 1) ''-'' in
          (case LoadStreamStashBuffer tp w cmd stashTokens toks of
             (ret, stash, w1) \<Rightarrow>
               if ret = -1 then Some (-1, pos + 1, sourceBuffer, w1)
               else (case MoveBlock sourceBuffer (parsed (stashTokens ! 0) (BlockSet_new 0)) (Some stash) of
                   None \<Rightarrow> None
                 | Some buf \<Rightarrow> LoadStashBuffer tp w1 cmd (pos + 1) buf)))"
  by pat_completeness auto
termination
  by (relation "measure (\<lambda>(tp, w, cmd, pos, buf). length (tokens cmd) - pos)")
    (auto simp: GetArgumentByPos_def split: if_splits)

declare LoadStashBuffer.simps [simp del]

text \<open>The result: code, position, buffer, overlap flag.\<close>

definition LoadSourceBuffer ::
    "transfer_params \<Rightarrow> world \<Rightarrow> block_set \<Rightarrow> command \<Rightarrow> nat \<Rightarrow> bytes \<Rightarrow>
     (int \<times> nat \<times> bytes \<times> bool \<times> world) option" where
  "LoadSourceBuffer tp w this cmd pos sourceBuffer =
     (let targetCmd = GetArgumentByPos cmd pos in
      if targetCmd \<noteq> ''-'' then
        (let srcBlk = parsed targetCmd (BlockSet_new 0);
             isOverlap = (\<not> isStreamCmd cmd \<and> IsTwoBlocksOverlap srcBlk this)
         in case ReadDataFromBlock srcBlk w (GetSrcFileDescriptor cmd) sourceBuffer of
              (n, buf, w1) \<Rightarrow>
                if n = 0 then Some (-1, pos + 1, buf, isOverlap, w1)
                else let nextArgv = GetArgumentByPos cmd (pos + 1) in
                  if nextArgv = [] then Some (1, pos + 2, buf, isOverlap, w1)
                  else (case MoveBlock buf (parsed nextArgv (BlockSet_new 0)) None of
                      None \<Rightarrow> None
                    | Some buf' \<Rightarrow>
                        map_option (\<lambda>(ret, pos', b, w'). (ret, pos', b, isOverlap, w'))
                          (LoadStashBuffer tp w1 cmd (pos + 2) buf')))
      else map_option (\<lambda>(ret, pos', b, w'). (ret, pos', b, False, w'))
             (LoadStashBuffer tp w cmd (pos + 1) sourceBuffer))"

text \<open>The default of a weak symbol.\<close>

definition BlockVerify :: "command \<Rightarrow> bytes \<Rightarrow> u64 \<Rightarrow> string \<Rightarrow> nat \<Rightarrow> int" where
  "BlockVerify cmd buffer sz srcHash pos = -1"

definition LoadTargetBuffer ::
    "'z lib \<Rightarrow> transfer_params \<Rightarrow> world \<Rightarrow> block_set \<Rightarrow> command \<Rightarrow> bytes \<Rightarrow> u64 \<Rightarrow> nat \<Rightarrow> string \<Rightarrow>
     (int \<times> bytes \<times> transfer_params \<times> world) option" where
  "LoadTargetBuffer L tp w this cmd buffer blockSz pos srcHash =
     (case LoadSourceBuffer tp w this cmd pos buffer of
        None \<Rightarrow> None
      | Some (ret, pos', buf, isOverlap, w1) \<Rightarrow>
          if ret \<noteq> 1 then Some (ret, buf, tp, w1)
          else if isStreamCmd cmd then Some (0, buf, tp, w1)
          else (case sys_stat w1 (storeBase tp @ ''/'' @ srcHash) of
            (res, w2) \<Rightarrow>
              (case VerifySha256 (lib_sha256 L) buf blockSz srcHash of
                 None \<Rightarrow> None
               | Some (verifyRes, _) \<Rightarrow>
                   if verifyRes \<noteq> 0 \<and> \<not> canWrite tp
                   then Some (BlockVerify cmd buf blockSz srcHash pos', buf, tp, w2)
                   else if verifyRes = 0 then
                     (if isOverlap \<and> isl res then
                        (case WriteDataToStore w2 (storeBase tp) srcHash buf
                            (sint (ucast (blockSz * 4096) :: 32 word)) of
                           None \<Rightarrow> None
                         | Some (r, w3) \<Rightarrow>
                             Some (if r \<noteq> 0 then -1 else 0, buf, tp\<lparr>freeStash := srcHash\<rparr>, w3))
                      else Some (0, buf, tp, w2))
                   else (case LoadDataFromStore w2 (storeBase tp) srcHash buf of
                       (r, buf', w3) \<Rightarrow> Some (if r = 0 then 0 else -1, buf', tp, w3)))))"

section \<open>Writing patched data\<close>

text \<open>The callback that streams patched data into the target blocks; None once it is undefined.\<close>

definition bw_put :: "bw_state patch_writer" where
  "bw_put start d s =
     (case s of
        None \<Rightarrow> (-1, None)
      | Some (wr, w) \<Rightarrow>
          (case BlockWriter_Write wr w d of
             None \<Rightarrow> (-1, None)
           | Some (ok, wr', w') \<Rightarrow> (if ok then 0 else -1, Some (wr', w'))))"

definition BlockSet_WriteDiffToBlock ::
    "'z lib \<Rightarrow> world \<Rightarrow> block_set \<Rightarrow> command \<Rightarrow> bytes \<Rightarrow> bytes \<Rightarrow> bool \<Rightarrow> (int \<times> world) option" where
  "BlockSet_WriteDiffToBlock L w this cmd sourceBuffer patchBuffer isImgDiff =
     (let writer = BlockWriter_new (GetTargetFileDescriptor cmd) (offset this) this;
          expected = GetArgumentByPos cmd 4;
          hex = (\<lambda>x. ConvertSha256Hex (lib_sha256 L x));
          applied = (if isImgDiff
            then ApplyImagePatch_writer (lib_bunzip L) (lib_compress L) hex bw_put
                   \<lparr>pp_old = sourceBuffer, pp_patch = patchBuffer\<rparr> [] expected (Some (writer, w))
            else ApplyBlockPatch_writer (lib_bunzip L) hex bw_put
                   \<lparr>patch_data = patchBuffer, patch_start = 0\<rparr> sourceBuffer expected (Some (writer, w)))
      in case applied of
           Some (ok, Some (_, w1)) \<Rightarrow>
             if \<not> ok then Some (-1, w1)
             else (case sys_fsync w1 (GetTargetFileDescriptor cmd) of
                 (synced, w2) \<Rightarrow> Some (if synced then 0 else -1, w2))
         | _ \<Rightarrow> None)"

end
