(* ===== verification/Command_Process.thy ===== *)
theory Command_Process
  imports Command
begin

text \<open>
  \<open>services/applypatch/command_process.cpp\<close>: one function per command, each with its whole effect on
  the world and the transfer parameters, and the thread of \<open>update_image_block.cpp\<close> that feeds
  the new data (\<open>ExtractNewData\<close>), run up to the point where it has filled the writer of the
  command. Results are None where the code reads or writes outside a buffer.
\<close>

type_synonym exec_result = "(command_result \<times> transfer_params \<times> world) option"

section \<open>Abort, free and zero\<close>

definition Abort_Execute :: "transfer_params \<Rightarrow> world \<Rightarrow> command \<Rightarrow> exec_result" where
  "Abort_Execute tp w cmd = Some (SUCCESS, tp, w)"

definition Free_Execute :: "transfer_params \<Rightarrow> world \<Rightarrow> command \<Rightarrow> exec_result" where
  "Free_Execute tp w cmd =
     (if \<not> updaterMode tp \<and> isStreamCmd cmd then Some (SUCCESS, tp, w)
      else let shaStr = GetArgumentByPos cmd 1 in
        if storeCreated tp = 0 then
          (case FreeStore w (storeBase tp) shaStr of (r, w1) \<Rightarrow> Some (CommandResult_of r, tp, w1))
        else Some (SUCCESS, tp, w))"

text \<open>\<open>fstat\<close>: whether the descriptor is a block device.\<close>

definition sys_fstat :: "world \<Rightarrow> int \<Rightarrow> (errno + bool) \<times> world" where
  "sys_fstat w fd =
     (let w' = pop_fault w in
      case next_fault w of
        Fault e \<Rightarrow> (Inl e, fail_with e w')
      | _ \<Rightarrow> (case fds w fd of
                None \<Rightarrow> (Inl EBADF, fail_with EBADF w')
              | Some (p, _) \<Rightarrow> (Inr (is_dev w p), w')))"

definition ZeroAndErase_Execute :: "transfer_params \<Rightarrow> world \<Rightarrow> command \<Rightarrow> exec_result" where
  "ZeroAndErase_Execute tp w cmd =
     (let isErase = (cmd_type cmd = ERASE);
          fd = GetTargetFileDescriptor cmd;
          blk = parsed (GetArgumentByPos cmd 1) (BlockSet_new (tp_offset tp));
          zero = (\<lambda>w. case WriteZeroToBlock blk (updaterMode tp) w fd isErase of
             (r, w1) \<Rightarrow>
               let ret = CommandResult_of r in
               Some (ret, if ret = SUCCESS \<and> \<not> isErase
                          then tp\<lparr>written := written tp + TotalBlockSize blk\<rparr> else tp, w1))
      in if isErase \<and> updaterMode tp then
           (case sys_fstat w fd of
              (Inl _, w1) \<Rightarrow> Some (FAILED, tp, w1)
            | (Inr blockDevice, w1) \<Rightarrow> if \<not> blockDevice then Some (FAILED, tp, w1) else zero w1)
         else zero w)"

section \<open>New data\<close>

text \<open>
  \<open>ExtractNewData\<close>, called with one buffer after the other while the command waits. The result says
  whether the writer was filled and gives the data that remain: a buffer whose data no longer fit
  is dropped, a failed write or the end of the data ends the thread.
\<close>

function ExtractNewData :: "block_writer \<Rightarrow> world \<Rightarrow> bytes list \<Rightarrow> (bool \<times> bytes list \<times> world) option" where
  "ExtractNewData wr w [] = Some (False, [], w)"
| "ExtractNewData wr w (c # cs) =
     (if c = [] then ExtractNewData wr w cs
      else let toWrite = min (length c) (unat (GetBlocksSize wr - GetTotalWritten wr)) in
        if toWrite = 0 then ExtractNewData wr w cs
        else (case BlockWriter_Write wr w (take toWrite c) of
            None \<Rightarrow> None
          | Some (ok, wr', w') \<Rightarrow>
              if \<not> ok then Some (False, [], w')
              else if IsWriteDone wr' then Some (True, drop toWrite c # cs, w')
              else ExtractNewData wr' w' (drop toWrite c # cs)))"
  by pat_completeness auto
termination
  by (relation "measure (\<lambda>(wr, w, cs). length (concat cs) + length cs)") auto

text \<open>
  \<open>StreamExecute\<close> writes what the data buffer holds and then reads the blocks back; it returns -1
  when their hash is the expected one.
\<close>

function stream_write ::
    "block_writer \<Rightarrow> world \<Rightarrow> bytes \<Rightarrow> (bool \<times> world) option" where
  "stream_write wr w d =
     (if d = [] then Some (True, w)
      else let toWrite = min (length d) (unat (GetBlocksSize wr - GetTotalWritten wr)) in
        if toWrite = 0 then Some (True, w)
        else (case BlockWriter_Write wr w (take toWrite d) of
            None \<Rightarrow> None
          | Some (ok, wr', w') \<Rightarrow> if \<not> ok then Some (False, w') else stream_write wr' w' (drop toWrite d)))"
  by pat_completeness auto
termination by (relation "measure (\<lambda>(wr, w, d). length d)") auto

declare stream_write.simps [simp del]

definition New_StreamExecute :: "'z lib \<Rightarrow> transfer_params \<Rightarrow> world \<Rightarrow> command \<Rightarrow> (int \<times> world) option" where
  "New_StreamExecute L tp w cmd =
     (let tgtHash = GetArgumentByPos cmd 1;
          bs = BlockSet_of_str (GetArgumentByPos cmd 2) (tp_offset tp);
          fd = GetTargetFileDescriptor cmd
      in if length (dataBuffer tp) < unat (dataBufferSize tp) then None
         else case stream_write (BlockWriter_new fd (tp_offset tp) bs) w
                (take (unat (dataBufferSize tp)) (dataBuffer tp)) of
           None \<Rightarrow> None
         | Some (False, w1) \<Rightarrow> Some (-1, w1)
         | Some (True, w1) \<Rightarrow>
             (case ReadDataFromBlock bs w1 fd
                 (replicate (unat (min (TotalBlockSize bs * 4096) (dataBufferSize tp))) 0) of
                (n, tgtBuffer, w2) \<Rightarrow>
                  if n = 0 then Some (-1, w2)
                  else (case VerifySha256 (lib_sha256 L) tgtBuffer (TotalBlockSize bs) tgtHash of
                      None \<Rightarrow> None
                    | Some (r, _) \<Rightarrow> if r = 0 then Some (-1, w2) else Some (0, w2))))"

definition New_Execute :: "'z lib \<Rightarrow> transfer_params \<Rightarrow> world \<Rightarrow> command \<Rightarrow> exec_result" where
  "New_Execute L tp w cmd =
     (if isStreamCmd cmd then
        map_option (\<lambda>(r, w1). (if r \<noteq> 0 then FAILED else SUCCESS, tp, w1)) (New_StreamExecute L tp w cmd)
      else let bs = parsed (GetArgumentByPos cmd 1) (BlockSet_new 0) in
        if \<not> readyToWrite tp then Some (FAILED, tp, w)
        else (case ExtractNewData (BlockWriter_new (GetTargetFileDescriptor cmd) (tp_offset tp) bs) w (newData tp) of
            None \<Rightarrow> None
          | Some (filled, rest, w1) \<Rightarrow>
              if filled then Some (SUCCESS, tp\<lparr>newData := rest, written := written tp + TotalBlockSize bs\<rparr>, w1)
              else Some (FAILED, tp\<lparr>newData := rest, readyToWrite := False\<rparr>, w1)))"

section \<open>Moves and patches\<close>

text \<open>
  \<open>LoadTarget\<close>: either the command is decided (\<open>Inl\<close> its result) or the source data are in the
  buffer (\<open>Inr\<close>).
\<close>

definition LoadTarget ::
    "'z lib \<Rightarrow> transfer_params \<Rightarrow> world \<Rightarrow> command \<Rightarrow> nat \<Rightarrow> block_set \<Rightarrow>
     ((command_result + bytes \<times> block_set) \<times> transfer_params \<times> world) option" where
  "LoadTarget L tp w cmd pos targetBlock =
     (let ty = cmd_type cmd;
          srcHash = (if ty = COPY then [] else GetArgumentByPos cmd pos);
          tgtHash = (if ty = MOVE then srcHash else if ty = COPY then [] else GetArgumentByPos cmd (pos + 1));
          pos1 = (if ty = MOVE then pos + 1 else if ty = COPY then pos else pos + 2);
          tgt = parsed (GetArgumentByPos cmd pos1) targetBlock;
          load = (\<lambda>w1.
            let srcBlockSize = String2Int_u64 (GetArgumentByPos cmd (pos1 + 1)) 10;
                buffer = replicate (unat (srcBlockSize * 4096)) 0
            in case LoadTargetBuffer L tp w1 tgt cmd buffer srcBlockSize (pos1 + 2) srcHash of
                 None \<Rightarrow> None
               | Some (ret, buf, tp', w2) \<Rightarrow>
                   if ret \<noteq> 0 then Some (Inl FAILED, tp', w2) else Some (Inr (buf, tgt), tp', w2))
      in if ty = COPY then load w
         else (case ReadDataFromBlock tgt w (GetTargetFileDescriptor cmd)
                  (replicate (unat (TotalBlockSize tgt * 4096)) 0) of
             (n, tgtBuffer, w1) \<Rightarrow>
               if n = 0 then Some (Inl FAILED, tp, w1)
               else (case VerifySha256 (lib_sha256 L) tgtBuffer (TotalBlockSize tgt) tgtHash of
                   None \<Rightarrow> None
                 | Some (r, _) \<Rightarrow> if r = 0 then Some (Inl SUCCESS, tp, w1) else load w1)))"

text \<open>The dat file is read whole by a file stream; reading it does not take part in the faults.\<close>

definition WriteFileToBlock ::
    "'z lib \<Rightarrow> transfer_params \<Rightarrow> world \<Rightarrow> command \<Rightarrow> bytes \<Rightarrow> u64 \<Rightarrow> u64 \<Rightarrow> block_set \<Rightarrow> (int \<times> world) option" where
  "WriteFileToBlock L tp w cmd srcBuffer off patchLength targetBlock =
     (case obj w (canon (patchDatFile tp)) of
        None \<Rightarrow> Some (-1, w)
      | Some content \<Rightarrow>
          if 2 ^ 63 \<le> unat off \<or> (patchLength \<noteq> 0 \<and> length content < unat off + unat patchLength)
          then Some (-1, w)
          else BlockSet_WriteDiffToBlock L w targetBlock cmd srcBuffer
                 (slice (unat off) (unat patchLength) content) (cmd_type cmd = IMGDIFF))"

definition SkipInPlaceMove :: "transfer_params \<Rightarrow> command \<Rightarrow> bool" where
  "SkipInPlaceMove tp cmd \<longleftrightarrow> canWrite tp \<and> cmd_type cmd = MOVE \<and>
     GetArgumentByPos cmd 2 = GetArgumentByPos cmd 4 \<and> inPlaceDiff tp"

definition write_target ::
    "'z lib \<Rightarrow> transfer_params \<Rightarrow> world \<Rightarrow> command \<Rightarrow> bytes \<Rightarrow> block_set \<Rightarrow> (int \<times> world) option" where
  "write_target L tp w cmd buffer targetBlock =
     (if cmd_type cmd \<noteq> MOVE \<and> cmd_type cmd \<noteq> COPY then
        (let off = (if isStreamCmd cmd then 0 else String2Int_u64 (GetArgumentByPos cmd 1) 10);
             patchLength = String2Int_u64 (GetArgumentByPos cmd 2) 10
         in if isUpdaterMode tp \<or> isStreamCmd cmd then
              (if length (dataBuffer tp) < unat off + unat patchLength then None
               else BlockSet_WriteDiffToBlock L w targetBlock cmd buffer
                      (slice (unat off) (unat patchLength) (dataBuffer tp)) (cmd_type cmd = IMGDIFF))
            else WriteFileToBlock L tp w cmd buffer off patchLength targetBlock)
      else map_option (\<lambda>(n, w1). (if n = 0 then -1 else 0, w1))
             (WriteDataToBlock targetBlock w (GetTargetFileDescriptor cmd) buffer))"

text \<open>After a write: a stash made for the command itself goes away.\<close>

definition finish_write :: "transfer_params \<Rightarrow> world \<Rightarrow> block_set \<Rightarrow> transfer_params \<times> world" where
  "finish_write tp w targetBlock =
     (let done = (\<lambda>tp. tp\<lparr>written := written tp + TotalBlockSize targetBlock\<rparr>) in
      if freeStash tp \<noteq> [] then (done (tp\<lparr>freeStash := []\<rparr>), snd (FreeStore w (storeBase tp) (freeStash tp)))
      else (done tp, w))"

definition DiffAndMove_Execute :: "'z lib \<Rightarrow> transfer_params \<Rightarrow> world \<Rightarrow> command \<Rightarrow> exec_result" where
  "DiffAndMove_Execute L tp w cmd =
     (let pos = (if cmd_type cmd = MOVE \<or> cmd_type cmd = COPY then 1 else 3) in
      if SkipInPlaceMove tp cmd then Some (SUCCESS, tp, w)
      else (case LoadTarget L tp w cmd pos (BlockSet_new (tp_offset tp)) of
          None \<Rightarrow> None
        | Some (Inl result, tp1, w1) \<Rightarrow> Some (result, tp1, w1)
        | Some (Inr (buffer, targetBlock), tp1, w1) \<Rightarrow>
            if \<not> canWrite tp1 then Some (SUCCESS, tp1, w1)
            else (case write_target L tp1 w1 cmd buffer targetBlock of
                None \<Rightarrow> None
              | Some (ret, w2) \<Rightarrow>
                  if ret \<noteq> 0 then Some (if errno w2 = EIO then NEED_RETRY else FAILED, tp1, w2)
                  else (case finish_write tp1 w2 targetBlock of (tp2, w3) \<Rightarrow> Some (SUCCESS, tp2, w3)))))"

section \<open>Stash\<close>

definition Stash_Execute :: "'z lib \<Rightarrow> transfer_params \<Rightarrow> world \<Rightarrow> command \<Rightarrow> exec_result" where
  "Stash_Execute L tp w cmd =
     (if \<not> updaterMode tp \<and> isStreamCmd cmd then Some (SUCCESS, tp, w)
      else let shaStr = GetArgumentByPos cmd 1;
               srcBlk = parsed (GetArgumentByPos cmd 2) (BlockSet_new 0);
               srcBlockSize = TotalBlockSize srcBlk
        in (case LoadDataFromStore w (storeBase tp) shaStr (replicate (unat (srcBlockSize * 4096)) 0) of
            (r, buffer, w1) \<Rightarrow>
              if r = 0 then Some (SUCCESS, tp, w1)
              else (case ReadDataFromBlock srcBlk w1 (GetSrcFileDescriptor cmd) buffer of
                  (n, buf, w2) \<Rightarrow>
                    if n = 0 then Some (FAILED, tp, w2)
                    else (case VerifySha256 (lib_sha256 L) buf srcBlockSize shaStr of
                        None \<Rightarrow> None
                      | Some (v, _) \<Rightarrow>
                          let res = (if v \<noteq> 0 \<and> \<not> canWrite tp
                                     then BlockVerify cmd buf srcBlockSize shaStr 3 else v)
                          in if res \<noteq> 0 then Some (SUCCESS, tp, w2)
                             else map_option (\<lambda>(ret, w3). (CommandResult_of ret, tp, w3))
                                    (WriteDataToStore w2 (storeBase tp) shaStr buf
                                       (sint (ucast (srcBlockSize * 4096) :: 32 word)))))))"

section \<open>The dispatch\<close>

definition execute_fn :: "command_fn \<Rightarrow> 'z lib \<Rightarrow> transfer_params \<Rightarrow> world \<Rightarrow> command \<Rightarrow> exec_result" where
  "execute_fn fn L tp w cmd =
     (case fn of
        AbortFn \<Rightarrow> Abort_Execute tp w cmd
      | DiffAndMoveFn \<Rightarrow> DiffAndMove_Execute L tp w cmd
      | NewFn \<Rightarrow> New_Execute L tp w cmd
      | ZeroAndEraseFn \<Rightarrow> ZeroAndErase_Execute tp w cmd
      | FreeFn \<Rightarrow> Free_Execute tp w cmd
      | StashFn \<Rightarrow> Stash_Execute L tp w cmd)"

end
