(* ===== verification/Transfer_List.thy ===== *)
theory Transfer_List
  imports Command_Process
begin

text \<open>
  \<open>services/applypatch/transfer_manager.cpp\<close>: the loop over the lines of a transfer list, with the
  retry file that remembers the last command done. The progress reports are collected as pairs of
  blocks written and total blocks; the floating-point arithmetic on them is not modelled.
\<close>

abbreviation (input) TRANSFER_HEADERS_COUNT :: nat where
  "TRANSFER_HEADERS_COUNT \<equiv> 4"

definition bytes_of_string :: "string \<Rightarrow> bytes" where
  "bytes_of_string s = List.map (\<lambda>c. of_nat (of_char c)) s"

definition string_of_bytes :: "bytes \<Rightarrow> string" where
  "string_of_bytes b = List.map (\<lambda>x. char_of (unat x)) b"

section \<open>The retry file\<close>

text \<open>\<open>ReadFileToString\<close>: the size comes from \<open>fstat\<close>; on a failed read the rest is zero bytes.\<close>

definition fstat_size :: "world \<Rightarrow> int \<Rightarrow> nat \<times> world" where
  "fstat_size w fd =
     (let w' = pop_fault w in
      case next_fault w of
        Fault e \<Rightarrow> (0, fail_with e w')
      | _ \<Rightarrow> (case fds w fd of
                None \<Rightarrow> (0, fail_with EBADF w')
              | Some (p, _) \<Rightarrow> (case obj w p of None \<Rightarrow> (0, w') | Some c \<Rightarrow> (length c, w'))))"

definition ReadFileToString :: "world \<Rightarrow> int \<Rightarrow> bool \<times> string \<times> world" where
  "ReadFileToString w fd =
     (case fstat_size w fd of
        (n, w1) \<Rightarrow>
          (case ReadFully w1 fd n of
             (ok, xs, w2) \<Rightarrow> (ok, string_of_bytes (xs @ replicate (n - length xs) 0), w2)))"

definition RegisterForRetry :: "transfer_params \<Rightarrow> world \<Rightarrow> string \<Rightarrow> bool \<times> world" where
  "RegisterForRetry tp w cmd =
     (case sys_open_create w (retryFile tp) of
        (Inl _, w1) \<Rightarrow> (False, w1)
      | (Inr fd, w1) \<Rightarrow>
          (case WriteStringToFile w1 fd (bytes_of_string cmd) of
             (ret, w2) \<Rightarrow> (ret, sys_close (snd (sys_fsync w2 fd)) fd)))"

definition ReloadForRetry :: "transfer_params \<Rightarrow> world \<Rightarrow> string \<times> world" where
  "ReloadForRetry tp w =
     (case sys_open w (retryFile tp) of
        (Inl _, w1) \<Rightarrow> ([], w1)
      | (Inr fd, w1) \<Rightarrow>
          (case ReadFileToString (snd (sys_lseek w1 fd 0)) fd of
             (_, cmd, w2) \<Rightarrow> (cmd, sys_close w2 fd)))"

section \<open>Running a command\<close>

definition post :: "string \<Rightarrow> string \<Rightarrow> transfer_params \<Rightarrow> transfer_params" where
  "post k v tp = (if hasEnv tp then tp\<lparr>messages := messages tp @ [(k, v)]\<rparr> else tp)"

definition CheckResult ::
    "command_result \<Rightarrow> string \<Rightarrow> command_type \<Rightarrow> transfer_params \<Rightarrow> world \<Rightarrow> bool \<times> transfer_params \<times> world" where
  "CheckResult result cmd ty tp w =
     (case result of
        SUCCESS \<Rightarrow> (True, tp, if ty \<noteq> NEW then snd (RegisterForRetry tp w cmd) else w)
      | NEED_RETRY \<Rightarrow> (False, post ''retry_update'' ''reboot_IO_failed'' tp, w)
      | FAILED \<Rightarrow> (False, post ''retry_update'' ''reboot_block_update_failed'' tp, w))"

definition CommandsExecute ::
    "'z lib \<Rightarrow> transfer_params \<Rightarrow> world \<Rightarrow> int \<Rightarrow> int \<Rightarrow> command \<Rightarrow> (bool \<times> transfer_params \<times> world) option" where
  "CommandsExecute L tp w sourceFd tgtFd cmd =
     (let cmd' = SetTargetFileDescriptor tgtFd (SetSrcFileDescriptor sourceFd cmd) in
      case GetCommandFunction (cmdhead cmd') of
        None \<Rightarrow> Some (False, tp, w)
      | Some fn \<Rightarrow>
          (case execute_fn fn L tp w cmd' of
             None \<Rightarrow> None
           | Some (ret, tp1, w1) \<Rightarrow>
               if \<not> canWrite tp1 then Some (ret = SUCCESS, tp1, w1)
               else Some (CheckResult ret (cmdLine cmd') (cmd_type cmd') tp1 w1)))"

definition JudgeBlockVerifyCmdType :: "command \<Rightarrow> bool" where
  "JudgeBlockVerifyCmdType cmd \<longleftrightarrow> cmd_type cmd \<notin> {NEW, ERASE, FREE, ZERO}"

section \<open>The list\<close>

definition InitCommandParser ::
    "string list \<Rightarrow> transfer_params \<Rightarrow> world \<Rightarrow> (string \<times> transfer_params \<times> world) option" where
  "InitCommandParser headers tp w =
     (if length headers \<noteq> TRANSFER_HEADERS_COUNT then None
      else let tp' = tp\<lparr>version := String2Int_u64 (headers ! 0) 10, blockCount := String2Int_u64 (headers ! 1) 10,
                        maxEntries := String2Int_u64 (headers ! 2) 10, maxBlocks := String2Int_u64 (headers ! 3) 10\<rparr>
           in if hasEnv tp' \<and> isRetry tp' then
                (case ReloadForRetry tp' w of (retryCmd, w1) \<Rightarrow> Some (retryCmd, tp', w1))
              else Some ([], tp', w))"

record parser_state =
  retryCmd :: string
  initBlock :: u64
  progress :: "(u64 \<times> u64) list"

definition after_command :: "transfer_params \<Rightarrow> parser_state \<Rightarrow> parser_state" where
  "after_command tp ps =
     (let init = (if initBlock ps = 0 then written tp else initBlock ps) in
      if blockCount tp \<noteq> 0 \<and> 0 < written tp - init
      then ps\<lparr>initBlock := written tp, progress := progress ps @ [(written tp - init, blockCount tp)]\<rparr>
      else ps\<lparr>initBlock := init\<rparr>)"

text \<open>One line: \<open>Inl\<close> ends the run with failure.\<close>

definition parse_line ::
    "'z lib \<Rightarrow> bool \<Rightarrow> int \<Rightarrow> int \<Rightarrow> string \<Rightarrow> parser_state \<times> transfer_params \<times> world \<Rightarrow>
     (bool \<times> parser_state \<times> transfer_params \<times> world) option" where
  "parse_line L isStream sourceFd tgtFd line st =
     (case st of (ps, tp, w) \<Rightarrow>
        case Command_Init line (SetIsStreamCmd isStream Command_new) of (ok, cmd) \<Rightarrow>
          if \<not> ok \<or> \<not> hasEnv tp then Some (True, ps, tp, w)
          else let retrying = (retryCmd ps \<noteq> [] \<and> isRetry tp);
                   ps1 = (if retrying \<and> line = retryCmd ps then ps\<lparr>retryCmd := []\<rparr> else ps)
            in if retrying \<and> cmd_type cmd \<noteq> NEW then Some (True, ps1, tp, w)
               else if \<not> canWrite tp \<and> \<not> JudgeBlockVerifyCmdType cmd then Some (True, ps1, tp, w)
               else (case CommandsExecute L tp w sourceFd tgtFd cmd of
                   None \<Rightarrow> None
                 | Some (False, tp1, w1) \<Rightarrow> Some (False, ps1, tp1, w1)
                 | Some (True, tp1, w1) \<Rightarrow>
                     Some (True, if canWrite tp1 then after_command tp1 ps1 else ps1, tp1, w1)))"

function parse_loop ::
    "'z lib \<Rightarrow> bool \<Rightarrow> int \<Rightarrow> int \<Rightarrow> command_iterator \<Rightarrow> parser_state \<times> transfer_params \<times> world \<Rightarrow>
     (bool \<times> parser_state \<times> transfer_params \<times> world) option" where
  "parse_loop L isStream sourceFd tgtFd it st =
     (if length (items it) \<le> ct it then Some (True, st)
      else (case parse_line L isStream sourceFd tgtFd (Iter_Current it) st of
          None \<Rightarrow> None
        | Some (False, st') \<Rightarrow> Some (False, st')
        | Some (True, st') \<Rightarrow> parse_loop L isStream sourceFd tgtFd (Iter_Next it) st'))"
  by pat_completeness auto
termination
  by (relation "measure (\<lambda>(L, s, a, b, it, st). length (items it) - ct it)") (auto simp: Iter_Next_def)

declare parse_loop.simps [simp del]

definition CommandsParser_iter ::
    "'z lib \<Rightarrow> bool \<Rightarrow> int \<Rightarrow> int \<Rightarrow> string list \<Rightarrow> command_iterator \<Rightarrow> transfer_params \<Rightarrow> world \<Rightarrow>
     (bool \<times> transfer_params \<times> world) option" where
  "CommandsParser_iter L isStream sourceFd tgtFd headers it tp w =
     (if \<not> Iter_Check it then Some (False, tp, w)
      else case InitCommandParser headers tp w of
        None \<Rightarrow> Some (False, tp, w)
      | Some (retry, tp1, w1) \<Rightarrow>
          map_option (\<lambda>(ok, ps, tp2, w2). (ok, tp2, w2))
            (parse_loop L isStream sourceFd tgtFd it
               (\<lparr>retryCmd = retry, initBlock = 0, progress = []\<rparr>, tp1, w1)))"

text \<open>With fewer lines than headers the code copies past the end of the list.\<close>

definition CommandsParser ::
    "'z lib \<Rightarrow> int \<Rightarrow> int \<Rightarrow> string list \<Rightarrow> transfer_params \<Rightarrow> world \<Rightarrow> (bool \<times> transfer_params \<times> world) option" where
  "CommandsParser L sourceFd tgtFd context tp w =
     (if length context < TRANSFER_HEADERS_COUNT then None
      else CommandsParser_iter L False sourceFd tgtFd (take 4 context) \<lparr>items = drop 4 context, ct = 0\<rparr> tp w)"

end
