(* ===== verification/Frame.thy ===== *)
theory Frame
  imports Transfer_List
begin

text \<open>
  What a transfer leaves alone. \<open>frame S w w'\<close>: whatever calls failed between \<open>w\<close> and \<open>w'\<close>, only
  objects named in \<open>S\<close> have changed, the directories are the same, and every descriptor that was open
  then still stands for the same object.
\<close>

definition frame :: "string set \<Rightarrow> world \<Rightarrow> world \<Rightarrow> bool" where
  "frame S w w' \<longleftrightarrow>
     (\<forall>p. p \<notin> S \<longrightarrow> obj w' p = obj w p) \<and> is_dev w' = is_dev w \<and> dirs w' = dirs w \<and>
     next_fd w \<le> next_fd w' \<and> (\<forall>f<next_fd w. map_option fst (fds w' f) = map_option fst (fds w f))"

text \<open>Descriptor \<open>fd\<close> is open and what is written through it goes to an object of \<open>S\<close>.\<close>

definition writes_to :: "string set \<Rightarrow> int \<Rightarrow> world \<Rightarrow> bool" where
  "writes_to S fd w \<longleftrightarrow> fd < next_fd w \<and> (\<forall>p. map_option fst (fds w fd) = Some p \<longrightarrow> p \<in> S)"

named_theorems frame_intros

lemma frame_refl [simp, frame_intros]: "frame S w w"
  by (simp add: frame_def)

lemma frame_trans: "frame S w w' \<Longrightarrow> frame S w' w'' \<Longrightarrow> frame S w w''"
  by (auto simp: frame_def)

lemma frame_mono: "frame S w w' \<Longrightarrow> S \<subseteq> T \<Longrightarrow> frame T w w'"
  by (auto simp: frame_def)

lemma writes_frame: "frame S w w' \<Longrightarrow> writes_to S fd w \<Longrightarrow> writes_to S fd w'"
  by (auto simp: frame_def writes_to_def simp del: map_option_eq_Some)

lemma writes_mono: "writes_to S fd w \<Longrightarrow> S \<subseteq> T \<Longrightarrow> writes_to T fd w"
  by (auto simp: writes_to_def)

lemma frame_stable: "stable S w w' \<Longrightarrow> frame S w w'"
  by (simp add: stable_def frame_def)

section \<open>Calls\<close>

lemma frame_sel [world_simps]:
  "frame S w (pop_fault v) = frame S w v" "frame S w (fail_with e v) = frame S w v"
  "frame S (pop_fault w) v = frame S w v" "frame S (fail_with e w) v = frame S w v"
  by (simp_all add: frame_def world_simps)

lemma frame_set_fd: "map_option fst (fds w fd) = Some p \<Longrightarrow> frame S w (set_fd fd p q w)"
  by (auto simp: frame_def world_simps)

lemma frame_set_obj: "p \<in> S \<Longrightarrow> frame S w v \<Longrightarrow> frame S w (set_obj p c v)"
  by (auto simp: frame_def world_simps)

lemma frame_lseek: "frame S w (snd (sys_lseek w fd off))"
  by (auto simp: sys_lseek_def Let_def world_simps frame_def split: fault.splits option.splits)

lemma frame_read: "frame S w (snd (sys_read w fd n))"
  by (auto simp: sys_read_def Let_def world_simps frame_def split: fault.splits option.splits)

lemma frame_write: "writes_to S fd w \<Longrightarrow> frame S w (snd (sys_write w fd data))"
  by (auto simp: sys_write_def writes_to_def Let_def world_simps frame_def split: fault.splits option.splits)

lemma frame_fsync: "frame S w (snd (sys_fsync w fd))"
  by (auto simp: sys_fsync_def Let_def world_simps split: fault.splits)

lemma frame_stat: "frame S w (snd (sys_stat w p))"
  by (auto simp: sys_stat_def Let_def world_simps split: fault.splits option.splits)

lemma frame_fstat: "frame S w (snd (sys_fstat w fd))" "frame S w (snd (fstat_size w fd))"
  by (auto simp: sys_fstat_def fstat_size_def Let_def world_simps split: fault.splits option.splits)

lemma frame_discard: "frame S w (snd (sys_discard w fd))"
  by (auto simp: sys_discard_def Let_def world_simps split: fault.splits)

lemma frame_unlink: "canon p \<in> S \<Longrightarrow> frame S w (snd (sys_unlink w p))"
  by (auto simp: sys_unlink_def Let_def world_simps frame_def split: fault.splits)

lemma frame_open: "frame S w (snd (sys_open w p))"
  by (auto simp: sys_open_def fresh_fd_def Let_def world_simps frame_def split: fault.splits)

lemma frame_create: "canon p \<in> S \<Longrightarrow> frame S w (snd (sys_open_create w p))"
  by (auto simp: sys_open_create_def fresh_fd_def Let_def world_simps frame_def split: fault.splits)

lemma open_fresh: "sys_open w p = (Inr fd, w') \<Longrightarrow> next_fd w \<le> fd"
  using sys_open_Inr [of w p fd w'] by simp

lemma create_writes: "sys_open_create w p = (Inr fd, w') \<Longrightarrow> canon p \<in> S \<Longrightarrow> next_fd w \<le> fd \<and> writes_to S fd w'"
  using sys_open_create_Inr [of w p fd w'] by (simp add: writes_to_def)

lemma create_empty: "fst (sys_open_create w []) = Inr fd \<Longrightarrow> False"
  by (auto simp: sys_open_create_def canon_def collapse_def parent_dir_def Let_def split: fault.splits if_splits)

lemma frame_close: "frame S w w' \<Longrightarrow> next_fd w \<le> fd \<Longrightarrow> frame S w (sys_close w' fd)"
  by (simp add: frame_def world_simps)

section \<open>Loops\<close>

lemma frame_write_loop: "writes_to S fd w \<Longrightarrow> frame S w (snd (write_loop retry w fd data))"
proof (induction retry w fd data rule: write_loop.induct)
  case (1 retry w fd data)
  have f: "frame S w (snd (sys_write w fd data))" by (rule frame_write [OF "1.prems"])
  show ?case
    using 1 f writes_frame [OF f "1.prems"]
    by (subst write_loop.simps) (auto split: prod.splits sum.splits intro: frame_trans)
qed

lemma frame_WriteFully: "writes_to S fd w \<Longrightarrow> frame S w (snd (WriteFully w fd data))"
  by (simp add: WriteFully_def frame_write_loop)

lemma frame_ReadFully: "frame S w (snd (snd (ReadFully w fd n)))"
proof (induction w fd n rule: ReadFully.induct)
  case (1 w fd n)
  have f: "frame S w (snd (sys_read w fd n))" by (rule frame_read)
  show ?case
    using 1 f by (subst ReadFully.simps) (auto split: prod.splits sum.splits intro: frame_trans)
qed

lemma frame_read_blocks: "frame S w (snd (snd (read_blocks off ps w fd pos buffer)))"
proof (induction off ps w fd pos buffer rule: read_blocks.induct)
  case (2 off p ps w fd pos buffer)
  obtain r w1 where l: "sys_lseek w fd (seek_offset off p) = (r, w1)" by fastforce
  obtain ok xs w2 where rd: "ReadFully w1 fd (min (length buffer - pos) (pair_bytes p)) = (ok, xs, w2)"
    using prod_cases3 by blast
  have "frame S w w1" "frame S w1 w2"
    using frame_lseek [of S w fd "seek_offset off p"] l frame_ReadFully [of S w1 fd] rd by (metis snd_conv)+
  with 2 l rd show ?case by (auto simp: Let_def intro: frame_trans)
qed simp

lemma frame_write_blocks:
  "write_blocks off ps w fd pos buffer = Some (n, w') \<Longrightarrow> writes_to S fd w \<Longrightarrow> frame S w w'"
proof (induction off ps w fd pos buffer rule: write_blocks.induct)
  case (1 off w fd pos buffer)
  then show ?case using frame_fsync [of S w fd] by (auto split: prod.splits)
next
  case (2 off p ps w fd pos buffer)
  obtain r w1 where l: "sys_lseek w fd (seek_offset off p) = (r, w1)" by fastforce
  obtain ok w2 where wr: "WriteFully w1 fd (slice pos (pair_bytes p) buffer) = (ok, w2)" by fastforce
  have f1: "frame S w w1" using frame_lseek [of S w fd "seek_offset off p"] l by simp
  have t1: "writes_to S fd w1" by (rule writes_frame [OF f1 "2.prems"(2)])
  have f2: "frame S w1 w2" using frame_WriteFully [OF t1] wr by (metis snd_conv)
  show ?case
    using 2 l wr f1 f2 writes_frame [OF f2 t1]
    by (auto split: if_splits intro: frame_trans frame_trans [OF f1 frame_trans [OF f2]])
qed

lemma frame_zero_loop: "writes_to S fd w \<Longrightarrow> frame S w (snd (zero_loop n w fd))"
proof (induction n w fd rule: zero_loop.induct)
  case (2 n w fd)
  obtain ok w1 where wr: "WriteFully w fd (replicate H_BLOCK_SIZE 0) = (ok, w1)" by fastforce
  have f: "frame S w w1" using frame_WriteFully [OF "2.prems"] wr by (metis snd_conv)
  show ?case
    using 2 wr f writes_frame [OF f "2.prems"] by (cases ok) (auto intro: frame_trans)
qed simp

lemma frame_zero_blocks: "writes_to S fd w \<Longrightarrow> frame S w (snd (zero_blocks off m e ps w fd))"
proof (induction off m e ps w fd rule: zero_blocks.induct)
  case (2 off m e p ps w fd)
  obtain ok w1 where d: "sys_discard w fd = (ok, w1)" by fastforce
  obtain r w2 where l: "sys_lseek w fd (seek_offset off p) = (r, w2)" by fastforce
  obtain x w3 where z: "zero_loop (unat (snd p) - unat (fst p)) w2 fd = (x, w3)" by fastforce
  have f: "frame S w w1" "frame S w w2"
    using frame_discard [of S w fd] d frame_lseek [of S w fd "seek_offset off p"] l by simp_all
  have t: "writes_to S fd w1" "writes_to S fd w2" by (rule writes_frame [OF _ "2.prems"], rule f)+
  have f3: "frame S w2 w3" using frame_zero_loop [OF t(2)] z by (metis snd_conv)
  have t3: "writes_to S fd w3" by (rule writes_frame [OF f3 t(2)])
  show ?case
    using "2.IH" f t f3 t3 d l z
    by (auto split: option.splits intro: frame_trans frame_trans [OF f(2) frame_trans [OF f3]])
qed simp

section \<open>The stash and the block writer\<close>

definition stash_names :: "string \<Rightarrow> string set" where
  "stash_names base = range (\<lambda>n. canon (store_path base n))"

lemma frame_FreeStore:
  assumes "stash_names base \<subseteq> S"
  shows "frame S w (snd (FreeStore w base n))"
proof -
  have "canon (store_path base n) \<in> S" using assms by (auto simp: stash_names_def)
  then have "frame S w (snd (sys_unlink w (store_path base n)))" by (rule frame_unlink)
  then show ?thesis
    by (auto simp: FreeStore_def DeleteFile_def store_path_def split: prod.splits)
qed

lemma frame_LoadDataFromStore: "frame S w (snd (snd (LoadDataFromStore w base n buffer)))"
proof -
  define path where "path = (if n = [] then base else store_path base n)"
  obtain x w1 where st: "sys_stat w path = (x, w1)" by fastforce
  obtain y w2 where op: "sys_open w1 path = (y, w2)" by fastforce
  have f: "frame S w w1" "frame S w1 w2"
    using frame_stat [of S w path] st frame_open [of S w1 path] op by simp_all
  have "frame S w (sys_close w3 fd)" if y: "y = Inr fd" and rd: "ReadFully w2 fd m = (ok, xs, w3)" for fd m ok xs w3
  proof (rule frame_close)
    have "frame S w2 w3" using frame_ReadFully [of S w2 fd m] rd by simp
    with f show "frame S w w3" by (blast intro: frame_trans)
    show "next_fd w \<le> fd" using open_fresh [of w1 path fd w2] op y f(1) by (simp add: frame_def)
  qed
  moreover have "frame S w w2" using f by (rule frame_trans)
  ultimately show ?thesis
    using f(1) st op by (auto simp: LoadDataFromStore_def Let_def path_def [symmetric] split: sum.splits prod.splits)
qed

lemma frame_WriteDataToStore:
  assumes "WriteDataToStore w base n buffer sz = Some (r, w')" and "stash_names base \<subseteq> S"
  shows "frame S w w'"
proof (cases "base = [] \<or> n = []")
  case True
  have "isl (fst (sys_open_create w []))"
    using create_empty [of w] by (cases "fst (sys_open_create w [])") auto
  moreover have "frame S w (snd (sys_open_create w []))" if "isl (fst (sys_open_create w []))"
    using that sys_open_create_Inl [of w "[]"] frame_stable [OF stable_core]
    by (cases "sys_open_create w []") (auto simp: isl_def)
  ultimately show ?thesis
    using assms True
    by (cases "sys_open_create w []") (auto simp: WriteDataToStore_def isl_def split: if_splits)
next
  case False
  let ?p = "store_path base n"
  have p: "canon ?p \<in> S" using assms(2) by (auto simp: stash_names_def)
  obtain y w1 where cr: "sys_open_create w ?p = (y, w1)" by fastforce
  have f1: "frame S w w1" using frame_create [OF p, of w] cr by simp
  show ?thesis
  proof (cases y)
    case (Inl e)
    with assms False cr f1 show ?thesis by (simp add: WriteDataToStore_def)
  next
    case (Inr fd)
    have fd: "next_fd w \<le> fd" "writes_to S fd w1" using create_writes [of w ?p fd w1] cr Inr p by auto
    define res where "res = (if sz < 0 then (False, w1) else WriteFully w1 fd (take (nat sz) buffer))"
    obtain ok w2 where res2: "res = (ok, w2)" by fastforce
    have "frame S w1 w2"
      using res2 frame_WriteFully [OF fd(2), of "take (nat sz) buffer"] by (auto simp: res_def split: if_splits)
    then have f2: "frame S w w2" by (rule frame_trans [OF f1])
    let ?w3 = "sys_close (snd (sys_fsync w2 fd)) fd"
    have f3: "frame S w ?w3" using frame_trans [OF f2 frame_fsync] fd(1) by (rule frame_close)
    obtain z w4 where op: "sys_open ?w3 base = (z, w4)" by fastforce
    have f4: "frame S w w4" using frame_trans [OF f3 frame_open] op by (metis snd_conv)
    have f5: "frame S w (sys_close w4 fdd)" if "z = Inr fdd" for fdd
      using f4 open_fresh [of ?w3 base fdd w4] op that f3 by (intro frame_close) (auto simp: frame_def)
    show ?thesis
    proof (cases ok)
      case True
      with assms(1) False cr Inr res2 op f4 f5 show ?thesis
        by (auto simp: WriteDataToStore_def Let_def res_def [symmetric] split: sum.splits if_splits)
    next
      case nok: False
      with assms(1) False cr Inr res2 frame_close [OF f2 fd(1)] show ?thesis
        by (auto simp: WriteDataToStore_def Let_def res_def [symmetric] split: if_splits)
    qed
  qed
qed

lemma next_range_fd: "next_range wr w = Some (b, wr', w') \<Longrightarrow> bw_fd wr' = bw_fd wr \<and> frame S w w'"
  using frame_lseek [of S w "bw_fd wr"]
  by (auto simp: next_range_def Let_def split: if_splits sum.splits prod.splits) (metis snd_conv)+

lemma write_some_fd:
  "write_some wr w data = (k, b, wr', w') \<Longrightarrow> writes_to S (bw_fd wr) w \<Longrightarrow> bw_fd wr' = bw_fd wr \<and> frame S w w'"
  using frame_WriteFully [of S "bw_fd wr" w]
  by (auto simp: write_some_def Let_def split: bool.splits prod.splits) (metis snd_conv)+

lemma frame_write_stream:
  "write_stream wr w data = Some (b, wr', w') \<Longrightarrow> writes_to S (bw_fd wr) w \<Longrightarrow>
   bw_fd wr' = bw_fd wr \<and> frame S w w'"
proof (induction wr w data rule: write_stream.induct)
  case (1 wr w data)
  have some: "bw_fd wr' = bw_fd wr \<and> frame S w w'"
    if g: "writes_to S (bw_fd wr1) w1" "bw_fd wr1 = bw_fd wr" "frame S w w1"
      and run: "(case write_some wr1 w1 data of
          (k, False, wr2, w2) \<Rightarrow> Some (False, wr2, w2)
        | (k, True, wr2, w2) \<Rightarrow> write_stream wr2 w2 (drop k data)) = Some (b, wr', w')"
      and IH: "\<And>k wr2 w2. write_some wr1 w1 data = (k, True, wr2, w2) \<Longrightarrow>
          write_stream wr2 w2 (drop k data) = Some (b, wr', w') \<Longrightarrow> writes_to S (bw_fd wr2) w2 \<Longrightarrow>
          bw_fd wr' = bw_fd wr2 \<and> frame S w2 w'" for wr1 w1
  proof -
    obtain k h wr2 w2 where ws: "write_some wr1 w1 data = (k, h, wr2, w2)" using prod_cases4 by blast
    have s: "bw_fd wr2 = bw_fd wr1" "frame S w1 w2" using write_some_fd [OF ws g(1)] by simp_all
    have "writes_to S (bw_fd wr2) w2" using writes_frame [OF s(2) g(1)] s(1) by simp
    with run ws s g IH [of k wr2 w2] show ?thesis
      by (cases h) (auto intro: frame_trans frame_trans [OF g(3) frame_trans [OF s(2)]])
  qed
  consider "data = []" | "data \<noteq> []" "currentBlockLeft wr = 0" "CountOfRanges (bw_bs wr) \<le> blockIndex wr"
    | "data \<noteq> []" "currentBlockLeft wr = 0" "\<not> CountOfRanges (bw_bs wr) \<le> blockIndex wr"
    | "data \<noteq> []" "currentBlockLeft wr \<noteq> 0" by blast
  then show ?case
  proof cases
    case 3
    obtain g wr1 w1 where nr: "next_range wr w = Some (g, wr1, w1)"
      using "1.prems"(1) 3 by (auto simp: write_stream.simps [of wr w] split: option.splits)
    have n: "bw_fd wr1 = bw_fd wr" "frame S w w1" using next_range_fd [OF nr, of S] by simp_all
    show ?thesis
    proof (cases g)
      case True
      show ?thesis
        using "1.prems" 3 nr True n
        by (intro some [of wr1 w1] "1.IH"(1) [OF 3])
          (auto simp: write_stream.simps [of wr w] intro: writes_frame)
    next
      case False
      with "1.prems" 3 nr n show ?thesis by (simp add: write_stream.simps [of wr w])
    qed
  next
    case 4
    show ?thesis
      using "1.prems" 4
      by (intro some [of wr w] "1.IH"(2) [OF 4]) (auto simp: write_stream.simps [of wr w])
  qed (use "1.prems" in \<open>auto simp: write_stream.simps [of wr w]\<close>)
qed

lemma frame_BlockWriter_Write:
  "BlockWriter_Write wr w data = Some (b, wr', w') \<Longrightarrow> writes_to S (bw_fd wr) w \<Longrightarrow>
   bw_fd wr' = bw_fd wr \<and> frame S w w'"
  using frame_write_stream [of wr w data b wr' w' S] by (auto simp: BlockWriter_Write_def split: if_splits)

section \<open>Patches\<close>

text \<open>Whatever a writer keeps of its state every patch that only writes through it keeps.\<close>

definition put_closed :: "('s \<Rightarrow> bool) \<Rightarrow> 's patch_writer \<Rightarrow> bool" where
  "put_closed P put \<longleftrightarrow> (\<forall>start d s. P s \<longrightarrow> P (snd (put start d s)))"

lemma put_closedD: "put_closed P put \<Longrightarrow> P s \<Longrightarrow> put start d s = (rc, s') \<Longrightarrow> P s'"
  by (metis put_closed_def snd_conv)

lemma put_closed_image:
  "put_closed P put \<Longrightarrow> put_closed (\<lambda>iw. P (iw_target iw)) (ImagePatchWriter_Write put)"
  by (auto simp: put_closed_def ImagePatchWriter_Write_def split: prod.splits dest: put_closedD [unfolded put_closed_def])

lemma closed_stream_patch:
  assumes "put_closed P put" "P s" "BlocksStreamPatch_ApplyPatch decompress put p stream s = Some (rc, s')"
  shows "P s'"
proof (cases "ReadHeader decompress p")
  case (Some x)
  show ?thesis
  proof (cases x)
    case (Inr h)
    with assms(3) Some have "apply_loop (Stream_RestoreDiffData stream put) (Stream_RestoreExtraData put)
        (hdr_newSize h) (hdr_control h) (0, 0, hdr_diff h, hdr_extra h, s) = Some (rc, s')"
      by (simp add: BlocksStreamPatch_ApplyPatch_def ApplyPatch_def)
    from apply_loop_keeps [where P = P, OF _ this] assms(1,2) show ?thesis by (simp add: put_closed_def)
  qed (use assms Some in \<open>simp add: BlocksStreamPatch_ApplyPatch_def ApplyPatch_def\<close>)
qed (use assms in \<open>simp add: BlocksStreamPatch_ApplyPatch_def ApplyPatch_def\<close>)

lemma closed_zip_step:
  "put_closed P put \<Longrightarrow> P s \<Longrightarrow> zip_step L put finish za input s = (ok, ret, rest, za', s') \<Longrightarrow> P s'"
  by (auto simp: zip_step_def split: prod.splits if_splits dest: put_closedD)

lemma closed_zip_write:
  assumes "ZipAdapter_WriteData L put za input s = Some y"
  shows "put_closed P put \<longrightarrow> P s \<longrightarrow> P (snd (snd y))"
proof (rule ZipAdapter_WriteData.raw_induct
    [where P = "\<lambda>L put za input s y. put_closed P put \<longrightarrow> P s \<longrightarrow> P (snd (snd y))", OF _ assms], goal_cases)
  case (1 f L put za input s y)
  obtain ok ret rest za1 s1 where st: "zip_step L put False za input s = (ok, ret, rest, za1, s1)"
    using prod_cases5 by blast
  show ?case
    using 1 st closed_zip_step [OF _ _ st, of P] by (auto split: if_splits)
qed

lemma closed_zip_flush:
  assumes "ZipAdapter_FlushData L put za s = Some y"
  shows "put_closed P put \<longrightarrow> P s \<longrightarrow> P (snd (snd y))"
proof (rule ZipAdapter_FlushData.raw_induct
    [where P = "\<lambda>L put za s y. put_closed P put \<longrightarrow> P s \<longrightarrow> P (snd (snd y))", OF _ assms], goal_cases)
  case (1 f L put za s y)
  obtain ok ret rest za1 s1 where st: "zip_step L put True za [] s = (ok, ret, rest, za1, s1)"
    using prod_cases5 by blast
  show ?case
    using 1 st closed_zip_step [OF _ _ st, of P] by (auto split: if_splits)
qed

lemma closed_lz4_compress:
  "put_closed P put \<Longrightarrow> P s \<Longrightarrow> Lz4_CompressData L put d la s = (rc, la', s') \<Longrightarrow> P s'"
  by (auto simp: Lz4_CompressData_def Lz4Frame_CompressData_def Lz4Block_CompressData_def Let_def
      split: prod.splits if_splits option.splits dest: put_closedD)

lemma closed_lz4_blocks:
  "lz4_blocks L put rest la s = Some (rc, rest', la', s') \<Longrightarrow> put_closed P put \<Longrightarrow> P s \<Longrightarrow> P s'"
proof (induction L put rest la s rule: lz4_blocks.induct)
  case (1 L put rest la s)
  obtain rc1 la1 s1 where c: "Lz4_CompressData L put (take (min (la_block la) (length rest)) rest) la s = (rc1, la1, s1)"
    using prod_cases3 by blast
  have "P s1" using closed_lz4_compress [OF "1.prems"(2,3) c] .
  with 1 c show ?case
    by (subst (asm) lz4_blocks.simps [of L put rest la s]) (auto simp: Let_def split: if_splits)
qed

lemma closed_lz4_write:
  assumes "put_closed P put" "P s" "Lz4Adapter_WriteData L put d la s = Some (rc, la', s')"
  shows "P s'"
proof -
  obtain rc1 la1 s1 where c: "Lz4_CompressData L put (la_data la @ take (la_size la - length (la_data la)) d) la s = (rc1, la1, s1)"
    using prod_cases3 by blast
  have "P s1" using closed_lz4_compress [OF assms(1,2) c] .
  with assms c show ?thesis
    by (auto simp: Lz4Adapter_WriteData_def Let_def split: if_splits option.splits
        dest: closed_lz4_blocks [OF _ assms(1)])
qed

lemma closed_lz4_flush:
  assumes "put_closed P put" "P s"
  shows "Lz4FrameAdapter_FlushData L put la s = (rc, la', s') \<Longrightarrow> P s'"
    and "Lz4BlockAdapter_FlushData L put la s = (rc, la', s') \<Longrightarrow> P s'"
  using assms
  by (auto simp: Lz4FrameAdapter_FlushData_def Lz4BlockAdapter_FlushData_def
      split: if_splits option.splits prod.splits dest: put_closedD closed_lz4_compress)

lemma closed_adapter:
  assumes "put_closed P put" "P s"
  shows "adapter_WriteData L put ad d s = Some (rc, ad', s') \<Longrightarrow> P s'"
    and "adapter_FlushData L put ad s = Some (rc, ad', s') \<Longrightarrow> P s'"
  using assms closed_zip_write [of L put _ d s _ P] closed_zip_flush [of L put _ s _ P]
  by (fastforce simp: adapter_WriteData_def adapter_FlushData_def
      split: adapter.splits if_splits prod.splits dest: closed_lz4_write closed_lz4_flush)+

lemma closed_restore_init:
  assumes "put_closed P put" "P s" "CompressedFileRestore_Init L put info s = Some (rc, ad, s')"
  shows "P s'"
  using assms
  by (auto simp: CompressedFileRestore_Init_def Lz4BlockAdapter_Open_def Lz4FrameAdapter_Open_def
      split: codec_info.splits option.splits prod.splits if_splits dest: put_closedD)

lemma closed_restore_write:
  "put_closed P put \<Longrightarrow> put_closed (\<lambda>st. \<forall>cr. st = Some cr \<longrightarrow> P (cr_target cr)) (CompressedFileRestore_Write L put)"
  by (auto simp: put_closed_def [of "\<lambda>st. \<forall>cr. st = Some cr \<longrightarrow> P (cr_target cr)"] CompressedFileRestore_Write_def
      split: option.splits prod.splits dest: closed_adapter)

lemma closed_compressed_chunk:
  assumes c: "put_closed P put" and s: "P s"
    and run: "CompressedImagePatch_Apply decompress L put readHeader bonus param off s = Some (rc, off', s')"
  shows "P s'"
proof (cases "StartReadHeader readHeader param off")
  case None
  with run s show ?thesis by (simp add: CompressedImagePatch_Apply_def)
next
  case (Some x)
  obtain h info o' where x: "x = (h, info, o')" using prod_cases3 by blast
  define exp where "exp = DecompressData L info (slice (srcStart h) (srcLength h) (pp_old param)) (expandedLen h) bonus"
  obtain rc1 stream where e: "exp = Some (rc1, stream)"
    using run Some x by (auto simp: CompressedImagePatch_Apply_def exp_def split: option.splits)
  show ?thesis
  proof (cases "rc1 \<noteq> 0")
    case True
    with run Some x e s show ?thesis by (simp add: CompressedImagePatch_Apply_def flip: exp_def)
  next
    case False
    obtain rc2 a s1 where i: "CompressedFileRestore_Init L put info s = Some (rc2, a, s1)"
      using run Some x e False by (auto simp: CompressedImagePatch_Apply_def simp flip: exp_def split: option.splits)
    have s1: "P s1" by (rule closed_restore_init [OF c s i])
    show ?thesis
    proof (cases a)
      case None
      with run Some x e False i s1 show ?thesis by (simp add: CompressedImagePatch_Apply_def flip: exp_def)
    next
      case ad: (Some ad)
      define cr0 where "cr0 = \<lparr>cr_dataSize = 0, cr_adapter = ad, cr_target = s1\<rparr>"
      obtain rc3 cr where p: "BlocksStreamPatch_ApplyPatch decompress (CompressedFileRestore_Write L put)
          \<lparr>patch_data = pp_patch param, patch_start = patchOffset h\<rparr> stream (Some cr0) = Some (rc3, Some cr)"
        using run Some x e False i ad
        by (auto simp: CompressedImagePatch_Apply_def simp flip: exp_def cr0_def split: option.splits)
      have "\<forall>cr'. Some cr = Some cr' \<longrightarrow> P (cr_target cr')"
        by (rule closed_stream_patch [OF closed_restore_write [OF c] _ p]) (simp add: cr0_def s1)
      then have "P (cr_target cr)" by simp
      with run Some x e False i ad p show ?thesis
        by (auto simp: CompressedImagePatch_Apply_def CompressedFileRestore_CompressData_def
            simp flip: exp_def cr0_def split: if_splits option.splits prod.splits dest: closed_adapter(2) [OF c])
    qed
  qed
qed

lemma closed_chunk:
  assumes c: "put_closed P put" and s: "P s"
    and run: "apply_chunk decompress L put bonus i param off s = Some (rc, off', s')"
  shows "P s'"
proof -
  have normal: "P s'" if "NormalImagePatch_Apply decompress put param o1 s = Some (rc, off', s')" for o1
    using that s by (auto simp: NormalImagePatch_Apply_def Let_def
        split: if_splits option.splits prod.splits dest: closed_stream_patch [OF c])
  have row: "P s'" if "RowImagePatch_Apply put param o1 s = Some (rc, off', s')" for o1
    using that s by (auto simp: RowImagePatch_Apply_def Let_def
        split: if_splits option.splits prod.splits dest: put_closedD [OF c])
  show ?thesis
    using run s by (auto simp: apply_chunk_def Let_def
        split: if_splits option.splits dest: normal row closed_compressed_chunk [OF c])
qed

lemma closed_chunk_loop:
  "chunk_loop decompress L put bonus i n param off s = Some (rc, s') \<Longrightarrow> put_closed P put \<Longrightarrow> P s \<Longrightarrow> P s'"
proof (induction decompress L put bonus i n param off s rule: chunk_loop.induct)
  case (1 decompress L put bonus i n param off s)
  note step = chunk_loop.simps [of decompress L put bonus i n param off s]
  show ?case
  proof (cases "i < n")
    case False
    with 1 show ?thesis by (simp add: step)
  next
    case True
    obtain rc1 o1 s1 where a: "apply_chunk decompress L put bonus i param off s = Some (rc1, o1, s1)"
      using "1.prems"(1) True by (auto simp: step split: option.splits)
    have "P s1" by (rule closed_chunk [OF "1.prems"(2,3) a])
    with 1 True a show ?thesis by (auto simp: step split: if_splits)
  qed
qed

lemma closed_block_patch:
  assumes "put_closed P put" "P s" "ApplyBlockPatch_writer decompress hex put p old expected s = Some (ok, s')"
  shows "P s'"
  using assms(3,2)
  by (auto simp: ApplyBlockPatch_writer_def ImagePatchWriter_Init_def ImagePatchWriter_new_def
      ImagePatchWriter_Finish_def split: option.splits if_splits
      dest!: closed_stream_patch [OF put_closed_image [OF assms(1)], rotated])

lemma closed_image_patch:
  assumes "put_closed P put" "P s"
    and "ApplyImagePatch_writer decompress L hex put param bonus expected s = Some (ok, s')"
  shows "P s'"
  using assms(3,2)
  by (auto simp: ApplyImagePatch_writer_def ApplyImagePatch_def ImagePatchWriter_Init_def ImagePatchWriter_new_def
      ImagePatchWriter_Finish_def split: option.splits if_splits
      dest!: closed_chunk_loop [OF _ put_closed_image [OF assms(1)]])

text \<open>What the callback of \<open>WriteDiffToBlock\<close> keeps.\<close>

lemma bw_put_closed:
  "put_closed (\<lambda>st. \<forall>wr v. st = Some (wr, v) \<longrightarrow> bw_fd wr = fd \<and> writes_to S fd v \<and> frame S w v) bw_put"
proof -
  have "bw_fd wr' = fd \<and> writes_to S fd v' \<and> frame S w v'"
    if "BlockWriter_Write wr v d = Some (ok, wr', v')" "bw_fd wr = fd" "writes_to S fd v" "frame S w v"
    for wr v d ok wr' v'
    using frame_BlockWriter_Write [OF that(1), of S] that writes_frame frame_trans by metis
  then show ?thesis
    by (auto simp: put_closed_def bw_put_def split: option.splits prod.splits)
qed

lemma frame_WriteDiffToBlock:
  assumes "BlockSet_WriteDiffToBlock L w bs cmd src patch img = Some (r, w')"
    and t: "writes_to S (GetTargetFileDescriptor cmd) w"
  shows "frame S w w'"
proof -
  let ?fd = "GetTargetFileDescriptor cmd"
  let ?P = "\<lambda>st. \<forall>wr v. st = Some (wr, v) \<longrightarrow> bw_fd wr = ?fd \<and> writes_to S ?fd v \<and> frame S w v"
  have start: "?P (Some (BlockWriter_new ?fd (offset bs) bs, w))" using t by (simp add: BlockWriter_new_def)
  have img: "frame S w w1" if "ApplyImagePatch_writer (lib_bunzip L) (lib_compress L) hex bw_put param [] expected
      (Some (BlockWriter_new ?fd (offset bs) bs, w)) = Some (ok, Some (wr, w1))" for ok wr w1 hex expected param
    using closed_image_patch [where P = ?P, OF bw_put_closed start that] by simp
  have blk: "frame S w w1" if "ApplyBlockPatch_writer (lib_bunzip L) hex bw_put p src expected
      (Some (BlockWriter_new ?fd (offset bs) bs, w)) = Some (ok, Some (wr, w1))" for ok wr w1 hex expected p
    using closed_block_patch [where P = ?P, OF bw_put_closed start that] by simp
  have sync: "frame S w v" if "frame S w w1" "sys_fsync w1 ?fd = (b, v)" for w1 b v
    using frame_trans [OF that(1) frame_fsync [of S w1 ?fd]] that(2) by simp
  from assms(1) show ?thesis
    by (auto simp: BlockSet_WriteDiffToBlock_def Let_def split: option.splits if_splits prod.splits
        dest: img blk intro: sync [OF img] sync [OF blk])
qed

section \<open>Commands\<close>

lemma frame_ReadDataFromBlock: "ReadDataFromBlock bs w fd buf = (n, buf', w') \<Longrightarrow> frame S w w'"
  using frame_read_blocks [of S w "offset bs" "blocks bs" fd 0 buf] by (simp add: ReadDataFromBlock_def)

lemma frame_Load: "LoadDataFromStore w base n buf = (r, buf', w') \<Longrightarrow> frame S w w'"
  using frame_LoadDataFromStore [of S w base n buf] by simp

lemma frame_LoadStreamStashBuffer:
  "LoadStreamStashBuffer tp w cmd sts toks = (r, stash, w') \<Longrightarrow> frame S w w'"
  by (auto simp: LoadStreamStashBuffer_def Let_def split: if_splits prod.splits
      dest: frame_ReadDataFromBlock frame_Load)

lemma frame_LoadStashBuffer:
  "LoadStashBuffer tp w cmd pos buf = Some (r, pos', buf', w') \<Longrightarrow> frame S w w'"
proof (induction tp w cmd pos buf rule: LoadStashBuffer.induct)
  case (1 tp w cmd pos buf)
  define arg where "arg = GetArgumentByPos cmd pos"
  define toks where "toks = SplitString arg '':''"
  define sts where "sts = SplitString (toks ! 1) ''-''"
  note step = LoadStashBuffer.simps [of tp w cmd pos buf, folded arg_def, unfolded Let_def, folded toks_def, folded sts_def]
  obtain r1 stash1 w1 where l1: "LoadDataFromStore w (storeBase tp) (toks ! 0) [] = (r1, stash1, w1)"
    using prod_cases3 by blast
  obtain r2 stash2 w2 where l2: "LoadStreamStashBuffer tp w cmd sts toks = (r2, stash2, w2)"
    using prod_cases3 by blast
  note f = frame_Load [OF l1, of S] frame_LoadStreamStashBuffer [OF l2, of S]
  consider "arg = [] \<or> length toks \<noteq> 2"
    | "arg \<noteq> []" "\<not> length toks \<noteq> 2" "\<not> isStreamCmd cmd \<or> CHR ''-'' \<notin> set (toks ! 1)"
    | "arg \<noteq> []" "\<not> length toks \<noteq> 2" "\<not> (\<not> isStreamCmd cmd \<or> CHR ''-'' \<notin> set (toks ! 1))" by blast
  then show ?case
  proof cases
    case 1
    with "1.prems" show ?thesis by (auto simp: step split: if_splits)
  next
    case 2
    with "1.prems" l1 f(1) frame_trans [OF f(1)]
      "1.IH"(1) [OF arg_def 2(1) toks_def 2(2,3) l1 [symmetric] refl]
    show ?thesis by (auto simp: step split: if_splits option.splits)
  next
    case 3
    with "1.prems" l2 f(2) frame_trans [OF f(2)]
      "1.IH"(2) [OF arg_def 3(1) toks_def 3(2,3) sts_def l2 [symmetric] refl]
    show ?thesis by (auto simp: step split: if_splits option.splits)
  qed
qed

lemma frame_LoadSourceBuffer:
  assumes "LoadSourceBuffer tp w bs cmd pos buf = Some (r, pos', buf', o', w')"
  shows "frame S w w'"
proof -
  have stash: "frame S w w'"
    if "frame S w w1" "LoadStashBuffer tp w1 cmd p b = Some (x, y, z, w')" for w1 p b x y z
    using that frame_LoadStashBuffer frame_trans by blast
  from assms show ?thesis
    by (auto simp: LoadSourceBuffer_def Let_def split: if_splits prod.splits option.splits
        dest: frame_ReadDataFromBlock intro: stash [OF frame_refl] stash [OF frame_ReadDataFromBlock])
qed

text \<open>The parameters a command may not change.\<close>

definition same_places :: "transfer_params \<Rightarrow> transfer_params \<Rightarrow> bool" where
  "same_places tp tp' \<longleftrightarrow> storeBase tp' = storeBase tp \<and> retryFile tp' = retryFile tp"

lemma same_places_refl [simp]: "same_places tp tp"
  by (simp add: same_places_def)

lemma frame_LoadTargetBuffer:
  assumes "LoadTargetBuffer L tp w bs cmd buf n pos srcHash = Some (r, buf', tp', w')"
    and S: "stash_names (storeBase tp) \<subseteq> S"
  shows "frame S w w' \<and> same_places tp tp'"
proof -
  obtain ret p1 b1 ov w1 where s: "LoadSourceBuffer tp w bs cmd pos buf = Some (ret, p1, b1, ov, w1)"
    using assms(1) by (auto simp: LoadTargetBuffer_def split: option.splits)
  obtain res w2 where st: "sys_stat w1 (storeBase tp @ ''/'' @ srcHash) = (res, w2)" by fastforce
  have f1: "frame S w w1" by (rule frame_LoadSourceBuffer [OF s])
  have f2: "frame S w w2" using frame_trans [OF f1 frame_stat [of S w1 "storeBase tp @ ''/'' @ srcHash"]] st by simp
  show ?thesis
    using assms(1) s st f1 f2
    by (auto simp: LoadTargetBuffer_def same_places_def split: if_splits option.splits prod.splits
        intro: frame_trans [OF f2 frame_WriteDataToStore [OF _ S]] frame_trans [OF f2 frame_Load])
qed

lemma frame_ExtractNewData:
  "ExtractNewData wr w cs = Some (b, rest, w') \<Longrightarrow> writes_to S (bw_fd wr) w \<Longrightarrow> frame S w w'"
proof (induction wr w cs rule: ExtractNewData.induct)
  case (2 wr w c cs)
  define n where "n = min (length c) (unat (GetBlocksSize wr - GetTotalWritten wr))"
  consider "c = []" | "c \<noteq> []" "n = 0" | "c \<noteq> []" "n \<noteq> 0" by blast
  then show ?case
  proof cases
    case 3
    obtain ok wr1 w1 where wb: "BlockWriter_Write wr w (take n c) = Some (ok, wr1, w1)"
      using "2.prems"(1) 3 by (auto simp: Let_def n_def [symmetric] split: option.splits)
    have f: "bw_fd wr1 = bw_fd wr" "frame S w w1"
      using frame_BlockWriter_Write [OF wb "2.prems"(2)] by simp_all
    have t: "writes_to S (bw_fd wr1) w1" using writes_frame [OF f(2) "2.prems"(2)] f(1) by simp
    show ?thesis
      using "2.prems" 3 wb f t frame_trans [OF f(2)]
        "2.IH"(3) [OF 3(1) n_def 3(2) wb refl refl]
      by (auto simp: Let_def n_def [symmetric] split: if_splits)
  qed (use 2 in \<open>auto simp: Let_def n_def\<close>)
qed simp

lemma frame_stream_write:
  "stream_write wr w d = Some (b, w') \<Longrightarrow> writes_to S (bw_fd wr) w \<Longrightarrow> frame S w w'"
proof (induction wr w d rule: stream_write.induct)
  case (1 wr w d)
  define n where "n = min (length d) (unat (GetBlocksSize wr - GetTotalWritten wr))"
  note step = stream_write.simps [of wr w d, unfolded Let_def, folded n_def]
  show ?case
  proof (cases "d = [] \<or> n = 0")
    case True
    with "1.prems" show ?thesis by (auto simp: step split: if_splits)
  next
    case False
    obtain ok wr1 w1 where wb: "BlockWriter_Write wr w (take n d) = Some (ok, wr1, w1)"
      using "1.prems"(1) False by (auto simp: step split: option.splits)
    have f: "bw_fd wr1 = bw_fd wr" "frame S w w1"
      using frame_BlockWriter_Write [OF wb "1.prems"(2)] by simp_all
    have t: "writes_to S (bw_fd wr1) w1" using writes_frame [OF f(2) "1.prems"(2)] f(1) by simp
    show ?thesis
      using "1.prems" False wb f t frame_trans [OF f(2)] "1.IH" [OF _ n_def _ wb refl refl]
      by (auto simp: step split: if_splits)
  qed
qed

text \<open>The contract every command keeps.\<close>

definition keeps_places :: "string set \<Rightarrow> transfer_params \<Rightarrow> world \<Rightarrow> exec_result \<Rightarrow> bool" where
  "keeps_places S tp w r \<longleftrightarrow>
     (\<forall>res tp' w'. r = Some (res, tp', w') \<longrightarrow> frame S w w' \<and> same_places tp tp')"

lemma keeps_FreeStore:
  "stash_names base \<subseteq> S \<Longrightarrow> FreeStore w base n = (r, w') \<Longrightarrow> frame S w w'"
  using frame_FreeStore [of base S w n] by simp

lemma keeps_Free: "stash_names (storeBase tp) \<subseteq> S \<Longrightarrow> keeps_places S tp w (Free_Execute tp w cmd)"
  by (auto simp: keeps_places_def Free_Execute_def Let_def split: if_splits prod.splits dest: keeps_FreeStore)

lemma keeps_ZeroAndErase:
  assumes t: "writes_to S (GetTargetFileDescriptor cmd) w"
  shows "keeps_places S tp w (ZeroAndErase_Execute tp w cmd)"
proof -
  have zero: "frame S w w'"
    if "frame S w w1" "WriteZeroToBlock bs m w1 (GetTargetFileDescriptor cmd) e = (r, w')" for w1 bs m e r w'
    using frame_trans [OF that(1) frame_zero_blocks [OF writes_frame [OF that(1) t]]] that(2)
    by (metis WriteZeroToBlock_def snd_conv)
  have stat: "frame S w w1" if "sys_fstat w fd = (x, w1)" for fd x w1
    using frame_fstat(1) [of S w fd] that by simp
  show ?thesis
    by (auto simp: keeps_places_def ZeroAndErase_Execute_def Let_def same_places_def
        split: if_splits prod.splits sum.splits intro: zero [OF frame_refl] zero [OF stat] stat)
qed

lemma keeps_New:
  assumes t: "writes_to S (GetTargetFileDescriptor cmd) w"
  shows "keeps_places S tp w (New_Execute L tp w cmd)"
proof -
  have new: "bw_fd (BlockWriter_new (GetTargetFileDescriptor cmd) off bs) = GetTargetFileDescriptor cmd" for off bs
    by (simp add: BlockWriter_new_def)
  have stream: "frame S w w1"
    if "stream_write (BlockWriter_new (GetTargetFileDescriptor cmd) off bs) w d = Some (b, w1)" for off bs d b w1
    using frame_stream_write [OF that] t new by simp
  have read: "frame S w w2" if "frame S w w1" "ReadDataFromBlock bs w1 fd buf = (n, buf', w2)" for w1 bs fd buf n buf' w2
    using that frame_trans frame_ReadDataFromBlock by blast
  have unpack: "frame S w w1"
    if "ExtractNewData (BlockWriter_new (GetTargetFileDescriptor cmd) off bs) w cs = Some (b, rest, w1)" for off bs cs b rest w1
    using frame_ExtractNewData [OF that] t new by simp
  have "frame S w w1" if "New_StreamExecute L tp w cmd = Some (r, w1)" for r w1
    using that
    by (auto simp: New_StreamExecute_def Let_def split: if_splits option.splits prod.splits bool.splits
        dest: stream read [OF stream])
  then show ?thesis
    by (auto simp: keeps_places_def New_Execute_def Let_def same_places_def
        split: if_splits option.splits prod.splits dest: unpack)
qed

lemma keeps_Stash:
  assumes S: "stash_names (storeBase tp) \<subseteq> S"
  shows "keeps_places S tp w (Stash_Execute L tp w cmd)"
proof -
  have load: "frame S w w1" if "LoadDataFromStore w (storeBase tp) n buf = (r, buf', w1)" for n buf r buf' w1
    using that by (rule frame_Load)
  have read: "frame S w w2" if "frame S w w1" "ReadDataFromBlock bs w1 fd buf = (n, buf', w2)" for w1 bs fd buf n buf' w2
    using that frame_trans frame_ReadDataFromBlock by blast
  have store: "frame S w w2" if "frame S w w1" "WriteDataToStore w1 (storeBase tp) n buf sz = Some (r, w2)" for w1 n buf sz r w2
    using frame_trans [OF that(1) frame_WriteDataToStore [OF that(2) S]] .
  show ?thesis
    by (auto simp: keeps_places_def Stash_Execute_def Let_def same_places_def
        split: if_splits option.splits prod.splits
        dest: load read [OF load] intro: store [OF read [OF load]])
qed

lemma frame_LoadTarget:
  assumes "LoadTarget L tp w cmd pos bs = Some (res, tp', w')" and S: "stash_names (storeBase tp) \<subseteq> S"
  shows "frame S w w' \<and> same_places tp tp'"
proof -
  have load: "frame S w w2 \<and> same_places tp tp2"
    if "frame S w w1" "LoadTargetBuffer L tp w1 b cmd buf n p h = Some (r, buf', tp2, w2)" for w1 b buf n p h r buf' tp2 w2
    using that frame_LoadTargetBuffer [OF that(2) S] frame_trans by blast
  show ?thesis
    using assms(1)
    by (auto simp: LoadTarget_def Let_def split: if_splits option.splits prod.splits
        dest: load [OF frame_refl] load [OF frame_ReadDataFromBlock] frame_ReadDataFromBlock)
qed

lemma frame_write_target:
  assumes "write_target L tp w cmd buf bs = Some (r, w')" and t: "writes_to S (GetTargetFileDescriptor cmd) w"
  shows "frame S w w'"
proof -
  have diff: "frame S w w1" if "BlockSet_WriteDiffToBlock L w bs cmd src patch img = Some (x, w1)" for src patch img x w1
    using frame_WriteDiffToBlock [OF that t] .
  have data: "frame S w w1" if "WriteDataToBlock bs w (GetTargetFileDescriptor cmd) b = Some (x, w1)" for b x w1
    using frame_write_blocks [OF that [unfolded WriteDataToBlock_def] t] .
  show ?thesis
    using assms(1)
    by (auto simp: write_target_def WriteFileToBlock_def Let_def split: if_splits option.splits dest: diff data)
qed

lemma keeps_DiffAndMove:
  assumes S: "stash_names (storeBase tp) \<subseteq> S" and t: "writes_to S (GetTargetFileDescriptor cmd) w"
  shows "keeps_places S tp w (DiffAndMove_Execute L tp w cmd)"
proof -
  define lt where "lt = LoadTarget L tp w cmd (if cmd_type cmd = MOVE \<or> cmd_type cmd = COPY then 1 else 3)
    (BlockSet_new (tp_offset tp))"
  note D = DiffAndMove_Execute_def [of L tp w cmd, unfolded Let_def, folded lt_def]
  show ?thesis
  proof (cases lt)
    case None
    then show ?thesis by (auto simp: keeps_places_def D split: if_splits)
  next
    case (Some x)
    obtain res tp1 w1 where x: "x = (res, tp1, w1)" using prod_cases3 by blast
    have f: "frame S w w1" "same_places tp tp1"
      using frame_LoadTarget [OF _ S, of L w cmd _ _ res tp1 w1] Some x unfolding lt_def by blast+
    have t1: "writes_to S (GetTargetFileDescriptor cmd) w1" by (rule writes_frame [OF f(1) t])
    have wr: "frame S w w2" if "write_target L tp1 w1 cmd b bs = Some (r, w2)" for b bs r w2
      using frame_trans [OF f(1) frame_write_target [OF that t1]] .
    have fin: "frame S w w3 \<and> same_places tp tp2"
      if "frame S w w2" "finish_write tp1 w2 bs = (tp2, w3)" for w2 bs tp2 w3
      using that f(2) S frame_trans [OF that(1) frame_FreeStore [of "storeBase tp1" S w2 "freeStash tp1"]]
      by (auto simp: finish_write_def Let_def same_places_def split: if_splits)
    show ?thesis
      using f
      by (auto simp: keeps_places_def D Some x split: if_splits option.splits sum.splits prod.splits
          dest: wr fin [OF wr])
  qed
qed

lemma keeps_execute:
  assumes "stash_names (storeBase tp) \<subseteq> S" "writes_to S (GetTargetFileDescriptor cmd) w"
  shows "keeps_places S tp w (execute_fn fn L tp w cmd)"
  using assms
  by (cases fn) (simp_all add: execute_fn_def keeps_Free keeps_ZeroAndErase keeps_New keeps_Stash
      keeps_DiffAndMove, simp add: keeps_places_def Abort_Execute_def)

section \<open>The transfer list\<close>

definition transfer_places :: "transfer_params \<Rightarrow> string \<Rightarrow> string set" where
  "transfer_places tp P = insert P (insert (canon (retryFile tp)) (stash_names (storeBase tp)))"

lemma frame_RegisterForRetry:
  assumes "RegisterForRetry tp w line = (b, w')" "canon (retryFile tp) \<in> S"
  shows "frame S w w'"
proof -
  obtain y w1 where cr: "sys_open_create w (retryFile tp) = (y, w1)" by fastforce
  have f1: "frame S w w1" using frame_create [OF assms(2), of w] cr by simp
  show ?thesis
  proof (cases y)
    case (Inl e)
    with assms(1) cr f1 show ?thesis by (simp add: RegisterForRetry_def)
  next
    case (Inr fd)
    have fd: "next_fd w \<le> fd" "writes_to S fd w1"
      using create_writes [of w "retryFile tp" fd w1] cr Inr assms(2) by auto
    obtain r w2 where wr: "WriteStringToFile w1 fd (bytes_of_string line) = (r, w2)" by fastforce
    have "frame S w1 w2"
      using frame_write_loop [OF fd(2), of False "bytes_of_string line"] wr by (simp add: WriteStringToFile_def)
    then have "frame S w (snd (sys_fsync w2 fd))" using f1 frame_fsync frame_trans by blast
    from frame_close [OF this fd(1)] show ?thesis
      using assms(1) cr Inr wr by (simp add: RegisterForRetry_def)
  qed
qed

lemma frame_ReloadForRetry: "ReloadForRetry tp w = (line, w') \<Longrightarrow> frame S w w'"
proof -
  assume run: "ReloadForRetry tp w = (line, w')"
  obtain y w1 where op: "sys_open w (retryFile tp) = (y, w1)" by fastforce
  have f1: "frame S w w1" using frame_open [of S w "retryFile tp"] op by simp
  have "frame S w (sys_close w2 fd)"
    if y: "y = Inr fd" and rd: "ReadFileToString (snd (sys_lseek w1 fd 0)) fd = (b, t, w2)" for fd b t w2
  proof (rule frame_close)
    obtain n v where fs: "fstat_size (snd (sys_lseek w1 fd 0)) fd = (n, v)" by fastforce
    have "frame S w v"
      using frame_trans [OF frame_trans [OF f1 frame_lseek] frame_fstat(2)] fs by (metis snd_conv)
    then show "frame S w w2"
      using rd fs frame_ReadFully [of S v fd n] frame_trans
      by (fastforce simp: ReadFileToString_def split: prod.splits)
    show "next_fd w \<le> fd" using open_fresh [of w "retryFile tp" fd w1] op y by simp
  qed
  then show ?thesis
    using run op f1 by (auto simp: ReloadForRetry_def split: sum.splits prod.splits)
qed

lemma keeps_CommandsExecute:
  assumes "CommandsExecute L tp w src tgt cmd = Some (ok, tp', w')"
    and S: "transfer_places tp P \<subseteq> S" and t: "writes_to S tgt w"
  shows "frame S w w' \<and> same_places tp tp'"
proof -
  define cmd1 where "cmd1 = SetTargetFileDescriptor tgt (SetSrcFileDescriptor src cmd)"
  note D = CommandsExecute_def [of L tp w src tgt cmd, unfolded Let_def, folded cmd1_def]
  have stash: "stash_names (storeBase tp) \<subseteq> S" and retry: "canon (retryFile tp) \<in> S"
    using S by (auto simp: transfer_places_def)
  have "GetTargetFileDescriptor cmd1 = tgt"
    by (simp add: cmd1_def GetTargetFileDescriptor_def SetTargetFileDescriptor_def)
  with t have t1: "writes_to S (GetTargetFileDescriptor cmd1) w" by simp
  have run: "frame S w w1 \<and> same_places tp tp1"
    if "execute_fn fn L tp w cmd1 = Some (res, tp1, w1)" for fn res tp1 w1
    using keeps_execute [OF stash t1, of fn L] that by (simp add: keeps_places_def)
  have check: "frame S w w2 \<and> same_places tp tp2"
    if "frame S w w1 \<and> same_places tp tp1" "CheckResult res line ty tp1 w1 = (b, tp2, w2)" for w1 tp1 res line ty b tp2 w2
  proof -
    have "frame S w (snd (RegisterForRetry tp1 w1 line))"
      using frame_trans [of S w w1] frame_RegisterForRetry [of tp1 w1 line _ _ S] that(1) retry
      by (cases "RegisterForRetry tp1 w1 line") (auto simp: same_places_def)
    with that show ?thesis
      by (auto simp: CheckResult_def post_def same_places_def split: command_result.splits if_splits)
  qed
  show ?thesis
    using assms(1) by (auto simp: D split: option.splits if_splits prod.splits dest: run check [OF run])
qed

lemma places_mono: "same_places tp tp' \<Longrightarrow> transfer_places tp' P = transfer_places tp P"
  by (simp add: same_places_def transfer_places_def)

lemma same_places_trans: "same_places a b \<Longrightarrow> same_places b c \<Longrightarrow> same_places a c"
  by (simp add: same_places_def)

lemma keeps_parse_line:
  assumes run: "parse_line L isStream src tgt line (ps, tp, w) = Some (ok, ps', tp', w')"
    and S: "transfer_places tp P \<subseteq> S" and t: "writes_to S tgt w"
  shows "frame S w w' \<and> same_places tp tp'"
proof -
  have exec: "frame S w w1 \<and> same_places tp tp1"
    if "CommandsExecute L tp w src tgt cmd = Some (b, tp1, w1)" for cmd b tp1 w1
    using keeps_CommandsExecute [OF that S t] .
  show ?thesis
    using run by (auto simp: parse_line_def Let_def split: prod.splits if_splits option.splits bool.splits dest: exec)
qed

lemma keeps_parse_loop:
  "parse_loop L isStream src tgt it (ps, tp, w) = Some (ok, ps', tp', w') \<Longrightarrow> transfer_places tp P \<subseteq> S \<Longrightarrow>
   writes_to S tgt w \<Longrightarrow> frame S w w' \<and> same_places tp tp'"
proof (induction L isStream src tgt it "(ps, tp, w)" arbitrary: ps tp w rule: parse_loop.induct)
  case (1 L isStream src tgt it ps tp w)
  note step = parse_loop.simps [of L isStream src tgt it "(ps, tp, w)"]
  show ?case
  proof (cases "length (items it) \<le> ct it")
    case True
    with "1.prems" show ?thesis by (auto simp: step)
  next
    case False
    obtain b ps1 tp1 w1 where l: "parse_line L isStream src tgt (Iter_Current it) (ps, tp, w) = Some (b, ps1, tp1, w1)"
      using "1.prems"(1) False by (auto simp: step split: option.splits)
    have f: "frame S w w1" "same_places tp tp1" using keeps_parse_line [OF l "1.prems"(2,3)] by simp_all
    show ?thesis
    proof (cases b)
      case False': False
      with "1.prems"(1) False l f show ?thesis by (simp add: step)
    next
      case True
      have rest: "parse_loop L isStream src tgt (Iter_Next it) (ps1, tp1, w1) = Some (ok, ps', tp', w')"
        using "1.prems"(1) False l True by (simp add: step)
      have "frame S w1 w' \<and> same_places tp1 tp'"
        using "1.prems"(2) l True False places_mono [OF f(2), of P] writes_frame [OF f(1) "1.prems"(3)]
        by (intro "1.hyps" [OF False _ _ _ rest]) auto
      with f frame_trans same_places_trans show ?thesis by blast
    qed
  qed
qed


definition demo_lib :: "unit lib" where
  "demo_lib = \<lparr>lib_sha256 = \<lambda>d. take 32 (d @ replicate 32 0), lib_bunzip = tl, lib_compress = stored_lib\<rparr>"

definition demo_params :: transfer_params where
  "demo_params = \<lparr>version = 0, blockCount = 0, maxEntries = 0, maxBlocks = 0, written = 0, hasEnv = True,
     isRetry = False, messages = [], readyToWrite = False, newData = [], storeCreated = 0,
     storeBase = ''/s'', freeStash = [], retryFile = ''/r'', patchDatFile = [], dataBuffer = [],
     dataBufferSize = 0, tp_offset = 0, canWrite = True, isUpdaterMode = True, updaterMode = True,
     inPlaceDiff = True\<rparr>"

definition demo_disk :: "fault list \<Rightarrow> world" where
  "demo_disk fs = \<lparr>objs = [(''/dev'', replicate 8192 0), (''/s/x'', [])], dirs = [[], ''/s''], is_dev = (\<lambda>p. p = ''/dev''),
     fds = (\<lambda>f. if f = 3 then Some (''/dev'', 0) else None), next_fd = 4, faults = fs, errno = EOK\<rparr>"

lemma demo_free: "SplitString ''free x'' '' '' = [''free'', ''x'']"
  using SplitString_join [of "[''free'', ''x'']" "'' ''" "CHR '' ''"] by simp

lemma demo_numbers: "String2Int_u64 ''1'' 10 = 1" "String2Int_u64 ''0'' 10 = 0"
proof -
  have "dec 1 = ''1''" "dec 0 = ''0''" by code_simp+
  with String2Int_dec [of 1] String2Int_dec [of 0]
  show "String2Int_u64 ''1'' 10 = 1" "String2Int_u64 ''0'' 10 = 0" by simp_all
qed

lemma demo_transfer:
  "\<exists>tp' w'. CommandsParser demo_lib 3 3 [''1'', ''1'', ''0'', ''0'', ''free x''] demo_params
     (demo_disk [Fault EIO]) = Some (False, tp', w')"
proof -
  have "\<exists>tp' w'. CommandsExecute demo_lib (demo_params\<lparr>version := 1, blockCount := 1\<rparr>) (demo_disk [Fault EIO]) 3 3
      \<lparr>cmd_type = FREE, cmdhead = ''free'', cmdLine = ''free x'', tokens = [''free'', ''x''], srcFd = None,
       targetFd = None, isStreamCmd = False\<rparr> = Some (False, tp', w')"
    by (simp add: CommandsExecute_def GetCommandFunction_def RegistBlockUpdateCommandFunction_def
        RegistCommandFunction_def SetTargetFileDescriptor_def SetSrcFileDescriptor_def execute_fn_def
        Free_Execute_def GetArgumentByPos_def FreeStore_def DeleteFile_def sys_unlink_def demo_disk_def
        next_fault_def pop_fault_def fail_with_def CommandResult_of_def CheckResult_def demo_params_def)
  then show ?thesis
    by (auto simp: CommandsParser_def CommandsParser_iter_def Iter_Check_def InitCommandParser_def demo_numbers
        parse_loop.simps Iter_Current_def parse_line_def Command_Init_def demo_free demo_params_def
        Command_new_def SetIsStreamCmd_def ParseCommandType_def)
qed


end
