(* ===== verification/Command_Laws.thy ===== *)
theory Command_Laws
  imports Frame
begin

text \<open>
  What the commands do when no call fails: the patched data reach the target, a target that is
  already right is left alone, and an interrupted command can be taken up again.
\<close>

section \<open>Calls without faults\<close>

named_theorems no_faults

lemma sys_faults [no_faults]:
  "faults w = [] \<Longrightarrow> faults (snd (sys_read w fd n)) = []" "faults w = [] \<Longrightarrow> faults (snd (sys_write w fd d)) = []"
  "faults w = [] \<Longrightarrow> faults (snd (sys_lseek w fd off)) = []" "faults w = [] \<Longrightarrow> faults (snd (sys_fsync w fd)) = []"
  "faults w = [] \<Longrightarrow> faults (snd (sys_stat w p)) = []" "faults w = [] \<Longrightarrow> faults (snd (sys_unlink w p)) = []"
  "faults w = [] \<Longrightarrow> faults (snd (sys_open w p)) = []"
  by (simp_all add: sys_read_faults sys_write_faults)
    (simp_all add: sys_lseek_def sys_fsync_def sys_stat_def sys_unlink_def sys_open_def fresh_fd_def
      next_fault_def Let_def world_simps split: option.splits)

lemma ReadFully_faults [no_faults]: "faults w = [] \<Longrightarrow> faults (snd (snd (ReadFully w fd n))) = []"
proof (induction w fd n rule: ReadFully.induct)
  case (1 w fd n)
  then show ?case
    using sys_faults(1) [OF "1.prems", of fd n]
    by (subst ReadFully.simps) (auto split: prod.splits sum.splits)
qed

lemma write_loop_faults [no_faults]: "faults w = [] \<Longrightarrow> faults (snd (write_loop r w fd d)) = []"
proof (induction r w fd d rule: write_loop.induct)
  case (1 r w fd d)
  then show ?case
    using sys_faults(2) [OF "1.prems", of fd d]
    by (subst write_loop.simps) (auto split: prod.splits sum.splits)
qed

lemma read_blocks_faults [no_faults]: "faults w = [] \<Longrightarrow> faults (snd (snd (read_blocks off ps w fd pos b))) = []"
proof (induction off ps w fd pos b rule: read_blocks.induct)
  case (2 off p ps w fd pos b)
  obtain r w1 where l: "sys_lseek w fd (seek_offset off p) = (r, w1)" by fastforce
  obtain ok xs w2 where rd: "ReadFully w1 fd (min (length b - pos) (pair_bytes p)) = (ok, xs, w2)"
    using prod_cases3 by blast
  have "faults w1 = []" using sys_faults(3) [OF "2.prems", of fd "seek_offset off p"] l by simp
  with 2 l rd ReadFully_faults [OF this, of fd "min (length b - pos) (pair_bytes p)"] show ?case
    by (auto simp: Let_def)
qed simp

lemma write_blocks_faults:
  "write_blocks off ps w fd pos b = Some (n, w') \<Longrightarrow> faults w = [] \<Longrightarrow> faults w' = []"
proof (induction off ps w fd pos b rule: write_blocks.induct)
  case (1 off w fd pos b)
  then show ?case using sys_faults(4) [of w fd] by (auto split: prod.splits)
next
  case (2 off p ps w fd pos b)
  obtain r w1 where l: "sys_lseek w fd (seek_offset off p) = (r, w1)" by fastforce
  obtain ok w2 where wr: "WriteFully w1 fd (slice pos (pair_bytes p) b) = (ok, w2)" by fastforce
  have f: "faults w1 = []" using sys_faults(3) [OF "2.prems"(2), of fd "seek_offset off p"] l by simp
  have "faults w2 = []"
    using write_loop_faults [OF f, of True fd "slice pos (pair_bytes p) b"] wr by (simp add: WriteFully_def)
  with 2 l wr f show ?case by (auto split: if_splits)
qed

section \<open>Reading and writing whole sets\<close>

text \<open>A set of blocks that lies inside an object, and one without overlaps.\<close>

definition readable :: "block_set \<Rightarrow> bytes \<Rightarrow> bool" where
  "readable bs c \<longleftrightarrow> wf_blocks bs \<and> sized bs \<and> seekable (offset bs) \<and> blocks bs \<noteq> [] \<and>
     in_bounds (byte_ranges bs) (length c) \<and> total (byte_ranges bs) < 2 ^ 62"

definition writable :: "block_set \<Rightarrow> bytes \<Rightarrow> bool" where
  "writable bs c \<longleftrightarrow> readable bs c \<and> disjoint_ranges (byte_ranges bs)"

lemma readable_size:
  assumes "readable bs c"
  shows "unat (TotalBlockSize bs * 4096) = total (byte_ranges bs)" "0 < total (byte_ranges bs)"
proof -
  show "unat (TotalBlockSize bs * 4096) = total (byte_ranges bs)"
    using assms by (intro unat_total_bytes) (auto simp: readable_def)
  obtain p ps where p: "blocks bs = p # ps" "wf_pair (offset bs) p"
    using assms by (cases "blocks bs") (auto simp: readable_def wf_blocks_def)
  have "0 < snd (pair_range (offset bs) p)"
    using p(2) by (auto simp: pair_range_def wf_pair_def word_less_nat_alt)
  with p(1) show "0 < total (byte_ranges bs)"
    by (cases "pair_range (offset bs) p") (simp add: byte_ranges_def)
qed

lemma read_whole:
  assumes "faults w = []" and "at w fd P q c" and "readable bs c" and "length buf = total (byte_ranges bs)"
  shows "\<exists>w' q'. ReadDataFromBlock bs w fd buf = (length buf, gather (byte_ranges bs) c, w') \<and>
    core w' = core (set_fd fd P q' w) \<and> faults w' = []"
proof -
  obtain k b w' where rd: "ReadDataFromBlock bs w fd buf = (k, b, w')" using prod_cases3 by blast
  have r: "wf_blocks bs" "seekable (offset bs)" "in_bounds (byte_ranges bs) (length c)"
    using assms(3) by (simp_all add: readable_def)
  have k: "k = length buf"
    using read_blocks_ok [of w "offset bs" "blocks bs" fd P q c 0 buf] rd assms(1,2,4) r
    by (simp add: ReadDataFromBlock_def wf_blocks_def byte_ranges_def)
  have "k \<noteq> 0" using k assms(4) readable_size(2) [OF assms(3)] by simp
  then have "b = gather (byte_ranges bs) c" "\<exists>q'. core w' = core (set_fd fd P q' w)"
    using read_blocks_spec [of "offset bs" "blocks bs" w fd 0 buf k b w' P q c] rd assms(2,4) r
    by (simp_all add: ReadDataFromBlock_def wf_blocks_def byte_ranges_def blit_def length_gather)
  moreover have "faults w' = []"
    using read_blocks_faults [OF assms(1), of "offset bs" "blocks bs" fd 0 buf] rd
    by (simp add: ReadDataFromBlock_def)
  ultimately show ?thesis using rd k by blast
qed

lemma write_whole:
  assumes "faults w = []" and "at w fd P q c" and "readable bs c" and "length buf = total (byte_ranges bs)"
  shows "\<exists>w' q'. WriteDataToBlock bs w fd buf = Some (length buf, w') \<and>
    core w' = core (set_obj P (scatter (byte_ranges bs) buf c) (set_fd fd P q' w)) \<and> faults w' = []"
proof -
  have r: "wf_blocks bs" "seekable (offset bs)" "in_bounds (byte_ranges bs) (length c)"
    using assms(3) by (simp_all add: readable_def)
  obtain w' where wr: "WriteDataToBlock bs w fd buf = Some (length buf, w')"
    using block_io_completes [OF assms(1) r(1,2) assms(2) r(3)] assms(4) by metis
  have "length buf \<noteq> 0" using assms(4) readable_size(2) [OF assms(3)] by simp
  then have "\<exists>q'. core w' = core (set_obj P (scatter (byte_ranges bs) buf c) (set_fd fd P q' w))"
    using write_blocks_spec [of "offset bs" "blocks bs" w fd 0 buf "length buf" w' P q c] wr assms(2) r
    by (simp add: WriteDataToBlock_def wf_blocks_def byte_ranges_def)
  then show ?thesis
    using wr write_blocks_faults [of "offset bs" "blocks bs" w fd 0 buf "length buf" w'] assms(1)
    by (auto simp: WriteDataToBlock_def)
qed

section \<open>The block writer as a patch target\<close>

lemma gather_scatter_prefix:
  "in_bounds rs (length c) \<Longrightarrow> disjoint_ranges rs \<Longrightarrow> length data \<le> total rs \<Longrightarrow>
   take (length data) (gather rs (scatter rs data c)) = data"
proof (induction rs data c rule: scatter.induct)
  case (2 p n rs data c)
  let ?c = "blit p (take n data) c"
  have lenb: "length ?c = length c" using 2 by (intro length_blit) auto
  have s: "slice p n (scatter rs (drop n data) ?c) = slice p n ?c"
    using 2 lenb by (intro slice_scatter) auto
  show ?case
  proof (cases "n \<le> length data")
    case True
    then have "slice p n ?c = take n data"
      using 2 slice_blit_same [of p "take n data" c] by simp
    then have "take (length data) (gather ((p, n) # rs) (scatter ((p, n) # rs) data c))
        = take (length data) (take n data @ gather rs (scatter rs (drop n data) ?c))" using s by simp
    also have "\<dots> = data"
      using 2 lenb True by simp
    finally show ?thesis .
  next
    case False
    have "take (length data) (slice p n ?c) = slice p (length data) ?c"
      using False by (simp add: slice_def min_absorb1)
    moreover have "slice p (length data) ?c = data"
      using 2 False slice_blit_same [of p data c] by simp
    moreover have "length (slice p n ?c) = n" using 2(2) lenb by (auto simp: length_slice)
    ultimately show ?thesis using s False by simp
  qed
qed simp

text \<open>
  The data a writer has taken and the room left, for a writer through \<open>fd\<close> into the ranges \<open>rs\<close> of
  object \<open>P\<close> that held \<open>c\<close>.
\<close>

definition bw_good :: "int \<Rightarrow> ranges \<Rightarrow> string \<Rightarrow> bytes \<Rightarrow> bytes \<Rightarrow> bw_state \<Rightarrow> bool" where
  "bw_good fd rs P c d s \<longleftrightarrow> disjoint_ranges rs \<and> (\<exists>wr w. s = Some (wr, w) \<and> faults w = [] \<and>
     bw_fd wr = fd \<and> bw_ranges wr = rs \<and> bw_inv wr w P c d)"

definition bw_taken :: "int \<Rightarrow> ranges \<Rightarrow> string \<Rightarrow> bytes \<Rightarrow> bw_state \<Rightarrow> bytes" where
  "bw_taken fd rs P c s = (if \<exists>d. bw_good fd rs P c d s then THE d. bw_good fd rs P c d s else [])"

definition bw_room :: "int \<Rightarrow> ranges \<Rightarrow> string \<Rightarrow> bytes \<Rightarrow> bw_state \<Rightarrow> nat" where
  "bw_room fd rs P c s =
     (if \<exists>d. bw_good fd rs P c d s then total rs - length (bw_taken fd rs P c s) else 0)"

lemma bw_inv_fits: "bw_inv wr w P c d \<Longrightarrow> length d \<le> total (bw_ranges wr)"
  using total_take_le [of "blockIndex wr" "bw_ranges wr"] by (auto simp: bw_inv_def Let_def)

lemma bw_good_unique:
  assumes "bw_good fd rs P c d s" "bw_good fd rs P c d' s"
  shows "d' = d"
proof -
  obtain wr w where s: "s = Some (wr, w)" "disjoint_ranges rs" "bw_inv wr w P c d" "bw_inv wr w P c d'"
    "bw_ranges wr = rs"
    using assms by (auto simp: bw_good_def)
  have b: "in_bounds rs (length c)" "length d = length d'" "length d \<le> total rs"
    using s(3,4,5) bw_inv_fits [OF s(3)] by (auto simp: bw_inv_def Let_def)
  have "scatter rs d c = scatter rs d' c"
    using s(3,4,5) by (auto simp: bw_inv_def Let_def at_def)
  with gather_scatter_prefix [OF b(1) s(2), of d] gather_scatter_prefix [OF b(1) s(2), of d'] b
  show ?thesis by metis
qed

lemma bw_taken_good: "bw_good fd rs P c d s \<Longrightarrow> bw_taken fd rs P c s = d"
  using bw_good_unique by (fastforce simp: bw_taken_def)

interpretation block_target: accepting_writer bw_put "bw_taken fd rs P c" "bw_room fd rs P c" for fd rs P c
proof (unfold_locales, goal_cases)
  case (1 d s start)
  obtain e where e: "bw_good fd rs P c e s" using 1 by (auto simp: bw_room_def split: if_splits)
  note taken = bw_taken_good [OF e]
  obtain wr w where s: "s = Some (wr, w)"
    and inv: "faults w = []" "disjoint_ranges rs" "bw_inv wr w P c e" "bw_fd wr = fd" "bw_ranges wr = rs"
    using e by (auto simp: bw_good_def)
  have fits: "length e + length d \<le> total (bw_ranges wr)"
    using 1(2) e taken bw_inv_fits [OF inv(3)] inv(5) by (auto simp: bw_room_def split: if_splits)
  have "\<not> IsWriteDone wr"
  proof
    assume "IsWriteDone wr"
    then have "length e = total (bw_ranges wr)"
      using inv(3) by (auto simp: bw_inv_def Let_def IsWriteDone_def CountOfRanges_def bw_ranges_def)
    with fits 1(1) show False by (cases d) auto
  qed
  moreover obtain wr1 w1 where ws: "write_stream wr w d = Some (True, wr1, w1)" "faults w1 = []"
    using write_stream_ok [OF inv(1,3) fits] by blast
  ultimately have put: "bw_put start d s = (0, Some (wr1, w1))"
    by (simp add: bw_put_def s BlockWriter_Write_def)
  have run: "bw_run P c e d True wr w wr1 w1" using write_stream_inv [OF ws(1) inv(3)] .
  have good: "bw_good fd rs P c (e @ d) (Some (wr1, w1))"
  proof -
    have st: "same_target wr wr1" and i1: "bw_inv wr1 w1 P c (e @ d)" using run by (simp_all add: bw_run_def)
    have "bw_fd wr1 = fd" "bw_ranges wr1 = rs" using st same_target_ranges [OF st] inv(4,5) by (simp_all add: same_target_def)
    with i1 inv(2) ws(2) show ?thesis by (simp add: bw_good_def)
  qed
  have "bw_room fd rs P c (Some (wr1, w1)) = bw_room fd rs P c s - length d"
    using good e taken bw_taken_good [OF good] by (auto simp: bw_room_def)
  with put taken bw_taken_good [OF good] show ?case by simp
qed

section \<open>Loading\<close>

text \<open>From \<open>w\<close> to \<open>w'\<close> only the positions of descriptors may have changed, and no call failed.\<close>

definition moved :: "world \<Rightarrow> world \<Rightarrow> bool" where
  "moved w w' \<longleftrightarrow> faults w' = [] \<and> obj w' = obj w \<and> is_dev w' = is_dev w \<and> dirs w' = dirs w \<and> next_fd w' = next_fd w \<and>
     (\<forall>f. map_option fst (fds w' f) = map_option fst (fds w f))"

lemma moved_trans: "moved w w' \<Longrightarrow> moved w' w'' \<Longrightarrow> moved w w''"
  by (simp add: moved_def)

lemma moved_core: "core w' = core w \<Longrightarrow> faults w' = [] \<Longrightarrow> moved w w'"
  using core_eqD [of w' w] by (simp add: moved_def)

lemma moved_seek: "core w' = core (set_fd fd P q w) \<Longrightarrow> at w fd P q0 c \<Longrightarrow> faults w' = [] \<Longrightarrow> moved w w'"
  using core_eqD [of w' "set_fd fd P q w"] by (auto simp: moved_def world_simps at_def)

lemma moved_at: "moved w w' \<Longrightarrow> at w fd P q c \<Longrightarrow> \<exists>q'. at w' fd P q' c"
  by (auto simp: moved_def at_def dest!: spec [of _ fd])

lemma moved_faults: "moved w w' \<Longrightarrow> faults w' = []"
  by (simp add: moved_def)

abbreviation digest_hex :: "'z lib \<Rightarrow> bytes \<Rightarrow> string" where
  "digest_hex L d \<equiv> ConvertSha256Hex (lib_sha256 L d)"

lemma verify_whole:
  assumes "unat (n * 4096) = length d"
  shows "VerifySha256 (lib_sha256 L) d n h = Some (if digest_hex L d = h then 0 else -1, digest_hex L d)"
  using assms by (simp add: VerifySha256_def Let_def)

text \<open>Reading the blocks of a set through a descriptor.\<close>

lemma read_moved:
  assumes "faults w = []" and "at w fd P q c" and "readable bs c" and "n = TotalBlockSize bs"
  shows "\<exists>w'. ReadDataFromBlock bs w fd (replicate (unat (n * 4096)) 0) =
      (total (byte_ranges bs), gather (byte_ranges bs) c, w') \<and> moved w w'"
  using read_whole [OF assms(1-3), of "replicate (unat (n * 4096)) 0"] readable_size [OF assms(3)] assms(2,4)
    moved_seek by fastforce

lemma gather_size: "readable bs c \<Longrightarrow> unat (TotalBlockSize bs * 4096) = length (gather (byte_ranges bs) c)"
  using readable_size(1) [of bs c] by (simp add: readable_def length_gather)

text \<open>The source is read and is what the command expects.\<close>

lemma LoadTargetBuffer_ok:
  assumes w: "faults w = []" and src: "at w (GetSrcFileDescriptor cmd) P q c"
    and sb: "sb = parsed (GetArgumentByPos cmd pos) (BlockSet_new 0)" "readable sb c" "n = TotalBlockSize sb"
    and args: "GetArgumentByPos cmd pos \<noteq> ''-''" "GetArgumentByPos cmd (pos + 1) = []"
    and kind: "\<not> isStreamCmd cmd" "\<not> IsTwoBlocksOverlap sb bs"
    and hash: "digest_hex L (gather (byte_ranges sb) c) = h"
  shows "\<exists>w'. LoadTargetBuffer L tp w bs cmd (replicate (unat (n * 4096)) 0) n pos h =
      Some (0, gather (byte_ranges sb) c, tp, w') \<and> moved w w'"
proof -
  let ?old = "gather (byte_ranges sb) c"
  obtain w1 where rd: "ReadDataFromBlock sb w (GetSrcFileDescriptor cmd) (replicate (unat (n * 4096)) 0) =
      (total (byte_ranges sb), ?old, w1)" "moved w w1"
    using read_moved [OF w src sb(2,3)] by blast
  have load: "LoadSourceBuffer tp w bs cmd pos (replicate (unat (n * 4096)) 0) = Some (1, pos + 2, ?old, False, w1)"
    using rd(1) args kind readable_size(2) [OF sb(2)] by (simp add: LoadSourceBuffer_def Let_def flip: sb(1))
  obtain res w2 where st: "sys_stat w1 (storeBase tp @ ''/'' @ h) = (res, w2)" by fastforce
  have "moved w w2"
    using moved_trans [OF rd(2) moved_core [OF sys_stat_core [OF st]]] sys_faults(5) [OF moved_faults [OF rd(2)]] st
    by (metis snd_conv)
  moreover have "VerifySha256 (lib_sha256 L) ?old n h = Some (0, digest_hex L ?old)"
    using verify_whole [of n ?old L h] gather_size [OF sb(2)] sb(3) hash by simp
  ultimately show ?thesis using load st kind(1) by (simp add: LoadTargetBuffer_def)
qed

section \<open>The bsdiff command\<close>

text \<open>Streaming a patch into the blocks of a set.\<close>

lemma WriteDiff_ok:
  assumes w: "faults w = []" and tgt: "at w (GetTargetFileDescriptor cmd) P q c" and bs: "writable bs c"
    and codec: "codec_ok compress (lib_bunzip L)" "sa_ok sa old" "length old < 2 ^ 62" "length patch < 2 ^ 62"
    and patch: "MakePatch compress sa new old = Some patch" "length new = total (byte_ranges bs)"
    and hash: "digest_hex L new = GetArgumentByPos cmd 4"
  shows "\<exists>w'. BlockSet_WriteDiffToBlock L w bs cmd old patch False = Some (0, w') \<and>
    obj w' P = Some (scatter (byte_ranges bs) new c) \<and> faults w' = []"
proof -
  let ?fd = "GetTargetFileDescriptor cmd" and ?s = "Some (BlockWriter_new (GetTargetFileDescriptor cmd) (offset bs) bs, w)"
  have r: "wf_blocks bs" "in_bounds (byte_ranges bs) (length c)" "disjoint_ranges (byte_ranges bs)"
    "total (byte_ranges bs) < 2 ^ 62" "0 < total (byte_ranges bs)"
    using bs readable_size(2) [of bs c] by (simp_all add: writable_def readable_def)
  have rs: "bw_ranges (BlockWriter_new ?fd (offset bs) bs) = byte_ranges bs"
    by (simp add: bw_ranges_def BlockWriter_new_def byte_ranges_def)
  let ?rs = "byte_ranges bs"
  have fd: "bw_fd (BlockWriter_new ?fd (offset bs) bs) = ?fd" by (simp add: BlockWriter_new_def)
  have good: "bw_good ?fd ?rs P c [] ?s"
    using w r tgt rs fd by (auto simp: bw_good_def wf_blocks_def byte_ranges_def intro!: bw_inv_new)
  have new: "length new < 2 ^ 62" using patch(2) r(4) by simp
  obtain cs ds es where f: "patch = patch_data (patch_file compress (length new) cs ds es)"
      "\<lparr>patch_data = patch, patch_start = 0\<rparr> = patch_file compress (length new) cs ds es"
      "fits (length new) 0 cs ds es" "replay old 0 cs ds es = new"
    using MakePatch_file [OF codec(2) new codec(3) patch(1)] by (elim exE conjE)
  have small: "length (patch_data (patch_file compress (length new) cs ds es)) < 2 ^ 62"
    using codec(4) f(1) by (simp only:)
  have start: "bw_taken ?fd ?rs P c ?s = []" "length new \<le> bw_room ?fd ?rs P c ?s"
    using good bw_taken_good [OF good] patch(2) by (auto simp: bw_room_def)
  obtain s' where s': "ApplyBlockPatch_writer (lib_bunzip L) (digest_hex L) bw_put
      \<lparr>patch_data = patch, patch_start = 0\<rparr> old (GetArgumentByPos cmd 4) ?s = Some (True, s')"
      "bw_taken ?fd ?rs P c s' = new"
    using hashed_applies [OF block_target.accepting_writer_axioms codec(1) f(3) new small start,
        of "digest_hex L" old "GetArgumentByPos cmd 4"] f(2,4) hash
    by auto
  have "new \<noteq> []" using patch(2) r(5) by (cases new) auto
  then obtain e where "bw_good ?fd ?rs P c e s'" using s'(2) by (auto simp: bw_taken_def split: if_splits)
  then have "bw_good ?fd ?rs P c new s'" using bw_taken_good s'(2) by blast
  then obtain wr w1 where w1: "s' = Some (wr, w1)" "faults w1 = []" "bw_ranges wr = ?rs" "bw_fd wr = ?fd"
    "bw_inv wr w1 P c new"
    by (auto simp: bw_good_def)
  obtain q1 where at1: "at w1 ?fd P q1 (scatter ?rs new c)"
    using w1(3-5) by (auto simp: bw_inv_def Let_def)
  then have "sys_fsync w1 ?fd = (True, w1)" by (intro sys_fsync_ok w1) (simp add: at_def)
  then have "BlockSet_WriteDiffToBlock L w bs cmd old patch False = Some (0, w1)"
    using s'(1) w1(1) by (simp add: BlockSet_WriteDiffToBlock_def Let_def)
  with at1 w1(2) show ?thesis by (auto simp: at_def)
qed


lemma moved_same: "moved w w' \<Longrightarrow> obj w' = obj w \<and> next_fd w' = next_fd w"
  by (simp add: moved_def)

text \<open>
  C5. A bsdiff command, end to end: the source blocks hold the old data, the package holds the
  patch \<open>MakePatch\<close> made from them, the target does not have the new data yet. When no call fails,
  the command succeeds, the target blocks hold the new data afterwards, the rest of the
  partition and every other object is as before, and the progress counts the blocks.
\<close>

theorem bsdiff_command:
  assumes "faults w = []" and "cmd_type cmd = BSDIFF" "\<not> isStreamCmd cmd" "canWrite tp" "isUpdaterMode tp" "freeStash tp = []"
    and "at w (GetTargetFileDescriptor cmd) P q c" "GetTargetFileDescriptor cmd < next_fd w"
    and "tb = parsed (GetArgumentByPos cmd 5) (BlockSet_new (tp_offset tp))" "writable tb c"
    and "at w (GetSrcFileDescriptor cmd) P' q' c'"
    and "sb = parsed (GetArgumentByPos cmd 7) (BlockSet_new 0)" "readable sb c'"
    and "String2Int_u64 (GetArgumentByPos cmd 6) 10 = TotalBlockSize sb"
    and "GetArgumentByPos cmd 7 \<noteq> ''-''" "GetArgumentByPos cmd 8 = []" "\<not> IsTwoBlocksOverlap sb tb"
    and "old = gather (byte_ranges sb) c'" "digest_hex L old = GetArgumentByPos cmd 3"
    and "digest_hex L new = GetArgumentByPos cmd 4" "digest_hex L (gather (byte_ranges tb) c) \<noteq> GetArgumentByPos cmd 4"
    and "codec_ok compress (lib_bunzip L)" "sa_ok sa old" "MakePatch compress sa new old = Some patch"
    and "length new = total (byte_ranges tb)" "length patch < 2 ^ 62"
    and "pos = unat (String2Int_u64 (GetArgumentByPos cmd 1) 10)"
    and "unat (String2Int_u64 (GetArgumentByPos cmd 2) 10) = length patch"
    and "pos + length patch \<le> length (dataBuffer tp)" "slice pos (length patch) (dataBuffer tp) = patch"
  shows "\<exists>w'. DiffAndMove_Execute L tp w cmd =
      Some (SUCCESS, tp\<lparr>written := written tp + TotalBlockSize tb\<rparr>, w') \<and>
    obj w' P = Some (scatter (byte_ranges tb) new c) \<and> (\<forall>p. p \<noteq> P \<longrightarrow> obj w' p = obj w p)"
proof -
  let ?tfd = "GetTargetFileDescriptor cmd" and ?cur = "gather (byte_ranges tb) c"
  have tbr: "readable tb c" using assms(10) by (simp add: writable_def)
  obtain w1 where rd: "ReadDataFromBlock tb w ?tfd (replicate (unat (TotalBlockSize tb * 4096)) 0) =
      (total (byte_ranges tb), ?cur, w1)" "moved w w1"
    using read_moved [OF assms(1,7) tbr refl] by blast
  have verify: "VerifySha256 (lib_sha256 L) ?cur (TotalBlockSize tb) (GetArgumentByPos cmd 4) =
      Some (-1, digest_hex L ?cur)"
    using verify_whole [OF gather_size [OF tbr], of L "GetArgumentByPos cmd 4"] assms(21) by simp
  obtain q1 where src1: "at w1 (GetSrcFileDescriptor cmd) P' q1 c'" using moved_at [OF rd(2) assms(11)] by blast
  obtain w2 where ld: "LoadTargetBuffer L tp w1 tb cmd (replicate (unat (TotalBlockSize sb * 4096)) 0)
      (TotalBlockSize sb) 7 (GetArgumentByPos cmd 3) = Some (0, old, tp, w2)" "moved w1 w2"
    using LoadTargetBuffer_ok [OF moved_faults [OF rd(2)] src1 assms(12,13) refl assms(15), where bs = tb and L = L
        and h = "GetArgumentByPos cmd 3" and tp = tp] assms(3,16-19) by (auto simp: numeral_eq_Suc)
  have mv: "moved w w2" by (rule moved_trans [OF rd(2) ld(2)])
  have lt: "LoadTarget L tp w cmd 3 (BlockSet_new (tp_offset tp)) = Some (Inr (old, tb), tp, w2)"
    using rd(1) verify ld(1) readable_size(2) [OF tbr]
    by (simp add: LoadTarget_def Let_def assms(2,14) flip: assms(9))
  obtain q2 where tgt2: "at w2 ?tfd P q2 c" using moved_at [OF mv assms(7)] by blast
  have old: "length old < 2 ^ 62"
    using assms(13,18) by (simp add: readable_def length_gather)
  obtain w3 where wd: "BlockSet_WriteDiffToBlock L w2 tb cmd old patch False = Some (0, w3)"
      "obj w3 P = Some (scatter (byte_ranges tb) new c)"
    using WriteDiff_ok [OF moved_faults [OF mv] tgt2 assms(10,22,23) old assms(26,24,25,20)] by blast
  have wt: "write_target L tp w2 cmd old tb = Some (0, w3)"
    using wd(1) assms(2,3,5,27-30) by (simp add: write_target_def Let_def)
  have "frame {P} w2 w3"
    using assms(7,8) tgt2 moved_same [OF mv]
    by (intro frame_WriteDiffToBlock [OF wd(1)]) (auto simp: writes_to_def at_def)
  then have "\<forall>p. p \<noteq> P \<longrightarrow> obj w3 p = obj w p" using moved_same [OF mv] by (simp add: frame_def)
  moreover have "DiffAndMove_Execute L tp w cmd = Some (SUCCESS, tp\<lparr>written := written tp + TotalBlockSize tb\<rparr>, w3)"
    using lt wt assms(2,4,6)
    by (simp add: DiffAndMove_Execute_def Let_def SkipInPlaceMove_def finish_write_def)
  ultimately show ?thesis using wd(2) by blast
qed

text \<open>The disk of the examples: block 0 is the source and block 1 the target.\<close>

lemma demo_sets:
  fixes a b :: u64
  assumes "b = a + 1" "a = 0 \<or> a = 1"
  shows "blocks (parsed (block_str [(a, b)]) (BlockSet_new 0)) = [(a, b)]"
    "offset (parsed (block_str [(a, b)]) (BlockSet_new 0)) = 0"
    "byte_ranges (parsed (block_str [(a, b)]) (BlockSet_new 0)) = [(unat a * 4096, 4096)]"
    "TotalBlockSize (parsed (block_str [(a, b)]) (BlockSet_new 0)) = 1"
    "readable (parsed (block_str [(a, b)]) (BlockSet_new 0)) (replicate 8192 0)"
proof -
  let ?s = "parsed (block_str [(a, b)]) (BlockSet_new 0)"
  have p: "?s = \<lparr>blocks = [(a, b)], blockSize = b - a, offset = 0\<rparr>"
    using ParserAndInsert_block_str [of "[(a, b)]" "BlockSet_new 0"]
    by (simp add: parsed_def BlockSet_new_def block_sum_def)
  show 1: "blocks ?s = [(a, b)]" "offset ?s = 0" by (simp_all add: p)
  show r: "byte_ranges ?s = [(unat a * 4096, 4096)]"
    unfolding byte_ranges_def p using assms by (auto simp: pair_range_def)
  show "TotalBlockSize ?s = 1" unfolding TotalBlockSize_def p using assms by simp
  show "readable ?s (replicate 8192 0)"
    unfolding readable_def r unfolding p using assms
    by (auto simp: wf_blocks_def wf_pair_def sized_def seekable_def)
qed

lemma demo_at: "at (demo_disk fs) 3 ''/dev'' 0 (replicate 8192 0)"
  by (simp add: at_def demo_disk_def obj_def)

lemma demo_digest: "digest_hex demo_lib (replicate 4096 1) \<noteq> digest_hex demo_lib (replicate 4096 0)"
proof
  assume "digest_hex demo_lib (replicate 4096 1) = digest_hex demo_lib (replicate 4096 0)"
  from ConvertSha256Hex_inj [OF this] have "replicate 32 (1 :: u8) = replicate 32 0"
    by (simp add: demo_lib_def)
  then show False by simp
qed

theorem bsdiff_command_witness:
  "\<exists>cmd tp tp' w'. cmd_type cmd = BSDIFF \<and>
     DiffAndMove_Execute demo_lib tp (demo_disk []) cmd = Some (SUCCESS, tp', w') \<and>
     obj w' ''/dev'' = Some (replicate 4096 0 @ replicate 4096 1)"
proof -
  let ?old = "replicate 4096 (0 :: u8)" and ?new = "replicate 4096 (1 :: u8)" and ?sa = "replicate 4097 (0 :: int)"
  let ?sb = "parsed (block_str [(0, 1)]) (BlockSet_new 0)" and ?tb = "parsed (block_str [(1, 2)]) (BlockSet_new 0)"
  have sa: "sa_ok ?sa ?old" by (simp add: sa_ok_def list_all_length)
  obtain patch where patch: "MakePatch (Cons 0) ?sa ?new ?old = Some patch"
    using MakePatch_describes [OF sa, of ?new "Cons 0"] by auto
  have small: "length patch < 2 ^ 62"
    using MakePatch_size [OF sa patch, of 1] by simp
  define cmd where "cmd = \<lparr>cmd_type = BSDIFF, cmdhead = [], cmdLine = [], tokens = [''bsdiff'', dec 0, dec (length patch),
    digest_hex demo_lib ?old, digest_hex demo_lib ?new, block_str [(1, 2)], dec 1, block_str [(0, 1)]],
    srcFd = Some 3, targetFd = Some 3, isStreamCmd = False\<rparr>"
  define tp where "tp = demo_params\<lparr>dataBuffer := patch\<rparr>"
  note sb = demo_sets [of 1 0, simplified] and tb = demo_sets [of 2 1, simplified]
  have w: "writable ?tb (replicate 8192 0)" using tb by (simp add: writable_def)
  have gathers: "gather (byte_ranges ?sb) (replicate 8192 0) = ?old" "gather (byte_ranges ?tb) (replicate 8192 0) = ?old"
    using sb(3) tb(3) by (simp_all add: slice_def)
  have args: "GetArgumentByPos cmd 1 = dec 0" "GetArgumentByPos cmd 2 = dec (length patch)"
    "GetArgumentByPos cmd 3 = digest_hex demo_lib ?old" "GetArgumentByPos cmd 4 = digest_hex demo_lib ?new"
    "GetArgumentByPos cmd 5 = block_str [(1, 2)]" "GetArgumentByPos cmd 6 = dec 1"
    "GetArgumentByPos cmd 7 = block_str [(0, 1)]" "GetArgumentByPos cmd 8 = []"
    "GetTargetFileDescriptor cmd = 3" "GetSrcFileDescriptor cmd = 3"
    by (simp_all add: cmd_def GetArgumentByPos_def GetTargetFileDescriptor_def GetSrcFileDescriptor_def)
  have num: "unat (String2Int_u64 (dec 0) 10) = 0" "unat (String2Int_u64 (dec (length patch)) 10) = length patch"
    using small by (simp_all add: unat_String2Int_dec)
  have scat: "scatter (byte_ranges ?tb) ?new (replicate 8192 0) = ?old @ ?new"
    using tb(3) by (simp add: blit_def)
  have "\<exists>w'. DiffAndMove_Execute demo_lib tp (demo_disk []) cmd =
      Some (SUCCESS, tp\<lparr>written := written tp + TotalBlockSize ?tb\<rparr>, w') \<and>
      obj w' ''/dev'' = Some (scatter (byte_ranges ?tb) ?new (replicate 8192 0)) \<and>
      (\<forall>p. p \<noteq> ''/dev'' \<longrightarrow> obj w' p = obj (demo_disk []) p)"
  proof (rule bsdiff_command [where sb = ?sb and P' = "''/dev''" and q = 0 and q' = 0 and c' = "replicate 8192 0"
        and old = ?old and compress = "Cons 0" and sa = ?sa and patch = patch and pos = 0])
    show "codec_ok (Cons 0) (lib_bunzip demo_lib)" by (simp add: codec_ok_def demo_lib_def)
    show "\<not> IsTwoBlocksOverlap ?sb ?tb" using sb tb by (simp add: IsTwoBlocksOverlap_def)
    show "slice 0 (length patch) (dataBuffer tp) = patch" by (simp add: tp_def slice_def)
  qed (use sb tb w gathers args num sa patch small demo_at demo_digest in
      \<open>simp_all add: cmd_def tp_def demo_params_def demo_disk_def block_str_def String2Int_dec\<close>)
  then obtain w' where "DiffAndMove_Execute demo_lib tp (demo_disk []) cmd =
      Some (SUCCESS, tp\<lparr>written := written tp + TotalBlockSize ?tb\<rparr>, w')" "obj w' ''/dev'' = Some (?old @ ?new)"
    unfolding scat by blast
  moreover have "cmd_type cmd = BSDIFF" by (simp add: cmd_def)
  ultimately show ?thesis by blast
qed

section \<open>Moves and the stash\<close>

lemma Load_faults: "faults w = [] \<Longrightarrow> LoadDataFromStore w d n buf = (r, buf', w') \<Longrightarrow> faults w' = []"
proof -
  assume w: "faults w = []" and run: "LoadDataFromStore w d n buf = (r, buf', w')"
  define path where "path = (if n = [] then d else store_path d n)"
  obtain x w1 where st: "sys_stat w path = (x, w1)" by fastforce
  obtain y w2 where op: "sys_open w1 path = (y, w2)" by fastforce
  have f1: "faults w1 = []" using sys_faults(5) [OF w, of path] st by simp
  have f2: "faults w2 = []" using sys_faults(7) [OF f1, of path] op by simp
  have "faults w3 = []" if "ReadFully w2 fd k = (b, xs, w3)" for fd k b xs w3
    using ReadFully_faults [OF f2, of fd k] that by simp
  then show ?thesis
    using run st op f1 f2
    by (auto simp: LoadDataFromStore_def Let_def world_simps path_def [symmetric] split: sum.splits prod.splits if_splits)
qed

lemma readable_blocks: "readable bs c \<Longrightarrow> total (byte_ranges bs) mod 4096 = 0"
  using unat_block_sum [of "offset bs" "blocks bs"]
  by (auto simp: readable_def wf_blocks_def byte_ranges_def)
    (metis mod_mult_self2_is_0 power_strict_increasing_iff order_less_trans)

lemma LoadTarget_MOVE:
  assumes w: "faults w = []" and kind: "cmd_type cmd = MOVE"
    and tgt: "at w (GetTargetFileDescriptor cmd) P q c" "tb = parsed (GetArgumentByPos cmd 2) (BlockSet_new (tp_offset tp))"
      "readable tb c"
    and differs: "digest_hex L (gather (byte_ranges tb) c) \<noteq> GetArgumentByPos cmd 1"
    and n: "String2Int_u64 (GetArgumentByPos cmd 3) 10 = n"
  obtains w1 where "moved w w1"
    and "LoadTarget L tp w cmd 1 (BlockSet_new (tp_offset tp)) =
      (case LoadTargetBuffer L tp w1 tb cmd (replicate (unat (n * 4096)) 0) n 4 (GetArgumentByPos cmd 1) of
         None \<Rightarrow> None
       | Some (ret, buf, tp', w2) \<Rightarrow>
           if ret \<noteq> 0 then Some (Inl FAILED, tp', w2) else Some (Inr (buf, tb), tp', w2))"
proof -
  let ?cur = "gather (byte_ranges tb) c"
  obtain w1 where rd: "ReadDataFromBlock tb w (GetTargetFileDescriptor cmd) (replicate (unat (TotalBlockSize tb * 4096)) 0) =
      (total (byte_ranges tb), ?cur, w1)" "moved w w1"
    using read_moved [OF w tgt(1,3) refl] by blast
  have verify: "VerifySha256 (lib_sha256 L) ?cur (TotalBlockSize tb) (GetArgumentByPos cmd 1) = Some (-1, digest_hex L ?cur)"
    using verify_whole [OF gather_size [OF tgt(3)], of L "GetArgumentByPos cmd 1"] differs by simp
  show thesis
    by (rule that [OF rd(2)])
      (use rd(1) verify readable_size(2) [OF tgt(3)] kind n in
        \<open>simp add: LoadTarget_def Let_def flip: tgt(2) del: One_nat_def split: option.splits\<close>)
qed

text \<open>The source has been overwritten already, but its stash is there.\<close>

lemma LoadTargetBuffer_stash:
  assumes w: "faults w = []" and src: "at w (GetSrcFileDescriptor cmd) P q c"
    and sb: "sb = parsed (GetArgumentByPos cmd pos) (BlockSet_new 0)" "readable sb c" "n = TotalBlockSize sb"
    and args: "GetArgumentByPos cmd pos \<noteq> ''-''" "GetArgumentByPos cmd (pos + 1) = []"
    and kind: "\<not> isStreamCmd cmd" "canWrite tp"
    and hash: "digest_hex L (gather (byte_ranges sb) c) \<noteq> h"
    and stash: "good_dir (storeBase tp)" "good_name h" "store_path (storeBase tp) h \<notin> set (dirs w)"
      "obj w (store_path (storeBase tp) h) = Some old" "length old mod 4096 = 0"
  shows "\<exists>w1 w'. LoadTargetBuffer L tp w bs cmd (replicate (unat (n * 4096)) 0) n pos h = Some (0, old, tp, w') \<and>
    moved w w1 \<and> stable {} w1 w' \<and> faults w' = []"
proof -
  let ?src = "gather (byte_ranges sb) c"
  obtain w1 where rd: "ReadDataFromBlock sb w (GetSrcFileDescriptor cmd) (replicate (unat (n * 4096)) 0) =
      (total (byte_ranges sb), ?src, w1)" "moved w w1"
    using read_moved [OF w src sb(2,3)] by blast
  have load: "\<exists>ov. LoadSourceBuffer tp w bs cmd pos (replicate (unat (n * 4096)) 0) = Some (1, pos + 2, ?src, ov, w1)"
    using rd(1) args readable_size(2) [OF sb(2)] by (simp add: LoadSourceBuffer_def Let_def flip: sb(1))
  obtain res w2 where st: "sys_stat w1 (storeBase tp @ ''/'' @ h) = (res, w2)" by fastforce
  have mv: "moved w w2"
    using moved_trans [OF rd(2) moved_core [OF sys_stat_core [OF st]]] sys_faults(5) [OF moved_faults [OF rd(2)]] st
    by (metis snd_conv)
  have verify: "VerifySha256 (lib_sha256 L) ?src n h = Some (-1, digest_hex L ?src)"
    using verify_whole [of n ?src L h] gather_size [OF sb(2)] sb(3) hash by simp
  obtain r buf w3 where ld: "LoadDataFromStore w2 (storeBase tp) h ?src = (r, buf, w3)" using prod_cases3 by blast
  have same: "obj w2 = obj w" "dirs w2 = dirs w" "faults w2 = []" using mv by (simp_all add: moved_def)
  have r: "r = 0"
    using store_load_ok [OF same(3) stash(1,2), of old ?src] stash same ld by simp
  then have buf: "buf = old" "stable {} w2 w3"
    using store_load_spec [OF ld stash(1,2)] stash same by simp_all
  show ?thesis
    using load st verify ld r buf kind mv Load_faults [OF same(3) ld] by (auto simp: LoadTargetBuffer_def)
qed

text \<open>
  C6. Resuming an interrupted move: the target and the source both hold something else than the
  expected data, because the first attempt had begun to overwrite them, but the stash it made is
  there. When no call fails, running the move again writes the stash into the target and
  succeeds, whatever the source blocks hold. The contents of the stash are not checked.
\<close>

theorem move_resumes:
  assumes "faults w = []" and "cmd_type cmd = MOVE" "\<not> isStreamCmd cmd" "canWrite tp" "freeStash tp = []"
    and "GetArgumentByPos cmd 2 \<noteq> GetArgumentByPos cmd 4"
    and "at w (GetTargetFileDescriptor cmd) P q c" "GetTargetFileDescriptor cmd < next_fd w"
    and "tb = parsed (GetArgumentByPos cmd 2) (BlockSet_new (tp_offset tp))" "readable tb c"
    and "at w (GetSrcFileDescriptor cmd) P' q' c'"
    and "sb = parsed (GetArgumentByPos cmd 4) (BlockSet_new 0)" "readable sb c'"
    and "String2Int_u64 (GetArgumentByPos cmd 3) 10 = TotalBlockSize sb"
    and "GetArgumentByPos cmd 4 \<noteq> ''-''" "GetArgumentByPos cmd 5 = []"
    and "h = GetArgumentByPos cmd 1" "digest_hex L (gather (byte_ranges tb) c) \<noteq> h"
    and "digest_hex L (gather (byte_ranges sb) c') \<noteq> h"
    and "good_dir (storeBase tp)" "good_name h" "store_path (storeBase tp) h \<notin> set (dirs w)"
    and "obj w (store_path (storeBase tp) h) = Some old" "length old = total (byte_ranges tb)"
  shows "\<exists>w'. DiffAndMove_Execute L tp w cmd =
      Some (SUCCESS, tp\<lparr>written := written tp + TotalBlockSize tb\<rparr>, w') \<and>
    obj w' P = Some (scatter (byte_ranges tb) old c) \<and> (\<forall>p. p \<noteq> P \<longrightarrow> obj w' p = obj w p)"
proof -
  let ?tfd = "GetTargetFileDescriptor cmd"
  obtain w1 where w1: "moved w w1" "LoadTarget L tp w cmd 1 (BlockSet_new (tp_offset tp)) =
      (case LoadTargetBuffer L tp w1 tb cmd (replicate (unat (TotalBlockSize sb * 4096)) 0) (TotalBlockSize sb) 4 h of
         None \<Rightarrow> None
       | Some (ret, buf, tp', w2) \<Rightarrow>
           if ret \<noteq> 0 then Some (Inl FAILED, tp', w2) else Some (Inr (buf, tb), tp', w2))"
    unfolding assms(17) by (rule LoadTarget_MOVE [OF assms(1,2,7,9,10) assms(18) [unfolded assms(17)] assms(14)])
  obtain q1 where src1: "at w1 (GetSrcFileDescriptor cmd) P' q1 c'" using moved_at [OF w1(1) assms(11)] by blast
  have o1: "obj w1 = obj w" "dirs w1 = dirs w" "next_fd w1 = next_fd w" using w1(1) by (simp_all add: moved_def)
  have "length old mod 4096 = 0" using readable_blocks [OF assms(10)] assms(24) by simp
  then have stash: "GetArgumentByPos cmd (4 + 1) = []" "store_path (storeBase tp) h \<notin> set (dirs w1)"
    "obj w1 (store_path (storeBase tp) h) = Some old" "length old mod 4096 = 0"
    using assms(16,22,23) o1 by simp_all
  obtain v w2 where ld: "LoadTargetBuffer L tp w1 tb cmd (replicate (unat (TotalBlockSize sb * 4096)) 0)
      (TotalBlockSize sb) 4 h = Some (0, old, tp, w2)" "moved w1 v" "stable {} v w2" "faults w2 = []"
    using LoadTargetBuffer_stash [OF moved_faults [OF w1(1)] src1 assms(12,13) refl assms(15) stash(1) assms(3,4,19,20,21) stash(2-4), of tb]
    by blast
  have lt: "LoadTarget L tp w cmd 1 (BlockSet_new (tp_offset tp)) = Some (Inr (old, tb), tp, w2)"
    using w1(2) ld(1) by simp
  obtain q2 where "at v ?tfd P q2 c" using moved_at [OF moved_trans [OF w1(1) ld(2)] assms(7)] by blast
  then have at2: "at w2 ?tfd P q2 c"
    using stable_at [OF ld(3)] ld(2) o1(3) assms(8) by (simp add: moved_def)
  obtain w3 q3 where wr: "WriteDataToBlock tb w2 ?tfd old = Some (length old, w3)"
      "core w3 = core (set_obj P (scatter (byte_ranges tb) old c) (set_fd ?tfd P q3 w2))"
    using write_whole [OF ld(4) at2 assms(10,24)] by blast
  have o3: "obj w3 p = (if p = P then Some (scatter (byte_ranges tb) old c) else obj w p)" for p
    using core_eqD(1) [OF wr(2)] ld(2,3) o1(1) by (simp add: world_simps moved_def stable_def)
  have "old \<noteq> []" using readable_size(2) [OF assms(10)] assms(24) by auto
  then have "DiffAndMove_Execute L tp w cmd = Some (SUCCESS, tp\<lparr>written := written tp + TotalBlockSize tb\<rparr>, w3)"
    using lt wr(1) assms(2,4,5,6)
    by (simp add: DiffAndMove_Execute_def Let_def SkipInPlaceMove_def finish_write_def write_target_def)
  with o3 show ?thesis by auto
qed

definition demo_resume :: world where
  "demo_resume = (demo_disk [])\<lparr>objs := [(''/dev'', replicate 8192 0), (''/s/x'', replicate 4096 1)]\<rparr>"

theorem move_resumes_witness:
  "\<exists>cmd tp' w'. cmd_type cmd = MOVE \<and> DiffAndMove_Execute demo_lib demo_params demo_resume cmd = Some (SUCCESS, tp', w') \<and>
     obj w' ''/dev'' = Some (replicate 4096 0 @ replicate 4096 1)"
proof -
  let ?sb = "parsed (block_str [(0, 1)]) (BlockSet_new 0)" and ?tb = "parsed (block_str [(1, 2)]) (BlockSet_new 0)"
  define cmd where "cmd = \<lparr>cmd_type = MOVE, cmdhead = [], cmdLine = [], tokens = [''move'', ''x'',
    block_str [(1, 2)], dec 1, block_str [(0, 1)]], srcFd = Some 3, targetFd = Some 3, isStreamCmd = False\<rparr>"
  note sb = demo_sets [of 1 0, simplified] and tb = demo_sets [of 2 1, simplified]
  have at: "at demo_resume 3 ''/dev'' 0 (replicate 8192 0)"
    by (simp add: at_def demo_resume_def demo_disk_def obj_def)
  have args: "GetArgumentByPos cmd 1 = ''x''" "GetArgumentByPos cmd 2 = block_str [(1, 2)]"
    "GetArgumentByPos cmd 3 = dec 1" "GetArgumentByPos cmd 4 = block_str [(0, 1)]" "GetArgumentByPos cmd 5 = []"
    "GetTargetFileDescriptor cmd = 3" "GetSrcFileDescriptor cmd = 3"
    by (simp_all add: cmd_def GetArgumentByPos_def GetTargetFileDescriptor_def GetSrcFileDescriptor_def)
  have digest: "digest_hex demo_lib d \<noteq> ''x''" for d
  proof
    assume "digest_hex demo_lib d = ''x''"
    then have "2 * length (lib_sha256 demo_lib d) = 1"
      using length_ConvertSha256Hex [of "lib_sha256 demo_lib d"] by simp
    then show False by presburger
  qed
  have ne: "block_str [(1, 2)] \<noteq> block_str [(0, 1)]" using sb(1) tb(1) by (metis list.inject prod.inject zero_neq_one)
  have dash: "block_str [(0, 1)] \<noteq> ''-''" by (simp add: block_str_def)
  have scat: "scatter (byte_ranges ?tb) (replicate 4096 1) (replicate 8192 0) = replicate 4096 0 @ replicate 4096 (1 :: u8)"
    using tb(3) by (simp add: blit_def)
  have "\<exists>w'. DiffAndMove_Execute demo_lib demo_params demo_resume cmd =
      Some (SUCCESS, demo_params\<lparr>written := written demo_params + TotalBlockSize ?tb\<rparr>, w') \<and>
      obj w' ''/dev'' = Some (scatter (byte_ranges ?tb) (replicate 4096 1) (replicate 8192 0)) \<and>
      (\<forall>p. p \<noteq> ''/dev'' \<longrightarrow> obj w' p = obj demo_resume p)"
    by (rule move_resumes [where sb = ?sb and P' = "''/dev''" and q = 0 and q' = 0 and c' = "replicate 8192 0"
        and h = "''x''"])
      (use sb tb args digest at ne dash in \<open>simp_all add: cmd_def demo_params_def demo_resume_def demo_disk_def
        String2Int_dec good_dir_def good_name_def store_path_def obj_def\<close>)
  then obtain w' where "DiffAndMove_Execute demo_lib demo_params demo_resume cmd =
      Some (SUCCESS, demo_params\<lparr>written := written demo_params + TotalBlockSize ?tb\<rparr>, w')"
      "obj w' ''/dev'' = Some (replicate 4096 0 @ replicate 4096 1)"
    unfolding scat by blast
  moreover have "cmd_type cmd = MOVE" by (simp add: cmd_def)
  ultimately show ?thesis by blast
qed


text \<open>
  Running a command again after it finished, or after an earlier attempt got past it: when the
  target blocks already have the expected digest, a diff or move reports success, writes nothing
  and leaves the parameters alone; in particular it does not add its blocks to the count of
  written ones.
\<close>

theorem finished_command_skipped:
  assumes "faults w = []" and "cmd_type cmd \<in> {MOVE, BSDIFF, IMGDIFF}"
    and "at w (GetTargetFileDescriptor cmd) P q c"
    and "tb = parsed (GetArgumentByPos cmd (if cmd_type cmd = MOVE then 2 else 5)) (BlockSet_new (tp_offset tp))"
      "readable tb c"
    and "digest_hex L (gather (byte_ranges tb) c) = GetArgumentByPos cmd (if cmd_type cmd = MOVE then 1 else 4)"
  shows "\<exists>w'. DiffAndMove_Execute L tp w cmd = Some (SUCCESS, tp, w') \<and> obj w' = obj w"
proof -
  let ?cur = "gather (byte_ranges tb) c"
  obtain w1 where rd: "ReadDataFromBlock tb w (GetTargetFileDescriptor cmd) (replicate (unat (TotalBlockSize tb * 4096)) 0) =
      (total (byte_ranges tb), ?cur, w1)" "moved w w1"
    using read_moved [OF assms(1,3,5) refl] by blast
  have verify: "VerifySha256 (lib_sha256 L) ?cur (TotalBlockSize tb) (digest_hex L ?cur) = Some (0, digest_hex L ?cur)"
    using verify_whole [OF gather_size [OF assms(5)], of L "digest_hex L ?cur"] by simp
  have o: "obj w1 = obj w" using rd(2) by (simp add: moved_def)
  have "LoadTarget L tp w cmd (if cmd_type cmd = MOVE then 1 else 3) (BlockSet_new (tp_offset tp)) =
      Some (Inl SUCCESS, tp, w1)"
    using rd(1) verify readable_size(2) [OF assms(5)] assms(2) assms(4) [symmetric] assms(6) [symmetric]
    by (auto simp: LoadTarget_def Let_def simp del: One_nat_def split: if_splits)
  then show ?thesis
    using assms(2) o by (auto simp: DiffAndMove_Execute_def Let_def split: if_splits)
qed


theorem finished_command_skipped_witness:
  "\<exists>cmd w'. cmd_type cmd = MOVE \<and> GetArgumentByPos cmd 4 = block_str [(0, 1)] \<and>
     DiffAndMove_Execute demo_lib demo_params (demo_disk []) cmd = Some (SUCCESS, demo_params, w') \<and>
     obj w' = obj (demo_disk [])"
proof -
  let ?tb = "parsed (block_str [(1, 2)]) (BlockSet_new 0)"
  define cmd where "cmd = \<lparr>cmd_type = MOVE, cmdhead = [], cmdLine = [], tokens = [''move'',
    digest_hex demo_lib (replicate 4096 0), block_str [(1, 2)], dec 1, block_str [(0, 1)]],
    srcFd = Some 3, targetFd = Some 3, isStreamCmd = False\<rparr>"
  note tb = demo_sets [of 2 1, simplified]
  have args: "cmd_type cmd = MOVE" "GetArgumentByPos cmd 1 = digest_hex demo_lib (replicate 4096 0)"
    "GetArgumentByPos cmd 2 = block_str [(1, 2)]" "GetTargetFileDescriptor cmd = 3"
    "GetArgumentByPos cmd 4 = block_str [(0, 1)]"
    by (simp_all add: cmd_def GetArgumentByPos_def GetTargetFileDescriptor_def)
  have "gather (byte_ranges ?tb) (replicate 8192 0) = replicate 4096 (0 :: u8)" using tb(3) by (simp add: slice_def)
  then have "\<exists>w'. DiffAndMove_Execute demo_lib demo_params (demo_disk []) cmd = Some (SUCCESS, demo_params, w') \<and>
      obj w' = obj (demo_disk [])"
    by (intro finished_command_skipped [where tb = ?tb and P = "''/dev''" and q = 0 and c = "replicate 8192 0"])
      (use tb args demo_at [of "[]"] in \<open>simp_all add: demo_params_def, simp add: demo_disk_def\<close>)
  with args show ?thesis by blast
qed

end
