(* ===== verification/Transfer_Laws.thy ===== *)
theory Transfer_Laws
  imports Frame
begin

text \<open>
  The order in which a transfer list is executed (\<open>TransferManager::CommandsParser\<close> of
  \<open>src/services/applypatch/transfer_manager.cpp\<close>): the loop with the iterator is a fold over the
  lines that stops at the first failure, and a retried transfer skips exactly the lines up to the
  recorded one.
\<close>

type_synonym run_state = "parser_state \<times> transfer_params \<times> world"

fun run_lines ::
    "'z lib \<Rightarrow> bool \<Rightarrow> int \<Rightarrow> int \<Rightarrow> string list \<Rightarrow> run_state \<Rightarrow> (bool \<times> run_state) option" where
  "run_lines L s a b [] st = Some (True, st)"
| "run_lines L s a b (line # lines) st =
     (case parse_line L s a b line st of
        None \<Rightarrow> None
      | Some (False, st') \<Rightarrow> Some (False, st')
      | Some (True, st') \<Rightarrow> run_lines L s a b lines st')"

lemma parse_loop_run_lines: "parse_loop L s a b it st = run_lines L s a b (drop (ct it) (items it)) st"
proof (induction L s a b it st rule: parse_loop.induct)
  case (1 L s a b it st)
  show ?case
  proof (cases "length (items it) \<le> ct it")
    case True
    then show ?thesis by (simp add: parse_loop.simps)
  next
    case False
    then have d: "drop (ct it) (items it) = Iter_Current it # drop (ct (Iter_Next it)) (items (Iter_Next it))"
      by (simp add: Iter_Current_def Iter_Next_def Cons_nth_drop_Suc)
    show ?thesis
      unfolding d using False 1 by (subst parse_loop.simps) (auto split: option.splits bool.splits)
  qed
qed

lemma run_lines_append:
  "run_lines L s a b (xs @ ys) st =
     (case run_lines L s a b xs st of
        None \<Rightarrow> None
      | Some (False, st') \<Rightarrow> Some (False, st')
      | Some (True, st') \<Rightarrow> run_lines L s a b ys st')"
  by (induction xs arbitrary: st) (auto split: option.splits bool.splits)

definition is_new :: "bool \<Rightarrow> string \<Rightarrow> bool" where
  "is_new s line = (case Command_Init line (SetIsStreamCmd s Command_new) of (ok, cmd) \<Rightarrow> ok \<and> cmd_type cmd = NEW)"

lemma skip_line:
  assumes "retryCmd ps \<noteq> []" "isRetry tp" "line \<noteq> retryCmd ps" "\<not> is_new s line"
  shows "parse_line L s a b line (ps, tp, w) = Some (True, ps, tp, w)"
proof -
  obtain ok cmd where "Command_Init line (SetIsStreamCmd s Command_new) = (ok, cmd)" by fastforce
  then show ?thesis using assms by (simp add: parse_line_def is_new_def Let_def)
qed

lemma skip_lines:
  assumes "retryCmd ps \<noteq> []" "isRetry tp" "retryCmd ps \<notin> set lines" "\<forall>line \<in> set lines. \<not> is_new s line"
  shows "run_lines L s a b lines (ps, tp, w) = Some (True, ps, tp, w)"
  using assms by (induction lines) (auto simp: skip_line)

lemma recorded_line:
  assumes "retryCmd ps \<noteq> []" "isRetry tp" "hasEnv tp" "\<not> is_new s (retryCmd ps)"
    and "fst (Command_Init (retryCmd ps) (SetIsStreamCmd s Command_new))"
  shows "parse_line L s a b (retryCmd ps) (ps, tp, w) = Some (True, ps\<lparr>retryCmd := []\<rparr>, tp, w)"
proof -
  obtain ok cmd where "Command_Init (retryCmd ps) (SetIsStreamCmd s Command_new) = (ok, cmd)" by fastforce
  then show ?thesis using assms by (simp add: parse_line_def is_new_def Let_def)
qed



text \<open>
  A retry record that matches no line is not noticed: every line that is not a \<open>new\<close> command
  is passed over, nothing is written, and the transfer reports success.
\<close>

theorem unmatched_retry_skips_all:
  assumes "retryCmd ps \<noteq> []" "isRetry tp" "retryCmd ps \<notin> set lines" "\<forall>line \<in> set lines. \<not> is_new s line"
  shows "parse_loop L s a b \<lparr>items = lines, ct = 0\<rparr> (ps, tp, w) = Some (True, ps, tp, w)"
  using skip_lines [OF assms] by (simp add: parse_loop_run_lines)


text \<open>The examples retry the transfer of two erase commands, the first of which was recorded.\<close>

lemma demo_erase: "SplitString ''erase 1'' '' '' = [''erase'', ''1'']" "SplitString ''zero 1'' '' '' = [''zero'', ''1'']"
  using SplitString_join [of "[''erase'', ''1'']" "'' ''" "CHR '' ''"]
    SplitString_join [of "[''zero'', ''1'']" "'' ''" "CHR '' ''"] by simp_all

lemma demo_init:
  "fst (Command_Init ''erase 1'' (SetIsStreamCmd s Command_new))"
  "\<not> is_new s ''erase 1''" "\<not> is_new s ''zero 1''"
  by (simp_all add: Command_Init_def is_new_def demo_erase Command_new_def SetIsStreamCmd_def ParseCommandType_def)


theorem unmatched_retry_skips_all_witness:
  "parse_loop demo_lib False 3 3 \<lparr>items = [''zero 1'', ''erase 1''], ct = 0\<rparr>
     (\<lparr>retryCmd = ''move'', initBlock = 0, progress = []\<rparr>, demo_params\<lparr>isRetry := True\<rparr>, demo_disk []) =
   Some (True, \<lparr>retryCmd = ''move'', initBlock = 0, progress = []\<rparr>, demo_params\<lparr>isRetry := True\<rparr>, demo_disk [])"
  by (rule unmatched_retry_skips_all) (simp_all add: demo_init)

end
