(* ===== verification/Script_Value.thy ===== *)
theory Script_Value
  imports Text_Utils "HOL-Library.Signed_Division"
begin

text \<open>
  The values of the update script (\<open>src/services/script/script_interpreter/script_context.cpp\<close>
  and \<open>script_context.h\<close>): the class \<open>UScriptValue\<close> and its subclasses are a datatype, a
  \<open>UScriptValuePtr\<close> is an option (None is \<open>nullptr\<close>), and \<open>Computer\<close> of each subclass is a
  function with the macros of the source as helpers. An \<open>int32_t\<close> is an integer; an operation
  whose result leaves the 32-bit range is undefined in C++ and gives \<open>Crash\<close>, as do the
  dereference of a null pointer and the conversion of a float that no \<open>int32_t\<close> can hold.
  The arithmetic of \<open>float\<close> is a parameter, \<open>float_ops\<close>.
\<close>

section \<open>Results of a run\<close>

datatype 'a run = Done 'a | Crash | No_Fuel

fun seq :: "'a run \<Rightarrow> ('a \<Rightarrow> 'b run) \<Rightarrow> 'b run" where
  "seq (Done x) f = f x"
| "seq Crash f = Crash"
| "seq No_Fuel f = No_Fuel"

lemma seq_Done: "seq r f = Done y \<longleftrightarrow> (\<exists>x. r = Done x \<and> f x = Done y)"
  by (cases r) auto

lemma seq_finished: "seq r f \<noteq> No_Fuel \<longleftrightarrow> r \<noteq> No_Fuel \<and> (\<forall>x. r = Done x \<longrightarrow> f x \<noteq> No_Fuel)"
  by (cases r) auto

lemma seq_Done_right [simp]: "seq r Done = r"
  by (cases r) auto

lemma seq_assoc: "seq (seq r f) g = seq r (\<lambda>x. seq (f x) g)"
  by (cases r) auto

section \<open>Values\<close>

datatype 'f script_value =
    Integer_Value int
  | Float_Value 'f
  | String_Value string
  | Error_Value int
  | Return_Value "'f script_value list"
  | Base_Value

type_synonym 'f ptr = "'f script_value option"

datatype value_type =
    VALUE_TYPE_INTEGER | VALUE_TYPE_FLOAT | VALUE_TYPE_STRING | VALUE_TYPE_ERROR | VALUE_TYPE_LIST

text \<open>\<open>Base_Value\<close> is an object of the base class made with \<open>VALUE_TYPE_ERROR\<close>.\<close>

fun GetValueType :: "'f script_value \<Rightarrow> value_type" where
  "GetValueType (Integer_Value _) = VALUE_TYPE_INTEGER"
| "GetValueType (Float_Value _) = VALUE_TYPE_FLOAT"
| "GetValueType (String_Value _) = VALUE_TYPE_STRING"
| "GetValueType (Error_Value _) = VALUE_TYPE_ERROR"
| "GetValueType (Return_Value _) = VALUE_TYPE_LIST"
| "GetValueType Base_Value = VALUE_TYPE_ERROR"

abbreviation (input) is_error :: "'f script_value \<Rightarrow> bool" where
  "is_error v \<equiv> GetValueType v = VALUE_TYPE_ERROR"

abbreviation (input) USCRIPT_SUCCESS :: int where "USCRIPT_SUCCESS \<equiv> 0"
abbreviation (input) USCRIPT_INVALID_PARAM :: int where "USCRIPT_INVALID_PARAM \<equiv> 500"
abbreviation (input) USCRIPT_INVALID_PRIORITY :: int where "USCRIPT_INVALID_PRIORITY \<equiv> 502"
abbreviation (input) USCRIPT_INVALID_SCRIPT :: int where "USCRIPT_INVALID_SCRIPT \<equiv> 501"
abbreviation (input) USCRIPT_NOTEXIST_INSTRUCTION :: int where "USCRIPT_NOTEXIST_INSTRUCTION \<equiv> 503"
abbreviation (input) USCRIPT_ERROR_CREATE_OBJ :: int where "USCRIPT_ERROR_CREATE_OBJ \<equiv> 504"
abbreviation (input) USCRIPT_ERROR_REVERED :: int where "USCRIPT_ERROR_REVERED \<equiv> 505"
abbreviation (input) USCRIPT_ASSERT :: int where "USCRIPT_ASSERT \<equiv> 506"
abbreviation (input) USCRIPT_ABOART :: int where "USCRIPT_ABOART \<equiv> 507"
abbreviation (input) USCRIPT_ERROR_EXECUTE :: int where "USCRIPT_ERROR_EXECUTE \<equiv> 508"
abbreviation (input) USCRIPT_ERROR_INTERPRET :: int where "USCRIPT_ERROR_INTERPRET \<equiv> 509"
abbreviation (input) USCRIPT_UPDATER_MODE_VALUE :: int where "USCRIPT_UPDATER_MODE_VALUE \<equiv> 511"

text \<open>
  What the code uses of \<open>float\<close>. \<open>f_to_int\<close> is the conversion to \<open>int32_t\<close>, None when the
  truncated value is out of range; \<open>f_string\<close> is \<open>std::to_string\<close> and \<open>f_print\<close> the stream output.
\<close>

record 'f float_ops =
  f_of_int :: "int \<Rightarrow> 'f"
  f_add :: "'f \<Rightarrow> 'f \<Rightarrow> 'f"
  f_sub :: "'f \<Rightarrow> 'f \<Rightarrow> 'f"
  f_mul :: "'f \<Rightarrow> 'f \<Rightarrow> 'f"
  f_div :: "'f \<Rightarrow> 'f \<Rightarrow> 'f"
  f_less :: "'f \<Rightarrow> 'f \<Rightarrow> bool"
  f_le :: "'f \<Rightarrow> 'f \<Rightarrow> bool"
  f_eq :: "'f \<Rightarrow> 'f \<Rightarrow> bool"
  f_abs :: "'f \<Rightarrow> 'f"
  f_epsilon :: 'f
  f_to_int :: "'f \<Rightarrow> int option"
  f_string :: "'f \<Rightarrow> string"
  f_print :: "'f \<Rightarrow> string"

definition f_true :: "('f, 'm) float_ops_scheme \<Rightarrow> 'f \<Rightarrow> bool" where
  "f_true F x \<longleftrightarrow> \<not> f_eq F x (f_of_int F 0)"

definition of_truth :: "bool \<Rightarrow> int" where
  "of_truth b = (if b then 1 else 0)"

fun IsTrue :: "('f, 'm) float_ops_scheme \<Rightarrow> 'f script_value \<Rightarrow> bool" where
  "IsTrue F (Integer_Value n) = (n \<noteq> 0)"
| "IsTrue F (Float_Value x) = f_true F x"
| "IsTrue F (String_Value s) = (s \<noteq> [])"
| "IsTrue F (Error_Value c) = (c = USCRIPT_SUCCESS)"
| "IsTrue F (Return_Value _) = False"
| "IsTrue F Base_Value = False"

definition int_to_string :: "int \<Rightarrow> string" where
  "int_to_string n = (if n < 0 then CHR ''-'' # dec (nat (- n)) else dec (nat n))"

text \<open>The elements of a list never are of type \<open>VALUE_TYPE_RETURN\<close>: no object of that type is made.\<close>

fun ToString :: "('f, 'm) float_ops_scheme \<Rightarrow> 'f script_value \<Rightarrow> string"
  and list_ToString :: "('f, 'm) float_ops_scheme \<Rightarrow> nat \<Rightarrow> 'f script_value list \<Rightarrow> string" where
  "ToString F (Integer_Value n) = int_to_string n"
| "ToString F (Float_Value x) = f_string F x"
| "ToString F (String_Value s) = s"
| "ToString F (Error_Value c) = int_to_string c"
| "ToString F (Return_Value vs) = list_ToString F 0 vs"
| "ToString F Base_Value = ''null''"
| "list_ToString F i [] = []"
| "list_ToString F i (v # vs) = '' ['' @ dec i @ ''] = '' @ ToString F v @ list_ToString F (i + 1) vs"

fun type_name :: "value_type \<Rightarrow> string" where
  "type_name VALUE_TYPE_INTEGER = ''type: Integer ''"
| "type_name VALUE_TYPE_FLOAT = ''type: Float ''"
| "type_name VALUE_TYPE_STRING = ''type: String ''"
| "type_name VALUE_TYPE_ERROR = ''type: Error ''"
| "type_name VALUE_TYPE_LIST = ''type: List ''"

definition ScriptToString :: "('f, 'm) float_ops_scheme \<Rightarrow> 'f ptr \<Rightarrow> string" where
  "ScriptToString F value =
     (case value of None \<Rightarrow> ''null'' | Some v \<Rightarrow> type_name (GetValueType v) @ ToString F v)"

section \<open>Operators\<close>

datatype expression_action =
    ADD_OPERATOR | SUB_OPERATOR | MUL_OPERATOR | DIV_OPERATOR | GT_OPERATOR | GE_OPERATOR
  | LT_OPERATOR | LE_OPERATOR | EQ_OPERATOR | NE_OPERATOR | AND_OPERATOR | OR_OPERATOR

text \<open>The value of \<open>retValue\<close> before an operator sets it.\<close>

definition interpret_error :: "'f ptr run" where
  "interpret_error = Done (Some (Error_Value USCRIPT_ERROR_INTERPRET))"

definition int32 :: "int \<Rightarrow> bool" where
  "int32 n \<longleftrightarrow> - (2 ^ 31) \<le> n \<and> n < 2 ^ 31"

definition new_integer :: "int \<Rightarrow> 'f ptr run" where
  "new_integer n = (if int32 n then Done (Some (Integer_Value n)) else Crash)"

definition new_float :: "'f \<Rightarrow> 'f ptr run" where
  "new_float x = Done (Some (Float_Value x))"

definition integer_of_float :: "('f, 'm) float_ops_scheme \<Rightarrow> 'f \<Rightarrow> 'f ptr run" where
  "integer_of_float F x = (case f_to_int F x of None \<Rightarrow> Crash | Some n \<Rightarrow> Done (Some (Integer_Value n)))"

fun GetRightCompluteValue :: "'f script_value \<Rightarrow> 'f ptr" where
  "GetRightCompluteValue (Return_Value [v]) = Some v"
| "GetRightCompluteValue (Return_Value vs) = None"
| "GetRightCompluteValue v = Some v"

definition INTEGER_MATH_COMPUTER ::
    "('f, 'm) float_ops_scheme \<Rightarrow> (int \<Rightarrow> int \<Rightarrow> int) \<Rightarrow> ('f \<Rightarrow> 'f \<Rightarrow> 'f) \<Rightarrow> int \<Rightarrow> 'f script_value \<Rightarrow> 'f ptr run" where
  "INTEGER_MATH_COMPUTER F iop fop x r =
     (case r of
        Integer_Value y \<Rightarrow> new_integer (iop x y)
      | Float_Value y \<Rightarrow> new_float (fop (f_of_int F x) y)
      | _ \<Rightarrow> interpret_error)"

definition INTEGER_MATH_COMPUTER_DIV :: "('f, 'm) float_ops_scheme \<Rightarrow> int \<Rightarrow> 'f script_value \<Rightarrow> 'f ptr run" where
  "INTEGER_MATH_COMPUTER_DIV F x r =
     (case r of
        Integer_Value y \<Rightarrow> if y = 0 then interpret_error else new_integer (x sdiv y)
      | Float_Value y \<Rightarrow> if \<not> f_true F y then interpret_error else new_float (f_div F (f_of_int F x) y)
      | _ \<Rightarrow> interpret_error)"

definition INTEGER_LOGIC_COMPUTER ::
    "('f, 'm) float_ops_scheme \<Rightarrow> (int \<Rightarrow> int \<Rightarrow> bool) \<Rightarrow> ('f \<Rightarrow> 'f \<Rightarrow> bool) \<Rightarrow> int \<Rightarrow> 'f script_value \<Rightarrow> 'f ptr run" where
  "INTEGER_LOGIC_COMPUTER F iop fop x r =
     (case r of
        Integer_Value y \<Rightarrow> new_integer (of_truth (iop x y))
      | Float_Value y \<Rightarrow> new_integer (of_truth (fop (f_of_int F x) y))
      | _ \<Rightarrow> interpret_error)"

definition IntegerValue_Computer ::
    "('f, 'm) float_ops_scheme \<Rightarrow> expression_action \<Rightarrow> int \<Rightarrow> 'f script_value \<Rightarrow> 'f ptr run" where
  "IntegerValue_Computer F action x value =
     (case GetRightCompluteValue value of
        None \<Rightarrow> interpret_error
      | Some r \<Rightarrow>
          (case action of
             ADD_OPERATOR \<Rightarrow> INTEGER_MATH_COMPUTER F (+) (f_add F) x r
           | SUB_OPERATOR \<Rightarrow> INTEGER_MATH_COMPUTER F (-) (f_sub F) x r
           | MUL_OPERATOR \<Rightarrow> INTEGER_MATH_COMPUTER F (*) (f_mul F) x r
           | DIV_OPERATOR \<Rightarrow> INTEGER_MATH_COMPUTER_DIV F x r
           | GT_OPERATOR \<Rightarrow> INTEGER_LOGIC_COMPUTER F (>) (\<lambda>a b. f_less F b a) x r
           | GE_OPERATOR \<Rightarrow> INTEGER_LOGIC_COMPUTER F (\<ge>) (\<lambda>a b. f_le F b a) x r
           | LT_OPERATOR \<Rightarrow> INTEGER_LOGIC_COMPUTER F (<) (f_less F) x r
           | LE_OPERATOR \<Rightarrow> INTEGER_LOGIC_COMPUTER F (\<le>) (f_le F) x r
           | EQ_OPERATOR \<Rightarrow> INTEGER_LOGIC_COMPUTER F (=) (f_eq F) x r
           | NE_OPERATOR \<Rightarrow> INTEGER_LOGIC_COMPUTER F (\<noteq>) (\<lambda>a b. \<not> f_eq F a b) x r
           | AND_OPERATOR \<Rightarrow> INTEGER_LOGIC_COMPUTER F (\<lambda>a b. a \<noteq> 0 \<and> b \<noteq> 0) (\<lambda>a b. f_true F a \<and> f_true F b) x r
           | OR_OPERATOR \<Rightarrow> INTEGER_LOGIC_COMPUTER F (\<lambda>a b. a \<noteq> 0 \<or> b \<noteq> 0) (\<lambda>a b. f_true F a \<or> f_true F b) x r))"

text \<open>
  The macro \<open>FLOAT_MATH_COMPUTER\<close> uses \<open>FLOAT_FLOAT_LOGIC_COMPUTER\<close> for two floats, which makes an
  \<open>IntegerValue\<close> of the sum, difference or product; and \<open>FLOAT_LOGIC_COMPUTER\<close> makes a
  \<open>FloatValue\<close> of the truth value when the right operand is an integer.
\<close>

definition FLOAT_MATH_COMPUTER ::
    "('f, 'm) float_ops_scheme \<Rightarrow> ('f \<Rightarrow> 'f \<Rightarrow> 'f) \<Rightarrow> 'f \<Rightarrow> 'f script_value \<Rightarrow> 'f ptr run" where
  "FLOAT_MATH_COMPUTER F fop x r =
     (case r of
        Integer_Value y \<Rightarrow> new_float (fop x (f_of_int F y))
      | Float_Value y \<Rightarrow> integer_of_float F (fop x y)
      | _ \<Rightarrow> interpret_error)"

definition FLOAT_MATH_COMPUTER_DIV :: "('f, 'm) float_ops_scheme \<Rightarrow> 'f \<Rightarrow> 'f script_value \<Rightarrow> 'f ptr run" where
  "FLOAT_MATH_COMPUTER_DIV F x r =
     (case r of
        Integer_Value y \<Rightarrow> if y = 0 then interpret_error else new_float (f_div F x (f_of_int F y))
      | Float_Value y \<Rightarrow> if \<not> f_true F y then interpret_error else new_float (f_div F x y)
      | _ \<Rightarrow> interpret_error)"

definition FLOAT_LOGIC_COMPUTER ::
    "('f, 'm) float_ops_scheme \<Rightarrow> ('f \<Rightarrow> 'f \<Rightarrow> bool) \<Rightarrow> 'f \<Rightarrow> 'f script_value \<Rightarrow> 'f ptr run" where
  "FLOAT_LOGIC_COMPUTER F fop x r =
     (case r of
        Integer_Value y \<Rightarrow> new_float (f_of_int F (of_truth (fop x (f_of_int F y))))
      | Float_Value y \<Rightarrow> new_integer (of_truth (fop x y))
      | _ \<Rightarrow> interpret_error)"

definition ComputerEqual :: "('f, 'm) float_ops_scheme \<Rightarrow> 'f \<Rightarrow> 'f script_value \<Rightarrow> bool" where
  "ComputerEqual F x r =
     (case r of
        Integer_Value y \<Rightarrow> f_less F (f_abs F (f_sub F x (f_of_int F y))) (f_epsilon F)
      | Float_Value y \<Rightarrow> f_less F (f_abs F (f_sub F x y)) (f_epsilon F)
      | _ \<Rightarrow> False)"

definition FloatValue_Computer ::
    "('f, 'm) float_ops_scheme \<Rightarrow> expression_action \<Rightarrow> 'f \<Rightarrow> 'f script_value \<Rightarrow> 'f ptr run" where
  "FloatValue_Computer F action x value =
     (case GetRightCompluteValue value of
        None \<Rightarrow> interpret_error
      | Some r \<Rightarrow>
          (case action of
             ADD_OPERATOR \<Rightarrow> FLOAT_MATH_COMPUTER F (f_add F) x r
           | SUB_OPERATOR \<Rightarrow> FLOAT_MATH_COMPUTER F (f_sub F) x r
           | MUL_OPERATOR \<Rightarrow> FLOAT_MATH_COMPUTER F (f_mul F) x r
           | DIV_OPERATOR \<Rightarrow> FLOAT_MATH_COMPUTER_DIV F x r
           | GT_OPERATOR \<Rightarrow> FLOAT_LOGIC_COMPUTER F (\<lambda>a b. f_less F b a) x r
           | GE_OPERATOR \<Rightarrow> FLOAT_LOGIC_COMPUTER F (\<lambda>a b. f_le F b a) x r
           | LT_OPERATOR \<Rightarrow> FLOAT_LOGIC_COMPUTER F (f_less F) x r
           | LE_OPERATOR \<Rightarrow> FLOAT_LOGIC_COMPUTER F (f_le F) x r
           | EQ_OPERATOR \<Rightarrow> new_integer (of_truth (ComputerEqual F x r))
           | NE_OPERATOR \<Rightarrow> new_integer (of_truth (\<not> ComputerEqual F x r))
           | AND_OPERATOR \<Rightarrow> FLOAT_LOGIC_COMPUTER F (\<lambda>a b. f_true F a \<and> f_true F b) x r
           | OR_OPERATOR \<Rightarrow> FLOAT_LOGIC_COMPUTER F (\<lambda>a b. f_true F a \<or> f_true F b) x r))"

text \<open>\<open>std::string::compare\<close>: the sign of the first difference as unsigned bytes, then of the lengths.\<close>

fun ComputerLogic :: "string \<Rightarrow> string \<Rightarrow> int" where
  "ComputerLogic [] [] = 0"
| "ComputerLogic [] (b # bs) = -1"
| "ComputerLogic (a # as) [] = 1"
| "ComputerLogic (a # as) (b # bs) =
     (if (of_char a :: nat) < of_char b then -1 else if (of_char b :: nat) < of_char a then 1 else ComputerLogic as bs)"

definition ComputerReturn :: "expression_action \<Rightarrow> string \<Rightarrow> string \<Rightarrow> 'f ptr run" where
  "ComputerReturn action s t =
     (case action of
        GT_OPERATOR \<Rightarrow> new_integer (of_truth (0 < ComputerLogic s t))
      | GE_OPERATOR \<Rightarrow> new_integer (of_truth (0 \<le> ComputerLogic s t))
      | LT_OPERATOR \<Rightarrow> new_integer (of_truth (ComputerLogic s t < 0))
      | LE_OPERATOR \<Rightarrow> new_integer (of_truth (ComputerLogic s t \<le> 0))
      | EQ_OPERATOR \<Rightarrow> new_integer (of_truth (ComputerLogic s t = 0))
      | NE_OPERATOR \<Rightarrow> new_integer (of_truth (ComputerLogic s t \<noteq> 0))
      | _ \<Rightarrow> interpret_error)"

definition StringValue_Computer ::
    "('f, 'm) float_ops_scheme \<Rightarrow> expression_action \<Rightarrow> string \<Rightarrow> 'f script_value \<Rightarrow> 'f ptr run" where
  "StringValue_Computer F action s value =
     (case GetRightCompluteValue value of
        None \<Rightarrow> interpret_error
      | Some r \<Rightarrow>
          if action = ADD_OPERATOR then
            (case r of
               Integer_Value y \<Rightarrow> Done (Some (String_Value (s @ int_to_string y)))
             | Float_Value y \<Rightarrow> Done (Some (String_Value (s @ f_string F y)))
             | String_Value t \<Rightarrow> Done (Some (String_Value (s @ t)))
             | _ \<Rightarrow> interpret_error)
          else (case r of String_Value t \<Rightarrow> ComputerReturn action s t | _ \<Rightarrow> interpret_error))"

text \<open>
  The virtual \<open>Computer\<close>: an \<open>ErrorValue\<close> on the left returns a null pointer, a list takes part
  only when it has one element.
\<close>

fun Computer :: "('f, 'm) float_ops_scheme \<Rightarrow> expression_action \<Rightarrow> 'f script_value \<Rightarrow> 'f script_value \<Rightarrow> 'f ptr run" where
  "Computer F action (Integer_Value x) value = IntegerValue_Computer F action x value"
| "Computer F action (Float_Value x) value = FloatValue_Computer F action x value"
| "Computer F action (String_Value s) value = StringValue_Computer F action s value"
| "Computer F action (Error_Value c) value = Done None"
| "Computer F action (Return_Value [v]) value = Computer F action v value"
| "Computer F action (Return_Value vs) value = interpret_error"
| "Computer F action Base_Value value = interpret_error"

section \<open>Facts\<close>

lemma new_finished [simp]:
  "interpret_error \<noteq> No_Fuel" "new_integer n \<noteq> No_Fuel" "new_float x \<noteq> No_Fuel" "integer_of_float F x \<noteq> No_Fuel"
  by (simp_all add: interpret_error_def new_integer_def new_float_def integer_of_float_def split: option.split)

lemma macro_finished [simp]:
  "INTEGER_MATH_COMPUTER F iop fop n r \<noteq> No_Fuel" "INTEGER_MATH_COMPUTER_DIV F n r \<noteq> No_Fuel"
  "INTEGER_LOGIC_COMPUTER F ip fp n r \<noteq> No_Fuel" "FLOAT_MATH_COMPUTER F fop x r \<noteq> No_Fuel"
  "FLOAT_MATH_COMPUTER_DIV F x r \<noteq> No_Fuel" "FLOAT_LOGIC_COMPUTER F fp x r \<noteq> No_Fuel"
  by (simp_all add: INTEGER_MATH_COMPUTER_def INTEGER_MATH_COMPUTER_DIV_def INTEGER_LOGIC_COMPUTER_def
      FLOAT_MATH_COMPUTER_def FLOAT_MATH_COMPUTER_DIV_def FLOAT_LOGIC_COMPUTER_def split: script_value.split)

lemma class_finished [simp]:
  "IntegerValue_Computer F action n v \<noteq> No_Fuel" "FloatValue_Computer F action x v \<noteq> No_Fuel"
  "ComputerReturn action s t \<noteq> No_Fuel"
  by (simp_all add: IntegerValue_Computer_def FloatValue_Computer_def ComputerReturn_def
      split: option.split expression_action.split)

lemma string_finished [simp]: "StringValue_Computer F action s v \<noteq> No_Fuel"
  by (simp add: StringValue_Computer_def split: option.split script_value.split)

lemma Computer_finished [simp]: "Computer F action v r \<noteq> No_Fuel"
  by (induction F action v r rule: Computer.induct) simp_all

lemma of_char_inject: "(of_char a :: nat) = of_char b \<longleftrightarrow> a = b"
  by (metis char_of_char)

lemma ComputerLogic_eq: "ComputerLogic s t = 0 \<longleftrightarrow> s = t"
proof (induction s t rule: ComputerLogic.induct)
  case (4 a as b bs)
  then show ?case using of_char_inject [of a b] by (cases "(of_char a :: nat)" "of_char b :: nat" rule: linorder_cases) auto
qed auto

lemma ComputerLogic_swap: "ComputerLogic t s = - ComputerLogic s t"
  by (induction s t rule: ComputerLogic.induct) auto

end
