(* ===== verification/Script_Interp.thy ===== *)
theory Script_Interp
  imports Script_Value
begin

text \<open>
  The script interpreter (\<open>script_expression.cpp\<close>, \<open>script_statement.cpp\<close>,
  \<open>script_function.cpp\<close>, \<open>script_param.cpp\<close> and \<open>script_interpreter.cpp\<close> under
  \<open>src/services/script/script_interpreter\<close>). The classes of the syntax tree are datatypes, with an
  option where the parser builds a null pointer. A \<open>UScriptContextPtr\<close> is an index into the
  list of all contexts made so far, so that the stack and the local context of a statement
  alias the same object as in the code. The virtual \<open>Execute\<close> calls go
  through a record of the meanings one level down, so that a nested call or another iteration
  takes one unit of fuel; \<open>No_Fuel\<close> means the run has not ended within it.
\<close>

section \<open>Syntax\<close>

datatype 'f expression =
    Integer_Expression int
  | Float_Expression 'f
  | String_Expression string
  | Identifier_Expression string
  | Binary_Expression expression_action "'f expression option" "'f expression option"
  | Assign_Expression string "string list" "'f expression"
  | FunctionCall_Expression string "'f expression list option"

datatype control_type = STATEMENT_TYPE_BREAK | STATEMENT_TYPE_CONTINUE | STATEMENT_TYPE_RTN

datatype 'f statement =
    Statement_Ctrl control_type
  | Expression_Statement "'f expression"
  | If_Statement "'f expression" "'f statement list option" "'f statement list option" "'f statement option"
  | For_Statement "'f expression option" "'f expression option" "'f expression option" "'f statement list option"
  | While_Statement "'f expression option" "'f statement list option"
  | Return_Statement "'f expression list option"

record 'f script_function =
  functionName :: string
  fn_params :: "'f expression list option"
  fn_statements :: "'f statement list option"

section \<open>Contexts\<close>

record 'f script_context =
  is_top :: bool
  localVariables :: "string \<Rightarrow> 'f script_value option"

record ('f, 's) interp_state =
  contexts :: "'f script_context list"
  contextStack :: "nat list"
  script_env :: 's

text \<open>
  An instruction receives its input values and the environment; it returns its code, the values
  it pushed and the new environment. The table of instructions may change while a script runs.
\<close>

type_synonym ('f, 's) instruction = "'f script_value list \<Rightarrow> 's \<Rightarrow> (int \<times> 'f script_value list \<times> 's) run"

record ('f, 's) program =
  ops :: "'f float_ops"
  FindInstruction :: "'s \<Rightarrow> string \<Rightarrow> ('f, 's) instruction option"
  script_functions :: "'f script_function list"

definition AddFunction :: "'f script_function \<Rightarrow> 'f script_function list \<Rightarrow> 'f script_function list" where
  "AddFunction f fs = (if functionName f \<in> functionName ` set fs then fs else fs @ [f])"

definition FindFunction :: "'f script_function list \<Rightarrow> string \<Rightarrow> 'f script_function option" where
  "FindFunction fs name = find (\<lambda>f. functionName f = name) fs"

definition AddStatement :: "'f statement \<Rightarrow> 'f statement list option \<Rightarrow> 'f statement list option" where
  "AddStatement s stmts = (case stmts of None \<Rightarrow> Some [s] | Some ss \<Rightarrow> Some (ss @ [s]))"

definition new_context :: "bool \<Rightarrow> ('f, 's) interp_state \<Rightarrow> nat \<times> ('f, 's) interp_state" where
  "new_context is_top_level st =
     (length (contexts st), st\<lparr>contexts := contexts st @ [\<lparr>is_top = is_top_level, localVariables = Map.empty\<rparr>]\<rparr>)"

definition ContextPush :: "nat \<Rightarrow> ('f, 's) interp_state \<Rightarrow> ('f, 's) interp_state" where
  "ContextPush c st = st\<lparr>contextStack := c # contextStack st\<rparr>"

definition ContextPop :: "('f, 's) interp_state \<Rightarrow> ('f, 's) interp_state" where
  "ContextPop st = st\<lparr>contextStack := tl (contextStack st)\<rparr>"

definition Context_UpdateVariable :: "nat \<Rightarrow> string \<Rightarrow> 'f script_value \<Rightarrow> 'f script_context list \<Rightarrow> 'f script_context list" where
  "Context_UpdateVariable c i v cs = cs[c := (cs ! c)\<lparr>localVariables := (localVariables (cs ! c))(i \<mapsto> v)\<rparr>]"

text \<open>The loops over the context stack, innermost context first, up to a top context.\<close>

fun find_in_stack :: "'f script_context list \<Rightarrow> nat list \<Rightarrow> string \<Rightarrow> 'f ptr" where
  "find_in_stack cs [] i = None"
| "find_in_stack cs (c # stack) i =
     (case localVariables (cs ! c) i of
        Some v \<Rightarrow> Some v
      | None \<Rightarrow> if is_top (cs ! c) then None else find_in_stack cs stack i)"

fun update_in_stack ::
    "'f script_context list \<Rightarrow> nat list \<Rightarrow> string \<Rightarrow> 'f script_value \<Rightarrow> 'f script_context list" where
  "update_in_stack cs [] i v = cs"
| "update_in_stack cs (c # stack) i v =
     (let cs' = (if localVariables (cs ! c) i \<noteq> None then Context_UpdateVariable c i v cs else cs)
      in if is_top (cs ! c) then cs' else update_in_stack cs' stack i v)"

definition FindVariable :: "('f, 's) interp_state \<Rightarrow> string \<Rightarrow> 'f ptr" where
  "FindVariable st i = find_in_stack (contexts st) (contextStack st) i"

definition UpdateVariable :: "string \<Rightarrow> 'f script_value \<Rightarrow> ('f, 's) interp_state \<Rightarrow> ('f, 's) interp_state" where
  "UpdateVariable i v st = st\<lparr>contexts := update_in_stack (contexts st) (contextStack st) i v\<rparr>"

text \<open>
  \<open>UScriptInterpretContext::UpdateVariables\<close>: the elements of a list go to the names from the
  start index on, and the index moves with them; the loop ends when the names do.
\<close>

fun update_list ::
    "nat \<Rightarrow> 'f script_value list \<Rightarrow> string list \<Rightarrow> nat \<Rightarrow> 'f script_context list \<Rightarrow> nat \<times> 'f script_context list" where
  "update_list c [] ids i cs = (i, cs)"
| "update_list c (v # vs) ids i cs =
     (if length ids \<le> i then (i, cs) else update_list c vs ids (i + 1) (Context_UpdateVariable c (ids ! i) v cs))"

definition UpdateVariables ::
    "nat \<Rightarrow> 'f script_value \<Rightarrow> string list \<Rightarrow> nat \<Rightarrow> 'f script_context list \<Rightarrow> nat \<times> 'f script_context list" where
  "UpdateVariables c value ids i cs =
     (case value of Return_Value vs \<Rightarrow> update_list c vs ids i cs | v \<Rightarrow> update_list c [v] ids i cs)"

section \<open>Results of statements\<close>

datatype result_type =
    STATEMENT_RESULT_TYPE_NORMAL | STATEMENT_RESULT_TYPE_BREAK | STATEMENT_RESULT_TYPE_CONTINUE
  | STATEMENT_RESULT_TYPE_RTN | STATEMENT_RESULT_TYPE_ERROR

record 'f statement_result =
  result_type :: result_type
  result_value :: "'f ptr"
  result_error :: int

definition new_result :: "result_type \<Rightarrow> 'f statement_result" where
  "new_result t = \<lparr>result_type = t, result_value = None, result_error = 0\<rparr>"

definition error_result :: "int \<Rightarrow> 'f statement_result \<Rightarrow> 'f statement_result" where
  "error_result e r = r\<lparr>result_type := STATEMENT_RESULT_TYPE_ERROR, result_error := e\<rparr>"

text \<open>
  The object of the base class that stands for an undefined variable has the type tag of an
  error but is no \<open>ErrorValue\<close>: the cast reads a member it does not have.
\<close>

definition UpdateStatementResult :: "'f statement_result \<Rightarrow> 'f ptr \<Rightarrow> 'f statement_result run" where
  "UpdateStatementResult r value =
     (case value of
        None \<Rightarrow> Done (error_result USCRIPT_INVALID_PARAM r)
      | Some (Error_Value c) \<Rightarrow> Done (error_result c r)
      | Some Base_Value \<Rightarrow> Crash
      | Some v \<Rightarrow> Done (r\<lparr>result_type := STATEMENT_RESULT_TYPE_NORMAL, result_value := Some v\<rparr>))"

definition Ctrl_Execute :: "control_type \<Rightarrow> 'f statement_result" where
  "Ctrl_Execute t =
     new_result (case t of
         STATEMENT_TYPE_BREAK \<Rightarrow> STATEMENT_RESULT_TYPE_BREAK
       | STATEMENT_TYPE_RTN \<Rightarrow> STATEMENT_RESULT_TYPE_RTN
       | STATEMENT_TYPE_CONTINUE \<Rightarrow> STATEMENT_RESULT_TYPE_CONTINUE)"

section \<open>Execution\<close>

fun values_of :: "'f script_value \<Rightarrow> 'f script_value list" where
  "values_of (Return_Value vs) = vs"
| "values_of v = [v]"

text \<open>\<open>ScriptFunction::GetParamNames\<close> stops at the first parameter that is not an identifier.\<close>

fun GetParamNames :: "'f expression list \<Rightarrow> string list" where
  "GetParamNames (Identifier_Expression i # es) = i # GetParamNames es"
| "GetParamNames es = []"

definition instruction_result :: "int \<times> 'f script_value list \<times> 's \<Rightarrow> ('f, 's) interp_state \<Rightarrow> 'f ptr \<times> ('f, 's) interp_state" where
  "instruction_result r st =
     (case r of (ret, out, env') \<Rightarrow>
        (Some (if ret \<noteq> USCRIPT_SUCCESS \<and> ret \<noteq> USCRIPT_UPDATER_MODE_VALUE then Error_Value ret else Return_Value out),
         st\<lparr>script_env := env'\<rparr>))"

definition assign_value ::
    "nat \<Rightarrow> string \<Rightarrow> string list \<Rightarrow> 'f script_value \<Rightarrow> ('f, 's) interp_state \<Rightarrow> ('f, 's) interp_state" where
  "assign_value local i ids v st =
     (if FindVariable st i \<noteq> None then UpdateVariable i v st
      else st\<lparr>contexts := snd (UpdateVariables local v (i # ids) 0 (contexts st))\<rparr>)"

text \<open>The meanings of an expression, a statement and a loop within some fuel.\<close>

record ('f, 's) meaning =
  run_expr :: "nat \<Rightarrow> 'f expression \<Rightarrow> ('f, 's) interp_state \<Rightarrow> ('f ptr \<times> ('f, 's) interp_state) run"
  run_stmt :: "nat \<Rightarrow> 'f statement \<Rightarrow> ('f, 's) interp_state \<Rightarrow> ('f statement_result \<times> ('f, 's) interp_state) run"
  run_loop :: "nat \<Rightarrow> 'f expression option \<Rightarrow> 'f expression option \<Rightarrow> 'f statement list option \<Rightarrow>
     ('f, 's) interp_state \<Rightarrow> ('f statement_result \<times> ('f, 's) interp_state) run"

definition run_option ::
    "('f, 's) meaning \<Rightarrow> nat \<Rightarrow> 'f expression option \<Rightarrow> ('f, 's) interp_state \<Rightarrow> ('f ptr \<times> ('f, 's) interp_state) run" where
  "run_option M local e st = (case e of None \<Rightarrow> Done (None, st) | Some e1 \<Rightarrow> run_expr M local e1 st)"

subsection \<open>Argument lists\<close>

text \<open>The input of an instruction; None is the early return with an error.\<close>

fun input_values ::
    "('f, 's) meaning \<Rightarrow> nat \<Rightarrow> 'f expression list \<Rightarrow> 'f script_value list \<Rightarrow> ('f, 's) interp_state \<Rightarrow>
     ('f script_value list option \<times> ('f, 's) interp_state) run" where
  "input_values M local [] acc st = Done (Some acc, st)"
| "input_values M local (e # es) acc st =
     seq (run_expr M local e st) (\<lambda>(result, st1).
       case result of
         None \<Rightarrow> Done (None, st1)
       | Some v \<Rightarrow> if is_error v then Done (None, st1) else input_values M local es (acc @ values_of v) st1)"

text \<open>The parameters of a script function, bound in its context; False is the early return.\<close>

fun bind_params ::
    "('f, 's) meaning \<Rightarrow> nat \<Rightarrow> nat \<Rightarrow> string list \<Rightarrow> 'f expression list \<Rightarrow> nat \<Rightarrow> ('f, 's) interp_state \<Rightarrow>
     (bool \<times> ('f, 's) interp_state) run" where
  "bind_params M local fc names [] i st = Done (True, st)"
| "bind_params M local fc names (e # es) i st =
     seq (run_expr M local e st) (\<lambda>(var, st1).
       case var of
         None \<Rightarrow> Done (False, st1)
       | Some v \<Rightarrow>
           if is_error v \<or> length names \<le> i then Done (False, st1)
           else (case UpdateVariables fc v names i (contexts st1) of
               (i', cs) \<Rightarrow> bind_params M local fc names es i' (st1\<lparr>contexts := cs\<rparr>)))"

text \<open>The values of a return statement; a null pointer among them is dereferenced.\<close>

fun return_values ::
    "('f, 's) meaning \<Rightarrow> nat \<Rightarrow> 'f expression list \<Rightarrow> 'f script_value list \<Rightarrow> ('f, 's) interp_state \<Rightarrow>
     ('f script_value list \<times> ('f, 's) interp_state) run" where
  "return_values M local [] acc st = Done (acc, st)"
| "return_values M local (e # es) acc st =
     seq (run_expr M local e st) (\<lambda>(var, st1).
       case var of
         None \<Rightarrow> Crash
       | Some v \<Rightarrow> return_values M local es (acc @ values_of v) st1)"

subsection \<open>Statement lists\<close>

fun exec_list ::
    "('f, 's) meaning \<Rightarrow> nat \<Rightarrow> 'f statement list \<Rightarrow> 'f statement_result \<Rightarrow> ('f, 's) interp_state \<Rightarrow>
     ('f statement_result \<times> ('f, 's) interp_state) run" where
  "exec_list M local [] r st = Done (r, st)"
| "exec_list M local (s # ss) r st =
     seq (run_stmt M local s st) (\<lambda>(r1, st1).
       if result_type r1 \<noteq> STATEMENT_RESULT_TYPE_NORMAL then Done (r1, st1)
       else exec_list M local ss r1 st1)"

text \<open>\<open>UScriptStatementList::Execute\<close>; an empty block of the source is a null pointer.\<close>

definition exec_block ::
    "('f, 's) meaning \<Rightarrow> nat \<Rightarrow> 'f statement list option \<Rightarrow> ('f, 's) interp_state \<Rightarrow>
     ('f statement_result \<times> ('f, 's) interp_state) run" where
  "exec_block M local statements st =
     (case statements of
        None \<Rightarrow> Crash
      | Some ss \<Rightarrow>
          seq (exec_list M local ss (new_result STATEMENT_RESULT_TYPE_NORMAL) (ContextPush local st)) (\<lambda>(r, st1).
            Done (r, ContextPop st1)))"

subsection \<open>Expressions\<close>

definition Assign_Execute ::
    "('f, 's) meaning \<Rightarrow> nat \<Rightarrow> string \<Rightarrow> string list \<Rightarrow> 'f expression \<Rightarrow> ('f, 's) interp_state \<Rightarrow>
     ('f ptr \<times> ('f, 's) interp_state) run" where
  "Assign_Execute M local i ids e st =
     seq (run_expr M local e st) (\<lambda>(result, st1).
       case result of
         None \<Rightarrow> Crash
       | Some v \<Rightarrow> Done (Some v, if is_error v then st1 else assign_value local i ids v st1))"

definition Binary_Execute ::
    "('f, 's) program \<Rightarrow> ('f, 's) meaning \<Rightarrow> nat \<Rightarrow> expression_action \<Rightarrow> 'f expression option \<Rightarrow> 'f expression option \<Rightarrow>
     ('f, 's) interp_state \<Rightarrow> ('f ptr \<times> ('f, 's) interp_state) run" where
  "Binary_Execute P M local action l r st =
     seq (run_option M local l st) (\<lambda>(left, st1).
       if action = OR_OPERATOR \<and> (case left of None \<Rightarrow> False | Some v \<Rightarrow> IsTrue (ops P) v)
       then Done (Some (Integer_Value 1), st1)
       else seq (run_option M local r st1) (\<lambda>(right, st2).
         case (left, right) of
           (Some v, Some w) \<Rightarrow> seq (Computer (ops P) action v w) (\<lambda>x. Done (x, st2))
         | _ \<Rightarrow> Done (Some (Error_Value USCRIPT_ERROR_INTERPRET), st2)))"

definition ExecuteNativeFunc ::
    "('f, 's) meaning \<Rightarrow> nat \<Rightarrow> ('f, 's) instruction \<Rightarrow> 'f expression list option \<Rightarrow> ('f, 's) interp_state \<Rightarrow>
     ('f ptr \<times> ('f, 's) interp_state) run" where
  "ExecuteNativeFunc M local instruction params st =
     seq (case params of None \<Rightarrow> Done (Some [], st) | Some es \<Rightarrow> input_values M local es [] st) (\<lambda>(input, st1).
       case input of
         None \<Rightarrow> Done (Some (Error_Value USCRIPT_ERROR_INTERPRET), st1)
       | Some vs \<Rightarrow> seq (instruction vs (script_env st1)) (\<lambda>r. Done (instruction_result r st1)))"

definition ScriptFunction_Execute ::
    "('f, 's) meaning \<Rightarrow> nat \<Rightarrow> 'f script_function \<Rightarrow> 'f expression list option \<Rightarrow> ('f, 's) interp_state \<Rightarrow>
     ('f ptr \<times> ('f, 's) interp_state) run" where
  "ScriptFunction_Execute M local f inputParams st =
     (case new_context False st of (funcContext, st1) \<Rightarrow>
        seq (case (inputParams, fn_params f) of
               (None, None) \<Rightarrow> Done (None, st1)
             | (Some es, Some ps) \<Rightarrow>
                 if length ps \<noteq> length es then Done (Some USCRIPT_ERROR_INTERPRET, st1)
                 else seq (bind_params M local funcContext (GetParamNames ps) es 0 st1) (\<lambda>(ok, st2).
                   Done (if ok then None else Some USCRIPT_NOTEXIST_INSTRUCTION, st2))
             | _ \<Rightarrow> Done (Some USCRIPT_ERROR_INTERPRET, st1))
          (\<lambda>(failed, st2).
             case failed of
               Some c \<Rightarrow> Done (Some (Error_Value c), st2)
             | None \<Rightarrow>
                 seq (exec_block M funcContext (fn_statements f) st2) (\<lambda>(r, st3). Done (result_value r, st3))))"

definition FunctionCall_Execute ::
    "('f, 's) program \<Rightarrow> ('f, 's) meaning \<Rightarrow> nat \<Rightarrow> string \<Rightarrow> 'f expression list option \<Rightarrow> ('f, 's) interp_state \<Rightarrow>
     ('f ptr \<times> ('f, 's) interp_state) run" where
  "FunctionCall_Execute P M local name params st =
     (case FindInstruction P (script_env st) name of
        Some instruction \<Rightarrow> ExecuteNativeFunc M local instruction params st
      | None \<Rightarrow>
          (case FindFunction (script_functions P) name of
             None \<Rightarrow> Done (Some (Error_Value USCRIPT_NOTEXIST_INSTRUCTION), st)
           | Some f \<Rightarrow> ScriptFunction_Execute M local f params st))"

definition exec_expr ::
    "('f, 's) program \<Rightarrow> ('f, 's) meaning \<Rightarrow> nat \<Rightarrow> 'f expression \<Rightarrow> ('f, 's) interp_state \<Rightarrow>
     ('f ptr \<times> ('f, 's) interp_state) run" where
  "exec_expr P M local e st =
     (case e of
        Integer_Expression v \<Rightarrow> Done (Some (Integer_Value v), st)
      | Float_Expression v \<Rightarrow> Done (Some (Float_Value v), st)
      | String_Expression v \<Rightarrow> Done (Some (String_Value v), st)
      | Identifier_Expression i \<Rightarrow>
          Done (Some (case FindVariable st i of Some v \<Rightarrow> v | None \<Rightarrow> Base_Value), st)
      | Assign_Expression i ids e1 \<Rightarrow> Assign_Execute M local i ids e1 st
      | Binary_Expression action l r \<Rightarrow> Binary_Execute P M local action l r st
      | FunctionCall_Expression name params \<Rightarrow> FunctionCall_Execute P M local name params st)"

subsection \<open>Statements\<close>

definition exec_local ::
    "('f, 's) meaning \<Rightarrow> 'f statement list \<Rightarrow> ('f, 's) interp_state \<Rightarrow> ('f statement_result \<times> ('f, 's) interp_state) run" where
  "exec_local M ss st = (case new_context False st of (local, st1) \<Rightarrow> exec_block M local (Some ss) st1)"

text \<open>The value of a condition, or the result a null pointer or an error gives.\<close>

definition condition_value :: "'f ptr \<Rightarrow> 'f statement_result + 'f script_value" where
  "condition_value value =
     (case value of
        None \<Rightarrow> Inl (error_result USCRIPT_INVALID_PARAM (new_result STATEMENT_RESULT_TYPE_NORMAL))
      | Some v \<Rightarrow>
          if is_error v then Inl (error_result USCRIPT_INVALID_PARAM (new_result STATEMENT_RESULT_TYPE_NORMAL))
          else Inr v)"

definition If_Execute ::
    "('f, 's) program \<Rightarrow> ('f, 's) meaning \<Rightarrow> nat \<Rightarrow> 'f expression \<Rightarrow> 'f statement list option \<Rightarrow> 'f statement list option \<Rightarrow>
     'f statement option \<Rightarrow> ('f, 's) interp_state \<Rightarrow> ('f statement_result \<times> ('f, 's) interp_state) run" where
  "If_Execute P M local e trueStatements falseStatements nextStatement st =
     seq (run_expr M local e st) (\<lambda>(value, st1).
       case condition_value value of
         Inl r \<Rightarrow> Done (r, st1)
       | Inr v \<Rightarrow>
           if IsTrue (ops P) v then
             (case trueStatements of
                None \<Rightarrow> Done (new_result STATEMENT_RESULT_TYPE_NORMAL, st1)
              | Some ss \<Rightarrow> exec_local M ss st1)
           else (case falseStatements of
                Some ss \<Rightarrow> exec_local M ss st1
              | None \<Rightarrow>
                  (case nextStatement of
                     Some s' \<Rightarrow> run_stmt M local s' st1
                   | None \<Rightarrow> Done (new_result STATEMENT_RESULT_TYPE_NORMAL, st1))))"

definition Return_Execute ::
    "('f, 's) meaning \<Rightarrow> nat \<Rightarrow> 'f expression list option \<Rightarrow> ('f, 's) interp_state \<Rightarrow>
     ('f statement_result \<times> ('f, 's) interp_state) run" where
  "Return_Execute M local params st =
     (case params of
        None \<Rightarrow> Done (new_result STATEMENT_RESULT_TYPE_RTN, st)
      | Some es \<Rightarrow>
          seq (return_values M local es [] st) (\<lambda>(vs, st1).
            Done ((new_result STATEMENT_RESULT_TYPE_RTN)\<lparr>result_value := Some (Return_Value vs)\<rparr>, st1)))"

definition exec_stmt ::
    "('f, 's) program \<Rightarrow> ('f, 's) meaning \<Rightarrow> nat \<Rightarrow> 'f statement \<Rightarrow> ('f, 's) interp_state \<Rightarrow>
     ('f statement_result \<times> ('f, 's) interp_state) run" where
  "exec_stmt P M local s st =
     (case s of
        Statement_Ctrl t \<Rightarrow> Done (Ctrl_Execute t, st)
      | Expression_Statement e \<Rightarrow>
          seq (run_expr M local e st) (\<lambda>(value, st1).
            seq (UpdateStatementResult (new_result STATEMENT_RESULT_TYPE_NORMAL) value) (\<lambda>r. Done (r, st1)))
      | If_Statement e trueStatements falseStatements nextStatement \<Rightarrow>
          If_Execute P M local e trueStatements falseStatements nextStatement st
      | For_Statement before condition after statements \<Rightarrow>
          seq (run_option M local before st) (\<lambda>(_, st1). run_loop M local condition after statements st1)
      | While_Statement condition statements \<Rightarrow> run_loop M local condition None statements st
      | Return_Statement params \<Rightarrow> Return_Execute M local params st)"

text \<open>
  One iteration of \<open>while (1)\<close> in the for and while statements, and the rest of the loop. A
  missing condition holds; a \<open>continue\<close> goes on with the \<open>after\<close> expression.
\<close>

definition exec_loop ::
    "('f, 's) program \<Rightarrow> ('f, 's) meaning \<Rightarrow> nat \<Rightarrow> 'f expression option \<Rightarrow> 'f expression option \<Rightarrow>
     'f statement list option \<Rightarrow> ('f, 's) interp_state \<Rightarrow> ('f statement_result \<times> ('f, 's) interp_state) run" where
  "exec_loop P M local condition after statements st =
     seq (case condition of None \<Rightarrow> Done (Some (Integer_Value 1), st) | Some e \<Rightarrow> run_expr M local e st) (\<lambda>(value, st1).
       case condition_value value of
         Inl r \<Rightarrow> Done (r, st1)
       | Inr v \<Rightarrow>
           if \<not> IsTrue (ops P) v then Done (new_result STATEMENT_RESULT_TYPE_NORMAL, st1)
           else seq (exec_block M local statements st1) (\<lambda>(r, st2).
             if result_type r = STATEMENT_RESULT_TYPE_BREAK then Done (new_result STATEMENT_RESULT_TYPE_NORMAL, st2)
             else if result_type r \<in> {STATEMENT_RESULT_TYPE_RTN, STATEMENT_RESULT_TYPE_ERROR} then Done (r, st2)
             else seq (run_option M local after st2) (\<lambda>(_, st3).
               run_loop M local condition after statements st3)))"

primrec meaning_of :: "('f, 's) program \<Rightarrow> nat \<Rightarrow> ('f, 's) meaning" where
  "meaning_of P 0 =
     \<lparr>run_expr = \<lambda>local e st. No_Fuel, run_stmt = \<lambda>local s st. No_Fuel, run_loop = \<lambda>local c a ss st. No_Fuel\<rparr>"
| "meaning_of P (Suc n) =
     \<lparr>run_expr = exec_expr P (meaning_of P n), run_stmt = exec_stmt P (meaning_of P n),
      run_loop = exec_loop P (meaning_of P n)\<rparr>"

text \<open>\<open>ScriptInterpreter::Execute\<close> on the statements the parser collected.\<close>

definition Script_Execute ::
    "('f, 's) program \<Rightarrow> nat \<Rightarrow> 'f statement list option \<Rightarrow> 's \<Rightarrow> (int \<times> ('f, 's) interp_state) run" where
  "Script_Execute P n statements env =
     (case new_context True \<lparr>contexts = [], contextStack = [], script_env = env\<rparr> of
        (context, st) \<Rightarrow>
          if statements = None then Done (USCRIPT_INVALID_PARAM, st)
          else seq (exec_block (meaning_of P n) context statements st) (\<lambda>(r, st1).
            Done (if result_type r = STATEMENT_RESULT_TYPE_ERROR then result_error r else USCRIPT_SUCCESS, st1)))"

end
