(* ===== verification/Script_Laws.thy ===== *)
theory Script_Laws
  imports Script_Interp
begin

text \<open>
  Properties of the script interpreter: what a run does to the contexts (its scoping), that more
  fuel never changes a result, that scripts without loops and recursion end, and the ways in
  which a script ends in undefined behaviour or in the wrong variable.
\<close>

section \<open>The contexts of a run\<close>

text \<open>
  \<open>keeps L st st'\<close>: the stack is as before, no context goes away or loses a variable, and of the
  old contexts only those on the stack and in \<open>L\<close> change.
\<close>

definition grows :: "'f script_context \<Rightarrow> 'f script_context \<Rightarrow> bool" where
  "grows x y \<longleftrightarrow> is_top y = is_top x \<and> dom (localVariables x) \<subseteq> dom (localVariables y)"

definition keeps :: "nat set \<Rightarrow> ('f, 's) interp_state \<Rightarrow> ('f, 's) interp_state \<Rightarrow> bool" where
  "keeps L st st' \<longleftrightarrow>
     contextStack st' = contextStack st \<and> length (contexts st) \<le> length (contexts st') \<and>
     (\<forall>c < length (contexts st). grows (contexts st ! c) (contexts st' ! c) \<and>
        (c \<notin> L \<union> set (contextStack st) \<longrightarrow> contexts st' ! c = contexts st ! c))"

lemma grows_refl [simp]: "grows x x"
  by (simp add: grows_def)

lemma grows_trans: "grows x y \<Longrightarrow> grows y z \<Longrightarrow> grows x z"
  by (auto simp: grows_def)

lemma keeps_refl [simp]: "keeps L st st"
  by (simp add: keeps_def)

lemma keepsI:
  assumes "contextStack st' = contextStack st" "length (contexts st) \<le> length (contexts st')"
    and "\<And>c. c < length (contexts st) \<Longrightarrow> grows (contexts st ! c) (contexts st' ! c)"
    and "\<And>c. c < length (contexts st) \<Longrightarrow> c \<notin> L \<Longrightarrow> c \<notin> set (contextStack st) \<Longrightarrow> contexts st' ! c = contexts st ! c"
  shows "keeps L st st'"
  using assms by (simp add: keeps_def)

lemma keepsD:
  assumes "keeps L st st'"
  shows "contextStack st' = contextStack st" "length (contexts st) \<le> length (contexts st')"
    "c < length (contexts st) \<Longrightarrow> grows (contexts st ! c) (contexts st' ! c)"
    "c < length (contexts st) \<Longrightarrow> c \<notin> L \<Longrightarrow> c \<notin> set (contextStack st) \<Longrightarrow> contexts st' ! c = contexts st ! c"
  using assms by (simp_all add: keeps_def)

lemma keeps_trans:
  assumes "keeps L st st1" "keeps L st1 st2"
  shows "keeps L st st2"
proof (rule keepsI)
  show "contextStack st2 = contextStack st" "length (contexts st) \<le> length (contexts st2)"
    using keepsD(1,2) [OF assms(1)] keepsD(1,2) [OF assms(2)] by simp_all
next
  fix c assume c: "c < length (contexts st)"
  then have c1: "c < length (contexts st1)" using keepsD(2) [OF assms(1)] by simp
  show "grows (contexts st ! c) (contexts st2 ! c)"
    using grows_trans [OF keepsD(3) [OF assms(1) c] keepsD(3) [OF assms(2) c1]] .
  assume "c \<notin> L" "c \<notin> set (contextStack st)"
  then show "contexts st2 ! c = contexts st ! c"
    using keepsD(1) [OF assms(1)] keepsD(4) [OF assms(1) c] keepsD(4) [OF assms(2) c1] by simp
qed

lemma keeps_env [simp]: "keeps L st (st1\<lparr>script_env := s\<rparr>) \<longleftrightarrow> keeps L st st1"
  by (simp add: keeps_def)

text \<open>Contexts a list of which some in \<open>L\<close> were updated.\<close>

definition updated :: "nat set \<Rightarrow> 'f script_context list \<Rightarrow> 'f script_context list \<Rightarrow> bool" where
  "updated L cs cs' \<longleftrightarrow>
     length cs' = length cs \<and>
     (\<forall>c < length cs. grows (cs ! c) (cs' ! c) \<and> (c \<notin> L \<longrightarrow> cs' ! c = cs ! c))"

lemma updated_refl [simp]: "updated L cs cs"
  by (simp add: updated_def)

lemma updated_trans: "updated L cs cs1 \<Longrightarrow> updated L cs1 cs2 \<Longrightarrow> updated L cs cs2"
  unfolding updated_def by (metis grows_trans)

lemma updated_mono: "updated L cs cs' \<Longrightarrow> L \<subseteq> L' \<Longrightarrow> updated L' cs cs'"
  by (auto simp: updated_def)

lemma updated_one: "c \<in> L \<Longrightarrow> updated L cs (Context_UpdateVariable c i v cs)"
  unfolding updated_def Context_UpdateVariable_def
  by (cases "c < length cs") (auto simp: nth_list_update grows_def list_update_beyond)

lemma updated_list: "c \<in> L \<Longrightarrow> updated L cs (snd (update_list c vs ids i cs))"
  by (induction c vs ids i cs rule: update_list.induct) (auto intro: updated_trans [OF updated_one])

lemma updated_variables: "c \<in> L \<Longrightarrow> updated L cs (snd (UpdateVariables c v ids i cs))"
  unfolding UpdateVariables_def by (cases v) (simp_all add: updated_list updated_one)

lemma updated_stack: "set stack \<subseteq> L \<Longrightarrow> updated L cs (update_in_stack cs stack i v)"
proof (induction cs stack i v rule: update_in_stack.induct)
  case (2 cs c stack i v)
  let ?cs = "if localVariables (cs ! c) i \<noteq> None then Context_UpdateVariable c i v cs else cs"
  have 1: "updated L cs ?cs" using 2(2) by (simp add: updated_one)
  then show ?case using 2(2) updated_trans [OF 1 2(1) [OF refl]] by (simp add: Let_def)
qed simp

lemma keeps_updated: "keeps L st st1 \<Longrightarrow> updated (L \<union> set (contextStack st)) (contexts st1) cs \<Longrightarrow>
    keeps L st (st1\<lparr>contexts := cs\<rparr>)"
  by (rule keeps_trans [of _ _ st1]) (auto simp: updated_def dest: keepsD(1) intro!: keepsI)

lemma keeps_assign: "local \<in> L \<Longrightarrow> keeps L st (assign_value local i ids v st)"
  by (auto simp: assign_value_def UpdateVariable_def intro!: keeps_updated updated_variables updated_stack)

lemma new_context_facts:
  assumes "new_context t st = (c, st1)"
  shows "c = length (contexts st)" "contextStack st1 = contextStack st" "keeps L st st1"
    "keeps (insert c L) st1 st2 \<Longrightarrow> keeps L st st2"
proof -
  show c: "c = length (contexts st)" and stack: "contextStack st1 = contextStack st"
    using assms by (auto simp: new_context_def)
  show 1: "keeps L st st1" for L using assms by (auto simp: new_context_def nth_append intro: keepsI)
  assume 2: "keeps (insert c L) st1 st2"
  show "keeps L st st2"
  proof (rule keepsI)
    fix k assume "k < length (contexts st)" "k \<notin> L" "k \<notin> set (contextStack st)"
    then show "contexts st2 ! k = contexts st ! k"
      using keepsD(4) [OF keeps_trans [OF 1 2], of k] c by simp
  qed (use keepsD(1-3) [OF keeps_trans [OF 1 2]] in auto)
qed

text \<open>A run that ends keeps everything but the contexts in \<open>L\<close> and on the stack.\<close>

definition scoped_run :: "nat set \<Rightarrow> ('f, 's) interp_state \<Rightarrow> ('a \<times> ('f, 's) interp_state) run \<Rightarrow> bool" where
  "scoped_run L st r \<longleftrightarrow> (\<forall>x st'. r = Done (x, st') \<longrightarrow> keeps L st st')"

named_theorems scoped

lemma scoped_basic [simp]:
  "scoped_run L st Crash" "scoped_run L st No_Fuel" "scoped_run L st (Done (x, st')) \<longleftrightarrow> keeps L st st'"
  by (simp_all add: scoped_run_def)

lemma scoped_seq [scoped]:
  "scoped_run L st r \<Longrightarrow> (\<And>x st1. keeps L st st1 \<Longrightarrow> scoped_run L st1 (f (x, st1))) \<Longrightarrow> scoped_run L st (seq r f)"
  unfolding scoped_run_def by (cases r) (auto intro: keeps_trans)

lemma scoped_seq_value: "(\<And>x. r = Done x \<Longrightarrow> scoped_run L st (f x)) \<Longrightarrow> scoped_run L st (seq r f)"
  by (cases r) auto

lemma scoped_mono: "scoped_run L st r \<Longrightarrow> L \<subseteq> L' \<Longrightarrow> scoped_run L' st r"
  unfolding scoped_run_def keeps_def by blast

lemma scoped_from: "keeps L st st1 \<Longrightarrow> scoped_run L st1 r \<Longrightarrow> scoped_run L st r"
  unfolding scoped_run_def by (blast intro: keeps_trans)

lemma scoped_new: "new_context t st = (c, st1) \<Longrightarrow> scoped_run (insert c L) st1 r \<Longrightarrow> scoped_run L st r"
  unfolding scoped_run_def by (blast intro: new_context_facts(4))

definition well_scoped :: "('f, 's) meaning \<Rightarrow> bool" where
  "well_scoped M \<longleftrightarrow>
     (\<forall>local e st. scoped_run {local} st (run_expr M local e st)) \<and>
     (\<forall>local s st. scoped_run {local} st (run_stmt M local s st)) \<and>
     (\<forall>local c a ss st. scoped_run {local} st (run_loop M local c a ss st))"

lemma run_scoped [scoped]:
  assumes "well_scoped M" "local \<in> L"
  shows "scoped_run L st (run_expr M local e st)" "scoped_run L st (run_stmt M local s st)"
    "scoped_run L st (run_loop M local c a ss st)" "scoped_run L st (run_option M local oe st)"
  using assms
  by (auto simp: well_scoped_def run_option_def split: option.split intro: scoped_mono [of "{local}"])

lemma input_scoped [scoped]:
  "well_scoped M \<Longrightarrow> local \<in> L \<Longrightarrow> scoped_run L st (input_values M local es acc st)"
  by (induction es arbitrary: acc st) (auto intro!: scoped split: option.split)

lemma return_scoped [scoped]:
  "well_scoped M \<Longrightarrow> local \<in> L \<Longrightarrow> scoped_run L st (return_values M local es acc st)"
  by (induction es arbitrary: acc st) (auto intro!: scoped split: option.split)

lemma bind_scoped [scoped]:
  "well_scoped M \<Longrightarrow> local \<in> L \<Longrightarrow> fc \<in> L \<Longrightarrow> scoped_run L st (bind_params M local fc names es i st)"
proof (induction es arbitrary: i st)
  case (Cons e es)
  have "scoped_run L st1 (case UpdateVariables fc v names i (contexts st1) of
      (i', cs) \<Rightarrow> bind_params M local fc names es i' (st1\<lparr>contexts := cs\<rparr>))" for st1 v
  proof -
    obtain i' cs where u: "UpdateVariables fc v names i (contexts st1) = (i', cs)" by fastforce
    have "updated (L \<union> set (contextStack st1)) (contexts st1) cs"
      using updated_variables [of fc "L \<union> set (contextStack st1)" "contexts st1" v names i] Cons.prems u by simp
    then show ?thesis
      unfolding u prod.case by (rule scoped_from [OF keeps_updated [OF keeps_refl] Cons.IH [OF Cons.prems]])
  qed
  then show ?case using Cons.prems by (auto intro!: scoped(1,2) split: option.split)
qed simp

lemma list_scoped [scoped]:
  "well_scoped M \<Longrightarrow> local \<in> L \<Longrightarrow> scoped_run L st (exec_list M local ss r st)"
  by (induction ss arbitrary: r st) (auto intro!: scoped)

lemma block_scoped [scoped]:
  assumes "well_scoped M" "local \<in> L"
  shows "scoped_run L st (exec_block M local ss st)"
proof -
  have "keeps L st (ContextPop st1)" if "keeps L (ContextPush local st) st1" for st1
  proof (rule keepsI)
    fix c assume "c < length (contexts st)" "c \<notin> L" "c \<notin> set (contextStack st)"
    moreover from this have "c \<noteq> local" using assms(2) by blast
    ultimately show "contexts (ContextPop st1) ! c = contexts st ! c"
      using keepsD(4) [OF that, of c] by (simp add: ContextPush_def ContextPop_def)
  qed (use keepsD(1-3) [OF that] in \<open>simp_all add: ContextPush_def ContextPop_def\<close>)
  moreover have "scoped_run L (ContextPush local st) (exec_list M local ss' r (ContextPush local st))" for ss' r
    using list_scoped [OF assms] by simp
  ultimately show ?thesis
    unfolding exec_block_def scoped_run_def by (auto simp: seq_Done split: option.splits)
qed

lemma local_scoped [scoped]: "well_scoped M \<Longrightarrow> scoped_run L st (exec_local M ss st)"
  unfolding exec_local_def by (auto split: prod.split intro: scoped_new intro!: scoped)

lemma native_scoped [scoped]:
  "well_scoped M \<Longrightarrow> local \<in> L \<Longrightarrow> scoped_run L st (ExecuteNativeFunc M local f params st)"
  unfolding ExecuteNativeFunc_def
  by (rule scoped_seq)
    (auto simp: instruction_result_def split: option.split prod.split intro!: scoped(2-) scoped_seq_value)

lemma function_scoped [scoped]:
  assumes "well_scoped M" "local \<in> L"
  shows "scoped_run L st (ScriptFunction_Execute M local f params st)"
proof -
  obtain fc st1 where new: "new_context False st = (fc, st1)" by fastforce
  show ?thesis
    unfolding ScriptFunction_Execute_def new using assms
    by (intro scoped_new [OF new]) (auto intro!: scoped split: option.split)
qed

lemma expr_scoped: "well_scoped M \<Longrightarrow> local \<in> L \<Longrightarrow> scoped_run L st (exec_expr P M local e st)"
  by (auto simp: exec_expr_def Assign_Execute_def Binary_Execute_def FunctionCall_Execute_def keeps_assign
      split: expression.split option.split intro!: scoped)
    (auto intro!: scoped_seq_value)

lemma loop_scoped: "well_scoped M \<Longrightarrow> local \<in> L \<Longrightarrow> scoped_run L st (exec_loop P M local c a ss st)"
  by (auto simp: exec_loop_def split: option.split sum.split intro!: scoped)

lemma stmt_scoped: "well_scoped M \<Longrightarrow> local \<in> L \<Longrightarrow> scoped_run L st (exec_stmt P M local s st)"
  by (auto simp: exec_stmt_def If_Execute_def Return_Execute_def
      split: statement.split option.split sum.split intro!: scoped)
    (auto intro!: scoped_seq_value)

lemma meaning_scoped: "well_scoped (meaning_of P n)"
proof (induction n)
  case (Suc n)
  show ?case
    unfolding well_scoped_def by (simp add: expr_scoped [OF Suc] stmt_scoped [OF Suc] loop_scoped [OF Suc])
qed (simp add: well_scoped_def)


text \<open>
  C13. The scoping of the script language: when a statement ends, in whatever way, the context stack
  is as it was, every context still is what it was (top or not) and has all its variables, and of
  the contexts that existed before only those on the stack and the local one can have changed.
\<close>

theorem script_scoping:
  assumes "run_stmt (meaning_of P n) local s st = Done (r, st')"
  shows "contextStack st' = contextStack st \<and> length (contexts st) \<le> length (contexts st') \<and>
    (\<forall>c < length (contexts st).
       is_top (contexts st' ! c) = is_top (contexts st ! c) \<and>
       dom (localVariables (contexts st ! c)) \<subseteq> dom (localVariables (contexts st' ! c)) \<and>
       (c \<noteq> local \<and> c \<notin> set (contextStack st) \<longrightarrow> contexts st' ! c = contexts st ! c))"
proof -
  have "keeps {local} st st'"
    using run_scoped(2) [OF meaning_scoped, of local "{local}" st P n s] assms by (simp add: scoped_run_def)
  then show ?thesis unfolding keeps_def grows_def by simp
qed

section \<open>Fuel\<close>

text \<open>A run that ended is not changed by more fuel.\<close>

definition le_run :: "'a run \<Rightarrow> 'a run \<Rightarrow> bool" where
  "le_run r r' \<longleftrightarrow> r = No_Fuel \<or> r' = r"

named_theorems fuel_mono

lemma le_run_refl [simp, fuel_mono]: "le_run r r"
  by (simp add: le_run_def)

lemma le_run_No_Fuel [simp]: "le_run No_Fuel r"
  by (simp add: le_run_def)

lemma le_seq [fuel_mono]: "le_run r r' \<Longrightarrow> (\<And>x. le_run (f x) (f' x)) \<Longrightarrow> le_run (seq r f) (seq r' f')"
  by (cases r) (auto simp: le_run_def)

definition le_meaning :: "('f, 's) meaning \<Rightarrow> ('f, 's) meaning \<Rightarrow> bool" where
  "le_meaning M M' \<longleftrightarrow>
     (\<forall>local e st. le_run (run_expr M local e st) (run_expr M' local e st)) \<and>
     (\<forall>local s st. le_run (run_stmt M local s st) (run_stmt M' local s st)) \<and>
     (\<forall>local c a ss st. le_run (run_loop M local c a ss st) (run_loop M' local c a ss st))"

lemma le_run_fields [fuel_mono]:
  assumes "le_meaning M M'"
  shows "le_run (run_expr M local e st) (run_expr M' local e st)"
    "le_run (run_stmt M local s st) (run_stmt M' local s st)"
    "le_run (run_loop M local c a ss st) (run_loop M' local c a ss st)"
    "le_run (run_option M local oe st) (run_option M' local oe st)"
  using assms by (auto simp: le_meaning_def run_option_def split: option.split)

lemma le_lists [fuel_mono]:
  assumes "le_meaning M M'"
  shows "le_run (input_values M local es acc st) (input_values M' local es acc st)"
    "le_run (bind_params M local fc names es i st) (bind_params M' local fc names es i st)"
    "le_run (return_values M local es acc st) (return_values M' local es acc st)"
    "le_run (exec_list M local ss r st) (exec_list M' local ss r st)"
proof -
  show "le_run (input_values M local es acc st) (input_values M' local es acc st)"
    using assms by (induction es arbitrary: acc st) (auto intro!: fuel_mono split: option.split)
  show "le_run (bind_params M local fc names es i st) (bind_params M' local fc names es i st)"
    using assms by (induction es arbitrary: i st) (auto intro!: fuel_mono split: option.split prod.split)
  show "le_run (return_values M local es acc st) (return_values M' local es acc st)"
    using assms by (induction es arbitrary: acc st) (auto intro!: fuel_mono split: option.split)
  show "le_run (exec_list M local ss r st) (exec_list M' local ss r st)"
    using assms by (induction ss arbitrary: r st) (auto intro!: fuel_mono)
qed

lemma le_block [fuel_mono]: "le_meaning M M' \<Longrightarrow> le_run (exec_block M local ss st) (exec_block M' local ss st)"
  by (auto simp: exec_block_def split: option.split intro!: fuel_mono)

lemma le_local [fuel_mono]: "le_meaning M M' \<Longrightarrow> le_run (exec_local M ss st) (exec_local M' ss st)"
  by (auto simp: exec_local_def split: prod.split intro!: fuel_mono)

lemma le_call [fuel_mono]:
  assumes "le_meaning M M'"
  shows "le_run (ExecuteNativeFunc M local i params st) (ExecuteNativeFunc M' local i params st)"
    "le_run (ScriptFunction_Execute M local f params st) (ScriptFunction_Execute M' local f params st)"
  using assms
  by (auto simp: ExecuteNativeFunc_def ScriptFunction_Execute_def split: option.split prod.split intro!: fuel_mono)

lemma le_exec:
  assumes "le_meaning M M'"
  shows "le_run (exec_expr P M local e st) (exec_expr P M' local e st)"
    "le_run (exec_stmt P M local s st) (exec_stmt P M' local s st)"
    "le_run (exec_loop P M local c a ss st) (exec_loop P M' local c a ss st)"
proof -
  show "le_run (exec_expr P M local e st) (exec_expr P M' local e st)"
    using assms by (auto simp: exec_expr_def Assign_Execute_def Binary_Execute_def FunctionCall_Execute_def
        split: expression.split option.split intro!: fuel_mono)
  show "le_run (exec_stmt P M local s st) (exec_stmt P M' local s st)"
    using assms by (auto simp: exec_stmt_def If_Execute_def Return_Execute_def
        split: statement.split option.split sum.split intro!: fuel_mono)
  show "le_run (exec_loop P M local c a ss st) (exec_loop P M' local c a ss st)"
    using assms by (auto simp: exec_loop_def split: option.split sum.split intro!: fuel_mono)
qed

lemma le_meaning_Suc: "le_meaning (meaning_of P n) (meaning_of P (Suc n))"
proof (induction n)
  case (Suc n)
  show ?case
    using le_exec [OF Suc, of P] by (simp add: le_meaning_def)
qed (simp add: le_meaning_def)

lemma le_run_trans: "le_run a b \<Longrightarrow> le_run b c \<Longrightarrow> le_run a c"
  by (auto simp: le_run_def)

lemma le_meaning_trans:
  assumes "le_meaning A B" "le_meaning B C"
  shows "le_meaning A C"
  unfolding le_meaning_def
  by (intro conjI allI le_run_trans [OF le_run_fields(1) [OF assms(1)] le_run_fields(1) [OF assms(2)]]
      le_run_trans [OF le_run_fields(2) [OF assms(1)] le_run_fields(2) [OF assms(2)]]
      le_run_trans [OF le_run_fields(3) [OF assms(1)] le_run_fields(3) [OF assms(2)]])

lemma le_meaning_mono: "n \<le> m \<Longrightarrow> le_meaning (meaning_of P n) (meaning_of P m)"
proof (induction m rule: dec_induct)
  case (step m)
  with le_meaning_Suc [of P m] show ?case by (blast intro: le_meaning_trans)
qed (simp add: le_meaning_def)

text \<open>
  The fuel is only a bound on the length of a run: once a script ends within some fuel, with a
  result or in undefined behaviour, it ends in the same way with any more.
\<close>

theorem script_fuel:
  assumes "Script_Execute P n statements env \<noteq> No_Fuel" "n \<le> m"
  shows "Script_Execute P m statements env = Script_Execute P n statements env"
proof -
  have "le_run (Script_Execute P n statements env) (Script_Execute P m statements env)"
    using le_meaning_mono [OF assms(2), of P]
    by (auto simp: Script_Execute_def split: prod.split intro!: fuel_mono)
  with assms(1) show ?thesis by (simp add: le_run_def)
qed

section \<open>Scripts that end\<close>

text \<open>\<open>C\<close> says which names may be called; the statements have no loops.\<close>

fun calls_ok :: "(string \<Rightarrow> bool) \<Rightarrow> 'f expression \<Rightarrow> bool" where
  "calls_ok C (Assign_Expression i ids e) = calls_ok C e"
| "calls_ok C (Binary_Expression a l r) =
     ((case l of None \<Rightarrow> True | Some e \<Rightarrow> calls_ok C e) \<and> (case r of None \<Rightarrow> True | Some e \<Rightarrow> calls_ok C e))"
| "calls_ok C (FunctionCall_Expression name params) =
     (C name \<and> (case params of None \<Rightarrow> True | Some es \<Rightarrow> (\<forall>e \<in> set es. calls_ok C e)))"
| "calls_ok C e = True"

fun loop_free :: "(string \<Rightarrow> bool) \<Rightarrow> 'f statement \<Rightarrow> bool" where
  "loop_free C (Statement_Ctrl t) = True"
| "loop_free C (Expression_Statement e) = calls_ok C e"
| "loop_free C (If_Statement e ts fs nx) =
     (calls_ok C e \<and> (case ts of None \<Rightarrow> True | Some ss \<Rightarrow> (\<forall>s \<in> set ss. loop_free C s)) \<and>
      (case fs of None \<Rightarrow> True | Some ss \<Rightarrow> (\<forall>s \<in> set ss. loop_free C s)) \<and>
      (case nx of None \<Rightarrow> True | Some s \<Rightarrow> loop_free C s))"
| "loop_free C (For_Statement b c a ss) = False"
| "loop_free C (While_Statement c ss) = False"
| "loop_free C (Return_Statement params) = (case params of None \<Rightarrow> True | Some es \<Rightarrow> (\<forall>e \<in> set es. calls_ok C e))"


fun finished :: "'a run \<Rightarrow> bool" where
  "finished No_Fuel = False"
| "finished r = True"

lemma finished_iff: "finished r \<longleftrightarrow> r \<noteq> No_Fuel"
  by (cases r) auto

text \<open>Fuel with which an expression or a statement ends in every state.\<close>

definition expr_ends :: "('f, 's) program \<Rightarrow> nat \<Rightarrow> 'f expression \<Rightarrow> bool" where
  "expr_ends P n e \<longleftrightarrow> (\<forall>local st. finished (run_expr (meaning_of P n) local e st))"

definition stmt_ends :: "('f, 's) program \<Rightarrow> nat \<Rightarrow> 'f statement \<Rightarrow> bool" where
  "stmt_ends P n s \<longleftrightarrow> (\<forall>local st. finished (run_stmt (meaning_of P n) local s st))"

lemma le_run_finished: "le_run r r' \<Longrightarrow> finished r \<Longrightarrow> finished r'"
  by (auto simp: le_run_def)

lemma ends_mono:
  "expr_ends P n e \<Longrightarrow> n \<le> m \<Longrightarrow> expr_ends P m e"
  "stmt_ends P n s \<Longrightarrow> n \<le> m \<Longrightarrow> stmt_ends P m s"
  unfolding expr_ends_def stmt_ends_def
  using le_run_finished [OF le_run_fields(1) [OF le_meaning_mono [of n m P]]]
    le_run_finished [OF le_run_fields(2) [OF le_meaning_mono [of n m P]]]
  by blast+

lemma ends_common:
  assumes "finite X" "\<forall>x \<in> X. \<exists>n. Q n x" "\<And>n m x. Q n x \<Longrightarrow> n \<le> m \<Longrightarrow> Q m x"
  shows "\<exists>n :: nat. \<forall>x \<in> X. Q n x"
  using assms(1,2)
proof (induction rule: finite_induct)
  case (insert x X)
  then obtain n m where "Q n x" "\<forall>y \<in> X. Q m y" by auto
  then have "\<forall>y \<in> insert x X. Q (max n m) y"
    using assms(3) [of n x "max n m"] assms(3) [of m _ "max n m"] by auto
  then show ?case by blast
qed simp

named_theorems ends

lemma seq_ends [ends]: "finished r \<Longrightarrow> (\<And>x. finished (f x)) \<Longrightarrow> finished (seq r f)"
  by (cases r) auto

lemma option_ends [ends]:
  "(\<And>e. oe = Some e \<Longrightarrow> expr_ends P n e) \<Longrightarrow> finished (run_option (meaning_of P n) local oe st)"
  by (auto simp: run_option_def expr_ends_def split: option.split)

lemma params_end [ends]:
  assumes "\<forall>e \<in> set es. expr_ends P n e"
  shows "finished (input_values (meaning_of P n) local es acc st)"
    "finished (bind_params (meaning_of P n) local fc names es i st)"
    "finished (return_values (meaning_of P n) local es acc st)"
proof -
  show "finished (input_values (meaning_of P n) local es acc st)"
    using assms by (induction es arbitrary: acc st) (auto simp: expr_ends_def intro!: ends split: option.split)
  show "finished (bind_params (meaning_of P n) local fc names es i st)"
    using assms by (induction es arbitrary: i st) (auto simp: expr_ends_def intro!: ends split: option.split prod.split)
  show "finished (return_values (meaning_of P n) local es acc st)"
    using assms by (induction es arbitrary: acc st) (auto simp: expr_ends_def intro!: ends split: option.split)
qed

lemma list_ends [ends]:
  "\<forall>s \<in> set ss. stmt_ends P n s \<Longrightarrow> finished (exec_list (meaning_of P n) local ss r st)"
  by (induction ss arbitrary: r st) (auto simp: stmt_ends_def intro!: ends)

lemma block_ends [ends]:
  "(\<And>ss. oss = Some ss \<Longrightarrow> \<forall>s \<in> set ss. stmt_ends P n s) \<Longrightarrow> finished (exec_block (meaning_of P n) local oss st)"
  by (auto simp: exec_block_def intro!: ends split: option.split)

lemma local_ends [ends]:
  "\<forall>s \<in> set ss. stmt_ends P n s \<Longrightarrow> finished (exec_local (meaning_of P n) ss st)"
  by (auto simp: exec_local_def intro!: ends split: prod.split)

lemma native_ends [ends]:
  assumes "\<And>vs env. finished (i vs env)" "\<And>es. params = Some es \<Longrightarrow> \<forall>e \<in> set es. expr_ends P n e"
  shows "finished (ExecuteNativeFunc (meaning_of P n) local i params st)"
  using assms by (auto simp: ExecuteNativeFunc_def intro!: ends split: option.split)

lemma function_ends [ends]:
  assumes "\<And>es. params = Some es \<Longrightarrow> \<forall>e \<in> set es. expr_ends P n e"
    and "\<And>ss. fn_statements f = Some ss \<Longrightarrow> \<forall>s \<in> set ss. stmt_ends P n s"
  shows "finished (ScriptFunction_Execute (meaning_of P n) local f params st)"
  using assms by (auto simp: ScriptFunction_Execute_def intro!: ends split: option.split prod.split)

lemma Computer_ends [ends]: "finished (Computer F a v w)"
  by (simp add: finished_iff)

text \<open>What the calls an expression may make must satisfy.\<close>

definition call_ends :: "('f, 's) program \<Rightarrow> nat \<Rightarrow> string \<Rightarrow> bool" where
  "call_ends P n name \<longleftrightarrow>
     (\<forall>f ss. FindFunction (script_functions P) name = Some f \<longrightarrow> fn_statements f = Some ss \<longrightarrow>
        (\<forall>s \<in> set ss. stmt_ends P n s))"

definition instructions_end :: "('f, 's) program \<Rightarrow> bool" where
  "instructions_end P \<longleftrightarrow>
     (\<forall>env name i vs env'. FindInstruction P env name = Some i \<longrightarrow> finished (i vs env'))"

lemma call_ends_mono: "call_ends P n name \<Longrightarrow> n \<le> m \<Longrightarrow> call_ends P m name"
  unfolding call_ends_def by (meson ends_mono(2))

lemma call_expression_ends:
  assumes "instructions_end P" "call_ends P n name" "\<And>es. params = Some es \<Longrightarrow> \<forall>e \<in> set es. expr_ends P n e"
  shows "expr_ends P (Suc n) (FunctionCall_Expression name params)"
  unfolding expr_ends_def meaning_of.simps exec_expr_def FunctionCall_Execute_def
  using assms
  by (auto simp: instructions_end_def call_ends_def intro!: ends split: option.split)

lemma other_expression_ends:
  "expr_ends P (Suc n) (Integer_Expression v)" "expr_ends P (Suc n) (Float_Expression x)"
  "expr_ends P (Suc n) (String_Expression t)" "expr_ends P (Suc n) (Identifier_Expression i)"
  "expr_ends P n e \<Longrightarrow> expr_ends P (Suc n) (Assign_Expression i ids e)"
  "(\<And>e. l = Some e \<Longrightarrow> expr_ends P n e) \<Longrightarrow> (\<And>e. r = Some e \<Longrightarrow> expr_ends P n e) \<Longrightarrow>
     expr_ends P (Suc n) (Binary_Expression a l r)"
  by (auto simp: expr_ends_def [of _ "Suc n"] exec_expr_def Assign_Execute_def Binary_Execute_def
      intro!: ends split: option.split) (auto simp: expr_ends_def)

lemma expressions_end:
  assumes "instructions_end P" "\<And>name. C name \<Longrightarrow> \<exists>n. call_ends P n name" "calls_ok C e"
  shows "\<exists>n. expr_ends P n e"
  using assms(2,3)
proof (induction C e rule: calls_ok.induct)
  case (1 C i ids e)
  then show ?case using other_expression_ends(5) by force
next
  case (2 C a l r)
  have "\<exists>n. \<forall>e \<in> set_option l \<union> set_option r. expr_ends P n e"
    using 2 by (intro ends_common) (auto intro: ends_mono(1) split: option.splits)
  then obtain n where "\<forall>e \<in> set_option l \<union> set_option r. expr_ends P n e" by blast
  then have "expr_ends P (Suc n) (Binary_Expression a l r)" by (intro other_expression_ends(6)) auto
  then show ?case by blast
next
  case (3 C name params)
  obtain m where m: "call_ends P m name" using 3(2) [of name] 3(3) by auto
  have "\<exists>n. \<forall>e \<in> (case params of None \<Rightarrow> {} | Some es \<Rightarrow> set es). expr_ends P n e"
    using 3 by (intro ends_common) (auto intro: ends_mono(1) split: option.splits)
  then obtain n where n: "\<forall>e \<in> (case params of None \<Rightarrow> {} | Some es \<Rightarrow> set es). expr_ends P n e" by blast
  have "expr_ends P (Suc (max m n)) (FunctionCall_Expression name params)"
    using assms(1) call_ends_mono [OF m, of "max m n"] n ends_mono(1) [of P n _ "max m n"]
    by (intro call_expression_ends) auto
  then show ?case by blast
qed (blast intro: other_expression_ends)+

lemma stmt_ends_if:
  assumes "expr_ends P n e" "\<And>ss. ts = Some ss \<Longrightarrow> \<forall>s \<in> set ss. stmt_ends P n s"
    and "\<And>ss. fs = Some ss \<Longrightarrow> \<forall>s \<in> set ss. stmt_ends P n s" "\<And>s. nx = Some s \<Longrightarrow> stmt_ends P n s"
  shows "stmt_ends P (Suc n) (If_Statement e ts fs nx)"
  using assms
  by (auto simp: stmt_ends_def [of _ "Suc n"] exec_stmt_def If_Execute_def intro!: ends split: option.split sum.split)
    (auto simp: expr_ends_def stmt_ends_def)

lemma UpdateStatementResult_ends [ends]: "finished (UpdateStatementResult r v)"
  by (auto simp: UpdateStatementResult_def split: option.split script_value.split)

lemma other_statement_ends:
  "stmt_ends P (Suc n) (Statement_Ctrl t)"
  "expr_ends P n e \<Longrightarrow> stmt_ends P (Suc n) (Expression_Statement e)"
  "(\<And>es. params = Some es \<Longrightarrow> \<forall>e \<in> set es. expr_ends P n e) \<Longrightarrow> stmt_ends P (Suc n) (Return_Statement params)"
  by (auto simp: stmt_ends_def [of _ "Suc n"] exec_stmt_def Return_Execute_def intro!: ends split: option.split)
    (auto simp: expr_ends_def)

lemma statements_end:
  assumes "instructions_end P" "\<And>name. C name \<Longrightarrow> \<exists>n. call_ends P n name" "loop_free C s"
  shows "\<exists>n. stmt_ends P n s"
  using assms(2,3)
proof (induction C s rule: loop_free.induct)
  case (2 C e)
  from 2(2) have "calls_ok C e" by simp
  then obtain n where "expr_ends P n e" using expressions_end [OF assms(1) 2(1), where e = e] by blast
  then show ?case by (blast intro: other_statement_ends(2))
next
  case (3 C e ts fs nx)
  let ?S = "(case ts of None \<Rightarrow> {} | Some ss \<Rightarrow> set ss) \<union> (case fs of None \<Rightarrow> {} | Some ss \<Rightarrow> set ss) \<union> set_option nx"
  from 3(5) have "calls_ok C e" by simp
  then obtain m where m: "expr_ends P m e" using expressions_end [OF assms(1) 3(4), where e = e] by blast
  have "\<exists>n. \<forall>s \<in> ?S. stmt_ends P n s"
    using 3 by (intro ends_common) (auto intro: ends_mono(2) split: option.splits)
  then obtain n where n: "\<forall>s \<in> ?S. stmt_ends P n s" by blast
  have "stmt_ends P (Suc (max m n)) (If_Statement e ts fs nx)"
    using ends_mono(1) [OF m, of "max m n"] n ends_mono(2) [of P n _ "max m n"] by (intro stmt_ends_if) auto
  then show ?case by blast
next
  case (6 C params)
  have "\<exists>n. expr_ends P n e" if "calls_ok C e" for e
    using expressions_end [OF assms(1) 6(1) that] .
  then have "\<exists>n. \<forall>e \<in> (case params of None \<Rightarrow> {} | Some es \<Rightarrow> set es). expr_ends P n e"
    using 6(2) by (intro ends_common) (auto intro: ends_mono(1) split: option.splits)
  then obtain n where "\<forall>e \<in> (case params of None \<Rightarrow> {} | Some es \<Rightarrow> set es). expr_ends P n e" by blast
  then have "stmt_ends P (Suc n) (Return_Statement params)" by (intro other_statement_ends(3)) auto
  then show ?case by blast
qed (auto intro: other_statement_ends)

text \<open>
  Every function is free of loops and calls only functions of a lower rank, so that none calls
  itself, directly or through others.
\<close>

definition ranked :: "(string \<Rightarrow> nat) \<Rightarrow> ('f, 's) program \<Rightarrow> bool" where
  "ranked rank P \<longleftrightarrow>
     (\<forall>f \<in> set (script_functions P). \<forall>ss. fn_statements f = Some ss \<longrightarrow>
        (\<forall>s \<in> set ss. loop_free (\<lambda>name. rank name < rank (functionName f)) s))"

lemma calls_end:
  assumes "instructions_end P" "ranked rank P"
  shows "\<exists>n. call_ends P n name"
proof (induction "rank name" arbitrary: name rule: less_induct)
  case less
  show ?case
  proof (cases "\<exists>f ss. FindFunction (script_functions P) name = Some f \<and> fn_statements f = Some ss")
    case True
    then obtain f ss where f: "FindFunction (script_functions P) name = Some f" "fn_statements f = Some ss" by blast
    then have "f \<in> set (script_functions P)" "functionName f = name"
      by (auto simp: FindFunction_def find_Some_iff)
    then have "\<forall>s \<in> set ss. loop_free (\<lambda>m. rank m < rank name) s" using assms(2) f(2) by (auto simp: ranked_def)
    then have "\<exists>n. \<forall>s \<in> set ss. stmt_ends P n s"
      using statements_end [OF assms(1), of "\<lambda>m. rank m < rank name"] less
      by (intro ends_common) (auto intro: ends_mono(2))
    then show ?thesis using f by (auto simp: call_ends_def)
  qed (auto simp: call_ends_def)
qed

text \<open>
  C26. A script without for and while statements whose functions do not call each other in a cycle
  always ends, provided that every instruction does: there is a bound on its length, the same for
  every environment it is started in.
\<close>

theorem script_terminates:
  assumes "instructions_end P" "ranked rank P" "\<forall>s \<in> set ss. loop_free (\<lambda>name. True) s"
  shows "\<exists>n. \<forall>env. Script_Execute P n (Some ss) env \<noteq> No_Fuel"
proof -
  have "\<exists>n. \<forall>s \<in> set ss. stmt_ends P n s"
    using statements_end [OF assms(1), of "\<lambda>name. True"] calls_end [OF assms(1,2)] assms(3)
    by (intro ends_common) (auto intro: ends_mono(2))
  then obtain n where "\<forall>s \<in> set ss. stmt_ends P n s" by blast
  then have "finished (Script_Execute P n (Some ss) env)" for env
    by (auto simp: Script_Execute_def intro!: ends split: prod.split)
  then show ?thesis by (auto simp: finished_iff)
qed

section \<open>Ways to go wrong\<close>

text \<open>The contexts an assignment can reach: the stack down to the first top context.\<close>

fun visible :: "'f script_context list \<Rightarrow> nat list \<Rightarrow> nat list" where
  "visible cs [] = []"
| "visible cs (c # stack) = c # (if is_top (cs ! c) then [] else visible cs stack)"

lemma update_one_sel:
  "is_top (Context_UpdateVariable c i v cs ! k) = is_top (cs ! k)"
  "length (Context_UpdateVariable c i v cs) = length cs"
  by (cases "c < length cs"; cases "c = k"; simp add: Context_UpdateVariable_def list_update_beyond)+

lemma visible_update: "visible (Context_UpdateVariable c i v cs) stack = visible cs stack"
  by (induction stack) (simp_all add: update_one_sel)

lemma update_one_variables:
  "k < length cs \<Longrightarrow> localVariables (Context_UpdateVariable c i v cs ! k) =
     (if k = c then (localVariables (cs ! k))(i \<mapsto> v) else localVariables (cs ! k))"
  by (auto simp: Context_UpdateVariable_def nth_list_update)

lemma update_in_stack_variables:
  assumes "k < length cs"
  shows "localVariables (update_in_stack cs stack i v ! k) =
    (if k \<in> set (visible cs stack) \<and> localVariables (cs ! k) i \<noteq> None then (localVariables (cs ! k))(i \<mapsto> v)
     else localVariables (cs ! k))"
  using assms
proof (induction cs stack i v rule: update_in_stack.induct)
  case (2 cs c stack i v)
  let ?cs = "if localVariables (cs ! c) i \<noteq> None then Context_UpdateVariable c i v cs else cs"
  have sel: "is_top (?cs ! c) = is_top (cs ! c)" "length ?cs = length cs" "visible ?cs stack = visible cs stack"
    by (simp_all add: update_one_sel visible_update)
  have vars: "localVariables (?cs ! k) =
      (if k = c \<and> localVariables (cs ! k) i \<noteq> None then (localVariables (cs ! k))(i \<mapsto> v) else localVariables (cs ! k))"
    using 2(2) by (auto simp: update_one_variables)
  show ?case
  proof (cases "is_top (cs ! c)")
    case True
    then show ?thesis using vars by (auto simp: Let_def)
  next
    case False
    then have "localVariables (update_in_stack cs (c # stack) i v ! k) = localVariables (update_in_stack ?cs stack i v ! k)"
      by (simp add: Let_def)
    also have "\<dots> = (if k \<in> set (visible cs stack) \<and> localVariables (?cs ! k) i \<noteq> None
        then (localVariables (?cs ! k))(i \<mapsto> v) else localVariables (?cs ! k))"
      using 2(1) [OF refl False] 2(2) sel by simp
    finally show ?thesis unfolding vars using False by auto
  qed
qed simp

lemma find_visible: "find_in_stack cs stack i \<noteq> None \<longleftrightarrow> (\<exists>c \<in> set (visible cs stack). localVariables (cs ! c) i \<noteq> None)"
  by (induction cs stack i rule: find_in_stack.induct) (auto split: option.splits)

text \<open>
  An assignment to a variable that is in scope writes it in every visible context that has one
  of that name, not only in the innermost: a function parameter or a variable of a block does
  not shadow the variable of the same name outside, it is assigned together with it.
\<close>

theorem assignment_reaches_outer_variables:
  assumes "run_expr (meaning_of P n) local e st = Done (Some v, st1)" "\<not> is_error v"
    and "k \<in> set (visible (contexts st1) (contextStack st1))" "k < length (contexts st1)"
    and "localVariables (contexts st1 ! k) i \<noteq> None"
  shows "\<exists>st'. run_expr (meaning_of P (Suc n)) local (Assign_Expression i ids e) st = Done (Some v, st') \<and>
    localVariables (contexts st' ! k) i = Some v"
proof -
  have "FindVariable st1 i \<noteq> None"
    unfolding FindVariable_def find_visible using assms(3,5) by blast
  then show ?thesis
    using assms update_in_stack_variables [of k "contexts st1" "contextStack st1" i v]
    by (auto simp: exec_expr_def Assign_Execute_def assign_value_def UpdateVariable_def)
qed

text \<open>The scripts of the examples; their floats are integers and they call no instruction.\<close>

definition demo_floats :: "int float_ops" where
  "demo_floats = \<lparr>f_of_int = (\<lambda>n. n), f_add = (+), f_sub = (-), f_mul = (*), f_div = (div), f_less = (<), f_le = (\<le>),
     f_eq = (=), f_abs = abs, f_epsilon = 1, f_to_int = Some, f_string = int_to_string, f_print = int_to_string\<rparr>"

text \<open>\<open>function f(a) { a = 2; }\<close>\<close>

definition demo_function :: "int script_function" where
  "demo_function = \<lparr>functionName = ''f'', fn_params = Some [Identifier_Expression ''a''],
     fn_statements = Some [Expression_Statement (Assign_Expression ''a'' [] (Integer_Expression 2))]\<rparr>"

definition demo_program :: "(int, unit) program" where
  "demo_program = \<lparr>ops = demo_floats, FindInstruction = (\<lambda>env name. None), script_functions = [demo_function]\<rparr>"

text \<open>\<open>a = 1; f(5);\<close>\<close>

definition demo_script :: "int statement list" where
  "demo_script =
     [Expression_Statement (Assign_Expression ''a'' [] (Integer_Expression 1)),
      Expression_Statement (FunctionCall_Expression ''f'' (Some [Integer_Expression 5]))]"

definition demo_stack :: "(int, unit) interp_state" where
  "demo_stack = \<lparr>contexts = [\<lparr>is_top = True, localVariables = [''a'' \<mapsto> Integer_Value 1]\<rparr>,
     \<lparr>is_top = False, localVariables = [''a'' \<mapsto> Integer_Value 5]\<rparr>], contextStack = [1, 0], script_env = ()\<rparr>"

theorem assignment_reaches_outer_variables_witness:
  "\<exists>st'. run_expr (meaning_of demo_program 2) 1 (Assign_Expression ''a'' [] (Integer_Expression 2)) demo_stack =
       Done (Some (Integer_Value 2), st') \<and>
     localVariables (contexts st' ! 0) ''a'' = Some (Integer_Value 2)"
  unfolding numeral_2_eq_2
  by (rule assignment_reaches_outer_variables [of _ _ _ _ _ _ demo_stack])
    (simp_all add: exec_expr_def demo_stack_def)

text \<open>The call \<open>f(5)\<close> of the example assigns the variable of its caller.\<close>

lemma demo_script_run:
  "case Script_Execute demo_program 8 (Some demo_script) () of
     Done (r, st) \<Rightarrow> r = 0 \<and> localVariables (contexts st ! 0) ''a'' = Some (Integer_Value 2)
   | _ \<Rightarrow> False"
  by code_simp

text \<open>
  An operation whose left operand is a failed call gives a null pointer, and assigning it
  dereferences that pointer: a script in which \<open>v = f() + w\<close> is executed when \<open>f\<close> fails ends in
  undefined behaviour instead of the error of \<open>f\<close>.
\<close>

theorem failed_operand_crashes:
  assumes "run_expr (meaning_of P n) local l st = Done (Some (Error_Value c), st1)" "c \<noteq> USCRIPT_SUCCESS"
    and "run_expr (meaning_of P n) local r st1 = Done (Some w, st2)"
  shows "run_expr (meaning_of P (Suc (Suc n))) local (Assign_Expression i ids (Binary_Expression action (Some l) (Some r))) st = Crash"
  using assms by (simp add: exec_expr_def Assign_Execute_def Binary_Execute_def run_option_def)

theorem failed_operand_crashes_witness:
  "run_expr (meaning_of demo_program 3) 0
     (Assign_Expression ''v'' [] (Binary_Expression ADD_OPERATOR (Some (FunctionCall_Expression ''g'' None))
        (Some (Integer_Expression 1)))) demo_stack = Crash"
  unfolding numeral_3_eq_3
  by (rule failed_operand_crashes [of demo_program "Suc 0" 0 _ demo_stack USCRIPT_NOTEXIST_INSTRUCTION demo_stack _ "Integer_Value 1" demo_stack])
    (simp_all add: exec_expr_def FunctionCall_Execute_def demo_program_def demo_function_def FindFunction_def)

text \<open>
  An instruction that succeeds returns a list, and a list is never true: the first branch of
  an if statement whose condition is the call of an instruction is not executed, whatever the
  instruction returns.
\<close>

theorem instruction_condition_never_holds:
  assumes "FindInstruction P (script_env st) name = Some instruction"
    and "run_expr (meaning_of P n) local (FunctionCall_Expression name params) st = Done (v, st1)"
  shows "run_stmt (meaning_of P (Suc n)) local
      (If_Statement (FunctionCall_Expression name params) trueStatements None None) st =
    Done (if \<exists>vs. v = Some (Return_Value vs) then new_result STATEMENT_RESULT_TYPE_NORMAL
          else error_result USCRIPT_INVALID_PARAM (new_result STATEMENT_RESULT_TYPE_NORMAL), st1)"
proof -
  obtain m where n: "n = Suc m" using assms(2) by (cases n) auto
  have "ExecuteNativeFunc (meaning_of P m) local instruction params st = Done (v, st1)"
    using assms by (simp add: n exec_expr_def FunctionCall_Execute_def)
  then have "(\<exists>vs. v = Some (Return_Value vs)) \<or> (\<exists>c. v = Some (Error_Value c))"
    by (auto simp: ExecuteNativeFunc_def seq_Done instruction_result_def split: option.splits prod.splits if_splits)
  then show ?thesis
    using assms(2) by (auto simp: exec_stmt_def If_Execute_def condition_value_def)
qed

definition demo_native :: "(int, unit) program" where
  "demo_native = \<lparr>ops = demo_floats, FindInstruction = (\<lambda>env name. Some (\<lambda>vs env. Done (0, [Integer_Value 1], env))),
     script_functions = []\<rparr>"

theorem instruction_condition_never_holds_witness:
  "run_stmt (meaning_of demo_native 2) 0
     (If_Statement (FunctionCall_Expression ''IsSubString'' None) (Some [Statement_Ctrl STATEMENT_TYPE_BREAK]) None None)
     demo_stack = Done (new_result STATEMENT_RESULT_TYPE_NORMAL, demo_stack)"
proof -
  have run: "run_expr (meaning_of demo_native 1) 0 (FunctionCall_Expression ''IsSubString'' None) demo_stack =
      Done (Some (Return_Value [Integer_Value 1]), demo_stack)"
    by (simp add: exec_expr_def FunctionCall_Execute_def demo_native_def ExecuteNativeFunc_def instruction_result_def)
  have "FindInstruction demo_native (script_env demo_stack) ''IsSubString'' = Some (\<lambda>vs env. Done (0, [Integer_Value 1], env))"
    by (simp add: demo_native_def)
  from instruction_condition_never_holds [OF this run] show ?thesis by (simp add: numeral_2_eq_2)
qed

theorem script_scoping_witness:
  "contextStack (snd (case run_stmt (meaning_of demo_program 8) 1 (demo_script ! 1) demo_stack of Done r \<Rightarrow> r)) = [1, 0]"
proof -
  obtain r st' where run: "run_stmt (meaning_of demo_program 8) 1 (demo_script ! 1) demo_stack = Done (r, st')"
  proof -
    have "case run_stmt (meaning_of demo_program 8) 1 (demo_script ! 1) demo_stack of Done r \<Rightarrow> True | _ \<Rightarrow> False"
      by code_simp
    then show ?thesis using that by (auto split: run.splits)
  qed
  from script_scoping [OF run] show ?thesis using run by (simp add: demo_stack_def)
qed

theorem script_fuel_witness:
  "Script_Execute demo_program 1000 (Some demo_script) () = Script_Execute demo_program 8 (Some demo_script) ()"
proof (rule script_fuel)
  show "Script_Execute demo_program 8 (Some demo_script) () \<noteq> No_Fuel"
    using demo_script_run by (cases "Script_Execute demo_program 8 (Some demo_script) ()") auto
qed simp

theorem script_terminates_witness:
  "\<exists>n. \<forall>env. Script_Execute demo_program n (Some demo_script) env \<noteq> No_Fuel"
  by (rule script_terminates [where rank = "\<lambda>name. 0"])
    (simp_all add: instructions_end_def ranked_def demo_program_def demo_function_def demo_script_def)

end
