(* ===== verification/Script_Builtins.thy ===== *)
theory Script_Builtins
  imports Script_Laws "HOL-Library.AList"
begin

text \<open>
  The instructions every script has and their registry: \<open>script_basicinstruction.cpp\<close>,
  \<open>script_updateprocesser.cpp\<close>, \<open>script_loadscript.cpp\<close>, \<open>script_registercmd.cpp\<close> and
  \<open>script_instructionhelper.cpp\<close> under \<open>src/services/script/script_instruction\<close>, and the
  registration functions of \<open>script_managerImpl.cpp\<close>. The dynamic linker, \<open>realpath\<close> and the
  instructions of user libraries are parameters.
\<close>

section \<open>Parameters of an instruction\<close>

datatype param_type = PARAM_TYPE_INTEGER | PARAM_TYPE_FLOAT | PARAM_TYPE_STRING | PARAM_TYPE_INVALID | PARAM_TYPE_OTHER

definition GetParamType :: "'f script_value list \<Rightarrow> nat \<Rightarrow> param_type" where
  "GetParamType vs i =
     (if length vs \<le> i then PARAM_TYPE_INVALID
      else case GetValueType (vs ! i) of
        VALUE_TYPE_INTEGER \<Rightarrow> PARAM_TYPE_INTEGER
      | VALUE_TYPE_FLOAT \<Rightarrow> PARAM_TYPE_FLOAT
      | VALUE_TYPE_STRING \<Rightarrow> PARAM_TYPE_STRING
      | _ \<Rightarrow> PARAM_TYPE_OTHER)"

text \<open>\<open>GetParam\<close> at the three types: the code of the failure, or the value.\<close>

definition GetParam :: "('f script_value \<Rightarrow> 'a option) \<Rightarrow> 'f script_value list \<Rightarrow> nat \<Rightarrow> int + 'a" where
  "GetParam as vs i =
     (if length vs \<le> i then Inl (-1)
      else case as (vs ! i) of None \<Rightarrow> Inl USCRIPT_INVALID_PARAM | Some x \<Rightarrow> Inr x)"

fun as_integer :: "'f script_value \<Rightarrow> int option" where
  "as_integer (Integer_Value n) = Some n"
| "as_integer _ = None"

fun as_float :: "'f script_value \<Rightarrow> 'f option" where
  "as_float (Float_Value x) = Some x"
| "as_float _ = None"

fun as_string :: "'f script_value \<Rightarrow> string option" where
  "as_string (String_Value s) = Some s"
| "as_string _ = None"

section \<open>The registry\<close>

datatype instruction_id =
    RegisterCmder | LoadScript | Stdout | Abort | Assert | Sleep | Concat | IsSubString | SetProgress
  | ShowProgress | UiPrint | DeleteFile_Instruction | SetProportion
  | User_Instruction string string

record 'f script_state =
  scriptInstructions :: "(string \<times> instruction_id) list"
  userInstrLibName :: string
  scriptFiles :: "string list list"
  posted :: "(string \<times> string) list"
  printed :: "string list"
  slept :: "int list"
  scriptProportion :: 'f
  disk :: world

record 'f script_externals =
  real_path :: "string \<Rightarrow> string option"
  has_factory :: "string \<Rightarrow> bool"
  create_instance :: "string \<Rightarrow> string \<Rightarrow> int \<times> bool"
  user_instruction :: "string \<Rightarrow> string \<Rightarrow> ('f, 'f script_state) instruction"
  in_package :: "string \<Rightarrow> bool"

definition Manager_AddInstruction :: "string \<Rightarrow> instruction_id \<Rightarrow> 'f script_state \<Rightarrow> 'f script_state" where
  "Manager_AddInstruction name i s = s\<lparr>scriptInstructions := AList.update name i (scriptInstructions s)\<rparr>"

definition reservedInstructions :: "string set" where
  "reservedInstructions =
     {''LoadScript'', ''RegisterCmd'', ''abort'', ''assert'', ''concat'', ''is_substring'', ''stdout'', ''sleep'',
      ''set_progress'', ''ui_print'', ''show_progress'', ''set_proportion''}"

definition IsReservedInstruction :: "string \<Rightarrow> bool" where
  "IsReservedInstruction name \<longleftrightarrow> name \<in> reservedInstructions"

definition Helper_AddInstruction :: "string \<Rightarrow> instruction_id \<Rightarrow> 'f script_state \<Rightarrow> int \<times> 'f script_state" where
  "Helper_AddInstruction name i s =
     (if IsReservedInstruction name then (USCRIPT_ERROR_REVERED, s)
      else (USCRIPT_SUCCESS, Manager_AddInstruction name i s))"

text \<open>\<open>DeleteDir\<close> is registered too; it works on directories the model of the disk does not have.\<close>

definition RegisterInstructions :: "'f script_state \<Rightarrow> 'f script_state" where
  "RegisterInstructions s =
     foldl (\<lambda>s (name, i). Manager_AddInstruction name i s) s
       [(''RegisterCmder'', RegisterCmder), (''LoadScript'', LoadScript), (''Stdout'', Stdout), (''Abort'', Abort),
        (''Assert'', Assert), (''Sleep'', Sleep), (''Concat'', Concat), (''IsSubString'', IsSubString),
        (''set_progress'', SetProgress), (''show_progress'', ShowProgress), (''ui_print'', UiPrint),
        (''DeleteFile'', DeleteFile_Instruction), (''set_proportion'', SetProportion)]"

definition RegisterAddInstruction ::
    "('f, 'm) script_externals_scheme \<Rightarrow> string \<Rightarrow> string \<Rightarrow> 'f script_state \<Rightarrow> int \<times> 'f script_state" where
  "RegisterAddInstruction X lib name s =
     (case create_instance X lib name of
        (ret, made) \<Rightarrow>
          if ret \<noteq> USCRIPT_SUCCESS \<or> \<not> made
          then (if ret = USCRIPT_SUCCESS then USCRIPT_ERROR_CREATE_OBJ else USCRIPT_NOTEXIST_INSTRUCTION, s)
          else Helper_AddInstruction name (User_Instruction lib name) s)"

definition RegisterUserInstruction ::
    "('f, 'm) script_externals_scheme \<Rightarrow> string \<Rightarrow> string \<Rightarrow> 'f script_state \<Rightarrow> int \<times> 'f script_state" where
  "RegisterUserInstruction X libName name s =
     (case real_path X libName of
        None \<Rightarrow> (USCRIPT_INVALID_PARAM, s)
      | Some lib \<Rightarrow>
          if userInstrLibName s \<noteq> [] \<and> userInstrLibName s \<noteq> lib then (USCRIPT_INVALID_PARAM, s)
          else let s1 = s\<lparr>userInstrLibName := lib\<rparr> in
            if \<not> has_factory X lib then (USCRIPT_INVALID_PARAM, s1) else RegisterAddInstruction X lib name s1)"

definition Manager_AddScript ::
    "('f, 'm) script_externals_scheme \<Rightarrow> string \<Rightarrow> int \<Rightarrow> 'f script_state \<Rightarrow> int \<times> 'f script_state" where
  "Manager_AddScript X name priority s =
     (if priority < 0 \<or> 4 \<le> priority then (USCRIPT_INVALID_PRIORITY, s)
      else if \<not> in_package X name then (USCRIPT_INVALID_SCRIPT, s)
      else (USCRIPT_SUCCESS,
        s\<lparr>scriptFiles := (scriptFiles s)[nat priority := scriptFiles s ! nat priority @ [name]]\<rparr>))"

section \<open>The instructions\<close>

type_synonym 'f effect = "(int \<times> 'f script_value list \<times> 'f script_state) run"

definition finish :: "int \<Rightarrow> 'f script_state \<Rightarrow> 'f effect" where
  "finish ret s = Done (ret, [], s)"

definition with_param :: "int + 'a \<Rightarrow> 'f script_state \<Rightarrow> ('a \<Rightarrow> 'f effect) \<Rightarrow> 'f effect" where
  "with_param p s f = (case p of Inl ret \<Rightarrow> finish ret s | Inr x \<Rightarrow> f x)"

definition Abort_Instruction_Execute :: "'f script_value list \<Rightarrow> 'f script_state \<Rightarrow> 'f effect" where
  "Abort_Instruction_Execute vs s =
     with_param (GetParam as_integer vs 0) s (\<lambda>n. finish (if n = 0 then USCRIPT_ABOART else USCRIPT_SUCCESS) s)"

definition Assert_Instruction_Execute :: "'f script_value list \<Rightarrow> 'f script_state \<Rightarrow> 'f effect" where
  "Assert_Instruction_Execute vs s =
     with_param (GetParam as_integer vs 0) s (\<lambda>n. finish (if n = 0 then USCRIPT_ASSERT else USCRIPT_SUCCESS) s)"

definition Sleep_Instruction_Execute :: "'f script_value list \<Rightarrow> 'f script_state \<Rightarrow> 'f effect" where
  "Sleep_Instruction_Execute vs s =
     with_param (GetParam as_integer vs 0) s (\<lambda>n. finish USCRIPT_SUCCESS (s\<lparr>slept := slept s @ [n]\<rparr>))"

text \<open>What \<open>Concat\<close> and \<open>Stdout\<close> make of a value; other types are passed over.\<close>

fun value_text :: "('f \<Rightarrow> string) \<Rightarrow> 'f script_value \<Rightarrow> string option" where
  "value_text pf (Integer_Value n) = Some (int_to_string n)"
| "value_text pf (Float_Value x) = Some (pf x)"
| "value_text pf (String_Value t) = Some t"
| "value_text pf v = None"

definition Concat_Instruction_Execute :: "'f float_ops \<Rightarrow> 'f script_value list \<Rightarrow> 'f script_state \<Rightarrow> 'f effect" where
  "Concat_Instruction_Execute F vs s =
     with_param (GetParam as_string vs 0) s (\<lambda>str.
       Done (USCRIPT_SUCCESS,
         [String_Value (str @ concat (map (\<lambda>v. case value_text (f_string F) v of None \<Rightarrow> [] | Some t \<Rightarrow> t) (tl vs)))], s))"

text \<open>\<open>std::string::find\<close> finds something.\<close>

fun has_substring :: "string \<Rightarrow> string \<Rightarrow> bool" where
  "has_substring sub [] = (sub = [])"
| "has_substring sub (c # cs) = (take (length sub) (c # cs) = sub \<or> has_substring sub cs)"

definition IsSubString_Instruction_Execute :: "'f script_value list \<Rightarrow> 'f script_state \<Rightarrow> 'f effect" where
  "IsSubString_Instruction_Execute vs s =
     with_param (GetParam as_string vs 0) s (\<lambda>str.
       with_param (GetParam as_string vs 1) s (\<lambda>subStr.
         Done (USCRIPT_SUCCESS, [Integer_Value (of_truth (has_substring subStr str))], s)))"

definition Stdout_Instruction_Execute :: "'f float_ops \<Rightarrow> 'f script_value list \<Rightarrow> 'f script_state \<Rightarrow> 'f effect" where
  "Stdout_Instruction_Execute F vs s =
     finish USCRIPT_SUCCESS (s\<lparr>printed := printed s @
       [concat (map (\<lambda>v. case value_text (f_print F) v of None \<Rightarrow> [] | Some t \<Rightarrow> t @ ''  '') vs)]\<rparr>)"

fun delete_each :: "'f script_value list \<Rightarrow> nat \<Rightarrow> 'f script_value list \<Rightarrow> 'f script_state \<Rightarrow> 'f effect" where
  "delete_each vs i [] s = finish USCRIPT_SUCCESS s"
| "delete_each vs i (v # rest) s =
     with_param (GetParam as_string vs i) s (\<lambda>file.
       case DeleteFile (disk s) file of
         (ret, w) \<Rightarrow>
           if ret \<noteq> USCRIPT_SUCCESS then finish ret (s\<lparr>disk := w\<rparr>) else delete_each vs (i + 1) rest (s\<lparr>disk := w\<rparr>))"

definition post_message :: "string \<Rightarrow> string \<Rightarrow> 'f script_state \<Rightarrow> 'f script_state" where
  "post_message cmd content s = s\<lparr>posted := posted s @ [(cmd, content)]\<rparr>"

definition SetProcess_Execute :: "'f float_ops \<Rightarrow> 'f script_value list \<Rightarrow> 'f script_state \<Rightarrow> 'f effect" where
  "SetProcess_Execute F vs s =
     with_param (GetParam as_float vs 0) s (\<lambda>x. finish USCRIPT_SUCCESS (post_message ''set_progress'' (f_print F x) s))"

definition ShowProcess_Execute :: "'f float_ops \<Rightarrow> 'f script_value list \<Rightarrow> 'f script_state \<Rightarrow> 'f effect" where
  "ShowProcess_Execute F vs s =
     with_param (GetParam as_float vs 0) s (\<lambda>x.
       with_param (GetParam as_float vs 1) s (\<lambda>y.
         finish USCRIPT_SUCCESS (post_message ''show_progress'' (f_print F x @ '','' @ f_print F y) s)))"

definition UiPrint_Execute :: "'f script_value list \<Rightarrow> 'f script_state \<Rightarrow> 'f effect" where
  "UiPrint_Execute vs s =
     with_param (GetParam as_string vs 0) s (\<lambda>t. finish USCRIPT_SUCCESS (post_message ''ui_log'' t s))"

definition SetProportion_Execute :: "'f script_value list \<Rightarrow> 'f script_state \<Rightarrow> 'f effect" where
  "SetProportion_Execute vs s =
     with_param (GetParam as_float vs 0) s (\<lambda>x. finish USCRIPT_SUCCESS (s\<lparr>scriptProportion := x\<rparr>))"

definition LoadScript_Execute ::
    "('f, 'm) script_externals_scheme \<Rightarrow> 'f script_value list \<Rightarrow> 'f script_state \<Rightarrow> 'f effect" where
  "LoadScript_Execute X vs s =
     with_param (GetParam as_string vs 0) s (\<lambda>name.
       with_param (GetParam as_integer vs 1) s (\<lambda>priority.
         case Manager_AddScript X name priority s of (ret, s') \<Rightarrow> finish ret s'))"

definition RegisterCmd_Execute ::
    "('f, 'm) script_externals_scheme \<Rightarrow> 'f script_value list \<Rightarrow> 'f script_state \<Rightarrow> 'f effect" where
  "RegisterCmd_Execute X vs s =
     with_param (GetParam as_string vs 0) s (\<lambda>name.
       with_param (GetParam as_string vs 1) s (\<lambda>lib.
         case RegisterUserInstruction X lib name s of (ret, s') \<Rightarrow> finish ret s'))"

definition instruction_of ::
    "'f float_ops \<Rightarrow> ('f, 'm) script_externals_scheme \<Rightarrow> instruction_id \<Rightarrow> ('f, 'f script_state) instruction" where
  "instruction_of F X i =
     (case i of
        RegisterCmder \<Rightarrow> RegisterCmd_Execute X
      | LoadScript \<Rightarrow> LoadScript_Execute X
      | Stdout \<Rightarrow> Stdout_Instruction_Execute F
      | Abort \<Rightarrow> Abort_Instruction_Execute
      | Assert \<Rightarrow> Assert_Instruction_Execute
      | Sleep \<Rightarrow> Sleep_Instruction_Execute
      | Concat \<Rightarrow> Concat_Instruction_Execute F
      | IsSubString \<Rightarrow> IsSubString_Instruction_Execute
      | SetProgress \<Rightarrow> SetProcess_Execute F
      | ShowProgress \<Rightarrow> ShowProcess_Execute F
      | UiPrint \<Rightarrow> UiPrint_Execute
      | DeleteFile_Instruction \<Rightarrow> (\<lambda>vs. delete_each vs 0 vs)
      | SetProportion \<Rightarrow> SetProportion_Execute
      | User_Instruction lib name \<Rightarrow> user_instruction X lib name)"

definition Manager_FindInstruction ::
    "'f float_ops \<Rightarrow> ('f, 'm) script_externals_scheme \<Rightarrow> 'f script_state \<Rightarrow> string \<Rightarrow> ('f, 'f script_state) instruction option" where
  "Manager_FindInstruction F X s name = map_option (instruction_of F X) (map_of (scriptInstructions s) name)"

definition script_program ::
    "'f float_ops \<Rightarrow> ('f, 'm) script_externals_scheme \<Rightarrow> 'f script_function list \<Rightarrow> ('f, 'f script_state) program" where
  "script_program F X fs = \<lparr>ops = F, FindInstruction = Manager_FindInstruction F X, script_functions = fs\<rparr>"

section \<open>Properties\<close>

lemma finished_basic [simp]: "finished (finish ret s)"
  by (simp add: finish_def)

lemma finished_param [simp]: "(\<And>x. finished (f x)) \<Longrightarrow> finished (with_param p s f)"
  by (simp add: with_param_def split: sum.split)

lemma finished_delete [simp]: "finished (delete_each vs i rest s)"
  by (induction rest arbitrary: i s) (auto intro!: finished_param split: prod.split)

text \<open>The instructions of the program itself always return, and so does every user instruction that does.\<close>

lemma builtins_end:
  assumes "\<And>lib name vs s. finished (user_instruction X lib name vs s)"
  shows "instructions_end (script_program F X fs)"
proof -
  have "finished (instruction_of F X i vs s)" for i vs s
    using assms
    by (cases i) (auto simp: instruction_of_def RegisterCmd_Execute_def LoadScript_Execute_def Stdout_Instruction_Execute_def
        Abort_Instruction_Execute_def Assert_Instruction_Execute_def Sleep_Instruction_Execute_def
        Concat_Instruction_Execute_def IsSubString_Instruction_Execute_def SetProcess_Execute_def ShowProcess_Execute_def
        UiPrint_Execute_def SetProportion_Execute_def split: prod.split)
  then show ?thesis by (auto simp: instructions_end_def script_program_def Manager_FindInstruction_def)
qed

lemma has_substring_iff: "has_substring sub s \<longleftrightarrow> (\<exists>a b. s = a @ sub @ b)"
proof (induction s)
  case (Cons c cs)
  have "take (length sub) (c # cs) = sub \<longleftrightarrow> (\<exists>b. c # cs = sub @ b)"
    by (metis append_eq_conv_conj append_take_drop_id)
  moreover have "(\<exists>a b. c # cs = a @ sub @ b) \<longleftrightarrow> (\<exists>b. c # cs = sub @ b) \<or> (\<exists>a b. cs = a @ sub @ b)"
    by (metis append_Cons append_Nil neq_Nil_conv list.inject)
  ultimately show ?case using Cons by simp
qed simp

text \<open>
  The names that are reserved are not the names the built-in instructions have: a user library
  may register an instruction under the name of \<open>Abort\<close> or \<open>Assert\<close>, the registration succeeds and
  the scripts that follow run the instruction of the library in place of the built-in one.
\<close>

theorem builtin_can_be_replaced:
  assumes "real_path X libName = Some lib" "userInstrLibName s \<in> {[], lib}" "has_factory X lib"
    and "create_instance X lib name = (USCRIPT_SUCCESS, True)"
    and "name \<in> {''Abort'', ''Assert'', ''Stdout'', ''Sleep'', ''Concat'', ''IsSubString'', ''RegisterCmder'', ''DeleteFile''}"
  shows "\<exists>s'. RegisterUserInstruction X libName name s = (USCRIPT_SUCCESS, s') \<and>
    Manager_FindInstruction F X s' name = Some (user_instruction X lib name)"
proof -
  have "\<not> IsReservedInstruction name"
    using assms(5) by (auto simp: IsReservedInstruction_def reservedInstructions_def)
  then show ?thesis
    using assms(1-4)
    by (auto simp: RegisterUserInstruction_def RegisterAddInstruction_def Helper_AddInstruction_def
        Manager_AddInstruction_def Manager_FindInstruction_def instruction_of_def AList.update_conv')
qed

definition demo_externals :: "int script_externals" where
  "demo_externals = \<lparr>real_path = Some, has_factory = (\<lambda>lib. True), create_instance = (\<lambda>lib name. (0, True)),
     user_instruction = (\<lambda>lib name vs s. Done (0, [], s)), in_package = (\<lambda>name. True)\<rparr>"

definition demo_script_state :: "int script_state" where
  "demo_script_state = RegisterInstructions \<lparr>scriptInstructions = [], userInstrLibName = [], scriptFiles = [[], [], [], []],
     posted = [], printed = [], slept = [], scriptProportion = 1,
     disk = \<lparr>objs = [], dirs = [], is_dev = (\<lambda>p. False), fds = (\<lambda>f. None), next_fd = 3, faults = [], errno = EOK\<rparr>\<rparr>"

theorem builtin_can_be_replaced_witness:
  "\<exists>s'. RegisterUserInstruction demo_externals ''lib.so'' ''Assert'' demo_script_state = (USCRIPT_SUCCESS, s') \<and>
     Manager_FindInstruction demo_floats demo_externals s' ''Assert'' = Some (\<lambda>vs s. Done (0, [], s))"
  using builtin_can_be_replaced [of demo_externals "''lib.so''" "''lib.so''" demo_script_state "''Assert''" demo_floats]
  by (simp add: demo_externals_def demo_script_state_def RegisterInstructions_def Manager_AddInstruction_def)

end
