(* ===== verification/Pkg_Utils.thy ===== *)
theory Pkg_Utils
  imports Bs_Codec
begin

text \<open>
  The byte-order, text and date helpers of the package component
  (\<open>src/services/package/pkg_manager/pkg_utils.cpp\<close> and the two conversions of
  \<open>pkg_package/pkg_pkgfile.cpp\<close>). A read at a position outside the buffer is None.
\<close>

section \<open>Little-endian numbers\<close>

definition ReadLE16 :: "bytes \<Rightarrow> nat \<Rightarrow> u16 option" where
  "ReadLE16 b i =
     (if i + 2 \<le> length b then Some (ucast (b ! i) + push_bit 8 (ucast (b ! (i + 1)))) else None)"

definition ReadLE32 :: "bytes \<Rightarrow> nat \<Rightarrow> u32 option" where
  "ReadLE32 b i =
     (if i + 4 \<le> length b
      then Some (ucast (b ! i) + push_bit 8 (ucast (b ! (i + 1))) + push_bit 16 (ucast (b ! (i + 2)))
             + push_bit 24 (ucast (b ! (i + 3))))
      else None)"

definition pkg_ReadLE64 :: "bytes \<Rightarrow> nat \<Rightarrow> u64 option" where
  "pkg_ReadLE64 b i =
     (case ReadLE32 b i of None \<Rightarrow> None
      | Some low \<Rightarrow> (case ReadLE32 b (i + 4) of None \<Rightarrow> None
        | Some high \<Rightarrow> Some (push_bit 32 (ucast high) OR ucast low)))"

text \<open>The bytes the two writers store.\<close>

definition WriteLE16 :: "u16 \<Rightarrow> bytes" where
  "WriteLE16 v = [ucast v, ucast (drop_bit 8 v)]"

definition WriteLE32 :: "u32 \<Rightarrow> bytes" where
  "WriteLE32 v = [ucast v, ucast (drop_bit 8 v), ucast (drop_bit 16 v), ucast (drop_bit 24 v)]"

section \<open>Text in fixed-size fields\<close>

text \<open>The characters up to the first one that is not printable are appended.\<close>

fun ConvertBufferToString :: "bytes \<Rightarrow> bytes \<Rightarrow> bytes" where
  "ConvertBufferToString name [] = name"
| "ConvertBufferToString name (b # bs) =
     (if b < 32 \<or> 127 \<le> b then name else ConvertBufferToString (name @ [b]) bs)"

text \<open>None is \<open>PKG_INVALID_PARAM\<close>.\<close>

definition ConvertStringToBuffer :: "bytes \<Rightarrow> bytes \<Rightarrow> bytes option" where
  "ConvertStringToBuffer name buf = (if length buf < length name then None else Some (name @ drop (length name) buf))"

definition hexChars :: string where
  "hexChars = ''0123456789abcdef''"

definition ConvertShaHex :: "bytes \<Rightarrow> string" where
  "ConvertShaHex shaDigest =
     concat (map (\<lambda>d. [hexChars ! unat (drop_bit 4 d AND 0xf), hexChars ! unat (d AND 0xf)]) shaDigest)"

section \<open>File names\<close>

definition find_last_of :: "char \<Rightarrow> string \<Rightarrow> nat option" where
  "find_last_of c s = (case filter (\<lambda>i. s ! i = c) [0..<length s] of [] \<Rightarrow> None | is \<Rightarrow> Some (last is))"

definition GetFilePath :: "string \<Rightarrow> string" where
  "GetFilePath fileName =
     (case find_last_of CHR ''/'' fileName of
        Some pos \<Rightarrow> take (pos + 1) fileName
      | None \<Rightarrow> (case find_last_of CHR 0x5C fileName of
          Some pos \<Rightarrow> take (pos + 1) fileName
        | None \<Rightarrow> []))"

text \<open>\<open>find_last_of\<close> of a string without a slash is the largest \<open>size_t\<close>, and one more is 0.\<close>

definition GetName :: "string \<Rightarrow> string" where
  "GetName filePath = (case find_last_of CHR ''/'' filePath of None \<Rightarrow> filePath | Some pos \<Rightarrow> drop (pos + 1) filePath)"

section \<open>Dates of archive entries\<close>

record local_time =
  tm_year :: int
  tm_mon :: int
  tm_mday :: int
  tm_hour :: int
  tm_min :: int
  tm_sec :: int

text \<open>\<open>localtime\<close> is the C function, for the time zone of the device; the result is date and time.\<close>

definition ExtraTimeAndDate :: "(int \<Rightarrow> local_time) \<Rightarrow> int \<Rightarrow> u16 \<times> u16" where
  "ExtraTimeAndDate localtime when =
     (let now = localtime ((when + 1) div 2 * 2);
          year = (if tm_year now < 80 then 80 else tm_year now);
          date = push_bit 9 (of_int (year - 80)) OR push_bit 5 (of_int (tm_mon now + 1)) OR of_int (tm_mday now);
          time = push_bit 11 (of_int (tm_hour now)) OR push_bit 5 (of_int (tm_min now)) OR drop_bit 1 (of_int (tm_sec now))
      in (date, time))"

section \<open>Facts\<close>

lemma unat_byte: "unat (x :: u8) < 256"
  using unsigned_less [of x] by simp

lemma unat_ucast_u8:
  "unat (ucast (x :: u8) :: u16) = unat x" "unat (ucast x :: u32) = unat x" "unat (ucast x :: u64) = unat x"
  using unat_byte [of x] by (simp_all add: unsigned_ucast_eq take_bit_nat_eq_self)

lemma slice_first: "i < length b \<Longrightarrow> slice i (Suc n) b = b ! i # slice (Suc i) n b"
  by (simp add: slice_def Cons_nth_drop_Suc [symmetric])

lemma unat_ReadLE16:
  assumes "ReadLE16 b i = Some v"
  shows "i + 2 \<le> length b \<and> unat v = le_value (slice i 2 b)"
proof -
  have i: "i + 2 \<le> length b" and v: "v = ucast (b ! i) + push_bit 8 (ucast (b ! (i + 1)))"
    using assms by (auto simp: ReadLE16_def split: if_splits)
  have "slice i 2 b = [b ! i, b ! (i + 1)]"
    using i by (simp add: numeral_2_eq_2 slice_first)
  then show ?thesis
    using i unat_byte [of "b ! i"] unat_byte [of "b ! (i + 1)"] unfolding v
    by (simp add: unat_word_ariths push_bit_eq_mult unat_ucast_u8)
qed

lemma unat_ReadLE32:
  assumes "ReadLE32 b i = Some v"
  shows "i + 4 \<le> length b \<and> unat v = le_value (slice i 4 b)"
proof -
  have i: "i + 4 \<le> length b" and v: "v = ucast (b ! i) + push_bit 8 (ucast (b ! (i + 1)))
      + push_bit 16 (ucast (b ! (i + 2))) + push_bit 24 (ucast (b ! (i + 3)))"
    using assms by (auto simp: ReadLE32_def split: if_splits)
  have "slice i 4 b = [b ! i, b ! (i + 1), b ! (i + 2), b ! (i + 3)]"
    using i by (simp add: numeral_eq_Suc slice_first)
  then show ?thesis
    using i unat_byte [of "b ! i"] unat_byte [of "b ! (i + 1)"] unat_byte [of "b ! (i + 2)"] unat_byte [of "b ! (i + 3)"]
    unfolding v by (simp add: unat_word_ariths push_bit_eq_mult unat_ucast_u8)
qed

lemma ReadLE16_WriteLE16: "ReadLE16 (xs @ WriteLE16 v @ ys) (length xs) = Some v"
proof -
  let ?w = "ucast (ucast v :: u8) + push_bit 8 (ucast (ucast (drop_bit 8 v) :: u8)) :: u16"
  have "?w = v"
  proof (rule unsigned_word_eqI [where 'a = nat])
    have "unat v < 65536" using unsigned_less [of v] by simp
    then show "unat ?w = unat v"
      by (simp add: unat_word_ariths push_bit_eq_mult unat_ucast_u8 unsigned_ucast_eq take_bit_eq_mod
          unsigned_drop_bit_eq drop_bit_eq_div)
  qed
  then show ?thesis by (simp add: ReadLE16_def WriteLE16_def nth_append)
qed

lemma ReadLE32_WriteLE32: "ReadLE32 (xs @ WriteLE32 v @ ys) (length xs) = Some v"
proof -
  let ?w = "ucast (ucast v :: u8) + push_bit 8 (ucast (ucast (drop_bit 8 v) :: u8))
      + push_bit 16 (ucast (ucast (drop_bit 16 v) :: u8)) + push_bit 24 (ucast (ucast (drop_bit 24 v) :: u8)) :: u32"
  have "?w = v"
  proof (rule unsigned_word_eqI [where 'a = nat])
    have b: "unat v < 4294967296" using unsigned_less [of v] by simp
    have bytes: "n mod 256 + (n div 256 mod 256) * 256 + (n div 65536 mod 256) * 65536 + (n div 16777216 mod 256) * 16777216 = n"
      if "n < 4294967296" for n :: nat
    proof -
      have d: "n div 256 div 256 = n div 65536" "n div 65536 div 256 = n div 16777216"
        by (simp_all add: div_mult2_eq [symmetric])
      have m: "n div 16777216 mod 256 = n div 16777216" using that by simp
      have e: "k mod 256 + k div 256 * 256 = k" for k :: nat by simp
      show ?thesis
        unfolding m using e [of n] e [of "n div 256", unfolded d] e [of "n div 65536", unfolded d] by linarith
    qed
    show "unat ?w = unat v"
      using b bytes [OF b]
      by (simp add: unat_word_ariths push_bit_eq_mult unat_ucast_u8 unsigned_ucast_eq take_bit_eq_mod
          unsigned_drop_bit_eq drop_bit_eq_div)
  qed
  then show ?thesis by (simp add: ReadLE32_def WriteLE32_def nth_append)
qed

text \<open>A printable name that fits is read back from the field it is stored in.\<close>

definition printable :: "bytes \<Rightarrow> bool" where
  "printable name \<longleftrightarrow> (\<forall>b \<in> set name. 32 \<le> b \<and> b < 127)"

lemma ConvertBufferToString_append: "ConvertBufferToString name xs = name @ takeWhile (\<lambda>b. 32 \<le> b \<and> b < 127) xs"
  by (induction name xs rule: ConvertBufferToString.induct) auto

lemma ConvertBufferToString_field:
  assumes "printable name" "ConvertStringToBuffer name (replicate n 0) = Some buf"
  shows "ConvertBufferToString [] buf = name \<and> length buf = n"
proof -
  have "length name \<le> n" "buf = name @ replicate (n - length name) 0"
    using assms(2) by (auto simp: ConvertStringToBuffer_def split: if_splits)
  moreover have "takeWhile P (replicate k x) = []" if "\<not> P x" for P k and x :: u8
    using that by (cases k) simp_all
  ultimately show ?thesis
    using assms(1) by (simp add: ConvertBufferToString_append printable_def takeWhile_append)
qed

end
