(* ===== verification/Pkg_Stream.thy ===== *)
theory Pkg_Stream
  imports Bs_Codec
begin

text \<open>
  The streams packages are read from (\<open>src/services/package/pkg_manager/pkg_stream.cpp\<close>):
  \<open>FileStream\<close>, \<open>MemoryMapStream\<close> and \<open>FlowDataStream\<close>, the last on the blocks that \<open>Pop\<close> of the
  ring buffer delivers. The locale \<open>package_stream\<close> is what the package parser relies on; each
  stream provides it.
\<close>

section \<open>Results\<close>

abbreviation (input) PKG_SUCCESS :: int where "PKG_SUCCESS \<equiv> 0"
abbreviation (input) PKG_INVALID_PARAM :: int where "PKG_INVALID_PARAM \<equiv> 102"
abbreviation (input) PKG_INVALID_FILE :: int where "PKG_INVALID_FILE \<equiv> 103"
abbreviation (input) PKG_INVALID_SIGNATURE :: int where "PKG_INVALID_SIGNATURE \<equiv> 104"
abbreviation (input) PKG_INVALID_PKG_FORMAT :: int where "PKG_INVALID_PKG_FORMAT \<equiv> 105"
abbreviation (input) PKG_INVALID_DIGEST :: int where "PKG_INVALID_DIGEST \<equiv> 107"
abbreviation (input) PKG_INVALID_STREAM :: int where "PKG_INVALID_STREAM \<equiv> 108"
abbreviation (input) PKG_INVALID_STATE :: int where "PKG_INVALID_STATE \<equiv> 110"
abbreviation (input) PKG_NONE_MEMORY :: int where "PKG_NONE_MEMORY \<equiv> 113"

text \<open>
  A read into a buffer of its own that is large enough (\<open>PkgBuffer (needRead)\<close>, empty when nothing
  is asked for): the code of the failure, or the bytes read (\<open>readLen\<close> is their number), and the
  stream afterwards.
\<close>

type_synonym 's stream_read = "'s \<Rightarrow> nat \<Rightarrow> nat \<Rightarrow> (int + bytes) \<times> 's"

section \<open>FileStream\<close>

text \<open>
  The file is its contents and the position of the C stream; \<open>fread\<close> delivers what there is. The
  length is determined once and kept; 0 stands for not determined. Determining it moves the position
  of the stream to the beginning.
\<close>

record file_stream =
  stream_open :: bool
  file_bytes :: bytes
  file_pos :: nat
  fileLength :: nat
  writable :: bool

definition FileStream_GetFileLength :: "file_stream \<Rightarrow> nat \<times> file_stream" where
  "FileStream_GetFileLength f =
     (if \<not> stream_open f then (0, f)
      else if fileLength f = 0 then (length (file_bytes f), f\<lparr>fileLength := length (file_bytes f), file_pos := 0\<rparr>)
      else (fileLength f, f))"

definition FileStream_Read :: "file_stream stream_read" where
  "FileStream_Read f start needRead =
     (if \<not> stream_open f then (Inl PKG_INVALID_STREAM, f)
      else case FileStream_GetFileLength (f\<lparr>file_pos := start\<rparr>) of (len, f1) \<Rightarrow>
        if len < start then (Inl PKG_INVALID_STREAM, f1)
        else let xs = slice (file_pos f1) needRead (file_bytes f1); f2 = f1\<lparr>file_pos := file_pos f1 + length xs\<rparr>
             in if xs = [] then (Inl PKG_INVALID_STREAM, f2) else (Inr xs, f2))"

definition FileStream_Write :: "file_stream \<Rightarrow> bytes \<Rightarrow> nat \<Rightarrow> int \<times> file_stream" where
  "FileStream_Write f xs start =
     (if \<not> writable f \<or> \<not> stream_open f then (PKG_INVALID_STREAM, f)
      else if xs = [] then (PKG_INVALID_STREAM, f\<lparr>file_pos := start\<rparr>)
      else (PKG_SUCCESS,
        f\<lparr>file_bytes := blit start xs (file_bytes f @ replicate (start + length xs - length (file_bytes f)) 0),
          file_pos := start + length xs\<rparr>))"

section \<open>MemoryMapStream\<close>

record memory_stream =
  memMap :: "bytes option"
  currOffset :: nat

definition memSize :: "memory_stream \<Rightarrow> nat" where
  "memSize m = (case memMap m of None \<Rightarrow> 0 | Some d \<Rightarrow> length d)"

definition MemoryMapStream_Read :: "memory_stream stream_read" where
  "MemoryMapStream_Read m start needRead =
     (case memMap m of
        None \<Rightarrow> (Inl PKG_INVALID_STREAM, m)
      | Some d \<Rightarrow>
          if length d < start then (Inl PKG_INVALID_STREAM, m)
          else let copyLen = length d - start; readLen = (if needRead < copyLen then needRead else copyLen)
               in if needRead = 0 then (Inr [], m)
               else case memcpy_s (replicate needRead 0) needRead (slice start readLen d) readLen of
                 None \<Rightarrow> (Inl PKG_NONE_MEMORY, m)
               | Some b \<Rightarrow> (Inr (take readLen b), m))"

definition MemoryMapStream_Write :: "memory_stream \<Rightarrow> bytes \<Rightarrow> nat \<Rightarrow> nat \<Rightarrow> int \<times> memory_stream" where
  "MemoryMapStream_Write m data sz start =
     (case memMap m of
        None \<Rightarrow> (PKG_INVALID_STREAM, m)
      | Some d \<Rightarrow>
          if length d < start then (PKG_INVALID_STREAM, m)
          else let m1 = m\<lparr>currOffset := start\<rparr>;
                   copyLen = (if SECUREC_MEM_MAX_LEN < length d - start then SECUREC_MEM_MAX_LEN else length d - start)
               in if copyLen < sz then (PKG_INVALID_STREAM, m1)
                  else case memcpy_s (drop start d) copyLen data sz of
                      None \<Rightarrow> (PKG_INVALID_STREAM, m1)
                    | Some rest \<Rightarrow> (PKG_SUCCESS, m1\<lparr>memMap := Some (take start d @ rest)\<rparr>))"

datatype whence = SEEK_SET | SEEK_CUR | SEEK_END

text \<open>A negative offset cast to \<open>size_t\<close> is larger than any size.\<close>

definition MemoryMapStream_Seek :: "memory_stream \<Rightarrow> int \<Rightarrow> whence \<Rightarrow> int \<times> memory_stream" where
  "MemoryMapStream_Seek m off wh =
     (let as_size = nat (off mod 2 ^ 64) in
      case wh of
        SEEK_SET \<Rightarrow>
          if off < 0 \<or> memSize m < as_size then (PKG_INVALID_STREAM, m)
          else (PKG_SUCCESS, m\<lparr>currOffset := as_size\<rparr>)
      | SEEK_CUR \<Rightarrow>
          if memSize m - currOffset m < as_size then (PKG_INVALID_STREAM, m)
          else (PKG_SUCCESS, m\<lparr>currOffset := currOffset m + as_size\<rparr>)
      | SEEK_END \<Rightarrow>
          if 0 < off \<or> int (memSize m) + off < 0 then (PKG_INVALID_STREAM, m)
          else (PKG_SUCCESS, m\<lparr>currOffset := nat (int (memSize m) + off)\<rparr>))"

section \<open>FlowDataStream\<close>

text \<open>
  \<open>pops\<close> are the blocks the ring buffer will deliver; when they run out \<open>Pop\<close> fails, because the
  producer has stopped. The block being read is \<open>block\<close>, of which \<open>avail\<close> bytes from \<open>bufOffset\<close> on
  are left.
\<close>

record flow_stream =
  pops :: "bytes list"
  block :: bytes
  bufOffset :: nat
  avail :: nat
  readOffset :: nat

definition ReadFromRingBuf :: "flow_stream \<Rightarrow> nat \<Rightarrow> (bytes \<times> flow_stream) option" where
  "ReadFromRingBuf s need =
     (let needLen = unat (of_nat need :: u32);
          popped = (if avail s = 0
                    then (case pops s of [] \<Rightarrow> None | b # bs \<Rightarrow> Some (s\<lparr>pops := bs, block := b, avail := length b\<rparr>))
                    else Some s)
      in case popped of
           None \<Rightarrow> None
         | Some s1 \<Rightarrow>
             let readLen = (if needLen \<le> avail s1 then needLen else avail s1); left = avail s1 - readLen
             in Some (slice (bufOffset s1) readLen (block s1),
                  s1\<lparr>avail := left, bufOffset := (if left = 0 then 0 else bufOffset s1 + readLen)\<rparr>))"

function flow_loop :: "flow_stream \<Rightarrow> nat \<Rightarrow> bytes \<Rightarrow> (int + bytes) \<times> flow_stream" where
  "flow_loop s needRead got =
     (if needRead \<le> length got then (Inr got, s)
      else case ReadFromRingBuf s (needRead - length got) of
          None \<Rightarrow> (Inl PKG_INVALID_STREAM, s)
        | Some (xs, s1) \<Rightarrow> if xs = [] then (Inl PKG_INVALID_STREAM, s1) else flow_loop s1 needRead (got @ xs))"
  by pat_completeness auto
termination
  by (relation "measure (\<lambda>(s, needRead, got). needRead - length got)") (auto intro!: diff_less_mono2)

declare flow_loop.simps [simp del]

definition FlowDataStream_Read :: "flow_stream stream_read" where
  "FlowDataStream_Read s start needRead =
     (if readOffset s \<noteq> start then (Inl PKG_INVALID_STREAM, s)
      else case flow_loop s needRead [] of
          (Inl e, s1) \<Rightarrow> (Inl e, s1)
        | (Inr xs, s1) \<Rightarrow> (Inr xs, s1\<lparr>readOffset := readOffset s1 + needRead\<rparr>))"

section \<open>What a reader may rely on\<close>

text \<open>
  A reader asks for the length of the stream before it reads, which may change the stream
  (\<open>measure\<close>). From then on a read that succeeds delivers the bytes of the content at the given
  position: all that were asked for, or all there are.
\<close>

locale package_stream =
  fixes stream_read :: "'s stream_read"
    and measure_length :: "'s \<Rightarrow> 's"
    and fresh :: "bytes \<Rightarrow> 's \<Rightarrow> bool"
    and valid :: "bytes \<Rightarrow> 's \<Rightarrow> bool"
  assumes measured: "fresh content s \<Longrightarrow> valid content (measure_length s)"
    and read_valid: "valid content s \<Longrightarrow> stream_read s start need = (r, s') \<Longrightarrow> r = Inr xs \<Longrightarrow> valid content s'"
    and read_bytes: "valid content s \<Longrightarrow> stream_read s start need = (Inr xs, s') \<Longrightarrow>
      start \<le> length content \<and> xs = slice start need content"

definition file_fresh :: "bytes \<Rightarrow> file_stream \<Rightarrow> bool" where
  "file_fresh content f \<longleftrightarrow> stream_open f \<and> file_bytes f = content \<and> content \<noteq> [] \<and> fileLength f \<in> {0, length content}"

definition file_valid :: "bytes \<Rightarrow> file_stream \<Rightarrow> bool" where
  "file_valid content f \<longleftrightarrow> stream_open f \<and> file_bytes f = content \<and> content \<noteq> [] \<and> fileLength f = length content"

interpretation regular: package_stream FileStream_Read "\<lambda>f. snd (FileStream_GetFileLength f)" file_fresh file_valid
  by unfold_locales
    (auto simp: FileStream_Read_def file_valid_def file_fresh_def FileStream_GetFileLength_def Let_def split: if_splits)

text \<open>
  The first read of a file stream whose length is not known yet: determining the length moves the
  position that has just been set back to the beginning.
\<close>

lemma FileStream_Read_unmeasured:
  assumes "stream_open f" "fileLength f = 0" "start \<le> length (file_bytes f)" "file_bytes f \<noteq> []" "0 < need"
  shows "fst (FileStream_Read f start need) = Inr (take need (file_bytes f))"
  using assms by (simp add: FileStream_Read_def FileStream_GetFileLength_def Let_def slice_def)

definition memory_valid :: "bytes \<Rightarrow> memory_stream \<Rightarrow> bool" where
  "memory_valid content m \<longleftrightarrow> memMap m = Some content"

lemma slice_short: "length ys - p \<le> n \<Longrightarrow> slice p (length ys - p) ys = slice p n ys"
  by (simp add: slice_def)

interpretation mapped: package_stream MemoryMapStream_Read id memory_valid memory_valid
proof
  show "memory_valid content m \<Longrightarrow> memory_valid content (id m)" for content m by simp
next
  fix content m start need r m' and xs :: bytes
  assume valid: "memory_valid content m" and read: "MemoryMapStream_Read m start need = (r, m')"
  then show "memory_valid content m'"
    by (auto simp: MemoryMapStream_Read_def memory_valid_def Let_def split: if_splits option.splits)
next
  fix content m start need xs m'
  assume valid: "memory_valid content m" and read: "MemoryMapStream_Read m start need = (Inr xs, m')"
  then have "start \<le> length content" "xs = slice start (if need < length content - start then need else length content - start) content"
    by (auto simp: MemoryMapStream_Read_def memory_valid_def memcpy_s_def Let_def min_def split: if_splits option.splits)
  then show "start \<le> length content \<and> xs = slice start need content"
    using slice_short [of content start need] by (auto split: if_splits)
qed

text \<open>What is still to come from a flow stream.\<close>

definition remaining :: "flow_stream \<Rightarrow> bytes" where
  "remaining s = slice (bufOffset s) (avail s) (block s) @ concat (pops s)"

definition flow_wf :: "flow_stream \<Rightarrow> bool" where
  "flow_wf s \<longleftrightarrow> bufOffset s + avail s \<le> length (block s) \<and> (avail s = 0 \<longrightarrow> bufOffset s = 0)"

definition flow_valid :: "bytes \<Rightarrow> flow_stream \<Rightarrow> bool" where
  "flow_valid content s \<longleftrightarrow> flow_wf s \<and> readOffset s \<le> length content \<and> drop (readOffset s) content = remaining s"

lemma ReadFromRingBuf_spec:
  assumes "flow_wf s" "ReadFromRingBuf s need = Some (xs, s')"
  shows "flow_wf s' \<and> remaining s = xs @ remaining s' \<and> length xs \<le> need \<and> readOffset s' = readOffset s"
proof -
  obtain s1 where s1: "flow_wf s1" "remaining s1 = remaining s" "readOffset s1 = readOffset s"
    and xs: "xs = slice (bufOffset s1) (min (unat (of_nat need :: u32)) (avail s1)) (block s1)"
    and s': "s' = s1\<lparr>avail := avail s1 - min (unat (of_nat need :: u32)) (avail s1),
      bufOffset := (if avail s1 - min (unat (of_nat need :: u32)) (avail s1) = 0 then 0
                    else bufOffset s1 + min (unat (of_nat need :: u32)) (avail s1))\<rparr>"
  proof (cases "avail s = 0")
    case True
    then obtain b bs where b: "pops s = b # bs" using assms(2) by (auto simp: ReadFromRingBuf_def split: list.splits)
    let ?s1 = "s\<lparr>pops := bs, block := b, avail := length b\<rparr>"
    show thesis
    proof (rule that [of ?s1])
      show "flow_wf ?s1" using assms(1) True by (simp add: flow_wf_def)
      show "remaining ?s1 = remaining s" using assms(1) True b by (simp add: remaining_def flow_wf_def slice_def)
    qed (use assms True b in \<open>auto simp: ReadFromRingBuf_def Let_def min_def\<close>)
  next
    case False
    show thesis
      by (rule that [of s]) (use assms False in \<open>auto simp: ReadFromRingBuf_def Let_def min_def\<close>)
  qed
  let ?n = "min (unat (of_nat need :: u32)) (avail s1)"
  have n: "?n \<le> need" "?n \<le> avail s1" by (simp_all add: min.coboundedI1 unat_of_nat)
  have "slice (bufOffset s1) (avail s1) (block s1) =
      slice (bufOffset s1) ?n (block s1) @ slice (bufOffset s1 + ?n) (avail s1 - ?n) (block s1)"
    using slice_append_split [of "bufOffset s1" ?n "avail s1 - ?n" "block s1"] n by simp
  then have "remaining s1 = xs @ remaining s'"
    unfolding remaining_def xs s' by (simp add: slice_def)
  moreover have "flow_wf s'" using s1(1) n unfolding s' flow_wf_def by auto
  moreover have "length xs \<le> need" using n(1) unfolding xs by simp
  ultimately show ?thesis using s1 unfolding s' by simp
qed

lemma flow_loop_spec:
  assumes "flow_wf s" "flow_loop s needRead got = (Inr xs, s')" "length got \<le> needRead"
  shows "flow_wf s' \<and> got @ remaining s = xs @ remaining s' \<and> length xs = needRead \<and> readOffset s' = readOffset s"
  using assms
proof (induction s needRead got rule: flow_loop.induct)
  case (1 s needRead got)
  show ?case
  proof (cases "needRead \<le> length got")
    case True
    then show ?thesis using 1(2-) by (simp add: flow_loop.simps)
  next
    case False
    then obtain ys s1 where r: "ReadFromRingBuf s (needRead - length got) = Some (ys, s1)" "ys \<noteq> []"
        "flow_loop s1 needRead (got @ ys) = (Inr xs, s')"
      using 1(3) by (subst (asm) flow_loop.simps) (auto split: option.splits if_splits)
    have spec: "flow_wf s1" "remaining s = ys @ remaining s1" "length ys \<le> needRead - length got" "readOffset s1 = readOffset s"
      using ReadFromRingBuf_spec [OF 1(2) r(1)] by simp_all
    have "length (got @ ys) \<le> needRead" using spec(3) False by simp
    from 1(1) [OF False r(1) refl r(2) spec(1) r(3) this] show ?thesis using spec by simp
  qed
qed

lemma flow_read:
  assumes "flow_valid content s" "FlowDataStream_Read s start need = (Inr xs, s')"
  shows "flow_valid content s' \<and> start \<le> length content \<and> xs = slice start need content"
proof -
  obtain s1 where r: "flow_loop s need [] = (Inr xs, s1)" "s' = s1\<lparr>readOffset := readOffset s1 + need\<rparr>" "readOffset s = start"
    using assms(2) by (auto simp: FlowDataStream_Read_def split: if_splits prod.splits sum.splits)
  have v: "flow_wf s" "start \<le> length content" "drop start content = remaining s"
    using assms(1) r(3) by (auto simp: flow_valid_def)
  have l: "flow_wf s1" "remaining s = xs @ remaining s1" "length xs = need" "readOffset s1 = start"
    using flow_loop_spec [OF v(1) r(1)] r(3) by simp_all
  have "length content - start = need + length (remaining s1)"
    using arg_cong [OF v(3), of length] l(2,3) by simp
  then have "start + need \<le> length content" using v(2) by arith
  moreover have "drop (start + need) content = remaining s1"
    using v(3) l(2,3) by (metis add.commute append_eq_conv_conj drop_drop)
  moreover have "xs = slice start need content"
    unfolding slice_def v(3) l(2) using l(3) by simp
  moreover have "flow_wf s'" "remaining s' = remaining s1"
    using l(1) unfolding r(2) by (simp_all add: flow_wf_def remaining_def)
  ultimately show ?thesis using v(2) l(4) unfolding r(2) flow_valid_def by simp
qed

interpretation flowing: package_stream FlowDataStream_Read id flow_valid flow_valid
  by unfold_locales (simp, use flow_read in blast, use flow_read in blast)

end
