(* ===== verification/Pkg_Upgrade.thy ===== *)
theory Pkg_Upgrade
  imports Pkg_Utils Pkg_Stream
begin

text \<open>
  Loading an update package (\<open>UpgradePkgFile::LoadPackage\<close> and everything it calls in
  \<open>src/services/package/pkg_package/pkg_upgradefile.cpp\<close>): the header, the component table, the
  chunk information of streamed packages, the image hashes and the signature.

  A step is a function from the state of the package file to a result and a new state. The digest
  algorithm is represented by the bytes it has been given since \<open>Init\<close> (\<open>digested\<close>); \<open>parsedLen\<close>, which
  the code passes by reference, is part of the state. Reading a buffer outside its bounds is the
  result \<open>Out_Of_Bounds\<close>: what a C++ program does then is not defined. A read is only started at a
  position that is not past the end of the file, so \<open>parsedLen\<close> does not wrap and is a natural
  number; the offsets of the components come from the file, wrap, and are words.
\<close>

section \<open>State\<close>

record comp_entry =
  nodeId :: nat
  identity :: bytes
  comp_version :: bytes
  packedSize :: u64
  unpackedSize :: u64
  originalSize :: u64
  comp_id :: u16
  resType :: u8
  compFlags :: u8
  comp_type :: u8
  comp_digest :: bytes
  headerOffset :: nat
  dataOffset :: u64

datatype pkg_state = PKG_FILE_STATE_IDLE | PKG_FILE_STATE_WORKING | PKG_FILE_STATE_CLOSE

abbreviation (input) PKG_DIGEST_TYPE_SHA256 :: nat where "PKG_DIGEST_TYPE_SHA256 \<equiv> 2"
abbreviation (input) PKG_DIGEST_TYPE_SHA384 :: nat where "PKG_DIGEST_TYPE_SHA384 \<equiv> 3"

record ('s, 'h) upgrade_file =
  pkgStream :: 's
  pkgState :: pkg_state
  nodeCount :: nat
  parsedLen :: nat
  digested :: bytes
  digestMethod :: nat
  updateFileVersion :: nat
  updateFileType :: nat
  softwareVersion :: bytes
  productUpdateId :: bytes
  pkgDate :: bytes
  pkgTime :: bytes
  descriptPackageId :: bytes
  entryCount :: nat
  updateFileHeadLen :: nat
  entries :: "comp_entry list"
  components :: "bytes list"
  chunkListCount :: u32
  chunkListSize :: u64
  partitionNum :: nat
  imageSizeMap :: "bytes \<Rightarrow> u64 option"
  imageHashMap :: "bytes \<Rightarrow> bytes option"
  hashCheck :: "'h option"

text \<open>A package file on a stream, before anything is loaded.\<close>

definition new_upgrade_file :: "'s \<Rightarrow> ('s, 'h) upgrade_file" where
  "new_upgrade_file st = \<lparr>pkgStream = st, pkgState = PKG_FILE_STATE_IDLE, nodeCount = 0, parsedLen = 0, digested = [],
     digestMethod = PKG_DIGEST_TYPE_SHA256, updateFileVersion = 0, updateFileType = 0, softwareVersion = [], productUpdateId = [],
     pkgDate = [], pkgTime = [], descriptPackageId = [], entryCount = 0, updateFileHeadLen = 0, entries = [],
     components = [], chunkListCount = 0, chunkListSize = 0, partitionNum = 0, imageSizeMap = Map.empty,
     imageHashMap = Map.empty, hashCheck = None\<rparr>"

text \<open>
  What the package file uses: its stream, whose length is asked for first (\<open>measure_stream\<close> is what
  that does to the stream), the SHA-256 of the bytes digested, the verifier passed to
  \<open>LoadPackage\<close> (None is the null function; it gets the digest method of the package information,
  the digest and the signature), the PKCS7 verification of a signature, which also delivers the
  signed digest, the update mode and the loaders of the image hash table, which are written in Rust.
\<close>

record ('s, 'h) pkg_env =
  stream_Read :: "'s stream_read"
  measure_stream :: "'s \<Rightarrow> 's"
  GetFileLength :: nat
  sha256 :: "bytes \<Rightarrow> bytes"
  verifier :: "(nat \<Rightarrow> bytes \<Rightarrow> bytes \<Rightarrow> int) option"
  Pkcs7verify :: "bytes \<Rightarrow> int \<times> bytes"
  CheckUpdateMode :: "string \<Rightarrow> bool"
  LoadImgHashData :: "bytes \<Rightarrow> 'h option"
  LoadImgHashDataNew :: "bytes \<Rightarrow> 'h option"

text \<open>\<open>Endless\<close> is the result of a loop cut off by its fuel.\<close>

datatype 'a outcome = Ok 'a | Err int | Out_Of_Bounds | Endless

type_synonym ('s, 'h, 'a) load = "('s, 'h) upgrade_file \<Rightarrow> 'a outcome \<times> ('s, 'h) upgrade_file"

section \<open>Steps\<close>

definition ok :: "'a \<Rightarrow> ('s, 'h, 'a) load" where
  "ok a = (\<lambda>s. (Ok a, s))"

definition failing :: "int \<Rightarrow> ('s, 'h, 'a) load" where
  "failing e = (\<lambda>s. (Err e, s))"

definition andThen :: "('s, 'h, 'a) load \<Rightarrow> ('a \<Rightarrow> ('s, 'h, 'b) load) \<Rightarrow> ('s, 'h, 'b) load" where
  "andThen m f = (\<lambda>s.
     case m s of
       (Ok a, s') \<Rightarrow> f a s'
     | (Err e, s') \<Rightarrow> (Err e, s')
     | (Out_Of_Bounds, s') \<Rightarrow> (Out_Of_Bounds, s')
     | (Endless, s') \<Rightarrow> (Endless, s'))"

definition checked :: "'a option \<Rightarrow> ('s, 'h, 'a) load" where
  "checked x = (\<lambda>s. (case x of None \<Rightarrow> Out_Of_Bounds | Some a \<Rightarrow> Ok a, s))"

definition modify :: "(('s, 'h) upgrade_file \<Rightarrow> ('s, 'h) upgrade_file) \<Rightarrow> ('s, 'h, unit) load" where
  "modify f = (\<lambda>s. (Ok (), f s))"

definition with_state :: "(('s, 'h) upgrade_file \<Rightarrow> ('s, 'h, 'a) load) \<Rightarrow> ('s, 'h, 'a) load" where
  "with_state f = (\<lambda>s. f s s)"

definition failing_as :: "int \<Rightarrow> ('s, 'h, 'a) load \<Rightarrow> ('s, 'h, 'a) load" where
  "failing_as e m = (\<lambda>s. case m s of (Err _, s') \<Rightarrow> (Err e, s') | r \<Rightarrow> r)"

text \<open>\<open>pkgStream_->Read (buffer, start, buffer.length, readLen)\<close>: the buffer and the number of bytes read.\<close>

definition read_buffer :: "('s, 'h) pkg_env \<Rightarrow> bytes \<Rightarrow> nat \<Rightarrow> ('s, 'h, bytes \<times> nat) load" where
  "read_buffer env buf start = (\<lambda>s.
     case stream_Read env (pkgStream s) start (length buf) of
       (Inl e, st) \<Rightarrow> (Err e, s\<lparr>pkgStream := st\<rparr>)
     | (Inr xs, st) \<Rightarrow> (Ok (xs @ drop (length xs) buf, length xs), s\<lparr>pkgStream := st\<rparr>))"

abbreviation PkgBuffer :: "nat \<Rightarrow> bytes" where
  "PkgBuffer n \<equiv> replicate n 0"

text \<open>\<open>algorithm->Update (buffer, n)\<close>\<close>

definition Update :: "bytes \<Rightarrow> nat \<Rightarrow> ('s, 'h, unit) load" where
  "Update buf n =
     (if n \<le> length buf then modify (\<lambda>s. s\<lparr>digested := digested s @ take n buf\<rparr>) else checked None)"

definition advance :: "nat \<Rightarrow> ('s, 'h, unit) load" where
  "advance n = modify (\<lambda>s. s\<lparr>parsedLen := parsedLen s + n\<rparr>)"

definition AddDataOffset :: "nat \<Rightarrow> ('s, 'h, unit) load" where
  "AddDataOffset n = modify (\<lambda>s. s\<lparr>entries := map (\<lambda>e. e\<lparr>dataOffset := dataOffset e + of_nat n\<rparr>) (entries s)\<rparr>)"

text \<open>\<open>ConvertBufferToString\<close> on a field of a buffer: it stops at the first byte that is not printable.\<close>

definition field_string :: "bytes \<Rightarrow> bytes \<Rightarrow> nat \<Rightarrow> nat \<Rightarrow> bytes option" where
  "field_string name buf i n =
     (if i + n \<le> length buf \<or> \<not> printable (slice i n buf) then Some (ConvertBufferToString name (slice i n buf)) else None)"

section \<open>The header\<close>

abbreviation (input) SIZEOF_TLV :: nat where "SIZEOF_TLV \<equiv> 4"
abbreviation (input) SIZEOF_COMP_INFO :: nat where "SIZEOF_COMP_INFO \<equiv> 87"
abbreviation (input) UPGRADE_FILE_HEADER_LEN :: nat where "UPGRADE_FILE_HEADER_LEN \<equiv> 180"
abbreviation (input) UPGRADE_FILE_BASIC_LEN :: nat where "UPGRADE_FILE_BASIC_LEN \<equiv> 176"
abbreviation (input) UPGRADE_RESERVE_LEN :: nat where "UPGRADE_RESERVE_LEN \<equiv> 16"
abbreviation (input) SIGN_SHA256_LEN :: nat where "SIGN_SHA256_LEN \<equiv> 256"
abbreviation (input) SIGN_SHA384_LEN :: nat where "SIGN_SHA384_LEN \<equiv> 384"

definition GetUpgradeSignatureLen :: nat where
  "GetUpgradeSignatureLen = SIGN_SHA256_LEN + SIGN_SHA384_LEN"

text \<open>The macro \<open>TLV_CHECK_AND_RETURN\<close>.\<close>

definition tlv_check :: "u16 \<times> u16 \<Rightarrow> nat \<Rightarrow> nat \<Rightarrow> nat \<Rightarrow> bool" where
  "tlv_check tlv tlvType len fileLen \<longleftrightarrow>
     unat (snd tlv) < fileLen \<and> len \<le> unat (snd tlv) \<and> unat (fst tlv) = tlvType \<and> unat (snd tlv) + SIZEOF_TLV < fileLen"

definition read_tlv :: "bytes \<Rightarrow> nat \<Rightarrow> ('s, 'h, u16 \<times> u16) load" where
  "read_tlv buf i = andThen (checked (ReadLE16 buf i)) (\<lambda>ty. andThen (checked (ReadLE16 buf (i + 2))) (\<lambda>len. ok (ty, len)))"

text \<open>
  The fields of the header behind the first TLV: the version at offset 4, the type at 6, the
  product at 8 and the software version at 72.
\<close>

definition ParsePkgHeaderToTlv :: "bytes \<Rightarrow> ('s, 'h, nat \<times> u16 \<times> u16) load" where
  "ParsePkgHeaderToTlv buffer =
     andThen (modify (\<lambda>s. s\<lparr>digestMethod := PKG_DIGEST_TYPE_SHA256\<rparr>)) (\<lambda>_.
     andThen (read_tlv buffer 0) (\<lambda>tlv.
     andThen (if fst tlv = 0x11 then modify (\<lambda>s. s\<lparr>digestMethod := PKG_DIGEST_TYPE_SHA384\<rparr>) else ok ()) (\<lambda>_.
     andThen (checked (ReadLE16 buffer (SIZEOF_TLV + 4))) (\<lambda>ver.
     andThen (checked (ReadLE16 buffer (SIZEOF_TLV + 6))) (\<lambda>ty. with_state (\<lambda>s.
     andThen (checked (field_string (softwareVersion s) buffer (SIZEOF_TLV + 72) 64)) (\<lambda>sw.
     andThen (checked (field_string (productUpdateId s) buffer (SIZEOF_TLV + 8) 64)) (\<lambda>prod.
     andThen (modify (\<lambda>s. s\<lparr>updateFileVersion := unat ver, updateFileType := unat ty,
                softwareVersion := sw, productUpdateId := prod\<rparr>)) (\<lambda>_.
     ok (SIZEOF_TLV, tlv))))))))))"

text \<open>The time TLV at \<open>currLen\<close> of the buffer, at the end of \<open>ReadUpgradePkgHeader\<close>.\<close>

definition read_time_tlv :: "('s, 'h) pkg_env \<Rightarrow> bytes \<Rightarrow> nat \<Rightarrow> ('s, 'h, unit) load" where
  "read_time_tlv env buffer currLen =
     andThen (read_tlv buffer currLen) (\<lambda>tlv.
     if \<not> tlv_check tlv 2 32 (GetFileLength env) then failing PKG_INVALID_FILE
     else with_state (\<lambda>s.
       andThen (checked (field_string (pkgDate s) buffer (currLen + SIZEOF_TLV) 16)) (\<lambda>d.
       andThen (checked (field_string (pkgTime s) buffer (currLen + SIZEOF_TLV + 16) 16)) (\<lambda>t.
       let currLen' = currLen + SIZEOF_TLV + unat (snd tlv) in
       andThen (modify (\<lambda>s. s\<lparr>pkgDate := d, pkgTime := t, parsedLen := parsedLen s + currLen'\<rparr>)) (\<lambda>_.
       Update buffer currLen')))))"

definition ReadUpgradePkgHeader :: "('s, 'h) pkg_env \<Rightarrow> ('s, 'h, unit) load" where
  "ReadUpgradePkgHeader env =
     andThen (read_buffer env (PkgBuffer UPGRADE_FILE_BASIC_LEN) 0) (\<lambda>(buffer, readLen).
     andThen (ParsePkgHeaderToTlv buffer) (\<lambda>(currLen, tlv).
     andThen (modify (\<lambda>s. s\<lparr>digested := []\<rparr>)) (\<lambda>_.
     if readLen \<le> currLen + unat (snd tlv)
     then let realLen = currLen + unat (snd tlv) in
       andThen (modify (\<lambda>s. s\<lparr>parsedLen := realLen\<rparr>)) (\<lambda>_.
       andThen (Update buffer realLen) (\<lambda>_.
       andThen (read_buffer env buffer realLen) (\<lambda>(buffer, readLen).
       read_time_tlv env buffer 0)))
     else read_time_tlv env buffer (currLen + unat (snd tlv)))))"

section \<open>The component table\<close>

text \<open>
  The component structure: address (32 bytes), id, resType, flags, type, version (10 bytes), size,
  originalSize, digest (32 bytes). From version 3 on the two sizes are one of 64 bits.
\<close>

definition DecodeHeader :: "nat \<Rightarrow> nat \<Rightarrow> bytes \<Rightarrow> nat \<Rightarrow> u64 \<Rightarrow> comp_entry outcome" where
  "DecodeHeader ver node buffer hoff doff =
     (if length buffer < SIZEOF_COMP_INFO then Err PKG_INVALID_PKG_FORMAT
      else case (pkg_ReadLE64 buffer 47, ReadLE32 buffer 47, ReadLE32 buffer 51, ReadLE16 buffer 32) of
        (Some size64, Some size32, Some orig, Some cid) \<Rightarrow>
          let packed = (if 3 \<le> ver then size64 else ucast size32)
          in Ok \<lparr>nodeId = node, identity = ConvertBufferToString [] (slice 0 32 buffer),
              comp_version = ConvertBufferToString [] (slice 37 10 buffer),
              packedSize = packed, unpackedSize = packed,
              originalSize = (if 3 \<le> ver then 0 else ucast orig),
              comp_id = cid, resType = buffer ! 34, compFlags = buffer ! 35, comp_type = buffer ! 36,
              comp_digest = slice 55 32 buffer, headerOffset = hoff, dataOffset = doff\<rparr>
      | _ \<Rightarrow> Out_Of_Bounds)"

definition GetUpGradeCompInfo :: "comp_entry \<Rightarrow> (bytes \<times> bytes) option" where
  "GetUpGradeCompInfo e =
     (case ConvertStringToBuffer (identity e) (PkgBuffer 32) of
        None \<Rightarrow> None
      | Some address \<Rightarrow> (case ConvertStringToBuffer (comp_version e) (PkgBuffer 10) of
          None \<Rightarrow> None
        | Some version \<Rightarrow> Some (address, version)))"

text \<open>The structure \<open>EncodeHeader\<close> writes; None is \<open>PKG_INVALID_PARAM\<close>.\<close>

definition EncodeHeader :: "comp_entry \<Rightarrow> bytes option" where
  "EncodeHeader e =
     (case GetUpGradeCompInfo e of
        None \<Rightarrow> None
      | Some (address, version) \<Rightarrow>
          Some (address @ WriteLE16 (comp_id e) @ [resType e, compFlags e, comp_type e] @ version
            @ WriteLE32 (ucast (unpackedSize e)) @ WriteLE32 (ucast (originalSize e)) @ comp_digest e))"

text \<open>\<open>SaveEntry\<close> with the fields of its \<open>UpgradeParam\<close>; its result is the size of the component.\<close>

definition SaveEntry :: "bytes \<Rightarrow> nat \<Rightarrow> nat \<Rightarrow> nat \<Rightarrow> u64 \<Rightarrow> ('s, 'h, u64) load" where
  "SaveEntry buffer currLen readLen srcOffset doff = with_state (\<lambda>s.
     andThen (modify (\<lambda>s. s\<lparr>nodeCount := nodeCount s + 1\<rparr>)) (\<lambda>_.
     case DecodeHeader (updateFileVersion s) (nodeCount s) (slice currLen (readLen - currLen) buffer)
            (parsedLen s + srcOffset) doff of
       Ok e \<Rightarrow>
         andThen (modify (\<lambda>s. s\<lparr>entries := entries s @ [e], components := components s @ [identity e]\<rparr>)) (\<lambda>_.
         andThen (Update (drop currLen buffer) SIZEOF_COMP_INFO) (\<lambda>_.
         andThen (modify (\<lambda>s. s\<lparr>entryCount := entryCount s + 1\<rparr>)) (\<lambda>_.
         ok (packedSize e))))
     | Err c \<Rightarrow> failing c
     | _ \<Rightarrow> checked None))"

text \<open>The loop over the table; its result is the final \<open>srcOffset\<close>.\<close>

function components_loop ::
    "('s, 'h) pkg_env \<Rightarrow> nat \<Rightarrow> nat \<Rightarrow> u64 \<Rightarrow> nat \<Rightarrow> nat \<Rightarrow> bytes \<Rightarrow> ('s, 'h, nat) load" where
  "components_loop env tlvLen srcOffset doff currLen readLen compBuffer =
     (if tlvLen \<le> srcOffset then ok srcOffset
      else with_state (\<lambda>s.
        let again = readLen < currLen + SIZEOF_COMP_INFO in
        andThen (if again then read_buffer env compBuffer (parsedLen s + srcOffset) else ok (compBuffer, readLen))
          (\<lambda>(compBuffer, readLen).
        let currLen = (if again then 0 else currLen) in
        andThen (SaveEntry compBuffer currLen readLen srcOffset doff) (\<lambda>packed.
        components_loop env tlvLen (srcOffset + SIZEOF_COMP_INFO) (doff + packed) (currLen + SIZEOF_COMP_INFO)
          readLen compBuffer))))"
  by pat_completeness auto
termination
  by (relation "measure (\<lambda>(env, tlvLen, srcOffset, _). tlvLen - srcOffset)") auto

declare components_loop.simps [simp del]

definition ReadComponents :: "('s, 'h) pkg_env \<Rightarrow> ('s, 'h, unit) load" where
  "ReadComponents env = with_state (\<lambda>s.
     andThen (read_buffer env (PkgBuffer SIZEOF_TLV) (parsedLen s)) (\<lambda>(buffer, readLen).
     andThen (read_tlv buffer 0) (\<lambda>tlv.
     if \<not> tlv_check tlv 5 SIZEOF_COMP_INFO (GetFileLength env) then failing PKG_INVALID_FILE
     else
       andThen (Update buffer SIZEOF_TLV) (\<lambda>_.
       andThen (advance SIZEOF_TLV) (\<lambda>_. with_state (\<lambda>s.
       andThen (components_loop env (unat (snd tlv)) 0 (of_nat (parsedLen s + unat (snd tlv) + UPGRADE_RESERVE_LEN))
                  SIZEOF_TLV readLen (PkgBuffer SIZEOF_COMP_INFO)) (\<lambda>srcOffset.
       advance srcOffset)))))))"

section \<open>Chunk information\<close>

abbreviation (input) CHUNK_LIST_INFO :: nat where "CHUNK_LIST_INFO \<equiv> 0x10"
abbreviation (input) CHUNK_PARTITION_NUM :: nat where "CHUNK_PARTITION_NUM \<equiv> 0x16"
abbreviation (input) CHUNK_HASH_PARTITION :: nat where "CHUNK_HASH_PARTITION \<equiv> 0x17"
abbreviation (input) CHUNK_IMAGE_HASH :: nat where "CHUNK_IMAGE_HASH \<equiv> 0x18"
abbreviation (input) CHUNK_IMAGE_SIZE :: nat where "CHUNK_IMAGE_SIZE \<equiv> 0x19"
abbreviation (input) CHUNK_PARTITION_NAME :: nat where "CHUNK_PARTITION_NAME \<equiv> 0x20"

text \<open>
  \<open>ReadChunkTlv\<close> for a chunk header of \<open>hlen\<close> bytes, two of them the type; the structure is read
  from memory, on a little-endian machine. The result is the value.
\<close>

definition ReadChunkTlv :: "('s, 'h) pkg_env \<Rightarrow> nat \<Rightarrow> nat \<Rightarrow> ('s, 'h, bytes) load" where
  "ReadChunkTlv env hlen expectedType = with_state (\<lambda>s.
     andThen (read_buffer env (PkgBuffer hlen) (parsedLen s)) (\<lambda>(tlBuffer, _).
     andThen (advance hlen) (\<lambda>_.
     andThen (Update tlBuffer hlen) (\<lambda>_.
     if le_value (take 2 tlBuffer) \<noteq> expectedType then failing PKG_INVALID_PKG_FORMAT
     else let len = le_value (slice 2 (hlen - 2) tlBuffer) in with_state (\<lambda>s.
       andThen (read_buffer env (PkgBuffer len) (parsedLen s)) (\<lambda>(buffer, _).
       andThen (advance len) (\<lambda>_.
       andThen (Update buffer len) (\<lambda>_. ok buffer))))))))"

definition ReadChunkListInfo :: "('s, 'h) pkg_env \<Rightarrow> ('s, 'h, unit) load" where
  "ReadChunkListInfo env =
     andThen (failing_as PKG_INVALID_PKG_FORMAT (ReadChunkTlv env 6 CHUNK_LIST_INFO)) (\<lambda>buffer.
     andThen (checked (ReadLE32 buffer 0)) (\<lambda>count.
     andThen (checked (pkg_ReadLE64 buffer 4)) (\<lambda>listSize.
     modify (\<lambda>s. s\<lparr>chunkListCount := count, chunkListSize := listSize\<rparr>))))"

definition ReadPartitionNumChunk :: "('s, 'h) pkg_env \<Rightarrow> ('s, 'h, unit) load" where
  "ReadPartitionNumChunk env =
     andThen (failing_as PKG_INVALID_PKG_FORMAT (ReadChunkTlv env 4 CHUNK_PARTITION_NUM)) (\<lambda>buffer.
     if length buffer \<noteq> 2 then failing PKG_INVALID_PKG_FORMAT
     else andThen (checked (ReadLE16 buffer 0)) (\<lambda>n. modify (\<lambda>s. s\<lparr>partitionNum := unat n\<rparr>)))"

definition ReadPartitionNameChunk :: "('s, 'h) pkg_env \<Rightarrow> ('s, 'h, bytes) load" where
  "ReadPartitionNameChunk env =
     andThen (failing_as PKG_INVALID_PKG_FORMAT (ReadChunkTlv env 4 CHUNK_PARTITION_NAME)) (\<lambda>buffer.
     ok (ConvertBufferToString [] buffer))"

definition ReadImageSizeChunk :: "('s, 'h) pkg_env \<Rightarrow> ('s, 'h, u64) load" where
  "ReadImageSizeChunk env =
     andThen (failing_as PKG_INVALID_PKG_FORMAT (ReadChunkTlv env 4 CHUNK_IMAGE_SIZE)) (\<lambda>buffer.
     if length buffer \<noteq> 8 then failing PKG_INVALID_PKG_FORMAT else checked (pkg_ReadLE64 buffer 0))"

definition ReadHashPartitionChunk :: "('s, 'h) pkg_env \<Rightarrow> ('s, 'h, bytes) load" where
  "ReadHashPartitionChunk env =
     andThen (failing_as PKG_INVALID_PKG_FORMAT (ReadChunkTlv env 4 CHUNK_HASH_PARTITION)) (\<lambda>buffer.
     ok (ConvertBufferToString [] buffer))"

definition ReadImageHashChunk :: "('s, 'h) pkg_env \<Rightarrow> ('s, 'h, bytes) load" where
  "ReadImageHashChunk env =
     andThen (failing_as PKG_INVALID_PKG_FORMAT (ReadChunkTlv env 4 CHUNK_IMAGE_HASH)) (\<lambda>buffer.
     ok (ConvertBufferToString [] buffer))"

text \<open>The two loops of \<open>ReadChunkInfo\<close>, over the partitions left; 47 is the slash.\<close>

primrec read_image_sizes :: "('s, 'h) pkg_env \<Rightarrow> nat \<Rightarrow> ('s, 'h, unit) load" where
  "read_image_sizes env 0 = ok ()"
| "read_image_sizes env (Suc n) =
     andThen (failing_as PKG_INVALID_PKG_FORMAT (ReadPartitionNameChunk env)) (\<lambda>name.
     andThen (failing_as PKG_INVALID_PKG_FORMAT (ReadImageSizeChunk env)) (\<lambda>imageSize. with_state (\<lambda>s.
     if imageSizeMap s (47 # name) \<noteq> None then failing PKG_INVALID_PKG_FORMAT
     else andThen (modify (\<lambda>s. s\<lparr>imageSizeMap := (imageSizeMap s)(47 # name \<mapsto> imageSize)\<rparr>)) (\<lambda>_.
       read_image_sizes env n))))"

primrec read_image_hashes :: "('s, 'h) pkg_env \<Rightarrow> nat \<Rightarrow> ('s, 'h, unit) load" where
  "read_image_hashes env 0 = ok ()"
| "read_image_hashes env (Suc n) =
     andThen (failing_as PKG_INVALID_PKG_FORMAT (ReadHashPartitionChunk env)) (\<lambda>name.
     andThen (failing_as PKG_INVALID_PKG_FORMAT (ReadImageHashChunk env)) (\<lambda>hash. with_state (\<lambda>s.
     if imageHashMap s (47 # name) \<noteq> None then failing PKG_INVALID_PKG_FORMAT
     else andThen (modify (\<lambda>s. s\<lparr>imageHashMap := (imageHashMap s)(47 # name \<mapsto> hash)\<rparr>)) (\<lambda>_.
       read_image_hashes env n))))"

definition ReadChunkInfo :: "('s, 'h) pkg_env \<Rightarrow> ('s, 'h, unit) load" where
  "ReadChunkInfo env = with_state (\<lambda>s.
     if updateFileVersion s < 5 \<or> updateFileType s \<noteq> 1 then ok ()
     else let beginParsedLen = parsedLen s in
       andThen (failing_as PKG_INVALID_PKG_FORMAT (ReadChunkListInfo env)) (\<lambda>_.
       andThen (failing_as PKG_INVALID_PKG_FORMAT (ReadPartitionNumChunk env)) (\<lambda>_. with_state (\<lambda>s.
       andThen (read_image_sizes env (partitionNum s)) (\<lambda>_. with_state (\<lambda>s.
       andThen (read_image_hashes env (partitionNum s)) (\<lambda>_. with_state (\<lambda>s.
       AddDataOffset (parsedLen s - beginParsedLen)))))))))"

section \<open>Reserved bytes, image hashes, signature\<close>

definition ReadReserveData :: "('s, 'h) pkg_env \<Rightarrow> ('s, 'h, unit) load" where
  "ReadReserveData env = with_state (\<lambda>s.
     andThen (read_buffer env (PkgBuffer UPGRADE_RESERVE_LEN) (parsedLen s)) (\<lambda>(buffer, _).
     andThen (modify (\<lambda>s. s\<lparr>descriptPackageId := ConvertBufferToString (descriptPackageId s) buffer\<rparr>)) (\<lambda>_.
     andThen (Update buffer UPGRADE_RESERVE_LEN) (\<lambda>_.
     advance UPGRADE_RESERVE_LEN))))"

definition ReadImgHashTLV :: "('s, 'h) pkg_env \<Rightarrow> bytes \<Rightarrow> nat \<Rightarrow> ('s, 'h, bytes) load" where
  "ReadImgHashTLV env imgHashBuf needType = with_state (\<lambda>s.
     andThen (read_buffer env (PkgBuffer 6) (parsedLen s)) (\<lambda>(buffer, _).
     andThen (advance 6) (\<lambda>_.
     andThen (checked (ReadLE16 buffer 0)) (\<lambda>ty.
     andThen (checked (ReadLE32 buffer 2)) (\<lambda>len.
     if unat ty \<noteq> needType then failing PKG_INVALID_FILE
     else
       andThen (Update buffer 6) (\<lambda>_. with_state (\<lambda>s.
       andThen (read_buffer env (PkgBuffer (unat len)) (parsedLen s)) (\<lambda>(dataBuf, _).
       andThen (advance (unat len)) (\<lambda>_.
       andThen (Update dataBuf (unat len)) (\<lambda>_.
       ok (imgHashBuf @ buffer @ dataBuf)))))))))))"

text \<open>The image hashes are read only for updates from a card or a USB stick.\<close>

definition reads_img_hash :: "('s, 'h) pkg_env \<Rightarrow> nat \<Rightarrow> bool" where
  "reads_img_hash env ver \<longleftrightarrow>
     (CheckUpdateMode env ''sdcard_update'' \<or> CheckUpdateMode env ''usb_update''
        \<or> CheckUpdateMode env ''sdcard_intral_update'')
     \<and> 2 \<le> ver \<and> \<not> CheckUpdateMode env ''tobpkg_in_sdcard''"

definition ReadImgHashData :: "('s, 'h) pkg_env \<Rightarrow> ('s, 'h, unit) load" where
  "ReadImgHashData env = with_state (\<lambda>s.
     if \<not> reads_img_hash env (updateFileVersion s) then ok ()
     else
       andThen (ReadImgHashTLV env [] 6) (\<lambda>buf.
       andThen (ReadImgHashTLV env buf 7) (\<lambda>buf.
       andThen (AddDataOffset (length buf)) (\<lambda>_.
       let check = (if 3 \<le> updateFileVersion s then LoadImgHashDataNew env buf else LoadImgHashData env buf) in
       andThen (modify (\<lambda>s. s\<lparr>hashCheck := check\<rparr>)) (\<lambda>_.
       if check = None then failing PKG_INVALID_FILE else ok ())))))"

definition ReadSignData :: "('s, 'h) pkg_env \<Rightarrow> ('s, 'h, bytes) load" where
  "ReadSignData env = with_state (\<lambda>s0.
     andThen (read_buffer env (PkgBuffer 6) (parsedLen s0)) (\<lambda>(buffer, _).
     andThen (advance 6) (\<lambda>_.
     andThen (checked (ReadLE16 buffer 0)) (\<lambda>dataType.
     andThen (checked (ReadLE32 buffer 2)) (\<lambda>dataLen.
     if unat dataType \<noteq> 8 then failing PKG_INVALID_FILE
     else with_state (\<lambda>s.
       andThen (read_buffer env (PkgBuffer (unat dataLen)) (parsedLen s)) (\<lambda>(signData, _).
       andThen (advance (unat dataLen)) (\<lambda>_. with_state (\<lambda>s.
       andThen (AddDataOffset (parsedLen s - parsedLen s0)) (\<lambda>_.
       ok signData))))))))))"

definition ReadPackageInfo :: "('s, 'h) pkg_env \<Rightarrow> ('s, 'h, bytes) load" where
  "ReadPackageInfo env = with_state (\<lambda>s.
     andThen (read_buffer env (PkgBuffer (GetUpgradeSignatureLen + UPGRADE_RESERVE_LEN)) (parsedLen s)) (\<lambda>(buffer, _).
     andThen (checked (field_string (descriptPackageId s) buffer 0 UPGRADE_RESERVE_LEN)) (\<lambda>desc.
     andThen (modify (\<lambda>s. s\<lparr>descriptPackageId := desc\<rparr>)) (\<lambda>_.
     let signData = (if digestMethod s = PKG_DIGEST_TYPE_SHA384
           then slice (UPGRADE_RESERVE_LEN + SIGN_SHA256_LEN) SIGN_SHA384_LEN buffer
           else slice UPGRADE_RESERVE_LEN SIGN_SHA256_LEN buffer);
         buffer = take UPGRADE_RESERVE_LEN buffer @ replicate GetUpgradeSignatureLen 0 in
     andThen (AddDataOffset GetUpgradeSignatureLen) (\<lambda>_.
     andThen (Update buffer (UPGRADE_RESERVE_LEN + GetUpgradeSignatureLen)) (\<lambda>_.
     andThen (advance (UPGRADE_RESERVE_LEN + GetUpgradeSignatureLen)) (\<lambda>_.
     ok signData)))))))"

section \<open>Verification\<close>

definition BUFFER_SIZE :: nat where
  "BUFFER_SIZE = 4 * 1024 * 1024"

text \<open>The loop of \<open>Verify\<close> over the rest of the file.\<close>

primrec verify_loop :: "nat \<Rightarrow> ('s, 'h) pkg_env \<Rightarrow> nat \<Rightarrow> nat \<Rightarrow> ('s, 'h, unit) load" where
  "verify_loop 0 env offset readBytes = (\<lambda>s. (Endless, s))"
| "verify_loop (Suc fuel) env offset readBytes =
     (if offset + readBytes < GetFileLength env
      then let offset = offset + readBytes; remainBytes = min (GetFileLength env - offset) BUFFER_SIZE in
        andThen (read_buffer env (PkgBuffer remainBytes) offset) (\<lambda>(buffer, readBytes).
        andThen (Update buffer readBytes) (\<lambda>_. verify_loop fuel env offset readBytes))
      else ok ())"

definition verify_fuel :: "('s, 'h) pkg_env \<Rightarrow> nat" where
  "verify_fuel env = GetFileLength env + 1"

definition call_verifier :: "('s, 'h) pkg_env \<Rightarrow> bytes \<Rightarrow> ('s, 'h, unit) load" where
  "call_verifier env signData = with_state (\<lambda>s.
     if (case verifier env of None \<Rightarrow> False | Some v \<Rightarrow> v (digestMethod s) (sha256 env (digested s)) signData = 0)
     then ok () else failing PKG_INVALID_SIGNATURE)"

definition Verify :: "('s, 'h) pkg_env \<Rightarrow> bytes \<Rightarrow> ('s, 'h, unit) load" where
  "Verify env signData = with_state (\<lambda>s.
     andThen (verify_loop (verify_fuel env) env (parsedLen s) 0) (\<lambda>_. call_verifier env signData))"

text \<open>\<open>PkgVerifyUtil::VerifySign\<close> of \<open>pkg_verify/pkg_verify_util.cpp\<close>.\<close>

definition VerifySign :: "('s, 'h) pkg_env \<Rightarrow> bytes \<Rightarrow> bytes \<Rightarrow> int" where
  "VerifySign env signData digest =
     (case Pkcs7verify env signData of
        (ret, hash) \<Rightarrow> if ret \<noteq> PKG_SUCCESS then ret
          else if length hash \<noteq> length digest \<or> hash \<noteq> digest then PKG_INVALID_DIGEST
          else PKG_SUCCESS)"

definition VerifyHeader :: "('s, 'h) pkg_env \<Rightarrow> bytes \<Rightarrow> ('s, 'h, unit) load" where
  "VerifyHeader env signData = with_state (\<lambda>s.
     if 4 \<le> updateFileVersion s
     then (if VerifySign env signData (sha256 env (digested s)) \<noteq> 0 then failing PKG_INVALID_SIGNATURE else ok ())
     else call_verifier env signData)"

definition VerifyFileV1 :: "('s, 'h) pkg_env \<Rightarrow> ('s, 'h, unit) load" where
  "VerifyFileV1 env = andThen (ReadPackageInfo env) (\<lambda>signData. Verify env signData)"

definition VerifyFileV2 :: "('s, 'h) pkg_env \<Rightarrow> ('s, 'h, unit) load" where
  "VerifyFileV2 env =
     andThen (ReadReserveData env) (\<lambda>_.
     andThen (ReadImgHashData env) (\<lambda>_.
     andThen (ReadSignData env) (\<lambda>signData.
     VerifyHeader env signData)))"

definition VerifyFile :: "('s, 'h) pkg_env \<Rightarrow> ('s, 'h, unit) load" where
  "VerifyFile env = with_state (\<lambda>s. if 2 \<le> updateFileVersion s then VerifyFileV2 env else VerifyFileV1 env)"

section \<open>Loading\<close>

text \<open>\<open>PkgFileImpl::CheckState\<close>: the state changes when it is one of the allowed ones.\<close>

definition CheckState :: "pkg_state list \<Rightarrow> pkg_state \<Rightarrow> ('s, 'h, bool) load" where
  "CheckState states st = with_state (\<lambda>s.
     if pkgState s \<in> set states then andThen (modify (\<lambda>s. s\<lparr>pkgState := st\<rparr>)) (\<lambda>_. ok True) else ok False)"

definition smallest_package :: nat where
  "smallest_package = UPGRADE_FILE_HEADER_LEN + SIZEOF_COMP_INFO + GetUpgradeSignatureLen + UPGRADE_RESERVE_LEN"

text \<open>The head length is recorded whether the verification succeeds or not.\<close>

definition with_head_len :: "('s, 'h, unit) load \<Rightarrow> ('s, 'h, unit) load" where
  "with_head_len m = (\<lambda>s. case m s of (r, s') \<Rightarrow> (r, s'\<lparr>updateFileHeadLen := parsedLen s'\<rparr>))"

definition LoadPackage :: "('s, 'h) pkg_env \<Rightarrow> ('s, 'h, unit) load" where
  "LoadPackage env =
     (case verifier env of
        None \<Rightarrow> failing PKG_INVALID_SIGNATURE
      | Some _ \<Rightarrow> andThen (CheckState [PKG_FILE_STATE_IDLE] PKG_FILE_STATE_WORKING) (\<lambda>allowed.
        if \<not> allowed then failing PKG_INVALID_STATE
        else
          andThen (modify (\<lambda>s. s\<lparr>pkgStream := measure_stream env (pkgStream s)\<rparr>)) (\<lambda>_.
          if GetFileLength env < smallest_package then failing PKG_INVALID_FILE
          else
            andThen (modify (\<lambda>s. s\<lparr>parsedLen := 0\<rparr>)) (\<lambda>_.
            andThen (ReadUpgradePkgHeader env) (\<lambda>_.
            andThen (ReadComponents env) (\<lambda>_.
            andThen (ReadChunkInfo env) (\<lambda>_.
            with_head_len (VerifyFile env))))))))"

text \<open>\<open>PkgFileImpl::FindPkgEntry\<close>; None is the null pointer.\<close>

definition FindPkgEntry :: "bytes \<Rightarrow> ('s, 'h, comp_entry option) load" where
  "FindPkgEntry name = andThen (CheckState [PKG_FILE_STATE_WORKING] PKG_FILE_STATE_WORKING) (\<lambda>allowed.
     if \<not> allowed then ok None else with_state (\<lambda>s. ok (find (\<lambda>e. identity e = name) (entries s))))"

definition GetEntryRange :: "comp_entry \<Rightarrow> u64 \<Rightarrow> u64 \<times> u64" where
  "GetEntryRange e entryReadOffset = (dataOffset e + entryReadOffset, dataOffset e + packedSize e)"

definition GetOriginalSize :: "('s, 'h) upgrade_file \<Rightarrow> comp_entry \<Rightarrow> u64" where
  "GetOriginalSize s e =
     (case imageSizeMap s (identity e) of Some imageSize \<Rightarrow> imageSize | None \<Rightarrow> unpackedSize e)"

end
