(* ===== verification/Pkg_Upgrade_Laws.thy ===== *)
theory Pkg_Upgrade_Laws
  imports Pkg_Upgrade
begin

text \<open>
  What loading an update package guarantees. The lemmas up to the interpretations are proved once
  for every stream that satisfies \<open>package_stream\<close>: the bytes digested are exactly the bytes of the
  file up to the position parsed, and the components come from those bytes.
\<close>

section \<open>Results of steps\<close>

named_theorems load_simps

lemma andThen_Ok [load_simps]:
  "andThen m f s = (Ok b, s') \<longleftrightarrow> (\<exists>a s1. m s = (Ok a, s1) \<and> f a s1 = (Ok b, s'))"
  by (auto simp: andThen_def split: prod.splits outcome.splits)

lemma ok_Ok [load_simps]: "ok a s = (Ok b, s') \<longleftrightarrow> b = a \<and> s' = s"
  by (auto simp: ok_def)

lemma failing_Ok [load_simps]: "failing e s = (Ok b, s') \<longleftrightarrow> False"
  by (simp add: failing_def)

lemma checked_Ok [load_simps]: "checked x s = (Ok b, s') \<longleftrightarrow> x = Some b \<and> s' = s"
  by (auto simp: checked_def split: option.splits)

lemma modify_Ok [load_simps]: "modify f s = (Ok b, s') \<longleftrightarrow> s' = f s"
  by (auto simp: modify_def)

lemma andThen_modify: "andThen (modify f) g s = g () (f s)"
  by (simp add: andThen_def modify_def)

lemma with_state_Ok [load_simps]: "with_state f s = f s s"
  by (simp add: with_state_def)

lemma failing_as_Ok [load_simps]: "failing_as e m s = (Ok b, s') \<longleftrightarrow> m s = (Ok b, s')"
  by (auto simp: failing_as_def split: prod.splits outcome.splits)

lemma Update_Ok [load_simps]:
  "Update buf n s = (Ok b, s') \<longleftrightarrow> n \<le> length buf \<and> s' = s\<lparr>digested := digested s @ take n buf\<rparr>"
  by (simp add: Update_def load_simps)

lemma advance_Ok [load_simps]: "advance n s = (Ok b, s') \<longleftrightarrow> s' = s\<lparr>parsedLen := parsedLen s + n\<rparr>"
  by (simp add: advance_def load_simps)

lemma AddDataOffset_Ok [load_simps]: "AddDataOffset n s = (Ok b, s') \<longleftrightarrow>
    s' = s\<lparr>entries := map (\<lambda>e. e\<lparr>dataOffset := dataOffset e + of_nat n\<rparr>) (entries s)\<rparr>"
  by (simp add: AddDataOffset_def load_simps)

lemma read_tlv_Ok [load_simps]: "read_tlv buf i s = (Ok tlv, s') \<longleftrightarrow>
    ReadLE16 buf i = Some (fst tlv) \<and> ReadLE16 buf (i + 2) = Some (snd tlv) \<and> s' = s"
  by (cases tlv) (auto simp: read_tlv_def load_simps)

lemma if_Ok [load_simps]:
  "(if c then m else m') s = (Ok a, s') \<longleftrightarrow> (c \<longrightarrow> m s = (Ok a, s')) \<and> (\<not> c \<longrightarrow> m' s = (Ok a, s'))"
  by simp

lemma with_head_len_Ok [load_simps]: "with_head_len m s = (Ok a, s') \<longleftrightarrow>
    (\<exists>s1. m s = (Ok a, s1) \<and> s' = s1\<lparr>updateFileHeadLen := parsedLen s1\<rparr>)"
  by (auto simp: with_head_len_def split: prod.splits)

lemma case_prod_Ok [load_simps]:
  "(case p of (x, y) \<Rightarrow> f x y) s = (Ok a, s') \<longleftrightarrow> f (fst p) (snd p) s = (Ok a, s')"
  by (cases p) simp

section \<open>The layout of the component data\<close>

primrec laid_out :: "u64 \<Rightarrow> comp_entry list \<Rightarrow> bool" where
  "laid_out d [] = True"
| "laid_out d (e # es) = (dataOffset e = d \<and> laid_out (d + packedSize e) es)"

lemma laid_out_append:
  "laid_out d (es @ [e]) \<longleftrightarrow> laid_out d es \<and> dataOffset e = d + sum_list (map packedSize es)"
  by (induction es arbitrary: d) (auto simp: add.assoc)

lemma laid_out_shift:
  "laid_out d es \<Longrightarrow> laid_out (d + x) (map (\<lambda>e. e\<lparr>dataOffset := dataOffset e + x\<rparr>) es)"
proof (induction es arbitrary: d)
  case (Cons e es)
  then have "laid_out (d + packedSize e + x) (map (\<lambda>e. e\<lparr>dataOffset := dataOffset e + x\<rparr>) es)" by simp
  with Cons.prems show ?case by (simp add: algebra_simps)
qed simp

text \<open>The component read from the given place of the file.\<close>

definition parsed_entry :: "bytes \<Rightarrow> nat \<Rightarrow> comp_entry \<Rightarrow> bool" where
  "parsed_entry content ver e \<longleftrightarrow>
     DecodeHeader ver (nodeId e) (slice (headerOffset e) SIZEOF_COMP_INFO content) (headerOffset e) (dataOffset e) = Ok e"

lemma DecodeHeader_headerOffset: "DecodeHeader ver node buf h d = Ok e \<Longrightarrow> headerOffset e = h \<and> dataOffset e = d \<and> nodeId e = node"
  by (auto simp: DecodeHeader_def Let_def split: if_splits option.splits)

lemma DecodeHeader_dataOffset:
  "DecodeHeader ver node buf h d = Ok e \<Longrightarrow> DecodeHeader ver node buf h d' = Ok (e\<lparr>dataOffset := d'\<rparr>)"
  by (auto simp: DecodeHeader_def Let_def split: if_splits option.splits)

lemma parsed_entry_shift: "parsed_entry content ver e \<Longrightarrow> parsed_entry content ver (e\<lparr>dataOffset := d\<rparr>)"
  using DecodeHeader_dataOffset [of ver "nodeId e" _ "headerOffset e" "dataOffset e" e d]
  by (simp add: parsed_entry_def)

text \<open>The length the table declares, in the two bytes before its first component.\<close>

definition comp_table_len :: "bytes \<Rightarrow> comp_entry list \<Rightarrow> nat" where
  "comp_table_len content es = (case ReadLE16 content (headerOffset (hd es) - 2) of None \<Rightarrow> 0 | Some l \<Rightarrow> unat l)"

lemma ReadLE16_slice: "ReadLE16 (slice p n content) i = Some v \<Longrightarrow> ReadLE16 content (p + i) = Some v"
  by (auto simp: ReadLE16_def nth_slice split: if_splits)

section \<open>What the verifier is asked\<close>

text \<open>A signature is accepted for a message: by PKCS7 from version 4 on, otherwise by the verifier of the caller.\<close>

definition accepted :: "('s, 'h) pkg_env \<Rightarrow> ('s, 'h) upgrade_file \<Rightarrow> bytes \<Rightarrow> bytes \<Rightarrow> bool" where
  "accepted env s msg sig \<longleftrightarrow>
     (if 4 \<le> updateFileVersion s then VerifySign env sig (sha256 env msg) = PKG_SUCCESS
      else (case verifier env of None \<Rightarrow> False | Some v \<Rightarrow> v (digestMethod s) (sha256 env msg) sig = 0))"

text \<open>A package of version 1: the whole file, with zeros in the place of the signature behind the table at \<open>p\<close>.\<close>

definition unsigned_file :: "bytes \<Rightarrow> nat \<Rightarrow> bytes" where
  "unsigned_file content p = take p content @ take UPGRADE_RESERVE_LEN (drop p content @ PkgBuffer UPGRADE_RESERVE_LEN)
     @ PkgBuffer GetUpgradeSignatureLen @ drop (p + UPGRADE_RESERVE_LEN + GetUpgradeSignatureLen) content"

lemma call_verifier_Ok: "call_verifier env sig s = (Ok u, s') \<longleftrightarrow>
    s' = s \<and> (\<exists>v. verifier env = Some v \<and> v (digestMethod s) (sha256 env (digested s)) sig = 0)"
  by (auto simp: call_verifier_def load_simps split: option.splits)

section \<open>What has been digested\<close>

text \<open>
  \<open>tracked\<close>: the stream delivers the file, and what has been digested is as long as what has been
  parsed, and is the beginning of the file as long as that is not past its end.
\<close>

context package_stream
begin

definition tracked :: "bytes \<Rightarrow> ('s, 'h) upgrade_file \<Rightarrow> bool" where
  "tracked content s \<longleftrightarrow> valid content (pkgStream s) \<and> length (digested s) = parsedLen s
     \<and> (parsedLen s \<le> length content \<longrightarrow> digested s = take (parsedLen s) content)"

lemma read_buffer_Ok:
  assumes "stream_Read env = stream_read" "valid content (pkgStream s)"
    and "read_buffer env buf start s = (Ok (b, k), s')"
  shows "\<exists>st. s' = s\<lparr>pkgStream := st\<rparr> \<and> valid content st \<and> start \<le> length content
    \<and> b = slice start (length buf) content @ drop k buf \<and> k = min (length buf) (length content - start)"
proof -
  obtain r st where c: "stream_read (pkgStream s) start (length buf) = (r, st)" by (metis prod.exhaust)
  show ?thesis
  proof (cases r)
    case (Inl e)
    then show ?thesis using assms(3) by (simp add: read_buffer_def assms(1) c)
  next
    case (Inr xs)
    have "start \<le> length content \<and> xs = slice start (length buf) content"
      using read_bytes [OF assms(2) c [unfolded Inr]] .
    moreover have "valid content st" using read_valid [OF assms(2) c Inr] .
    ultimately show ?thesis
      using assms(3) Inr by (intro exI [of _ st]) (auto simp: read_buffer_def assms(1) c)
  qed
qed

text \<open>A buffer read at the position parsed, digested and passed.\<close>

lemma read_facts:
  assumes "stream_Read env = stream_read" "tracked content s"
    and "read_buffer env (PkgBuffer n) (parsedLen s) s = (Ok (b, k), s1)"
  shows "\<exists>st. s1 = s\<lparr>pkgStream := st\<rparr> \<and> valid content st \<and> parsedLen s \<le> length content \<and> length b = n
    \<and> (parsedLen s + n \<le> length content \<longrightarrow> b = slice (parsedLen s) n content)
    \<and> k \<le> n \<and> (n \<le> k \<longrightarrow> parsedLen s + n \<le> length content)"
proof -
  have v: "valid content (pkgStream s)" using assms(2) by (simp add: tracked_def)
  obtain st where "s1 = s\<lparr>pkgStream := st\<rparr>" "valid content st" "parsedLen s \<le> length content"
      "b = slice (parsedLen s) n content @ drop k (PkgBuffer n)" "k = min n (length content - parsedLen s)"
    using read_buffer_Ok [OF assms(1) v assms(3)] by (simp only: length_replicate) blast
  then show ?thesis by (intro exI [of _ st]) auto
qed

lemma tracked_step:
  assumes "tracked content s" "parsedLen s \<le> length content" "valid content (pkgStream s')"
    and "parsedLen s' = parsedLen s + length b" "digested s' = digested s @ b"
    and "parsedLen s + length b \<le> length content \<longrightarrow> b = slice (parsedLen s) (length b) content"
  shows "tracked content s'"
proof -
  have "digested s = take (parsedLen s) content" "length (digested s) = parsedLen s"
    using assms(1,2) by (simp_all add: tracked_def)
  then show ?thesis
    using assms(3,6) unfolding tracked_def assms(4,5) by (auto simp: slice_def take_add)
qed

lemma tracked_read:
  assumes env: "stream_Read env = stream_read" and s: "tracked content s"
    and read: "read_buffer env (PkgBuffer n) (parsedLen s) s = (Ok (b, k), s1)"
    and s': "pkgStream s' = pkgStream s1" "parsedLen s' = parsedLen s + n" "digested s' = digested s @ b"
  shows "tracked content s'"
proof -
  obtain st where "s1 = s\<lparr>pkgStream := st\<rparr>" "valid content st" "parsedLen s \<le> length content" "length b = n"
      "parsedLen s + n \<le> length content \<longrightarrow> b = slice (parsedLen s) n content"
    using read_facts [OF env s read] by blast
  then show ?thesis using tracked_step [OF s, of s' b] s' by simp
qed

text \<open>Steps that only read on: they leave the components and the version alone.\<close>

definition grown :: "bytes \<Rightarrow> ('s, 'h) upgrade_file \<Rightarrow> ('s, 'h) upgrade_file \<Rightarrow> bool" where
  "grown content s s' \<longleftrightarrow> tracked content s' \<and> entries s' = entries s \<and> updateFileVersion s' = updateFileVersion s
     \<and> digestMethod s' = digestMethod s \<and> parsedLen s \<le> parsedLen s'"

definition reads_on :: "bytes \<Rightarrow> ('s, 'h, 'a) load \<Rightarrow> bool" where
  "reads_on content m \<longleftrightarrow> (\<forall>s a s'. tracked content s \<longrightarrow> m s = (Ok a, s') \<longrightarrow> grown content s s')"

lemma reads_onD: "reads_on content m \<Longrightarrow> tracked content s \<Longrightarrow> m s = (Ok a, s') \<Longrightarrow> grown content s s'"
  by (simp add: reads_on_def)

lemma grown_tracked: "grown content s s' \<Longrightarrow> tracked content s'"
  by (simp add: grown_def)

lemma grown_refl: "tracked content s \<Longrightarrow> grown content s s"
  by (simp add: grown_def)

lemma grown_trans: "grown content s s1 \<Longrightarrow> grown content s1 s' \<Longrightarrow> grown content s s'"
  by (simp add: grown_def)

lemma reads_on_andThen: "reads_on content m \<Longrightarrow> (\<And>a. reads_on content (f a)) \<Longrightarrow> reads_on content (andThen m f)"
  unfolding reads_on_def andThen_Ok by (blast intro: grown_trans grown_tracked)

lemma reads_on_with_state: "(\<And>s. reads_on content (f s)) \<Longrightarrow> reads_on content (with_state f)"
  unfolding reads_on_def with_state_Ok by blast

lemma reads_on_pure: "reads_on content (ok a)" "reads_on content (failing e)" "reads_on content (checked x)"
  unfolding reads_on_def ok_Ok failing_Ok checked_Ok by (blast intro: grown_refl)+

lemma reads_on_if:
  "(c \<Longrightarrow> reads_on content m) \<Longrightarrow> (\<not> c \<Longrightarrow> reads_on content m') \<Longrightarrow> reads_on content (if c then m else m')"
  by simp

lemma reads_on_failing_as: "reads_on content m \<Longrightarrow> reads_on content (failing_as e m)"
  unfolding reads_on_def failing_as_Ok .

lemma reads_on_modify:
  "(\<And>s. pkgStream (f s) = pkgStream s \<and> parsedLen (f s) = parsedLen s \<and> digested (f s) = digested s
    \<and> entries (f s) = entries s \<and> updateFileVersion (f s) = updateFileVersion s \<and> digestMethod (f s) = digestMethod s) \<Longrightarrow>
   reads_on content (modify f)"
  unfolding reads_on_def modify_Ok by (simp add: grown_def tracked_def)

lemma reads_on_ReadChunkTlv:
  assumes env: "stream_Read env = stream_read"
  shows "reads_on content (ReadChunkTlv env hlen ty)"
  unfolding reads_on_def
proof (intro allI impI)
  fix s a s'
  assume s: "tracked content s" and run: "ReadChunkTlv env hlen ty s = (Ok a, s')"
  obtain tl k s1 len s2 where r1: "read_buffer env (PkgBuffer hlen) (parsedLen s) s = (Ok (tl, k), s1)"
    and s2: "s2 = s1\<lparr>parsedLen := parsedLen s1 + hlen, digested := digested s1 @ take hlen tl\<rparr>"
    and rest: "andThen (read_buffer env (PkgBuffer len) (parsedLen s2)) (\<lambda>(buffer, _).
       andThen (advance len) (\<lambda>_. andThen (Update buffer len) (\<lambda>_. ok buffer))) s2 = (Ok a, s')"
  proof -
    from run obtain tl k s1 where r1: "read_buffer env (PkgBuffer hlen) (parsedLen s) s = (Ok (tl, k), s1)"
      and r2: "(if le_value (take 2 tl) \<noteq> ty then failing PKG_INVALID_PKG_FORMAT
         else let len = le_value (slice 2 (hlen - 2) tl) in with_state (\<lambda>s.
           andThen (read_buffer env (PkgBuffer len) (parsedLen s)) (\<lambda>(buffer, _).
           andThen (advance len) (\<lambda>_. andThen (Update buffer len) (\<lambda>_. ok buffer)))))
         (s1\<lparr>parsedLen := parsedLen s1 + hlen, digested := digested s1 @ take hlen tl\<rparr>) = (Ok a, s')"
      unfolding ReadChunkTlv_def with_state_Ok andThen_Ok Update_Ok advance_Ok split_paired_Ex prod.case
      by auto
    show thesis
      by (rule that [OF r1 refl, of "le_value (slice 2 (hlen - 2) tl)"])
        (use r2 in \<open>simp add: with_state_Ok failing_Ok Let_def split: if_splits\<close>)
  qed
  from read_facts [OF env s r1] obtain st where s1: "s1 = s\<lparr>pkgStream := st\<rparr>" and tl: "length tl = hlen" by blast
  have t2: "tracked content s2" by (rule tracked_read [OF env s r1]) (simp_all add: s2 s1 tl)
  from rest obtain buf k' s3 where r3: "read_buffer env (PkgBuffer len) (parsedLen s2) s2 = (Ok (buf, k'), s3)"
    and s': "s' = s3\<lparr>parsedLen := parsedLen s3 + len, digested := digested s3 @ take len buf\<rparr>"
    unfolding andThen_Ok Update_Ok advance_Ok ok_Ok split_paired_Ex prod.case by auto
  from read_facts [OF env t2 r3] obtain st' where s3: "s3 = s2\<lparr>pkgStream := st'\<rparr>" and buf: "length buf = len" by blast
  have "tracked content s'" by (rule tracked_read [OF env t2 r3]) (simp_all add: s' s3 buf)
  then show "grown content s s'" by (simp add: grown_def s' s3 s2 s1)
qed

lemmas reads_on_rules = reads_on_if reads_on_andThen reads_on_with_state reads_on_pure reads_on_failing_as
  reads_on_modify reads_on_ReadChunkTlv

section \<open>The header\<close>

lemma read_time_tlv_grown:
  assumes "tracked content s" "buf = slice (parsedLen s) n content" "length buf = n" "parsedLen s \<le> length content"
    and "read_time_tlv env buf c s = (Ok u, s')"
  shows "grown content s s'"
proof -
  obtain l d t where le: "l \<le> length buf"
    and s': "s' = s\<lparr>pkgDate := d, pkgTime := t, parsedLen := parsedLen s + l, digested := digested s @ take l buf\<rparr>"
    using assms(5) unfolding read_time_tlv_def andThen_Ok read_tlv_Ok if_Ok failing_Ok with_state_Ok
      checked_Ok Let_def modify_Ok Update_Ok by auto
  have n: "parsedLen s + n \<le> length content \<or> n = 0" and b: "length (take l buf) = l" "take l buf = slice (parsedLen s) l content"
    using assms(2,3) le by (auto simp: slice_def min_def split: if_splits)
  have "tracked content s'"
    by (rule tracked_step [OF assms(1), of s' "take l buf"])
      (use assms(1,4) le n b in \<open>auto simp: s' tracked_def\<close>)
  then show ?thesis by (simp add: grown_def s')
qed

lemma ReadUpgradePkgHeader_tracked:
  assumes env: "stream_Read env = stream_read" and v: "valid content (pkgStream s)"
    and p: "parsedLen s = 0" and len: "smallest_package \<le> length content"
    and run: "ReadUpgradePkgHeader env s = (Ok u, s')"
  shows "tracked content s' \<and> entries s' = entries s"
proof -
  obtain buf k s1 c tlv s2 where r1: "read_buffer env (PkgBuffer UPGRADE_FILE_BASIC_LEN) 0 s = (Ok (buf, k), s1)"
    and parse: "ParsePkgHeaderToTlv buf s1 = (Ok (c, tlv), s2)"
    and rest: "(if k \<le> c + unat (snd tlv)
       then let realLen = c + unat (snd tlv) in
         andThen (modify (\<lambda>s. s\<lparr>parsedLen := realLen\<rparr>)) (\<lambda>_.
         andThen (Update buf realLen) (\<lambda>_.
         andThen (read_buffer env buf realLen) (\<lambda>(buffer, readLen). read_time_tlv env buffer 0)))
       else read_time_tlv env buf (c + unat (snd tlv))) (s2\<lparr>digested := []\<rparr>) = (Ok u, s')"
    using run unfolding ReadUpgradePkgHeader_def andThen_Ok modify_Ok split_paired_Ex prod.case by auto
  from read_buffer_Ok [OF env v r1] obtain st where s1: "s1 = s\<lparr>pkgStream := st\<rparr>" "valid content st"
    and k: "k = UPGRADE_FILE_BASIC_LEN" and buf: "buf = slice 0 UPGRADE_FILE_BASIC_LEN content"
    using len by (auto simp: smallest_package_def GetUpgradeSignatureLen_def)
  have s2: "pkgStream s2 = st" "parsedLen s2 = 0" "entries s2 = entries s" and c: "c = SIZEOF_TLV"
    using parse p unfolding ParsePkgHeaderToTlv_def s1
    by (auto simp: load_simps split: if_splits)
  define s3 where "s3 = s2\<lparr>digested := []\<rparr>"
  have t3: "tracked content s3" using s1(2) s2 by (simp add: tracked_def s3_def)
  have lb: "length buf = UPGRADE_FILE_BASIC_LEN"
    using len by (simp add: buf smallest_package_def GetUpgradeSignatureLen_def)
  have e3: "entries s3 = entries s" "parsedLen s3 = 0" by (simp_all add: s3_def s2)
  show ?thesis
  proof (cases "k \<le> c + unat (snd tlv)")
    case False
    then have "grown content s3 s'"
      using read_time_tlv_grown [OF t3 _ lb _, of env _ u s'] rest e3 by (simp add: s3_def [symmetric] buf)
    then show ?thesis by (simp add: grown_def e3)
  next
    case True
    then obtain buf2 k2 s5 where le: "c + unat (snd tlv) \<le> length buf"
      and r2: "read_buffer env buf (c + unat (snd tlv))
         (s3\<lparr>parsedLen := c + unat (snd tlv), digested := digested s3 @ take (c + unat (snd tlv)) buf\<rparr>) = (Ok (buf2, k2), s5)"
      and time: "read_time_tlv env buf2 0 s5 = (Ok u, s')"
      using rest True unfolding s3_def [symmetric] Let_def if_Ok andThen_Ok modify_Ok Update_Ok by auto
    have real: "c + unat (snd tlv) = UPGRADE_FILE_BASIC_LEN" using True le lb k by simp
    define s4 where "s4 = s3\<lparr>parsedLen := UPGRADE_FILE_BASIC_LEN, digested := buf\<rparr>"
    have t4: "tracked content s4" using t3 by (simp add: tracked_def s4_def lb) (simp add: buf slice_def)
    have r2': "read_buffer env buf UPGRADE_FILE_BASIC_LEN s4 = (Ok (buf2, k2), s5)"
      using r2 lb unfolding real s4_def s3_def by simp
    have v4: "valid content (pkgStream s4)" using t4 by (simp add: tracked_def)
    from read_buffer_Ok [OF env v4 r2'] lb len obtain st' where s5: "s5 = s4\<lparr>pkgStream := st'\<rparr>" "valid content st'"
      and buf2: "buf2 = slice UPGRADE_FILE_BASIC_LEN UPGRADE_FILE_BASIC_LEN content" "length buf2 = UPGRADE_FILE_BASIC_LEN"
      by (auto simp: smallest_package_def GetUpgradeSignatureLen_def)
    have t5: "tracked content s5" using t4 s5 by (simp add: tracked_def)
    have "grown content s5 s'"
      by (rule read_time_tlv_grown [OF t5 _ buf2(2) _ time])
        (use len in \<open>simp_all add: s5 s4_def buf2 smallest_package_def\<close>)
    then show ?thesis by (simp add: grown_def s5 s4_def e3)
  qed
qed

section \<open>The components\<close>

text \<open>The state inside the loop over the table at \<open>parsedLen\<close>, of which \<open>src\<close> bytes are read.\<close>

definition in_table :: "bytes \<Rightarrow> u64 \<Rightarrow> nat \<Rightarrow> ('s, 'h) upgrade_file \<Rightarrow> bool" where
  "in_table content base src s \<longleftrightarrow>
     valid content (pkgStream s) \<and> parsedLen s + src \<le> length content
     \<and> digested s = take (parsedLen s + src) content \<and> src = SIZEOF_COMP_INFO * length (entries s)
     \<and> (\<forall>e \<in> set (entries s). headerOffset e + SIZEOF_COMP_INFO \<le> parsedLen s + src
          \<and> parsed_entry content (updateFileVersion s) e)
     \<and> laid_out base (entries s) \<and> (entries s \<noteq> [] \<longrightarrow> headerOffset (hd (entries s)) = parsedLen s)"

lemma SaveEntry_Ok:
  assumes "SaveEntry buffer currLen readLen src doff s = (Ok p, s')"
  shows "\<exists>e. DecodeHeader (updateFileVersion s) (nodeCount s) (slice currLen (readLen - currLen) buffer)
            (parsedLen s + src) doff = Ok e \<and> p = packedSize e \<and> SIZEOF_COMP_INFO \<le> length (drop currLen buffer)
      \<and> s' = s\<lparr>nodeCount := nodeCount s + 1, entries := entries s @ [e], components := components s @ [identity e],
          digested := digested s @ take SIZEOF_COMP_INFO (drop currLen buffer), entryCount := entryCount s + 1\<rparr>"
proof (cases "DecodeHeader (updateFileVersion s) (nodeCount s) (slice currLen (readLen - currLen) buffer)
            (parsedLen s + src) doff")
  case (Ok e)
  then show ?thesis
    using assms unfolding SaveEntry_def with_state_Ok andThen_Ok modify_Ok
    by (simp add: andThen_Ok modify_Ok Update_Ok ok_Ok)
qed (use assms in \<open>simp_all add: SaveEntry_def with_state_Ok andThen_Ok modify_Ok failing_Ok checked_Ok\<close>)

lemma components_loop_tables:
  assumes "stream_Read env = stream_read" "in_table content base src s"
    and "components_loop env tlvLen src (base + sum_list (map packedSize (entries s))) currLen readLen compBuffer s = (Ok r, s')"
    and "readLen < currLen + SIZEOF_COMP_INFO" "length compBuffer = SIZEOF_COMP_INFO"
  shows "in_table content base r s' \<and> tlvLen \<le> r \<and> parsedLen s' = parsedLen s \<and> updateFileVersion s' = updateFileVersion s"
  using assms
proof (induction "tlvLen - src" arbitrary: src s currLen readLen compBuffer rule: less_induct)
  case less
  show ?case
  proof (cases "tlvLen \<le> src")
    case True
    then show ?thesis using less.prems by (simp add: components_loop.simps [of env tlvLen] ok_Ok)
  next
    case False
    let ?P = "parsedLen s"
    from less.prems(3) obtain buf k s1 p s2 where
        r1: "read_buffer env compBuffer (?P + src) s = (Ok (buf, k), s1)"
      and save: "SaveEntry buf 0 k src (base + sum_list (map packedSize (entries s))) s1 = (Ok p, s2)"
      and rest: "components_loop env tlvLen (src + SIZEOF_COMP_INFO) (base + sum_list (map packedSize (entries s)) + p)
         SIZEOF_COMP_INFO k buf s2 = (Ok r, s')"
      using False less.prems(4) by (subst (asm) components_loop.simps) (auto simp: load_simps Let_def)
    from less.prems(2) have t: "valid content (pkgStream s)" "?P + src \<le> length content"
        "digested s = take (?P + src) content" "src = SIZEOF_COMP_INFO * length (entries s)"
        "laid_out base (entries s)" "entries s \<noteq> [] \<longrightarrow> headerOffset (hd (entries s)) = ?P"
      and es: "\<forall>e \<in> set (entries s). headerOffset e + SIZEOF_COMP_INFO \<le> ?P + src \<and> parsed_entry content (updateFileVersion s) e"
      unfolding in_table_def by blast+
    from read_buffer_Ok [OF less.prems(1) t(1) r1] less.prems(5) obtain st where s1: "s1 = s\<lparr>pkgStream := st\<rparr>"
      and st: "valid content st" and k: "k = min SIZEOF_COMP_INFO (length content - (?P + src))"
      and buf: "buf = slice (?P + src) SIZEOF_COMP_INFO content @ drop k compBuffer"
      by auto
    have lb: "length buf = SIZEOF_COMP_INFO" using less.prems(5) k by (simp add: buf)
    from SaveEntry_Ok [OF save] obtain e where
        dec: "DecodeHeader (updateFileVersion s) (nodeCount s) (slice 0 k buf) (?P + src)
           (base + sum_list (map packedSize (entries s))) = Ok e"
      and p: "p = packedSize e"
      and s2: "s2 = s1\<lparr>nodeCount := nodeCount s1 + 1, entries := entries s1 @ [e], components := components s1 @ [identity e],
          digested := digested s1 @ take SIZEOF_COMP_INFO buf, entryCount := entryCount s1 + 1\<rparr>"
      unfolding s1 by auto
    have "SIZEOF_COMP_INFO \<le> length (slice 0 k buf)" using dec by (auto simp: DecodeHeader_def split: if_splits)
    then have full: "k = SIZEOF_COMP_INFO" "?P + src + SIZEOF_COMP_INFO \<le> length content"
      using k t(2) by auto
    have b: "buf = slice (?P + src) SIZEOF_COMP_INFO content" "slice 0 k buf = buf" "take SIZEOF_COMP_INFO buf = buf"
      using lb full less.prems(5) by (simp_all add: buf slice_def)
    note he = DecodeHeader_headerOffset [OF dec]
    have "parsed_entry content (updateFileVersion s) e"
      using dec [unfolded b(2)] he by (simp add: parsed_entry_def b(1) [symmetric])
    moreover have "laid_out base (entries s @ [e])" using t(5) he by (simp add: laid_out_append)
    moreover have "digested s @ buf = take (?P + (src + SIZEOF_COMP_INFO)) content"
      using take_add [of "?P + src" SIZEOF_COMP_INFO content] unfolding t(3) b(1) slice_def
      by (simp only: add.assoc)
    ultimately have "in_table content base (src + SIZEOF_COMP_INFO) s2"
      using st full t(2,4-6) es he b(3) unfolding in_table_def s2 s1
      by (auto simp: hd_append)
    from less.hyps [OF _ less.prems(1) this _ _ lb, of SIZEOF_COMP_INFO k] rest False
    show ?thesis by (auto simp: s2 s1 p add.assoc full(1))
  qed
qed

lemma components_loop_start:
  assumes "stream_Read env = stream_read" "valid content (pkgStream s)" "src < tlvLen" "readLen < currLen + SIZEOF_COMP_INFO"
    and "components_loop env tlvLen src doff currLen readLen compBuffer s = (Ok r, s')"
  shows "parsedLen s + src \<le> length content"
proof -
  obtain buf k s1 where "read_buffer env compBuffer (parsedLen s + src) s = (Ok (buf, k), s1)"
    using assms(3-5) by (subst (asm) components_loop.simps) (auto simp: load_simps Let_def)
  from read_buffer_Ok [OF assms(1,2) this] show ?thesis by blast
qed

text \<open>
  After the table: the components come from the part of the file that is parsed, and their data
  follow each other; \<open>gap\<close> bytes are still to come before the data.
\<close>

definition loaded :: "bytes \<Rightarrow> nat \<Rightarrow> ('s, 'h) upgrade_file \<Rightarrow> bool" where
  "loaded content gap s \<longleftrightarrow> entries s \<noteq> []
     \<and> (\<forall>e \<in> set (entries s). headerOffset e + SIZEOF_COMP_INFO \<le> parsedLen s \<and> parsed_entry content (updateFileVersion s) e)
     \<and> laid_out (of_nat (parsedLen s + gap + comp_table_len content (entries s))
          - of_nat (SIZEOF_COMP_INFO * length (entries s))) (entries s)"

lemma ReadComponents_loaded:
  assumes env: "stream_Read env = stream_read" and s: "tracked content s" "entries s = []"
    and run: "ReadComponents env s = (Ok u, s')"
  shows "tracked content s' \<and> loaded content UPGRADE_RESERVE_LEN s'"
proof -
  from run obtain bk s1 tlv src s3 s2 where bk: "read_buffer env (PkgBuffer SIZEOF_TLV) (parsedLen s) s = (Ok bk, s1)"
    and tlv: "ReadLE16 (fst bk) (0 + 2) = Some (snd tlv)" "tlv_check tlv 5 SIZEOF_COMP_INFO (GetFileLength env)"
    and s2: "s2 = s1\<lparr>digested := digested s1 @ take SIZEOF_TLV (fst bk),
        parsedLen := parsedLen (s1\<lparr>digested := digested s1 @ take SIZEOF_TLV (fst bk)\<rparr>) + SIZEOF_TLV\<rparr>"
    and loop: "components_loop env (unat (snd tlv)) 0 (of_nat (parsedLen s2 + unat (snd tlv) + UPGRADE_RESERVE_LEN))
                  SIZEOF_TLV (snd bk) (PkgBuffer SIZEOF_COMP_INFO) s2 = (Ok src, s3)"
    and s': "s' = s3\<lparr>parsedLen := parsedLen s3 + src\<rparr>"
    unfolding ReadComponents_def andThen_Ok if_Ok failing_Ok with_state_Ok read_tlv_Ok Update_Ok advance_Ok case_prod_Ok
    by blast
  obtain buf k where bk_eq: "bk = (buf, k)" by fastforce
  note r1 = bk [unfolded bk_eq] and tlv = tlv [unfolded bk_eq fst_conv add_0] and loop = loop [unfolded bk_eq snd_conv]
    and s2 = s2 [unfolded bk_eq fst_conv]
  from read_facts [OF env s(1) r1] obtain st where s1: "s1 = s\<lparr>pkgStream := st\<rparr>" "length buf = SIZEOF_TLV" "k \<le> SIZEOF_TLV"
      "parsedLen s + SIZEOF_TLV \<le> length content \<longrightarrow> buf = slice (parsedLen s) SIZEOF_TLV content" by blast
  have t2: "tracked content s2" by (rule tracked_read [OF env s(1) r1]) (simp_all add: s2 s1)
  have big: "SIZEOF_COMP_INFO \<le> unat (snd tlv)" using tlv(2) by (simp add: tlv_check_def)
  have v2: "valid content (pkgStream s2)" using t2 by (simp add: tracked_def)
  have le: "parsedLen s2 \<le> length content"
    using components_loop_start [OF env v2 _ _ loop] big s1(3) by simp
  define base where "base = (of_nat (parsedLen s2 + unat (snd tlv) + UPGRADE_RESERVE_LEN) :: u64)"
  have e2: "entries s2 = []" using s(2) by (simp add: s2 s1)
  then have start: "in_table content base 0 s2"
    using t2 le by (simp add: in_table_def tracked_def)
  have "k < SIZEOF_TLV + SIZEOF_COMP_INFO" using s1(3) by simp
  from components_loop_tables [OF env start _ this, of "unat (snd tlv)" "PkgBuffer SIZEOF_COMP_INFO" src s3] loop
  have r: "in_table content base src s3" "unat (snd tlv) \<le> src" "parsedLen s3 = parsedLen s2"
      "updateFileVersion s3 = updateFileVersion s2"
    unfolding e2 base_def by simp_all
  have src: "src = SIZEOF_COMP_INFO * length (entries s3)" using r(1) unfolding in_table_def by blast
  then have ne: "entries s3 \<noteq> []" using r(2) big by auto
  have hd: "headerOffset (hd (entries s3)) = parsedLen s2" using r(1,3) ne by (simp add: in_table_def)
  have "parsedLen s2 = parsedLen s + SIZEOF_TLV" by (simp add: s2 s1)
  then have "ReadLE16 content (parsedLen s2 - 2) = Some (snd tlv)"
    using tlv(1) s1(4) le ReadLE16_slice [of "parsedLen s" SIZEOF_TLV content 2] by simp
  then have "comp_table_len content (entries s3) = unat (snd tlv)" by (simp add: comp_table_len_def hd)
  moreover have "laid_out base (entries s3)" using r(1) by (simp add: in_table_def)
  moreover have "base = of_nat (parsedLen s3 + src + UPGRADE_RESERVE_LEN + unat (snd tlv)) - of_nat src"
    by (simp add: base_def r(3))
  ultimately have "loaded content UPGRADE_RESERVE_LEN s'"
    using r(1) ne unfolding loaded_def s' src [symmetric] by (simp add: in_table_def src [symmetric])
  moreover have "tracked content s'" using r(1) unfolding tracked_def s' in_table_def by simp
  ultimately show ?thesis by simp
qed

lemma loaded_shift:
  assumes "loaded content gap s" "entries s' = map (\<lambda>e. e\<lparr>dataOffset := dataOffset e + of_nat d\<rparr>) (entries s)"
    and "updateFileVersion s' = updateFileVersion s" "parsedLen s \<le> parsedLen s'" "parsedLen s' + gap' = parsedLen s + gap + d"
  shows "loaded content gap' s'"
proof -
  have ne: "entries s \<noteq> []" and es: "\<forall>e \<in> set (entries s). headerOffset e + SIZEOF_COMP_INFO \<le> parsedLen s
        \<and> parsed_entry content (updateFileVersion s) e"
    and lay: "laid_out (of_nat (parsedLen s + gap + comp_table_len content (entries s))
          - of_nat (SIZEOF_COMP_INFO * length (entries s))) (entries s)"
    using assms(1) by (simp_all add: loaded_def)
  have len: "comp_table_len content (entries s') = comp_table_len content (entries s)"
    using ne by (simp add: comp_table_len_def assms(2) hd_map)
  have "parsedLen s' + gap' + comp_table_len content (entries s) = parsedLen s + gap + comp_table_len content (entries s) + d"
    using assms(5) by simp
  then have sum: "(of_nat (parsedLen s' + gap' + comp_table_len content (entries s)) :: u64)
      - of_nat (SIZEOF_COMP_INFO * length (entries s))
      = of_nat (parsedLen s + gap + comp_table_len content (entries s)) - of_nat (SIZEOF_COMP_INFO * length (entries s)) + of_nat d"
    by (simp only: of_nat_add diff_add_eq)
  have n: "length (entries s') = length (entries s)" by (simp add: assms(2))
  have "laid_out (of_nat (parsedLen s' + gap' + comp_table_len content (entries s'))
          - of_nat (SIZEOF_COMP_INFO * length (entries s'))) (entries s')"
    unfolding len n sum unfolding assms(2) by (rule laid_out_shift [OF lay])
  then show ?thesis
    using ne es assms(3,4) by (auto simp: loaded_def assms(2) intro: parsed_entry_shift)
qed

lemma loaded_grown:
  assumes "loaded content gap s" "grown content s s'" "parsedLen s' + gap' = parsedLen s + gap"
  shows "loaded content gap' s'"
  using assms unfolding loaded_def grown_def by (auto simp del: of_nat_add)

section \<open>Chunks, hashes, signature\<close>

lemma reads_on_image_sizes: "stream_Read env = stream_read \<Longrightarrow> reads_on content (read_image_sizes env n)"
  by (induction n)
    (auto simp: ReadPartitionNameChunk_def ReadImageSizeChunk_def reads_on_pure intro!: reads_on_rules)

lemma reads_on_image_hashes: "stream_Read env = stream_read \<Longrightarrow> reads_on content (read_image_hashes env n)"
  by (induction n)
    (auto simp: ReadHashPartitionChunk_def ReadImageHashChunk_def reads_on_pure intro!: reads_on_rules)

lemma reads_on_chunk_list: "stream_Read env = stream_read \<Longrightarrow> reads_on content (ReadChunkListInfo env)"
  and reads_on_partition_num: "stream_Read env = stream_read \<Longrightarrow> reads_on content (ReadPartitionNumChunk env)"
  by (auto simp: ReadChunkListInfo_def ReadPartitionNumChunk_def intro!: reads_on_rules)

lemma ReadChunkInfo_loaded:
  assumes env: "stream_Read env = stream_read" and s: "tracked content s" "loaded content gap s"
    and run: "ReadChunkInfo env s = (Ok u, s')"
  shows "tracked content s' \<and> loaded content gap s' \<and> updateFileVersion s' = updateFileVersion s"
proof (cases "updateFileVersion s < 5 \<or> updateFileType s \<noteq> 1")
  case True
  then show ?thesis using run s by (simp add: ReadChunkInfo_def with_state_Ok ok_Ok)
next
  case False
  then obtain s1 s2 s3 s4 where r: "ReadChunkListInfo env s = (Ok (), s1)" "ReadPartitionNumChunk env s1 = (Ok (), s2)"
      "read_image_sizes env (partitionNum s2) s2 = (Ok (), s3)" "read_image_hashes env (partitionNum s3) s3 = (Ok (), s4)"
    and s': "s' = s4\<lparr>entries := map (\<lambda>e. e\<lparr>dataOffset := dataOffset e + of_nat (parsedLen s4 - parsedLen s)\<rparr>) (entries s4)\<rparr>"
    using run by (auto simp: ReadChunkInfo_def load_simps Let_def)
  have "grown content s s1" by (rule reads_onD [OF reads_on_chunk_list [OF env] s(1) r(1)])
  from grown_trans [OF this reads_onD [OF reads_on_partition_num [OF env] grown_tracked [OF this] r(2)]]
  have "grown content s s2" .
  from grown_trans [OF this reads_onD [OF reads_on_image_sizes [OF env] grown_tracked [OF this] r(3)]]
  have "grown content s s3" .
  from grown_trans [OF this reads_onD [OF reads_on_image_hashes [OF env] grown_tracked [OF this] r(4)]]
  have g: "grown content s s4" .
  have "loaded content gap s'"
    by (rule loaded_shift [OF s(2), of s' "parsedLen s4 - parsedLen s"]) (use g in \<open>simp_all add: s' grown_def\<close>)
  moreover have "tracked content s'" using g by (simp add: s' grown_def tracked_def)
  ultimately show ?thesis using g by (simp add: s' grown_def)
qed

lemma ReadReserveData_loaded:
  assumes env: "stream_Read env = stream_read" and s: "tracked content s" "loaded content (UPGRADE_RESERVE_LEN + gap) s"
    and run: "ReadReserveData env s = (Ok u, s')"
  shows "tracked content s' \<and> loaded content gap s' \<and> updateFileVersion s' = updateFileVersion s"
proof -
  obtain bk s1 where bk: "read_buffer env (PkgBuffer UPGRADE_RESERVE_LEN) (parsedLen s) s = (Ok bk, s1)"
    and s': "s' = s1\<lparr>descriptPackageId := ConvertBufferToString (descriptPackageId s1) (fst bk),
          digested := digested s1 @ take UPGRADE_RESERVE_LEN (fst bk), parsedLen := parsedLen s1 + UPGRADE_RESERVE_LEN\<rparr>"
    using run by (auto simp: ReadReserveData_def load_simps)
  obtain buf k where bk_eq: "bk = (buf, k)" by fastforce
  note s' = s' [unfolded bk_eq fst_conv]
  from read_facts [OF env s(1) bk [unfolded bk_eq]] obtain st where s1: "s1 = s\<lparr>pkgStream := st\<rparr>" "length buf = UPGRADE_RESERVE_LEN" by blast
  have t: "tracked content s'" by (rule tracked_read [OF env s(1) bk [unfolded bk_eq]]) (simp_all add: s' s1)
  then have g: "grown content s s'" by (simp add: grown_def s' s1)
  have "loaded content gap s'" by (rule loaded_grown [OF s(2) g]) (simp add: s' s1)
  then show ?thesis using t g by (simp add: grown_def)
qed

lemma ReadImgHashTLV_grown:
  assumes env: "stream_Read env = stream_read" and s: "tracked content s"
    and run: "ReadImgHashTLV env buf ty s = (Ok buf', s')"
  shows "grown content s s' \<and> length buf' = length buf + (parsedLen s' - parsedLen s)"
proof -
  obtain bk1 bk2 s1 s2 s3 n where r1: "read_buffer env (PkgBuffer 6) (parsedLen s) s = (Ok bk1, s1)"
    and s2: "s2 = s1\<lparr>parsedLen := parsedLen s1 + 6, digested := digested s1 @ take 6 (fst bk1)\<rparr>"
    and r2: "read_buffer env (PkgBuffer n) (parsedLen s2) s2 = (Ok bk2, s3)"
    and s': "s' = s3\<lparr>parsedLen := parsedLen s3 + n, digested := digested s3 @ take n (fst bk2)\<rparr>"
    and buf': "buf' = buf @ fst bk1 @ fst bk2"
    using run by (auto simp: ReadImgHashTLV_def load_simps)
  obtain b1 k1 b2 k2 where bk: "bk1 = (b1, k1)" "bk2 = (b2, k2)" by fastforce
  note r1 = r1 [unfolded bk] and r2 = r2 [unfolded bk]
  from read_facts [OF env s r1] obtain st where s1: "s1 = s\<lparr>pkgStream := st\<rparr>" "length b1 = 6" by blast
  have t2: "tracked content s2" by (rule tracked_read [OF env s r1]) (simp_all add: s2 s1 bk)
  from read_facts [OF env t2 r2] obtain st' where s3: "s3 = s2\<lparr>pkgStream := st'\<rparr>" "length b2 = n" by blast
  have "tracked content s'" by (rule tracked_read [OF env t2 r2]) (simp_all add: s' s3 bk)
  then show ?thesis by (simp add: grown_def s' s3 s2 s1 buf' bk)
qed

lemma ReadImgHashData_loaded:
  assumes env: "stream_Read env = stream_read" and s: "tracked content s" "loaded content gap s"
    and run: "ReadImgHashData env s = (Ok u, s')"
  shows "tracked content s' \<and> loaded content gap s' \<and> updateFileVersion s' = updateFileVersion s"
proof (cases "reads_img_hash env (updateFileVersion s)")
  case False
  then show ?thesis using run s by (simp add: ReadImgHashData_def with_state_Ok ok_Ok)
next
  case True
  then obtain b1 b2 s1 s2 c where r: "ReadImgHashTLV env [] 6 s = (Ok b1, s1)" "ReadImgHashTLV env b1 7 s1 = (Ok b2, s2)"
    and s': "s' = s2\<lparr>entries := map (\<lambda>e. e\<lparr>dataOffset := dataOffset e + of_nat (length b2)\<rparr>) (entries s2), hashCheck := c\<rparr>"
    using run by (auto simp: ReadImgHashData_def load_simps Let_def)
  have g1: "grown content s s1" "length b1 = parsedLen s1 - parsedLen s"
    using ReadImgHashTLV_grown [OF env s(1) r(1)] by simp_all
  have g2: "grown content s1 s2" "length b2 = length b1 + (parsedLen s2 - parsedLen s1)"
    using ReadImgHashTLV_grown [OF env grown_tracked [OF g1(1)] r(2)] by simp_all
  have g: "grown content s s2" by (rule grown_trans [OF g1(1) g2(1)])
  have len: "length b2 = parsedLen s2 - parsedLen s" using g1 g2 by (simp add: grown_def)
  have "loaded content gap s'"
    by (rule loaded_shift [OF s(2), of s' "length b2"]) (use g len in \<open>simp_all add: s' grown_def\<close>)
  moreover have "tracked content s'" using g by (simp add: s' grown_def tracked_def)
  ultimately show ?thesis using g by (simp add: s' grown_def)
qed

lemma ReadSignData_loaded:
  assumes env: "stream_Read env = stream_read" and s: "tracked content s" "loaded content gap s"
    and run: "ReadSignData env s = (Ok sig, s')"
  shows "parsedLen s \<le> length content \<and> digested s' = digested s \<and> loaded content gap s'
    \<and> updateFileVersion s' = updateFileVersion s \<and> digestMethod s' = digestMethod s
    \<and> (\<forall>e' \<in> set (entries s'). \<exists>e \<in> set (entries s). headerOffset e' = headerOffset e)"
proof -
  obtain bk1 bk2 s1 s2 s3 n where r1: "read_buffer env (PkgBuffer 6) (parsedLen s) s = (Ok bk1, s1)"
    and s2: "s2 = s1\<lparr>parsedLen := parsedLen s1 + 6\<rparr>"
    and r2: "read_buffer env (PkgBuffer n) (parsedLen s2) s2 = (Ok bk2, s3)"
    and s': "s' = s3\<lparr>parsedLen := parsedLen s3 + n,
        entries := map (\<lambda>e. e\<lparr>dataOffset := dataOffset e + of_nat (parsedLen s3 + n - parsedLen s)\<rparr>) (entries s3)\<rparr>"
    using run by (auto simp: ReadSignData_def load_simps simp del: of_nat_add of_nat_diff)
  obtain b1 k1 b2 k2 where bk: "bk1 = (b1, k1)" "bk2 = (b2, k2)" by fastforce
  from read_facts [OF env s(1) r1 [unfolded bk]] obtain st where s1: "s1 = s\<lparr>pkgStream := st\<rparr>"
      "valid content st" "parsedLen s \<le> length content" by blast
  have v2: "valid content (pkgStream s2)" by (simp add: s2 s1)
  from read_buffer_Ok [OF env v2 r2 [unfolded bk]] obtain st' where s3: "s3 = s2\<lparr>pkgStream := st'\<rparr>" by blast
  have "loaded content gap s'"
    by (rule loaded_shift [OF s(2), of s' "parsedLen s3 + n - parsedLen s"]) (simp_all add: s' s3 s2 s1 del: of_nat_add of_nat_diff)
  then show ?thesis using s1(3) by (auto simp: s' s3 s2 s1)
qed

section \<open>Verification\<close>

lemma VerifyFileV2_verified:
  assumes env: "stream_Read env = stream_read" and s: "tracked content s" "loaded content UPGRADE_RESERVE_LEN s"
    and run: "VerifyFileV2 env s = (Ok u, s')"
  shows "(\<exists>k sig. k \<le> length content \<and> accepted env s' (take k content) sig
      \<and> (\<forall>e \<in> set (entries s'). headerOffset e + SIZEOF_COMP_INFO \<le> k)) \<and> loaded content 0 s'
    \<and> updateFileVersion s' = updateFileVersion s"
proof -
  obtain s1 s2 sig s3 where r: "ReadReserveData env s = (Ok (), s1)" "ReadImgHashData env s1 = (Ok (), s2)"
      "ReadSignData env s2 = (Ok sig, s3)" "VerifyHeader env sig s3 = (Ok (), s')"
    using run by (auto simp: VerifyFileV2_def andThen_Ok)
  from ReadReserveData_loaded [OF env s(1) _ r(1), of 0] s(2)
  have 1: "tracked content s1" "loaded content 0 s1" "updateFileVersion s1 = updateFileVersion s" by simp_all
  from ReadImgHashData_loaded [OF env 1(1,2) r(2)]
  have 2: "tracked content s2" "loaded content 0 s2" "updateFileVersion s2 = updateFileVersion s" using 1(3) by simp_all
  from ReadSignData_loaded [OF env 2(1,2) r(3)]
  have 3: "parsedLen s2 \<le> length content" "digested s3 = digested s2" "loaded content 0 s3"
      "updateFileVersion s3 = updateFileVersion s"
      "\<forall>e' \<in> set (entries s3). \<exists>e \<in> set (entries s2). headerOffset e' = headerOffset e"
    using 2(3) by simp_all
  have s': "s' = s3" and acc: "accepted env s3 (digested s3) sig"
    using r(4) by (auto simp: VerifyHeader_def accepted_def load_simps call_verifier_Ok split: if_splits)
  have "digested s3 = take (parsedLen s2) content" using 2(1) 3(1,2) by (simp add: tracked_def)
  moreover have "\<forall>e \<in> set (entries s3). headerOffset e + SIZEOF_COMP_INFO \<le> parsedLen s2"
    using 3(5) 2(2) by (force simp: loaded_def)
  ultimately show ?thesis using acc 3(1,3,4) unfolding s' by metis
qed

lemma verify_loop_digested:
  assumes "stream_Read env = stream_read" "valid content (pkgStream s)" "GetFileLength env = length content"
    and "verify_loop fuel env offset readBytes s = (Ok u, s')"
  shows "digested s' = digested s @ drop (offset + readBytes) content \<and> entries s' = entries s
    \<and> parsedLen s' = parsedLen s \<and> updateFileVersion s' = updateFileVersion s \<and> digestMethod s' = digestMethod s"
  using assms(2,4)
proof (induction fuel arbitrary: offset readBytes s)
  case (Suc fuel)
  show ?case
  proof (cases "offset + readBytes < length content")
    case False
    then show ?thesis using Suc.prems by (simp add: assms(3) ok_Ok)
  next
    case True
    let ?o = "offset + readBytes"
    define n where "n = min (length content - ?o) BUFFER_SIZE"
    obtain bk s1 where r: "read_buffer env (PkgBuffer n) ?o s = (Ok bk, s1)"
      and rest: "verify_loop fuel env ?o (snd bk) (s1\<lparr>digested := digested s1 @ take (snd bk) (fst bk)\<rparr>) = (Ok u, s')"
      using Suc.prems(2) True by (auto simp: assms(3) load_simps Let_def n_def)
    obtain b k where bk: "bk = (b, k)" by fastforce
    from read_buffer_Ok [OF assms(1) Suc.prems(1) r [unfolded bk]] obtain st where s1: "s1 = s\<lparr>pkgStream := st\<rparr>" "valid content st"
      and b: "b = slice ?o n content @ drop k (PkgBuffer n)" and k: "k = n" by (auto simp: n_def)
    have "take k b = take n (drop ?o content)" by (simp add: b k slice_def)
    moreover have "take n (drop ?o content) @ drop (?o + n) content = drop ?o content"
      by (metis append_take_drop_id drop_drop add.commute)
    ultimately show ?thesis using Suc.IH [OF _ rest] s1 by (simp add: bk k)
  qed
qed simp

lemma verify_loop_ends:
  assumes "stream_Read env = stream_read" "valid content (pkgStream s)" "GetFileLength env = length content"
    and "length content < offset + readBytes + fuel" "0 < fuel"
  shows "fst (verify_loop fuel env offset readBytes s) \<noteq> Endless"
  using assms(2,4,5)
proof (induction fuel arbitrary: offset readBytes s)
  case (Suc fuel)
  show ?case
  proof (cases "offset + readBytes < length content")
    case False
    then show ?thesis by (simp add: assms(3) ok_def)
  next
    case True
    let ?o = "offset + readBytes"
    define n where "n = min (length content - ?o) BUFFER_SIZE"
    have n: "0 < n" using True by (simp add: n_def BUFFER_SIZE_def)
    show ?thesis
    proof (cases "\<exists>b k s1. read_buffer env (PkgBuffer n) ?o s = (Ok (b, k), s1)")
      case True
      then obtain b k s1 where r: "read_buffer env (PkgBuffer n) ?o s = (Ok (b, k), s1)" by blast
      from read_buffer_Ok [OF assms(1) Suc.prems(1) r] obtain st where s1: "s1 = s\<lparr>pkgStream := st\<rparr>" "valid content st"
        and b: "b = slice ?o n content @ drop k (PkgBuffer n)" and k: "k = n" by (auto simp: n_def)
      have "fst (verify_loop fuel env ?o n (s1\<lparr>digested := digested s1 @ take n b\<rparr>)) \<noteq> Endless"
        by (rule Suc.IH) (use s1 n Suc.prems(2) \<open>?o < length content\<close> in simp_all)
      moreover have "n \<le> length b" by (simp add: b k) (simp add: n_def)
      ultimately show ?thesis
        using \<open>?o < length content\<close> r
        by (simp add: assms(3) Let_def n_def [symmetric] andThen_def Update_def modify_def k)
    next
      case False
      then show ?thesis
        using \<open>?o < length content\<close>
        by (auto simp: assms(3) Let_def n_def [symmetric] andThen_def read_buffer_def
            split: prod.splits outcome.splits sum.splits)
    qed
  qed
qed simp

lemma VerifyFileV1_verified:
  assumes env: "stream_Read env = stream_read" "GetFileLength env = length content"
    and s: "tracked content s" "loaded content UPGRADE_RESERVE_LEN s" "updateFileVersion s < 2"
    and run: "VerifyFileV1 env s = (Ok u, s')"
  shows "(\<exists>k sig. k \<le> length content \<and> accepted env s' (unsigned_file content k) sig
      \<and> (\<forall>e \<in> set (entries s'). headerOffset e + SIZEOF_COMP_INFO \<le> k)) \<and> loaded content 0 s'
    \<and> updateFileVersion s' = updateFileVersion s"
proof -
  obtain bk s1 sig s2 desc where bk: "read_buffer env (PkgBuffer (GetUpgradeSignatureLen + UPGRADE_RESERVE_LEN)) (parsedLen s) s = (Ok bk, s1)"
    and s2: "s2 = s1\<lparr>descriptPackageId := desc,
        entries := map (\<lambda>e. e\<lparr>dataOffset := dataOffset e + of_nat GetUpgradeSignatureLen\<rparr>) (entries s1),
        digested := digested s1 @ take UPGRADE_RESERVE_LEN (fst bk) @ PkgBuffer GetUpgradeSignatureLen,
        parsedLen := parsedLen s1 + (UPGRADE_RESERVE_LEN + GetUpgradeSignatureLen)\<rparr>"
    and ver: "Verify env sig s2 = (Ok (), s')" and len: "UPGRADE_RESERVE_LEN \<le> length (fst bk)"
    using run by (auto simp: VerifyFileV1_def ReadPackageInfo_def load_simps Let_def)
  obtain b k where bk_eq: "bk = (b, k)" by fastforce
  have v: "valid content (pkgStream s)" using s(1) by (simp add: tracked_def)
  from read_buffer_Ok [OF env(1) v bk [unfolded bk_eq]] obtain st where s1: "s1 = s\<lparr>pkgStream := st\<rparr>" "valid content st"
    and le: "parsedLen s \<le> length content"
    and b: "b = slice (parsedLen s) (GetUpgradeSignatureLen + UPGRADE_RESERVE_LEN) content @
       drop k (PkgBuffer (GetUpgradeSignatureLen + UPGRADE_RESERVE_LEN))"
    and k: "k = min (GetUpgradeSignatureLen + UPGRADE_RESERVE_LEN) (length content - parsedLen s)"
    by auto
  have pad: "take UPGRADE_RESERVE_LEN b = take UPGRADE_RESERVE_LEN (drop (parsedLen s) content @ PkgBuffer UPGRADE_RESERVE_LEN)"
    unfolding b k by (auto simp: slice_def min_def GetUpgradeSignatureLen_def)
  have v2: "valid content (pkgStream s2)" using s1(2) by (simp add: s2 s1)
  obtain s3 where loop: "verify_loop (verify_fuel env) env (parsedLen s2) 0 s2 = (Ok (), s3)"
    and s': "s' = s3" and acc: "\<exists>v. verifier env = Some v \<and> v (digestMethod s3) (sha256 env (digested s3)) sig = 0"
    using ver by (auto simp: Verify_def load_simps call_verifier_Ok)
  from verify_loop_digested [OF env(1) v2 env(2) loop]
  have d: "digested s3 = unsigned_file content (parsedLen s)" "entries s3 = entries s2" "parsedLen s3 = parsedLen s2"
      "updateFileVersion s3 = updateFileVersion s"
    using s(1) le by (simp_all add: s2 s1 bk_eq pad unsigned_file_def tracked_def add.assoc)
  have "loaded content 0 s3"
    by (rule loaded_shift [OF s(2), of s3 GetUpgradeSignatureLen]) (simp_all add: d s2 s1)
  moreover have "accepted env s3 (unsigned_file content (parsedLen s)) sig"
    using acc s(3) d by (auto simp: accepted_def)
  moreover have "\<forall>e \<in> set (entries s3). headerOffset e + SIZEOF_COMP_INFO \<le> parsedLen s"
    using s(2) by (auto simp: d(2) s2 s1 loaded_def)
  ultimately show ?thesis using d(4) le unfolding s' by blast
qed

section \<open>Loading\<close>

lemma CheckState_Ok: "CheckState [st] st' s = (Ok a, s1) \<longleftrightarrow>
    a = (pkgState s = st) \<and> s1 = (if pkgState s = st then s\<lparr>pkgState := st'\<rparr> else s)"
  by (auto simp: CheckState_def load_simps)

lemma LoadPackage_phases:
  assumes env: "stream_Read env = stream_read" "measure_stream env = measure_length" and v: "fresh content (pkgStream s)" and len: "GetFileLength env = length content"
    and new: "entries s = []" and run: "LoadPackage env s = (Ok u, s')"
  shows "\<exists>s1 s2. tracked content s1 \<and> loaded content UPGRADE_RESERVE_LEN s1
    \<and> VerifyFile env s1 = (Ok (), s2) \<and> s' = s2\<lparr>updateFileHeadLen := parsedLen s2\<rparr>"
proof -
  obtain v where ver: "verifier env = Some v"
    using run by (cases "verifier env") (simp_all add: LoadPackage_def failing_Ok)
  obtain s1 s2 s3 s4 where small: "smallest_package \<le> GetFileLength env"
    and h: "ReadUpgradePkgHeader env (s\<lparr>pkgState := PKG_FILE_STATE_WORKING, pkgStream := measure_length (pkgStream s), parsedLen := 0\<rparr>) = (Ok (), s1)"
    and c: "ReadComponents env s1 = (Ok (), s2)" and i: "ReadChunkInfo env s2 = (Ok (), s3)"
    and f: "VerifyFile env s3 = (Ok (), s4)" and s': "s' = s4\<lparr>updateFileHeadLen := parsedLen s4\<rparr>"
    using run unfolding LoadPackage_def ver option.case CheckState_Ok andThen_Ok if_Ok failing_Ok modify_Ok
      with_head_len_Ok env(2) by (auto split: if_splits elim: that)
  have 1: "tracked content s1" "entries s1 = []"
    using ReadUpgradePkgHeader_tracked [OF env(1) _ _ _ h, of content] measured [OF v] small len new by simp_all
  from ReadComponents_loaded [OF env(1) 1 c] ReadChunkInfo_loaded [OF env(1) _ _ i]
  have "tracked content s3" "loaded content UPGRADE_RESERVE_LEN s3" by blast+
  then show ?thesis using f s' by blast
qed

lemma loaded_head_len: "loaded content gap (s\<lparr>updateFileHeadLen := n\<rparr>) = loaded content gap s"
  by (simp add: loaded_def)

lemma LoadPackage_verified:
  assumes env: "stream_Read env = stream_read" "measure_stream env = measure_length" and v: "fresh content (pkgStream s)" and len: "GetFileLength env = length content"
    and new: "entries s = []" and run: "LoadPackage env s = (Ok u, s')" and ver: "2 \<le> updateFileVersion s'"
  shows "\<exists>k sig. k \<le> length content \<and> accepted env s' (take k content) sig
      \<and> (\<forall>e \<in> set (entries s'). headerOffset e + SIZEOF_COMP_INFO \<le> k \<and> parsed_entry content (updateFileVersion s') e)"
proof -
  obtain s1 s2 where s: "tracked content s1" "loaded content UPGRADE_RESERVE_LEN s1"
    and f: "VerifyFile env s1 = (Ok (), s2)" and s': "s' = s2\<lparr>updateFileHeadLen := parsedLen s2\<rparr>"
    using LoadPackage_phases [OF env v len new run] by blast
  have acc: "accepted env (s2\<lparr>updateFileHeadLen := n\<rparr>) m sig = accepted env s2 m sig" for n m sig
    by (simp add: accepted_def split: option.splits)
  show ?thesis
  proof (cases "2 \<le> updateFileVersion s1")
    case True
    then have "VerifyFileV2 env s1 = (Ok (), s2)" using f by (simp add: VerifyFile_def with_state_Ok)
    from VerifyFileV2_verified [OF env(1) s this] show ?thesis
      unfolding s' by (auto simp: loaded_def acc)
  next
    case False
    then have "VerifyFileV1 env s1 = (Ok (), s2)" using f by (simp add: VerifyFile_def with_state_Ok)
    then have "updateFileVersion s2 = updateFileVersion s1"
      using VerifyFileV1_verified [OF env(1) len s] False by simp
    then show ?thesis using False ver by (simp add: s')
  qed
qed

lemma LoadPackage_verified_V1:
  assumes env: "stream_Read env = stream_read" "measure_stream env = measure_length" and v: "fresh content (pkgStream s)" and len: "GetFileLength env = length content"
    and new: "entries s = []" and run: "LoadPackage env s = (Ok u, s')" and ver: "updateFileVersion s' < 2"
  shows "\<exists>k sig. k \<le> length content \<and> accepted env s' (unsigned_file content k) sig
      \<and> (\<forall>e \<in> set (entries s'). headerOffset e + SIZEOF_COMP_INFO \<le> k \<and> parsed_entry content (updateFileVersion s') e)"
proof -
  obtain s1 s2 where s: "tracked content s1" "loaded content UPGRADE_RESERVE_LEN s1"
    and f: "VerifyFile env s1 = (Ok (), s2)" and s': "s' = s2\<lparr>updateFileHeadLen := parsedLen s2\<rparr>"
    using LoadPackage_phases [OF env v len new run] by blast
  have acc: "accepted env (s2\<lparr>updateFileHeadLen := n\<rparr>) m sig = accepted env s2 m sig" for n m sig
    by (simp add: accepted_def split: option.splits)
  show ?thesis
  proof (cases "2 \<le> updateFileVersion s1")
    case True
    then have "updateFileVersion s2 = updateFileVersion s1"
      using VerifyFileV2_verified [OF env(1) s] f by (simp add: VerifyFile_def with_state_Ok)
    then show ?thesis using True ver by (simp add: s')
  next
    case False
    then have "VerifyFileV1 env s1 = (Ok (), s2)" "updateFileVersion s1 < 2"
      using f by (simp_all add: VerifyFile_def with_state_Ok)
    from VerifyFileV1_verified [OF env(1) len s this(2) this(1)] show ?thesis
      unfolding s' by (auto simp: loaded_def acc)
  qed
qed

lemma LoadPackage_laid_out:
  assumes env: "stream_Read env = stream_read" "measure_stream env = measure_length" and v: "fresh content (pkgStream s)" and len: "GetFileLength env = length content"
    and new: "entries s = []" and run: "LoadPackage env s = (Ok u, s')"
  shows "entries s' \<noteq> [] \<and> laid_out (of_nat (updateFileHeadLen s' + comp_table_len content (entries s'))
      - of_nat (SIZEOF_COMP_INFO * length (entries s'))) (entries s')"
proof -
  obtain s1 s2 where s: "tracked content s1" "loaded content UPGRADE_RESERVE_LEN s1"
    and f: "VerifyFile env s1 = (Ok (), s2)" and s': "s' = s2\<lparr>updateFileHeadLen := parsedLen s2\<rparr>"
    using LoadPackage_phases [OF env v len new run] by blast
  have "loaded content 0 s2"
    using f VerifyFileV1_verified [OF env(1) len s] VerifyFileV2_verified [OF env(1) s]
    by (auto simp: VerifyFile_def with_state_Ok split: if_splits)
  then show ?thesis by (simp add: loaded_def s' del: of_nat_add of_nat_mult)
qed

end

section \<open>Loops end\<close>

definition ends :: "('s, 'h, 'a) load \<Rightarrow> bool" where
  "ends m \<longleftrightarrow> (\<forall>s. fst (m s) \<noteq> Endless)"

lemma ends_andThen: "ends m \<Longrightarrow> (\<And>a. ends (f a)) \<Longrightarrow> ends (andThen m f)"
  unfolding ends_def andThen_def by (auto split: prod.splits outcome.splits) (metis fst_conv)+

lemma ends_pure: "ends (ok a)" "ends (failing e)" "ends (checked x)" "ends (modify f)" "ends (Update b n)"
    "ends (advance n)" "ends (AddDataOffset n)"
  by (auto simp: ends_def ok_def failing_def checked_def modify_def Update_def advance_def AddDataOffset_def
      split: option.splits)

lemma ends_if: "(c \<Longrightarrow> ends m) \<Longrightarrow> (\<not> c \<Longrightarrow> ends m') \<Longrightarrow> ends (if c then m else m')"
  by simp

lemma ends_with_state: "(\<And>s. ends (f s)) \<Longrightarrow> ends (with_state f)"
  by (auto simp: ends_def with_state_def)

lemma ends_failing_as: "ends m \<Longrightarrow> ends (failing_as e m)"
  by (auto simp: ends_def failing_as_def split: prod.splits outcome.splits) (metis fst_conv)+

lemma ends_case_prod: "(\<And>a b. ends (f a b)) \<Longrightarrow> ends (case p of (a, b) \<Rightarrow> f a b)"
  by (cases p) simp

lemma ends_read_buffer: "ends (read_buffer env buf start)"
  by (auto simp: ends_def read_buffer_def split: prod.splits sum.splits)

lemmas ends_rules = ends_andThen ends_pure ends_if ends_with_state ends_failing_as ends_case_prod ends_read_buffer

lemma ends_read_tlv: "ends (read_tlv buf i)"
  unfolding read_tlv_def by (intro ends_rules)

lemma ends_header: "ends (ReadUpgradePkgHeader env)"
  unfolding ReadUpgradePkgHeader_def ParsePkgHeaderToTlv_def read_time_tlv_def Let_def
  by (intro ends_rules ends_read_tlv)

lemma ends_case_outcome:
  "(\<And>e. ends (f e)) \<Longrightarrow> ends (case r of Ok e \<Rightarrow> f e | Err c \<Rightarrow> failing c | Out_Of_Bounds \<Rightarrow> checked None | Endless \<Rightarrow> checked None)"
  by (cases r) (simp_all add: ends_pure)

lemma ends_SaveEntry: "ends (SaveEntry buffer currLen readLen src doff)"
  unfolding SaveEntry_def by (intro ends_rules ends_case_outcome)

lemma ends_components_loop: "ends (components_loop env tlvLen src doff currLen readLen compBuffer)"
  by (induction "tlvLen - src" arbitrary: src doff currLen readLen compBuffer rule: less_induct)
    (subst components_loop.simps, auto simp: Let_def intro!: ends_rules ends_SaveEntry)

lemma ends_components: "ends (ReadComponents env)"
  unfolding ReadComponents_def by (intro ends_rules ends_read_tlv ends_components_loop)

lemma ends_ReadChunkTlv: "ends (ReadChunkTlv env hlen ty)"
  unfolding ReadChunkTlv_def Let_def by (intro ends_rules)

lemma ends_image_tables: "ends (read_image_sizes env n)" "ends (read_image_hashes env n)"
  by (induction n) (auto simp: ReadPartitionNameChunk_def ReadImageSizeChunk_def ReadHashPartitionChunk_def
      ReadImageHashChunk_def intro!: ends_rules ends_ReadChunkTlv)

lemma ends_chunk_info: "ends (ReadChunkInfo env)"
  unfolding ReadChunkInfo_def ReadChunkListInfo_def ReadPartitionNumChunk_def Let_def
  by (intro ends_rules ends_ReadChunkTlv ends_image_tables)

lemma ends_V2: "ends (VerifyFileV2 env)"
proof -
  have verifier: "ends (call_verifier env sig)" for sig
    unfolding call_verifier_def by (intro ends_rules)
  have tlv: "ends (ReadImgHashTLV env buf ty)" for buf ty
    unfolding ReadImgHashTLV_def by (intro ends_rules)
  show ?thesis
    unfolding VerifyFileV2_def ReadReserveData_def ReadImgHashData_def ReadSignData_def VerifyHeader_def Let_def
    by (intro ends_rules verifier tlv)
qed

lemma ends_package_info: "ends (ReadPackageInfo env)"
  unfolding ReadPackageInfo_def Let_def by (intro ends_rules)

lemma andThen_Endless:
  "andThen m f s = (Endless, s') \<Longrightarrow> ends m \<Longrightarrow> \<exists>a s1. m s = (Ok a, s1) \<and> f a s1 = (Endless, s')"
  unfolding ends_def andThen_def by (auto split: prod.splits outcome.splits) (metis fst_conv)+

context package_stream
begin

lemma VerifyFileV1_ends:
  assumes env: "stream_Read env = stream_read" "GetFileLength env = length content" and s: "tracked content s"
  shows "fst (VerifyFileV1 env s) \<noteq> Endless"
proof
  assume "fst (VerifyFileV1 env s) = Endless"
  then obtain s' where "VerifyFileV1 env s = (Endless, s')" by (metis prod.collapse)
  then obtain sig s1 where info: "ReadPackageInfo env s = (Ok sig, s1)" and ver: "Verify env sig s1 = (Endless, s')"
    unfolding VerifyFileV1_def using andThen_Endless [OF _ ends_package_info] by blast
  obtain bk s0 where r: "read_buffer env (PkgBuffer (GetUpgradeSignatureLen + UPGRADE_RESERVE_LEN)) (parsedLen s) s = (Ok bk, s0)"
    and s1: "pkgStream s1 = pkgStream s0"
    using info by (auto simp: ReadPackageInfo_def load_simps Let_def)
  obtain b k where bk: "bk = (b, k)" by fastforce
  from read_facts [OF env(1) s r [unfolded bk]] obtain st where "s0 = s\<lparr>pkgStream := st\<rparr>" "valid content st" by blast
  then have v1: "valid content (pkgStream s1)" by (simp add: s1)
  have "fst (verify_loop (verify_fuel env) env (parsedLen s1) 0 s1) \<noteq> Endless"
    by (rule verify_loop_ends [OF env(1) v1 env(2)]) (simp_all add: verify_fuel_def env(2))
  moreover have "ends (call_verifier env sig)" unfolding call_verifier_def by (intro ends_rules)
  ultimately show False
    using ver by (auto simp: Verify_def with_state_def andThen_def ends_def split: prod.splits outcome.splits)
      (metis fst_conv)+
qed

lemma LoadPackage_ends:
  assumes env: "stream_Read env = stream_read" "measure_stream env = measure_length" and v: "fresh content (pkgStream s)" and len: "GetFileLength env = length content"
    and new: "entries s = []"
  shows "fst (LoadPackage env s) \<noteq> Endless"
proof
  assume "fst (LoadPackage env s) = Endless"
  then obtain s' where run: "LoadPackage env s = (Endless, s')" by (metis prod.collapse)
  then obtain v where ver: "verifier env = Some v"
    by (cases "verifier env") (simp_all add: LoadPackage_def failing_def)
  have "ends (CheckState [PKG_FILE_STATE_IDLE] PKG_FILE_STATE_WORKING)" unfolding CheckState_def by (intro ends_rules)
  from andThen_Endless [OF run [unfolded LoadPackage_def ver option.case] this] obtain a s0 where
    c: "CheckState [PKG_FILE_STATE_IDLE] PKG_FILE_STATE_WORKING s = (Ok a, s0)" and
    rest: "(if \<not> a then failing PKG_INVALID_STATE
        else andThen (modify (\<lambda>s. s\<lparr>pkgStream := measure_stream env (pkgStream s)\<rparr>)) (\<lambda>_.
          if GetFileLength env < smallest_package then failing PKG_INVALID_FILE
          else andThen (modify (\<lambda>s. s\<lparr>parsedLen := 0\<rparr>)) (\<lambda>_.
            andThen (ReadUpgradePkgHeader env) (\<lambda>_. andThen (ReadComponents env) (\<lambda>_.
            andThen (ReadChunkInfo env) (\<lambda>_. with_head_len (VerifyFile env))))))) s0 = (Endless, s')" by blast
  let ?s = "s0\<lparr>pkgStream := measure_length (pkgStream s0), parsedLen := 0\<rparr>"
  have small: "smallest_package \<le> length content"
    using rest len by (auto simp: failing_def andThen_def modify_def split: if_splits)
  have "andThen (ReadUpgradePkgHeader env) (\<lambda>_. andThen (ReadComponents env) (\<lambda>_.
          andThen (ReadChunkInfo env) (\<lambda>_. with_head_len (VerifyFile env)))) ?s = (Endless, s')"
    using rest small len env(2) by (simp add: failing_def andThen_modify split: if_splits)
  from andThen_Endless [OF this ends_header] obtain s1 where h: "ReadUpgradePkgHeader env ?s = (Ok (), s1)"
    and r1: "andThen (ReadComponents env) (\<lambda>_. andThen (ReadChunkInfo env) (\<lambda>_. with_head_len (VerifyFile env))) s1 = (Endless, s')"
    by auto
  from andThen_Endless [OF r1 ends_components] obtain s2 where p: "ReadComponents env s1 = (Ok (), s2)"
    and r2: "andThen (ReadChunkInfo env) (\<lambda>_. with_head_len (VerifyFile env)) s2 = (Endless, s')"
    by auto
  from andThen_Endless [OF r2 ends_chunk_info] obtain s3 where i: "ReadChunkInfo env s2 = (Ok (), s3)"
    and r3: "with_head_len (VerifyFile env) s3 = (Endless, s')"
    by auto
  have s0: "pkgStream s0 = pkgStream s" "entries s0 = []" using c new by (auto simp: CheckState_Ok split: if_splits)
  have 1: "tracked content s1" "entries s1 = []"
    using ReadUpgradePkgHeader_tracked [OF env(1) _ _ small h] measured [OF v] s0 by simp_all
  from ReadComponents_loaded [OF env(1) 1 p] ReadChunkInfo_loaded [OF env(1) _ _ i]
  have 3: "tracked content s3" by blast
  have "fst (VerifyFile env s3) = Endless" using r3 by (auto simp: with_head_len_def split: prod.splits)
  then show False
    using VerifyFileV1_ends [OF env(1) len 3] ends_V2 [of env] by (auto simp: VerifyFile_def with_state_def ends_def split: if_splits)
qed

end

end
