(* ===== verification/Pkg_Verified.thy ===== *)
theory Pkg_Verified
  imports Pkg_Upgrade_Laws
begin

text \<open>
  What a loaded package guarantees, for the streams a package is read from: the laws of
  \<open>Pkg_Upgrade_Laws\<close> through the interpretations of \<open>package_stream\<close>.
\<close>

text \<open>What asking a file stream for its length does to it.\<close>

abbreviation file_measure :: "file_stream \<Rightarrow> file_stream" where
  "file_measure f \<equiv> snd (FileStream_GetFileLength f)"

definition sample_package :: bytes where
  "sample_package = [1, 0, 136, 0] @ replicate 4 0 @ [2, 0, 0, 0] @ replicate 128 0 @ [2, 0, 32, 0] @ replicate 32 0
     @ [5, 0, 87, 0] @ [97] @ replicate 86 0 @ replicate 16 0 @ [8, 0, 1, 0, 0, 0, 7] @ replicate 700 0"

definition sample_env :: "'s stream_read \<Rightarrow> ('s \<Rightarrow> 's) \<Rightarrow> nat \<Rightarrow> ('s, unit) pkg_env" where
  "sample_env reader measured n = \<lparr>stream_Read = reader, measure_stream = measured, GetFileLength = n, sha256 = (\<lambda>_. []), verifier = Some (\<lambda>_ _ _. 0),
     Pkcs7verify = (\<lambda>_. (0, [])), CheckUpdateMode = (\<lambda>_. False), LoadImgHashData = (\<lambda>_. None),
     LoadImgHashDataNew = (\<lambda>_. None)\<rparr>"

definition sample_package_V1 :: bytes where
  "sample_package_V1 = [1, 0, 136, 0] @ replicate 4 0 @ [1, 0, 0, 0] @ replicate 128 0 @ [2, 0, 32, 0] @ replicate 32 0
     @ [5, 0, 87, 0] @ [97] @ replicate 86 0 @ replicate 656 0"

definition open_file :: "bytes \<Rightarrow> file_stream" where
  "open_file content = \<lparr>stream_open = True, file_bytes = content, file_pos = 0, fileLength = 0, writable = False\<rparr>"

definition flow_file :: "bytes list \<Rightarrow> flow_stream" where
  "flow_file blocks = \<lparr>pops = blocks, block = [], bufOffset = 0, avail = 0, readOffset = 0\<rparr>"

lemma new_upgrade_file_simps [simp]:
  "pkgStream (new_upgrade_file st) = st" "entries (new_upgrade_file st) = []"
  "pkgState (new_upgrade_file st) = PKG_FILE_STATE_IDLE"
  by (simp_all add: new_upgrade_file_def)

lemma sample_env_simps [simp]:
  "stream_Read (sample_env reader measured n) = reader" "measure_stream (sample_env reader measured n) = measured" "GetFileLength (sample_env reader measured n) = n"
  "verifier (sample_env reader measured n) = Some (\<lambda>_ _ _. 0)"
  by (simp_all add: sample_env_def)

lemma valid_samples:
  "content \<noteq> [] \<Longrightarrow> file_fresh content (open_file content)"   "flow_valid (concat blocks) (flow_file blocks)"
  by (simp_all add: file_fresh_def open_file_def flow_valid_def flow_file_def
      flow_wf_def remaining_def)

lemma length_samples: "length sample_package = 990" "length sample_package_V1 = 923"
    "sample_package \<noteq> []" "sample_package_V1 \<noteq> []"
  by (simp_all add: sample_package_def sample_package_V1_def)

lemma sample_loads:
  "case LoadPackage (sample_env FileStream_Read file_measure 990) (new_upgrade_file (open_file sample_package)) of
     (r, s') \<Rightarrow> r = Ok () \<and> 2 \<le> updateFileVersion s'"
  by code_simp

lemma sample_V1_loads:
  "case LoadPackage (sample_env FileStream_Read file_measure 923) (new_upgrade_file (open_file sample_package_V1)) of
     (r, s') \<Rightarrow> r = Ok () \<and> updateFileVersion s' < 2"
  by code_simp

lemma sample_flows:
  "case LoadPackage (sample_env FlowDataStream_Read id 990) (new_upgrade_file (flow_file [sample_package])) of
     (r, s') \<Rightarrow> r = Ok ()"
  by code_simp

text \<open>
  C4. When loading a package file of version 2 or later succeeds, a signature has been accepted for a
  beginning of the file, and every component in the table has been decoded from that beginning: no
  component comes from bytes that are not covered by the signature.
\<close>

theorem verified_components:
  assumes "stream_Read env = FileStream_Read" "measure_stream env = file_measure" "file_fresh content (pkgStream s)" "GetFileLength env = length content"
    and "entries s = []" "LoadPackage env s = (Ok (), s')" "2 \<le> updateFileVersion s'"
  shows "\<exists>k sig. k \<le> length content \<and> accepted env s' (take k content) sig
      \<and> (\<forall>e \<in> set (entries s'). headerOffset e + SIZEOF_COMP_INFO \<le> k \<and> parsed_entry content (updateFileVersion s') e)"
  by (rule regular.LoadPackage_verified [OF assms])

theorem verified_components_witness:
  "\<exists>k sig. k \<le> length sample_package
     \<and> accepted (sample_env FileStream_Read file_measure 990)
         (snd (LoadPackage (sample_env FileStream_Read file_measure 990) (new_upgrade_file (open_file sample_package)))) (take k sample_package) sig
     \<and> (\<forall>e \<in> set (entries (snd (LoadPackage (sample_env FileStream_Read file_measure 990) (new_upgrade_file (open_file sample_package))))).
          headerOffset e + SIZEOF_COMP_INFO \<le> k \<and> parsed_entry sample_package
            (updateFileVersion (snd (LoadPackage (sample_env FileStream_Read file_measure 990) (new_upgrade_file (open_file sample_package))))) e)"
  by (rule verified_components) (use sample_loads in \<open>auto simp: valid_samples length_samples split: prod.splits\<close>)

text \<open>
  C30. When loading a package of version 1 succeeds, the signature has been accepted for
  the whole file with zeros in the place of the two signatures, and the components come from the
  part before them.
\<close>

theorem verified_whole_file:
  assumes "stream_Read env = FileStream_Read" "measure_stream env = file_measure" "file_fresh content (pkgStream s)" "GetFileLength env = length content"
    and "entries s = []" "LoadPackage env s = (Ok (), s')" "updateFileVersion s' < 2"
  shows "\<exists>k sig. k \<le> length content \<and> accepted env s' (unsigned_file content k) sig
      \<and> (\<forall>e \<in> set (entries s'). headerOffset e + SIZEOF_COMP_INFO \<le> k \<and> parsed_entry content (updateFileVersion s') e)"
  by (rule regular.LoadPackage_verified_V1 [OF assms])

theorem verified_whole_file_witness:
  "\<exists>k sig. k \<le> length sample_package_V1
     \<and> accepted (sample_env FileStream_Read file_measure 923)
         (snd (LoadPackage (sample_env FileStream_Read file_measure 923) (new_upgrade_file (open_file sample_package_V1))))
         (unsigned_file sample_package_V1 k) sig
     \<and> (\<forall>e \<in> set (entries (snd (LoadPackage (sample_env FileStream_Read file_measure 923) (new_upgrade_file (open_file sample_package_V1))))).
          headerOffset e + SIZEOF_COMP_INFO \<le> k \<and> parsed_entry sample_package_V1
            (updateFileVersion (snd (LoadPackage (sample_env FileStream_Read file_measure 923) (new_upgrade_file (open_file sample_package_V1))))) e)"
  by (rule verified_whole_file) (use sample_V1_loads in \<open>auto simp: valid_samples length_samples split: prod.splits\<close>)

text \<open>
  After a package has been loaded from a flow stream, the data of its components follow one
  another without gaps, and when the table is a whole number of components the data of the first one
  begin right behind the head, that is behind the signature: the offsets account for the chunk
  information, the image hashes and the signature that lie in between.
\<close>

theorem component_data_layout:
  assumes "stream_Read env = FlowDataStream_Read" "measure_stream env = id" "flow_valid content (pkgStream s)" "GetFileLength env = length content"
    and "entries s = []" "LoadPackage env s = (Ok (), s')"
  shows "entries s' \<noteq> [] \<and> laid_out (of_nat (updateFileHeadLen s' + comp_table_len content (entries s'))
      - of_nat (SIZEOF_COMP_INFO * length (entries s'))) (entries s')"
  by (rule flowing.LoadPackage_laid_out [OF assms])

theorem component_data_layout_witness:
  "let s' = snd (LoadPackage (sample_env FlowDataStream_Read id 990) (new_upgrade_file (flow_file [sample_package])))
   in entries s' \<noteq> [] \<and> laid_out (of_nat (updateFileHeadLen s' + comp_table_len sample_package (entries s'))
      - of_nat (SIZEOF_COMP_INFO * length (entries s'))) (entries s')"
  unfolding Let_def
  by (rule component_data_layout [of "sample_env FlowDataStream_Read id 990" _ "new_upgrade_file (flow_file [sample_package])"])
    (use sample_flows valid_samples(2) [of "[sample_package]"] in \<open>auto simp: length_samples split: prod.splits\<close>)

text \<open>
  Loading a package ends: the table loop moves on by one component at a time, and the digest loop
  over the rest of the file reads at least one byte in every round.
\<close>

theorem load_package_ends:
  assumes "stream_Read env = FileStream_Read" "measure_stream env = file_measure" "file_fresh content (pkgStream s)" "GetFileLength env = length content"
    and "entries s = []"
  shows "fst (LoadPackage env s) \<noteq> Endless"
  by (rule regular.LoadPackage_ends [OF assms])

theorem load_package_ends_witness:
  "fst (LoadPackage (sample_env FileStream_Read file_measure 990) (new_upgrade_file (open_file sample_package))) \<noteq> Endless"
  by (rule load_package_ends [of _ sample_package]) (simp_all add: valid_samples length_samples)

text \<open>
  Determining the length of a file stream moves its position to the beginning. A first read at
  another position sets the position, then asks for the length, and so delivers the beginning of the
  file instead of the bytes asked for.
\<close>

theorem first_read_ignores_position:
  assumes "stream_open f" "fileLength f = 0" "start \<le> length (file_bytes f)" "file_bytes f \<noteq> []" "0 < need"
  shows "fst (FileStream_Read f start need) = Inr (take need (file_bytes f))"
  by (rule FileStream_Read_unmeasured [OF assms])

theorem first_read_ignores_position_witness:
  "fst (FileStream_Read (open_file [1, 2, 3, 4]) 2 2) = Inr [1, 2]"
  using first_read_ignores_position [of "open_file [1, 2, 3, 4]" 2 2] by (simp add: open_file_def)

section \<open>A crafted header\<close>

lemma ReadLE16_in: "i + 2 \<le> length b \<Longrightarrow> \<exists>v. ReadLE16 b i = Some v"
  by (simp add: ReadLE16_def)

lemma field_string_in: "i + n \<le> length b \<Longrightarrow> \<exists>v. field_string name b i n = Some v"
  by (simp add: field_string_def)

lemma ParsePkgHeaderToTlv_full:
  assumes "length buf = UPGRADE_FILE_BASIC_LEN"
  shows "\<exists>ty len s'. ReadLE16 buf 2 = Some len \<and> ParsePkgHeaderToTlv buf s = (Ok (SIZEOF_TLV, ty, len), s')"
proof -
  obtain ty len ver fty where r: "ReadLE16 buf 0 = Some ty" "ReadLE16 buf 2 = Some len" "ReadLE16 buf 8 = Some ver"
      "ReadLE16 buf 10 = Some fty"
    using ReadLE16_in [of 0 buf] ReadLE16_in [of 2 buf] ReadLE16_in [of 8 buf] ReadLE16_in [of 10 buf] assms by auto
  have f: "field_string name buf 76 64 = Some (ConvertBufferToString name (slice 76 64 buf))"
    "field_string name buf 12 64 = Some (ConvertBufferToString name (slice 12 64 buf))" for name
    using assms by (simp_all add: field_string_def)
  show ?thesis
    by (simp add: ParsePkgHeaderToTlv_def andThen_def modify_def read_tlv_def checked_def with_state_def ok_def
        r f numeral_2_eq_2 [symmetric])
qed

text \<open>
  C31. The length of the first TLV of a package is not checked: when it is larger than 172, digesting
  the header reads past the end of the 176 byte buffer it was read into, before any signature has
  been verified.
\<close>

theorem crafted_header_reads_past_buffer:
  assumes "stream_Read env = FileStream_Read" "measure_stream env = file_measure" "file_fresh content (pkgStream s)" "GetFileLength env = length content"
    and "verifier env \<noteq> None" "pkgState s = PKG_FILE_STATE_IDLE" "smallest_package \<le> length content"
    and "ReadLE16 content 2 = Some len" "172 < unat len"
  shows "fst (LoadPackage env s) = Out_Of_Bounds"
proof -
  obtain v where v: "verifier env = Some v" using assms(5) by auto
  let ?s = "s\<lparr>pkgState := PKG_FILE_STATE_WORKING, pkgStream := file_measure (pkgStream s), parsedLen := 0\<rparr>"
  let ?buf = "slice 0 UPGRADE_FILE_BASIC_LEN content"
  have big: "923 \<le> length content" using assms(7) by (simp add: smallest_package_def GetUpgradeSignatureLen_def)
  then have lb: "length ?buf = UPGRADE_FILE_BASIC_LEN" by simp
  have "file_valid content (file_measure (pkgStream s))" by (rule regular.measured [OF assms(3)])
  then obtain st where "FileStream_Read (file_measure (pkgStream s)) 0 UPGRADE_FILE_BASIC_LEN = (Inr ?buf, st)"
    using big by (auto simp: FileStream_Read_def file_valid_def FileStream_GetFileLength_def Let_def slice_def)
  then have read: "read_buffer env (PkgBuffer UPGRADE_FILE_BASIC_LEN) 0 ?s = (Ok (?buf, UPGRADE_FILE_BASIC_LEN), ?s\<lparr>pkgStream := st\<rparr>)"
    using lb by (simp add: read_buffer_def assms(1))
  obtain ty len' s1 where parse: "ReadLE16 ?buf 2 = Some len'"
      "ParsePkgHeaderToTlv ?buf (?s\<lparr>pkgStream := st\<rparr>) = (Ok (SIZEOF_TLV, ty, len'), s1)"
    using ParsePkgHeaderToTlv_full [OF lb] by blast
  have "len' = len" using ReadLE16_slice [OF parse(1), unfolded add_0] assms(8) by simp
  then have "ReadUpgradePkgHeader env ?s = (Out_Of_Bounds,
      s1\<lparr>digested := [], parsedLen := SIZEOF_TLV + unat len\<rparr>)"
    unfolding ReadUpgradePkgHeader_def andThen_def [of "read_buffer _ _ _"] read
    using assms(9) lb parse(2)
    by (simp add: andThen_def modify_def Update_def checked_def Let_def)
  then have "fst (andThen (ReadUpgradePkgHeader env) f ?s) = Out_Of_Bounds" for f :: "unit \<Rightarrow> (file_stream, 'a, unit) load"
    by (simp add: andThen_def)
  moreover have "CheckState [PKG_FILE_STATE_IDLE] PKG_FILE_STATE_WORKING s = (Ok True, s\<lparr>pkgState := PKG_FILE_STATE_WORKING\<rparr>)"
    by (simp add: regular.CheckState_Ok assms(6))
  ultimately show ?thesis
    using assms(2,4,7) by (simp add: LoadPackage_def v andThen_def [of "CheckState _ _"] andThen_modify)
qed

definition crafted_package :: bytes where
  "crafted_package = [1, 0, 255, 0] @ replicate 919 0"

theorem crafted_header_reads_past_buffer_witness:
  "fst (LoadPackage (sample_env FileStream_Read file_measure 923) (new_upgrade_file (open_file crafted_package))) = Out_Of_Bounds"
  by (rule crafted_header_reads_past_buffer [of _ crafted_package _ 255])
    (simp_all add: valid_samples(1) crafted_package_def smallest_package_def GetUpgradeSignatureLen_def ReadLE16_def)

section \<open>The component header\<close>


definition sample_entry :: comp_entry where
  "sample_entry = \<lparr>nodeId = 1, identity = [47, 97], comp_version = [49], packedSize = 5, unpackedSize = 5, originalSize = 7,
     comp_id = 300, resType = 1, compFlags = 2, comp_type = 3, comp_digest = replicate 32 9, headerOffset = 180, dataOffset = 1000\<rparr>"


end
