(* ===== verification/Bin_Chunk.thy ===== *)
theory Bin_Chunk
  imports Command_Process Pkg_Upgrade
begin

text \<open>
  The streamed installation (\<open>BinChunkUpdate\<close> of \<open>src/services/stream_update/bin_chunk_update.cpp\<close>):
  the package arrives in pieces of any size, is collected in a buffer, and the chunks in it are
  installed by the stream variants of the block commands as soon as they are complete.

  The buffer is the whole array of \<open>maxBufSize_\<close> bytes, so a read past \<open>curlen_\<close> delivers what is left
  there from before; a read past the array, and the call of a command that does not exist, is
  \<open>Undefined\<close>. \<open>Unfinished\<close> is the result of a loop cut off by its fuel.
\<close>

datatype update_result = STREAM_UPDATE_SUCCESS | STREAM_UPDATE_FAILURE | STREAM_UPDATE_COMPLETE

abbreviation (input) BIN_UPDATE_ZIP_TIP :: nat where "BIN_UPDATE_ZIP_TIP \<equiv> 0xaa"
abbreviation (input) BIN_UPDATE_HEAD_TIP :: nat where "BIN_UPDATE_HEAD_TIP \<equiv> 0x01"
abbreviation (input) BIN_UPDATE_DATA_TIP :: nat where "BIN_UPDATE_DATA_TIP \<equiv> 0x12"
abbreviation (input) BIN_UPDATE_HASH_TIP :: nat where "BIN_UPDATE_HASH_TIP \<equiv> 0x16"

datatype chunk_step = CHUNK_INSTALL_STEP_PRE | CHUNK_INSTALL_STEP_DO | CHUNK_INSTALL_STEP_POST

datatype 'a chunk_run = Finished 'a | Undefined | Unfinished

record bin_update =
  chunkBuffer :: bytes
  curlen :: nat
  chunkOffset :: nat
  skipLength :: nat
  firstBuffer :: bool
  packageHead :: "nat option"
  componentNames :: "bytes list"
  needNewData :: bool
  updateStep :: chunk_step
  sourceFd :: int
  destFd :: int
  transferParams :: "transfer_params option"
  curPartition :: string
  patitionNum :: nat
  hashInput :: bytes
  chunkWorld :: world

text \<open>
  The environment: the libraries of the commands, the environment in which a package in memory of the
  given length is loaded, the devices of a partition (\<open>GetBlockDeviceByMountPoint\<close> and the slot
  suffix), whether the program runs as the updater, the verification of a signature with the
  certificate of the device, and the content of the target device of a partition.
\<close>

record ('z, 'h) chunk_env =
  chunk_lib :: "'z lib"
  load_env :: "nat \<Rightarrow> (memory_stream, 'h) pkg_env"
  source_path :: "string \<Rightarrow> string"
  target_path :: "string \<Rightarrow> string"
  in_updater :: bool
  VerifyDigest :: "bytes \<Rightarrow> bytes \<Rightarrow> bool"

text \<open>Text read from a buffer.\<close>

definition text_of :: "bytes \<Rightarrow> string" where
  "text_of bs = map (\<lambda>b. char_of (unat b)) bs"

text \<open>The difference of two \<open>uint32_t\<close>.\<close>

definition left_of :: "nat \<Rightarrow> nat \<Rightarrow> nat" where
  "left_of len off = (if off \<le> len then len - off else 2 ^ 32 - (off - len))"

abbreviation (input) need_data :: "bin_update \<Rightarrow> bin_update" where
  "need_data st \<equiv> st\<lparr>needNewData := True\<rparr>"

section \<open>One chunk\<close>

text \<open>
  A step that reads from the buffer: whether it found what it needs, the offset behind it, and the
  new state.
\<close>

type_synonym 'a chunk_read = "nat \<Rightarrow> bin_update \<Rightarrow> ('a \<times> nat \<times> bin_update) chunk_run"

definition ReadPartitionData :: "bin_update \<Rightarrow> (bool \<times> bin_update) chunk_run" where
  "ReadPartitionData st =
     (if left_of (curlen st) (chunkOffset st) < 4 then Finished (False, need_data st)
      else case ReadLE16 (chunkBuffer st) (chunkOffset st + 2) of
          None \<Rightarrow> Undefined
        | Some len \<Rightarrow>
            if left_of (curlen st) (chunkOffset st + 4) < unat len then Finished (False, need_data st)
            else case field_string [] (chunkBuffer st) (chunkOffset st + 4) (unat len) of
                None \<Rightarrow> Undefined
              | Some name \<Rightarrow> Finished (True, st\<lparr>curPartition := text_of name\<rparr>))"

definition OpenDevPath :: "('z, 'h) chunk_env \<Rightarrow> bin_update \<Rightarrow> bool \<times> bin_update" where
  "OpenDevPath env st =
     (case sys_open (chunkWorld st) (source_path env (curPartition st)) of
        (Inl _, w) \<Rightarrow> (False, st\<lparr>chunkWorld := w, sourceFd := -1\<rparr>)
      | (Inr src, w) \<Rightarrow>
          (case sys_open w (target_path env (curPartition st)) of
             (Inl _, w') \<Rightarrow> (False, st\<lparr>chunkWorld := w', sourceFd := src, destFd := -1\<rparr>)
           | (Inr tgt, w') \<Rightarrow> (True, st\<lparr>chunkWorld := w', sourceFd := src, destFd := tgt\<rparr>)))"

text \<open>\<open>make_unique<TransferParams> ()\<close> fills the structure with zeros, except \<open>inPlaceDiff\<close>.\<close>

definition TransferParams_new :: "bool \<Rightarrow> transfer_params" where
  "TransferParams_new updater = \<lparr>version = 0, blockCount = 0, maxEntries = 0, maxBlocks = 0, written = 0, hasEnv = False,
     isRetry = False, messages = [], readyToWrite = False, newData = [], storeCreated = 0, storeBase = [],
     freeStash = [], retryFile = [], patchDatFile = [], dataBuffer = [], dataBufferSize = 0, tp_offset = 0,
     canWrite = False, isUpdaterMode = False, updaterMode = updater, inPlaceDiff = True\<rparr>"

definition InitTransferParams :: "('z, 'h) chunk_env \<Rightarrow> bin_update \<Rightarrow> bool \<times> bin_update" where
  "InitTransferParams env st =
     (let base = ''/data/updater/'' @ curPartition st @ ''_tmp'';
          tp = (TransferParams_new (in_updater env))\<lparr>storeBase := base, canWrite := True\<rparr>
      in case CreateNewSpace (chunkWorld st) base True of
           (ret, w) \<Rightarrow> (ret \<noteq> -1, st\<lparr>transferParams := Some tp, chunkWorld := w\<rparr>))"

definition ChunkInstallPreWrite :: "('z, 'h) chunk_env \<Rightarrow> bin_update \<Rightarrow> (update_result \<times> bin_update) chunk_run" where
  "ChunkInstallPreWrite env st =
     (case ReadPartitionData st of
        Finished (False, st1) \<Rightarrow> Finished (STREAM_UPDATE_SUCCESS, st1)
      | Finished (True, st1) \<Rightarrow>
          (case OpenDevPath env st1 of
             (False, st2) \<Rightarrow> Finished (STREAM_UPDATE_FAILURE, st2)
           | (True, st2) \<Rightarrow>
               (case InitTransferParams env st2 of
                  (False, st3) \<Rightarrow> Finished (STREAM_UPDATE_FAILURE, st3)
                | (True, st3) \<Rightarrow> Finished (STREAM_UPDATE_SUCCESS, st3\<lparr>updateStep := CHUNK_INSTALL_STEP_DO\<rparr>)))
      | Undefined \<Rightarrow> Undefined
      | Unfinished \<Rightarrow> Unfinished)"

definition ProcessPartition :: "bool chunk_read" where
  "ProcessPartition off st =
     (if left_of (curlen st) off < 4 then Finished (False, off, need_data st)
      else case ReadLE16 (chunkBuffer st) off of
          None \<Rightarrow> Undefined
        | Some ty \<Rightarrow>
            if unat ty = BIN_UPDATE_HASH_TIP then Finished (False, off, st\<lparr>updateStep := CHUNK_INSTALL_STEP_POST\<rparr>)
            else case ReadLE16 (chunkBuffer st) (off + 2) of
                None \<Rightarrow> Undefined
              | Some len \<Rightarrow>
                  if left_of (curlen st) (off + 4) < unat len then Finished (False, off + 4, need_data st)
                  else case field_string [] (chunkBuffer st) (off + 4) (unat len) of
                      None \<Rightarrow> Undefined
                    | Some name \<Rightarrow>
                        if text_of name \<noteq> curPartition st
                        then Finished (False, off + 4 + unat len, st\<lparr>updateStep := CHUNK_INSTALL_STEP_POST\<rparr>)
                        else Finished (True, off + 4 + unat len, st))"

text \<open>The command line is used by \<open>ExecuteCmdLine\<close> only; it is part of the result.\<close>

definition ProcessCmdLine :: "(string option) chunk_read" where
  "ProcessCmdLine off st =
     (if left_of (curlen st) off < 4 then Finished (None, off, need_data st)
      else case ReadLE16 (chunkBuffer st) (off + 2) of
          None \<Rightarrow> Undefined
        | Some len \<Rightarrow>
            if left_of (curlen st) (off + 4) < unat len then Finished (None, off + 4, need_data st)
            else case field_string [] (chunkBuffer st) (off + 4) (unat len) of
                None \<Rightarrow> Undefined
              | Some cmd \<Rightarrow> Finished (Some (text_of cmd), off + 4 + unat len, st))"

text \<open>
  The data are those of the chunk; a command that reads past them is taken for undefined. The null
  pointer for missing transfer parameters too.
\<close>

definition ProcessInstallData :: "bool chunk_read" where
  "ProcessInstallData off st =
     (if left_of (curlen st) off < 6 then Finished (False, off, need_data st)
      else case ReadLE32 (chunkBuffer st) (off + 2) of
          None \<Rightarrow> Undefined
        | Some len \<Rightarrow>
            if left_of (curlen st) (off + 6) < unat len then Finished (False, off + 6, need_data st)
            else case transferParams st of
                None \<Rightarrow> Undefined
              | Some tp \<Rightarrow> Finished (True, off + 6 + unat len,
                  st\<lparr>transferParams := Some (tp\<lparr>dataBuffer := slice (off + 6) (unat len) (chunkBuffer st),
                     dataBufferSize := ucast len\<rparr>)\<rparr>))"

definition ExecuteCmdLine :: "('z, 'h) chunk_env \<Rightarrow> string \<Rightarrow> bin_update \<Rightarrow> (bool \<times> bin_update) chunk_run" where
  "ExecuteCmdLine env line st =
     (let cmd = snd (Command_Init line (SetTargetFileDescriptor (destFd st) (SetSrcFileDescriptor (sourceFd st)
            (SetIsStreamCmd True Command_new))))
      in case transferParams st of
           None \<Rightarrow> Undefined
         | Some tp \<Rightarrow>
             (case GetCommandFunction (cmdhead cmd) of
                None \<Rightarrow> Undefined
              | Some fn \<Rightarrow>
                  (case execute_fn fn (chunk_lib env) tp (chunkWorld st) cmd of
                     None \<Rightarrow> Undefined
                   | Some (ret, tp', w) \<Rightarrow>
                       Finished (ret = SUCCESS, st\<lparr>transferParams := Some tp', chunkWorld := w\<rparr>))))"

definition ChunkInstallDoWrite :: "('z, 'h) chunk_env \<Rightarrow> bin_update \<Rightarrow> (update_result \<times> bin_update) chunk_run" where
  "ChunkInstallDoWrite env st =
     (case ProcessPartition (chunkOffset st) st of
        Finished (False, _, st1) \<Rightarrow> Finished (STREAM_UPDATE_SUCCESS, st1)
      | Finished (True, off1, st1) \<Rightarrow>
          (case ProcessCmdLine off1 st1 of
             Finished (None, _, st2) \<Rightarrow> Finished (STREAM_UPDATE_SUCCESS, st2)
           | Finished (Some line, off2, st2) \<Rightarrow>
               (case ProcessInstallData off2 st2 of
                  Finished (False, _, st3) \<Rightarrow> Finished (STREAM_UPDATE_SUCCESS, st3)
                | Finished (True, off3, st3) \<Rightarrow>
                    (case ExecuteCmdLine env line st3 of
                       Finished (False, st4) \<Rightarrow> Finished (STREAM_UPDATE_FAILURE, st4)
                     | Finished (True, st4) \<Rightarrow> Finished (STREAM_UPDATE_SUCCESS, st4\<lparr>chunkOffset := off3\<rparr>)
                     | Undefined \<Rightarrow> Undefined
                     | Unfinished \<Rightarrow> Unfinished)
                | Undefined \<Rightarrow> Undefined
                | Unfinished \<Rightarrow> Unfinished)
           | Undefined \<Rightarrow> Undefined
           | Unfinished \<Rightarrow> Unfinished)
      | Undefined \<Rightarrow> Undefined
      | Unfinished \<Rightarrow> Unfinished)"

definition DoFreeSpace :: "world \<Rightarrow> string \<Rightarrow> world" where
  "DoFreeSpace w directoryPath =
     (case GetFilesFromDirectory w directoryPath of
        (None, w1) \<Rightarrow> w1
      | (Some files, w1) \<Rightarrow> delete_files files w1)"

definition sync_close :: "int \<Rightarrow> world \<Rightarrow> world" where
  "sync_close fd w = (if 0 < fd then sys_close (snd (sys_fsync w fd)) fd else w)"

definition ChunkInstallPostWrite :: "bin_update \<Rightarrow> (update_result \<times> bin_update) chunk_run" where
  "ChunkInstallPostWrite st =
     (let w = sync_close (destFd st) (sync_close (sourceFd st) (chunkWorld st)) in
      case transferParams st of
        None \<Rightarrow> Undefined
      | Some tp \<Rightarrow>
          Finished (STREAM_UPDATE_SUCCESS,
            st\<lparr>chunkWorld := snd (DeleteFile (DoFreeSpace w (storeBase tp)) (storeBase tp)),
               updateStep := CHUNK_INSTALL_STEP_PRE\<rparr>))"

text \<open>The function registered for the current step.\<close>

definition chunk_install :: "('z, 'h) chunk_env \<Rightarrow> bin_update \<Rightarrow> (update_result \<times> bin_update) chunk_run" where
  "chunk_install env st =
     (case updateStep st of
        CHUNK_INSTALL_STEP_PRE \<Rightarrow> ChunkInstallPreWrite env st
      | CHUNK_INSTALL_STEP_DO \<Rightarrow> ChunkInstallDoWrite env st
      | CHUNK_INSTALL_STEP_POST \<Rightarrow> ChunkInstallPostWrite st)"

primrec UpdateBinData :: "nat \<Rightarrow> ('z, 'h) chunk_env \<Rightarrow> bin_update \<Rightarrow> (update_result \<times> bin_update) chunk_run" where
  "UpdateBinData 0 env st = Unfinished"
| "UpdateBinData (Suc fuel) env st =
     (case chunk_install env st of
        Finished (ret, st1) \<Rightarrow>
          if needNewData st1 \<or> ret = STREAM_UPDATE_FAILURE \<or> updateStep st1 = CHUNK_INSTALL_STEP_PRE
          then Finished (ret, st1)
          else UpdateBinData fuel env st1
      | Undefined \<Rightarrow> Undefined
      | Unfinished \<Rightarrow> Unfinished)"

section \<open>The hash section\<close>

text \<open>\<open>updateInfo_.algorithm->Update\<close> on a range of the buffer.\<close>

definition hash_update :: "nat \<Rightarrow> nat \<Rightarrow> bin_update \<Rightarrow> bin_update option" where
  "hash_update off n st =
     (if off + n \<le> length (chunkBuffer st) then Some (st\<lparr>hashInput := hashInput st @ slice off n (chunkBuffer st)\<rparr>) else None)"

definition ProcessPartitionNum :: "bool chunk_read" where
  "ProcessPartitionNum off st =
     (if left_of (curlen st) off < 4 then Finished (False, off, need_data st)
      else case ReadLE16 (chunkBuffer st) (off + 2) of
          None \<Rightarrow> Undefined
        | Some len \<Rightarrow>
            (case hash_update off 4 st of
               None \<Rightarrow> Undefined
             | Some st1 \<Rightarrow>
                 if left_of (curlen st) (off + 4) < unat len then Finished (False, off + 4, need_data st1)
                 else case ReadLE16 (chunkBuffer st) (off + 4) of
                     None \<Rightarrow> Undefined
                   | Some n \<Rightarrow>
                       (case hash_update (off + 4) (unat len) (st1\<lparr>patitionNum := unat n\<rparr>) of
                          None \<Rightarrow> Undefined
                        | Some st2 \<Rightarrow> Finished (True, off + 4 + unat len, st2))))"

definition ReadHash :: "(string option) chunk_read" where
  "ReadHash off st =
     (if left_of (curlen st) off < 4 then Finished (None, off, need_data st)
      else case ReadLE16 (chunkBuffer st) (off + 2) of
          None \<Rightarrow> Undefined
        | Some len \<Rightarrow>
            (case hash_update off 4 st of
               None \<Rightarrow> Undefined
             | Some st1 \<Rightarrow>
                 if left_of (curlen st) (off + 4) < unat len then Finished (None, off + 4, need_data st1)
                 else case field_string [] (chunkBuffer st) (off + 4) (unat len) of
                     None \<Rightarrow> Undefined
                   | Some hash \<Rightarrow>
                       (case hash_update (off + 4) (unat len) st1 of
                          None \<Rightarrow> Undefined
                        | Some st2 \<Rightarrow> Finished (Some (text_of hash), off + 4 + unat len, st2))))"

definition ReadDataLength :: "(u64 option) chunk_read" where
  "ReadDataLength off st =
     (if left_of (curlen st) off < 4 then Finished (None, off, need_data st)
      else case ReadLE16 (chunkBuffer st) (off + 2) of
          None \<Rightarrow> Undefined
        | Some len \<Rightarrow>
            (case hash_update off 4 st of
               None \<Rightarrow> Undefined
             | Some st1 \<Rightarrow>
                 if left_of (curlen st) (off + 4) < unat len then Finished (None, off + 4, need_data st1)
                 else case pkg_ReadLE64 (chunkBuffer st) (off + 4) of
                     None \<Rightarrow> Undefined
                   | Some dataLen \<Rightarrow>
                       (case hash_update (off + 4) (unat len) st1 of
                          None \<Rightarrow> Undefined
                        | Some st2 \<Rightarrow> Finished (Some dataLen, off + 4 + unat len, st2))))"

text \<open>
  \<open>PartitionHashInfo\<close>: the hash and the length of the data by partition. The name of a partition is
  read without a test that it is complete.
\<close>

record partition_hashes =
  hashValues :: "(string \<times> string) list"
  dataLenInfos :: "(string \<times> u64) list"

primrec ProcessPartitionData :: "nat \<Rightarrow> partition_hashes \<Rightarrow> (partition_hashes option) chunk_read" where
  "ProcessPartitionData 0 infos off st = Finished (Some infos, off, st)"
| "ProcessPartitionData (Suc i) infos off st =
     (if left_of (curlen st) off < 4 then Finished (None, off, need_data st)
      else case ReadLE16 (chunkBuffer st) (off + 2) of
          None \<Rightarrow> Undefined
        | Some len \<Rightarrow>
            (case hash_update off 4 st of
               None \<Rightarrow> Undefined
             | Some st1 \<Rightarrow>
                 (case field_string [] (chunkBuffer st) (off + 4) (unat len) of
                    None \<Rightarrow> Undefined
                  | Some name \<Rightarrow>
                      (case hash_update (off + 4) (unat len) st1 of
                         None \<Rightarrow> Undefined
                       | Some st2 \<Rightarrow>
                           (case ReadHash (off + 4 + unat len) st2 of
                              Finished (None, off', st3) \<Rightarrow> Finished (None, off', st3)
                            | Finished (Some hash, off', st3) \<Rightarrow>
                                (case ReadDataLength off' st3 of
                                   Finished (None, off'', st4) \<Rightarrow> Finished (None, off'', st4)
                                 | Finished (Some dataLen, off'', st4) \<Rightarrow>
                                     ProcessPartitionData i
                                       (infos\<lparr>hashValues := AList.update (text_of name) hash (hashValues infos),
                                          dataLenInfos := AList.update (text_of name) dataLen (dataLenInfos infos)\<rparr>)
                                       off'' st4
                                 | Undefined \<Rightarrow> Undefined
                                 | Unfinished \<Rightarrow> Unfinished)
                            | Undefined \<Rightarrow> Undefined
                            | Unfinished \<Rightarrow> Unfinished)))))"

definition ProcessSignature :: "(bytes option) chunk_read" where
  "ProcessSignature off st =
     (if left_of (curlen st) off < 6 then Finished (None, off, need_data st)
      else case ReadLE32 (chunkBuffer st) (off + 2) of
          None \<Rightarrow> Undefined
        | Some len \<Rightarrow>
            if left_of (curlen st) (off + 6) < unat len then Finished (None, off + 6, need_data st)
            else if length (chunkBuffer st) < off + 6 + unat len then Undefined
            else Finished (Some (slice (off + 6) (unat len) (chunkBuffer st)), off + 6 + unat len, st))"

definition VerifySignature :: "('z, 'h) chunk_env \<Rightarrow> bytes \<Rightarrow> bin_update \<Rightarrow> bool" where
  "VerifySignature env signData st = VerifyDigest env (lib_sha256 (chunk_lib env) (hashInput st)) signData"

text \<open>The loop of \<open>ComputeFileHash\<close> that reads the device; at its end it reads nothing, for ever.\<close>

primrec hash_loop :: "nat \<Rightarrow> bytes \<Rightarrow> nat \<Rightarrow> bytes \<Rightarrow> bytes chunk_run" where
  "hash_loop 0 rest dataLen got = Unfinished"
| "hash_loop (Suc fuel) rest dataLen got =
     (if dataLen = 0 then Finished got
      else let piece = take (min dataLen (50 * 1024)) rest
           in hash_loop fuel (drop (length piece) rest) (dataLen - length piece) (got @ piece))"

definition ComputeFileHash ::
    "('z, 'h) chunk_env \<Rightarrow> world \<Rightarrow> string \<Rightarrow> (string \<times> u64) list \<Rightarrow> string chunk_run" where
  "ComputeFileHash env w partitionName infos =
     (case map_of infos partitionName of
        None \<Rightarrow> Finished []
      | Some dataLen \<Rightarrow>
          (case obj w (canon (target_path env partitionName)) of
             None \<Rightarrow> Finished []
           | Some content \<Rightarrow>
               (case hash_loop (length content + 2) content (unat dataLen) [] of
                  Finished d \<Rightarrow> Finished (ConvertShaHex (lib_sha256 (chunk_lib env) d))
                | Undefined \<Rightarrow> Undefined
                | Unfinished \<Rightarrow> Unfinished)))"

definition VerifyPartitionHash ::
    "('z, 'h) chunk_env \<Rightarrow> world \<Rightarrow> string \<Rightarrow> string \<Rightarrow> (string \<times> u64) list \<Rightarrow> bool chunk_run" where
  "VerifyPartitionHash env w partitionName expectedHash infos =
     (case ComputeFileHash env w partitionName infos of
        Finished actualHash \<Rightarrow> Finished (actualHash = expectedHash)
      | Undefined \<Rightarrow> Undefined
      | Unfinished \<Rightarrow> Unfinished)"

text \<open>
  The partitions are hashed in parallel and all of them are waited for, the last ones by the
  destructors of their futures.
\<close>

definition VerifyPartitionHashes :: "('z, 'h) chunk_env \<Rightarrow> world \<Rightarrow> partition_hashes \<Rightarrow> bool chunk_run" where
  "VerifyPartitionHashes env w infos =
     (let results = map (\<lambda>(name, hash). VerifyPartitionHash env w name hash (dataLenInfos infos)) (hashValues infos)
      in if Undefined \<in> set results then Undefined
         else if Unfinished \<in> set results then Unfinished
         else Finished (list_all (\<lambda>r. r = Finished True) results))"

definition UpdateBinHash :: "('z, 'h) chunk_env \<Rightarrow> bin_update \<Rightarrow> (update_result \<times> bin_update) chunk_run" where
  "UpdateBinHash env st =
     (case ProcessPartitionNum (chunkOffset st) (st\<lparr>hashInput := []\<rparr>) of
        Finished (False, _, st1) \<Rightarrow> Finished (STREAM_UPDATE_SUCCESS, st1)
      | Finished (True, off1, st1) \<Rightarrow>
          (case ProcessPartitionData (patitionNum st1) \<lparr>hashValues = [], dataLenInfos = []\<rparr> off1 st1 of
             Finished (None, _, st2) \<Rightarrow> Finished (STREAM_UPDATE_SUCCESS, st2)
           | Finished (Some infos, off2, st2) \<Rightarrow>
               (case ProcessSignature off2 st2 of
                  Finished (None, _, st3) \<Rightarrow> Finished (STREAM_UPDATE_SUCCESS, st3)
                | Finished (Some signData, off3, st3) \<Rightarrow>
                    (let st4 = st3\<lparr>chunkOffset := off3\<rparr> in
                     if \<not> VerifySignature env signData st4 then Finished (STREAM_UPDATE_FAILURE, st4)
                     else case VerifyPartitionHashes env (chunkWorld st4) infos of
                         Finished False \<Rightarrow> Finished (STREAM_UPDATE_FAILURE, st4)
                       | Finished True \<Rightarrow>
                           Finished (STREAM_UPDATE_COMPLETE,
                             st4\<lparr>chunkWorld := snd (sys_unlink (chunkWorld st4) ''/data/updater/test.txt'')\<rparr>)
                       | Undefined \<Rightarrow> Undefined
                       | Unfinished \<Rightarrow> Unfinished)
                | Undefined \<Rightarrow> Undefined
                | Unfinished \<Rightarrow> Unfinished)
           | Undefined \<Rightarrow> Undefined
           | Unfinished \<Rightarrow> Unfinished)
      | Undefined \<Rightarrow> Undefined
      | Unfinished \<Rightarrow> Unfinished)"

section \<open>The head\<close>

text \<open>
  The package is loaded from the bytes in the buffer; \<open>GetPackageInfo\<close> delivers the information of
  the package loaded first.
\<close>

definition UpdateBinHead :: "('z, 'h) chunk_env \<Rightarrow> bin_update \<Rightarrow> (update_result \<times> bin_update) chunk_run" where
  "UpdateBinHead env st =
     (case LoadPackage (load_env env (curlen st))
             (new_upgrade_file \<lparr>memMap = Some (take (curlen st) (chunkBuffer st)), currOffset = 0\<rparr>) of
        (Ok _, pkg) \<Rightarrow>
          (let head = (case packageHead st of None \<Rightarrow> updateFileHeadLen pkg | Some n \<Rightarrow> n);
               st1 = st\<lparr>componentNames := componentNames st @ components pkg, packageHead := Some head\<rparr>
           in if head = 0 \<or> curlen st < head then Finished (STREAM_UPDATE_FAILURE, st1)
              else Finished (STREAM_UPDATE_SUCCESS, st1\<lparr>chunkOffset := head\<rparr>))
      | (Err _, pkg) \<Rightarrow> Finished (STREAM_UPDATE_FAILURE, st\<lparr>componentNames := componentNames st @ components pkg\<rparr>)
      | (Out_Of_Bounds, _) \<Rightarrow> Undefined
      | (Endless, _) \<Rightarrow> Unfinished)"

section \<open>The buffer\<close>

text \<open>The loop of \<open>ProcessBufferData\<close>; the result of the last section is kept.\<close>

primrec process_buffer ::
    "nat \<Rightarrow> ('z, 'h) chunk_env \<Rightarrow> update_result \<Rightarrow> bin_update \<Rightarrow> (update_result \<times> bin_update) chunk_run" where
  "process_buffer 0 env ret st = Unfinished"
| "process_buffer (Suc fuel) env ret st =
     (if left_of (curlen st) (chunkOffset st) = 0 \<or> needNewData st then Finished (ret, st)
      else case ReadLE16 (chunkBuffer st) (chunkOffset st) of
          None \<Rightarrow> Undefined
        | Some ty \<Rightarrow>
            (case (if unat ty = BIN_UPDATE_HEAD_TIP then UpdateBinHead env st
                   else if unat ty = BIN_UPDATE_DATA_TIP then UpdateBinData (Suc fuel) env st
                   else if unat ty = BIN_UPDATE_HASH_TIP then UpdateBinHash env st
                   else Finished (STREAM_UPDATE_FAILURE, st)) of
               Finished (ret', st') \<Rightarrow>
                 if ret' = STREAM_UPDATE_FAILURE then Finished (ret', st') else process_buffer fuel env ret' st'
             | Undefined \<Rightarrow> Undefined
             | Unfinished \<Rightarrow> Unfinished))"

definition ProcessBufferData :: "nat \<Rightarrow> ('z, 'h) chunk_env \<Rightarrow> bin_update \<Rightarrow> (update_result \<times> bin_update) chunk_run" where
  "ProcessBufferData fuel env st = process_buffer fuel env STREAM_UPDATE_SUCCESS st"

definition MoveRemainingData :: "bin_update \<Rightarrow> bool \<times> bin_update" where
  "MoveRemainingData st =
     (let n = left_of (curlen st) (chunkOffset st); buf = chunkBuffer st in
      if 0 < n then
        (case memcpy_s buf (curlen st) (drop (chunkOffset st) buf) n of
           None \<Rightarrow> (False, st)
         | Some buf' \<Rightarrow> (True, st\<lparr>chunkBuffer := buf', curlen := curlen st - chunkOffset st\<rparr>))
      else if length buf = 0 \<or> SECUREC_MEM_MAX_LEN < length buf then (False, st)
      else (True, st\<lparr>chunkBuffer := replicate (length buf) 0, curlen := 0\<rparr>))"

text \<open>The data left over and the new state; None is false.\<close>

definition AddRemainData :: "bytes \<Rightarrow> bin_update \<Rightarrow> (bytes \<times> bin_update) option" where
  "AddRemainData data st =
     (if data = [] then None
      else let copySize = min (length data) (length (chunkBuffer st) - curlen st)
           in case memcpy_s (drop (curlen st) (chunkBuffer st)) (length (chunkBuffer st)) data copySize of
                None \<Rightarrow> None
              | Some rest \<Rightarrow> Some (drop copySize data,
                  st\<lparr>chunkBuffer := take (curlen st) (chunkBuffer st) @ rest, curlen := curlen st + copySize, chunkOffset := 0\<rparr>))"

definition ProcessHeader :: "bytes \<Rightarrow> bin_update \<Rightarrow> bin_update option" where
  "ProcessHeader data st =
     (if \<not> firstBuffer st then Some st
      else case ReadLE16 data 0 of
          None \<Rightarrow> None
        | Some ty \<Rightarrow>
            if unat ty \<noteq> BIN_UPDATE_ZIP_TIP then Some (st\<lparr>skipLength := 0, firstBuffer := False\<rparr>)
            else (case ReadLE32 data 2 of
                None \<Rightarrow> None
              | Some len \<Rightarrow> Some (st\<lparr>firstBuffer := False, skipLength := unat (len + 6)\<rparr>)))"

text \<open>Success or not and \<open>dealLen\<close>; what follows the part to skip is copied into the buffer without a test.\<close>

definition SkipTargetData :: "bytes \<Rightarrow> bin_update \<Rightarrow> (bool \<times> nat \<times> bin_update) option" where
  "SkipTargetData data st =
     (let skip = skipLength st in
      if skip = 0 then Some (False, 0, st)
      else if skip < length data then
        (if SECUREC_MEM_MAX_LEN < length data - skip then Some (False, 0, st\<lparr>skipLength := 0\<rparr>)
         else if length (chunkBuffer st) < length data - skip then None
         else Some (True, skip, st\<lparr>chunkBuffer := drop skip data @ drop (length data - skip) (chunkBuffer st),
                curlen := length data - skip, skipLength := 0\<rparr>))
      else Some (True, length data, st\<lparr>skipLength := skip - length data\<rparr>))"

text \<open>The loop of \<open>StartBinChunkUpdate\<close>.\<close>

primrec stream_loop ::
    "nat \<Rightarrow> ('z, 'h) chunk_env \<Rightarrow> bytes \<Rightarrow> update_result \<Rightarrow> bin_update \<Rightarrow> (update_result \<times> bin_update) chunk_run" where
  "stream_loop 0 env remain ret st = Unfinished"
| "stream_loop (Suc fuel) env remain ret st =
     (if remain = [] then Finished (ret, st)
      else case AddRemainData remain st of
          None \<Rightarrow> Finished (STREAM_UPDATE_FAILURE, st)
        | Some (remain', st1) \<Rightarrow>
            (case ProcessBufferData (Suc fuel) env (st1\<lparr>needNewData := False\<rparr>) of
               Finished (ret', st2) \<Rightarrow>
                 if ret' = STREAM_UPDATE_FAILURE then Finished (ret', st2)
                 else (case MoveRemainingData st2 of
                     (False, st3) \<Rightarrow> Finished (STREAM_UPDATE_FAILURE, st3)
                   | (True, st3) \<Rightarrow> stream_loop fuel env remain' ret' st3)
             | Undefined \<Rightarrow> Undefined
             | Unfinished \<Rightarrow> Unfinished))"

text \<open>The result, \<open>dealLen\<close> and the new state.\<close>

definition StartBinChunkUpdate ::
    "nat \<Rightarrow> ('z, 'h) chunk_env \<Rightarrow> bytes \<Rightarrow> bin_update \<Rightarrow> (update_result \<times> nat \<times> bin_update) chunk_run" where
  "StartBinChunkUpdate fuel env data st =
     (if data = [] then Finished (STREAM_UPDATE_FAILURE, 0, st)
      else case ProcessHeader data st of
          None \<Rightarrow> Undefined
        | Some st1 \<Rightarrow>
            (case SkipTargetData data st1 of
               None \<Rightarrow> Undefined
             | Some (True, dealLen, st2) \<Rightarrow> Finished (STREAM_UPDATE_SUCCESS, dealLen, st2)
             | Some (False, dealLen, st2) \<Rightarrow>
                 (case stream_loop fuel env data STREAM_UPDATE_SUCCESS st2 of
                    Finished (STREAM_UPDATE_FAILURE, st3) \<Rightarrow> Finished (STREAM_UPDATE_FAILURE, dealLen, st3)
                  | Finished (ret, st3) \<Rightarrow> Finished (ret, length data + curlen st - curlen st3, st3)
                  | Undefined \<Rightarrow> Undefined
                  | Unfinished \<Rightarrow> Unfinished)))"

definition BinChunkUpdate_new :: "nat \<Rightarrow> world \<Rightarrow> bin_update" where
  "BinChunkUpdate_new maxBufSize w = \<lparr>chunkBuffer = replicate maxBufSize 0, curlen = 0, chunkOffset = 0, skipLength = 0,
     firstBuffer = True, packageHead = None, componentNames = [], needNewData = False,
     updateStep = CHUNK_INSTALL_STEP_PRE, sourceFd = 0, destFd = 0, transferParams = None, curPartition = [],
     patitionNum = 0, hashInput = [], chunkWorld = w\<rparr>"

section \<open>The package file\<close>

text \<open>
  \<open>ProcessUpdateFile\<close> of \<open>update_processor_stream.cpp\<close>: behind the first section, which is skipped, the
  file is handed over in pieces of \<open>BUFFER_SIZE\<close> bytes until one of them completes the update or the
  file ends. The result is whether it returns \<open>UPDATE_SUCCESS\<close>.
\<close>

abbreviation (input) BUFFER_SIZE :: nat where "BUFFER_SIZE \<equiv> 50 * 1024"
abbreviation (input) MAX_UPDATER_BUFFER_SIZE :: nat where "MAX_UPDATER_BUFFER_SIZE \<equiv> 2 * BUFFER_SIZE"

fun pieces_of :: "bytes \<Rightarrow> bytes list" where
  "pieces_of [] = []"
| "pieces_of (b # bs) = take BUFFER_SIZE (b # bs) # pieces_of (drop BUFFER_SIZE (b # bs))"

primrec update_loop :: "nat \<Rightarrow> ('z, 'h) chunk_env \<Rightarrow> bytes list \<Rightarrow> bin_update \<Rightarrow> (bool \<times> bin_update) chunk_run" where
  "update_loop fuel env [] st = Finished (True, st)"
| "update_loop fuel env (d # ds) st =
     (case StartBinChunkUpdate fuel env d st of
        Finished (ret, _, st') \<Rightarrow>
          (case ret of
             STREAM_UPDATE_SUCCESS \<Rightarrow> update_loop fuel env ds st'
           | STREAM_UPDATE_FAILURE \<Rightarrow> Finished (False, st')
           | STREAM_UPDATE_COMPLETE \<Rightarrow> Finished (True, st'))
      | Undefined \<Rightarrow> Undefined
      | Unfinished \<Rightarrow> Unfinished)"

definition ProcessUpdateFile :: "nat \<Rightarrow> ('z, 'h) chunk_env \<Rightarrow> world \<Rightarrow> string \<Rightarrow> (bool \<times> bin_update) chunk_run" where
  "ProcessUpdateFile fuel env w packagePath =
     (let st = BinChunkUpdate_new MAX_UPDATER_BUFFER_SIZE w in
      case obj w (canon packagePath) of
        None \<Rightarrow> Finished (False, st)
      | Some content \<Rightarrow>
          (case ReadLE16 content 0 of
             None \<Rightarrow> Finished (False, st)
           | Some type \<Rightarrow>
               if unat type \<noteq> BIN_UPDATE_ZIP_TIP then Finished (False, st)
               else case ReadLE32 content 2 of
                   None \<Rightarrow> Finished (False, st)
                 | Some len \<Rightarrow> update_loop fuel env (pieces_of (drop (6 + unat len) content)) st))"

end
