(* ===== verification/Bin_Chunk_Laws.thy ===== *)
theory Bin_Chunk_Laws
  imports Bin_Chunk "HOL-Library.Sublist"
begin

text \<open>
  Laws of the streamed installation. The encoding of a chunk is read back from any buffer that holds
  a part of it (\<open>sees\<close>); the installation of a sequence of chunks is specified without any buffer
  (\<open>install_chunks\<close>), and the loops over the buffer are shown to implement it, wherever the stream
  is cut into pieces.
\<close>

section \<open>Chunks\<close>

record data_chunk =
  chunk_partition :: bytes
  cmd_tip :: u16
  chunk_cmd :: bytes
  data_tip :: u16
  chunk_data :: bytes

definition encode_chunk :: "data_chunk \<Rightarrow> bytes" where
  "encode_chunk c = WriteLE16 (of_nat BIN_UPDATE_DATA_TIP) @ WriteLE16 (of_nat (length (chunk_partition c))) @ chunk_partition c
     @ WriteLE16 (cmd_tip c) @ WriteLE16 (of_nat (length (chunk_cmd c))) @ chunk_cmd c
     @ WriteLE16 (data_tip c) @ WriteLE32 (of_nat (length (chunk_data c))) @ chunk_data c"

definition chunk_ok :: "data_chunk \<Rightarrow> bool" where
  "chunk_ok c \<longleftrightarrow> length (chunk_partition c) < 2 ^ 16 \<and> length (chunk_cmd c) < 2 ^ 16 \<and> length (chunk_data c) < 2 ^ 32"

abbreviation chunk_name :: "data_chunk \<Rightarrow> string" where
  "chunk_name c \<equiv> text_of (ConvertBufferToString [] (chunk_partition c))"

abbreviation chunk_line :: "data_chunk \<Rightarrow> string" where
  "chunk_line c \<equiv> text_of (ConvertBufferToString [] (chunk_cmd c))"

abbreviation (input) name_end :: "data_chunk \<Rightarrow> nat" where
  "name_end c \<equiv> 4 + length (chunk_partition c)"

abbreviation (input) cmd_end :: "data_chunk \<Rightarrow> nat" where
  "cmd_end c \<equiv> 8 + length (chunk_partition c) + length (chunk_cmd c)"

lemma length_WriteLE [simp]: "length (WriteLE16 v) = 2" "length (WriteLE32 w) = 4"
  by (simp_all add: WriteLE16_def WriteLE32_def)

lemma length_encode_chunk:
  "length (encode_chunk c) = 14 + length (chunk_partition c) + length (chunk_cmd c) + length (chunk_data c)"
  by (simp add: encode_chunk_def)

lemma unat_of_nat_16 [simp]: "n < 2 ^ 16 \<Longrightarrow> unat (of_nat n :: u16) = n"
  by (simp add: unat_of_nat)

lemma unat_of_nat_32 [simp]: "n < 2 ^ 32 \<Longrightarrow> unat (of_nat n :: u32) = n"
  by (simp add: unat_of_nat)

lemma chunk_fields:
  defines "S \<equiv> \<lambda>c rest. encode_chunk c @ rest"
  shows "ReadLE16 (S c rest) 0 = Some (of_nat BIN_UPDATE_DATA_TIP)"
    and "ReadLE16 (S c rest) 2 = Some (of_nat (length (chunk_partition c)))"
    and "ReadLE16 (S c rest) (name_end c + 2) = Some (of_nat (length (chunk_cmd c)))"
    and "ReadLE32 (S c rest) (cmd_end c + 2) = Some (of_nat (length (chunk_data c)))"
    and "slice 4 (length (chunk_partition c)) (S c rest) = chunk_partition c"
    and "slice (name_end c + 4) (length (chunk_cmd c)) (S c rest) = chunk_cmd c"
    and "slice (cmd_end c + 6) (length (chunk_data c)) (S c rest) = chunk_data c"
proof -
  let ?a = "WriteLE16 (of_nat BIN_UPDATE_DATA_TIP) :: bytes"
  let ?b = "?a @ WriteLE16 (of_nat (length (chunk_partition c))) @ chunk_partition c @ WriteLE16 (cmd_tip c)"
  let ?d = "?b @ WriteLE16 (of_nat (length (chunk_cmd c))) @ chunk_cmd c @ WriteLE16 (data_tip c)"
  show "ReadLE16 (S c rest) 0 = Some (of_nat BIN_UPDATE_DATA_TIP)"
    using ReadLE16_WriteLE16 [of "[]"] by (simp add: S_def encode_chunk_def)
  show "ReadLE16 (S c rest) 2 = Some (of_nat (length (chunk_partition c)))"
    using ReadLE16_WriteLE16 [of ?a] by (simp add: S_def encode_chunk_def)
  show "ReadLE16 (S c rest) (name_end c + 2) = Some (of_nat (length (chunk_cmd c)))"
    using ReadLE16_WriteLE16 [of ?b] by (simp add: S_def encode_chunk_def ac_simps eval_nat_numeral)
  show "ReadLE32 (S c rest) (cmd_end c + 2) = Some (of_nat (length (chunk_data c)))"
    using ReadLE32_WriteLE32 [of ?d] by (simp add: S_def encode_chunk_def ac_simps eval_nat_numeral)
qed (simp_all add: S_def encode_chunk_def slice_def)

section \<open>What a buffer holds\<close>

text \<open>The next \<open>n\<close> bytes of the stream \<open>S\<close> are in the buffer from the current offset on.\<close>

definition sees :: "bin_update \<Rightarrow> bytes \<Rightarrow> nat \<Rightarrow> bool" where
  "sees st S n \<longleftrightarrow> chunkOffset st + n = curlen st \<and> curlen st \<le> length (chunkBuffer st) \<and> n \<le> length S
     \<and> slice (chunkOffset st) n (chunkBuffer st) = take n S"

lemma sees_left: "sees st S n \<Longrightarrow> i \<le> n \<Longrightarrow> left_of (curlen st) (chunkOffset st + i) = n - i"
  by (auto simp: sees_def left_of_def)

lemma sees_slice:
  assumes "sees st S n" "i + k \<le> n"
  shows "slice (chunkOffset st + i) k (chunkBuffer st) = slice i k S"
proof -
  have "take k (drop i (take n (drop (chunkOffset st) (chunkBuffer st)))) = take k (drop i (take n S))"
    using assms(1) by (simp add: sees_def slice_def)
  then show ?thesis using assms(2) by (simp add: slice_def drop_take min_def add.commute split: if_splits)
qed

lemma sees_nth:
  assumes "sees st S n" "i < n"
  shows "chunkBuffer st ! (chunkOffset st + i) = S ! i"
proof -
  have "slice (chunkOffset st) n (chunkBuffer st) ! i = take n S ! i" using assms(1) by (simp add: sees_def)
  moreover have "slice (chunkOffset st) n (chunkBuffer st) ! i = chunkBuffer st ! (chunkOffset st + i)"
    using assms by (intro nth_slice) (auto simp: sees_def)
  ultimately show ?thesis using assms(2) by simp
qed

lemma sees_reads:
  assumes "sees st S n"
  shows "i + 2 \<le> n \<Longrightarrow> ReadLE16 (chunkBuffer st) (chunkOffset st + i) = ReadLE16 S i"
    and "i + 4 \<le> n \<Longrightarrow> ReadLE32 (chunkBuffer st) (chunkOffset st + i) = ReadLE32 S i"
    and "i + k \<le> n \<Longrightarrow> field_string [] (chunkBuffer st) (chunkOffset st + i) k = Some (ConvertBufferToString [] (slice i k S))"
proof -
  have le: "chunkOffset st + n \<le> length (chunkBuffer st)" "n \<le> length S" using assms by (auto simp: sees_def)
  show "i + 2 \<le> n \<Longrightarrow> ReadLE16 (chunkBuffer st) (chunkOffset st + i) = ReadLE16 S i"
    using le sees_nth [OF assms, of i] sees_nth [OF assms, of "i + 1"] by (simp add: ReadLE16_def add.assoc)
  show "i + 4 \<le> n \<Longrightarrow> ReadLE32 (chunkBuffer st) (chunkOffset st + i) = ReadLE32 S i"
    using le sees_nth [OF assms, of i] sees_nth [OF assms, of "i + 1"] sees_nth [OF assms, of "i + 2"]
      sees_nth [OF assms, of "i + 3"] by (simp add: ReadLE32_def add.assoc)
  show "i + k \<le> n \<Longrightarrow> field_string [] (chunkBuffer st) (chunkOffset st + i) k = Some (ConvertBufferToString [] (slice i k S))"
    using le by (simp add: field_string_def sees_slice [OF assms])
qed

lemma sees_update [simp]:
  "sees (st\<lparr>needNewData := b\<rparr>) S n = sees st S n" "sees (st\<lparr>updateStep := u\<rparr>) S n = sees st S n"
  "sees (st\<lparr>curPartition := p\<rparr>) S n = sees st S n" "sees (st\<lparr>transferParams := tp\<rparr>) S n = sees st S n"
  by (simp_all add: sees_def)

section \<open>One chunk in the buffer\<close>

lemma ReadPartitionData_chunk:
  assumes s: "sees st (encode_chunk c @ rest) n" and ok: "chunk_ok c"
  shows "ReadPartitionData st = Finished
    (if n < name_end c then (False, need_data st) else (True, st\<lparr>curPartition := chunk_name c\<rparr>))"
proof -
  note left = sees_left [OF s] and reads = sees_reads [OF s]
  show ?thesis
    using ok left [of 0] left [of 4] reads(1) [of 2] reads(3) [of 4 "length (chunk_partition c)"] chunk_fields [of c rest]
    by (auto simp: ReadPartitionData_def chunk_ok_def)
qed

lemma ProcessPartition_chunk:
  assumes s: "sees st (encode_chunk c @ rest) n" and ok: "chunk_ok c"
  shows "n < name_end c \<Longrightarrow> \<exists>off. ProcessPartition (chunkOffset st) st = Finished (False, off, need_data st)"
    and "name_end c \<le> n \<Longrightarrow> chunk_name c \<noteq> curPartition st \<Longrightarrow>
      \<exists>off. ProcessPartition (chunkOffset st) st = Finished (False, off, st\<lparr>updateStep := CHUNK_INSTALL_STEP_POST\<rparr>)"
    and "name_end c \<le> n \<Longrightarrow> chunk_name c = curPartition st \<Longrightarrow>
      ProcessPartition (chunkOffset st) st = Finished (True, chunkOffset st + name_end c, st)"
proof -
  note left = sees_left [OF s] and reads = sees_reads [OF s]
  note facts = ok left [of 0] left [of 4] reads(1) [of 2] reads(1) [of 0] reads(3) [of 4 "length (chunk_partition c)"]
    chunk_fields [of c rest]
  show "n < name_end c \<Longrightarrow> \<exists>off. ProcessPartition (chunkOffset st) st = Finished (False, off, need_data st)"
    using facts by (auto simp: ProcessPartition_def chunk_ok_def)
  show "name_end c \<le> n \<Longrightarrow> chunk_name c \<noteq> curPartition st \<Longrightarrow>
      \<exists>off. ProcessPartition (chunkOffset st) st = Finished (False, off, st\<lparr>updateStep := CHUNK_INSTALL_STEP_POST\<rparr>)"
    using facts by (auto simp: ProcessPartition_def chunk_ok_def)
  show "name_end c \<le> n \<Longrightarrow> chunk_name c = curPartition st \<Longrightarrow>
      ProcessPartition (chunkOffset st) st = Finished (True, chunkOffset st + name_end c, st)"
    using facts by (auto simp: ProcessPartition_def chunk_ok_def)
qed

lemma ProcessCmdLine_chunk:
  assumes s: "sees st (encode_chunk c @ rest) n" and ok: "chunk_ok c" and n: "name_end c \<le> n"
  shows "n < cmd_end c \<Longrightarrow> \<exists>off. ProcessCmdLine (chunkOffset st + name_end c) st = Finished (None, off, need_data st)"
    and "cmd_end c \<le> n \<Longrightarrow>
      ProcessCmdLine (chunkOffset st + name_end c) st = Finished (Some (chunk_line c), chunkOffset st + cmd_end c, st)"
proof -
  note left = sees_left [OF s] and reads = sees_reads [OF s]
  note facts = ok n left [of "name_end c"] left [of "name_end c + 4"] reads(1) [of "name_end c + 2"]
    reads(3) [of "name_end c + 4" "length (chunk_cmd c)"] chunk_fields [of c rest]
  show "n < cmd_end c \<Longrightarrow> \<exists>off. ProcessCmdLine (chunkOffset st + name_end c) st = Finished (None, off, need_data st)"
    using facts by (auto simp: ProcessCmdLine_def chunk_ok_def ac_simps)
  show "cmd_end c \<le> n \<Longrightarrow>
      ProcessCmdLine (chunkOffset st + name_end c) st = Finished (Some (chunk_line c), chunkOffset st + cmd_end c, st)"
    using facts by (auto simp: ProcessCmdLine_def chunk_ok_def ac_simps)
qed

definition with_data :: "data_chunk \<Rightarrow> transfer_params \<Rightarrow> transfer_params" where
  "with_data c tp = tp\<lparr>dataBuffer := chunk_data c, dataBufferSize := of_nat (length (chunk_data c))\<rparr>"

lemma ucast_of_nat_32: "n < 2 ^ 32 \<Longrightarrow> ucast (of_nat n :: u32) = (of_nat n :: 64 word)"
  by (simp add: unsigned_of_nat take_bit_nat_eq_self)

lemma ProcessInstallData_chunk:
  assumes s: "sees st (encode_chunk c @ rest) n" and ok: "chunk_ok c" and n: "cmd_end c \<le> n"
  shows "n < length (encode_chunk c) \<Longrightarrow>
      \<exists>off. ProcessInstallData (chunkOffset st + cmd_end c) st = Finished (False, off, need_data st)"
    and "length (encode_chunk c) \<le> n \<Longrightarrow> ProcessInstallData (chunkOffset st + cmd_end c) st =
      (case transferParams st of None \<Rightarrow> Undefined
       | Some tp \<Rightarrow> Finished (True, chunkOffset st + length (encode_chunk c), st\<lparr>transferParams := Some (with_data c tp)\<rparr>))"
proof -
  note left = sees_left [OF s] and reads = sees_reads [OF s]
  note facts = ok n left [of "cmd_end c"] left [of "cmd_end c + 6"] reads(2) [of "cmd_end c + 2"]
    sees_slice [OF s, of "cmd_end c + 6" "length (chunk_data c)"] chunk_fields [of c rest]
  show "n < length (encode_chunk c) \<Longrightarrow>
      \<exists>off. ProcessInstallData (chunkOffset st + cmd_end c) st = Finished (False, off, need_data st)"
    using facts by (auto simp: ProcessInstallData_def chunk_ok_def length_encode_chunk ac_simps)
  show "length (encode_chunk c) \<le> n \<Longrightarrow> ProcessInstallData (chunkOffset st + cmd_end c) st =
      (case transferParams st of None \<Rightarrow> Undefined
       | Some tp \<Rightarrow> Finished (True, chunkOffset st + length (encode_chunk c), st\<lparr>transferParams := Some (with_data c tp)\<rparr>))"
    using facts by (auto simp: ProcessInstallData_def chunk_ok_def length_encode_chunk with_data_def ucast_of_nat_32
        ac_simps split: option.splits)
qed

lemma ChunkInstallDoWrite_chunk:
  assumes s: "sees st (encode_chunk c @ rest) n" and ok: "chunk_ok c"
  shows "n < name_end c \<Longrightarrow> ChunkInstallDoWrite env st = Finished (STREAM_UPDATE_SUCCESS, need_data st)"
    and "name_end c \<le> n \<Longrightarrow> chunk_name c \<noteq> curPartition st \<Longrightarrow>
      ChunkInstallDoWrite env st = Finished (STREAM_UPDATE_SUCCESS, st\<lparr>updateStep := CHUNK_INSTALL_STEP_POST\<rparr>)"
    and "chunk_name c = curPartition st \<Longrightarrow> n < length (encode_chunk c) \<Longrightarrow>
      ChunkInstallDoWrite env st = Finished (STREAM_UPDATE_SUCCESS, need_data st)"
    and "chunk_name c = curPartition st \<Longrightarrow> length (encode_chunk c) \<le> n \<Longrightarrow> ChunkInstallDoWrite env st =
      (case transferParams st of None \<Rightarrow> Undefined
       | Some tp \<Rightarrow>
           (case ExecuteCmdLine env (chunk_line c) (st\<lparr>transferParams := Some (with_data c tp)\<rparr>) of
              Finished (True, st') \<Rightarrow> Finished (STREAM_UPDATE_SUCCESS, st'\<lparr>chunkOffset := chunkOffset st + length (encode_chunk c)\<rparr>)
            | Finished (False, st') \<Rightarrow> Finished (STREAM_UPDATE_FAILURE, st')
            | Undefined \<Rightarrow> Undefined
            | Unfinished \<Rightarrow> Unfinished))"
proof -
  note part = ProcessPartition_chunk [OF s ok] and line = ProcessCmdLine_chunk [OF s ok] and data = ProcessInstallData_chunk [OF s ok]
  show early: "n < name_end c \<Longrightarrow> ChunkInstallDoWrite env st = Finished (STREAM_UPDATE_SUCCESS, need_data st)"
    using part(1) by (auto simp: ChunkInstallDoWrite_def)
  show "name_end c \<le> n \<Longrightarrow> chunk_name c \<noteq> curPartition st \<Longrightarrow>
      ChunkInstallDoWrite env st = Finished (STREAM_UPDATE_SUCCESS, st\<lparr>updateStep := CHUNK_INSTALL_STEP_POST\<rparr>)"
    using part(2) by (auto simp: ChunkInstallDoWrite_def)
  show "ChunkInstallDoWrite env st = Finished (STREAM_UPDATE_SUCCESS, need_data st)"
    if "chunk_name c = curPartition st" "n < length (encode_chunk c)"
  proof -
    consider "n < name_end c" | "name_end c \<le> n" "n < cmd_end c" | "cmd_end c \<le> n" by linarith
    then show ?thesis
    proof cases
      case 1 then show ?thesis by (rule early)
    next
      case 2 then show ?thesis using part(3) line(1) that by (auto simp: ChunkInstallDoWrite_def)
    next
      case 3 then have "name_end c \<le> n" by simp
      then show ?thesis using 3 part(3) line(2) data(1) that by (auto simp: ChunkInstallDoWrite_def)
    qed
  qed
  show "ChunkInstallDoWrite env st =
      (case transferParams st of None \<Rightarrow> Undefined
       | Some tp \<Rightarrow>
           (case ExecuteCmdLine env (chunk_line c) (st\<lparr>transferParams := Some (with_data c tp)\<rparr>) of
              Finished (True, st') \<Rightarrow> Finished (STREAM_UPDATE_SUCCESS, st'\<lparr>chunkOffset := chunkOffset st + length (encode_chunk c)\<rparr>)
            | Finished (False, st') \<Rightarrow> Finished (STREAM_UPDATE_FAILURE, st')
            | Undefined \<Rightarrow> Undefined
            | Unfinished \<Rightarrow> Unfinished))"
    if "chunk_name c = curPartition st" "length (encode_chunk c) \<le> n"
  proof -
    have n: "name_end c \<le> n" "cmd_end c \<le> n" using that(2) by (simp_all add: length_encode_chunk)
    show ?thesis using part(3) [OF n(1) that(1)] line(2) [OF n(1) n(2)] data(2) [OF n(2) that(2)]
      by (simp add: ChunkInstallDoWrite_def split: option.splits chunk_run.splits prod.splits bool.splits)
  qed
qed

section \<open>Installation without a buffer\<close>

text \<open>The part of the state that does not depend on how the stream is cut.\<close>

definition bufferless :: "bin_update \<Rightarrow> bin_update" where
  "bufferless st = st\<lparr>chunkBuffer := [], curlen := 0, chunkOffset := 0, needNewData := False\<rparr>"

definition reframe :: "bytes \<Rightarrow> nat \<Rightarrow> nat \<Rightarrow> bool \<Rightarrow> bin_update \<Rightarrow> bin_update" where
  "reframe b l off d st = st\<lparr>chunkBuffer := b, curlen := l, chunkOffset := off, needNewData := d\<rparr>"

definition start_partition :: "('z, 'h) chunk_env \<Rightarrow> string \<Rightarrow> bin_update \<Rightarrow> bool \<times> bin_update" where
  "start_partition env name s =
     (case OpenDevPath env (s\<lparr>curPartition := name\<rparr>) of
        (False, s1) \<Rightarrow> (False, s1)
      | (True, s1) \<Rightarrow> (case InitTransferParams env s1 of
            (False, s2) \<Rightarrow> (False, s2)
          | (True, s2) \<Rightarrow> (True, s2\<lparr>updateStep := CHUNK_INSTALL_STEP_DO\<rparr>)))"

definition enter_partition :: "('z, 'h) chunk_env \<Rightarrow> string \<Rightarrow> bin_update \<Rightarrow> (bool \<times> bin_update) chunk_run" where
  "enter_partition env name s =
     (if updateStep s = CHUNK_INSTALL_STEP_PRE then Finished (start_partition env name s)
      else if curPartition s = name then Finished (True, s)
      else (case ChunkInstallPostWrite s of
          Finished (_, s1) \<Rightarrow> Finished (start_partition env name s1)
        | Undefined \<Rightarrow> Undefined
        | Unfinished \<Rightarrow> Unfinished))"

definition install_data :: "('z, 'h) chunk_env \<Rightarrow> data_chunk \<Rightarrow> bin_update \<Rightarrow> (bool \<times> bin_update) chunk_run" where
  "install_data env c s =
     (case transferParams s of
        None \<Rightarrow> Undefined
      | Some tp \<Rightarrow> ExecuteCmdLine env (chunk_line c) (s\<lparr>transferParams := Some (with_data c tp)\<rparr>))"

definition and_then :: "(bool \<times> bin_update) chunk_run \<Rightarrow> (bin_update \<Rightarrow> (bool \<times> bin_update) chunk_run) \<Rightarrow> (bool \<times> bin_update) chunk_run" where
  "and_then r f = (case r of Finished (True, s) \<Rightarrow> f s | _ \<Rightarrow> r)"

primrec install_chunks :: "('z, 'h) chunk_env \<Rightarrow> data_chunk list \<Rightarrow> bin_update \<Rightarrow> (bool \<times> bin_update) chunk_run" where
  "install_chunks env [] s = Finished (True, s)"
| "install_chunks env (c # cs) s =
     and_then (enter_partition env (chunk_name c) s) (\<lambda>s. and_then (install_data env c s) (install_chunks env cs))"

text \<open>The chunks \<open>cs\<close>, and the first \<open>k\<close> bytes of \<open>c\<close>.\<close>

definition install_part ::
    "('z, 'h) chunk_env \<Rightarrow> data_chunk list \<Rightarrow> data_chunk \<Rightarrow> nat \<Rightarrow> bin_update \<Rightarrow> (bool \<times> bin_update) chunk_run" where
  "install_part env cs c k s = and_then (install_chunks env cs s)
     (\<lambda>s. if name_end c \<le> k then enter_partition env (chunk_name c) s else Finished (True, s))"

lemma and_then_simps [simp]:
  "and_then (Finished (True, s)) f = f s" "and_then (Finished (False, s)) f = Finished (False, s)"
  "and_then Undefined f = Undefined" "and_then Unfinished f = Unfinished"
  by (simp_all add: and_then_def)

lemma and_then_assoc: "and_then (and_then r f) g = and_then r (\<lambda>s. and_then (f s) g)"
  by (simp add: and_then_def split: chunk_run.splits prod.splits bool.splits)

lemma install_chunks_append: "install_chunks env (cs @ ds) s = and_then (install_chunks env cs s) (install_chunks env ds)"
proof (induction cs arbitrary: s)
  case (Cons c cs)
  then have "install_chunks env (cs @ ds) = (\<lambda>s. and_then (install_chunks env cs s) (install_chunks env ds))"
    by (rule ext)
  then show ?case by (simp add: and_then_assoc)
qed simp

lemma core_reframe [simp]: "bufferless (reframe b l off d s) = bufferless s"
  by (simp add: bufferless_def reframe_def)

lemma reframe_core: "st = reframe (chunkBuffer st) (curlen st) (chunkOffset st) (needNewData st) (bufferless st)"
  by (simp add: bufferless_def reframe_def)

lemma bufferless_simps [simp]:
  "updateStep (bufferless st) = updateStep st" "curPartition (bufferless st) = curPartition st" "transferParams (bufferless st) = transferParams st"
  "bufferless (bufferless st) = bufferless st" "bufferless (st\<lparr>needNewData := b\<rparr>) = bufferless st" "firstBuffer (bufferless st) = firstBuffer st"
  "skipLength (bufferless st) = skipLength st"
  by (simp_all add: bufferless_def)

lemma reframe_simps [simp]:
  "updateStep (reframe b l off d s) = updateStep s" "curPartition (reframe b l off d s) = curPartition s"
  "transferParams (reframe b l off d s) = transferParams s" "needNewData (reframe b l off d s) = d"
  "chunkBuffer (reframe b l off d s) = b" "curlen (reframe b l off d s) = l" "chunkOffset (reframe b l off d s) = off"
  "firstBuffer (reframe b l off d s) = firstBuffer s" "skipLength (reframe b l off d s) = skipLength s"
  by (simp_all add: reframe_def)

section \<open>The operations do not look at the buffer\<close>

abbreviation (input) framed_result ::
    "bytes \<Rightarrow> nat \<Rightarrow> nat \<Rightarrow> bool \<Rightarrow> ('a \<times> bin_update) chunk_run \<Rightarrow> ('a \<times> bin_update) chunk_run" where
  "framed_result b l off d \<equiv> map_chunk_run (apsnd (reframe b l off d))"

lemma start_partition_frame:
  "start_partition env name (reframe b l off d s) = apsnd (reframe b l off d) (start_partition env name s)"
  by (simp add: start_partition_def OpenDevPath_def InitTransferParams_def Let_def reframe_def
      split: prod.splits sum.splits bool.splits)

lemma PostWrite_frame:
  "ChunkInstallPostWrite (reframe b l off d s) = framed_result b l off d (ChunkInstallPostWrite s)"
  by (simp add: ChunkInstallPostWrite_def Let_def reframe_def split: option.splits)

lemma ExecuteCmdLine_frame:
  "ExecuteCmdLine env line (reframe b l off d s) = framed_result b l off d (ExecuteCmdLine env line s)"
  by (simp add: ExecuteCmdLine_def Let_def reframe_def split: option.splits)

lemma install_data_frame:
  "install_data env c (reframe b l off d s) = framed_result b l off d (install_data env c s)"
proof -
  have "(reframe b l off d s)\<lparr>transferParams := tp\<rparr> = reframe b l off d (s\<lparr>transferParams := tp\<rparr>)" for tp
    by (simp add: reframe_def)
  then show ?thesis by (simp add: install_data_def ExecuteCmdLine_frame split: option.splits)
qed

lemma PostWrite_any_step: "ChunkInstallPostWrite (st\<lparr>updateStep := u\<rparr>) = ChunkInstallPostWrite st"
  by (simp add: ChunkInstallPostWrite_def split: option.splits)

lemma PostWrite_step: "ChunkInstallPostWrite s = Finished (r, s') \<Longrightarrow> r = STREAM_UPDATE_SUCCESS \<and> updateStep s' = CHUNK_INSTALL_STEP_PRE"
  by (auto simp: ChunkInstallPostWrite_def Let_def split: option.splits)

lemma ExecuteCmdLine_step:
  "ExecuteCmdLine env line s = Finished (r, s') \<Longrightarrow> updateStep s' = updateStep s \<and> curPartition s' = curPartition s"
  by (auto simp: ExecuteCmdLine_def Let_def split: option.splits)

lemma install_data_step:
  "install_data env c s = Finished (r, s') \<Longrightarrow> updateStep s' = updateStep s \<and> curPartition s' = curPartition s"
  by (auto simp: install_data_def dest!: ExecuteCmdLine_step split: option.splits)

lemma OpenDevPath_keeps:
  "OpenDevPath env s = (r, s') \<Longrightarrow> curPartition s' = curPartition s \<and> firstBuffer s' = firstBuffer s \<and> skipLength s' = skipLength s"
  by (auto simp: OpenDevPath_def split: prod.splits sum.splits)

lemma InitTransferParams_keeps:
  "InitTransferParams env s = (r, s') \<Longrightarrow> curPartition s' = curPartition s \<and> firstBuffer s' = firstBuffer s \<and> skipLength s' = skipLength s"
  by (auto simp: InitTransferParams_def Let_def split: prod.splits)

lemma start_partition_keeps:
  assumes "start_partition env name s = (r, s')"
  shows "firstBuffer s' = firstBuffer s" "skipLength s' = skipLength s"
    and "r \<Longrightarrow> updateStep s' = CHUNK_INSTALL_STEP_DO" "r \<Longrightarrow> curPartition s' = name"
  using assms
  by (auto simp: start_partition_def dest!: OpenDevPath_keeps InitTransferParams_keeps split: prod.splits bool.splits)

lemma never_unfinished: "ChunkInstallPostWrite s \<noteq> Unfinished" "ExecuteCmdLine env line s \<noteq> Unfinished"
    "install_data env c s \<noteq> Unfinished" "enter_partition env name s \<noteq> Unfinished"
  by (auto simp: ChunkInstallPostWrite_def ExecuteCmdLine_def install_data_def enter_partition_def Let_def
      split: option.splits chunk_run.splits)

lemma enter_partition_inside:
  assumes "enter_partition env name s = Finished (True, s')" "updateStep s \<noteq> CHUNK_INSTALL_STEP_POST"
  shows "updateStep s' = CHUNK_INSTALL_STEP_DO" "curPartition s' = name"
proof -
  have "updateStep s' = CHUNK_INSTALL_STEP_DO \<and> curPartition s' = name"
    using assms start_partition_keeps(3,4) [of env name _ True s']
    by (cases "updateStep s") (auto simp: enter_partition_def split: if_splits chunk_run.splits prod.splits)
  then show "updateStep s' = CHUNK_INSTALL_STEP_DO" "curPartition s' = name" by auto
qed

lemma enter_partition_again:
  assumes "enter_partition env name s = Finished (True, s')" "updateStep s \<noteq> CHUNK_INSTALL_STEP_POST"
  shows "enter_partition env name s' = Finished (True, s')"
  using enter_partition_inside [OF assms] by (simp add: enter_partition_def)

section \<open>The loops over the buffer\<close>

text \<open>
  \<open>UpdateBinData\<close> followed by the rest of the loop that called it.
\<close>

definition drive ::
    "nat \<Rightarrow> nat \<Rightarrow> ('z, 'h) chunk_env \<Rightarrow> bin_update \<Rightarrow> (update_result \<times> bin_update) chunk_run" where
  "drive f g env st =
     (case UpdateBinData f env st of
        Finished (ret, st') \<Rightarrow> if ret = STREAM_UPDATE_FAILURE then Finished (ret, st') else process_buffer g env ret st'
      | Undefined \<Rightarrow> Undefined
      | Unfinished \<Rightarrow> Unfinished)"

text \<open>A run on the buffer does what a run without it does, and leaves the buffer as \<open>P\<close> says.\<close>

definition agrees ::
    "(update_result \<times> bin_update) chunk_run \<Rightarrow> (bool \<times> bin_update) chunk_run \<Rightarrow> (bin_update \<Rightarrow> bool) \<Rightarrow> bool" where
  "agrees run spec P \<longleftrightarrow>
     (case spec of
        Finished (True, s) \<Rightarrow> (\<exists>st. run = Finished (STREAM_UPDATE_SUCCESS, st) \<and> bufferless st = s \<and> P st)
      | Finished (False, s) \<Rightarrow> (\<exists>st. run = Finished (STREAM_UPDATE_FAILURE, st) \<and> bufferless st = s)
      | Undefined \<Rightarrow> run = Undefined
      | Unfinished \<Rightarrow> False)"

abbreviation (input) put_core :: "bin_update \<Rightarrow> nat \<Rightarrow> bin_update \<Rightarrow> bin_update" where
  "put_core st off s \<equiv> reframe (chunkBuffer st) (curlen st) off (needNewData st) s"

lemma drive_need:
  assumes "chunk_install env st = Finished (STREAM_UPDATE_SUCCESS, need_data st)"
  shows "drive (Suc f) (Suc g) env st = Finished (STREAM_UPDATE_SUCCESS, need_data st)"
  using assms by (simp add: drive_def)

lemma drive_step:
  assumes "chunk_install env st = Finished (ret, st')" "ret \<noteq> STREAM_UPDATE_FAILURE" "\<not> needNewData st'"
    and "updateStep st' \<noteq> CHUNK_INSTALL_STEP_PRE"
  shows "drive (Suc f) g env st = drive f g env st'"
  using assms by (simp add: drive_def)

lemma drive_stops:
  "chunk_install env st = Finished (STREAM_UPDATE_FAILURE, st') \<Longrightarrow> drive (Suc f) g env st = Finished (STREAM_UPDATE_FAILURE, st')"
  "chunk_install env st = Undefined \<Longrightarrow> drive (Suc f) g env st = Undefined"
  by (simp_all add: drive_def)

lemma process_buffer_data:
  assumes "sees st (encode_chunk c @ rest) n" "2 \<le> n" "\<not> needNewData st"
  shows "process_buffer (Suc g) env ret st = drive (Suc g) g env st"
  using assms sees_left [OF assms(1), of 0] sees_reads(1) [OF assms(1), of 0] chunk_fields(1) [of c rest]
  by (simp add: drive_def split: chunk_run.splits prod.splits)

lemma PreWrite_chunk:
  assumes "sees st (encode_chunk c @ rest) n" "chunk_ok c" "name_end c \<le> n"
  shows "ChunkInstallPreWrite env st = Finished
     (case start_partition env (chunk_name c) (bufferless st) of
        (good, s) \<Rightarrow> (if good then STREAM_UPDATE_SUCCESS else STREAM_UPDATE_FAILURE, put_core st (chunkOffset st) s))"
proof -
  have "ChunkInstallPreWrite env st = Finished
     (case start_partition env (chunk_name c) st of
        (good, s) \<Rightarrow> (if good then STREAM_UPDATE_SUCCESS else STREAM_UPDATE_FAILURE, s))"
    using ReadPartitionData_chunk [OF assms(1,2)] assms(3)
    by (simp add: ChunkInstallPreWrite_def start_partition_def split: prod.splits bool.splits)
  also have "start_partition env (chunk_name c) st
      = apsnd (put_core st (chunkOffset st)) (start_partition env (chunk_name c) (bufferless st))"
    by (subst reframe_core) (rule start_partition_frame)
  finally show ?thesis by (simp add: apsnd_def map_prod_def split: prod.splits)
qed

text \<open>The partition of the next chunk is entered.\<close>

lemma drive_enter_pre:
  assumes s: "sees st (encode_chunk c @ rest) n" "chunk_ok c" "name_end c \<le> n" "\<not> needNewData st"
    and pre: "updateStep st = CHUNK_INSTALL_STEP_PRE"
  shows "drive (Suc f) g env st =
    (case start_partition env (chunk_name c) (bufferless st) of
       (True, s) \<Rightarrow> drive f g env (put_core st (chunkOffset st) s)
     | (False, s) \<Rightarrow> Finished (STREAM_UPDATE_FAILURE, put_core st (chunkOffset st) s))"
proof -
  obtain good s' where start: "start_partition env (chunk_name c) (bufferless st) = (good, s')" by fastforce
  have install: "chunk_install env st = Finished (if good then STREAM_UPDATE_SUCCESS else STREAM_UPDATE_FAILURE, put_core st (chunkOffset st) s')"
    using PreWrite_chunk [OF s(1-3), of env] pre by (simp add: chunk_install_def start)
  show ?thesis
  proof (cases good)
    case True
    then have "updateStep s' = CHUNK_INSTALL_STEP_DO" using start_partition_keeps(3) [OF start] by simp
    then show ?thesis using install True s(4) by (simp add: start drive_step)
  next
    case False
    then show ?thesis using install by (simp add: start drive_stops)
  qed
qed

lemma drive_enter:
  assumes s: "sees st (encode_chunk c @ rest) n" "chunk_ok c" "name_end c \<le> n" "\<not> needNewData st"
    and step: "updateStep st \<noteq> CHUNK_INSTALL_STEP_POST" and fuel: "m < f" "m < g" "2 \<le> f"
  shows "\<exists>f' g'. m \<le> f' \<and> m \<le> g' \<and> drive f g env st =
    (case enter_partition env (chunk_name c) (bufferless st) of
       Finished (True, s) \<Rightarrow> drive f' g' env (put_core st (chunkOffset st) s)
     | Finished (False, s) \<Rightarrow> Finished (STREAM_UPDATE_FAILURE, put_core st (chunkOffset st) s)
     | Undefined \<Rightarrow> Undefined
     | Unfinished \<Rightarrow> Unfinished)"
proof -
  obtain f0 where f: "f = Suc (Suc f0)" using fuel(3) by (metis Suc_le_D numeral_2_eq_2 Suc_le_mono)
  obtain g0 where g: "g = Suc g0" using fuel(2) by (cases g) auto
  consider (pre) "updateStep st = CHUNK_INSTALL_STEP_PRE"
    | (same) "updateStep st = CHUNK_INSTALL_STEP_DO" "curPartition st = chunk_name c"
    | (other) "updateStep st = CHUNK_INSTALL_STEP_DO" "curPartition st \<noteq> chunk_name c"
    using step by (cases "updateStep st") auto
  then show ?thesis
  proof cases
    case pre
    show ?thesis unfolding f drive_enter_pre [OF s pre, of "Suc f0" g]
      by (rule exI [of _ "Suc f0"], rule exI [of _ g])
        (use fuel f pre in \<open>auto simp: enter_partition_def split: prod.splits bool.splits\<close>)
  next
    case same
    then have "enter_partition env (chunk_name c) (bufferless st) = Finished (True, bufferless st)" by (simp add: enter_partition_def)
    moreover have "drive f g env st = drive f g env (put_core st (chunkOffset st) (bufferless st))"
      by (simp flip: reframe_core)
    ultimately show ?thesis using fuel(1,2) by (intro exI [of _ f] exI [of _ g]) simp
  next
    case other
    let ?post = "st\<lparr>updateStep := CHUNK_INSTALL_STEP_POST\<rparr>"
    have "chunk_install env st = Finished (STREAM_UPDATE_SUCCESS, ?post)"
      using ChunkInstallDoWrite_chunk(2) [OF s(1,2,3)] other by (auto simp: chunk_install_def)
    then have "drive f g env st = drive (Suc f0) g env ?post"
      unfolding f by (rule drive_step) (use s(4) in simp_all)
    moreover have install: "chunk_install env ?post
        = framed_result (chunkBuffer st) (curlen st) (chunkOffset st) (needNewData st) (ChunkInstallPostWrite (bufferless st))"
      unfolding PostWrite_frame [symmetric] by (simp add: chunk_install_def PostWrite_any_step flip: reframe_core)
    moreover have "drive (Suc f0) g env ?post = (case ChunkInstallPostWrite (bufferless st) of
        Finished (_, s1) \<Rightarrow> drive (Suc g0) g0 env (put_core st (chunkOffset st) s1)
      | Undefined \<Rightarrow> Undefined | Unfinished \<Rightarrow> Unfinished)"
    proof (cases "ChunkInstallPostWrite (bufferless st)")
      case (Finished rs)
      obtain r s1 where rs: "rs = (r, s1)" by fastforce
      have r: "r = STREAM_UPDATE_SUCCESS" "updateStep s1 = CHUNK_INSTALL_STEP_PRE"
        using PostWrite_step [of "bufferless st" r s1] Finished rs by auto
      have sees1: "sees (put_core st (chunkOffset st) s1) (encode_chunk c @ rest) n" using s(1) by (simp add: sees_def)
      have "drive (Suc f0) g env ?post = process_buffer g env STREAM_UPDATE_SUCCESS (put_core st (chunkOffset st) s1)"
        using install r by (simp add: drive_def Finished rs)
      also have "\<dots> = drive (Suc g0) g0 env (put_core st (chunkOffset st) s1)"
        unfolding g by (rule process_buffer_data [OF sees1]) (use s(3,4) in simp_all)
      finally show ?thesis by (simp add: Finished rs)
    next
      case Undefined
      then show ?thesis using install by (simp add: drive_stops)
    qed (simp add: never_unfinished)
    moreover have "drive (Suc g0) g0 env (put_core st (chunkOffset st) s1) =
        (case start_partition env (chunk_name c) s1 of
           (True, s) \<Rightarrow> drive g0 g0 env (put_core st (chunkOffset st) s)
         | (False, s) \<Rightarrow> Finished (STREAM_UPDATE_FAILURE, put_core st (chunkOffset st) s))"
      if "ChunkInstallPostWrite (bufferless st) = Finished (r, s1)" for r s1
    proof -
      have c: "bufferless s1 = s1" using that by (auto simp: ChunkInstallPostWrite_def bufferless_def Let_def split: option.splits)
      have sees1: "sees (put_core st (chunkOffset st) s1) (encode_chunk c @ rest) n" using s(1) by (simp add: sees_def)
      show ?thesis using drive_enter_pre [OF sees1 s(2,3), of g0 g0 env] PostWrite_step [OF that] s(4)
        by (simp add: c split: prod.splits bool.splits)
    qed
    ultimately show ?thesis
      by (intro exI [of _ g0]) (use fuel(1,2) g other in \<open>auto simp: enter_partition_def split: chunk_run.splits prod.splits\<close>)
  qed
qed

text \<open>A complete chunk of the current partition is installed.\<close>

lemma drive_install:
  assumes s: "sees st (encode_chunk c @ rest) n" "chunk_ok c" "length (encode_chunk c) \<le> n" "\<not> needNewData st"
    and step: "updateStep st = CHUNK_INSTALL_STEP_DO" "curPartition st = chunk_name c"
  shows "drive (Suc f) g env st =
    (case install_data env c (bufferless st) of
       Finished (True, s) \<Rightarrow> drive f g env (put_core st (chunkOffset st + length (encode_chunk c)) s)
     | Finished (False, s) \<Rightarrow> Finished (STREAM_UPDATE_FAILURE, put_core st (chunkOffset st) s)
     | Undefined \<Rightarrow> Undefined
     | Unfinished \<Rightarrow> Unfinished)"
proof -
  have data: "install_data env c st = framed_result (chunkBuffer st) (curlen st) (chunkOffset st) (needNewData st) (install_data env c (bufferless st))"
    by (subst reframe_core) (rule install_data_frame)
  have install: "chunk_install env st = (case install_data env c (bufferless st) of
       Finished (True, s) \<Rightarrow> Finished (STREAM_UPDATE_SUCCESS, put_core st (chunkOffset st + length (encode_chunk c)) s)
     | Finished (False, s) \<Rightarrow> Finished (STREAM_UPDATE_FAILURE, put_core st (chunkOffset st) s)
     | Undefined \<Rightarrow> Undefined
     | Unfinished \<Rightarrow> Unfinished)"
  proof -
    have "chunk_install env st = (case install_data env c st of
         Finished (True, s) \<Rightarrow> Finished (STREAM_UPDATE_SUCCESS, s\<lparr>chunkOffset := chunkOffset st + length (encode_chunk c)\<rparr>)
       | Finished (False, s) \<Rightarrow> Finished (STREAM_UPDATE_FAILURE, s)
       | Undefined \<Rightarrow> Undefined
       | Unfinished \<Rightarrow> Unfinished)"
      using ChunkInstallDoWrite_chunk(4) [OF s(1,2) step(2) [symmetric] s(3), of env] step(1)
      by (simp add: chunk_install_def install_data_def split: option.splits)
    then show ?thesis unfolding data
      by (auto simp: reframe_def split: chunk_run.splits prod.splits bool.splits)
  qed
  show ?thesis
  proof (cases "install_data env c (bufferless st)")
    case (Finished rs)
    obtain r s' where rs: "rs = (r, s')" by fastforce
    have keep: "updateStep s' = CHUNK_INSTALL_STEP_DO"
      using install_data_step [of env c "bufferless st" r s'] Finished rs step(1) by simp
    show ?thesis
    proof (cases r)
      case True
      then show ?thesis using install keep s(4) by (simp add: Finished rs drive_step)
    next
      case False
      then show ?thesis using install by (simp add: Finished rs drive_stops)
    qed
  next
    case Undefined
    then show ?thesis using install by (simp add: drive_stops)
  qed (simp add: never_unfinished)
qed

lemma core_commutes:
  "start_partition env name (bufferless s) = apsnd bufferless (start_partition env name s)"
  "ChunkInstallPostWrite (bufferless s) = map_chunk_run (apsnd bufferless) (ChunkInstallPostWrite s)"
  "install_data env c (bufferless s) = map_chunk_run (apsnd bufferless) (install_data env c s)"
proof -
  have c: "bufferless = reframe [] 0 0 False" by (rule ext) (simp add: bufferless_def reframe_def)
  show "start_partition env name (bufferless s) = apsnd bufferless (start_partition env name s)"
    "ChunkInstallPostWrite (bufferless s) = map_chunk_run (apsnd bufferless) (ChunkInstallPostWrite s)"
    "install_data env c (bufferless s) = map_chunk_run (apsnd bufferless) (install_data env c s)"
    unfolding c by (rule start_partition_frame PostWrite_frame install_data_frame)+
qed

lemma enter_partition_core: "enter_partition env name (bufferless s) = map_chunk_run (apsnd bufferless) (enter_partition env name s)"
  by (simp add: enter_partition_def core_commutes split: chunk_run.splits prod.splits)

lemma core_idem:
  "enter_partition env name (bufferless s) = Finished (r, s') \<Longrightarrow> bufferless s' = s'"
  "install_data env c (bufferless s) = Finished (r, s') \<Longrightarrow> bufferless s' = s'"
  by (cases "enter_partition env name s", auto simp: enter_partition_core)
     (cases "install_data env c s", auto simp: core_commutes)

section \<open>All chunks in the buffer\<close>

lemma sees_advance:
  assumes "sees st (encode_chunk c @ rest) n" "length (encode_chunk c) \<le> n"
  shows "sees (put_core st (chunkOffset st + length (encode_chunk c)) s) rest (n - length (encode_chunk c))"
proof -
  have "slice (chunkOffset st + length (encode_chunk c)) (n - length (encode_chunk c)) (chunkBuffer st)
      = slice (length (encode_chunk c)) (n - length (encode_chunk c)) (encode_chunk c @ rest)"
    by (rule sees_slice [OF assms(1)]) (use assms(2) in simp)
  then show ?thesis using assms by (auto simp: sees_def slice_def)
qed

definition encode_chunks :: "data_chunk list \<Rightarrow> bytes" where
  "encode_chunks cs = concat (map encode_chunk cs)"

lemma encode_chunks_simps [simp]:
  "encode_chunks [] = []" "encode_chunks (c # cs) = encode_chunk c @ encode_chunks cs"
  "encode_chunks (cs @ ds) = encode_chunks cs @ encode_chunks ds"
  by (simp_all add: encode_chunks_def)

lemma agreesI:
  "agrees (Finished (STREAM_UPDATE_FAILURE, st)) (Finished (False, bufferless st)) P" "agrees Undefined Undefined P"
  "P st \<Longrightarrow> agrees (Finished (STREAM_UPDATE_SUCCESS, st)) (Finished (True, bufferless st)) P"
  by (auto simp: agrees_def)

lemma drive_chunks:
  assumes "sees st (encode_chunks cs @ encode_chunk c') (length (encode_chunks cs) + k)" "k < length (encode_chunk c')"
    and "\<forall>c \<in> set cs. chunk_ok c" "chunk_ok c'" "\<not> needNewData st" "updateStep st \<noteq> CHUNK_INSTALL_STEP_POST"
    and "2 * length cs + 3 \<le> f" "2 * length cs + 3 \<le> g"
  shows "agrees (drive f g env st) (install_part env cs c' k (bufferless st))
           (\<lambda>st'. sees st' (encode_chunk c') k \<and> chunkBuffer st' = chunkBuffer st \<and> curlen st' = curlen st)"
  using assms
proof (induction cs arbitrary: st f g)
  case Nil
  have s: "sees st (encode_chunk c' @ []) k" using Nil(1) by simp
  have result: "agrees (Finished (STREAM_UPDATE_SUCCESS, need_data st)) (Finished (True, bufferless st))
      (\<lambda>st'. sees st' (encode_chunk c') k \<and> chunkBuffer st' = chunkBuffer st \<and> curlen st' = curlen st)" if "sees st (encode_chunk c') k" for st
    using that agreesI(3) [of "\<lambda>st'. sees st' (encode_chunk c') k \<and> chunkBuffer st' = chunkBuffer st \<and> curlen st' = curlen st" "need_data st"] by simp
  obtain f0 g0 where fg: "f = Suc f0" "g = Suc g0" using Nil(7,8) by (cases f; cases g) auto
  show ?case
  proof (cases "name_end c' \<le> k")
    case False
    then have "chunk_install env st = Finished (STREAM_UPDATE_SUCCESS, need_data st)"
      using ReadPartitionData_chunk [OF s Nil(4)] ChunkInstallDoWrite_chunk(1) [OF s Nil(4)] Nil(6)
      by (cases "updateStep st") (simp_all add: chunk_install_def ChunkInstallPreWrite_def)
    then show ?thesis using False result [of st] s by (simp add: drive_need fg install_part_def)
  next
    case True
    obtain f' g' where fuel: "2 \<le> f'" "2 \<le> g'" and drive: "drive f g env st =
        (case enter_partition env (chunk_name c') (bufferless st) of
           Finished (True, s) \<Rightarrow> drive f' g' env (put_core st (chunkOffset st) s)
         | Finished (False, s) \<Rightarrow> Finished (STREAM_UPDATE_FAILURE, put_core st (chunkOffset st) s)
         | Undefined \<Rightarrow> Undefined
         | Unfinished \<Rightarrow> Unfinished)"
      using drive_enter [OF s Nil(4) True Nil(5,6), of 2 f g env] Nil(7,8) by auto
    have part: "install_part env [] c' k (bufferless st) = enter_partition env (chunk_name c') (bufferless st)"
      using True by (simp add: install_part_def)
    show ?thesis
    proof (cases "enter_partition env (chunk_name c') (bufferless st)")
      case (Finished rs)
      obtain r s' where rs: "rs = (r, s')" by fastforce
      note enter = Finished [unfolded rs]
      have bufferless: "bufferless s' = s'" by (rule core_idem(1) [OF enter])
      show ?thesis
      proof (cases r)
        case True
        let ?st = "put_core st (chunkOffset st) s'"
        have at: "updateStep s' = CHUNK_INSTALL_STEP_DO" "curPartition s' = chunk_name c'"
          using enter_partition_inside [of env "chunk_name c'" "bufferless st" s'] enter True Nil(6) by auto
        have sees': "sees ?st (encode_chunk c' @ []) k" using s by (simp add: sees_def)
        have "chunk_install env ?st = Finished (STREAM_UPDATE_SUCCESS, need_data ?st)"
          using ChunkInstallDoWrite_chunk(3) [OF sees' Nil(4)] at Nil(2) by (simp add: chunk_install_def)
        then have "drive f' g' env ?st = Finished (STREAM_UPDATE_SUCCESS, need_data ?st)"
          using drive_need [of env ?st] fuel by (cases f'; cases g') auto
        then show ?thesis using True agreesI(3) [of "\<lambda>st'. sees st' (encode_chunk c') k \<and> chunkBuffer st' = chunkBuffer st
            \<and> curlen st' = curlen st" "need_data ?st"] sees' bufferless by (simp add: drive part enter)
      next
        case False
        then show ?thesis using agreesI(1) [of "put_core st (chunkOffset st) s'"] bufferless by (simp add: drive part enter)
      qed
    qed (simp_all add: drive part agreesI never_unfinished)
  qed
next
  case (Cons c cs)
  let ?rest = "encode_chunks cs @ encode_chunk c'"
  let ?n = "length (encode_chunk c) + (length (encode_chunks cs) + k)"
  have s: "sees st (encode_chunk c @ ?rest) ?n" and ok: "chunk_ok c" and n: "length (encode_chunk c) \<le> ?n" "name_end c \<le> ?n"
    using Cons.prems(1,3) by (simp_all add: add.assoc length_encode_chunk)
  obtain f' g' where fuel: "2 * length cs + 4 \<le> f'" "2 * length cs + 4 \<le> g'" and drive: "drive f g env st =
      (case enter_partition env (chunk_name c) (bufferless st) of
         Finished (True, s) \<Rightarrow> drive f' g' env (put_core st (chunkOffset st) s)
       | Finished (False, s) \<Rightarrow> Finished (STREAM_UPDATE_FAILURE, put_core st (chunkOffset st) s)
       | Undefined \<Rightarrow> Undefined
       | Unfinished \<Rightarrow> Unfinished)"
    using drive_enter [OF s ok n(2) Cons.prems(5,6), of "2 * length cs + 4" f g env] Cons.prems(7,8) by auto
  have part: "install_part env (c # cs) c' k (bufferless st)
      = and_then (enter_partition env (chunk_name c) (bufferless st)) (\<lambda>s. and_then (install_data env c s) (install_part env cs c' k))"
    by (simp add: install_part_def [abs_def] and_then_assoc)
  show ?case
  proof (cases "enter_partition env (chunk_name c) (bufferless st)")
    case (Finished rs)
    obtain r s1 where rs: "rs = (r, s1)" by fastforce
    note enter = Finished [unfolded rs]
    have core1: "bufferless s1 = s1" by (rule core_idem(1) [OF enter])
    show ?thesis
    proof (cases r)
      case True
      let ?st1 = "put_core st (chunkOffset st) s1"
      have at: "updateStep s1 = CHUNK_INSTALL_STEP_DO" "curPartition s1 = chunk_name c"
        using enter_partition_inside [of env "chunk_name c" "bufferless st" s1] enter True Cons.prems(6) by auto
      have sees1: "sees ?st1 (encode_chunk c @ ?rest) ?n" using s by (simp add: sees_def)
      obtain f0 where f0: "f' = Suc f0" "2 * length cs + 3 \<le> f0" using fuel(1) by (cases f') auto
      have drive1: "drive f' g' env ?st1 = (case install_data env c s1 of
          Finished (True, s) \<Rightarrow> drive f0 g' env (put_core st (chunkOffset st + length (encode_chunk c)) s)
        | Finished (False, s) \<Rightarrow> Finished (STREAM_UPDATE_FAILURE, put_core st (chunkOffset st) s)
        | Undefined \<Rightarrow> Undefined
        | Unfinished \<Rightarrow> Unfinished)"
        using drive_install [OF sees1 ok n(1), of f0 g' env] at Cons.prems(5) core1
        by (simp add: f0 split: chunk_run.splits prod.splits bool.splits)
      show ?thesis
      proof (cases "install_data env c s1")
        case (Finished qs)
        obtain q s2 where qs: "qs = (q, s2)" by fastforce
        note data = Finished [unfolded qs]
        have core2: "bufferless s2 = s2" using core_idem(2) [of env c s1 q s2] data core1 by simp
        show ?thesis
        proof (cases q)
          case True
          let ?st2 = "put_core st (chunkOffset st + length (encode_chunk c)) s2"
          have sees2: "sees ?st2 ?rest (length (encode_chunks cs) + k)"
            using sees_advance [OF s n(1), of s2] by simp
          have "agrees (drive f0 g' env ?st2) (install_part env cs c' k (bufferless ?st2))
              (\<lambda>st'. sees st' (encode_chunk c') k \<and> chunkBuffer st' = chunkBuffer ?st2 \<and> curlen st' = curlen ?st2)"
            by (rule Cons.IH [OF sees2]) (use Cons.prems fuel f0 at install_data_step [OF data] in auto)
          then show ?thesis using True \<open>r\<close> core2 by (simp add: drive part enter drive1 data)
        next
          case False
          then show ?thesis using \<open>r\<close> agreesI(1) [of "put_core st (chunkOffset st) s2"] core2
            by (simp add: drive part enter drive1 data)
        qed
      qed (use \<open>r\<close> in \<open>simp_all add: drive part enter drive1 agreesI never_unfinished\<close>)
    next
      case False
      then show ?thesis using agreesI(1) [of "put_core st (chunkOffset st) s1"] core1 by (simp add: drive part enter)
    qed
  qed (simp_all add: drive part agreesI never_unfinished)
qed

section \<open>One piece\<close>

text \<open>Between two pieces the beginning of a chunk is in the buffer, or the buffer is clear.\<close>

definition waiting :: "bin_update \<Rightarrow> bytes \<Rightarrow> bool" where
  "waiting st p \<longleftrightarrow> curlen st = length p \<and> length p \<le> length (chunkBuffer st) \<and> take (length p) (chunkBuffer st) = p
     \<and> (p = [] \<longrightarrow> chunkBuffer st = replicate (length (chunkBuffer st)) 0)
     \<and> \<not> firstBuffer st \<and> skipLength st = 0 \<and> updateStep st \<noteq> CHUNK_INSTALL_STEP_POST"

definition filled :: "bytes \<Rightarrow> bytes \<Rightarrow> bin_update \<Rightarrow> bin_update" where
  "filled p d st = st\<lparr>chunkBuffer := p @ d @ drop (length p + length d) (chunkBuffer st), curlen := length p + length d,
     chunkOffset := 0, needNewData := False\<rparr>"

lemma filled_simps [simp]:
  "bufferless (filled p d st) = bufferless st" "curlen (filled p d st) = length p + length d" "chunkOffset (filled p d st) = 0"
  "needNewData (filled p d st) = False" "updateStep (filled p d st) = updateStep st"
  by (simp_all add: filled_def bufferless_def)

lemma sees_filled:
  assumes "p @ d = take n S" "n \<le> length S" "length p + length d \<le> length (chunkBuffer st)"
  shows "sees (filled p d st) S n"
proof -
  have n: "length p + length d = n" using arg_cong [OF assms(1), of length] assms(2) by simp
  have "take n (p @ d @ drop n (chunkBuffer st)) = p @ d" using n by simp
  then show ?thesis using assms n by (simp add: sees_def filled_def slice_def)
qed

lemma AddRemainData_waiting:
  assumes "waiting st p" "d \<noteq> []" "length p + length d \<le> length (chunkBuffer st)" "length (chunkBuffer st) \<le> SECUREC_MEM_MAX_LEN"
  shows "\<exists>st1. AddRemainData d st = Some ([], st1) \<and> st1\<lparr>needNewData := False\<rparr> = filled p d st"
proof -
  have "0 < length (chunkBuffer st)" using assms(2,3) by (cases d) auto
  then show ?thesis using assms
    by (auto simp: AddRemainData_def Let_def memcpy_s_def waiting_def filled_def add.commute)
qed

lemma process_buffer_first:
  assumes w: "waiting st p" and d: "d \<noteq> []" and fit: "length p + length d \<le> length (chunkBuffer st)" "2 \<le> length (chunkBuffer st)"
    and S: "p @ d = take n (encode_chunk c @ rest)" "n \<le> length (encode_chunk c @ rest)"
  shows "process_buffer (Suc g) env ret (filled p d st) = drive (Suc g) g env (filled p d st)"
proof (cases "2 \<le> n")
  case True
  show ?thesis by (rule process_buffer_data [OF sees_filled [OF S fit(1)] True]) simp
next
  case False
  then have n: "n = 1" using d S by (cases n) auto
  have one: "p = []" "d = [0x12]"
    using S n d by (cases p; cases d; auto simp: encode_chunk_def WriteLE16_def)+
  have "chunkBuffer st = replicate (length (chunkBuffer st)) 0" using w one(1) by (simp add: waiting_def)
  then have buf: "chunkBuffer (filled p d st) = 0x12 # replicate (length (chunkBuffer st) - 1) 0"
    by (metis (no_types, lifting) One_nat_def add_0 append_Cons append_Nil bin_update.select_convs(1) bin_update.surjective
        bin_update.update_convs(1,2,3,8) drop_replicate filled_def length_Cons list.size(3) one)
  have "ReadLE16 (chunkBuffer (filled p d st)) 0 = Some 0x12"
    unfolding buf using fit(2) by (simp add: ReadLE16_def)
  then show ?thesis using one by (simp add: drive_def left_of_def split: chunk_run.splits prod.splits)
qed

lemma MoveRemainingData_part:
  assumes s: "sees st (encode_chunk c) k" and len: "0 < curlen st" "length (chunkBuffer st) \<le> SECUREC_MEM_MAX_LEN"
    and keep: "\<not> firstBuffer st" "skipLength st = 0" "updateStep st \<noteq> CHUNK_INSTALL_STEP_POST"
  shows "\<exists>st'. MoveRemainingData st = (True, st') \<and> bufferless st' = bufferless st \<and> waiting st' (take k (encode_chunk c))
     \<and> length (chunkBuffer st') = length (chunkBuffer st)"
proof -
  have eqs: "chunkOffset st + k = curlen st" "curlen st \<le> length (chunkBuffer st)" "k \<le> length (encode_chunk c)"
      "take k (drop (chunkOffset st) (chunkBuffer st)) = take k (encode_chunk c)"
    using s by (auto simp: sees_def slice_def)
  have left: "left_of (curlen st) (chunkOffset st) = k" using sees_left [OF s, of 0] by simp
  show ?thesis
  proof (cases "k = 0")
    case True
    moreover have "chunkBuffer st \<noteq> []" using len eqs(2) by auto
    ultimately show ?thesis using keep len eqs left by (simp add: MoveRemainingData_def Let_def waiting_def bufferless_def)
  next
    case False
    then have nonempty: "take k (encode_chunk c) \<noteq> []" using eqs(3) by (cases "encode_chunk c") (auto simp: length_encode_chunk)
    have "memcpy_s (chunkBuffer st) (curlen st) (drop (chunkOffset st) (chunkBuffer st)) k
        = Some (take k (encode_chunk c) @ drop k (chunkBuffer st))"
      using len eqs by (simp add: memcpy_s_def)
    then show ?thesis using False keep len eqs left nonempty
      by (simp add: MoveRemainingData_def Let_def waiting_def bufferless_def)
  qed
qed

lemma ExecuteCmdLine_keeps: "ExecuteCmdLine env line s = Finished (r, s') \<Longrightarrow> firstBuffer s' = firstBuffer s \<and> skipLength s' = skipLength s"
  by (auto simp: ExecuteCmdLine_def Let_def split: option.splits)

definition kept :: "bin_update \<Rightarrow> bin_update \<Rightarrow> bool" where
  "kept s s' \<longleftrightarrow> firstBuffer s' = firstBuffer s \<and> skipLength s' = skipLength s
     \<and> (updateStep s \<noteq> CHUNK_INSTALL_STEP_POST \<longrightarrow> updateStep s' \<noteq> CHUNK_INSTALL_STEP_POST)"

lemma enter_partition_kept: "enter_partition env name s = Finished (True, s') \<Longrightarrow> kept s s'"
proof -
  assume e: "enter_partition env name s = Finished (True, s')"
  have post: "firstBuffer s1 = firstBuffer s \<and> skipLength s1 = skipLength s" if "ChunkInstallPostWrite s = Finished (r, s1)" for r s1
    using that by (auto simp: ChunkInstallPostWrite_def Let_def split: option.splits)
  show "kept s s'" using e enter_partition_inside [OF e] start_partition_keeps(1,2) [of env name _ True s'] post
    by (auto simp: enter_partition_def kept_def split: if_splits chunk_run.splits)
qed

lemma install_chunks_kept: "install_chunks env cs s = Finished (True, s') \<Longrightarrow> kept s s'"
proof (induction cs arbitrary: s)
  case (Cons c cs)
  obtain s1 where s1: "enter_partition env (chunk_name c) s = Finished (True, s1)"
      "and_then (install_data env c s1) (install_chunks env cs) = Finished (True, s')"
    using Cons.prems by (auto simp: and_then_def split: chunk_run.splits prod.splits bool.splits)
  obtain s2 where s2: "install_data env c s1 = Finished (True, s2)" "install_chunks env cs s2 = Finished (True, s')"
    using s1(2) by (auto simp: and_then_def split: chunk_run.splits prod.splits bool.splits)
  have "kept s1 s2" using install_data_step [OF s2(1)] s2(1) ExecuteCmdLine_keeps
    by (auto simp: kept_def install_data_def split: option.splits dest!: ExecuteCmdLine_keeps)
  then show ?case using enter_partition_kept [OF s1(1)] Cons.IH [OF s2(2)] by (auto simp: kept_def)
qed (simp add: kept_def)

lemma install_part_kept: "install_part env cs c k s = Finished (True, s') \<Longrightarrow> kept s s'"
  by (auto simp: install_part_def and_then_def kept_def split: chunk_run.splits prod.splits bool.splits if_splits
      dest!: install_chunks_kept enter_partition_kept)

text \<open>A piece after the head: the chunks that are complete with it are installed.\<close>

lemma length_encode_chunks: "14 * length cs \<le> length (encode_chunks cs)"
  by (induction cs) (simp_all add: length_encode_chunk)

lemma piece_fills:
  assumes w: "waiting st p" and d: "d \<noteq> []" and fit: "length p + length d \<le> length (chunkBuffer st)" "2 \<le> length (chunkBuffer st)"
    and S: "p @ d = encode_chunks cs @ take k (encode_chunk c)" "k < length (encode_chunk c)"
    and ok: "\<forall>c \<in> set cs. chunk_ok c" "chunk_ok c" and fuel: "length (chunkBuffer st) + 4 \<le> f"
  shows "agrees (ProcessBufferData (Suc f) env (filled p d st)) (install_part env cs c k (bufferless st))
     (\<lambda>st'. sees st' (encode_chunk c) k \<and> chunkBuffer st' = chunkBuffer (filled p d st) \<and> curlen st' = length p + length d)"
proof -
  let ?n = "length (encode_chunks cs) + k"
  have n: "p @ d = take ?n (encode_chunks cs @ encode_chunk c)" "?n \<le> length (encode_chunks cs @ encode_chunk c)"
    using S by simp_all
  have len: "length p + length d = ?n" using arg_cong [OF S(1), of length] S(2) by simp
  obtain c1 rest where first: "encode_chunks cs @ encode_chunk c = encode_chunk c1 @ rest"
    by (cases cs) (metis append_Nil append_Nil2 encode_chunks_simps(1), simp)
  have "process_buffer (Suc f) env STREAM_UPDATE_SUCCESS (filled p d st) = drive (Suc f) f env (filled p d st)"
    by (rule process_buffer_first [OF w d fit]) (use n first in auto)
  moreover have "14 * length cs \<le> length (chunkBuffer st)" using length_encode_chunks [of cs] len fit(1) by simp
  then have "agrees (drive (Suc f) f env (filled p d st)) (install_part env cs c k (bufferless (filled p d st)))
     (\<lambda>st'. sees st' (encode_chunk c) k \<and> chunkBuffer st' = chunkBuffer (filled p d st) \<and> curlen st' = curlen (filled p d st))"
    using w S(2) ok fuel by (intro drive_chunks [OF sees_filled [OF n(1,2) fit(1)]]) (auto simp: waiting_def)
  ultimately show ?thesis by (simp add: ProcessBufferData_def)
qed

definition pieces_run :: "(update_result \<times> 'b \<times> bin_update) chunk_run \<Rightarrow> (update_result \<times> bin_update) chunk_run" where
  "pieces_run r = map_chunk_run (\<lambda>(ret, _, st). (ret, st)) r"

lemma StartBinChunkUpdate_piece:
  assumes w: "waiting st p" and d: "d \<noteq> []" and fit: "length p + length d \<le> length (chunkBuffer st)" "2 \<le> length (chunkBuffer st)"
      "length (chunkBuffer st) \<le> SECUREC_MEM_MAX_LEN"
    and S: "p @ d = encode_chunks cs @ take k (encode_chunk c)" "k < length (encode_chunk c)"
    and ok: "\<forall>c \<in> set cs. chunk_ok c" "chunk_ok c" and fuel: "length (chunkBuffer st) + 5 \<le> fuel"
  shows "agrees (pieces_run (StartBinChunkUpdate fuel env d st)) (install_part env cs c k (bufferless st))
     (\<lambda>st'. waiting st' (take k (encode_chunk c)) \<and> length (chunkBuffer st') = length (chunkBuffer st))"
proof -
  obtain f where f: "fuel = Suc (Suc f)" "length (chunkBuffer st) + 4 \<le> Suc f" using fuel by (cases fuel; cases "fuel - 1") auto
  obtain st1 where st1: "AddRemainData d st = Some ([], st1)" "st1\<lparr>needNewData := False\<rparr> = filled p d st"
    using AddRemainData_waiting [OF w d fit(1,3)] by blast
  have start: "ProcessHeader d st = Some st" "SkipTargetData d st = Some (False, 0, st)"
    using w by (simp_all add: waiting_def ProcessHeader_def SkipTargetData_def)
  have loop: "stream_loop fuel env d STREAM_UPDATE_SUCCESS st =
      (case ProcessBufferData (Suc (Suc f)) env (filled p d st) of
         Finished (ret, st2) \<Rightarrow>
           if ret = STREAM_UPDATE_FAILURE then Finished (ret, st2)
           else (case MoveRemainingData st2 of
               (False, st3) \<Rightarrow> Finished (STREAM_UPDATE_FAILURE, st3)
             | (True, st3) \<Rightarrow> Finished (ret, st3))
       | Undefined \<Rightarrow> Undefined
       | Unfinished \<Rightarrow> Unfinished)"
    using d by (simp add: f st1 split: chunk_run.splits prod.splits bool.splits)
  have run: "pieces_run (StartBinChunkUpdate fuel env d st) = stream_loop fuel env d STREAM_UPDATE_SUCCESS st"
    using d by (simp add: pieces_run_def StartBinChunkUpdate_def start split: chunk_run.splits prod.splits update_result.splits)
  have fills: "agrees (ProcessBufferData (Suc (Suc f)) env (filled p d st)) (install_part env cs c k (bufferless st))
     (\<lambda>st'. sees st' (encode_chunk c) k \<and> chunkBuffer st' = chunkBuffer (filled p d st) \<and> curlen st' = length p + length d)"
    by (rule piece_fills [OF w d fit(1,2) S ok f(2)])
  show ?thesis
  proof (cases "\<exists>s. install_part env cs c k (bufferless st) = Finished (True, s)")
    case True
    then obtain s where s: "install_part env cs c k (bufferless st) = Finished (True, s)" by blast
    obtain st2 where st2: "ProcessBufferData (Suc (Suc f)) env (filled p d st) = Finished (STREAM_UPDATE_SUCCESS, st2)"
        "bufferless st2 = s" "sees st2 (encode_chunk c) k" "chunkBuffer st2 = chunkBuffer (filled p d st)" "curlen st2 = length p + length d"
      using fills by (auto simp: s agrees_def)
    have keep: "\<not> firstBuffer st2" "skipLength st2 = 0" "updateStep st2 \<noteq> CHUNK_INSTALL_STEP_POST"
      using install_part_kept [OF s] w st2(2) unfolding kept_def waiting_def by auto
    have len: "length (chunkBuffer st2) = length (chunkBuffer st)" using st2(4) fit(1) by (simp add: filled_def)
    have pos: "0 < curlen st2" using st2(5) d by (cases d) auto
    obtain st3 where st3: "MoveRemainingData st2 = (True, st3)" "bufferless st3 = bufferless st2"
        "waiting st3 (take k (encode_chunk c))" "length (chunkBuffer st3) = length (chunkBuffer st)"
      using MoveRemainingData_part [OF st2(3) pos _ keep] len fit(3) by auto
    show ?thesis using st3 st2(1,2) by (simp add: run loop s agrees_def)
  next
    case False
    then show ?thesis using fills
      by (simp add: run loop agrees_def split: chunk_run.splits prod.splits bool.splits) auto
  qed
qed

section \<open>All pieces\<close>

lemma cut_chunks:
  assumes "prefix q (encode_chunks cs)"
  shows "\<exists>cs1 cs2 k. cs = cs1 @ cs2 \<and> q = encode_chunks cs1 @ take k (encode_chunks cs2)
     \<and> (case cs2 of [] \<Rightarrow> k = 0 | c # _ \<Rightarrow> k < length (encode_chunk c))"
  using assms
proof (induction cs arbitrary: q)
  case Nil
  then show ?case by (intro exI [of _ "[]"]) auto
next
  case (Cons c cs)
  show ?case
  proof (cases "length q < length (encode_chunk c)")
    case True
    then have "q = take (length q) (encode_chunks (c # cs))"
      using Cons.prems by (metis append_eq_conv_conj prefix_def)
    then show ?thesis using True by (intro exI [of _ "[]"] exI [of _ "c # cs"] exI [of _ "length q"]) simp
  next
    case False
    then obtain r where r: "q = encode_chunk c @ r" "prefix r (encode_chunks cs)"
      using Cons.prems by (auto simp: prefix_def append_eq_append_conv2)
    then obtain cs1 cs2 k where "cs = cs1 @ cs2" "r = encode_chunks cs1 @ take k (encode_chunks cs2)"
        "case cs2 of [] \<Rightarrow> k = 0 | c # _ \<Rightarrow> k < length (encode_chunk c)"
      using Cons.IH by blast
    then show ?thesis using r by (intro exI [of _ "c # cs1"] exI [of _ cs2] exI [of _ k]) simp
  qed
qed

lemma outcome_agrees:
  "agrees r spec P \<Longrightarrow> map_chunk_run (\<lambda>(ret, st). (ret \<noteq> STREAM_UPDATE_FAILURE, bufferless st)) r = spec"
  by (auto simp: agrees_def split: chunk_run.splits prod.splits bool.splits)

lemma install_rest:
  assumes "install_part env cs1 c k s = Finished (True, s')" "updateStep s \<noteq> CHUNK_INSTALL_STEP_POST"
  shows "install_chunks env (cs1 @ c # cs2) s = install_chunks env (c # cs2) s'"
proof -
  obtain s1 where s1: "install_chunks env cs1 s = Finished (True, s1)"
      "(if name_end c \<le> k then enter_partition env (chunk_name c) s1 else Finished (True, s1)) = Finished (True, s')"
    using assms(1) by (auto simp: install_part_def and_then_def split: chunk_run.splits prod.splits bool.splits)
  have "updateStep s1 \<noteq> CHUNK_INSTALL_STEP_POST" using install_chunks_kept [OF s1(1)] assms(2) by (simp add: kept_def)
  then have "enter_partition env (chunk_name c) s1 = enter_partition env (chunk_name c) s'"
    using s1(2) enter_partition_again [of env "chunk_name c" s1 s'] by (auto split: if_splits)
  then show ?thesis by (simp add: install_chunks_append s1(1))
qed

lemma and_then_stops: "(\<And>s. r \<noteq> Finished (True, s)) \<Longrightarrow> and_then r f = r"
  by (auto simp: and_then_def split: chunk_run.splits prod.splits bool.splits)

lemma install_stops:
  assumes "install_part env cs1 c k s = r" "\<And>s'. r \<noteq> Finished (True, s')"
  shows "install_chunks env (cs1 @ c # cs2) s = r"
proof (cases "\<exists>s1. install_chunks env cs1 s = Finished (True, s1)")
  case True
  then obtain s1 where s1: "install_chunks env cs1 s = Finished (True, s1)" by blast
  then have "(if name_end c \<le> k then enter_partition env (chunk_name c) s1 else Finished (True, s1)) = r"
    using assms(1) by (simp add: install_part_def)
  then have "enter_partition env (chunk_name c) s1 = r" using assms(2) by (metis (full_types))
  then show ?thesis using assms(2) by (simp add: install_chunks_append s1 and_then_stops)
next
  case False
  then have "\<And>f. and_then (install_chunks env cs1 s) f = install_chunks env cs1 s" by (blast intro: and_then_stops)
  then show ?thesis using assms(1) by (simp add: install_part_def install_chunks_append)
qed

lemma feed_chunks:
  assumes "waiting st (take k (encode_chunks cs))" "case cs of [] \<Rightarrow> k = 0 | c # _ \<Rightarrow> k < length (encode_chunk c)"
    and "take k (encode_chunks cs) @ concat ds = encode_chunks cs" "\<forall>c \<in> set cs. chunk_ok c" "\<forall>d \<in> set ds. d \<noteq> []"
    and "\<forall>d \<in> set ds. \<forall>c \<in> set cs. length (encode_chunk c) + length d \<le> length (chunkBuffer st)"
    and "length (chunkBuffer st) \<le> SECUREC_MEM_MAX_LEN" "length (chunkBuffer st) + 5 \<le> fuel"
  shows "map_chunk_run (apsnd bufferless) (update_loop fuel env ds st) = install_chunks env cs (bufferless st)"
  using assms
proof (induction ds arbitrary: st k cs)
  case Nil
  have "cs = []"
  proof (cases cs)
    case (Cons c cs')
    then have "k < length (encode_chunks cs)" using Nil.prems(2) by simp
    then show ?thesis using arg_cong [OF Nil.prems(3), of length] by simp
  qed
  then show ?case by simp
next
  case (Cons d ds)
  let ?p = "take k (encode_chunks cs)"
  have "prefix (?p @ d) (encode_chunks cs)" using Cons.prems(3) by (metis append.assoc concat.simps(2) prefixI)
  then obtain cs1 cs2 k' where cut: "cs = cs1 @ cs2" "?p @ d = encode_chunks cs1 @ take k' (encode_chunks cs2)"
      "case cs2 of [] \<Rightarrow> k' = 0 | c # _ \<Rightarrow> k' < length (encode_chunk c)"
    using cut_chunks by blast
  obtain c cs3 where cs: "cs = c # cs3"
    using Cons.prems(3,5) by (cases cs) auto
  have k: "length ?p < length (encode_chunk c)" using Cons.prems(2) cs by simp
  have fit: "length ?p + length d \<le> length (chunkBuffer st)" "2 \<le> length (chunkBuffer st)"
    using Cons.prems(6) cs k by (auto simp: length_encode_chunk)
  define c' where "c' = (case cs2 of [] \<Rightarrow> c | c' # _ \<Rightarrow> c')"
  have c': "chunk_ok c'" "k' < length (encode_chunk c')" "take k' (encode_chunks cs2) = take k' (encode_chunk c')"
    using cut Cons.prems(4) cs by (auto simp: c'_def length_encode_chunk split: list.splits)
  have oks: "\<forall>c \<in> set cs1. chunk_ok c" and d: "d \<noteq> []" using Cons.prems(4,5) cut(1) by auto
  have piece: "agrees (pieces_run (StartBinChunkUpdate fuel env d st)) (install_part env cs1 c' k' (bufferless st))
     (\<lambda>st'. waiting st' (take k' (encode_chunk c')) \<and> length (chunkBuffer st') = length (chunkBuffer st))"
    by (rule StartBinChunkUpdate_piece [OF Cons.prems(1) d fit Cons.prems(7) cut(2) [unfolded c'(3)] c'(2) oks c'(1) Cons.prems(8)])
  have step: "updateStep (bufferless st) \<noteq> CHUNK_INSTALL_STEP_POST" using Cons.prems(1) by (simp add: waiting_def)
  have rest_spec: "install_chunks env cs (bufferless st) = install_chunks env cs2 s'"
    if "install_part env cs1 c' k' (bufferless st) = Finished (True, s')" for s'
  proof (cases cs2)
    case Nil
    then show ?thesis using that cut by (auto simp: install_part_def and_then_def split: chunk_run.splits prod.splits bool.splits)
  next
    case (Cons a as)
    then show ?thesis using install_rest [OF that step, of as] cut(1) by (simp add: c'_def)
  qed
  have stop_spec: "install_chunks env cs (bufferless st) = install_part env cs1 c' k' (bufferless st)"
    if "\<And>s'. install_part env cs1 c' k' (bufferless st) \<noteq> Finished (True, s')"
  proof (cases cs2)
    case Nil
    then show ?thesis using that cut by (auto simp: install_part_def and_then_def split: chunk_run.splits prod.splits bool.splits)
  next
    case (Cons a as)
    then show ?thesis using install_stops [OF refl that, of as] cut(1) by (simp add: c'_def)
  qed
  show ?case
  proof (cases "\<exists>s'. install_part env cs1 c' k' (bufferless st) = Finished (True, s')")
    case True
    then obtain s' where s': "install_part env cs1 c' k' (bufferless st) = Finished (True, s')" by blast
    obtain n st' where st': "StartBinChunkUpdate fuel env d st = Finished (STREAM_UPDATE_SUCCESS, n, st')" "bufferless st' = s'"
        "waiting st' (take k' (encode_chunk c'))" "length (chunkBuffer st') = length (chunkBuffer st)"
      using piece unfolding s' agrees_def pieces_run_def by (cases "StartBinChunkUpdate fuel env d st") auto
    have "encode_chunks cs1 @ take k' (encode_chunks cs2) @ concat ds = encode_chunks cs"
      using Cons.prems(3) cut(2) by (metis append.assoc concat.simps(2))
    then have "map_chunk_run (apsnd bufferless) (update_loop fuel env ds st') = install_chunks env cs2 (bufferless st')"
      using st'(3,4) c'(3) cut(1,3) Cons.prems(4-8) by (intro Cons.IH [of _ k']) simp_all
    then show ?thesis using st'(1,2) rest_spec [OF s'] by simp
  next
    case False
    then have "map_chunk_run (\<lambda>(ret, st). (ret \<noteq> STREAM_UPDATE_FAILURE, bufferless st)) (pieces_run (StartBinChunkUpdate fuel env d st))
        = install_chunks env cs (bufferless st)"
      using outcome_agrees [OF piece] stop_spec by simp
    moreover have "map_chunk_run (apsnd bufferless) (update_loop fuel env (d # ds) st)
        = map_chunk_run (\<lambda>(ret, st). (ret \<noteq> STREAM_UPDATE_FAILURE, bufferless st)) (pieces_run (StartBinChunkUpdate fuel env d st))"
      using False piece by (auto simp: agrees_def pieces_run_def split: chunk_run.splits prod.splits bool.splits)
    ultimately show ?thesis by simp
  qed
qed

end
