(* ===== verification/Chunk_Hash_Laws.thy ===== *)
theory Chunk_Hash_Laws
  imports Bin_Chunk
begin

text \<open>
  Laws of the last section of a streamed package: what the digest covers when the section is accepted,
  and what the parser takes from it.
\<close>

section \<open>The contents of the section\<close>

definition tlv_bytes :: "u16 \<Rightarrow> bytes \<Rightarrow> bytes" where
  "tlv_bytes tip v = WriteLE16 tip @ WriteLE16 (of_nat (length v)) @ v"

text \<open>What the section says about a partition; the value is the one that was read for \<open>he_len\<close>.\<close>

record hash_entry =
  he_tips :: "u16 \<times> u16 \<times> u16"
  he_name :: bytes
  he_hash :: bytes
  he_len :: bytes
  he_value :: u64

definition entry_bytes :: "hash_entry \<Rightarrow> bytes" where
  "entry_bytes e = (case he_tips e of (a, b, c) \<Rightarrow> tlv_bytes a (he_name e) @ tlv_bytes b (he_hash e) @ tlv_bytes c (he_len e))"

definition entry_ok :: "hash_entry \<Rightarrow> bool" where
  "entry_ok e \<longleftrightarrow> (8 \<le> length (he_len e) \<longrightarrow> pkg_ReadLE64 (he_len e) 0 = Some (he_value e))"

abbreviation entry_name :: "hash_entry \<Rightarrow> string" where
  "entry_name e \<equiv> text_of (ConvertBufferToString [] (he_name e))"

abbreviation entry_hash :: "hash_entry \<Rightarrow> string" where
  "entry_hash e \<equiv> text_of (ConvertBufferToString [] (he_hash e))"

text \<open>The hash and the length for a partition; a later entry replaces an earlier one.\<close>

definition listed :: "hash_entry list \<Rightarrow> string \<Rightarrow> (string \<times> u64) option" where
  "listed es = foldl (\<lambda>m e. m(entry_name e \<mapsto> (entry_hash e, he_value e))) Map.empty es"

text \<open>The digested bytes \<open>h\<close> are the number of partitions and an entry for each.\<close>

definition hash_section :: "bytes \<Rightarrow> hash_entry list \<Rightarrow> bool" where
  "hash_section h es \<longleftrightarrow> list_all entry_ok es
     \<and> (\<exists>tip v. h = tlv_bytes tip v @ concat (map entry_bytes es)
          \<and> (2 \<le> length v \<longrightarrow> map_option unat (ReadLE16 v 0) = Some (length es)))"

definition intact :: "('z, 'h) chunk_env \<Rightarrow> world \<Rightarrow> string \<Rightarrow> string \<Rightarrow> u64 \<Rightarrow> bool" where
  "intact env w name hash len \<longleftrightarrow>
     (\<exists>content. obj w (canon (target_path env name)) = Some content \<and> unat len \<le> length content
        \<and> ConvertShaHex (lib_sha256 (chunk_lib env) (take (unat len) content)) = hash)"

section \<open>Reading the section\<close>

lemma bit_byte [simp]: "\<not> bit (x :: u8) (8 + n)"
  by (auto dest: bit_imp_le_length)

lemma slice_WriteLE16:
  assumes "ReadLE16 b i = Some v"
  shows "slice i 2 b = WriteLE16 v"
proof -
  have i: "i + 2 \<le> length b" and v: "v = ucast (b ! i) + push_bit 8 (ucast (b ! (i + 1)))"
    using assms by (auto simp: ReadLE16_def split: if_splits)
  have "v = ucast (b ! i) OR push_bit 8 (ucast (b ! (i + 1)))"
    unfolding v by (rule disjunctive_add) (auto simp: bit_simps dest: bit_imp_le_length)
  then have "WriteLE16 v = [b ! i, b ! (i + 1)]"
    by (auto simp: WriteLE16_def bit_simps intro!: bit_word_eqI dest: bit_imp_le_length)
  then show ?thesis using i by (simp add: numeral_2_eq_2 slice_first)
qed

lemma slice_split: "slice i (m + n) b = slice i m b @ slice (i + m) n b"
  by (simp add: slice_def take_add add.commute)

lemma tlv_slice:
  assumes "ReadLE16 b (i + 2) = Some len" "i + 4 + unat len \<le> length b"
  shows "\<exists>tip. slice i 4 b @ slice (i + 4) (unat len) b = tlv_bytes tip (slice (i + 4) (unat len) b)"
proof -
  obtain tip where tip: "ReadLE16 b i = Some tip" using assms(2) by (simp add: ReadLE16_def)
  have "slice i 4 b = WriteLE16 tip @ WriteLE16 len"
    using slice_split [of i 2 2 b] slice_WriteLE16 [OF tip] slice_WriteLE16 [OF assms(1)] by simp
  then show ?thesis using assms(2) by (auto simp: tlv_bytes_def)
qed

lemma hash_update_Some:
  "hash_update off n st = Some st' \<longleftrightarrow>
   off + n \<le> length (chunkBuffer st) \<and> st' = st\<lparr>hashInput := hashInput st @ slice off n (chunkBuffer st)\<rparr>"
  by (auto simp: hash_update_def)

lemma field_text_in: "off + n \<le> length b \<Longrightarrow> field_string [] b off n = Some (ConvertBufferToString [] (slice off n b))"
  by (simp add: field_string_def)

lemma hashed_field:
  assumes "ReadLE16 (chunkBuffer st) (off + 2) = Some len" "hash_update off 4 st = Some st1" "hash_update (off + 4) (unat len) st1 = Some st2"
  shows "\<exists>tip. st2 = st\<lparr>hashInput := hashInput st @ tlv_bytes tip (slice (off + 4) (unat len) (chunkBuffer st))\<rparr>"
  using assms tlv_slice [OF assms(1)] by (auto simp: hash_update_Some)

lemma ReadHash_field:
  assumes "ReadHash off st = Finished (Some hash, off', st')"
  shows "\<exists>tip v. hash = text_of (ConvertBufferToString [] v) \<and> st' = st\<lparr>hashInput := hashInput st @ tlv_bytes tip v\<rparr>"
proof -
  obtain len st1 b where len: "ReadLE16 (chunkBuffer st) (off + 2) = Some len" "hash_update off 4 st = Some st1"
      "field_string [] (chunkBuffer st) (off + 4) (unat len) = Some b" "hash = text_of b"
      "hash_update (off + 4) (unat len) st1 = Some st'"
    using assms by (auto simp: ReadHash_def split: if_splits option.splits)
  then have "b = ConvertBufferToString [] (slice (off + 4) (unat len) (chunkBuffer st))"
    using field_text_in [of "off + 4" "unat len" "chunkBuffer st"] by (auto simp: hash_update_Some)
  then show ?thesis using hashed_field [OF len(1,2,5)] len(4) by blast
qed

lemma ReadLE32_slice: "i + 4 \<le> n \<Longrightarrow> p + n \<le> length b \<Longrightarrow> ReadLE32 (slice p n b) i = ReadLE32 b (p + i)"
  by (simp add: ReadLE32_def nth_slice add.assoc)

lemma ReadLE64_slice:
  assumes "8 \<le> n" "p + n \<le> length b"
  shows "pkg_ReadLE64 (slice p n b) 0 = pkg_ReadLE64 b p"
proof -
  have r: "ReadLE32 (slice p n b) 0 = ReadLE32 b p" "ReadLE32 (slice p n b) (0 + 4) = ReadLE32 b (p + 4)"
    using assms by (simp_all add: ReadLE32_slice)
  show ?thesis unfolding pkg_ReadLE64_def r ..
qed

lemma ReadDataLength_field:
  assumes "ReadDataLength off st = Finished (Some dataLen, off', st')"
  shows "\<exists>tip v. (8 \<le> length v \<longrightarrow> pkg_ReadLE64 v 0 = Some dataLen) \<and> st' = st\<lparr>hashInput := hashInput st @ tlv_bytes tip v\<rparr>"
proof -
  obtain len st1 where len: "ReadLE16 (chunkBuffer st) (off + 2) = Some len" "hash_update off 4 st = Some st1"
      "pkg_ReadLE64 (chunkBuffer st) (off + 4) = Some dataLen" "hash_update (off + 4) (unat len) st1 = Some st'"
    using assms by (auto simp: ReadDataLength_def split: if_splits option.splits)
  let ?v = "slice (off + 4) (unat len) (chunkBuffer st)"
  have "pkg_ReadLE64 ?v 0 = Some dataLen" if "8 \<le> length ?v"
    using len(2,3,4) that by (auto simp: ReadLE64_slice hash_update_Some)
  then show ?thesis using hashed_field [OF len(1,2,4)] by blast
qed

definition add_entry :: "partition_hashes \<Rightarrow> hash_entry \<Rightarrow> partition_hashes" where
  "add_entry infos e = infos\<lparr>hashValues := AList.update (entry_name e) (entry_hash e) (hashValues infos),
     dataLenInfos := AList.update (entry_name e) (he_value e) (dataLenInfos infos)\<rparr>"

lemma ProcessPartitionData_entries:
  assumes "ProcessPartitionData i infos off st = Finished (Some infos', off', st')"
  shows "\<exists>es. length es = i \<and> list_all entry_ok es \<and> infos' = foldl add_entry infos es
     \<and> st' = st\<lparr>hashInput := hashInput st @ concat (map entry_bytes es)\<rparr>"
  using assms
proof (induction i arbitrary: infos off st)
  case 0
  then show ?case by simp
next
  case (Suc i)
  obtain len st1 b st2 where len: "ReadLE16 (chunkBuffer st) (off + 2) = Some len" "hash_update off 4 st = Some st1"
      "field_string [] (chunkBuffer st) (off + 4) (unat len) = Some b" "hash_update (off + 4) (unat len) st1 = Some st2"
    and r2: "(case ReadHash (off + 4 + unat len) st2 of
          Finished (None, off', st3) \<Rightarrow> Finished (None, off', st3)
        | Finished (Some hash, off', st3) \<Rightarrow>
            (case ReadDataLength off' st3 of
               Finished (None, off'', st4) \<Rightarrow> Finished (None, off'', st4)
             | Finished (Some dataLen, off'', st4) \<Rightarrow>
                 ProcessPartitionData i
                   (infos\<lparr>hashValues := AList.update (text_of b) hash (hashValues infos),
                      dataLenInfos := AList.update (text_of b) dataLen (dataLenInfos infos)\<rparr>)
                   off'' st4
             | Undefined \<Rightarrow> Undefined
             | Unfinished \<Rightarrow> Unfinished)
        | Undefined \<Rightarrow> Undefined
        | Unfinished \<Rightarrow> Unfinished) = Finished (Some infos', off', st')"
    using Suc.prems by (auto split: if_splits option.splits)
  obtain hash off2 st3 where hash: "ReadHash (off + 4 + unat len) st2 = Finished (Some hash, off2, st3)"
    using r2 by (auto split: chunk_run.splits prod.splits option.splits)
  obtain dataLen off3 st4 where dl: "ReadDataLength off2 st3 = Finished (Some dataLen, off3, st4)"
    and rest: "ProcessPartitionData i
        (infos\<lparr>hashValues := AList.update (text_of b) hash (hashValues infos),
           dataLenInfos := AList.update (text_of b) dataLen (dataLenInfos infos)\<rparr>) off3 st4 = Finished (Some infos', off', st')"
    using r2 by (auto simp: hash split: chunk_run.splits prod.splits option.splits)
  define name where "name = slice (off + 4) (unat len) (chunkBuffer st)"
  have b: "b = ConvertBufferToString [] name"
    using len(2,3,4) field_text_in [of "off + 4" "unat len" "chunkBuffer st"] by (auto simp: hash_update_Some name_def)
  obtain t1 where t1: "st2 = st\<lparr>hashInput := hashInput st @ tlv_bytes t1 name\<rparr>"
    using hashed_field [OF len(1,2,4)] by (auto simp: name_def)
  obtain t2 hv where t2: "hash = text_of (ConvertBufferToString [] hv)" "st3 = st2\<lparr>hashInput := hashInput st2 @ tlv_bytes t2 hv\<rparr>"
    using ReadHash_field [OF hash] by blast
  obtain t3 lv where t3: "8 \<le> length lv \<longrightarrow> pkg_ReadLE64 lv 0 = Some dataLen" "st4 = st3\<lparr>hashInput := hashInput st3 @ tlv_bytes t3 lv\<rparr>"
    using ReadDataLength_field [OF dl] by blast
  obtain es where es: "length es = i" "list_all entry_ok es"
      "infos' = foldl add_entry (infos\<lparr>hashValues := AList.update (text_of b) hash (hashValues infos),
           dataLenInfos := AList.update (text_of b) dataLen (dataLenInfos infos)\<rparr>) es"
      "st' = st4\<lparr>hashInput := hashInput st4 @ concat (map entry_bytes es)\<rparr>"
    using Suc.IH [OF rest] by blast
  define e where "e = \<lparr>he_tips = (t1, t2, t3), he_name = name, he_hash = hv, he_len = lv, he_value = dataLen\<rparr>"
  show ?case
  proof (rule exI [of _ "e # es"], intro conjI)
    show "infos' = foldl add_entry infos (e # es)" unfolding es(3) by (simp add: add_entry_def e_def b t2(1))
    show "st' = st\<lparr>hashInput := hashInput st @ concat (map entry_bytes (e # es))\<rparr>"
      unfolding es(4) t3(2) t2(2) t1 by (simp add: entry_bytes_def e_def)
    show "list_all entry_ok (e # es)" using es(2) t3(1) by (simp add: entry_ok_def e_def)
  qed (simp add: es(1))
qed

section \<open>Acceptance\<close>

lemma map_of_add_entry:
  assumes "\<forall>n. map_of (hashValues infos) n = map_option fst (m n) \<and> map_of (dataLenInfos infos) n = map_option snd (m n)"
  shows "\<forall>n. map_of (hashValues (foldl add_entry infos es)) n
        = map_option fst (foldl (\<lambda>m e. m(entry_name e \<mapsto> (entry_hash e, he_value e))) m es n)
     \<and> map_of (dataLenInfos (foldl add_entry infos es)) n
        = map_option snd (foldl (\<lambda>m e. m(entry_name e \<mapsto> (entry_hash e, he_value e))) m es n)"
  using assms
proof (induction es arbitrary: infos m)
  case (Cons e es)
  show ?case
    using Cons.IH [of "add_entry infos e" "m(entry_name e \<mapsto> (entry_hash e, he_value e))"] Cons.prems
    by (simp add: add_entry_def update_conv)
qed simp

lemma listed_infos:
  assumes "infos = foldl add_entry \<lparr>hashValues = [], dataLenInfos = []\<rparr> es" "listed es n = Some (h, l)"
  shows "map_of (hashValues infos) n = Some h" "map_of (dataLenInfos infos) n = Some l"
  using assms map_of_add_entry [of "\<lparr>hashValues = [], dataLenInfos = []\<rparr>" Map.empty es] by (simp_all add: listed_def)

lemma hash_loop_prefix:
  "hash_loop fuel rest n got = Finished d \<Longrightarrow> n \<le> length rest \<and> d = got @ take n rest"
proof (induction fuel arbitrary: rest n got)
  case (Suc fuel)
  show ?case
  proof (cases "n = 0")
    case False
    define k where "k = min (min n (50 * 1024)) (length rest)"
    have piece: "take (min n (50 * 1024)) rest = take k rest" "length (take k rest) = k" "k \<le> n" "k \<le> length rest"
      by (auto simp: k_def min_def)
    let ?p = "take (min n (50 * 1024)) rest"
    have "hash_loop fuel (drop (length ?p) rest) (n - length ?p) (got @ ?p) = Finished d"
      using Suc.prems False by (simp add: Let_def)
    then have "hash_loop fuel (drop k rest) (n - k) (got @ take k rest) = Finished d" unfolding piece(1,2) .
    then have "n - k \<le> length (drop k rest) \<and> d = (got @ take k rest) @ take (n - k) (drop k rest)" by (rule Suc.IH)
    moreover have "take k rest @ take (n - k) (drop k rest) = take n rest"
      using piece(3) by (simp add: take_add [symmetric])
    ultimately show ?thesis using piece(3,4) by auto
  qed (use Suc.prems in auto)
qed simp

lemma VerifyPartitionHash_intact:
  assumes "VerifyPartitionHash env w name hash infos = Finished True" "map_of infos name = Some l" "hash \<noteq> []"
  shows "intact env w name hash l"
proof -
  obtain actual where actual: "ComputeFileHash env w name infos = Finished actual" "actual = hash"
    using assms(1) by (auto simp: VerifyPartitionHash_def split: chunk_run.splits)
  obtain content d where d: "obj w (canon (target_path env name)) = Some content"
      "hash_loop (length content + 2) content (unat l) [] = Finished d" "hash = ConvertShaHex (lib_sha256 (chunk_lib env) d)"
    using actual assms(2,3) unfolding ComputeFileHash_def by (auto split: option.splits chunk_run.splits simp del: hash_loop.simps)
  show ?thesis using hash_loop_prefix [OF d(2)] d(1,3) by (simp add: intact_def)
qed

lemma VerifyPartitionHashes_intact:
  assumes "VerifyPartitionHashes env w infos = Finished True" "map_of (hashValues infos) n = Some h" "map_of (dataLenInfos infos) n = Some l"
    and "h \<noteq> []"
  shows "intact env w n h l"
proof -
  have "(n, h) \<in> set (hashValues infos)" using assms(2) by (rule map_of_SomeD)
  then have "VerifyPartitionHash env w n h (dataLenInfos infos) = Finished True"
    using assms(1) by (auto simp: VerifyPartitionHashes_def Let_def list_all_iff split: if_splits)
  then show ?thesis using assms(3,4) by (rule VerifyPartitionHash_intact)
qed

text \<open>What holds when the update is reported as complete.\<close>

definition verified_update :: "('z, 'h) chunk_env \<Rightarrow> bytes \<Rightarrow> world \<Rightarrow> bool" where
  "verified_update env covered w \<longleftrightarrow>
     (\<exists>es sig before. hash_section covered es \<and> VerifyDigest env (lib_sha256 (chunk_lib env) covered) sig
        \<and> (\<forall>n h l. listed es n = Some (h, l) \<and> h \<noteq> [] \<longrightarrow> intact env before n h l)
        \<and> w = snd (sys_unlink before ''/data/updater/test.txt''))"

lemma ProcessPartitionNum_section:
  assumes "ProcessPartitionNum off st = Finished (True, off', st')"
  shows "\<exists>tip v. (2 \<le> length v \<longrightarrow> map_option unat (ReadLE16 v 0) = Some (patitionNum st')) \<and> chunkWorld st' = chunkWorld st
     \<and> hashInput st' = hashInput st @ tlv_bytes tip v"
proof -
  obtain len st1 n where len: "ReadLE16 (chunkBuffer st) (off + 2) = Some len" "hash_update off 4 st = Some st1"
      "ReadLE16 (chunkBuffer st) (off + 4) = Some n" "hash_update (off + 4) (unat len) (st1\<lparr>patitionNum := unat n\<rparr>) = Some st'"
    using assms by (auto simp: ProcessPartitionNum_def split: if_splits option.splits)
  let ?v = "slice (off + 4) (unat len) (chunkBuffer st)"
  have le: "off + 4 + unat len \<le> length (chunkBuffer st)" using len(2,4) by (auto simp: hash_update_Some)
  have "ReadLE16 ?v 0 = Some n" if "2 \<le> length ?v"
    using len(3) that le by (simp add: ReadLE16_def nth_slice split: if_splits)
  moreover obtain tip where "slice off 4 (chunkBuffer st) @ ?v = tlv_bytes tip ?v" using tlv_slice [OF len(1) le] by blast
  ultimately show ?thesis using len(2,4) by (intro exI [of _ tip] exI [of _ ?v]) (auto simp: hash_update_Some)
qed

lemma UpdateBinHash_completeE:
  assumes "UpdateBinHash env st = Finished (STREAM_UPDATE_COMPLETE, st')"
  obtains off1 st1 infos off2 st2 sig off3 st3 where
      "ProcessPartitionNum (chunkOffset st) (st\<lparr>hashInput := []\<rparr>) = Finished (True, off1, st1)"
      "ProcessPartitionData (patitionNum st1) \<lparr>hashValues = [], dataLenInfos = []\<rparr> off1 st1 = Finished (Some infos, off2, st2)"
      "ProcessSignature off2 st2 = Finished (Some sig, off3, st3)"
      "st' = st3\<lparr>chunkOffset := off3, chunkWorld := snd (sys_unlink (chunkWorld st3) ''/data/updater/test.txt'')\<rparr>"
      "VerifySignature env sig (st3\<lparr>chunkOffset := off3\<rparr>)" "VerifyPartitionHashes env (chunkWorld st3) infos = Finished True"
proof -
  obtain off1 st1 where num: "ProcessPartitionNum (chunkOffset st) (st\<lparr>hashInput := []\<rparr>) = Finished (True, off1, st1)"
    using assms by (auto simp: UpdateBinHash_def split: chunk_run.splits prod.splits bool.splits)
  obtain infos off2 st2 where data: "ProcessPartitionData (patitionNum st1) \<lparr>hashValues = [], dataLenInfos = []\<rparr> off1 st1
      = Finished (Some infos, off2, st2)"
    using assms num by (auto simp: UpdateBinHash_def split: chunk_run.splits prod.splits option.splits)
  obtain sig off3 st3 where sig: "ProcessSignature off2 st2 = Finished (Some sig, off3, st3)"
    using assms num data by (auto simp: UpdateBinHash_def split: chunk_run.splits prod.splits option.splits)
  show thesis
    by (rule that [OF num data sig])
       (use assms num data sig in \<open>auto simp: UpdateBinHash_def Let_def split: chunk_run.splits bool.splits if_splits\<close>)
qed

lemma UpdateBinHash_complete:
  assumes "UpdateBinHash env st = Finished (STREAM_UPDATE_COMPLETE, st')"
  shows "verified_update env (hashInput st') (chunkWorld st')"
proof -
  obtain off1 st1 infos off2 st2 sig off3 st3 where
      num: "ProcessPartitionNum (chunkOffset st) (st\<lparr>hashInput := []\<rparr>) = Finished (True, off1, st1)"
    and data: "ProcessPartitionData (patitionNum st1) \<lparr>hashValues = [], dataLenInfos = []\<rparr> off1 st1 = Finished (Some infos, off2, st2)"
    and sig: "ProcessSignature off2 st2 = Finished (Some sig, off3, st3)"
    and finish: "st' = st3\<lparr>chunkOffset := off3, chunkWorld := snd (sys_unlink (chunkWorld st3) ''/data/updater/test.txt'')\<rparr>"
    and verified: "VerifySignature env sig (st3\<lparr>chunkOffset := off3\<rparr>)" "VerifyPartitionHashes env (chunkWorld st3) infos = Finished True"
    by (rule UpdateBinHash_completeE [OF assms])
  have st3: "st3 = st2" using sig by (auto simp: ProcessSignature_def split: if_splits option.splits)
  obtain es where es: "length es = patitionNum st1" "list_all entry_ok es" "infos = foldl add_entry \<lparr>hashValues = [], dataLenInfos = []\<rparr> es"
      "st2 = st1\<lparr>hashInput := hashInput st1 @ concat (map entry_bytes es)\<rparr>"
    using ProcessPartitionData_entries [OF data] by blast
  obtain tip v where v: "2 \<le> length v \<longrightarrow> map_option unat (ReadLE16 v 0) = Some (patitionNum st1)" "hashInput st1 = tlv_bytes tip v"
    using ProcessPartitionNum_section [OF num] by auto
  have "hash_section (hashInput st') es"
    using v es(1,2,4) by (auto simp: hash_section_def finish st3)
  moreover have "VerifyDigest env (lib_sha256 (chunk_lib env) (hashInput st')) sig"
    using verified(1) finish by (simp add: VerifySignature_def)
  moreover have "intact env (chunkWorld st3) n h l" if "listed es n = Some (h, l)" "h \<noteq> []" for n h l
    using VerifyPartitionHashes_intact [OF verified(2) listed_infos [OF es(3) that(1)] that(2)] .
  ultimately show ?thesis unfolding verified_update_def
    by (intro exI [of _ es] exI [of _ sig] exI [of _ "chunkWorld st3"]) (use finish in auto)
qed

text \<open>Only this section completes the update, and what follows does not touch what it has left.\<close>

lemma UpdateBinHead_not_complete: "UpdateBinHead env st \<noteq> Finished (STREAM_UPDATE_COMPLETE, st')"
  by (auto simp: UpdateBinHead_def Let_def split: outcome.splits prod.splits)

lemma chunk_install_not_complete: "chunk_install env st \<noteq> Finished (STREAM_UPDATE_COMPLETE, st')"
  by (auto simp: chunk_install_def ChunkInstallPreWrite_def ChunkInstallDoWrite_def ChunkInstallPostWrite_def Let_def
      split: chunk_step.splits chunk_run.splits prod.splits bool.splits option.splits)

lemma UpdateBinData_not_complete: "UpdateBinData fuel env st \<noteq> Finished (STREAM_UPDATE_COMPLETE, st')"
  by (induction fuel arbitrary: st) (auto simp: chunk_install_not_complete split: chunk_run.splits)

lemma process_buffer_complete:
  assumes "process_buffer fuel env ret st = Finished (STREAM_UPDATE_COMPLETE, st')"
    and "ret = STREAM_UPDATE_COMPLETE \<longrightarrow> verified_update env (hashInput st) (chunkWorld st)"
  shows "verified_update env (hashInput st') (chunkWorld st')"
  using assms
proof (induction fuel arbitrary: ret st)
  case (Suc fuel)
  show ?case
  proof (cases "left_of (curlen st) (chunkOffset st) = 0 \<or> needNewData st")
    case False
    then obtain ty ret1 st1 where ty: "ReadLE16 (chunkBuffer st) (chunkOffset st) = Some ty"
      and part: "(if unat ty = BIN_UPDATE_HEAD_TIP then UpdateBinHead env st
             else if unat ty = BIN_UPDATE_DATA_TIP then UpdateBinData (Suc fuel) env st
             else if unat ty = BIN_UPDATE_HASH_TIP then UpdateBinHash env st
             else Finished (STREAM_UPDATE_FAILURE, st)) = Finished (ret1, st1)"
      and rest: "process_buffer fuel env ret1 st1 = Finished (STREAM_UPDATE_COMPLETE, st')"
      using Suc.prems(1) by (auto simp del: UpdateBinData.simps split: option.splits chunk_run.splits if_splits)
    have "verified_update env (hashInput st1) (chunkWorld st1)" if "ret1 = STREAM_UPDATE_COMPLETE"
      using part that UpdateBinHead_not_complete [of env st st1] UpdateBinData_not_complete [of "Suc fuel" env st st1]
        UpdateBinHash_complete [of env st st1]
      by (auto simp del: UpdateBinData.simps split: if_splits)
    then show ?thesis using Suc.IH [OF rest] by blast
  qed (use Suc.prems in auto)
qed simp

lemma stream_loop_complete:
  assumes "stream_loop fuel env remain ret st = Finished (STREAM_UPDATE_COMPLETE, st')"
    and "ret = STREAM_UPDATE_COMPLETE \<longrightarrow> verified_update env (hashInput st) (chunkWorld st)"
  shows "verified_update env (hashInput st') (chunkWorld st')"
  using assms
proof (induction fuel arbitrary: remain ret st)
  case (Suc fuel)
  show ?case
  proof (cases "remain = []")
    case False
    then obtain remain1 st1 ret2 st2 st3 where
        run: "ProcessBufferData (Suc fuel) env (st1\<lparr>needNewData := False\<rparr>) = Finished (ret2, st2)"
      and move: "MoveRemainingData st2 = (True, st3)"
      and rest: "stream_loop fuel env remain1 ret2 st3 = Finished (STREAM_UPDATE_COMPLETE, st')"
      using Suc.prems(1) by (auto split: option.splits chunk_run.splits prod.splits if_splits bool.splits)
    have "verified_update env (hashInput st2) (chunkWorld st2)" if "ret2 = STREAM_UPDATE_COMPLETE"
      using process_buffer_complete [OF run [unfolded ProcessBufferData_def that]] by simp
    moreover have "hashInput st3 = hashInput st2" "chunkWorld st3 = chunkWorld st2"
      using move by (auto simp: MoveRemainingData_def Let_def split: if_splits option.splits)
    ultimately show ?thesis using Suc.IH [OF rest] by simp
  qed (use Suc.prems in auto)
qed simp

end
