(* ===== verification/Stream_Install.thy ===== *)
theory Stream_Install
  imports Bin_Chunk_Laws Chunk_Hash_Laws "HOL-Library.Code_Target_Nat"
begin

text \<open>
  What the streamed installation guarantees, and what it does not: installation independent of the
  cutting of the stream, completion only after verification, and the inputs it handles wrongly.
\<close>

section \<open>An example environment\<close>

definition abort_chunk :: data_chunk where
  "abort_chunk = \<lparr>chunk_partition = [97], cmd_tip = 0x13, chunk_cmd = [97, 98, 111, 114, 116], data_tip = 0x14, chunk_data = []\<rparr>"

definition demo_env :: "(unit, unit) chunk_env" where
  "demo_env = \<lparr>chunk_lib = \<lparr>lib_sha256 = id, lib_bunzip = id, lib_compress = \<lparr>deflateInit2 = (\<lambda>_. None), deflate = (\<lambda>_ _ _ _. (0, [], [], ())),
       lz4f_begin = (\<lambda>_. None), lz4f_update = (\<lambda>_ _. None), lz4f_end = (\<lambda>_. None), lz4_compress = (\<lambda>_ _. None), expand = (\<lambda>_ _ _. None)\<rparr>\<rparr>,
     load_env = (\<lambda>n. \<lparr>stream_Read = MemoryMapStream_Read, measure_stream = id, GetFileLength = n, sha256 = id, verifier = None,
       Pkcs7verify = (\<lambda>_. (0, [])), CheckUpdateMode = (\<lambda>_. False), LoadImgHashData = (\<lambda>_. None), LoadImgHashDataNew = (\<lambda>_. None)\<rparr>),
     source_path = (\<lambda>n. ''/a''), target_path = (\<lambda>n. ''/a''), in_updater = False, VerifyDigest = (\<lambda>_ _. True)\<rparr>"

definition demo_stream_world :: world where
  "demo_stream_world = \<lparr>objs = [(''/a'', [1, 2])], dirs = [], is_dev = (\<lambda>_. True), fds = Map.empty, next_fd = 3, faults = [], errno = ENOENT\<rparr>"

text \<open>A partition is open, and the buffer is clear.\<close>

definition demo_state :: bin_update where
  "demo_state = (BinChunkUpdate_new 64 demo_stream_world)\<lparr>firstBuffer := False, updateStep := CHUNK_INSTALL_STEP_DO,
     transferParams := Some (TransferParams_new False), curPartition := ''a''\<rparr>"

lemma demo_waiting: "waiting demo_state []"
  by (simp add: waiting_def demo_state_def BinChunkUpdate_new_def)

lemma encode_chunk_nonempty [simp]: "encode_chunk c \<noteq> []"
  by (metis add_is_0 length_encode_chunk list.size(3) zero_neq_numeral)

lemma abort_chunk_ok: "chunk_ok abort_chunk" "length (encode_chunk abort_chunk) = 20"
  by (simp_all add: chunk_ok_def abort_chunk_def length_encode_chunk)

lemma demo_state_facts: "length (chunkBuffer demo_state) = 64" "updateStep demo_state = CHUNK_INSTALL_STEP_DO"
    "curPartition demo_state = chunk_name abort_chunk"
  by (simp_all add: demo_state_def BinChunkUpdate_new_def) code_simp

section \<open>Cutting the stream\<close>

lemma stream_pieces_install:
  assumes "waiting st []" "concat ds = encode_chunks cs" "\<forall>c \<in> set cs. chunk_ok c" "\<forall>d \<in> set ds. d \<noteq> []"
    and "\<forall>d \<in> set ds. \<forall>c \<in> set cs. length (encode_chunk c) + length d \<le> length (chunkBuffer st)"
    and "length (chunkBuffer st) \<le> SECUREC_MEM_MAX_LEN" "length (chunkBuffer st) + 5 \<le> fuel"
  shows "map_chunk_run (apsnd bufferless) (update_loop fuel env ds st) = install_chunks env cs (bufferless st)"
  using assms by (intro feed_chunks [where k = 0]) (auto simp: length_encode_chunk split: list.splits)

text \<open>
  C2. However a stream of chunks is cut into pieces that fit into the buffer, the loops over the buffer
  install the chunks one after the other, each exactly once, and stop at the first that fails, just as
  the installation that is given the chunks themselves.
\<close>

theorem stream_cut_independent:
  assumes "waiting st []" "concat ds = encode_chunks cs" "\<forall>c \<in> set cs. chunk_ok c" "\<forall>d \<in> set ds. d \<noteq> []"
    and "\<forall>d \<in> set ds. \<forall>c \<in> set cs. length (encode_chunk c) + length d \<le> length (chunkBuffer st)"
    and "length (chunkBuffer st) \<le> SECUREC_MEM_MAX_LEN" "length (chunkBuffer st) + 5 \<le> fuel"
  shows "map_chunk_run (apsnd bufferless) (update_loop fuel env ds st) = install_chunks env cs (bufferless st)"
  by (rule stream_pieces_install [OF assms])

lemma demo_installs: "map_chunk_run fst (install_chunks demo_env [abort_chunk, abort_chunk] (bufferless demo_state)) = Finished True"
  by code_simp

theorem stream_cut_independent_witness:
  "map_chunk_run fst (map_chunk_run (apsnd bufferless) (update_loop 69 demo_env
      [take 19 (encode_chunk abort_chunk), drop 19 (encode_chunk abort_chunk) @ take 1 (encode_chunk abort_chunk),
       drop 1 (encode_chunk abort_chunk)] demo_state)) = Finished True"
  by (subst stream_cut_independent [where cs = "[abort_chunk, abort_chunk]"])
     (use demo_waiting abort_chunk_ok demo_state_facts demo_installs in simp_all)

section \<open>Completion\<close>

text \<open>
  C12. When the update is reported as complete, a signature has been accepted for the digest of a
  section that lists partitions with their lengths and hashes, and the device of every partition listed
  with a hash starts with data of this length and this hash.
\<close>

theorem completion_is_verified:
  assumes "StartBinChunkUpdate fuel env data st = Finished (STREAM_UPDATE_COMPLETE, n, st')"
  shows "\<exists>es sig before. hash_section (hashInput st') es \<and> VerifyDigest env (lib_sha256 (chunk_lib env) (hashInput st')) sig
     \<and> (\<forall>name hash len. listed es name = Some (hash, len) \<and> hash \<noteq> [] \<longrightarrow> intact env before name hash len)
     \<and> chunkWorld st' = snd (sys_unlink before ''/data/updater/test.txt'')"
proof -
  have run: "(case ProcessHeader data st of
          None \<Rightarrow> Undefined
        | Some st1 \<Rightarrow>
            (case SkipTargetData data st1 of
               None \<Rightarrow> Undefined
             | Some (True, dealLen, st2) \<Rightarrow> Finished (STREAM_UPDATE_SUCCESS, dealLen, st2)
             | Some (False, dealLen, st2) \<Rightarrow>
                 (case stream_loop fuel env data STREAM_UPDATE_SUCCESS st2 of
                    Finished (STREAM_UPDATE_FAILURE, st3) \<Rightarrow> Finished (STREAM_UPDATE_FAILURE, dealLen, st3)
                  | Finished (ret, st3) \<Rightarrow> Finished (ret, length data + curlen st - curlen st3, st3)
                  | Undefined \<Rightarrow> Undefined
                  | Unfinished \<Rightarrow> Unfinished))) = Finished (STREAM_UPDATE_COMPLETE, n, st')"
    using assms by (simp add: StartBinChunkUpdate_def split: if_splits)
  then obtain st1 b m st2 where s: "ProcessHeader data st = Some st1" "SkipTargetData data st1 = Some (b, m, st2)"
    by (auto split: option.splits)
  have "stream_loop fuel env data STREAM_UPDATE_SUCCESS st2 = Finished (STREAM_UPDATE_COMPLETE, st')"
    using run by (cases b; cases "stream_loop fuel env data STREAM_UPDATE_SUCCESS st2") (auto simp: s split: update_result.splits)
  then show ?thesis using stream_loop_complete [of fuel env data STREAM_UPDATE_SUCCESS st2 st'] by (simp add: verified_update_def)
qed

definition demo_hash_piece :: bytes where
  "demo_hash_piece = [0x16, 0, 2, 0, 1, 0] @ [0x17, 0, 1, 0, 97] @ [0x18, 0, 4, 0, 48, 49, 48, 50] @ [0x19, 0, 8, 0, 2, 0, 0, 0, 0, 0, 0, 0]
     @ [0x1a, 0, 1, 0, 0, 0, 5]"

lemma ReadLE64_sum [code]:
  "pkg_ReadLE64 b i =
     (case ReadLE32 b i of None \<Rightarrow> None
      | Some low \<Rightarrow> (case ReadLE32 b (i + 4) of None \<Rightarrow> None
        | Some high \<Rightarrow> Some (ucast high * 0x100000000 + ucast low)))"
proof -
  have "push_bit 32 (ucast high) OR ucast low = (ucast high * 0x100000000 + ucast low :: u64)" for high low :: u32
  proof -
    have "push_bit 32 (ucast high) OR ucast low = (push_bit 32 (ucast high) + ucast low :: u64)"
      by (rule disjunctive_add [symmetric]) (auto simp: bit_simps dest: bit_imp_le_length)
    then show ?thesis by (simp add: push_bit_eq_mult)
  qed
  then show ?thesis by (simp add: pkg_ReadLE64_def split: option.splits)
qed

text \<open>A piece that is the section as a whole completes the update.\<close>

lemma hash_piece_completes:
  assumes "waiting st []" "d \<noteq> []" "length d \<le> length (chunkBuffer st)" "length (chunkBuffer st) \<le> SECUREC_MEM_MAX_LEN"
    and "ReadLE16 (chunkBuffer (filled [] d st)) 0 = Some 0x16"
    and "UpdateBinHash env (filled [] d st) = Finished (STREAM_UPDATE_COMPLETE, st')" "curlen st' = chunkOffset st'"
    and "0 < length (chunkBuffer st')" "length (chunkBuffer st') \<le> SECUREC_MEM_MAX_LEN"
  shows "\<exists>n st''. StartBinChunkUpdate (Suc (Suc fuel)) env d st = Finished (STREAM_UPDATE_COMPLETE, n, st'')"
proof -
  obtain st1 where add: "AddRemainData d st = Some ([], st1)" "st1\<lparr>needNewData := False\<rparr> = filled [] d st"
    using AddRemainData_waiting [OF assms(1-2) _ assms(4)] assms(3) by auto
  have start: "ProcessHeader d st = Some st" "SkipTargetData d st = Some (False, 0, st)"
    using assms(1) by (simp_all add: waiting_def ProcessHeader_def SkipTargetData_def)
  have process: "ProcessBufferData (Suc (Suc fuel)) env (filled [] d st) = Finished (STREAM_UPDATE_COMPLETE, st')"
    using assms(2,5-7) by (simp add: ProcessBufferData_def left_of_def del: UpdateBinData.simps)
  obtain st2 where move: "MoveRemainingData st' = (True, st2)"
    using assms(7-9) by (simp add: MoveRemainingData_def Let_def left_of_def)
  have "stream_loop (Suc (Suc fuel)) env d STREAM_UPDATE_SUCCESS st = Finished (STREAM_UPDATE_COMPLETE, st2)"
    using assms(2) by (simp add: add process move)
  then show ?thesis using assms(2) by (simp add: StartBinChunkUpdate_def start del: stream_loop.simps)
qed

lemma demo_hash_accepted:
  "case UpdateBinHash demo_env (filled [] demo_hash_piece demo_state) of
     Finished (ret, st) \<Rightarrow> ret = STREAM_UPDATE_COMPLETE \<and> curlen st = chunkOffset st \<and> length (chunkBuffer st) = 64 | _ \<Rightarrow> False"
  by code_simp

lemma demo_completes: "\<exists>n st'. StartBinChunkUpdate 9 demo_env demo_hash_piece demo_state = Finished (STREAM_UPDATE_COMPLETE, n, st')"
proof -
  obtain st where "UpdateBinHash demo_env (filled [] demo_hash_piece demo_state) = Finished (STREAM_UPDATE_COMPLETE, st)"
      "curlen st = chunkOffset st" "length (chunkBuffer st) = 64"
    using demo_hash_accepted by (auto split: chunk_run.splits prod.splits)
  moreover have "ReadLE16 (chunkBuffer (filled [] demo_hash_piece demo_state)) 0 = Some 0x16"
    by (simp add: filled_def demo_hash_piece_def ReadLE16_def)
  ultimately show ?thesis
    using hash_piece_completes [OF demo_waiting, of demo_hash_piece demo_env st 7] demo_state_facts(1)
    by (auto simp: demo_hash_piece_def)
qed

theorem completion_is_verified_witness:
  "\<exists>st'. (\<exists>n. StartBinChunkUpdate 9 demo_env demo_hash_piece demo_state = Finished (STREAM_UPDATE_COMPLETE, n, st'))
     \<and> (\<exists>es sig before. hash_section (hashInput st') es \<and> VerifyDigest demo_env (lib_sha256 (chunk_lib demo_env) (hashInput st')) sig
     \<and> (\<forall>name hash len. listed es name = Some (hash, len) \<and> hash \<noteq> [] \<longrightarrow> intact demo_env before name hash len)
     \<and> chunkWorld st' = snd (sys_unlink before ''/data/updater/test.txt''))"
proof -
  obtain n st' where "StartBinChunkUpdate 9 demo_env demo_hash_piece demo_state = Finished (STREAM_UPDATE_COMPLETE, n, st')"
    using demo_completes by blast
  then show ?thesis using completion_is_verified by blast
qed

section \<open>Lemmas on the file and the loop\<close>

lemma pieces_of:
  "concat (pieces_of xs) = xs" "d \<in> set (pieces_of xs) \<Longrightarrow> d \<noteq> []" "d \<in> set (pieces_of xs) \<Longrightarrow> length d \<le> BUFFER_SIZE"
  by (induction xs rule: pieces_of.induct) auto

lemma file_sections:
  "ReadLE16 (WriteLE16 t @ WriteLE32 l @ rest) 0 = Some t" "ReadLE32 (WriteLE16 t @ WriteLE32 l @ rest) 2 = Some l"
  using ReadLE16_WriteLE16 [of "[]" t] ReadLE32_WriteLE32 [of "WriteLE16 t" l rest] by simp_all

lemma Start_same_header:
  assumes "ProcessHeader d st = Some s" "ProcessHeader d st' = Some s" "curlen st' = curlen st" "d \<noteq> []"
  shows "StartBinChunkUpdate fuel env d st = StartBinChunkUpdate fuel env d st'"
  unfolding StartBinChunkUpdate_def assms(1-3) by (simp add: assms(4))

lemma first_piece:
  assumes "firstBuffer st" "skipLength st = 0" "cs \<noteq> []"
  shows "update_loop fuel env (pieces_of (encode_chunks cs)) st = update_loop fuel env (pieces_of (encode_chunks cs)) (st\<lparr>firstBuffer := False\<rparr>)"
proof -
  obtain c cs' where cs: "cs = c # cs'" using assms(3) by (cases cs) auto
  obtain b bs where b: "encode_chunks cs = b # bs" by (cases "encode_chunks cs") (auto simp: cs length_encode_chunk dest: arg_cong [where f = length])
  let ?d = "take BUFFER_SIZE (encode_chunks cs)"
  have "ReadLE16 ?d 0 = ReadLE16 (encode_chunks cs) 0"
    by (simp add: ReadLE16_def)
  also have "\<dots> = Some 0x12" using chunk_fields(1) [of c "encode_chunks cs'"] by (simp add: cs)
  finally have "ProcessHeader ?d st = Some (st\<lparr>firstBuffer := False\<rparr>)" using assms(1,2) by (simp add: ProcessHeader_def)
  moreover have "ProcessHeader ?d (st\<lparr>firstBuffer := False\<rparr>) = Some (st\<lparr>firstBuffer := False\<rparr>)" by (simp add: ProcessHeader_def)
  ultimately have "StartBinChunkUpdate fuel env ?d st = StartBinChunkUpdate fuel env ?d (st\<lparr>firstBuffer := False\<rparr>)"
    by (rule Start_same_header) (simp_all add: b)
  then show ?thesis by (simp add: b)
qed

lemma oversized_loop:
  assumes "waiting st []" "chunk_ok c" "length (chunkBuffer st) < length (encode_chunk c)" "2 \<le> length (chunkBuffer st)"
    and "length (chunkBuffer st) \<le> SECUREC_MEM_MAX_LEN" "updateStep st = CHUNK_INSTALL_STEP_DO" "curPartition st = chunk_name c"
  shows "stream_loop fuel env (encode_chunk c) ret st = Unfinished"
proof -
  let ?n = "length (chunkBuffer st)" and ?S = "encode_chunk c"
  define full where "full d = st\<lparr>chunkBuffer := take ?n ?S, curlen := ?n, chunkOffset := 0, needNewData := d\<rparr>" for d
  have sees: "sees (full d) (?S @ []) ?n" for d using assms(3) by (simp add: sees_def full_def slice_def)
  have nonempty: "chunkBuffer st \<noteq> []" using assms(4) by (cases "chunkBuffer st") auto
  then have add: "AddRemainData ?S st = Some (drop ?n ?S, full (needNewData st))"
    using assms(1,3,5) by (auto simp: AddRemainData_def Let_def memcpy_s_def waiting_def full_def)
  have add_none: "AddRemainData r (full d) = Some (r, full d)" if "r \<noteq> []" for r d
    using that assms(3-5) nonempty by (auto simp: AddRemainData_def Let_def memcpy_s_def full_def)
  have install: "chunk_install env (full False) = Finished (STREAM_UPDATE_SUCCESS, full True)"
    using ChunkInstallDoWrite_chunk(3) [OF sees assms(2), of False env] assms(3,6,7)
    by (simp add: chunk_install_def full_def)
  have process: "ProcessBufferData (Suc f) env (full False) = (if f = 0 then Unfinished else Finished (STREAM_UPDATE_SUCCESS, full True))" for f
  proof -
    have "ProcessBufferData (Suc f) env (full False) = drive (Suc f) f env (full False)"
      unfolding ProcessBufferData_def by (rule process_buffer_data [OF sees assms(4)]) (simp add: full_def)
    then show ?thesis using install by (cases f) (simp_all add: drive_def full_def)
  qed
  have move: "MoveRemainingData (full True) = (True, full True)"
    using assms(3-5) nonempty by (simp add: MoveRemainingData_def Let_def left_of_def memcpy_s_def full_def)
  have reset: "(full d)\<lparr>needNewData := False\<rparr> = full False" for d by (simp add: full_def)
  have stuck: "stream_loop f env r ret (full True) = Unfinished" if "r \<noteq> []" for f r ret
    using that by (induction f arbitrary: ret) (simp_all add: add_none reset process move)
  have "drop ?n ?S \<noteq> []" "?S \<noteq> []" using assms(3) by auto
  then show ?thesis by (cases fuel) (simp_all add: add reset process move stuck)
qed

lemma unlink_keeps: "fds (snd (sys_unlink w p)) = fds w" "dirs (snd (sys_unlink w p)) = dirs w"
  by (simp_all add: sys_unlink_def Let_def pop_fault_def fail_with_def del_obj_def split: fault.splits)

lemma UpdateBinHash_leaves:
  assumes "UpdateBinHash env st = Finished (STREAM_UPDATE_COMPLETE, st')"
  shows "updateStep st' = updateStep st" "fds (chunkWorld st') = fds (chunkWorld st)" "dirs (chunkWorld st') = dirs (chunkWorld st)"
proof -
  obtain off1 st1 infos off2 st2 sig off3 st3 where
      num: "ProcessPartitionNum (chunkOffset st) (st\<lparr>hashInput := []\<rparr>) = Finished (True, off1, st1)"
    and data: "ProcessPartitionData (patitionNum st1) \<lparr>hashValues = [], dataLenInfos = []\<rparr> off1 st1 = Finished (Some infos, off2, st2)"
    and sig: "ProcessSignature off2 st2 = Finished (Some sig, off3, st3)"
    and st': "st' = st3\<lparr>chunkOffset := off3, chunkWorld := snd (sys_unlink (chunkWorld st3) ''/data/updater/test.txt'')\<rparr>"
    by (rule UpdateBinHash_completeE [OF assms])
  have "st3 = st2" using sig by (auto simp: ProcessSignature_def split: if_splits option.splits)
  moreover obtain es where "st2 = st1\<lparr>hashInput := hashInput st1 @ concat (map entry_bytes es)\<rparr>"
    using ProcessPartitionData_entries [OF data] by blast
  moreover have "updateStep st1 = updateStep st" "chunkWorld st1 = chunkWorld st"
    using num by (auto simp: ProcessPartitionNum_def hash_update_Some split: if_splits option.splits)
  ultimately show "updateStep st' = updateStep st" "fds (chunkWorld st') = fds (chunkWorld st)" "dirs (chunkWorld st') = dirs (chunkWorld st)"
    by (simp_all add: st' unlink_keeps)
qed


definition demo_file_world :: world where
  "demo_file_world = demo_stream_world\<lparr>objs := [(''/p'', WriteLE16 0xaa @ WriteLE32 1 @ [7] @ encode_chunks [abort_chunk])]\<rparr>"

lemma canon_demo: "canon ''/p'' = ''/p''"
  by code_simp


text \<open>
  C38. A chunk that is larger than the buffer makes the update loop for ever: once the buffer is full,
  no data are added and none are removed.
\<close>

theorem oversized_chunk_never_ends:
  assumes "waiting st []" "chunk_ok c" "length (chunkBuffer st) < length (encode_chunk c)" "2 \<le> length (chunkBuffer st)"
    and "length (chunkBuffer st) \<le> SECUREC_MEM_MAX_LEN" "updateStep st = CHUNK_INSTALL_STEP_DO" "curPartition st = chunk_name c"
  shows "StartBinChunkUpdate fuel env (encode_chunk c) st = Unfinished"
proof -
  have start: "ProcessHeader (encode_chunk c) st = Some st" "SkipTargetData (encode_chunk c) st = Some (False, 0, st)"
    using assms(1) by (simp_all add: waiting_def ProcessHeader_def SkipTargetData_def)
  then show ?thesis using oversized_loop [OF assms, of fuel env] assms(3)
    by (auto simp: StartBinChunkUpdate_def)
qed

definition big_chunk :: data_chunk where
  "big_chunk = abort_chunk\<lparr>chunk_data := replicate 64 0\<rparr>"

theorem oversized_chunk_never_ends_witness: "StartBinChunkUpdate 1000 demo_env (encode_chunk big_chunk) demo_state = Unfinished"
  by (rule oversized_chunk_never_ends)
     (use demo_waiting demo_state_facts abort_chunk_ok in \<open>simp_all add: big_chunk_def chunk_ok_def length_encode_chunk\<close>)

text \<open>
  When the section with the hashes begins a piece of the stream while a partition is open, the
  update completes without the last step of the partition: it stays open, none of its descriptors is
  synchronised or closed, and its stash is not removed.
\<close>

theorem last_partition_not_closed:
  assumes "left_of (curlen st) (chunkOffset st) \<noteq> 0" "\<not> needNewData st" "ReadLE16 (chunkBuffer st) (chunkOffset st) = Some ty"
    and "unat ty = BIN_UPDATE_HASH_TIP" "UpdateBinHash env st = Finished (STREAM_UPDATE_COMPLETE, st')" "curlen st' = chunkOffset st'"
  shows "ProcessBufferData (Suc (Suc fuel)) env st = Finished (STREAM_UPDATE_COMPLETE, st')
     \<and> updateStep st' = updateStep st \<and> fds (chunkWorld st') = fds (chunkWorld st) \<and> dirs (chunkWorld st') = dirs (chunkWorld st)"
proof -
  have "ProcessBufferData (Suc (Suc fuel)) env st = Finished (STREAM_UPDATE_COMPLETE, st')"
    using assms by (simp add: ProcessBufferData_def left_of_def del: UpdateBinData.simps)
  then show ?thesis using UpdateBinHash_leaves [OF assms(5)] by blast
qed

theorem last_partition_not_closed_witness:
  "\<exists>st'. ProcessBufferData (Suc (Suc 0)) demo_env (filled [] demo_hash_piece demo_state) = Finished (STREAM_UPDATE_COMPLETE, st')
     \<and> updateStep st' = CHUNK_INSTALL_STEP_DO \<and> fds (chunkWorld st') = fds demo_stream_world \<and> dirs (chunkWorld st') = []"
proof -
  let ?st = "filled [] demo_hash_piece demo_state"
  obtain st' where st': "UpdateBinHash demo_env ?st = Finished (STREAM_UPDATE_COMPLETE, st')" "curlen st' = chunkOffset st'"
    using demo_hash_accepted by (auto split: chunk_run.splits prod.splits)
  have pending: "left_of (curlen ?st) (chunkOffset ?st) \<noteq> 0" "\<not> needNewData ?st" "ReadLE16 (chunkBuffer ?st) (chunkOffset ?st) = Some 0x16"
    by (simp_all add: left_of_def filled_def demo_hash_piece_def ReadLE16_def)
  have hash: "unat (0x16 :: u16) = 0x16" by simp
  have "updateStep ?st = CHUNK_INSTALL_STEP_DO" "fds (chunkWorld ?st) = fds demo_stream_world" "dirs (chunkWorld ?st) = []"
    by (simp_all add: filled_def demo_state_def BinChunkUpdate_new_def demo_stream_world_def)
  then show ?thesis
    using last_partition_not_closed [OF pending hash st', of 0] by simp
qed

text \<open>
  C39. The length of the name of a partition in the section with the hashes is not compared with what
  has arrived: a length that reaches over the end of the buffer makes the digest read past it, before
  the signature has been seen.
\<close>

theorem crafted_name_reads_past_buffer:
  assumes "sees st (WriteLE16 tip @ WriteLE16 2 @ WriteLE16 count @ WriteLE16 tip' @ WriteLE16 len) n" "10 \<le> n" "count \<noteq> 0"
    and "length (chunkBuffer st) < chunkOffset st + 10 + unat len"
  shows "UpdateBinHash env st = Undefined"
proof -
  let ?off = "chunkOffset st"
  note left = sees_left [OF assms(1)] and reads = sees_reads(1) [OF assms(1)]
  have fields: "ReadLE16 (chunkBuffer st) (?off + 2) = Some 2" "ReadLE16 (chunkBuffer st) (?off + 4) = Some count"
      "ReadLE16 (chunkBuffer st) (?off + 8) = Some len"
    using assms(2) reads [of 2] reads [of 4] reads [of 8] ReadLE16_WriteLE16 [of "WriteLE16 tip"]
      ReadLE16_WriteLE16 [of "WriteLE16 tip @ WriteLE16 2"] ReadLE16_WriteLE16 [of "WriteLE16 tip @ WriteLE16 2 @ WriteLE16 count @ WriteLE16 tip'" len "[]"]
    by simp_all
  have room: "?off + 10 \<le> length (chunkBuffer st)" using assms(1,2) by (simp add: sees_def)
  let ?st = "st\<lparr>hashInput := slice ?off 4 (chunkBuffer st) @ slice (?off + 4) 2 (chunkBuffer st), patitionNum := unat count\<rparr>"
  have num: "ProcessPartitionNum ?off (st\<lparr>hashInput := []\<rparr>) = Finished (True, ?off + 6, ?st)"
    using fields left [of 0] left [of 4] assms(2) room by (simp add: ProcessPartitionNum_def hash_update_def)
  obtain i where i: "unat count = Suc i" using assms(3) by (cases "unat count") (auto simp: unat_eq_0)
  have "ProcessPartitionData (Suc i) infos (?off + 6) ?st = Undefined" for infos
    using fields(3) left [of 6] assms(2,4) room
    by (auto simp: hash_update_def ac_simps split: option.splits)
  then show ?thesis by (simp add: UpdateBinHash_def num i)
qed

definition crafted_piece :: bytes where
  "crafted_piece = WriteLE16 0x16 @ WriteLE16 2 @ WriteLE16 1 @ WriteLE16 0x17 @ WriteLE16 55"

theorem crafted_name_reads_past_buffer_witness:
  "UpdateBinHash demo_env (demo_state\<lparr>chunkBuffer := crafted_piece @ replicate 54 0, curlen := 10\<rparr>) = Undefined"
  by (rule crafted_name_reads_past_buffer [where n = 10 and tip = "0x16" and count = 1 and tip' = "0x17" and len = 55])
     (simp_all add: sees_def demo_state_def BinChunkUpdate_new_def crafted_piece_def slice_def)

end
