(* ===== verification/Sign_Parse.thy ===== *)
theory Sign_Parse
  imports Pkg_Utils Pkg_Stream
begin

text \<open>
  Finding the signature of a package and hashing what it covers: \<open>zip_pkg_parse.cpp\<close>,
  \<open>bin_pkg_parse.cpp\<close> and \<open>CalcSha256Digest\<close> of \<open>openssl_util.cpp\<close> under
  \<open>src/services/package/pkg_verify\<close>. The signature lies at the end of the file, in front of a footer of
  six bytes; in a zip file both belong to the comment of the end record. A stream is the pair of its
  operations \<open>Read\<close> and \<open>GetFileLength\<close>; the entries that are given a null pointer are in \<open>Sign_Package\<close>.
\<close>

record 's stream_ops =
  op_Read :: "'s stream_read"
  op_GetFileLength :: "'s \<Rightarrow> nat \<times> 's"

text \<open>The contents of a \<open>PkgBuffer\<close> of \<open>n\<close> bytes into which \<open>xs\<close> was read.\<close>

definition filled :: "nat \<Rightarrow> bytes \<Rightarrow> bytes" where
  "filled n xs = xs @ replicate (n - length xs) 0"

abbreviation (input) ZIP_EOCD_LEN_EXCLUDE_COMMENT :: nat where "ZIP_EOCD_LEN_EXCLUDE_COMMENT \<equiv> 20"
abbreviation (input) ZIP_EOCD_FIXED_PART_LEN :: nat where "ZIP_EOCD_FIXED_PART_LEN \<equiv> 22"
abbreviation (input) PKG_FOOTER_SIZE :: nat where "PKG_FOOTER_SIZE \<equiv> 6"
abbreviation (input) PKG_ZIP_EOCD_MIN_LEN :: nat where "PKG_ZIP_EOCD_MIN_LEN \<equiv> 28"
abbreviation (input) ZIP_EOCD_SIGNATURE :: u32 where "ZIP_EOCD_SIGNATURE \<equiv> 0x06054b50"
abbreviation (input) PKG_ZIP_EOCD_FOOTER_FLAG :: u16 where "PKG_ZIP_EOCD_FOOTER_FLAG \<equiv> 0xFFFF"

definition ZIP_EOCD_SIGNATURE_BIG_ENDIAN :: bytes where
  "ZIP_EOCD_SIGNATURE_BIG_ENDIAN = [0x50, 0x4b, 0x05, 0x06]"

section \<open>The footer\<close>

record sign_comment =
  signCommentTotalLen :: u16
  signCommentAppendLen :: u16

definition ParsePkgFooter :: "bytes \<Rightarrow> int + sign_comment" where
  "ParsePkgFooter footer =
     (if length footer < PKG_FOOTER_SIZE then Inl PKG_INVALID_PARAM
      else let signDataStart = the (ReadLE16 footer 0); signDataFlag = the (ReadLE16 footer 2);
               signDataSize = the (ReadLE16 footer 4)
      in if signDataFlag \<noteq> PKG_ZIP_EOCD_FOOTER_FLAG then Inl PKG_INVALID_PKG_FORMAT
      else if unat signDataStart < PKG_FOOTER_SIZE \<or> unat signDataSize < PKG_FOOTER_SIZE \<or> signDataSize < signDataStart
      then Inl PKG_INVALID_PKG_FORMAT
      else Inr \<lparr>signCommentTotalLen = signDataSize, signCommentAppendLen = signDataStart\<rparr>)"

definition ReadFooterFromStream :: "'s stream_ops \<Rightarrow> 's \<Rightarrow> (int + sign_comment) \<times> 's" where
  "ReadFooterFromStream ops s =
     (case op_GetFileLength ops s of (fileLen, s1) \<Rightarrow>
        if fileLen \<le> PKG_FOOTER_SIZE then (Inl PKG_INVALID_FILE, s1)
        else case op_Read ops s1 (fileLen - PKG_FOOTER_SIZE) PKG_FOOTER_SIZE of
            (Inl ret, s2) \<Rightarrow> (Inl ret, s2)
          | (Inr xs, s2) \<Rightarrow> (ParsePkgFooter (filled PKG_FOOTER_SIZE xs), s2))"

section \<open>The end record of a zip file\<close>

definition CheckZipEocd :: "bytes \<Rightarrow> u16 \<Rightarrow> int" where
  "CheckZipEocd eocd totalLen =
     (if length eocd < PKG_ZIP_EOCD_MIN_LEN then PKG_INVALID_PKG_FORMAT
      else if the (ReadLE32 eocd 0) \<noteq> ZIP_EOCD_SIGNATURE then PKG_INVALID_PKG_FORMAT
      else if list_ex (\<lambda>i. eocd ! i = ZIP_EOCD_SIGNATURE_BIG_ENDIAN ! 0 \<and> eocd ! (i + 1) = ZIP_EOCD_SIGNATURE_BIG_ENDIAN ! 1
                \<and> eocd ! (i + 2) = ZIP_EOCD_SIGNATURE_BIG_ENDIAN ! 2 \<and> eocd ! (i + 3) = ZIP_EOCD_SIGNATURE_BIG_ENDIAN ! 3)
                [4..<length eocd - 3] then PKG_INVALID_PKG_FORMAT
      else if totalLen \<noteq> the (ReadLE16 eocd ZIP_EOCD_LEN_EXCLUDE_COMMENT) then PKG_INVALID_PKG_FORMAT
      else PKG_SUCCESS)"

definition DoParseZipPkg :: "'s stream_ops \<Rightarrow> 's \<Rightarrow> sign_comment \<Rightarrow> (int + sign_comment) \<times> 's" where
  "DoParseZipPkg ops s cm =
     (case op_GetFileLength ops s of (fileLen, s1) \<Rightarrow>
        let eocdTotalLen = ZIP_EOCD_FIXED_PART_LEN + unat (signCommentTotalLen cm) in
        if fileLen \<le> eocdTotalLen then (Inl PKG_INVALID_PKG_FORMAT, s1)
        else case op_Read ops s1 (fileLen - eocdTotalLen) eocdTotalLen of
            (Inl ret, s2) \<Rightarrow> (Inl ret, s2)
          | (Inr xs, s2) \<Rightarrow>
              let ret = CheckZipEocd (filled eocdTotalLen xs) (signCommentTotalLen cm) in
              if ret \<noteq> PKG_SUCCESS then (Inl ret, s2)
              else if fileLen \<le> unat (signCommentTotalLen cm) then (Inl PKG_INVALID_FILE, s2)
              else (Inr cm, s2))"

definition ZipPkgParse_ParsePkg :: "'s stream_ops \<Rightarrow> 's \<Rightarrow> (int + sign_comment) \<times> 's" where
  "ZipPkgParse_ParsePkg ops s =
     (case ReadFooterFromStream ops s of
        (Inl ret, s1) \<Rightarrow> (Inl ret, s1)
      | (Inr cm, s1) \<Rightarrow> DoParseZipPkg ops s1 cm)"

definition BinPkgParse_ParsePkg :: "'s stream_ops \<Rightarrow> 's \<Rightarrow> (int + sign_comment) \<times> 's" where
  "BinPkgParse_ParsePkg ops s =
     (case ReadFooterFromStream ops s of
        (Inl ret, s1) \<Rightarrow> (Inl ret, s1)
      | (Inr cm, s1) \<Rightarrow>
          (case op_GetFileLength ops s1 of (fileLen, s2) \<Rightarrow>
             if fileLen \<le> unat (signCommentTotalLen cm) then (Inl PKG_INVALID_FILE, s2) else (Inr cm, s2)))"

text \<open>The two classes behind \<open>PkgParse\<close>, and their virtual functions.\<close>

datatype pkg_parse = ZipPkgParse | BinPkgParse

fun ParsePkg :: "pkg_parse \<Rightarrow> 's stream_ops \<Rightarrow> 's \<Rightarrow> (int + sign_comment) \<times> 's" where
  "ParsePkg ZipPkgParse = ZipPkgParse_ParsePkg"
| "ParsePkg BinPkgParse = BinPkgParse_ParsePkg"

fun GetFixedPartLen :: "pkg_parse \<Rightarrow> nat" where
  "GetFixedPartLen ZipPkgParse = ZIP_EOCD_FIXED_PART_LEN"
| "GetFixedPartLen BinPkgParse = 0"

fun IsSupportOldSig :: "pkg_parse \<Rightarrow> bool" where
  "IsSupportOldSig ZipPkgParse = True"
| "IsSupportOldSig BinPkgParse = False"

section \<open>The digest of a part of a stream\<close>

text \<open>
  The two loops of \<open>CalcSha256Digest\<close>, the first over whole blocks and the second over what is less
  than a block: \<open>got\<close> is what has been given to the digest. None in the result is a failed read;
  the outer None is a loop that never ends, because a read succeeds with no bytes.
\<close>

abbreviation (input) HASH_SOURCE_BLOCK_LEN :: nat where "HASH_SOURCE_BLOCK_LEN \<equiv> 4096"

partial_function (option) digest_loop :: "'s stream_read \<Rightarrow> 's \<Rightarrow> nat \<Rightarrow> nat \<Rightarrow> bytes \<Rightarrow> (bytes option \<times> 's) option" where
  "digest_loop read s offset remainLen got =
     (if remainLen = 0 then Some (Some got, s)
      else case read s offset (if HASH_SOURCE_BLOCK_LEN \<le> remainLen then HASH_SOURCE_BLOCK_LEN else remainLen) of
          (Inl ret, s1) \<Rightarrow> Some (None, s1)
        | (Inr xs, s1) \<Rightarrow> digest_loop read s1 (offset + length xs) (remainLen - length xs) (got @ xs))"

definition CalcSha256Digest :: "(bytes \<Rightarrow> bytes) \<Rightarrow> 's stream_ops \<Rightarrow> 's \<Rightarrow> nat \<Rightarrow> nat \<Rightarrow> ((int + bytes) \<times> 's) option" where
  "CalcSha256Digest sha256 ops s dataLen offset =
     (if dataLen = 0 then Some (Inl (-1), s)
      else case digest_loop (op_Read ops) s offset dataLen [] of
          None \<Rightarrow> None
        | Some (None, s1) \<Rightarrow> Some (Inl (-1), s1)
        | Some (Some got, s1) \<Rightarrow> Some (Inr (sha256 got), s1))"

section \<open>Streams that can be read at any position\<close>

text \<open>
  What the verification asks of a stream beyond the contract of a read: the length is that of the
  contents, and a failed read leaves the stream usable.
\<close>

locale seekable_stream = package_stream "op_Read ops" "\<lambda>s. snd (op_GetFileLength ops s)" fresh valid
  for ops :: "'s stream_ops" and fresh valid :: "bytes \<Rightarrow> 's \<Rightarrow> bool" +
  assumes length_fresh: "fresh content s \<Longrightarrow> fst (op_GetFileLength ops s) = length content"
    and length_valid: "valid content s \<Longrightarrow> op_GetFileLength ops s = (length content, s)"
    and failed_valid: "valid content s \<Longrightarrow> op_Read ops s start need = (r, s') \<Longrightarrow> r = Inl e \<Longrightarrow> valid content s'"
begin

lemma any_read_valid: "valid content s \<Longrightarrow> op_Read ops s start need = (r, s') \<Longrightarrow> valid content s'"
  using read_valid failed_valid by (cases r) blast+

lemma fresh_length: "fresh content s \<Longrightarrow> \<exists>s'. op_GetFileLength ops s = (length content, s') \<and> valid content s'"
  using length_fresh measured by (metis prod.collapse)

lemma whole_read:
  "valid content s \<Longrightarrow> op_Read ops s start need = (Inr xs, s') \<Longrightarrow> start + need \<le> length content \<Longrightarrow>
     xs = slice start need content \<and> filled need xs = slice start need content"
  using read_bytes [of content s start need xs s'] by (simp add: filled_def)

text \<open>The digest is that of the asked part, and is found, wherever this part lies in the file.\<close>

lemma digest_loop_ends:
  assumes "valid content s" "offset + n \<le> length content"
  shows "\<exists>r s'. digest_loop (op_Read ops) s offset n got = Some (r, s') \<and> valid content s'
     \<and> (r = None \<or> r = Some (got @ slice offset n content))"
  using assms
proof (induction n arbitrary: s offset got rule: less_induct)
  case (less n)
  show ?case
  proof (cases "n = 0")
    case True
    then show ?thesis using less.prems by (subst digest_loop.simps) (simp add: slice_def)
  next
    case False
    define need where "need = (if HASH_SOURCE_BLOCK_LEN \<le> n then HASH_SOURCE_BLOCK_LEN else n)"
    have need: "0 < need" "need \<le> n" using False by (auto simp: need_def)
    obtain r s1 where r: "op_Read ops s offset need = (r, s1)" by force
    have v: "valid content s1" by (rule any_read_valid [OF less.prems(1) r])
    show ?thesis
    proof (cases r)
      case (Inl e)
      then show ?thesis using False r v by (subst digest_loop.simps) (simp add: need_def)
    next
      case (Inr xs)
      have xs: "xs = slice offset need content"
        using whole_read [OF less.prems(1) r [unfolded Inr]] less.prems(2) need by simp
      have len: "length xs = need" using xs less.prems(2) need by simp
      have step: "digest_loop (op_Read ops) s offset n got = digest_loop (op_Read ops) s1 (offset + need) (n - need) (got @ xs)"
        using False r Inr len by (subst digest_loop.simps) (simp add: need_def)
      have "slice offset n content = xs @ slice (offset + need) (n - need) content"
        using slice_append_split [of offset need "n - need" content] need xs by simp
      then show ?thesis
        using less.IH [of "n - need" s1 "offset + need" "got @ xs"] v less.prems(2) need unfolding step by simp
    qed
  qed
qed

lemma digest_of_part:
  assumes "valid content s" "offset + n \<le> length content"
  shows "\<exists>r s'. CalcSha256Digest sha ops s n offset = Some (r, s') \<and> valid content s'
     \<and> (r = Inl (-1) \<or> 0 < n \<and> r = Inr (sha (slice offset n content)))"
proof -
  obtain r s' where "digest_loop (op_Read ops) s offset n [] = Some (r, s')" "valid content s'"
      "r = None \<or> r = Some (slice offset n content)"
    using digest_loop_ends [OF assms, of "[]"] by auto
  then show ?thesis using assms(1) by (auto simp: CalcSha256Digest_def)
qed

end

definition file_ops :: "file_stream stream_ops" where
  "file_ops = \<lparr>op_Read = FileStream_Read, op_GetFileLength = FileStream_GetFileLength\<rparr>"

definition memory_ops :: "memory_stream stream_ops" where
  "memory_ops = \<lparr>op_Read = MemoryMapStream_Read, op_GetFileLength = (\<lambda>m. (memSize m, m))\<rparr>"

interpretation file_seek: seekable_stream file_ops file_fresh file_valid
proof -
  have [simp]: "op_Read file_ops = FileStream_Read" "op_GetFileLength file_ops = FileStream_GetFileLength"
    by (simp_all add: file_ops_def)
  show "seekable_stream file_ops file_fresh file_valid"
    by unfold_locales
      (auto simp: FileStream_Read_def file_valid_def file_fresh_def FileStream_GetFileLength_def Let_def split: if_splits)
qed

interpretation memory_seek: seekable_stream memory_ops memory_valid memory_valid
proof -
  have ops: "op_Read memory_ops = MemoryMapStream_Read" "(\<lambda>s. snd (op_GetFileLength memory_ops s)) = id"
    by (auto simp: memory_ops_def)
  have base: "package_stream (op_Read memory_ops) (\<lambda>s. snd (op_GetFileLength memory_ops s)) memory_valid memory_valid"
    unfolding ops by (rule mapped.package_stream_axioms)
  have "seekable_stream_axioms memory_ops memory_valid memory_valid"
    by unfold_locales (auto simp: memory_ops_def memory_valid_def memSize_def MemoryMapStream_Read_def Let_def split: if_splits option.splits)
  with base show "seekable_stream memory_ops memory_valid memory_valid" by (rule seekable_stream.intro)
qed

end
