(* ===== verification/Sign_Pkcs7.thy ===== *)
theory Sign_Pkcs7
  imports Pkg_Utils
begin

text \<open>
  The signature block of a package (\<open>pkcs7_signed_data.cpp\<close>, \<open>cert_verify.cpp\<close> and the helpers of
  \<open>openssl_util.cpp\<close> under \<open>src/services/package/pkg_verify\<close>). The structures of OpenSSL are records with the
  fields the code reads, a pointer that may be null is an option; decoding, searching a certificate and
  the public key operations are the parameter \<open>openssl\<close>. None is undefined behaviour.
\<close>

section \<open>OpenSSL\<close>

text \<open>
  \<open>'i\<close> is an issuer with a serial number, \<open>'x\<close> a certificate, \<open>'n\<close> a name and \<open>'k\<close> a public key. An
  \<open>ASN1_OCTET_STRING\<close> is None inside when it has no data; an algorithm is the number of its object.
\<close>

abbreviation (input) NID_pkcs7_data :: int where "NID_pkcs7_data \<equiv> 21"
abbreviation (input) NID_pkcs7_signed :: int where "NID_pkcs7_signed \<equiv> 22"
abbreviation (input) NID_commonName :: int where "NID_commonName \<equiv> 13"
abbreviation (input) NID_countryName :: int where "NID_countryName \<equiv> 14"
abbreviation (input) NID_organizationName :: int where "NID_organizationName \<equiv> 17"
abbreviation (input) NID_organizationalUnitName :: int where "NID_organizationalUnitName \<equiv> 18"
abbreviation (input) NID_sha256 :: nat where "NID_sha256 \<equiv> 672"
abbreviation (input) SHA256_DIGEST_LENGTH :: nat where "SHA256_DIGEST_LENGTH \<equiv> 32"

record 'i p7_signer =
  issuer_and_serial :: "'i option"
  digest_alg :: "int option option"
  digest_enc_alg :: "int option option"
  enc_digest :: "bytes option option"

record ('x, 'i) p7_signed =
  contents :: "(int \<times> bytes option option) option"
  cert_stack :: "'x list option"
  signer_infos :: "'i p7_signer option list option"

record ('x, 'i) pkcs7 =
  p7_type :: int
  p7_sign :: "('x, 'i) p7_signed option"

record ('x, 'i, 'n, 'k) openssl =
  d2i_PKCS7_bio :: "bytes \<Rightarrow> ('x, 'i) pkcs7 option"
  X509_find_by_issuer_and_serial :: "'x list \<Rightarrow> 'i \<Rightarrow> 'x option"
  X509_get_subject_name :: "'x \<Rightarrow> 'n option"
  X509_get_issuer_name :: "'x \<Rightarrow> 'n option"
  X509_NAME_get_text_by_NID :: "'n \<Rightarrow> int \<Rightarrow> string option"
  X509_get_pubkey :: "'x \<Rightarrow> 'k option"
  X509_verify :: "'x \<Rightarrow> 'k \<Rightarrow> bool"
  EVP_DigestVerify :: "'k \<Rightarrow> int \<Rightarrow> bytes \<Rightarrow> bytes \<Rightarrow> bool"
  root_cert_file :: "'x option"

definition PKCS7_get_signer_info :: "('x, 'i) pkcs7 \<Rightarrow> 'i p7_signer option list option" where
  "PKCS7_get_signer_info p7 = Option.bind (p7_sign p7) signer_infos"

definition GetASN1OctetStringData :: "bytes option option \<Rightarrow> bytes option" where
  "GetASN1OctetStringData octString =
     (case octString of
        None \<Rightarrow> None
      | Some None \<Rightarrow> None
      | Some (Some octChar) \<Rightarrow> if length octChar = 0 then None else Some octChar)"

definition GetX509AlgorithmNid :: "int option option \<Rightarrow> int option" where
  "GetX509AlgorithmNid x509Algo =
     (case x509Algo of
        None \<Rightarrow> None
      | Some None \<Rightarrow> None
      | Some (Some algoNid) \<Rightarrow> if algoNid \<le> 0 then None else Some algoNid)"

section \<open>Certificates\<close>

text \<open>A name is copied up to its first zero character.\<close>

definition GetTextContentFromX509Name :: "('x, 'i, 'n, 'k) openssl \<Rightarrow> 'n \<Rightarrow> int \<Rightarrow> string" where
  "GetTextContentFromX509Name L name nId =
     (case X509_NAME_get_text_by_NID L name nId of
        None \<Rightarrow> []
      | Some text \<Rightarrow> takeWhile (\<lambda>c. c \<noteq> CHR 0x00) text)"

definition GetStringFromX509Name :: "('x, 'i, 'n, 'k) openssl \<Rightarrow> 'n option \<Rightarrow> string" where
  "GetStringFromX509Name L x509Name =
     (case x509Name of
        None \<Rightarrow> []
      | Some name \<Rightarrow> ''C='' @ GetTextContentFromX509Name L name NID_countryName
          @ '', O='' @ GetTextContentFromX509Name L name NID_organizationName
          @ '', OU='' @ GetTextContentFromX509Name L name NID_organizationalUnitName
          @ '', CN='' @ GetTextContentFromX509Name L name NID_commonName)"

definition GetX509CertSubjectName :: "('x, 'i, 'n, 'k) openssl \<Rightarrow> 'x \<Rightarrow> string" where
  "GetX509CertSubjectName L cert = GetStringFromX509Name L (X509_get_subject_name L cert)"

definition GetX509CertIssuerName :: "('x, 'i, 'n, 'k) openssl \<Rightarrow> 'x \<Rightarrow> string" where
  "GetX509CertIssuerName L cert = GetStringFromX509Name L (X509_get_issuer_name L cert)"

definition VerifyX509CertByIssuerCert :: "('x, 'i, 'n, 'k) openssl \<Rightarrow> 'x \<Rightarrow> 'x option \<Rightarrow> bool" where
  "VerifyX509CertByIssuerCert L cert issuerCert =
     (case issuerCert of
        None \<Rightarrow> False
      | Some issuer \<Rightarrow> (case X509_get_pubkey L issuer of
          None \<Rightarrow> False
        | Some pubKey \<Rightarrow> X509_verify L cert pubKey))"

definition VerifyDigestByPubKey :: "('x, 'i, 'n, 'k) openssl \<Rightarrow> 'k option \<Rightarrow> int \<Rightarrow> bytes \<Rightarrow> bytes \<Rightarrow> int" where
  "VerifyDigestByPubKey L pubKey nid digestData sig =
     (case pubKey of
        None \<Rightarrow> -1
      | Some k \<Rightarrow> if EVP_DigestVerify L k nid digestData sig then 0 else -1)"

text \<open>The root certificate that \<open>SingleCertHelper\<close> keeps between calls.\<close>

record 'x root_info =
  rootCert :: "'x option"
  subject :: string
  issuer :: string

definition InitRootCert :: "('x, 'i, 'n, 'k) openssl \<Rightarrow> 'x root_info \<Rightarrow> int \<times> 'x root_info" where
  "InitRootCert L info =
     (case root_cert_file L of
        None \<Rightarrow> (-1, info)
      | Some c \<Rightarrow> (0, \<lparr>rootCert = Some c, subject = GetX509CertSubjectName L c, issuer = GetX509CertIssuerName L c\<rparr>))"

definition CompareCertSubjectAndIssuer :: "('x, 'i, 'n, 'k) openssl \<Rightarrow> 'x root_info \<Rightarrow> 'x \<Rightarrow> int" where
  "CompareCertSubjectAndIssuer L info cert =
     (if subject info = GetX509CertSubjectName L cert \<and> issuer info = GetX509CertIssuerName L cert then 0 else -1)"

definition VerifySingleCert :: "('x, 'i, 'n, 'k) openssl \<Rightarrow> 'x root_info \<Rightarrow> 'x \<Rightarrow> int" where
  "VerifySingleCert L info cert =
     (if CompareCertSubjectAndIssuer L info cert \<noteq> 0 then -1
      else if VerifyX509CertByIssuerCert L cert (rootCert info) then 0 else -1)"

definition CertChainCheck :: "('x, 'i, 'n, 'k) openssl \<Rightarrow> 'x root_info \<Rightarrow> 'x list \<Rightarrow> 'x option \<Rightarrow> int" where
  "CertChainCheck L info certStack cert = (case cert of None \<Rightarrow> -1 | Some c \<Rightarrow> VerifySingleCert L info c)"

section \<open>The signed data\<close>

text \<open>
  A signer holds pointers into the structure it was read from: \<open>signer_of\<close> is the number of this
  structure, and \<open>generation\<close> that of the one the object has now. The older ones have been freed.
\<close>

record 'i pkcs7_signer_info =
  signer_id :: 'i
  signer_of :: nat
  digestNid :: int
  digestEncryptNid :: int
  digestEncryptData :: bytes

record data_buffer =
  db_buffer :: bytes
  db_length :: nat

record signature_info =
  overall :: data_buffer
  hashResult :: data_buffer
  si_nid :: int

record ('x, 'i) signed_data =
  p7_ptr :: "('x, 'i) pkcs7 option"
  generation :: nat
  p7_digest :: bytes
  signerInfos :: "'i pkcs7_signer_info list"
  signatureInfo :: signature_info

definition Pkcs7SignedData_new :: "('x, 'i) signed_data" where
  "Pkcs7SignedData_new = \<lparr>p7_ptr = None, generation = 0, p7_digest = [], signerInfos = [],
     signatureInfo = \<lparr>overall = \<lparr>db_buffer = [], db_length = 0\<rparr>, hashResult = \<lparr>db_buffer = [], db_length = 0\<rparr>, si_nid = 0\<rparr>\<rparr>"

text \<open>
  The object a product may register to read the digest from another format of the contents, and
  the one registered by default.
\<close>

type_synonym verify_helper = "bytes \<Rightarrow> signature_info \<Rightarrow> bytes \<Rightarrow> int \<times> signature_info \<times> bytes"

definition Pkcs7VerifyHelper :: verify_helper where
  "Pkcs7VerifyHelper digestBlock info digest = (-1, info, digest)"

definition GetDigest :: "verify_helper option \<Rightarrow> verify_helper" where
  "GetDigest helper digestBlock info digest =
     (case helper of None \<Rightarrow> (-1, info, digest) | Some h \<Rightarrow> h digestBlock info digest)"

definition GetDigestLength :: "nat \<Rightarrow> nat" where
  "GetDigestLength algo = (if algo = NID_sha256 then SHA256_DIGEST_LENGTH else 0)"

definition GetDigestFromContentInfo :: "('x, 'i) signed_data \<Rightarrow> bytes \<Rightarrow> int \<times> ('x, 'i) signed_data" where
  "GetDigestFromContentInfo p digestBlock =
     (if length digestBlock \<le> 4 then (-1, p)
      else let algoId = unat (the (ReadLE16 digestBlock 0)); digestLen = unat (the (ReadLE16 digestBlock 2)) in
        if GetDigestLength algoId \<noteq> digestLen \<or> digestLen + 4 \<noteq> length digestBlock then (-1, p)
        else (0, p\<lparr>p7_digest := drop 4 digestBlock\<rparr>))"

definition Pkcs7_Init :: "('x, 'i, 'n, 'k) openssl \<Rightarrow> 'x root_info \<Rightarrow> ('x, 'i) signed_data \<Rightarrow> bytes \<Rightarrow>
    int \<times> 'x root_info \<times> ('x, 'i) signed_data" where
  "Pkcs7_Init L info p sourceData =
     (let p1 = p\<lparr>p7_ptr := d2i_PKCS7_bio L sourceData, generation := Suc (generation p)\<rparr> in
      case p7_ptr p1 of
        None \<Rightarrow> (-1, info, p1)
      | Some p7 \<Rightarrow>
          if p7_type p7 \<noteq> NID_pkcs7_signed then (-1, info, p1)
          else case InitRootCert L info of (ret, info1) \<Rightarrow> if ret \<noteq> 0 then (-1, info1, p1) else (0, info1, p1))"

definition ParseContentInfo :: "('x, 'i) pkcs7 \<Rightarrow> bytes option" where
  "ParseContentInfo p7 =
     (case p7_sign p7 of
        None \<Rightarrow> None
      | Some signData \<Rightarrow> (case contents signData of
          None \<Rightarrow> None
        | Some (contentType, octets) \<Rightarrow> if contentType \<noteq> NID_pkcs7_data then None else GetASN1OctetStringData octets))"

definition SignerInfoParse :: "nat \<Rightarrow> 'i p7_signer option \<Rightarrow> 'i pkcs7_signer_info option" where
  "SignerInfoParse gen si =
     (case si of
        None \<Rightarrow> None
      | Some p7SignerInfo \<Rightarrow> (case issuer_and_serial p7SignerInfo of
          None \<Rightarrow> None
        | Some who \<Rightarrow> (case GetX509AlgorithmNid (digest_alg p7SignerInfo) of
            None \<Rightarrow> None
          | Some d \<Rightarrow> (case GetX509AlgorithmNid (digest_enc_alg p7SignerInfo) of
              None \<Rightarrow> None
            | Some e \<Rightarrow> (case GetASN1OctetStringData (enc_digest p7SignerInfo) of
                None \<Rightarrow> None
              | Some sig \<Rightarrow> Some \<lparr>signer_id = who, signer_of = gen, digestNid = d, digestEncryptNid = e, digestEncryptData = sig\<rparr>)))))"

text \<open>Signers that cannot be read are passed over.\<close>

definition SignerInfosParse :: "('x, 'i) signed_data \<Rightarrow> ('x, 'i) pkcs7 \<Rightarrow> int \<times> ('x, 'i) signed_data" where
  "SignerInfosParse p p7 =
     (case PKCS7_get_signer_info p7 of
        None \<Rightarrow> (-1, p)
      | Some infos \<Rightarrow>
          if length infos = 0 then (-1, p)
          else (0, p\<lparr>signerInfos := signerInfos p @ List.map_filter (SignerInfoParse (generation p)) infos\<rparr>))"

definition DoParse :: "verify_helper option \<Rightarrow> ('x, 'i) signed_data \<Rightarrow> ('x, 'i) pkcs7 \<Rightarrow> int \<times> ('x, 'i) signed_data" where
  "DoParse helper p p7 =
     (case ParseContentInfo p7 of
        None \<Rightarrow> (-1, p)
      | Some contentInfo \<Rightarrow>
          (case GetDigest helper contentInfo (signatureInfo p) (p7_digest p) of (found, info, digest) \<Rightarrow>
             let p1 = p\<lparr>signatureInfo := info, p7_digest := digest\<rparr> in
             if found \<noteq> 0
             then (case GetDigestFromContentInfo p1 contentInfo of (ret, p2) \<Rightarrow>
                     if ret \<noteq> 0 then (-1, p2) else SignerInfosParse p2 p7)
             else SignerInfosParse p1 p7))"

definition ParsePkcs7Data :: "('x, 'i, 'n, 'k) openssl \<Rightarrow> verify_helper option \<Rightarrow> 'x root_info \<Rightarrow> ('x, 'i) signed_data \<Rightarrow> bytes \<Rightarrow>
    int \<times> 'x root_info \<times> ('x, 'i) signed_data" where
  "ParsePkcs7Data L helper info p srcData =
     (if length srcData = 0 then (-1, info, p)
      else case Pkcs7_Init L info p srcData of (ret, info1, p1) \<Rightarrow>
        if ret \<noteq> 0 then (-1, info1, p1)
        else case p7_ptr p1 of
            None \<Rightarrow> (-1, info1, p1)
          | Some p7 \<Rightarrow> (case DoParse helper p1 p7 of (ret, p2) \<Rightarrow> (ret, info1, p2)))"

section \<open>Verification\<close>

definition Pkcs7_VerifyDigest :: "('x, 'i, 'n, 'k) openssl \<Rightarrow> 'x \<Rightarrow> 'i pkcs7_signer_info \<Rightarrow> bytes \<Rightarrow> bytes \<Rightarrow> int" where
  "Pkcs7_VerifyDigest L cert signer hash sig =
     (case X509_get_pubkey L cert of
        None \<Rightarrow> -1
      | Some pubKey \<Rightarrow> VerifyDigestByPubKey L (Some pubKey) (digestNid signer) hash sig)"

definition Pkcs7SignleSignerVerify :: "('x, 'i, 'n, 'k) openssl \<Rightarrow> 'x root_info \<Rightarrow> ('x, 'i) signed_data \<Rightarrow>
    'i pkcs7_signer_info \<Rightarrow> bytes \<Rightarrow> bytes \<Rightarrow> int option" where
  "Pkcs7SignleSignerVerify L info p signer hash sig =
     (case p7_ptr p of
        None \<Rightarrow> Some (-1)
      | Some p7 \<Rightarrow> (case p7_sign p7 of
          None \<Rightarrow> None
        | Some signData \<Rightarrow> (case cert_stack signData of
            None \<Rightarrow> Some (-1)
          | Some certStack \<Rightarrow>
              if signer_of signer \<noteq> generation p then None
              else case X509_find_by_issuer_and_serial L certStack (signer_id signer) of
                  None \<Rightarrow> Some (-1)
                | Some cert \<Rightarrow>
                    if CertChainCheck L info certStack (Some cert) \<noteq> 0 then Some (-1)
                    else Some (Pkcs7_VerifyDigest L cert signer hash sig))))"

fun verify_signers :: "('x, 'i, 'n, 'k) openssl \<Rightarrow> 'x root_info \<Rightarrow> ('x, 'i) signed_data \<Rightarrow>
    bytes \<Rightarrow> bytes option \<Rightarrow> int \<Rightarrow> 'i pkcs7_signer_info list \<Rightarrow> int option" where
  "verify_signers L info p hash sig ret [] = Some ret"
| "verify_signers L info p hash sig ret (signer # rest) =
     (case Pkcs7SignleSignerVerify L info p signer hash (case sig of None \<Rightarrow> digestEncryptData signer | Some s \<Rightarrow> s) of
        None \<Rightarrow> None
      | Some r \<Rightarrow> if r = 0 then Some 0 else verify_signers L info p hash sig r rest)"

text \<open>The signature is a parameter of the call, or that of the signer (\<open>sigInSignerInfo\<close>, here None).\<close>

definition Pkcs7_Verify_hash :: "('x, 'i, 'n, 'k) openssl \<Rightarrow> 'x root_info \<Rightarrow> ('x, 'i) signed_data \<Rightarrow> bytes \<Rightarrow> bytes option \<Rightarrow> int option" where
  "Pkcs7_Verify_hash L info p hash sig =
     (if hash = [] then Some (-1) else verify_signers L info p hash sig (-1) (signerInfos p))"

definition Pkcs7_Verify :: "('x, 'i, 'n, 'k) openssl \<Rightarrow> 'x root_info \<Rightarrow> ('x, 'i) signed_data \<Rightarrow> int option" where
  "Pkcs7_Verify L info p =
     (let whole = overall (signatureInfo p) in
      if length (db_buffer whole) < db_length whole then None
      else case Pkcs7_Verify_hash L info p (take (db_length whole) (db_buffer whole)) None of
          None \<Rightarrow> None
        | Some r \<Rightarrow> if r = 0 then Some 0 else Pkcs7_Verify_hash L info p (p7_digest p) None)"

text \<open>The hash in the block, when one of its signers has signed it.\<close>

definition GetHashFromSignBlock :: "('x, 'i, 'n, 'k) openssl \<Rightarrow> verify_helper option \<Rightarrow> 'x root_info \<Rightarrow> ('x, 'i) signed_data \<Rightarrow> bytes \<Rightarrow>
    ((int + bytes) \<times> 'x root_info \<times> ('x, 'i) signed_data) option" where
  "GetHashFromSignBlock L helper info p srcData =
     (case ParsePkcs7Data L helper info p srcData of (ret, info1, p1) \<Rightarrow>
        if ret \<noteq> 0 then Some (Inl ret, info1, p1)
        else case Pkcs7_Verify L info1 p1 of
            None \<Rightarrow> None
          | Some r \<Rightarrow> if r \<noteq> 0 then Some (Inl r, info1, p1) else Some (Inr (p7_digest p1), info1, p1))"

text \<open>All signatures in a block; the codes of its failures begin at 200.\<close>

abbreviation (input) PKCS7_INIT_ERR :: int where "PKCS7_INIT_ERR \<equiv> 200"
abbreviation (input) PKCS7_INVALID_PARAM_ERR :: int where "PKCS7_INVALID_PARAM_ERR \<equiv> 201"
abbreviation (input) PKCS7_INVALID_VALUE_ERR :: int where "PKCS7_INVALID_VALUE_ERR \<equiv> 202"
abbreviation (input) PKCS7_HAS_NO_VALID_SIG_ERR :: int where "PKCS7_HAS_NO_VALID_SIG_ERR \<equiv> 203"

definition ReadSig :: "('x, 'i, 'n, 'k) openssl \<Rightarrow> 'x root_info \<Rightarrow> ('x, 'i) signed_data \<Rightarrow> bytes \<Rightarrow>
    (int + bytes list) \<times> 'x root_info \<times> ('x, 'i) signed_data" where
  "ReadSig L info p sourceData =
     (if length sourceData = 0 then (Inl PKCS7_INVALID_PARAM_ERR, info, p)
      else case Pkcs7_Init L info p sourceData of (ret, info1, p1) \<Rightarrow>
        if ret \<noteq> 0 then (Inl PKCS7_INIT_ERR, info1, p1)
        else (case Option.bind (p7_ptr p1) PKCS7_get_signer_info of
            None \<Rightarrow> Inl PKCS7_INVALID_VALUE_ERR
          | Some infos \<Rightarrow>
              if length infos = 0 then Inl PKCS7_INVALID_VALUE_ERR
              else let sigs = map digestEncryptData (List.map_filter (SignerInfoParse (generation p1)) infos) in
                if sigs = [] then Inl PKCS7_HAS_NO_VALID_SIG_ERR else Inr sigs, info1, p1))"

end
