(* ===== verification/Sign_Package.thy ===== *)
theory Sign_Package
  imports Sign_Parse Sign_Pkcs7
begin

text \<open>
  The signature of a package file (\<open>pkg_verify_util.cpp\<close>, \<open>hash_data_verifier.cpp\<close> under
  \<open>src/services/package/pkg_verify\<close>, \<open>VerifyDigest\<close> of \<open>pkg_algorithm/pkg_algo_sign.cpp\<close> and the two entries
  of \<open>pkg_manager/pkg_managerImpl.cpp\<close>). What is written to the log is left out, except for the file of
  recorded hashes. The outer None is undefined behaviour or a loop that never ends.
\<close>

section \<open>The state of a verification\<close>

text \<open>
  \<open>cert_file\<close> reads a certificate from a file of the given name, \<open>appendable\<close> tells whether the record
  of hashes can be opened. The state is the stream, the root certificate and the recorded hashes, None
  when the file does not exist.
\<close>

record ('s, 'x, 'i, 'n, 'k) sign_env =
  sops :: "'s stream_ops"
  ssl :: "('x, 'i, 'n, 'k) openssl"
  hash256 :: "bytes \<Rightarrow> bytes"
  helper :: "verify_helper option"
  cert_file :: "string \<Rightarrow> 'x option"
  appendable :: bool

record ('s, 'x) sign_state =
  src_stream :: 's
  root :: "'x root_info"
  hash_record :: "string option"

record verify_util =
  isOldSigSupport :: bool
  pkgParse :: pkg_parse

datatype pkg_type = PKG_TYPE_NONE | PKG_TYPE_UPGRADE | PKG_TYPE_ZIP | PKG_TYPE_LZ4 | PKG_TYPE_GZIP | PKG_TYPE_STREAM

definition PkgVerifyUtil_default :: verify_util where
  "PkgVerifyUtil_default = \<lparr>isOldSigSupport = True, pkgParse = ZipPkgParse\<rparr>"

text \<open>A type that is not in the table keeps the initial parser, that of zip files.\<close>

definition PkgVerifyUtil :: "pkg_type \<Rightarrow> bool \<Rightarrow> verify_util" where
  "PkgVerifyUtil pkgType old =
     \<lparr>isOldSigSupport = old, pkgParse = (if pkgType = PKG_TYPE_UPGRADE then BinPkgParse else ZipPkgParse)\<rparr>"

text \<open>A difference of two \<open>size_t\<close>.\<close>

definition size_minus :: "nat \<Rightarrow> nat \<Rightarrow> nat" where
  "size_minus a b = (a + 2 ^ 64 - b) mod 2 ^ 64"

section \<open>The signature\<close>

text \<open>Where it starts, how long it is, and how long the comment is.\<close>

definition ParsePackage :: "('s, 'x, 'i, 'n, 'k) sign_env \<Rightarrow> verify_util \<Rightarrow> 's \<Rightarrow> (int + nat \<times> nat \<times> u16) \<times> 's" where
  "ParsePackage env u s =
     (case ParsePkg (pkgParse u) (sops env) s of
        (Inl ret, s1) \<Rightarrow> (Inl ret, s1)
      | (Inr cm, s1) \<Rightarrow>
          (case op_GetFileLength (sops env) s1 of (fileLen, s2) \<Rightarrow>
             (Inr (size_minus fileLen (unat (signCommentAppendLen cm)), unat (signCommentAppendLen cm), signCommentTotalLen cm), s2)))"

definition GetSignature :: "('s, 'x, 'i, 'n, 'k) sign_env \<Rightarrow> verify_util \<Rightarrow> 's \<Rightarrow> (int + nat \<times> bytes \<times> u16) \<times> 's" where
  "GetSignature env u s =
     (case ParsePackage env u s of
        (Inl ret, s1) \<Rightarrow> (Inl (-1), s1)
      | (Inr (signatureStart, signatureSize, totalLen), s1) \<Rightarrow>
          if signatureSize < PKG_FOOTER_SIZE then (Inl (-1), s1)
          else case op_Read (sops env) s1 signatureStart (signatureSize - PKG_FOOTER_SIZE) of
              (Inl ret, s2) \<Rightarrow> (Inl ret, s2)
            | (Inr sig, s2) \<Rightarrow>
                (case op_GetFileLength (sops env) s2 of (fileLen, s3) \<Rightarrow>
                   if fileLen < signatureSize + GetFixedPartLen (pkgParse u) then (Inl PKG_INVALID_PARAM, s3)
                   else (Inr (signatureSize, sig, totalLen), s3)))"

definition PkgVerifyUtil_Pkcs7verify :: "('s, 'x, 'i, 'n, 'k) sign_env \<Rightarrow> 'x root_info \<Rightarrow> bytes \<Rightarrow> ((int + bytes) \<times> 'x root_info) option" where
  "PkgVerifyUtil_Pkcs7verify env info sig =
     map_option (\<lambda>(r, info1, p). (r, info1)) (GetHashFromSignBlock (ssl env) (helper env) info Pkcs7SignedData_new sig)"

section \<open>The hash of the package\<close>

abbreviation (input) HASH_CONTENT_SIZE :: nat where "HASH_CONTENT_SIZE \<equiv> 128"
abbreviation (input) INTERCEPT_HASH_LENGTH :: nat where "INTERCEPT_HASH_LENGTH \<equiv> 8"

text \<open>The file is not extended once it has a certain size. A failed write is not noticed.\<close>

definition RecordHash :: "bool \<Rightarrow> string \<Rightarrow> string \<Rightarrow> string option \<Rightarrow> string option" where
  "RecordHash can_append orgHash hash file =
     (if (case file of None \<Rightarrow> True | Some content \<Rightarrow> length content < HASH_CONTENT_SIZE) \<and> can_append
      then Some ((case file of None \<Rightarrow> [] | Some content \<Rightarrow> if content = [] then [] else content @ '','') @ orgHash @ '','' @ hash)
      else file)"

definition HashCheck :: "('s, 'x, 'i, 'n, 'k) sign_env \<Rightarrow> nat \<Rightarrow> bytes \<Rightarrow> ('s, 'x) sign_state \<Rightarrow> (int \<times> ('s, 'x) sign_state) option" where
  "HashCheck env dataLen hash st =
     (if dataLen = 0 then Some (PKG_INVALID_PARAM, st)
      else if length hash \<noteq> SHA256_DIGEST_LENGTH then Some (PKG_INVALID_PARAM, st)
      else case CalcSha256Digest (hash256 env) (sops env) (src_stream st) dataLen 0 of
          None \<Rightarrow> None
        | Some (Inl ret, s1) \<Rightarrow> Some (ret, st\<lparr>src_stream := s1\<rparr>)
        | Some (Inr sourceDigest, s1) \<Rightarrow>
            if hash \<noteq> sourceDigest
            then Some (PKG_INVALID_DIGEST, st\<lparr>src_stream := s1, hash_record :=
                   RecordHash (appendable env) (take INTERCEPT_HASH_LENGTH (ConvertShaHex hash))
                     (take INTERCEPT_HASH_LENGTH (ConvertShaHex sourceDigest)) (hash_record st)\<rparr>)
            else Some (PKG_SUCCESS, st\<lparr>src_stream := s1\<rparr>))"

definition get_length :: "('s, 'x, 'i, 'n, 'k) sign_env \<Rightarrow> ('s, 'x) sign_state \<Rightarrow> nat \<times> ('s, 'x) sign_state" where
  "get_length env st = (case op_GetFileLength (sops env) (src_stream st) of (n, s1) \<Rightarrow> (n, st\<lparr>src_stream := s1\<rparr>))"

text \<open>The two checks of stage 3: everything before the comment, or everything but the signature and the end record.\<close>

definition check_old_format :: "('s, 'x, 'i, 'n, 'k) sign_env \<Rightarrow> verify_util \<Rightarrow> bytes \<Rightarrow> u16 \<Rightarrow> ('s, 'x) sign_state \<Rightarrow> (int \<times> ('s, 'x) sign_state) option" where
  "check_old_format env u hash totalLen st =
     (case get_length env st of (fileLen, st1) \<Rightarrow>
        if isOldSigSupport u \<and> IsSupportOldSig (pkgParse u)
        then HashCheck env (size_minus (size_minus fileLen (unat totalLen)) 2) hash st1
        else Some (PKG_INVALID_DIGEST, st1))"

definition check_new_format :: "('s, 'x, 'i, 'n, 'k) sign_env \<Rightarrow> verify_util \<Rightarrow> bytes \<Rightarrow> nat \<Rightarrow> ('s, 'x) sign_state \<Rightarrow> (int \<times> ('s, 'x) sign_state) option" where
  "check_new_format env u hash signatureSize st =
     (case get_length env st of (fileLen, st1) \<Rightarrow>
        HashCheck env (size_minus (size_minus fileLen signatureSize) (GetFixedPartLen (pkgParse u))) hash st1)"

definition VerifyPackageSign :: "('s, 'x, 'i, 'n, 'k) sign_env \<Rightarrow> verify_util \<Rightarrow> ('s, 'x) sign_state \<Rightarrow> (int \<times> ('s, 'x) sign_state) option" where
  "VerifyPackageSign env u st =
     (case GetSignature env u (src_stream st) of
        (Inl _, s1) \<Rightarrow> Some (PKG_INVALID_SIGNATURE, st\<lparr>src_stream := s1\<rparr>)
      | (Inr (signatureSize, sig, totalLen), s1) \<Rightarrow>
          (case PkgVerifyUtil_Pkcs7verify env (root st) sig of
             None \<Rightarrow> None
           | Some (Inl ret, info1) \<Rightarrow> Some (ret, st\<lparr>src_stream := s1, root := info1\<rparr>)
           | Some (Inr hash, info1) \<Rightarrow>
               (case check_old_format env u hash totalLen (st\<lparr>src_stream := s1, root := info1\<rparr>) of
                  None \<Rightarrow> None
                | Some (ret, st1) \<Rightarrow>
                    if ret \<noteq> PKG_SUCCESS then check_new_format env u hash signatureSize st1 else Some (ret, st1))))"

section \<open>The signature of an accessory package\<close>

definition SignAlgorithm_VerifyDigest :: "('s, 'x, 'i, 'n, 'k) sign_env \<Rightarrow> string \<Rightarrow> bytes \<Rightarrow> bytes \<Rightarrow> int" where
  "SignAlgorithm_VerifyDigest env keyName digest sig =
     (case cert_file env keyName of
        None \<Rightarrow> PKG_INVALID_SIGNATURE
      | Some rcert \<Rightarrow> (case X509_get_pubkey (ssl env) rcert of
          None \<Rightarrow> PKG_INVALID_SIGNATURE
        | Some pubKey \<Rightarrow>
            if VerifyDigestByPubKey (ssl env) (Some pubKey) (int NID_sha256) digest sig \<noteq> 0 then PKG_INVALID_SIGNATURE else 0))"

abbreviation (input) PKG_VERIFY_FAIL :: int where "PKG_VERIFY_FAIL \<equiv> 114"

definition VerifySourceDigest :: "('s, 'x, 'i, 'n, 'k) sign_env \<Rightarrow> 'x root_info \<Rightarrow> bytes \<Rightarrow> bytes \<Rightarrow> string \<Rightarrow> int \<times> 'x root_info" where
  "VerifySourceDigest env info sig sourceDigest keyPath =
     (case ReadSig (ssl env) info Pkcs7SignedData_new sig of
        (Inl ret, info1, p) \<Rightarrow> (ret, info1)
      | (Inr sigs, info1, p) \<Rightarrow>
          (if list_ex (\<lambda>sg. SignAlgorithm_VerifyDigest env keyPath sourceDigest sg = 0) sigs then PKG_SUCCESS else PKG_VERIFY_FAIL, info1))"

text \<open>
  A buffer of more than the largest \<open>ptrdiff_t\<close> cannot be made: the exception is not caught. A failed
  read leaves nothing to verify.
\<close>

definition VerifyAccPackageSign :: "('s, 'x, 'i, 'n, 'k) sign_env \<Rightarrow> verify_util \<Rightarrow> string \<Rightarrow> ('s, 'x) sign_state \<Rightarrow> (int \<times> ('s, 'x) sign_state) option" where
  "VerifyAccPackageSign env u keyPath st =
     (case GetSignature env u (src_stream st) of
        (Inl _, s1) \<Rightarrow> Some (PKG_INVALID_SIGNATURE, st\<lparr>src_stream := s1\<rparr>)
      | (Inr (signatureSize, sig, totalLen), s1) \<Rightarrow>
          (case op_GetFileLength (sops env) s1 of (fileLen, s2) \<Rightarrow>
             let srcDataLen = size_minus (size_minus fileLen (unat totalLen)) 2 in
             if 2 ^ 63 \<le> srcDataLen then None
             else case op_Read (sops env) s2 0 srcDataLen of (r, s3) \<Rightarrow>
               let sourceDigest = (case r of Inl _ \<Rightarrow> [] | Inr xs \<Rightarrow> xs) in
               case VerifySourceDigest env (root st) sig sourceDigest keyPath of (ret, info1) \<Rightarrow>
                 Some (ret, st\<lparr>src_stream := s3, root := info1\<rparr>)))"

section \<open>The entries of the package manager\<close>

text \<open>\<open>created\<close> is the stream made for the file, or the code of the failure.\<close>

definition PkgManager_VerifyOtaPackage :: "('s, 'x, 'i, 'n, 'k) sign_env \<Rightarrow> pkg_type \<Rightarrow> bool \<Rightarrow> int + 's \<Rightarrow>
    'x root_info \<Rightarrow> string option \<Rightarrow> (int \<times> 'x root_info \<times> string option) option" where
  "PkgManager_VerifyOtaPackage env pkgType old created info rec =
     (case created of
        Inl ret \<Rightarrow> Some (ret, info, rec)
      | Inr s \<Rightarrow> map_option (\<lambda>(ret, st). (ret, root st, hash_record st))
          (VerifyPackageSign env (PkgVerifyUtil pkgType old) \<lparr>src_stream = s, root = info, hash_record = rec\<rparr>))"

definition PkgManager_VerifyAccPackage :: "('s, 'x, 'i, 'n, 'k) sign_env \<Rightarrow> string \<Rightarrow> int + 's \<Rightarrow>
    'x root_info \<Rightarrow> string option \<Rightarrow> (int \<times> 'x root_info \<times> string option) option" where
  "PkgManager_VerifyAccPackage env keyPath created info rec =
     (case created of
        Inl ret \<Rightarrow> Some (ret, info, rec)
      | Inr s \<Rightarrow>
          map_option (\<lambda>(ret, st). (ret, root st, hash_record st))
          (case VerifyPackageSign env PkgVerifyUtil_default \<lparr>src_stream = s, root = info, hash_record = rec\<rparr> of
             None \<Rightarrow> None
           | Some (ret, st) \<Rightarrow> if ret \<noteq> PKG_SUCCESS then VerifyAccPackageSign env PkgVerifyUtil_default keyPath st else Some (PKG_SUCCESS, st)))"

text \<open>A package on a device: the pages mapped, and the package in them.\<close>

definition VerifyOtaPackage_on_device :: "('s, 'x, 'i, 'n, 'k) sign_env \<Rightarrow> u64 \<Rightarrow> u64 \<Rightarrow> bool \<Rightarrow> bool \<Rightarrow>
    (u64 \<Rightarrow> u64 \<Rightarrow> bytes option) \<Rightarrow> (bytes \<Rightarrow> int + 's) \<Rightarrow> 'x root_info \<Rightarrow> string option \<Rightarrow> (int \<times> 'x root_info \<times> string option) option" where
  "VerifyOtaPackage_on_device env offset sz resolved opened mmap create info rec =
     (let offsetAligned = offset div 4096 * 4096 in
      if sz = 0 \<or> sz + offset < offsetAligned \<or> offset < offsetAligned then Some (PKG_INVALID_PARAM, info, rec)
      else if \<not> resolved then Some (PKG_INVALID_PARAM, info, rec)
      else if \<not> opened then Some (PKG_INVALID_FILE, info, rec)
      else case mmap offsetAligned (sz + offset - offsetAligned) of
          None \<Rightarrow> Some (PKG_NONE_MEMORY, info, rec)
        | Some pages \<Rightarrow>
            if length pages < unat (offset - offsetAligned) + unat sz then None
            else case create (slice (unat (offset - offsetAligned)) (unat sz) pages) of
                Inl ret \<Rightarrow> Some (ret, info, rec)
              | Inr s \<Rightarrow> map_option (\<lambda>(ret, st). (ret, root st, hash_record st))
                  (VerifyPackageSign env PkgVerifyUtil_default \<lparr>src_stream = s, root = info, hash_record = rec\<rparr>))"

section \<open>Files that are signed one by one\<close>

text \<open>
  \<open>HashDataVerifier\<close> checks a file against the list of signatures in the package, with the certificates of
  the package. The list is read by the Rust functions of the parameter \<open>hash_list\<close>; the manager
  unpacks it.
\<close>

record ('h, 's) hash_list =
  LoadHashSignedData :: "bytes \<Rightarrow> 'h option"
  GetSigFromHashData :: "'h option \<Rightarrow> nat \<Rightarrow> string \<Rightarrow> nat \<times> bytes"
  open_package :: "string \<Rightarrow> 's option"
  package_type :: "string \<Rightarrow> pkg_type"
  hash_file_size :: "nat option"
  has_buffer_stream :: bool
  extract_hash_file :: "nat \<Rightarrow> bytes option"

record ('x, 'i, 'h) hash_verifier =
  has_manager :: bool
  isNeedVerify :: bool
  verifier_pkcs7 :: "('x, 'i) signed_data"
  hsd :: "'h option"

definition HashDataVerifier :: "bool \<Rightarrow> ('x, 'i, 'h) hash_verifier" where
  "HashDataVerifier manager = \<lparr>has_manager = manager, isNeedVerify = True, verifier_pkcs7 = Pkcs7SignedData_new, hsd = None\<rparr>"

definition LoadPkcs7FromPackage :: "('s, 'x, 'i, 'n, 'k) sign_env \<Rightarrow> ('h, 's) hash_list \<Rightarrow> string \<Rightarrow> 'x root_info \<Rightarrow>
    ('x, 'i, 'h) hash_verifier \<Rightarrow> bool \<times> 'x root_info \<times> ('x, 'i, 'h) hash_verifier" where
  "LoadPkcs7FromPackage env hl pkgPath info v =
     (case open_package hl pkgPath of
        None \<Rightarrow> (False, info, v)
      | Some s \<Rightarrow> (case GetSignature env (PkgVerifyUtil (package_type hl pkgPath) True) s of
          (Inl _, _) \<Rightarrow> (False, info, v)
        | (Inr (_, sig, _), _) \<Rightarrow>
            (case ParsePkcs7Data (ssl env) (helper env) info (verifier_pkcs7 v) sig of (ret, info1, p) \<Rightarrow>
               (ret = 0, info1, v\<lparr>verifier_pkcs7 := p\<rparr>))))"

definition LoadHashDataFromPackage :: "('h, 's) hash_list \<Rightarrow> ('x, 'i, 'h) hash_verifier \<Rightarrow> bool \<times> ('x, 'i, 'h) hash_verifier" where
  "LoadHashDataFromPackage hl v =
     (case hash_file_size hl of
        None \<Rightarrow> (False, v)
      | Some unpackedSize \<Rightarrow>
          if unpackedSize = 0 then (False, v)
          else if \<not> has_buffer_stream hl then (False, v)
          else case extract_hash_file hl (unpackedSize + 1) of
              None \<Rightarrow> (False, v)
            | Some buffer \<Rightarrow> (LoadHashSignedData hl buffer \<noteq> None, v\<lparr>hsd := LoadHashSignedData hl buffer\<rparr>))"

definition LoadHashDataFromPackage_buffer :: "('h, 's) hash_list \<Rightarrow> bytes \<Rightarrow> ('x, 'i, 'h) hash_verifier \<Rightarrow> bool \<times> ('x, 'i, 'h) hash_verifier" where
  "LoadHashDataFromPackage_buffer hl buffer v =
     (if length buffer = 0 then (False, v) else (True, v\<lparr>hsd := LoadHashSignedData hl buffer\<rparr>))"

definition UPDATRE_SCRIPT_ZIP :: string where
  "UPDATRE_SCRIPT_ZIP = ''/etc/updater_script.zip''"

definition LoadHashDataAndPkcs7 :: "('s, 'x, 'i, 'n, 'k) sign_env \<Rightarrow> ('h, 's) hash_list \<Rightarrow> string \<Rightarrow> 'x root_info \<Rightarrow>
    ('x, 'i, 'h) hash_verifier \<Rightarrow> bool \<times> 'x root_info \<times> ('x, 'i, 'h) hash_verifier" where
  "LoadHashDataAndPkcs7 env hl pkgPath info v =
     (if pkgPath = UPDATRE_SCRIPT_ZIP then (True, info, v\<lparr>isNeedVerify := False\<rparr>)
      else if hsd v \<noteq> None then (True, info, v)
      else if \<not> has_manager v then (False, info, v)
      else case LoadPkcs7FromPackage env hl pkgPath info v of (loaded, info1, v1) \<Rightarrow>
        if \<not> loaded then (False, info1, v1)
        else case LoadHashDataFromPackage hl v1 of (r, v2) \<Rightarrow> (r, info1, v2))"

abbreviation (input) MAX_SIG_SIZE :: nat where "MAX_SIG_SIZE \<equiv> 1024"

text \<open>\<open>stream\<close> is None for a null pointer.\<close>

definition VerifyHashData :: "('s, 'x, 'i, 'n, 'k) sign_env \<Rightarrow> ('h, 's) hash_list \<Rightarrow> 'x root_info \<Rightarrow> ('x, 'i, 'h) hash_verifier \<Rightarrow>
    string \<Rightarrow> string \<Rightarrow> 's option \<Rightarrow> bool option" where
  "VerifyHashData env hl info v preName fileName stream =
     (if \<not> isNeedVerify v then Some True
      else case stream of
          None \<Rightarrow> Some False
        | Some s \<Rightarrow> (case op_GetFileLength (sops env) s of (fileLen, s1) \<Rightarrow>
            (case CalcSha256Digest (hash256 env) (sops env) s1 fileLen 0 of
               None \<Rightarrow> None
             | Some (Inl _, _) \<Rightarrow> Some False
             | Some (Inr hash, _) \<Rightarrow>
                 (case GetSigFromHashData hl (hsd v) MAX_SIG_SIZE (preName @ fileName) of (sigLen, sig) \<Rightarrow>
                    if sigLen = 0 \<or> MAX_SIG_SIZE < sigLen then Some False
                    else map_option (\<lambda>r. r = 0)
                      (Pkcs7_Verify_hash (ssl env) info (verifier_pkcs7 v) hash (Some (take sigLen (filled MAX_SIG_SIZE sig))))))))"

end
