(* ===== verification/Sign_Laws.thy ===== *)
theory Sign_Laws
  imports Sign_Package
begin

text \<open>
  Laws of the signature verification: what an accepted block says, where the parsers find it in the
  file, and which bytes the hash covers. The laws about files are proved for any stream that can be
  read at any position (\<open>seekable_stream\<close>).
\<close>

section \<open>The signature block\<close>

text \<open>\<open>cert\<close> has the names of the root certificate and is signed with the key of the root.\<close>

definition trusted :: "('x, 'i, 'n, 'k) openssl \<Rightarrow> 'x \<Rightarrow> bool" where
  "trusted L cert \<longleftrightarrow> (\<exists>r k. root_cert_file L = Some r \<and> X509_get_pubkey L r = Some k \<and> X509_verify L cert k
     \<and> GetX509CertSubjectName L cert = GetX509CertSubjectName L r \<and> GetX509CertIssuerName L cert = GetX509CertIssuerName L r)"

text \<open>\<open>p7\<close> has a signer with a trusted certificate, whose signature \<open>sig\<close> (or the one given) is for \<open>hash\<close>.\<close>

definition vouches :: "('x, 'i, 'n, 'k) openssl \<Rightarrow> ('x, 'i) pkcs7 \<Rightarrow> bytes \<Rightarrow> bytes option \<Rightarrow> bool" where
  "vouches L p7 hash sig \<longleftrightarrow> (\<exists>signData certs infos si signer cert key.
     p7_sign p7 = Some signData \<and> cert_stack signData = Some certs \<and> signer_infos signData = Some infos \<and> si \<in> set infos
     \<and> SignerInfoParse 1 si = Some signer \<and> X509_find_by_issuer_and_serial L certs (signer_id signer) = Some cert
     \<and> trusted L cert \<and> X509_get_pubkey L cert = Some key
     \<and> EVP_DigestVerify L key (digestNid signer) hash (case sig of None \<Rightarrow> digestEncryptData signer | Some s \<Rightarrow> s))"

definition signed_hash :: "('x, 'i, 'n, 'k) openssl \<Rightarrow> bytes \<Rightarrow> bytes \<Rightarrow> bool" where
  "signed_hash L blk hash \<longleftrightarrow> (\<exists>p7 signData. d2i_PKCS7_bio L blk = Some p7 \<and> p7_type p7 = NID_pkcs7_signed
     \<and> p7_sign p7 = Some signData
     \<and> contents signData = Some (NID_pkcs7_data, Some (Some (WriteLE16 (of_nat NID_sha256) @ WriteLE16 (of_nat SHA256_DIGEST_LENGTH) @ hash)))
     \<and> length hash = SHA256_DIGEST_LENGTH \<and> vouches L p7 hash None)"

definition root_loaded :: "('x, 'i, 'n, 'k) openssl \<Rightarrow> 'x root_info \<Rightarrow> bool" where
  "root_loaded L info \<longleftrightarrow> (\<exists>r. root_cert_file L = Some r \<and> info = \<lparr>rootCert = Some r,
     subject = GetX509CertSubjectName L r, issuer = GetX509CertIssuerName L r\<rparr>)"

text \<open>An object that has read one block with the default helper, and nothing before.\<close>

definition parsed_block :: "('x, 'i, 'n, 'k) openssl \<Rightarrow> bytes \<Rightarrow> ('x, 'i) pkcs7 \<Rightarrow> ('x, 'i) signed_data \<Rightarrow> bool" where
  "parsed_block L blk p7 p \<longleftrightarrow> (\<exists>signData infos. d2i_PKCS7_bio L blk = Some p7 \<and> p7_type p7 = NID_pkcs7_signed
     \<and> p7_ptr p = Some p7 \<and> generation p = 1 \<and> p7_sign p7 = Some signData \<and> signer_infos signData = Some infos
     \<and> signerInfos p = List.map_filter (SignerInfoParse 1) infos
     \<and> overall (signatureInfo p) = \<lparr>db_buffer = [], db_length = 0\<rparr>
     \<and> contents signData = Some (NID_pkcs7_data, Some (Some (WriteLE16 (of_nat NID_sha256) @ WriteLE16 (of_nat SHA256_DIGEST_LENGTH) @ p7_digest p)))
     \<and> length (p7_digest p) = SHA256_DIGEST_LENGTH)"

lemma two_bytes: "length b = 2 \<Longrightarrow> ReadLE16 (b @ c) 0 = Some v \<Longrightarrow> b = WriteLE16 v"
proof -
  assume "length b = 2" and r: "ReadLE16 (b @ c) 0 = Some v"
  then obtain x y where b: "b = [x, y]" by (auto simp: length_Suc_conv numeral_2_eq_2)
  have v: "v = ucast x + push_bit 8 (ucast y)" using r by (simp add: ReadLE16_def b)
  have u: "unat v = unat x + 256 * unat y"
    using unat_byte [of x] unat_byte [of y] unfolding v by (simp add: unat_word_ariths push_bit_eq_mult unat_ucast_u8)
  have "unat v < 65536" using unsigned_less [of v] by simp
  then have d: "unat (drop_bit 8 v) = unat v div 256"
    by (simp only: unsigned_drop_bit_eq) (simp add: drop_bit_eq_div take_bit_nat_eq_self)
  have "ucast v = x"
    by (rule unsigned_word_eqI [where 'a = nat])
      (use u unat_byte [of x] in \<open>simp add: unsigned_ucast_eq take_bit_eq_mod\<close>)
  moreover have "ucast (drop_bit 8 v) = y"
    by (rule unsigned_word_eqI [where 'a = nat])
      (use u unat_byte [of x] unat_byte [of y] d in \<open>simp add: unsigned_ucast_eq take_bit_eq_mod\<close>)
  ultimately show "b = WriteLE16 v" by (simp add: b WriteLE16_def)
qed

lemma ReadLE16_total: "i + 2 \<le> length b \<Longrightarrow> ReadLE16 b i = Some (the (ReadLE16 b i))"
  by (simp add: ReadLE16_def)

lemma ReadLE16_at: "ReadLE16 b i = ReadLE16 (drop i b) 0" if "i \<le> length b"
  using that by (auto simp: ReadLE16_def)

text \<open>A number at some place of a buffer is its two bytes.\<close>

lemma ReadLE16_bytes:
  assumes "i + 2 \<le> length b" "the (ReadLE16 b i) = v"
  shows "slice i 2 b = WriteLE16 v"
proof -
  have "ReadLE16 (slice i 2 b @ drop 2 (drop i b)) 0 = Some v"
    using ReadLE16_total [OF assms(1)] ReadLE16_at [of i b] assms unfolding slice_def append_take_drop_id by simp
  then show ?thesis by (rule two_bytes [rotated]) (use assms(1) in simp)
qed

lemma digest_from_contents:
  assumes "GetDigestFromContentInfo p b = (0, p')"
  shows "p' = p\<lparr>p7_digest := drop 4 b\<rparr> \<and> length (drop 4 b) = SHA256_DIGEST_LENGTH
     \<and> b = WriteLE16 (of_nat NID_sha256) @ WriteLE16 (of_nat SHA256_DIGEST_LENGTH) @ drop 4 b"
proof -
  let ?a = "the (ReadLE16 b 0)" and ?n = "the (ReadLE16 b 2)"
  have len: "4 < length b" and n: "GetDigestLength (unat ?a) = unat ?n" "unat ?n + 4 = length b" and p': "p' = p\<lparr>p7_digest := drop 4 b\<rparr>"
    using assms by (auto simp: GetDigestFromContentInfo_def Let_def split: if_splits)
  then have "unat ?a = 672" "unat ?n = 32" by (auto simp: GetDigestLength_def split: if_splits)
  then have v: "?a = of_nat NID_sha256" "?n = of_nat SHA256_DIGEST_LENGTH"
    by (simp_all add: word_unat_eq_iff)
  have "slice 0 2 b = WriteLE16 (of_nat NID_sha256)" "slice 2 2 b = WriteLE16 (of_nat SHA256_DIGEST_LENGTH)"
    by (rule ReadLE16_bytes; use len v in simp)+
  moreover have "b = slice 0 2 b @ slice 2 2 b @ drop 4 b"
    by (simp add: slice_def flip: append_assoc take_add)
  ultimately show ?thesis using p' n \<open>unat ?n = 32\<close> by simp
qed

lemma ParsePkcs7Data_new:
  assumes "ParsePkcs7Data L (Some Pkcs7VerifyHelper) info Pkcs7SignedData_new blk = (0, info', p)"
  shows "root_loaded L info' \<and> (\<exists>p7. parsed_block L blk p7 p)"
proof -
  obtain p1 where i: "Pkcs7_Init L info Pkcs7SignedData_new blk = (0, info', p1)"
    and d: "case p7_ptr p1 of None \<Rightarrow> False | Some p7 \<Rightarrow> DoParse (Some Pkcs7VerifyHelper) p1 p7 = (0, p)"
    using assms by (auto simp: ParsePkcs7Data_def split: if_splits prod.splits option.splits)
  obtain p7 where p7: "d2i_PKCS7_bio L blk = Some p7" "p7_type p7 = NID_pkcs7_signed"
      and p1: "p1 = Pkcs7SignedData_new\<lparr>p7_ptr := Some p7, generation := 1\<rparr>" and r: "root_loaded L info'"
    using i by (auto simp: Pkcs7_Init_def Let_def InitRootCert_def root_loaded_def Pkcs7SignedData_new_def
        split: if_splits prod.splits option.splits)
  have "DoParse (Some Pkcs7VerifyHelper) p1 p7 = (0, p)" using d by (simp add: p1)
  then obtain b p2 where b: "ParseContentInfo p7 = Some b" "GetDigestFromContentInfo p1 b = (0, p2)" "SignerInfosParse p2 p7 = (0, p)"
    by (auto simp: DoParse_def GetDigest_def Pkcs7VerifyHelper_def Let_def split: option.splits prod.splits if_splits)
  have p2: "p2 = p1\<lparr>p7_digest := drop 4 b\<rparr>" "length (drop 4 b) = SHA256_DIGEST_LENGTH"
      "b = WriteLE16 (of_nat NID_sha256) @ WriteLE16 (of_nat SHA256_DIGEST_LENGTH) @ drop 4 b"
    using digest_from_contents [OF b(2)] by simp_all
  obtain sd where sd: "p7_sign p7 = Some sd" "contents sd = Some (NID_pkcs7_data, Some (Some b))"
    using b(1) by (auto simp: ParseContentInfo_def GetASN1OctetStringData_def split: option.splits if_splits)
  obtain infos where infos: "signer_infos sd = Some infos"
      "p = p2\<lparr>signerInfos := signerInfos p2 @ List.map_filter (SignerInfoParse (generation p2)) infos\<rparr>"
    using b(3) sd(1) by (auto simp: SignerInfosParse_def PKCS7_get_signer_info_def split: option.splits if_splits)
  have "parsed_block L blk p7 p"
    using p7 sd infos p2 unfolding parsed_block_def by (auto simp: p1 Pkcs7SignedData_new_def)
  then show ?thesis using r by blast
qed

lemma signer_accepted:
  assumes "root_loaded L info" "parsed_block L blk p7 p" "signer \<in> set (signerInfos p)"
  shows "\<exists>r. Pkcs7SignleSignerVerify L info p signer hash (case sig of None \<Rightarrow> digestEncryptData signer | Some s \<Rightarrow> s) = Some r
     \<and> (r = 0 \<longrightarrow> vouches L p7 hash sig)"
proof -
  obtain sd infos where p: "p7_ptr p = Some p7" "generation p = 1" "p7_sign p7 = Some sd" "signer_infos sd = Some infos"
      "signerInfos p = List.map_filter (SignerInfoParse 1) infos"
    using assms(2) unfolding parsed_block_def by blast
  then obtain si where si: "si \<in> set infos" "SignerInfoParse 1 si = Some signer"
    using assms(3) by (auto simp: List.map_filter_def)
  have gen: "signer_of signer = 1"
    using si(2) by (auto simp: SignerInfoParse_def split: option.splits)
  obtain r where r: "root_cert_file L = Some r"
      "info = \<lparr>rootCert = Some r, subject = GetX509CertSubjectName L r, issuer = GetX509CertIssuerName L r\<rparr>"
    using assms(1) by (auto simp: root_loaded_def)
  let ?sig = "case sig of None \<Rightarrow> digestEncryptData signer | Some s \<Rightarrow> s"
  show ?thesis
  proof (cases "cert_stack sd")
    case None
    then show ?thesis using p by (simp add: Pkcs7SignleSignerVerify_def)
  next
    case (Some certs)
    note certs = this
    show ?thesis
    proof (cases "X509_find_by_issuer_and_serial L certs (signer_id signer)")
      case None
      then show ?thesis using p certs gen by (simp add: Pkcs7SignleSignerVerify_def)
    next
      case (Some cert)
      note cert = this
      have run: "Pkcs7SignleSignerVerify L info p signer hash ?sig =
          (if VerifySingleCert L info cert \<noteq> 0 then Some (-1) else Some (Pkcs7_VerifyDigest L cert signer hash ?sig))"
        using p certs gen cert by (simp add: Pkcs7SignleSignerVerify_def CertChainCheck_def)
      have t: "trusted L cert" if "VerifySingleCert L info cert = 0"
        using that r unfolding trusted_def
        by (auto simp: VerifySingleCert_def CompareCertSubjectAndIssuer_def VerifyX509CertByIssuerCert_def split: if_splits option.splits)
      have k: "\<exists>key. X509_get_pubkey L cert = Some key \<and> EVP_DigestVerify L key (digestNid signer) hash ?sig"
        if "Pkcs7_VerifyDigest L cert signer hash ?sig = 0"
        using that by (auto simp: Pkcs7_VerifyDigest_def VerifyDigestByPubKey_def split: option.splits if_splits)
      have "vouches L p7 hash sig" if "VerifySingleCert L info cert = 0" "Pkcs7_VerifyDigest L cert signer hash ?sig = 0"
        using t [OF that(1)] k [OF that(2)] p(3,4) si certs cert unfolding vouches_def by blast
      then show ?thesis unfolding run by auto
    qed
  qed
qed

lemma verify_signers_accepted:
  assumes "root_loaded L info" "parsed_block L blk p7 p" "set signers \<subseteq> set (signerInfos p)" "ret \<noteq> 0"
  shows "\<exists>r. verify_signers L info p hash sig ret signers = Some r \<and> (r = 0 \<longrightarrow> vouches L p7 hash sig)"
  using assms(3,4)
proof (induction signers arbitrary: ret)
  case Nil
  then show ?case by simp
next
  case (Cons signer rest)
  obtain r where r: "Pkcs7SignleSignerVerify L info p signer hash (case sig of None \<Rightarrow> digestEncryptData signer | Some s \<Rightarrow> s) = Some r"
      "r = 0 \<longrightarrow> vouches L p7 hash sig"
    using signer_accepted [OF assms(1,2)] Cons.prems by (metis list.set_intros(1) subsetD)
  show ?case
  proof (cases "r = 0")
    case True
    then show ?thesis using r by simp
  next
    case False
    then show ?thesis using r(1) Cons.IH [of r] Cons.prems by simp
  qed
qed

lemma Verify_hash_accepted:
  assumes "root_loaded L info" "parsed_block L blk p7 p"
  shows "\<exists>r. Pkcs7_Verify_hash L info p hash sig = Some r \<and> (r = 0 \<longrightarrow> vouches L p7 hash sig)"
  using verify_signers_accepted [OF assms subset_refl, of "-1"] by (simp add: Pkcs7_Verify_hash_def)

text \<open>Reading a block is defined for every input, and a hash it gives has been signed.\<close>

lemma GetHashFromSignBlock_new:
  shows "\<exists>r info' p. GetHashFromSignBlock L (Some Pkcs7VerifyHelper) info Pkcs7SignedData_new blk = Some (r, info', p)
     \<and> (\<forall>hash. r = Inr hash \<longrightarrow> signed_hash L blk hash)"
proof -
  obtain ret info1 p1 where parse: "ParsePkcs7Data L (Some Pkcs7VerifyHelper) info Pkcs7SignedData_new blk = (ret, info1, p1)"
    by (metis prod_cases3)
  show ?thesis
  proof (cases "ret = 0")
    case False
    then show ?thesis using parse by (simp add: GetHashFromSignBlock_def)
  next
    case True
    then obtain p7 where p7: "root_loaded L info1" "parsed_block L blk p7 p1"
      using ParsePkcs7Data_new parse by blast
    have none: "overall (signatureInfo p1) = \<lparr>db_buffer = [], db_length = 0\<rparr>" using p7(2) by (auto simp: parsed_block_def)
    obtain r where r: "Pkcs7_Verify_hash L info1 p1 (p7_digest p1) None = Some r" "r = 0 \<longrightarrow> vouches L p7 (p7_digest p1) None"
      using Verify_hash_accepted [OF p7] by blast
    have "Pkcs7_Verify L info1 p1 = Some r"
      using r(1) by (simp add: Pkcs7_Verify_def none Pkcs7_Verify_hash_def)
    moreover have "r = 0 \<longrightarrow> signed_hash L blk (p7_digest p1)"
      using r(2) p7(2) unfolding signed_hash_def parsed_block_def by metis
    ultimately show ?thesis using parse True by (simp add: GetHashFromSignBlock_def)
  qed
qed

section \<open>The signature in the file\<close>

text \<open>The last six bytes of a signed package, and the end record of a signed zip file.\<close>

definition footer_of :: "bytes \<Rightarrow> sign_comment \<Rightarrow> bool" where
  "footer_of content cm \<longleftrightarrow>
     slice (length content - PKG_FOOTER_SIZE) PKG_FOOTER_SIZE content
       = WriteLE16 (signCommentAppendLen cm) @ [0xFF, 0xFF] @ WriteLE16 (signCommentTotalLen cm)
     \<and> PKG_FOOTER_SIZE \<le> unat (signCommentAppendLen cm) \<and> signCommentAppendLen cm \<le> signCommentTotalLen cm
     \<and> unat (signCommentTotalLen cm) < length content"

definition eocd_of :: "bytes \<Rightarrow> sign_comment \<Rightarrow> bool" where
  "eocd_of content cm \<longleftrightarrow> (let start = length content - ZIP_EOCD_FIXED_PART_LEN - unat (signCommentTotalLen cm) in
     ZIP_EOCD_FIXED_PART_LEN + unat (signCommentTotalLen cm) < length content
     \<and> slice start 4 content = ZIP_EOCD_SIGNATURE_BIG_ENDIAN
     \<and> slice (start + ZIP_EOCD_LEN_EXCLUDE_COMMENT) 2 content = WriteLE16 (signCommentTotalLen cm)
     \<and> (\<forall>i > start. slice i 4 content \<noteq> ZIP_EOCD_SIGNATURE_BIG_ENDIAN))"

fun signed_as :: "pkg_parse \<Rightarrow> bytes \<Rightarrow> sign_comment \<Rightarrow> bool" where
  "signed_as ZipPkgParse content cm = (footer_of content cm \<and> eocd_of content cm)"
| "signed_as BinPkgParse content cm = footer_of content cm"

lemma ParsePkgFooter_spec:
  assumes "ParsePkgFooter b = Inr cm" "length b = PKG_FOOTER_SIZE"
  shows "b = WriteLE16 (signCommentAppendLen cm) @ [0xFF, 0xFF] @ WriteLE16 (signCommentTotalLen cm)
     \<and> PKG_FOOTER_SIZE \<le> unat (signCommentAppendLen cm) \<and> signCommentAppendLen cm \<le> signCommentTotalLen cm"
proof -
  have f: "the (ReadLE16 b 0) = signCommentAppendLen cm" "the (ReadLE16 b 2) = PKG_ZIP_EOCD_FOOTER_FLAG"
      "the (ReadLE16 b 4) = signCommentTotalLen cm" "PKG_FOOTER_SIZE \<le> unat (signCommentAppendLen cm)"
      "signCommentAppendLen cm \<le> signCommentTotalLen cm"
    using assms(1) by (auto simp: ParsePkgFooter_def Let_def split: if_splits)
  have "slice 0 2 b = WriteLE16 (signCommentAppendLen cm)" "slice 2 2 b = WriteLE16 PKG_ZIP_EOCD_FOOTER_FLAG"
      "slice 4 2 b = WriteLE16 (signCommentTotalLen cm)"
    by (rule ReadLE16_bytes; use assms(2) f in simp)+
  moreover have "WriteLE16 PKG_ZIP_EOCD_FOOTER_FLAG = [0xFF, 0xFF]" by code_simp
  moreover have "b = slice 0 2 b @ slice 2 2 b @ slice 4 2 b"
    using assms(2) by (simp add: slice_def flip: append_assoc take_add)
  ultimately show ?thesis using f(4,5) by simp
qed

lemma slice_4: "i + 4 \<le> length b \<Longrightarrow> slice i 4 b = [b ! i, b ! (i + 1), b ! (i + 2), b ! (i + 3)]"
  by (simp add: numeral_eq_Suc slice_first)

lemma marker_bytes: "i + 4 \<le> length b \<Longrightarrow>
    slice i 4 b = ZIP_EOCD_SIGNATURE_BIG_ENDIAN \<longleftrightarrow> b ! i = ZIP_EOCD_SIGNATURE_BIG_ENDIAN ! 0 \<and> b ! (i + 1) = ZIP_EOCD_SIGNATURE_BIG_ENDIAN ! 1
       \<and> b ! (i + 2) = ZIP_EOCD_SIGNATURE_BIG_ENDIAN ! 2 \<and> b ! (i + 3) = ZIP_EOCD_SIGNATURE_BIG_ENDIAN ! 3"
proof -
  assume i: "i + 4 \<le> length b"
  have "slice i 4 b = [b ! i, b ! (i + 1), b ! (i + 2), b ! (i + 3)]"
    by (rule slice_4 [OF i])
  then show ?thesis by (simp add: ZIP_EOCD_SIGNATURE_BIG_ENDIAN_def)
qed

lemma byte_digit: "a + 256 * r = n \<Longrightarrow> a < 256 \<Longrightarrow> a = n mod 256 \<and> r = n div (256 :: nat)"
  by auto

lemma four_bytes: "4 \<le> length b \<Longrightarrow> ReadLE32 b 0 = Some v \<Longrightarrow> v = ZIP_EOCD_SIGNATURE \<Longrightarrow> slice 0 4 b = ZIP_EOCD_SIGNATURE_BIG_ENDIAN"
proof -
  assume len: "4 \<le> length b" and r: "ReadLE32 b 0 = Some v" and v: "v = ZIP_EOCD_SIGNATURE"
  have "le_value (slice 0 4 b) = unat ZIP_EOCD_SIGNATURE" using unat_ReadLE32 [OF r] v by simp
  moreover have s: "slice 0 4 b = [b ! 0, b ! 1, b ! 2, b ! 3]"
    using slice_4 [of 0 b] len by (simp add: numeral_2_eq_2)
  ultimately have n: "unat (b ! 0) + 256 * (unat (b ! 1) + 256 * (unat (b ! 2) + 256 * unat (b ! 3))) = 101010256"
    by simp
  have "unat (b ! 0) = 0x50" "unat (b ! 1) = 0x4b" "unat (b ! 2) = 0x05" "unat (b ! 3) = 0x06"
  proof -
    have n1: "unat (b ! 1) + 256 * (unat (b ! 2) + 256 * unat (b ! 3)) = 394571"
      and 0: "unat (b ! 0) = 0x50" using byte_digit [OF n unat_byte] by simp_all
    have n2: "unat (b ! 2) + 256 * unat (b ! 3) = 1541" and 1: "unat (b ! 1) = 0x4b"
      using byte_digit [OF n1 unat_byte] by simp_all
    show "unat (b ! 0) = 0x50" "unat (b ! 1) = 0x4b" "unat (b ! 2) = 0x05" "unat (b ! 3) = 0x06"
      using byte_digit [OF n2 unat_byte] 0 1 by simp_all
  qed
  then show "slice 0 4 b = ZIP_EOCD_SIGNATURE_BIG_ENDIAN"
    unfolding s ZIP_EOCD_SIGNATURE_BIG_ENDIAN_def by (simp add: word_unat_eq_iff)
qed

text \<open>The end record is the only one: no other place behind its start looks like the beginning of one.\<close>

lemma CheckZipEocd_spec:
  assumes "CheckZipEocd b len16 = PKG_SUCCESS"
  shows "slice 0 4 b = ZIP_EOCD_SIGNATURE_BIG_ENDIAN \<and> slice ZIP_EOCD_LEN_EXCLUDE_COMMENT 2 b = WriteLE16 len16
     \<and> (\<forall>i > 0. slice i 4 b \<noteq> ZIP_EOCD_SIGNATURE_BIG_ENDIAN)"
proof -
  have len: "PKG_ZIP_EOCD_MIN_LEN \<le> length b" and start: "the (ReadLE32 b 0) = ZIP_EOCD_SIGNATURE"
    and none: "\<not> list_ex (\<lambda>i. b ! i = ZIP_EOCD_SIGNATURE_BIG_ENDIAN ! 0 \<and> b ! (i + 1) = ZIP_EOCD_SIGNATURE_BIG_ENDIAN ! 1
                \<and> b ! (i + 2) = ZIP_EOCD_SIGNATURE_BIG_ENDIAN ! 2 \<and> b ! (i + 3) = ZIP_EOCD_SIGNATURE_BIG_ENDIAN ! 3) [4..<length b - 3]"
    and total: "the (ReadLE16 b ZIP_EOCD_LEN_EXCLUDE_COMMENT) = len16"
    using assms by (auto simp: CheckZipEocd_def split: if_splits)
  have first: "slice 0 4 b = ZIP_EOCD_SIGNATURE_BIG_ENDIAN"
    by (rule four_bytes [OF _ _ start]) (use len in \<open>simp_all add: ReadLE32_def\<close>)
  then have b4: "b ! 0 = 0x50" "b ! 1 = 0x4b" "b ! 2 = 0x05" "b ! 3 = 0x06"
    using marker_bytes [of 0 b] len by (simp_all add: ZIP_EOCD_SIGNATURE_BIG_ENDIAN_def numeral_2_eq_2)
  have "slice i 4 b \<noteq> ZIP_EOCD_SIGNATURE_BIG_ENDIAN" if "0 < i" for i
  proof (cases "i + 4 \<le> length b")
    case False
    then have "length (slice i 4 b) \<noteq> length ZIP_EOCD_SIGNATURE_BIG_ENDIAN"
      by (simp add: ZIP_EOCD_SIGNATURE_BIG_ENDIAN_def)
    then show ?thesis by metis
  next
    case True
    have "i = 1 \<or> i = 2 \<or> i = 3 \<or> 4 \<le> i" using that by arith
    then consider "i = 1" | "i = 2" | "i = 3" | "4 \<le> i" by blast
    then show ?thesis
    proof cases
      case 4
      then have "i \<in> set [4..<length b - 3]" using True by simp
      then show ?thesis using none marker_bytes [OF True] by (auto simp: list_ex_iff)
    qed (use b4 marker_bytes [OF True] in \<open>simp_all add: ZIP_EOCD_SIGNATURE_BIG_ENDIAN_def\<close>)
  qed
  moreover have "slice ZIP_EOCD_LEN_EXCLUDE_COMMENT 2 b = WriteLE16 len16"
    by (rule ReadLE16_bytes) (use len total in simp_all)
  ultimately show ?thesis using first by blast
qed

context seekable_stream
begin

lemma footer_read:
  assumes "fresh content s" "ReadFooterFromStream ops s = (r, s')"
  shows "valid content s' \<and> (\<forall>cm. r = Inr cm \<longrightarrow> 6 < length content
     \<and> slice (length content - PKG_FOOTER_SIZE) PKG_FOOTER_SIZE content
       = WriteLE16 (signCommentAppendLen cm) @ [0xFF, 0xFF] @ WriteLE16 (signCommentTotalLen cm)
     \<and> PKG_FOOTER_SIZE \<le> unat (signCommentAppendLen cm) \<and> signCommentAppendLen cm \<le> signCommentTotalLen cm)"
proof -
  obtain s1 where s1: "op_GetFileLength ops s = (length content, s1)" "valid content s1"
    using fresh_length [OF assms(1)] by blast
  show ?thesis
  proof (cases "length content \<le> PKG_FOOTER_SIZE")
    case True
    then show ?thesis using assms(2) s1 by (auto simp: ReadFooterFromStream_def)
  next
    case False
    obtain q s2 where q: "op_Read ops s1 (length content - PKG_FOOTER_SIZE) PKG_FOOTER_SIZE = (q, s2)" by force
    have v: "valid content s2" by (rule any_read_valid [OF s1(2) q])
    show ?thesis
    proof (cases q)
      case (Inl e)
      then show ?thesis using assms(2) s1 False q v by (auto simp: ReadFooterFromStream_def)
    next
      case (Inr xs)
      have xs: "filled PKG_FOOTER_SIZE xs = slice (length content - PKG_FOOTER_SIZE) PKG_FOOTER_SIZE content"
        by (rule whole_read [OF s1(2) q [unfolded Inr], THEN conjunct2]) (use False in simp)
      have r: "r = ParsePkgFooter (filled PKG_FOOTER_SIZE xs)" "s' = s2"
        using assms(2) s1 False q Inr by (auto simp: ReadFooterFromStream_def)
      show ?thesis
        using ParsePkgFooter_spec [of "filled PKG_FOOTER_SIZE xs"] False v unfolding r xs by (auto simp del: One_nat_def)
    qed
  qed
qed

lemma eocd_read:
  assumes "valid content s" "DoParseZipPkg ops s cm = (r, s')"
  shows "valid content s' \<and> (\<forall>cm'. r = Inr cm' \<longrightarrow> cm' = cm \<and> eocd_of content cm)"
proof -
  let ?total = "unat (signCommentTotalLen cm)" let ?n = "ZIP_EOCD_FIXED_PART_LEN + ?total"
  let ?start = "length content - ?n"
  have len: "op_GetFileLength ops s = (length content, s)" by (rule length_valid [OF assms(1)])
  show ?thesis
  proof (cases "length content \<le> ?n")
    case True
    then show ?thesis using assms len by (auto simp: DoParseZipPkg_def Let_def)
  next
    case False
    obtain q s2 where q: "op_Read ops s ?start ?n = (q, s2)" by force
    have v: "valid content s2" by (rule any_read_valid [OF assms(1) q])
    show ?thesis
    proof (cases q)
      case (Inl e)
      then show ?thesis using assms(2) len False q v by (auto simp: DoParseZipPkg_def Let_def)
    next
      case (Inr xs)
      have xs: "filled ?n xs = slice ?start ?n content"
        by (rule whole_read [OF assms(1) q [unfolded Inr], THEN conjunct2]) (use False in simp)
      have tail: "slice ?start ?n content = drop ?start content" by (simp add: slice_def)
      have r: "s' = s2" "r = Inr cm' \<Longrightarrow> cm' = cm \<and> CheckZipEocd (drop ?start content) (signCommentTotalLen cm) = PKG_SUCCESS" for cm'
        using assms(2) len False q Inr xs tail by (auto simp: DoParseZipPkg_def Let_def split: if_splits)
      have "eocd_of content cm" if "CheckZipEocd (drop ?start content) (signCommentTotalLen cm) = PKG_SUCCESS"
      proof -
        have sh: "slice i n (drop ?start content) = slice (?start + i) n content" for i n
          by (simp add: slice_def add.commute)
        have "slice i 4 content \<noteq> ZIP_EOCD_SIGNATURE_BIG_ENDIAN" if "?start < i" for i
          using CheckZipEocd_spec [OF \<open>CheckZipEocd _ _ = _\<close>] sh [of "i - ?start" 4] that by auto
        then show ?thesis
          using CheckZipEocd_spec [OF that] False sh [of 0 4] sh [of ZIP_EOCD_LEN_EXCLUDE_COMMENT 2]
          by (simp add: eocd_of_def Let_def)
      qed
      then show ?thesis using r v by blast
    qed
  qed
qed

text \<open>What a parser accepts.\<close>

lemma ParsePkg_spec:
  assumes "fresh content s" "ParsePkg pp ops s = (r, s')"
  shows "valid content s' \<and> (\<forall>cm. r = Inr cm \<longrightarrow> signed_as pp content cm)"
proof -
  obtain q s1 where q: "ReadFooterFromStream ops s = (q, s1)" by force
  note footer = footer_read [OF assms(1) q]
  show ?thesis
  proof (cases q)
    case (Inl e)
    then show ?thesis using assms(2) q footer
      by (cases pp) (auto simp: ZipPkgParse_ParsePkg_def BinPkgParse_ParsePkg_def)
  next
    case (Inr cm)
    show ?thesis
    proof (cases pp)
      case ZipPkgParse
      then have run: "DoParseZipPkg ops s1 cm = (r, s')" using assms(2) q Inr by (simp add: ZipPkgParse_ParsePkg_def)
      have "valid content s1" using footer by blast
      note e = eocd_read [OF this run]
      have "footer_of content cm" if "eocd_of content cm"
        using footer Inr that unfolding footer_of_def eocd_of_def by (simp add: Let_def)
      then show ?thesis using e ZipPkgParse by auto
    next
      case BinPkgParse
      then show ?thesis
        using assms(2) q Inr footer length_valid
        by (auto simp: BinPkgParse_ParsePkg_def footer_of_def split: if_splits prod.splits)
    qed
  qed
qed

end

end
