(* ===== verification/Sign_File.thy ===== *)
theory Sign_File
  imports Sign_Laws
begin

text \<open>
  The verification of a whole file: it always comes to an end, and when it succeeds a trusted signer has
  signed the hash of the file up to the signature. \<open>signature_of\<close> and \<open>covered\<close> say which bytes these are.
\<close>

definition signature_of :: "bytes \<Rightarrow> sign_comment \<Rightarrow> bytes" where
  "signature_of content cm =
     slice (length content - unat (signCommentAppendLen cm)) (unat (signCommentAppendLen cm) - PKG_FOOTER_SIZE) content"

text \<open>The beginnings of the file a hash may be for: all but the signature and the end record, or all before the comment.\<close>

definition covered :: "verify_util \<Rightarrow> bytes \<Rightarrow> sign_comment \<Rightarrow> bytes set" where
  "covered u content cm =
     {take (length content - unat (signCommentAppendLen cm) - GetFixedPartLen (pkgParse u)) content}
     \<union> (if isOldSigSupport u \<and> IsSupportOldSig (pkgParse u) then {take (length content - unat (signCommentTotalLen cm) - 2) content} else {})"

definition verified :: "('s, 'x, 'i, 'n, 'k) sign_env \<Rightarrow> verify_util \<Rightarrow> bytes \<Rightarrow> bool" where
  "verified env u content \<longleftrightarrow> (\<exists>cm data. signed_as (pkgParse u) content cm \<and> data \<in> covered u content cm \<and> data \<noteq> []
     \<and> signed_hash (ssl env) (signature_of content cm) (hash256 env data))"

lemma size_minus_le: "b \<le> a \<Longrightarrow> a < 2 ^ 64 \<Longrightarrow> size_minus a b = a - b"
proof -
  assume a: "b \<le> a" "a < 2 ^ 64"
  then have "a + 2 ^ 64 - b = (a - b) + 2 ^ 64" by simp
  then have "size_minus a b = (a - b) mod 2 ^ 64" unfolding size_minus_def by (simp only: mod_add_self2)
  then show ?thesis using a by (simp only: mod_less less_imp_diff_less)
qed

lemma signed_as_footer: "signed_as pp content cm \<Longrightarrow> footer_of content cm"
  by (cases pp) simp_all

lemma footer_bounds:
  assumes "footer_of content cm"
  shows "PKG_FOOTER_SIZE \<le> unat (signCommentAppendLen cm)" "unat (signCommentAppendLen cm) < length content"
    "unat (signCommentTotalLen cm) < length content"
  using assms unfolding footer_of_def by (auto simp: word_le_nat_alt)

text \<open>A failure of the block is never reported as success.\<close>

lemma hash_failure: "GetHashFromSignBlock L hp info p blk = Some (Inl r, info', p') \<Longrightarrow> r \<noteq> 0"
  by (auto simp: GetHashFromSignBlock_def split: if_splits prod.splits option.splits)

lemma Pkcs7verify_spec:
  assumes "helper env = Some Pkcs7VerifyHelper"
  shows "\<exists>r info'. PkgVerifyUtil_Pkcs7verify env info blk = Some (r, info') \<and> r \<noteq> Inl 0 \<and> (\<forall>hash. r = Inr hash \<longrightarrow> signed_hash (ssl env) blk hash)"
proof -
  obtain r info' p where "GetHashFromSignBlock (ssl env) (helper env) info Pkcs7SignedData_new blk = Some (r, info', p)"
      "\<forall>hash. r = Inr hash \<longrightarrow> signed_hash (ssl env) blk hash"
    using GetHashFromSignBlock_new [of "ssl env" info blk] unfolding assms by blast
  then show ?thesis using hash_failure unfolding PkgVerifyUtil_Pkcs7verify_def by fastforce
qed

context seekable_stream
begin

lemma GetSignature_spec:
  assumes "sops env = ops" "fresh content s" "length content < 2 ^ 64" "GetSignature env u s = (r, s')"
  shows "valid content s' \<and> (\<forall>n sig total. r = Inr (n, sig, total) \<longrightarrow> (\<exists>cm. signed_as (pkgParse u) content cm
     \<and> n = unat (signCommentAppendLen cm) \<and> total = signCommentTotalLen cm \<and> sig = signature_of content cm
     \<and> n + GetFixedPartLen (pkgParse u) \<le> length content))"
proof -
  obtain q s1 where q: "ParsePkg (pkgParse u) ops s = (q, s1)" by force
  note parsed = ParsePkg_spec [OF assms(2) q]
  then have v: "valid content s1" by blast
  note len = length_valid [OF v]
  show ?thesis
  proof (cases q)
    case (Inl e)
    then show ?thesis using assms(1,4) q v by (auto simp: GetSignature_def ParsePackage_def)
  next
    case (Inr cm)
    then have signed: "signed_as (pkgParse u) content cm" using parsed by blast
    note b = footer_bounds [OF signed_as_footer [OF signed]]
    let ?n = "unat (signCommentAppendLen cm)"
    have start: "size_minus (length content) ?n = length content - ?n" using b(2) assms(3) by (simp only: size_minus_le less_imp_le)
    have pp: "ParsePackage env u s = (Inr (length content - ?n, ?n, signCommentTotalLen cm), s1)"
      using q Inr len start assms(1) by (simp add: ParsePackage_def)
    obtain x s2 where x: "op_Read ops s1 (length content - ?n) (?n - PKG_FOOTER_SIZE) = (x, s2)" by force
    have v2: "valid content s2" by (rule any_read_valid [OF v x])
    note len2 = length_valid [OF v2]
    show ?thesis
    proof (cases x)
      case (Inl e)
      then show ?thesis using assms(1,4) pp x b(1) v2 by (auto simp: GetSignature_def)
    next
      case (Inr xs)
      have "xs = signature_of content cm"
        using whole_read [OF v x [unfolded Inr]] b(1,2) unfolding signature_of_def by linarith
      then show ?thesis using assms(1,4) pp x b(1) v2 len2 Inr signed by (auto simp: GetSignature_def split: if_splits)
    qed
  qed
qed

lemma HashCheck_spec:
  assumes "sops env = ops" "valid content (src_stream st)" "n \<le> length content"
  shows "\<exists>r st'. HashCheck env n hash st = Some (r, st') \<and> valid content (src_stream st') \<and> root st' = root st
     \<and> (r = 0 \<longrightarrow> take n content \<noteq> [] \<and> hash = hash256 env (take n content))"
proof -
  obtain r s' where r: "CalcSha256Digest (hash256 env) ops (src_stream st) n 0 = Some (r, s')" "valid content s'"
      "r = Inl (-1) \<or> 0 < n \<and> r = Inr (hash256 env (take n content))"
    using digest_of_part [OF assms(2), of 0 n "hash256 env"] assms(3) by (auto simp: slice_def)
  have "0 < n \<Longrightarrow> take n content \<noteq> []" using assms(3) by auto
  then show ?thesis using r assms(1,2) by (auto simp: HashCheck_def)
qed

lemma get_length_valid: "sops env = ops \<Longrightarrow> valid content (src_stream st) \<Longrightarrow> get_length env st = (length content, st)"
  by (simp add: get_length_def length_valid)

text \<open>Both checks end, and find nothing but the hash of bytes that are covered.\<close>

lemma check_old_format_spec:
  assumes "sops env = ops" "valid content (src_stream st)" "length content < 2 ^ 64" "signed_as (pkgParse u) content cm"
  shows "\<exists>r st'. check_old_format env u hash (signCommentTotalLen cm) st = Some (r, st') \<and> valid content (src_stream st')
     \<and> (r = 0 \<longrightarrow> (\<exists>data \<in> covered u content cm. data \<noteq> [] \<and> hash = hash256 env data))"
proof (cases "isOldSigSupport u \<and> IsSupportOldSig (pkgParse u)")
  case False
  then show ?thesis using assms(2) by (auto simp: check_old_format_def get_length_valid [OF assms(1)])
next
  case True
  let ?total = "unat (signCommentTotalLen cm)"
  let ?k = "length content - ?total - 2"
  have "pkgParse u = ZipPkgParse" using True by (cases "pkgParse u") simp_all
  then have room: "?total + 22 < length content" using assms(4) by (simp add: eocd_of_def Let_def)
  have "size_minus (length content) ?total = length content - ?total"
    by (rule size_minus_le) (use room assms(3) in simp_all)
  moreover have "size_minus (length content - ?total) 2 = ?k"
    by (rule size_minus_le) (use room assms(3) in simp_all)
  ultimately have run: "check_old_format env u hash (signCommentTotalLen cm) st = HashCheck env ?k hash st"
    using True by (simp only: check_old_format_def get_length_valid [OF assms(1,2)] prod.case simp_thms if_True)
  have "take ?k content \<in> covered u content cm" using True by (simp add: covered_def)
  moreover have "?k \<le> length content" by simp
  ultimately show ?thesis using HashCheck_spec [OF assms(1,2), of ?k hash] unfolding run by blast
qed

lemma check_new_format_spec:
  assumes "sops env = ops" "valid content (src_stream st)" "length content < 2 ^ 64"
    and "n = unat (signCommentAppendLen cm)" "n + GetFixedPartLen (pkgParse u) \<le> length content"
  shows "\<exists>r st'. check_new_format env u hash n st = Some (r, st')
     \<and> (r = 0 \<longrightarrow> (\<exists>data \<in> covered u content cm. data \<noteq> [] \<and> hash = hash256 env data))"
proof -
  let ?k = "length content - n - GetFixedPartLen (pkgParse u)"
  have "size_minus (length content) n = length content - n"
    by (rule size_minus_le) (use assms(3,5) in linarith)+
  moreover have "size_minus (length content - n) (GetFixedPartLen (pkgParse u)) = ?k"
    by (rule size_minus_le) (use assms(3,5) in linarith)+
  ultimately have run: "check_new_format env u hash n st = HashCheck env ?k hash st"
    by (simp only: check_new_format_def get_length_valid [OF assms(1,2)] prod.case)
  have "take ?k content \<in> covered u content cm" using assms(4) by (simp add: covered_def)
  moreover have "?k \<le> length content" by simp
  ultimately show ?thesis using HashCheck_spec [OF assms(1,2), of ?k hash] unfolding run by blast
qed

text \<open>The verification ends, and what its success says.\<close>

lemma VerifyPackageSign_spec:
  assumes "sops env = ops" "helper env = Some Pkcs7VerifyHelper" "fresh content (src_stream st)" "length content < 2 ^ 64"
  shows "\<exists>r st'. VerifyPackageSign env u st = Some (r, st') \<and> (r = 0 \<longrightarrow> verified env u content)"
proof -
  obtain q s1 where q: "GetSignature env u (src_stream st) = (q, s1)" by force
  note sig = GetSignature_spec [OF assms(1,3,4) q]
  show ?thesis
  proof (cases q)
    case (Inl e)
    then show ?thesis using q by (simp add: VerifyPackageSign_def)
  next
    case (Inr y)
    then obtain n blk total where y: "q = Inr (n, blk, total)" by (metis prod_cases3)
    then obtain cm where cm: "signed_as (pkgParse u) content cm" "n = unat (signCommentAppendLen cm)" "total = signCommentTotalLen cm"
        "blk = signature_of content cm" "n + GetFixedPartLen (pkgParse u) \<le> length content"
      using sig by blast
    obtain z info where z: "PkgVerifyUtil_Pkcs7verify env (root st) blk = Some (z, info)" "z \<noteq> Inl 0"
        "\<forall>hash. z = Inr hash \<longrightarrow> signed_hash (ssl env) blk hash"
      using Pkcs7verify_spec [OF assms(2)] by blast
    show ?thesis
    proof (cases z)
      case (Inl e)
      then show ?thesis using q y z by (auto simp: VerifyPackageSign_def)
    next
      case (Inr hash)
      have good: "verified env u content" if "\<exists>data \<in> covered u content cm. data \<noteq> [] \<and> hash = hash256 env data"
        using that cm(1,4) z(3) Inr unfolding verified_def by blast
      let ?st = "st\<lparr>src_stream := s1, root := info\<rparr>"
      have v: "valid content (src_stream ?st)" using sig by simp
      obtain r1 st1 where old: "check_old_format env u hash total ?st = Some (r1, st1)" "valid content (src_stream st1)"
          "r1 = 0 \<longrightarrow> verified env u content"
        using check_old_format_spec [OF assms(1) v assms(4) cm(1)] good unfolding cm(3) by metis
      obtain r2 st2 where new: "check_new_format env u hash n st1 = Some (r2, st2)" "r2 = 0 \<longrightarrow> verified env u content"
        using check_new_format_spec [OF assms(1) old(2) assms(4) cm(2,5)] good by metis
      show ?thesis
        using q y z Inr old new by (cases "r1 = 0") (simp_all add: VerifyPackageSign_def)
    qed
  qed
qed

text \<open>What a hash verifier holds after it has loaded a package, and when it accepts a file.\<close>

lemma LoadHashDataAndPkcs7_spec:
  assumes "sops env = ops" "helper env = Some Pkcs7VerifyHelper" "path \<noteq> UPDATRE_SCRIPT_ZIP"
    and "LoadHashDataAndPkcs7 env hl path info (HashDataVerifier True) = (True, info', v)"
    and "\<And>s. open_package hl path = Some s \<Longrightarrow> fresh package s" "length package < 2 ^ 64"
  shows "\<exists>cm p7. signed_as (pkgParse (PkgVerifyUtil (package_type hl path) True)) package cm \<and> isNeedVerify v \<and> root_loaded (ssl env) info'
     \<and> parsed_block (ssl env) (signature_of package cm) p7 (verifier_pkcs7 v)"
proof -
  let ?u = "PkgVerifyUtil (package_type hl path) True"
  obtain v1 where v1: "LoadPkcs7FromPackage env hl path info (HashDataVerifier True) = (True, info', v1)"
      "LoadHashDataFromPackage hl v1 = (True, v)"
    using assms(3,4) by (auto simp: LoadHashDataAndPkcs7_def HashDataVerifier_def split: if_splits prod.splits)
  have v: "verifier_pkcs7 v = verifier_pkcs7 v1" "isNeedVerify v = isNeedVerify v1"
    using v1(2) by (auto simp: LoadHashDataFromPackage_def split: option.splits if_splits)
  obtain s where s: "open_package hl path = Some s"
    using v1(1) by (auto simp: LoadPkcs7FromPackage_def split: option.splits)
  obtain r s1 where g: "GetSignature env ?u s = (r, s1)" by force
  obtain n sig total where r: "r = Inr (n, sig, total)"
    using v1(1) s g by (cases r) (auto simp: LoadPkcs7FromPackage_def)
  obtain p where p: "ParsePkcs7Data (ssl env) (helper env) info Pkcs7SignedData_new sig = (0, info', p)"
      "v1 = (HashDataVerifier True)\<lparr>verifier_pkcs7 := p\<rparr>"
    using v1(1) s g r by (auto simp: LoadPkcs7FromPackage_def HashDataVerifier_def split: prod.splits)
  obtain cm where cm: "signed_as (pkgParse ?u) package cm" "sig = signature_of package cm"
    using GetSignature_spec [OF assms(1) assms(5) [OF s] assms(6) g] r by blast
  from ParsePkcs7Data_new [OF p(1) [unfolded assms(2)]] obtain p7 where "root_loaded (ssl env) info'" "parsed_block (ssl env) sig p7 p" by blast
  then show ?thesis using cm p(2) v by (auto simp: HashDataVerifier_def)
qed

lemma VerifyHashData_spec:
  assumes "sops env = ops" "root_loaded (ssl env) info" "parsed_block (ssl env) blk p7 (verifier_pkcs7 v)" "isNeedVerify v"
    and "fresh content s"
  shows "\<exists>r. VerifyHashData env hl info v preName fileName (Some s) = Some r
     \<and> (r \<longrightarrow> (\<exists>n sig. GetSigFromHashData hl (hsd v) MAX_SIG_SIZE (preName @ fileName) = (n, sig) \<and> n \<le> MAX_SIG_SIZE
          \<and> vouches (ssl env) p7 (hash256 env content) (Some (take n (filled MAX_SIG_SIZE sig)))))"
proof -
  obtain s1 where s1: "op_GetFileLength ops s = (length content, s1)" "valid content s1" using fresh_length [OF assms(5)] by blast
  obtain r s2 where r: "CalcSha256Digest (hash256 env) ops s1 (length content) 0 = Some (r, s2)"
      "r = Inl (-1) \<or> r = Inr (hash256 env content)"
    using digest_of_part [OF s1(2), of 0 "length content" "hash256 env"] by (auto simp: slice_def)
  obtain n sig where g: "GetSigFromHashData hl (hsd v) MAX_SIG_SIZE (preName @ fileName) = (n, sig)" by force
  obtain x where x: "Pkcs7_Verify_hash (ssl env) info (verifier_pkcs7 v) (hash256 env content) (Some (take n (filled MAX_SIG_SIZE sig))) = Some x"
      "x = 0 \<longrightarrow> vouches (ssl env) p7 (hash256 env content) (Some (take n (filled MAX_SIG_SIZE sig)))"
    using Verify_hash_accepted [OF assms(2,3)] by blast
  show ?thesis using r s1(1) g x assms(1,4) by (auto simp: VerifyHashData_def)
qed

end

end
