(* ===== verification/Pkg_Signature.thy ===== *)
theory Pkg_Signature
  imports Sign_File Pkg_Verified
begin

text \<open>
  What the signature of a package guarantees: for the whole file, for its head when it is loaded, and for
  the files that are signed one by one.
\<close>

section \<open>An example\<close>

definition demo_block :: "(unit, unit) pkcs7" where
  "demo_block = \<lparr>p7_type = NID_pkcs7_signed, p7_sign = Some \<lparr>
     contents = Some (NID_pkcs7_data, Some (Some (WriteLE16 672 @ WriteLE16 32 @ replicate 32 0))), cert_stack = Some [()],
     signer_infos = Some [Some \<lparr>issuer_and_serial = Some (), digest_alg = Some (Some 672), digest_enc_alg = Some (Some 6),
       enc_digest = Some (Some [1])\<rparr>]\<rparr>\<rparr>"

definition demo_ssl :: "(unit, unit, unit, unit) openssl" where
  "demo_ssl = \<lparr>d2i_PKCS7_bio = (\<lambda>b. if b = [7] then Some demo_block else None), X509_find_by_issuer_and_serial = (\<lambda>_ _. Some ()),
     X509_get_subject_name = (\<lambda>_. None), X509_get_issuer_name = (\<lambda>_. None), X509_NAME_get_text_by_NID = (\<lambda>_ _. None),
     X509_get_pubkey = (\<lambda>_. Some ()), X509_verify = (\<lambda>_ _. True), EVP_DigestVerify = (\<lambda>_ _ _ s. s = [1]), root_cert_file = Some ()\<rparr>"

definition demo_sign_env :: "(file_stream, unit, unit, unit, unit) sign_env" where
  "demo_sign_env = \<lparr>sops = file_ops, ssl = demo_ssl, hash256 = (\<lambda>_. replicate 32 0), helper = Some Pkcs7VerifyHelper,
     cert_file = (\<lambda>_. None), appendable = True\<rparr>"

definition demo_zip :: bytes where
  "demo_zip = replicate 5 1 @ [0x50, 0x4b, 5, 6] @ replicate 16 0 @ [7, 0] @ [7] @ [7, 0, 255, 255, 7, 0]"

definition no_root :: "unit root_info" where
  "no_root = \<lparr>rootCert = None, subject = [], issuer = []\<rparr>"

definition demo_sign_state :: "(file_stream, unit) sign_state" where
  "demo_sign_state = \<lparr>src_stream = open_file demo_zip, root = no_root, hash_record = None\<rparr>"

lemma demo_sign_simps [simp]:
  "sops demo_sign_env = file_ops" "helper demo_sign_env = Some Pkcs7VerifyHelper" "src_stream demo_sign_state = open_file demo_zip"
  "length demo_zip = 34" "demo_zip \<noteq> []"
  by (simp_all add: demo_sign_env_def demo_sign_state_def demo_zip_def)

text \<open>The stream while the example is verified.\<close>

definition demo_at :: "nat \<Rightarrow> file_stream" where
  "demo_at pos = (open_file demo_zip)\<lparr>fileLength := 34, file_pos := pos\<rparr>"

definition demo_root :: "unit root_info" where
  "demo_root = \<lparr>rootCert = Some (), subject = [], issuer = []\<rparr>"

lemma demo_steps:
  "ZipPkgParse_ParsePkg file_ops (open_file demo_zip) = (Inr \<lparr>signCommentTotalLen = 7, signCommentAppendLen = 7\<rparr>, demo_at 34)"
  "FileStream_Read (demo_at 34) 27 (Suc 0) = (Inr [7], demo_at 28)"
  "PkgVerifyUtil_Pkcs7verify demo_sign_env no_root [7] = Some (Inr (replicate 32 0), demo_root)"
  by code_simp+

lemma demo_GetFileLength: "op_GetFileLength file_ops (demo_at n) = (34, demo_at n)"
  by (simp add: demo_at_def file_ops_def FileStream_GetFileLength_def open_file_def)

lemma demo_env_facts:
  "ssl demo_sign_env = demo_ssl" "hash256 demo_sign_env = (\<lambda>_. replicate 32 0)" "op_Read file_ops = FileStream_Read"
  "pkgParse (PkgVerifyUtil PKG_TYPE_ZIP True) = ZipPkgParse" "isOldSigSupport (PkgVerifyUtil PKG_TYPE_ZIP True)"
  "size_minus 34 7 = 27" "size_minus 27 2 = 25"
  by (simp_all add: demo_sign_env_def PkgVerifyUtil_def file_ops_def size_minus_le)

lemma demo_signature:
  "GetSignature demo_sign_env (PkgVerifyUtil PKG_TYPE_ZIP True) (open_file demo_zip) = (Inr (7, [7], 7), demo_at 28)"
  by (simp add: GetSignature_def ParsePackage_def demo_env_facts demo_steps demo_GetFileLength)

lemma demo_zip_verified:
  "VerifyPackageSign demo_sign_env (PkgVerifyUtil PKG_TYPE_ZIP True) demo_sign_state
     = Some (0, \<lparr>src_stream = demo_at 25, root = demo_root, hash_record = None\<rparr>)"
proof -
  have st: "demo_sign_state = \<lparr>src_stream = open_file demo_zip, root = no_root, hash_record = None\<rparr>"
    by (simp add: demo_sign_state_def)
  have "FileStream_Read (demo_at 28) 0 25 = (Inr (take 25 demo_zip), demo_at 25)"
    by (simp add: FileStream_Read_def FileStream_GetFileLength_def demo_at_def open_file_def Let_def slice_def)
  then have "digest_loop FileStream_Read (demo_at 28) 0 25 [] = Some (Some (take 25 demo_zip), demo_at 25)"
    by (subst digest_loop.simps) (simp add: digest_loop.simps [of _ _ _ 0])
  then show ?thesis
    by (simp add: VerifyPackageSign_def st demo_signature demo_steps check_old_format_def get_length_def demo_GetFileLength
        HashCheck_def CalcSha256Digest_def demo_env_facts)
qed

section \<open>The file\<close>

text \<open>
  C3. When the signature of a package file is accepted, the block in front of the footer holds a
  hash that a signer with a trusted certificate has signed, and this is the hash of the file up to the
  signature (without the end record of a zip file), or, where the old format is allowed, of everything
  before the comment. In a zip file nothing behind the start of the end record looks like another one.
\<close>

theorem package_signature_covers:
  assumes "sops env = file_ops" "helper env = Some Pkcs7VerifyHelper" "file_fresh content (src_stream st)" "length content < 2 ^ 64"
    and "VerifyPackageSign env u st = Some (0, st')"
  shows "\<exists>cm data. signed_as (pkgParse u) content cm \<and> data \<in> covered u content cm \<and> data \<noteq> []
     \<and> signed_hash (ssl env) (signature_of content cm) (hash256 env data)"
  using file_seek.VerifyPackageSign_spec [OF assms(1-4), of u] assms(5) by (auto simp: verified_def)

theorem package_signature_covers_witness:
  "\<exists>cm data. signed_as ZipPkgParse demo_zip cm \<and> data \<in> covered (PkgVerifyUtil PKG_TYPE_ZIP True) demo_zip cm \<and> data \<noteq> []
     \<and> signed_hash demo_ssl (signature_of demo_zip cm) (replicate 32 0)"
proof -
  obtain st' where "VerifyPackageSign demo_sign_env (PkgVerifyUtil PKG_TYPE_ZIP True) demo_sign_state = Some (0, st')"
    using demo_zip_verified by blast
  then show ?thesis
    using package_signature_covers [of demo_sign_env demo_zip demo_sign_state "PkgVerifyUtil PKG_TYPE_ZIP True" st']
    by (simp add: valid_samples(1) PkgVerifyUtil_def) (simp add: demo_sign_env_def)
qed



section \<open>The head of a package\<close>

text \<open>The verification of a block, as the loader of a package sees it.\<close>

definition block_verifier :: "('s, 'x, 'i, 'n, 'k) sign_env \<Rightarrow> 'x root_info \<Rightarrow> bytes \<Rightarrow> int \<times> bytes" where
  "block_verifier senv info blk =
     (case PkgVerifyUtil_Pkcs7verify senv info blk of
        Some (Inr hash, _) \<Rightarrow> (PKG_SUCCESS, hash)
      | Some (Inl ret, _) \<Rightarrow> (ret, [])
      | None \<Rightarrow> (-1, []))"

lemma block_verifier_signed:
  assumes "helper senv = Some Pkcs7VerifyHelper" "Pkcs7verify env = block_verifier senv info" "VerifySign env sig digest = PKG_SUCCESS"
  shows "signed_hash (ssl senv) sig digest"
proof -
  obtain r info' where r: "PkgVerifyUtil_Pkcs7verify senv info sig = Some (r, info')" "r \<noteq> Inl 0"
      "\<forall>hash. r = Inr hash \<longrightarrow> signed_hash (ssl senv) sig hash"
    using Pkcs7verify_spec [OF assms(1)] by blast
  then have "r = Inr digest"
    using assms(2,3) by (cases r) (auto simp: VerifySign_def block_verifier_def split: if_splits)
  then show ?thesis using r(3) by blast
qed

definition sample_package_V4 :: bytes where
  "sample_package_V4 = take 8 sample_package @ [4, 0] @ drop 10 sample_package"

definition sample_env_V4 :: "(file_stream, unit) pkg_env" where
  "sample_env_V4 = (sample_env FileStream_Read file_measure 990)\<lparr>sha256 := (\<lambda>_. replicate 32 0), Pkcs7verify := block_verifier demo_sign_env no_root\<rparr>"

lemma sample_V4_loads:
  "case LoadPackage sample_env_V4 (new_upgrade_file (open_file sample_package_V4)) of
     (r, s') \<Rightarrow> r = Ok () \<and> 4 \<le> updateFileVersion s'"
  by code_simp

text \<open>
  C11. When a package of version 4 or later is loaded, a signer with a trusted certificate has signed
  the hash of a beginning of the file, and every component in the table has been decoded from that
  beginning.
\<close>

theorem loaded_head_is_signed:
  assumes "stream_Read env = FileStream_Read" "measure_stream env = file_measure" "file_fresh content (pkgStream s)" "GetFileLength env = length content"
    and "helper senv = Some Pkcs7VerifyHelper" "Pkcs7verify env = block_verifier senv info"
    and "entries s = []" "LoadPackage env s = (Ok (), s')" "4 \<le> updateFileVersion s'"
  shows "\<exists>k sig. k \<le> length content \<and> signed_hash (ssl senv) sig (sha256 env (take k content))
      \<and> (\<forall>e \<in> set (entries s'). headerOffset e + SIZEOF_COMP_INFO \<le> k \<and> parsed_entry content (updateFileVersion s') e)"
proof -
  have "2 \<le> updateFileVersion s'" using assms(9) by simp
  from regular.LoadPackage_verified [OF assms(1-4,7,8) this]
  obtain k sig where k: "k \<le> length content" "accepted env s' (take k content) sig"
      "\<forall>e \<in> set (entries s'). headerOffset e + SIZEOF_COMP_INFO \<le> k \<and> parsed_entry content (updateFileVersion s') e"
    by blast
  have "VerifySign env sig (sha256 env (take k content)) = PKG_SUCCESS" using k(2) assms(9) by (simp add: accepted_def)
  from block_verifier_signed [OF assms(5,6) this] show ?thesis using k(1,3) by blast
qed

theorem loaded_head_is_signed_witness:
  "\<exists>k sig. k \<le> length sample_package_V4 \<and> signed_hash demo_ssl sig (replicate 32 0)"
proof -
  obtain s' where "LoadPackage sample_env_V4 (new_upgrade_file (open_file sample_package_V4)) = (Ok (), s')" "4 \<le> updateFileVersion s'"
    using sample_V4_loads by (auto split: prod.splits)
  moreover have "length sample_package_V4 = 990" "sample_package_V4 \<noteq> []" by (simp_all add: sample_package_V4_def length_samples)
  ultimately show ?thesis
    using loaded_head_is_signed [of sample_env_V4 sample_package_V4 "new_upgrade_file (open_file sample_package_V4)" demo_sign_env no_root s']
    by (auto simp: sample_env_V4_def valid_samples(1) demo_sign_env_def)
qed

section \<open>Files that are signed one by one\<close>

definition demo_list :: "(unit, file_stream) hash_list" where
  "demo_list = \<lparr>LoadHashSignedData = (\<lambda>_. Some ()), GetSigFromHashData = (\<lambda>_ _ _. (1, [1])), open_package = (\<lambda>_. Some (open_file demo_zip)),
     package_type = (\<lambda>_. PKG_TYPE_ZIP), hash_file_size = Some 3, has_buffer_stream = True, extract_hash_file = (\<lambda>n. Some (replicate n 0))\<rparr>"

definition demo_verifier :: "(unit, unit, unit) hash_verifier" where
  "demo_verifier = snd (snd (LoadHashDataAndPkcs7 demo_sign_env demo_list ''a.zip'' no_root (HashDataVerifier True)))"

lemma demo_block_parsed: "\<exists>p. ParsePkcs7Data demo_ssl (Some Pkcs7VerifyHelper) no_root Pkcs7SignedData_new [7] = (0, demo_root, p)
    \<and> Pkcs7_Verify_hash demo_ssl demo_root p (replicate 32 0) (Some [1]) = Some 0"
proof -
  have "case ParsePkcs7Data demo_ssl (Some Pkcs7VerifyHelper) no_root Pkcs7SignedData_new [7] of
      (r, info, p) \<Rightarrow> r = 0 \<and> info = demo_root \<and> Pkcs7_Verify_hash demo_ssl demo_root p (replicate 32 0) (Some [1]) = Some 0"
    by code_simp
  then show ?thesis by (auto split: prod.splits)
qed

lemma demo_list_loaded:
  "LoadHashDataAndPkcs7 demo_sign_env demo_list ''a.zip'' no_root (HashDataVerifier True) = (True, demo_root, demo_verifier)"
  "VerifyHashData demo_sign_env demo_list demo_root demo_verifier ''x'' ''y'' (Some (open_file [5])) = Some True"
proof -
  obtain p where p: "ParsePkcs7Data demo_ssl (Some Pkcs7VerifyHelper) no_root Pkcs7SignedData_new [7] = (0, demo_root, p)"
      "Pkcs7_Verify_hash demo_ssl demo_root p (replicate 32 0) (Some [1]) = Some 0"
    using demo_block_parsed by blast
  have run: "LoadHashDataAndPkcs7 demo_sign_env demo_list ''a.zip'' no_root (HashDataVerifier True)
      = (True, demo_root, \<lparr>has_manager = True, isNeedVerify = True, verifier_pkcs7 = p, hsd = Some ()\<rparr>)"
    by (simp add: LoadHashDataAndPkcs7_def UPDATRE_SCRIPT_ZIP_def HashDataVerifier_def LoadPkcs7FromPackage_def LoadHashDataFromPackage_def
        demo_list_def demo_signature demo_env_facts p)
  then show "LoadHashDataAndPkcs7 demo_sign_env demo_list ''a.zip'' no_root (HashDataVerifier True) = (True, demo_root, demo_verifier)"
    by (simp add: demo_verifier_def)
  have v: "demo_verifier = \<lparr>has_manager = True, isNeedVerify = True, verifier_pkcs7 = p, hsd = Some ()\<rparr>"
    using run by (simp add: demo_verifier_def)
  have "digest_loop FileStream_Read (open_file [5]\<lparr>fileLength := 1\<rparr>) 0 1 [] = Some (Some [5], open_file [5]\<lparr>fileLength := 1, file_pos := 1\<rparr>)"
    by (subst digest_loop.simps)
      (simp add: digest_loop.simps [of _ _ _ 0] FileStream_Read_def FileStream_GetFileLength_def open_file_def slice_def Let_def)
  then show "VerifyHashData demo_sign_env demo_list demo_root demo_verifier ''x'' ''y'' (Some (open_file [5])) = Some True"
    using p(2) by (simp add: VerifyHashData_def v demo_env_facts file_ops_def FileStream_GetFileLength_def open_file_def
        CalcSha256Digest_def demo_list_def filled_def)
qed

text \<open>
  C17. A file is accepted by a hash verifier that has loaded a package only when a signer in the
  signature block of this package, with a trusted certificate, has signed the hash of the whole file: the
  signature is the one listed for its name.
\<close>

theorem listed_file_verified:
  assumes "sops env = file_ops" "helper env = Some Pkcs7VerifyHelper" "path \<noteq> UPDATRE_SCRIPT_ZIP"
    and "LoadHashDataAndPkcs7 env hl path info (HashDataVerifier True) = (True, info', v)"
    and "open_package hl path = Some p" "file_fresh package p" "length package < 2 ^ 64"
    and "file_fresh content s" "VerifyHashData env hl info' v preName fileName (Some s) = Some True"
  shows "\<exists>cm p7 n sig. signed_as (pkgParse (PkgVerifyUtil (package_type hl path) True)) package cm
     \<and> d2i_PKCS7_bio (ssl env) (signature_of package cm) = Some p7
     \<and> GetSigFromHashData hl (hsd v) MAX_SIG_SIZE (preName @ fileName) = (n, sig) \<and> n \<le> MAX_SIG_SIZE
     \<and> vouches (ssl env) p7 (hash256 env content) (Some (take n (filled MAX_SIG_SIZE sig)))"
proof -
  obtain cm p7 where l: "signed_as (pkgParse (PkgVerifyUtil (package_type hl path) True)) package cm" "isNeedVerify v"
      "root_loaded (ssl env) info'" "parsed_block (ssl env) (signature_of package cm) p7 (verifier_pkcs7 v)"
    using file_seek.LoadHashDataAndPkcs7_spec [OF assms(1-4) _ assms(7)] assms(5,6) by auto
  have "d2i_PKCS7_bio (ssl env) (signature_of package cm) = Some p7" using l(4) by (auto simp: parsed_block_def)
  then show ?thesis
    using file_seek.VerifyHashData_spec [OF assms(1) l(3,4,2) assms(8), of hl preName fileName] assms(9) l(1) by fastforce
qed

theorem listed_file_verified_witness:
  "\<exists>cm p7. signed_as ZipPkgParse demo_zip cm \<and> d2i_PKCS7_bio demo_ssl (signature_of demo_zip cm) = Some p7
     \<and> vouches demo_ssl p7 (replicate 32 0) (Some [1])"
proof -
  have env: "sops demo_sign_env = file_ops" "helper demo_sign_env = Some Pkcs7VerifyHelper" by simp_all
  have l: "open_package demo_list ''a.zip'' = Some (open_file demo_zip)" "package_type demo_list ''a.zip'' = PKG_TYPE_ZIP"
      "GetSigFromHashData demo_list h m x = (1, [1])" for h m x by (simp_all add: demo_list_def)
  have "\<exists>cm p7 n sig. signed_as (pkgParse (PkgVerifyUtil (package_type demo_list ''a.zip'') True)) demo_zip cm
     \<and> d2i_PKCS7_bio (ssl demo_sign_env) (signature_of demo_zip cm) = Some p7
     \<and> GetSigFromHashData demo_list (hsd demo_verifier) MAX_SIG_SIZE (''x'' @ ''y'') = (n, sig) \<and> n \<le> MAX_SIG_SIZE
     \<and> vouches (ssl demo_sign_env) p7 (hash256 demo_sign_env [5]) (Some (take n (filled MAX_SIG_SIZE sig)))"
    by (rule listed_file_verified [OF env _ demo_list_loaded(1) l(1) _ _ _ demo_list_loaded(2)])
      (simp_all add: UPDATRE_SCRIPT_ZIP_def valid_samples(1))
  then show ?thesis by (simp add: l demo_env_facts filled_def)
qed

end
