(* ===== verification/Gpt_Crc.thy ===== *)
theory Gpt_Crc
  imports Prelude
begin

text \<open>
  The checksum of partition tables (\<open>Reflect\<close> and \<open>CalculateCrc32\<close> of
  \<open>src/services/ptable_parse/ptable.cpp\<close>) and the little-endian access to fields of a table
  (\<open>ptable.h\<close>). An access outside the buffer is None.

  The computation bit by bit with a reflected register is shown to be the usual CRC-32 that shifts to
  the right, and this one to tell buffers apart that differ in one byte.
\<close>

section \<open>Fields\<close>

definition GET_LWORD_FROM_BYTE :: "bytes \<Rightarrow> nat \<Rightarrow> u32 option" where
  "GET_LWORD_FROM_BYTE x i =
     (if i + 4 \<le> length x
      then Some (ucast (x ! i) OR push_bit 8 (ucast (x ! (i + 1))) OR push_bit 16 (ucast (x ! (i + 2)))
             OR push_bit 24 (ucast (x ! (i + 3))))
      else None)"

definition GET_LLWORD_FROM_BYTE :: "bytes \<Rightarrow> nat \<Rightarrow> u64 option" where
  "GET_LLWORD_FROM_BYTE x i =
     (if i + 8 \<le> length x
      then Some (ucast (x ! i) OR push_bit 8 (ucast (x ! (i + 1))) OR push_bit 16 (ucast (x ! (i + 2)))
             OR push_bit 24 (ucast (x ! (i + 3))) OR push_bit 32 (ucast (x ! (i + 4))) OR push_bit 40 (ucast (x ! (i + 5)))
             OR push_bit 48 (ucast (x ! (i + 6))) OR push_bit 56 (ucast (x ! (i + 7))))
      else None)"

definition PUT_LONG :: "nat \<Rightarrow> u32 \<Rightarrow> bytes \<Rightarrow> bytes option" where
  "PUT_LONG i y x =
     (if i + 4 \<le> length x
      then Some (blit i [ucast (y AND 0xff), ucast (drop_bit 8 y AND 0xff), ucast (drop_bit 16 y AND 0xff),
             ucast (drop_bit 24 y AND 0xff)] x)
      else None)"

definition PUT_LONG_LONG :: "nat \<Rightarrow> u64 \<Rightarrow> bytes \<Rightarrow> bytes option" where
  "PUT_LONG_LONG i y x =
     (if i + 8 \<le> length x
      then Some (blit i [ucast (y AND 0xff), ucast (drop_bit 8 y AND 0xff), ucast (drop_bit 16 y AND 0xff),
             ucast (drop_bit 24 y AND 0xff), ucast (drop_bit 32 y AND 0xff), ucast (drop_bit 40 y AND 0xff),
             ucast (drop_bit 48 y AND 0xff), ucast (drop_bit 56 y AND 0xff)] x)
      else None)"

section \<open>The checksum\<close>

text \<open>A step of the loop of \<open>Reflect\<close>, on the result so far and what is left of the data.\<close>

definition reflect_step :: "nat \<Rightarrow> nat \<Rightarrow> u32 \<times> u32 \<Rightarrow> u32 \<times> u32" where
  "reflect_step len i = (\<lambda>(ref, data). (if data AND 1 \<noteq> 0 then ref OR push_bit (len - 1 - i) 1 else ref, drop_bit 1 data))"

definition Reflect :: "u32 \<Rightarrow> nat \<Rightarrow> u32" where
  "Reflect data len = fst (fold (reflect_step len) [0..<len] (0, data))"

text \<open>The inner loop of \<open>CalculateCrc32\<close>, on the register and the byte.\<close>

definition crc_bit :: "u32 \<times> u32 \<Rightarrow> u32 \<times> u32" where
  "crc_bit = (\<lambda>(regs, dataByte).
     (let msb = drop_bit 7 dataByte AND 1;
          regsMsb = drop_bit 31 regs AND 1;
          regs' = push_bit 1 regs
      in (if regsMsb XOR msb \<noteq> 0 then regs' XOR ucast (0x104C11DB7 :: u64) else regs', push_bit 1 dataByte)))"

definition crc_byte :: "u8 \<Rightarrow> u32 \<Rightarrow> u32" where
  "crc_byte b regs = fst ((crc_bit ^^ 8) (regs, Reflect (ucast b) 8))"

text \<open>The buffer is what the pointer points to; it may be longer than \<open>len\<close>.\<close>

definition CalculateCrc32 :: "bytes \<Rightarrow> u32 \<Rightarrow> u32 option" where
  "CalculateCrc32 buffer len =
     (if len = 0 then Some 0
      else if length buffer < unat len then None
      else Some (Reflect (fold crc_byte (take (unat len) buffer) 0xFFFFFFFF) 32 XOR 0xFFFFFFFF))"

section \<open>The reference\<close>

definition crc_shift :: "u32 \<Rightarrow> u32" where
  "crc_shift r = (if odd r then drop_bit 1 r XOR 0xEDB88320 else drop_bit 1 r)"

definition crc32 :: "bytes \<Rightarrow> u32" where
  "crc32 bs = fold (\<lambda>b r. (crc_shift ^^ 8) (r XOR ucast b)) bs 0xFFFFFFFF XOR 0xFFFFFFFF"

section \<open>Reflection\<close>

lemma bit_and_1: "(w :: u32) AND 1 \<noteq> 0 \<longleftrightarrow> bit w 0"
  by (simp add: and_one_eq mod_2_eq_odd bit_0)

lemma reflect_fold:
  assumes "i \<le> len" "len \<le> 32"
  shows "fold (reflect_step len) [0..<i] (0, data) = (r, d) \<Longrightarrow>
    (\<forall>n < 32. bit r n \<longleftrightarrow> len - i \<le> n \<and> n < len \<and> bit data (len - 1 - n)) \<and> d = drop_bit i data"
  using assms(1)
proof (induction i arbitrary: r d)
  case 0
  then show ?case by auto
next
  case (Suc i)
  obtain r' d' where rd: "fold (reflect_step len) [0..<i] (0, data) = (r', d')" by fastforce
  have IH: "\<forall>n < 32. bit r' n \<longleftrightarrow> len - i \<le> n \<and> n < len \<and> bit data (len - 1 - n)" "d' = drop_bit i data"
    using Suc.IH [OF rd] Suc.prems(2) by auto
  have step: "reflect_step len i (r', d') = (r, d)" using Suc.prems(1) rd by simp
  have r: "r = (if bit data i then r' OR push_bit (len - 1 - i) 1 else r')"
    using step IH(2) by (auto simp: reflect_step_def bit_and_1 bit_drop_bit_eq split: if_splits)
  have d: "d = drop_bit (Suc i) data" using step IH(2) by (auto simp: reflect_step_def)
  have "bit r n \<longleftrightarrow> len - Suc i \<le> n \<and> n < len \<and> bit data (len - 1 - n)" if n: "n < 32" for n
  proof (cases "n = len - 1 - i")
    case True
    then have "len - 1 - n = i" using Suc.prems(2) by simp
    then show ?thesis using IH(1) n True Suc.prems(2) unfolding r by (auto simp: bit_simps)
  next
    case False
    then have "bit r n \<longleftrightarrow> bit r' n" unfolding r by (auto simp: bit_simps)
    then show ?thesis using IH(1) n False Suc.prems(2) by (auto simp: le_less_Suc_eq)
  qed
  then show ?case using d by simp
qed

lemma bit_Reflect: "len \<le> 32 \<Longrightarrow> bit (Reflect data len) n \<longleftrightarrow> n < len \<and> bit data (len - 1 - n)"
proof -
  assume len: "len \<le> 32"
  obtain r d where rd: "fold (reflect_step len) [0..<len] (0, data) = (r, d)" by fastforce
  show ?thesis
  proof (cases "n < 32")
    case True
    then show ?thesis using reflect_fold [OF le_refl len rd] rd by (auto simp: Reflect_def)
  next
    case False
    then show ?thesis using len by (auto dest: bit_imp_le_length)
  qed
qed

lemma Reflect_xor: "Reflect (a XOR b) 32 = Reflect a 32 XOR Reflect b 32"
  by (rule bit_word_eqI) (simp add: bit_simps bit_Reflect)

lemma Reflect_push: "Reflect (push_bit 1 a) 32 = drop_bit 1 (Reflect a 32)"
proof (rule bit_word_eqI)
  fix n assume "n < LENGTH(32)"
  then show "bit (Reflect (push_bit 1 a) 32) n = bit (drop_bit 1 (Reflect a 32)) n"
    unfolding bit_drop_bit_eq bit_Reflect [OF le_refl] bit_push_bit_iff by auto
qed

lemma Reflect_double: "Reflect (a * 2) 32 = drop_bit (Suc 0) (Reflect a 32)"
  using Reflect_push [of a] by simp

lemma Reflect_poly: "Reflect 0x04C11DB7 32 = 0xEDB88320"
  by code_simp

lemma Reflect_twice: "Reflect (Reflect a 32) 32 = a"
  by (rule bit_word_eqI) (auto simp: bit_Reflect)

section \<open>The two computations agree\<close>

lemma poly: "ucast (0x104C11DB7 :: u64) = (0x04C11DB7 :: u32)"
  by code_simp

lemma lowest_bit: "drop_bit k w AND 1 = of_bool (bit w k)"
  by (simp add: and_one_eq mod_2_eq_odd bit_iff_odd_drop_bit)

lemma crc_bit_step:
  assumes "j < 8"
  shows "\<exists>r'. crc_bit (r, push_bit j (Reflect (ucast b) 8)) = (r', push_bit (Suc j) (Reflect (ucast b) 8))
     \<and> Reflect r' 32 XOR drop_bit (Suc j) (ucast (b :: u8)) = crc_shift (Reflect r 32 XOR drop_bit j (ucast b))"
proof -
  let ?D = "push_bit j (Reflect (ucast b) 8)" and ?P = "Reflect r 32"
  have bits: "drop_bit 7 ?D AND 1 = of_bool (bit b j)" "drop_bit 31 r AND 1 = of_bool (bit ?P 0)"
    unfolding lowest_bit using assms by (auto simp: bit_simps bit_Reflect)
  let ?c = "bit ?P 0 \<noteq> bit b j"
  have odd: "odd (?P XOR drop_bit j (ucast b)) \<longleftrightarrow> ?c"
    using assms by (simp add: bit_0 [symmetric] bit_simps)
  have shift: "drop_bit 1 ?P XOR drop_bit (Suc j) (ucast b) = drop_bit 1 (?P XOR drop_bit j (ucast b))"
    by (rule bit_word_eqI) (simp add: bit_simps)
  have cond: "(drop_bit 31 r AND 1) XOR (drop_bit 7 ?D AND 1) \<noteq> 0 \<longleftrightarrow> ?c"
    unfolding bits by (cases "bit ?P 0"; cases "bit b j") simp_all
  have step: "crc_bit (r, ?D) = (if ?c then push_bit 1 r XOR 0x04C11DB7 else push_bit 1 r, push_bit (Suc j) (Reflect (ucast b) 8))"
    using cond push_bit_push_bit [of 1 j "Reflect (ucast b) 8"] by (simp only: crc_bit_def Let_def prod.case poly plus_1_eq_Suc)
  show ?thesis
  proof (cases ?c)
    case True
    then have "crc_bit (r, ?D) = (push_bit 1 r XOR 0x04C11DB7, push_bit (Suc j) (Reflect (ucast b) 8))"
      using step by simp
    moreover have "Reflect (push_bit 1 r XOR 0x04C11DB7) 32 XOR drop_bit (Suc j) (ucast b) = crc_shift (?P XOR drop_bit j (ucast b))"
      using True odd shift by (simp add: Reflect_xor Reflect_double Reflect_poly crc_shift_def ac_simps)
    ultimately show ?thesis by auto
  next
    case False
    then have "crc_bit (r, ?D) = (push_bit 1 r, push_bit (Suc j) (Reflect (ucast b) 8))"
      using step by simp
    moreover have "Reflect (push_bit 1 r) 32 XOR drop_bit (Suc j) (ucast b) = crc_shift (?P XOR drop_bit j (ucast b))"
      using False odd shift by (simp add: Reflect_double crc_shift_def)
    ultimately show ?thesis by auto
  qed
qed

lemma crc_bits:
  "j \<le> 8 \<Longrightarrow> \<exists>r'. (crc_bit ^^ j) (r, Reflect (ucast b) 8) = (r', push_bit j (Reflect (ucast b) 8))
     \<and> Reflect r' 32 XOR drop_bit j (ucast (b :: u8)) = (crc_shift ^^ j) (Reflect r 32 XOR ucast b)"
proof (induction j)
  case (Suc j)
  then obtain r1 where r1: "(crc_bit ^^ j) (r, Reflect (ucast b) 8) = (r1, push_bit j (Reflect (ucast b) 8))"
      "Reflect r1 32 XOR drop_bit j (ucast b) = (crc_shift ^^ j) (Reflect r 32 XOR ucast b)"
    by auto
  show ?case using crc_bit_step [of j r1 b] Suc.prems by (auto simp: r1)
qed simp

lemma Reflect_crc_byte: "Reflect (crc_byte b r) 32 = (crc_shift ^^ 8) (Reflect r 32 XOR ucast b)"
proof -
  have "drop_bit 8 (ucast b) = (0 :: u32)"
    by (rule bit_word_eqI) (auto simp: bit_simps dest: bit_imp_le_length)
  then show ?thesis using crc_bits [of 8 r b] by (auto simp: crc_byte_def)
qed

lemma Reflect_ones: "Reflect 0xFFFFFFFF 32 = 0xFFFFFFFF"
  by code_simp

lemma CalculateCrc32_crc32: "0 < unat len \<Longrightarrow> unat len \<le> length bs \<Longrightarrow> CalculateCrc32 bs len = Some (crc32 (take (unat len) bs))"
proof -
  assume len: "0 < unat len" "unat len \<le> length bs"
  have "Reflect (fold crc_byte cs r) 32 = fold (\<lambda>b r. (crc_shift ^^ 8) (r XOR ucast b)) cs (Reflect r 32)" for cs r
    by (induction cs arbitrary: r) (simp_all add: Reflect_crc_byte)
  then show ?thesis using len by (auto simp: CalculateCrc32_def crc32_def Reflect_ones unat_eq_0)
qed

section \<open>Single errors\<close>

lemma xor_cancel: "a XOR c = b XOR c \<Longrightarrow> a = (b :: 'a::len word)"
  by (metis xor.assoc xor.right_neutral xor_self_eq)

lemma crc_shift_inj: "crc_shift r = crc_shift s \<Longrightarrow> r = s"
proof -
  assume eq: "crc_shift r = crc_shift s"
  have top: "bit (crc_shift w) 31 = odd w" for w
    by (auto simp: crc_shift_def bit_simps dest: bit_imp_le_length)
  have "odd r = odd s" using top [of r] top [of s] eq by simp
  then have "drop_bit 1 r = drop_bit 1 s" "odd r = odd s"
    using eq by (auto simp: crc_shift_def split: if_splits dest: xor_cancel)
  note low = this
  have "bit r n = bit s n" for n
  proof (cases n)
    case 0
    then show ?thesis using low(2) by (simp add: bit_0)
  next
    case (Suc m)
    then show ?thesis using arg_cong [OF low(1), of "\<lambda>w. bit w m"] by (simp only: bit_drop_bit_eq) simp
  qed
  then show "r = s" by (simp add: bit_word_eqI)
qed

lemma crc_shifts_inj: "(crc_shift ^^ n) r = (crc_shift ^^ n) s \<Longrightarrow> r = s"
  by (induction n) (auto dest: crc_shift_inj)

lemma crc_fold_inj:
  "fold (\<lambda>b r. (crc_shift ^^ 8) (r XOR ucast b)) bs r = fold (\<lambda>b r. (crc_shift ^^ 8) (r XOR ucast b)) bs s \<Longrightarrow> r = s"
proof (induction bs arbitrary: r s)
  case (Cons b bs)
  then have "r XOR ucast b = s XOR ucast b" by (auto dest!: Cons.IH crc_shifts_inj)
  then show ?case by (rule xor_cancel)
qed simp

lemma crc32_one_byte: "b \<noteq> b' \<Longrightarrow> crc32 (xs @ b # ys) \<noteq> crc32 (xs @ b' # ys)"
proof
  assume b: "b \<noteq> b'" and eq: "crc32 (xs @ b # ys) = crc32 (xs @ b' # ys)"
  let ?f = "fold (\<lambda>b r. (crc_shift ^^ 8) (r XOR ucast b))" and ?r = "fold (\<lambda>b r. (crc_shift ^^ 8) (r XOR ucast b)) xs (0xFFFFFFFF :: u32)"
  have "?f ys ((crc_shift ^^ 8) (?r XOR ucast b)) XOR 0xFFFFFFFF = ?f ys ((crc_shift ^^ 8) (?r XOR ucast b')) XOR (0xFFFFFFFF :: u32)"
    using eq by (simp add: crc32_def)
  then have "?f ys ((crc_shift ^^ 8) (?r XOR ucast b)) = ?f ys ((crc_shift ^^ 8) (?r XOR ucast b'))"
    by (rule xor_cancel)
  then have "?r XOR ucast b = ?r XOR ucast b'" by (auto dest!: crc_fold_inj crc_shifts_inj)
  then have "ucast b = (ucast b' :: u32)" by (simp add: xor.commute [of ?r] xor_cancel)
  then have "unat (ucast b :: u32) = unat (ucast b' :: u32)" by simp
  then have "unat b = unat b'" by (simp add: unsigned_ucast_eq take_bit_nat_eq_self unsigned_less [THEN less_trans])
  then have "b = b'" by (rule word_unat_eq_iff [THEN iffD2])
  with b show False by simp
qed

section \<open>Evaluation\<close>

definition crc_in :: "u8 \<Rightarrow> u32 \<Rightarrow> u32" where
  "crc_in b r = crc_shift (crc_shift (crc_shift (crc_shift (crc_shift (crc_shift (crc_shift (crc_shift (r XOR ucast b))))))))"

lemma crc32_in: "crc32 bs = fold crc_in bs 0xFFFFFFFF XOR 0xFFFFFFFF"
  by (simp add: crc32_def crc_in_def [abs_def] numeral_eq_Suc)

lemmas crc_eval = crc32_in crc_in_def crc_shift_def

end
