(* ===== verification/Gpt_Table.thy ===== *)
theory Gpt_Table
  imports Gpt_Crc Posix "HOL-Library.Monad_Syntax"
begin

text \<open>
  Partition tables in the GPT format (\<open>class Ptable\<close> of \<open>src/services/ptable_parse/ptable.cpp\<close>): the
  checks of the protective MBR and of the header, the names of partitions, and the change of a
  partition with the move of those behind it. A read or write outside a buffer is None.
\<close>

section \<open>Data\<close>

datatype part_type = COMMON_TYPE | A_TYPE | B_TYPE | RESERVED_TYPE

record ptn_info =
  startAddr :: u64
  partitionSize :: u64
  partitionTypeGuid :: bytes
  lun :: u32
  gptEntryBufOffset :: int
  isTailPart :: bool
  dispName :: string
  partType :: part_type
  writeMode :: string
  writePath :: string

record gpt_header_info =
  headerSize :: u32
  partitionEntrySize :: u32
  maxPartitionCount :: u32
  firstUsableLba :: u64

record header_check_inputs =
  gptImage :: bytes
  imgLen :: u32
  lbaNum :: u64
  lunNum :: u32

record gpt_parse_info =
  imgBlockSize :: u64
  devBlockSize :: u64
  devDensity :: u64

abbreviation (input) PARTITION_ENTRY_SIZE :: nat where "PARTITION_ENTRY_SIZE \<equiv> 128"
abbreviation (input) MAX_PARTITION_NUM :: nat where "MAX_PARTITION_NUM \<equiv> 128"
abbreviation (input) FIRST_LBA_OFFSET :: nat where "FIRST_LBA_OFFSET \<equiv> 32"
abbreviation (input) LAST_LBA_OFFSET :: nat where "LAST_LBA_OFFSET \<equiv> 40"
abbreviation (input) GPT_PARTITION_NAME_OFFSET :: nat where "GPT_PARTITION_NAME_OFFSET \<equiv> 56"
abbreviation (input) MAX_GPT_NAME_SIZE :: nat where "MAX_GPT_NAME_SIZE \<equiv> 72"
abbreviation (input) PARTITION_ENTRIES_OFFSET :: nat where "PARTITION_ENTRIES_OFFSET \<equiv> 72"
abbreviation (input) PARTITION_CRC_OFFSET :: nat where "PARTITION_CRC_OFFSET \<equiv> 88"
abbreviation (input) PARTITION_COUNT_OFFSET :: nat where "PARTITION_COUNT_OFFSET \<equiv> 80"
abbreviation (input) PENTRY_SIZE_OFFSET :: nat where "PENTRY_SIZE_OFFSET \<equiv> 84"
abbreviation (input) HEADER_CRC_OFFSET :: nat where "HEADER_CRC_OFFSET \<equiv> 16"
abbreviation (input) GPT_HEADER_OFFSET :: nat where "GPT_HEADER_OFFSET \<equiv> 24"
abbreviation (input) BACKUP_HEADER_OFFSET :: nat where "BACKUP_HEADER_OFFSET \<equiv> 32"
abbreviation (input) LAST_USABLE_LBA_OFFSET :: nat where "LAST_USABLE_LBA_OFFSET \<equiv> 48"
abbreviation (input) HEADER_SIZE_OFFSET :: nat where "HEADER_SIZE_OFFSET \<equiv> 12"
abbreviation (input) FIRST_USABLE_LBA_OFFSET :: nat where "FIRST_USABLE_LBA_OFFSET \<equiv> 40"
abbreviation (input) LBA_LENGTH :: nat where "LBA_LENGTH \<equiv> 512"
abbreviation (input) GPT_CRC_LEN :: u32 where "GPT_CRC_LEN \<equiv> 92"
abbreviation (input) MBR_MAGIC_NUM_POS :: nat where "MBR_MAGIC_NUM_POS \<equiv> 0x1FE"
abbreviation (input) EFI_MAGIC_NUMBER :: u64 where "EFI_MAGIC_NUMBER \<equiv> 0x5452415020494645"
abbreviation (input) LAST_PATITION_NAME :: string where "LAST_PATITION_NAME \<equiv> ''USERDATA''"

definition byte_at :: "bytes \<Rightarrow> nat \<Rightarrow> u8 option" where
  "byte_at b i = (if i < length b then Some (b ! i) else None)"

section \<open>The protective MBR\<close>

definition VerifyMbrMagicNum :: "bytes \<Rightarrow> u32 \<Rightarrow> bool option" where
  "VerifyMbrMagicNum buffer bufSize =
     (if unat bufSize < MBR_MAGIC_NUM_POS + 1 then Some False
      else do {
        x \<leftarrow> byte_at buffer MBR_MAGIC_NUM_POS;
        if x \<noteq> 0x55 then Some False
        else do { y \<leftarrow> byte_at buffer (MBR_MAGIC_NUM_POS + 1); Some (y = 0xAA) }
      })"

primrec find_protective :: "bytes \<Rightarrow> u32 \<Rightarrow> nat list \<Rightarrow> bool option" where
  "find_protective img ilen [] = Some False"
| "find_protective img ilen (i # rest) =
     (if unat ilen \<le> 0x1BE + i * 16 + 4 then Some False
      else do {
        type \<leftarrow> byte_at img (0x1BE + i * 16 + 4);
        if type = 0xEE then Some True else find_protective img ilen rest
      })"

definition CheckProtectiveMbr :: "bytes \<Rightarrow> u32 \<Rightarrow> bool option" where
  "CheckProtectiveMbr img ilen =
     do { ok \<leftarrow> VerifyMbrMagicNum img ilen; if ok then find_protective img ilen [0..<4] else Some False }"

section \<open>The header\<close>

definition CheckIfValidGpt :: "bytes \<Rightarrow> u32 \<Rightarrow> bool option" where
  "CheckIfValidGpt img imageLen =
     (if unat imageLen < 8 then Some False else do { magic \<leftarrow> GET_LLWORD_FROM_BYTE img 0; Some (magic = EFI_MAGIC_NUMBER) })"

text \<open>The inner None is the result false.\<close>

definition GetPartitionGptHeaderInfo :: "bytes \<Rightarrow> u32 \<Rightarrow> gpt_header_info option option" where
  "GetPartitionGptHeaderInfo buffer bufferLen =
     (if unat bufferLen < LBA_LENGTH then Some None
      else do {
        ok \<leftarrow> CheckIfValidGpt buffer bufferLen;
        if \<not> ok then Some None
        else do {
          hsize \<leftarrow> GET_LWORD_FROM_BYTE buffer HEADER_SIZE_OFFSET;
          first \<leftarrow> GET_LLWORD_FROM_BYTE buffer FIRST_USABLE_LBA_OFFSET;
          count \<leftarrow> GET_LWORD_FROM_BYTE buffer PARTITION_COUNT_OFFSET;
          entry \<leftarrow> GET_LWORD_FROM_BYTE buffer PENTRY_SIZE_OFFSET;
          Some (if count = 0 \<or> entry = 0 then None
                else Some \<lparr>headerSize = hsize, partitionEntrySize = entry, maxPartitionCount = count, firstUsableLba = first\<rparr>)
        }
      })"

definition PatchBackUpGptHeader :: "bytes \<Rightarrow> u32 \<Rightarrow> u64 \<Rightarrow> bytes option" where
  "PatchBackUpGptHeader header hlen backGptEntryStart =
     (if unat hlen < PARTITION_ENTRIES_OFFSET + 8 \<or> unat hlen < HEADER_CRC_OFFSET + 4 then Some header
      else do {
        gptHeaderOffset \<leftarrow> GET_LLWORD_FROM_BYTE header GPT_HEADER_OFFSET;
        backHeaderOffset \<leftarrow> GET_LLWORD_FROM_BYTE header BACKUP_HEADER_OFFSET;
        h1 \<leftarrow> PUT_LONG_LONG GPT_HEADER_OFFSET backHeaderOffset header;
        h2 \<leftarrow> PUT_LONG_LONG BACKUP_HEADER_OFFSET gptHeaderOffset h1;
        h3 \<leftarrow> PUT_LONG_LONG PARTITION_ENTRIES_OFFSET backGptEntryStart h2;
        h4 \<leftarrow> PUT_LONG HEADER_CRC_OFFSET 0 h3;
        crcValue \<leftarrow> CalculateCrc32 h4 GPT_CRC_LEN;
        PUT_LONG HEADER_CRC_OFFSET crcValue h4
      })"

text \<open>The buffer is changed, but only on the way: at the end the checksum is written back.\<close>

definition CheckGptHeader :: "bytes \<Rightarrow> u32 \<Rightarrow> u64 \<Rightarrow> gpt_header_info \<Rightarrow> bool option" where
  "CheckGptHeader buffer bufferLen lbas info =
     (if unat bufferLen < LBA_LENGTH \<or> lbas = 0 then Some False
      else if headerSize info < 92 \<or> bufferLen < headerSize info then Some False
      else do {
        orgCrcVal \<leftarrow> GET_LWORD_FROM_BYTE buffer HEADER_CRC_OFFSET;
        b1 \<leftarrow> PUT_LONG HEADER_CRC_OFFSET 0 buffer;
        crcVal \<leftarrow> CalculateCrc32 b1 (headerSize info);
        if crcVal \<noteq> orgCrcVal then Some False
        else do {
          b2 \<leftarrow> PUT_LONG HEADER_CRC_OFFSET crcVal b1;
          currentLba \<leftarrow> GET_LLWORD_FROM_BYTE b2 GPT_HEADER_OFFSET;
          lastUsableLba \<leftarrow> GET_LLWORD_FROM_BYTE b2 LAST_USABLE_LBA_OFFSET;
          Some (\<not> (lbas < firstUsableLba info \<or> lbas < ucast (ucast lastUsableLba :: u32))
            \<and> \<not> (partitionEntrySize info \<noteq> of_nat PARTITION_ENTRY_SIZE \<or> 0x4000 div of_nat PARTITION_ENTRY_SIZE < maxPartitionCount info)
            \<and> (ucast currentLba :: u32) = 1)
        }
      })"

definition Ptable_GetGptEntryCrc :: "header_check_inputs \<Rightarrow> u64 \<Rightarrow> u32 \<Rightarrow> u32 option" where
  "Ptable_GetGptEntryCrc inputs off crcLen =
     (if imgLen inputs < ucast off + crcLen then Some 0
      else CalculateCrc32 (drop (unat off) (gptImage inputs)) crcLen)"

text \<open>The checksum of the entries is a virtual function.\<close>

definition PartitionCheckGptHeader ::
    "(header_check_inputs \<Rightarrow> u64 \<Rightarrow> u32 \<Rightarrow> u32 option) \<Rightarrow> u32 \<Rightarrow> header_check_inputs \<Rightarrow> u32 \<Rightarrow> gpt_header_info \<Rightarrow> bool option" where
  "PartitionCheckGptHeader GetGptEntryCrc writeDeviceLunSize inputs blockSize info =
     (if imgLen inputs < writeDeviceLunSize \<or> lbaNum inputs = 0 \<or> 32 < lunNum inputs \<or> imgLen inputs < 2 * blockSize then Some False
      else if length (gptImage inputs) < 2 * unat blockSize then None
      else if blockSize = 0 \<or> SECUREC_MEM_MAX_LEN < unat blockSize then Some False
      else do {
        let buffer = slice (unat blockSize) (unat blockSize) (gptImage inputs);
        ok \<leftarrow> CheckGptHeader buffer blockSize (lbaNum inputs) info;
        if \<not> ok then Some False
        else do {
          partition0 \<leftarrow> GET_LLWORD_FROM_BYTE buffer PARTITION_ENTRIES_OFFSET;
          orgCrcVal \<leftarrow> GET_LWORD_FROM_BYTE buffer PARTITION_CRC_OFFSET;
          crcVal \<leftarrow> GetGptEntryCrc inputs (ucast (ucast partition0 * blockSize)) (maxPartitionCount info * partitionEntrySize info);
          Some (crcVal = orgCrcVal)
        }
      })"

section \<open>Names\<close>

definition toupper :: "char \<Rightarrow> char" where
  "toupper c = (let n = of_char c :: nat in if 97 \<le> n \<and> n \<le> 122 then char_of (n - 32) else c)"

definition tolower :: "char \<Rightarrow> char" where
  "tolower c = (let n = of_char c :: nat in if 65 \<le> n \<and> n \<le> 90 then char_of (n + 32) else c)"

text \<open>C strings end at the first zero byte.\<close>

definition c_str :: "string \<Rightarrow> string" where
  "c_str = takeWhile (\<lambda>c. c \<noteq> CHR 0x00)"

definition strcasecmp :: "string \<Rightarrow> string \<Rightarrow> bool" where
  "strcasecmp a b \<longleftrightarrow> map tolower (c_str a) = map tolower (c_str b)"

definition SetPartitionType :: "string \<Rightarrow> part_type" where
  "SetPartitionType partName =
     (if \<exists>i \<le> length partName. take 8 (drop i partName) = ''RESERVED'' then RESERVED_TYPE
      else if length partName < 2 then COMMON_TYPE
      else let partSuffix = drop (length partName - 2) partName in
        if strcasecmp partSuffix ''_a'' then A_TYPE
        else if strcasecmp partSuffix ''_b'' then B_TYPE
        else COMMON_TYPE)"

text \<open>Every other byte of the field, up to the first one that is 0; \<open>data\<close> is the memory from the pointer on.\<close>

fun utf16_chars :: "nat \<Rightarrow> bytes \<Rightarrow> string" where
  "utf16_chars (Suc n) (b # _ # bs) = (if b = 0 then [] else char_of (unat b) # utf16_chars n bs)"
| "utf16_chars _ _ = []"

definition ParsePartitionName :: "bytes \<Rightarrow> nat \<Rightarrow> string \<Rightarrow> nat \<Rightarrow> string option" where
  "ParsePartitionName data dataLen name nameLen =
     (if dataLen = 0 \<or> nameLen = 0 then Some name
      else if MAX_GPT_NAME_SIZE < dataLen then Some name
      else if length data < dataLen then None
      else Some (map toupper (utf16_chars (min nameLen (MAX_GPT_NAME_SIZE div 2))
                  (take dataLen data @ replicate (MAX_GPT_NAME_SIZE - dataLen) 0))))"

text \<open>The pairs of bytes that are written for the first \<open>nameLen\<close> characters; the character behind the last is 0.\<close>

definition WritePartitionName :: "string \<Rightarrow> nat \<Rightarrow> nat \<Rightarrow> nat \<Rightarrow> bytes \<Rightarrow> (bool \<times> bytes) option" where
  "WritePartitionName name nameLen pos dataLen buf =
     (if dataLen = 0 \<or> nameLen = 0 \<or> dataLen < nameLen * 2 then Some (False, buf)
      else if length name + 1 < nameLen \<or> length buf < pos + nameLen * 2 then None
      else Some (True, blit pos (concat (map (\<lambda>c. [of_char (tolower c), 0]) (take nameLen (name @ [CHR 0x00])))) buf))"

text \<open>\<open>GetPartionInfoByName\<close>, the information and its index; \<open>slot\<close> is \<open>GetUpdateSlot ()\<close>.\<close>

definition find_part :: "ptn_info list \<Rightarrow> string \<Rightarrow> (ptn_info \<times> nat) option" where
  "find_part infos name =
     (case filter (\<lambda>i. length (dispName (infos ! i)) = length name \<and> strcasecmp (dispName (infos ! i)) name) [0..<length infos] of
        [] \<Rightarrow> None
      | i # _ \<Rightarrow> Some (infos ! i, i))"

definition GetPartionInfoByName :: "int \<Rightarrow> ptn_info list \<Rightarrow> string \<Rightarrow> (ptn_info \<times> nat) option" where
  "GetPartionInfoByName slot infos partitionName =
     (if infos = [] then None
      else case find_part infos partitionName of
          Some r \<Rightarrow> Some r
        | None \<Rightarrow>
            if slot < 1 \<or> 2 < slot then None
            else find_part infos (partitionName @ (if slot = 1 then ''_a'' else ''_b'')))"

section \<open>Changing a partition\<close>

definition AdjustGpt :: "nat \<Rightarrow> u64 \<Rightarrow> string \<Rightarrow> u64 \<Rightarrow> u64 \<Rightarrow> bytes \<Rightarrow> (bool \<times> bytes) option" where
  "AdjustGpt pos bufSize ptnName preLastLBA lastPtnLastLBA buf =
     (if bufSize = 0 \<or> ptnName = [] then Some (False, buf)
      else if ptnName \<noteq> LAST_PATITION_NAME then do {
        firstLBA \<leftarrow> GET_LLWORD_FROM_BYTE buf (pos + FIRST_LBA_OFFSET);
        lastLBA \<leftarrow> GET_LLWORD_FROM_BYTE buf (pos + LAST_LBA_OFFSET);
        b1 \<leftarrow> PUT_LONG_LONG (pos + FIRST_LBA_OFFSET) (preLastLBA + 1) buf;
        b2 \<leftarrow> PUT_LONG_LONG (pos + LAST_LBA_OFFSET) (lastLBA - firstLBA + preLastLBA + 1) b1;
        Some (True, b2)
      } else if lastPtnLastLBA < preLastLBA + 1 then Some (False, buf)
      else do {
        b1 \<leftarrow> PUT_LONG_LONG (pos + FIRST_LBA_OFFSET) (preLastLBA + 1) buf;
        b2 \<leftarrow> PUT_LONG_LONG (pos + LAST_LBA_OFFSET) lastPtnLastLBA b1;
        Some (True, b2)
      })"

text \<open>
  One entry in the loop of \<open>ChangeGpt\<close>: the loop ends with a result, or goes on with the last sector
  before the next entry, once the partition to modify has been found.
\<close>

datatype entry_step = Entry_Result bool | Entry_Next "u64 option"

definition change_entry ::
    "gpt_parse_info \<Rightarrow> ptn_info \<Rightarrow> u64 \<Rightarrow> u64 \<Rightarrow> u64 option \<Rightarrow> nat \<Rightarrow> bytes \<Rightarrow> (entry_step \<times> bytes) option" where
  "change_entry gptInfo modifyInfo lastPtnLastLBA remaining pre pos buf =
     do {
       name \<leftarrow> ParsePartitionName (drop (pos + GPT_PARTITION_NAME_OFFSET) buf) MAX_GPT_NAME_SIZE [] (MAX_GPT_NAME_SIZE div 2);
       if name = [] then Some (Entry_Result True, buf)
       else case pre of
           Some preLastLBA \<Rightarrow> do {
             (ok, buf') \<leftarrow> AdjustGpt pos remaining name preLastLBA lastPtnLastLBA buf;
             if \<not> ok then Some (Entry_Result False, buf')
             else do { lastLBA \<leftarrow> GET_LLWORD_FROM_BYTE buf' (pos + LAST_LBA_OFFSET); Some (Entry_Next (Some lastLBA), buf') }
           }
         | None \<Rightarrow>
             if name = dispName modifyInfo then
               let firstLBA = startAddr modifyInfo div devBlockSize gptInfo;
                   lastLBA = firstLBA + partitionSize modifyInfo div devBlockSize gptInfo - 1
               in if name = LAST_PATITION_NAME \<and> lastLBA \<noteq> lastPtnLastLBA then Some (Entry_Result False, buf)
                  else do {
                    b1 \<leftarrow> PUT_LONG_LONG (pos + FIRST_LBA_OFFSET) firstLBA buf;
                    b2 \<leftarrow> PUT_LONG_LONG (pos + LAST_LBA_OFFSET) lastLBA b1;
                    Some (Entry_Next (Some lastLBA), b2)
                  }
             else Some (Entry_Next None, buf)
     }"

text \<open>
  The loop; the outer None is that it never ends. The position is \<open>readSize\<close>: both grow by the size of
  an entry, which comes from the table.
\<close>

partial_function (option) change_entries ::
    "gpt_parse_info \<Rightarrow> ptn_info \<Rightarrow> u64 \<Rightarrow> u64 \<Rightarrow> u32 \<Rightarrow> u64 option \<Rightarrow> u64 \<Rightarrow> nat \<Rightarrow> bytes \<Rightarrow> (bool \<times> bytes) option option" where
  "change_entries gptInfo modifyInfo lastPtnLastLBA gptSize ptnEntrySize pre readSize pos buf =
     (if gptSize \<le> readSize then Some (Some (True, buf))
      else case change_entry gptInfo modifyInfo lastPtnLastLBA (gptSize - readSize) pre pos buf of
          None \<Rightarrow> Some None
        | Some (Entry_Result r, buf') \<Rightarrow> Some (Some (r, buf'))
        | Some (Entry_Next pre', buf') \<Rightarrow>
            change_entries gptInfo modifyInfo lastPtnLastLBA gptSize ptnEntrySize pre'
              (readSize + ucast ptnEntrySize) (pos + unat ptnEntrySize) buf')"

definition ChangeGpt :: "bytes \<Rightarrow> u64 \<Rightarrow> gpt_parse_info \<Rightarrow> ptn_info \<Rightarrow> (bool \<times> bytes) option option" where
  "ChangeGpt gptBuf gptSize gptInfo modifyInfo =
     (if gptSize = 0 \<or> gptSize \<le> imgBlockSize gptInfo \<or> devBlockSize gptInfo = 0 then Some (Some (False, gptBuf))
      else let head = unat (imgBlockSize gptInfo) in
        case (GET_LLWORD_FROM_BYTE gptBuf (head + PENTRY_SIZE_OFFSET), GET_LLWORD_FROM_BYTE gptBuf (head + PARTITION_ENTRIES_OFFSET)) of
          (Some entrySize, Some ptnStart) \<Rightarrow>
            let readSize = ptnStart * imgBlockSize gptInfo in
            change_entries gptInfo modifyInfo (devDensity gptInfo div devBlockSize gptInfo - 1) gptSize (ucast entrySize) None
              readSize (unat readSize) gptBuf
        | _ \<Rightarrow> Some None)"

end
