(* ===== verification/Ufs_Ptable.thy ===== *)
theory Ufs_Ptable
  imports Gpt_Table Raw_Writer
begin

text \<open>
  The partition tables of a UFS device, one table for every logical unit (\<open>class UfsPtable\<close> of
  \<open>src/services/ptable_parse/ufs_ptable.cpp\<close>). The nodes of the units are objects of the world, with
  512 or 4096 bytes in a block; what the code asks of \<open>/sys\<close> and of the slots is in \<open>lun_env\<close>. None is a
  read or write outside a buffer, a division by zero or an exception that nobody catches.
\<close>

section \<open>Data\<close>

abbreviation (input) TMP_DATA_SIZE :: nat where "TMP_DATA_SIZE \<equiv> 32 * 1024"
abbreviation (input) MAX_LUN_NUMBERS :: u32 where "MAX_LUN_NUMBERS \<equiv> 26"
abbreviation (input) GPT_PTABLE_BACKUP_SIZE :: nat where "GPT_PTABLE_BACKUP_SIZE \<equiv> 33"
abbreviation (input) USERDATA_PARTITION :: string where "USERDATA_PARTITION \<equiv> ''USERDATA''"
abbreviation (input) DEFAULT_SECTOR_NUM :: u64 where "DEFAULT_SECTOR_NUM \<equiv> 4 * 1024 * 1024 * 2 - 1"

record ptable_data =
  emmcGptDataLen :: u32
  lbaLen :: u32
  gptHeaderLen :: u32
  blockSize :: u32
  imgLuSize :: u32
  startLunNumber :: u32
  writeDeviceLunSize :: u32

record ufs_data =
  isGptVaild :: bool
  lunIndex :: u32
  lunSize :: u64
  writeDataLen :: u32
  dat :: bytes
  needWrite :: bool

record ufs_ptable =
  partitionInfo :: "ptn_info list"
  ptableData :: ptable_data
  reservedSize :: u64
  startPtnIndex :: int
  endPtnIndex :: int
  usrDataPtnIndex :: int
  hasTailpart :: bool
  isVabDevice :: bool
  isUpdaterMode :: bool
  lunOffset :: "u64 list"
  deviceLunNum :: u32
  ufsPtnDataInfo :: "ufs_data list"
  hasBackupPtable :: bool

record lun_env =
  capacity :: "u32 \<Rightarrow> u64"
  removable :: "u32 \<Rightarrow> bool"
  broken :: "string \<Rightarrow> bool"
  updateSlot :: int
  currentSlot :: int

definition GetDeviceLunNodePath :: "u32 \<Rightarrow> string" where
  "GetDeviceLunNodePath l = ''/dev/block/sd'' @ [char_of (97 + unat l)]"

section \<open>Nodes\<close>

definition CheckFileExist :: "world \<Rightarrow> string \<Rightarrow> bool" where
  "CheckFileExist w path \<longleftrightarrow> obj w (canon path) \<noteq> None \<or> canon path \<in> set (dirs w)"

text \<open>The result and what has been read into the buffer; \<open>broken\<close> tells the nodes that cannot be read.\<close>

definition MemReadWithOffset :: "lun_env \<Rightarrow> world \<Rightarrow> string \<Rightarrow> nat \<Rightarrow> nat \<Rightarrow> bool \<times> bytes" where
  "MemReadWithOffset e w path off n =
     (if path = [] \<or> n = 0 then (False, [])
      else case obj w (canon path) of
          None \<Rightarrow> (False, [])
        | Some c \<Rightarrow>
            if broken e path then (False, [])
            else (off + n \<le> length c, slice off n c))"

definition WriteBufferToPath :: "world \<Rightarrow> string \<Rightarrow> u64 \<Rightarrow> bytes \<Rightarrow> bool \<times> world" where
  "WriteBufferToPath w path off buffer =
     (case RawWriter_Write (RawWriter_new path off 0) w (Some buffer) of
        (ok, rw, w1) \<Rightarrow> (ok, if 0 < rw_fd rw then sys_close (snd (RawWriter_Sync rw w1)) (rw_fd rw) else w1))"

fun count_luns :: "lun_env \<Rightarrow> world \<Rightarrow> u32 list \<Rightarrow> u32 \<Rightarrow> u32" where
  "count_luns e w [] n = n"
| "count_luns e w (l # ls) n =
     (if \<not> CheckFileExist w (GetDeviceLunNodePath l) \<or> 3 < l \<and> removable e l then l else count_luns e w ls n)"

definition SetDeviceLunNum :: "lun_env \<Rightarrow> world \<Rightarrow> ufs_ptable \<Rightarrow> ufs_ptable" where
  "SetDeviceLunNum e w t =
     (if 0 < deviceLunNum t then t else t\<lparr>deviceLunNum := count_luns e w (map of_nat [0..<26]) MAX_LUN_NUMBERS\<rparr>)"

definition WritePtableLunOffset :: "ufs_ptable \<Rightarrow> u32 \<Rightarrow> u64 \<Rightarrow> bool \<times> ufs_ptable" where
  "WritePtableLunOffset t l off =
     (if MAX_LUN_NUMBERS \<le> l then (False, t) else (True, t\<lparr>lunOffset := (lunOffset t)[unat l := off]\<rparr>))"

section \<open>Reading a table\<close>

definition UfsGetGptEntryCrc :: "lun_env \<Rightarrow> world \<Rightarrow> u32 \<Rightarrow> header_check_inputs \<Rightarrow> u64 \<Rightarrow> u32 \<Rightarrow> u32 option" where
  "UfsGetGptEntryCrc e w deviceBlockSize inputs off crcLen =
     (if off = ucast (2 * deviceBlockSize) then Ptable_GetGptEntryCrc inputs off crcLen
      else if MAX_LUN_NUMBERS \<le> lunNum inputs then Some 0
      else case MemReadWithOffset e w (GetDeviceLunNodePath (lunNum inputs)) (unat off) (unat crcLen) of
          (False, _) \<Rightarrow> Some 0
        | (True, data) \<Rightarrow> CalculateCrc32 data crcLen)"

definition ParseGptHeaderByUfsLun :: "lun_env \<Rightarrow> world \<Rightarrow> ufs_ptable \<Rightarrow> bytes \<Rightarrow> u32 \<Rightarrow> u32 \<Rightarrow> u32 \<Rightarrow> bool option" where
  "ParseGptHeaderByUfsLun e w t img n l bs =
     do {
       header \<leftarrow> GetPartitionGptHeaderInfo (drop (unat bs) img) bs;
       case header of
         None \<Rightarrow> Some False
       | Some info \<Rightarrow>
           let deviceBlockSize = blockSize (ptableData t) in
           if deviceBlockSize = 0 then Some False
           else
             let lunLbaNum = ucast (capacity e l div ucast deviceBlockSize) :: u32;
                 inputs = \<lparr>gptImage = img, imgLen = n, lbaNum = ucast lunLbaNum, lunNum = l\<rparr>
             in PartitionCheckGptHeader (UfsGetGptEntryCrc e w deviceBlockSize) (writeDeviceLunSize (ptableData t)) inputs bs info
     }"

text \<open>
  The loops of \<open>UfsReadGptEntry\<close>: the list of partitions with the position where the next is inserted,
  their count, and whether and where the user data has been seen.
\<close>

record entry_state =
  infos :: "ptn_info list"
  insertAt :: nat
  entryCount :: nat
  tailFlag :: bool
  usrIndex :: int

definition new_partition :: "ufs_ptable \<Rightarrow> u32 \<Rightarrow> u32 \<Rightarrow> bytes \<Rightarrow> nat \<Rightarrow> nat \<Rightarrow> nat \<Rightarrow> bool \<Rightarrow> ptn_info option" where
  "new_partition t l bs img i j pos tail =
     do {
       firstLba \<leftarrow> GET_LLWORD_FROM_BYTE img (pos + FIRST_LBA_OFFSET);
       lastLba \<leftarrow> GET_LLWORD_FROM_BYTE img (pos + LAST_LBA_OFFSET);
       name \<leftarrow> ParsePartitionName (drop (pos + GPT_PARTITION_NAME_OFFSET) img) MAX_GPT_NAME_SIZE [] (MAX_GPT_NAME_SIZE div 2);
       Some \<lparr>startAddr = firstLba * ucast (blockSize (ptableData t)),
             partitionSize = (lastLba - firstLba + 1) * ucast (blockSize (ptableData t)),
             partitionTypeGuid = slice pos 16 img, lun = l,
             gptEntryBufOffset = sint ((2 + of_nat i) * bs + of_nat j * of_nat PARTITION_ENTRY_SIZE - 2 * bs),
             isTailPart = tail, dispName = name, partType = SetPartitionType name,
             writeMode = ''WRITE_RAW'', writePath = GetDeviceLunNodePath l\<rparr>
     }"

primrec read_block_entries ::
    "ufs_ptable \<Rightarrow> u32 \<Rightarrow> u32 \<Rightarrow> bytes \<Rightarrow> nat \<Rightarrow> nat list \<Rightarrow> entry_state \<Rightarrow> (bool \<times> entry_state) option" where
  "read_block_entries t l bs img i [] s = Some (False, s)"
| "read_block_entries t l bs img i (j # js) s =
     (let pos = (2 + i) * unat bs + j * PARTITION_ENTRY_SIZE in
      if length img < pos + 16 then None
      else if img ! pos = 0 \<and> img ! (pos + 1) = 0 then Some (True, s)
      else do {
        p \<leftarrow> new_partition t l bs img i j pos (tailFlag s);
        let usr = (dispName p = USERDATA_PARTITION);
        read_block_entries t l bs img i js
          (s\<lparr>infos := take (insertAt s) (infos s) @ p # drop (insertAt s) (infos s), insertAt := insertAt s + 1,
             entryCount := entryCount s + 1, tailFlag := (usr \<or> tailFlag s),
             usrIndex := (if usr then int (insertAt s) else usrIndex s)\<rparr>)
      })"

primrec read_gpt_blocks :: "ufs_ptable \<Rightarrow> u32 \<Rightarrow> u32 \<Rightarrow> bytes \<Rightarrow> nat list \<Rightarrow> entry_state \<Rightarrow> entry_state option" where
  "read_gpt_blocks t l bs img [] s = Some s"
| "read_gpt_blocks t l bs img (i # rest) s =
     (if MAX_PARTITION_NUM \<le> entryCount s then Some s
      else do {
        (ended, s') \<leftarrow> read_block_entries t l bs img i [0..<unat bs div PARTITION_ENTRY_SIZE] s;
        if ended then Some s' else read_gpt_blocks t l bs img rest s'
      })"

definition UfsReadGptEntry :: "ufs_ptable \<Rightarrow> bytes \<Rightarrow> u32 \<Rightarrow> u32 \<Rightarrow> nat \<Rightarrow> ufs_ptable option" where
  "UfsReadGptEntry t img l bs start =
     (let partEntryCnt = unat bs div PARTITION_ENTRY_SIZE in
      if partEntryCnt = 0 then None
      else do {
        s \<leftarrow> read_gpt_blocks t l bs img [0..<MAX_PARTITION_NUM div partEntryCnt]
               \<lparr>infos = partitionInfo t, insertAt = start, entryCount = 0, tailFlag = False, usrIndex = usrDataPtnIndex t\<rparr>;
        let t1 = t\<lparr>partitionInfo := infos s, usrDataPtnIndex := usrIndex s\<rparr>;
        let lastIndex = int (insertAt s) - 1;
        Some (if tailFlag s
              then t1\<lparr>endPtnIndex := lastIndex, startPtnIndex := lastIndex + 1 - int (entryCount s),
                      hasTailpart := isTailPart (infos s ! nat lastIndex)\<rparr>
              else t1)
      })"

text \<open>The partitions of the unit are erased; new ones go where the last of them was, or to the end.\<close>

primrec erase_lun :: "u32 \<Rightarrow> ptn_info list \<Rightarrow> nat option \<Rightarrow> ptn_info list \<Rightarrow> ptn_info list \<times> nat" where
  "erase_lun l kept start [] = (kept, case start of None \<Rightarrow> length kept | Some s \<Rightarrow> s)"
| "erase_lun l kept start (p # ps) =
     (if lun p = l then erase_lun l kept (Some (length kept)) ps else erase_lun l (kept @ [p]) start ps)"

definition UfsReadGpt :: "lun_env \<Rightarrow> world \<Rightarrow> ufs_ptable \<Rightarrow> bytes \<Rightarrow> u32 \<Rightarrow> u32 \<Rightarrow> u32 \<Rightarrow> (bool \<times> ufs_ptable) option" where
  "UfsReadGpt e w t img n l bs =
     (if n < writeDeviceLunSize (ptableData t) \<or> MAX_LUN_NUMBERS \<le> l \<or> bs = 0 \<or> n < 2 * bs then Some (False, t)
      else do {
        ok \<leftarrow> ParseGptHeaderByUfsLun e w t img n l bs;
        if \<not> ok then Some (False, t)
        else do {
          let (kept, start) = erase_lun l [] None (partitionInfo t);
          t' \<leftarrow> UfsReadGptEntry (t\<lparr>partitionInfo := kept\<rparr>) img l bs start;
          Some (True, t')
        }
      })"

section \<open>Patching a table for its device\<close>

text \<open>The number of entries in use, from the first byte of each; \<open>limit\<close> is the size of the entries.\<close>

function count_entries :: "bytes \<Rightarrow> nat \<Rightarrow> nat \<Rightarrow> nat \<Rightarrow> nat option" where
  "count_entries b base limit n =
     (if n * PARTITION_ENTRY_SIZE < limit
      then (if length b \<le> base + n * PARTITION_ENTRY_SIZE then None
            else if b ! (base + n * PARTITION_ENTRY_SIZE) \<noteq> 0 then count_entries b base limit (n + 1)
            else Some n)
      else Some n)"
  by pat_completeness auto
termination
  by (relation "measure (\<lambda>(b, base, limit, n). limit - n * PARTITION_ENTRY_SIZE)") auto

text \<open>The checksum of the entries and the one of the header, whose block begins at \<open>h\<close>.\<close>

definition patch_crcs :: "nat \<Rightarrow> bytes \<Rightarrow> bytes option" where
  "patch_crcs h b =
     do {
       partCount \<leftarrow> GET_LWORD_FROM_BYTE b (h + PARTITION_COUNT_OFFSET);
       entrySize \<leftarrow> GET_LWORD_FROM_BYTE b (h + PENTRY_SIZE_OFFSET);
       crcEntries \<leftarrow> CalculateCrc32 (drop (h * 2) b) (partCount * entrySize);
       b1 \<leftarrow> PUT_LONG (h + PARTITION_CRC_OFFSET) crcEntries b;
       b2 \<leftarrow> PUT_LONG (h + HEADER_CRC_OFFSET) 0 b1;
       crcHeader \<leftarrow> CalculateCrc32 (drop h b2) GPT_CRC_LEN;
       PUT_LONG (h + HEADER_CRC_OFFSET) crcHeader b2
     }"

definition last_usable_sector :: "ufs_ptable \<Rightarrow> u64 \<Rightarrow> u64" where
  "last_usable_sector t sectors =
     (let n = sectors - 1 - (if hasBackupPtable t then of_nat GPT_PTABLE_BACKUP_SIZE else 0)
      in if reservedSize t \<noteq> 0 \<and> reservedSize t < n then n - reservedSize t else n)"

definition patch_last_partition :: "ufs_ptable \<Rightarrow> u64 \<Rightarrow> nat \<Rightarrow> nat \<Rightarrow> bytes \<Rightarrow> bytes option" where
  "patch_last_partition t lastUsable h totalPart b =
     do {
       let pos = h * 2 + (totalPart - 1) * PARTITION_ENTRY_SIZE;
       lastLba \<leftarrow> GET_LLWORD_FROM_BYTE b (pos + LAST_LBA_OFFSET);
       firstLba \<leftarrow> GET_LLWORD_FROM_BYTE b (pos + FIRST_LBA_OFFSET);
       name \<leftarrow> ParsePartitionName (drop (pos + GPT_PARTITION_NAME_OFFSET) b) MAX_GPT_NAME_SIZE [] (MAX_GPT_NAME_SIZE div 2);
       if name = USERDATA_PARTITION \<or> totalPart = 1 \<and> (lastLba - firstLba + 1) * ucast (blockSize (ptableData t)) = 0
       then PUT_LONG_LONG (pos + LAST_LBA_OFFSET) lastUsable b else Some b
     }"

definition UfsPatchGptHeader :: "ufs_ptable \<Rightarrow> ufs_data \<Rightarrow> u32 \<Rightarrow> ufs_data option" where
  "UfsPatchGptHeader t d bs =
     (let deviceBlockSize = blockSize (ptableData t); h = unat bs in
      if bs = 0 \<or> writeDataLen d < 2 * bs \<or> lunSize d = 0 \<or> deviceBlockSize = 0 then Some d
      else do {
        let quotient = lunSize d div ucast deviceBlockSize;
        let cardSizeSector = (if quotient = 0 then DEFAULT_SECTOR_NUM else quotient);
        let lastUsable = last_usable_sector t cardSizeSector;
        b1 \<leftarrow> PUT_LONG_LONG (h + BACKUP_HEADER_OFFSET) (cardSizeSector - 1) (dat d);
        b2 \<leftarrow> PUT_LONG_LONG (h + LAST_USABLE_LBA_OFFSET) lastUsable b1;
        totalPart \<leftarrow> count_entries b2 (h * 2) (unat (of_nat TMP_DATA_SIZE - bs - bs)) 0;
        if totalPart = 0 then Some (d\<lparr>dat := b2\<rparr>)
        else do {
          b3 \<leftarrow> patch_last_partition t lastUsable h totalPart b2;
          b4 \<leftarrow> patch_crcs h b3;
          Some (d\<lparr>dat := b4\<rparr>)
        }
      })"

definition MatchSuffix :: "ufs_ptable \<Rightarrow> string \<Rightarrow> ufs_data \<Rightarrow> bool option" where
  "MatchSuffix t suffix d =
     do {
       name \<leftarrow> ParsePartitionName (drop (2 * unat (blockSize (ptableData t)) + GPT_PARTITION_NAME_OFFSET) (dat d))
                 MAX_GPT_NAME_SIZE [] (MAX_GPT_NAME_SIZE div 2);
       if length name < 2 then None
       else Some (drop (length name - 2) name = map toupper suffix)
     }"

definition SetLunPtnDataInfoNeedWrite :: "lun_env \<Rightarrow> ufs_ptable \<Rightarrow> ufs_data \<Rightarrow> ufs_data option" where
  "SetLunPtnDataInfoNeedWrite e t d =
     (if \<not> isVabDevice t then Some (d\<lparr>needWrite := True\<rparr>)
      else if lunIndex d < 2 then Some (d\<lparr>needWrite := isUpdaterMode t\<rparr>)
      else if updateSlot e \<noteq> 1 \<and> updateSlot e \<noteq> 2 \<or> currentSlot e = updateSlot e
      then Some (d\<lparr>needWrite := isUpdaterMode t\<rparr>)
      else do {
        found \<leftarrow> MatchSuffix t (if (updateSlot e = 1) = isUpdaterMode t then ''_b'' else ''_a'') d;
        Some (d\<lparr>needWrite := (found \<noteq> isUpdaterMode t)\<rparr>)
      })"

section \<open>From an image\<close>

definition image_pmbr_start :: "ufs_ptable \<Rightarrow> u32 \<Rightarrow> nat" where
  "image_pmbr_start t i = unat (emmcGptDataLen (ptableData t) + i * imgLuSize (ptableData t))"

definition image_header_start :: "ufs_ptable \<Rightarrow> u32 \<Rightarrow> nat" where
  "image_header_start t i =
     unat (emmcGptDataLen (ptableData t) + i * imgLuSize (ptableData t) + lbaLen (ptableData t))"

definition image_entry_start :: "ufs_ptable \<Rightarrow> u32 \<Rightarrow> nat" where
  "image_entry_start t i =
     unat (emmcGptDataLen (ptableData t) + i * imgLuSize (ptableData t) + lbaLen (ptableData t) + gptHeaderLen (ptableData t))"

text \<open>
  A copy of \<open>n\<close> bytes into the data from offset \<open>off\<close> on. The bounded copy clears its target when it
  is too small, and the code goes on.
\<close>

definition copy_to_data :: "nat \<Rightarrow> bytes \<Rightarrow> nat \<Rightarrow> bytes \<Rightarrow> bytes option" where
  "copy_to_data off src n b =
     (if TMP_DATA_SIZE < off then None
      else if TMP_DATA_SIZE - off < n then Some (blit off (replicate (TMP_DATA_SIZE - off) 0) b)
      else if length src < n then None
      else Some (blit off (take n src) b))"

definition AddUfsPtnDataInfo :: "lun_env \<Rightarrow> ufs_ptable \<Rightarrow> ufs_data \<Rightarrow> u32 \<Rightarrow> u32 \<Rightarrow> (ufs_data \<times> ufs_ptable) option" where
  "AddUfsPtnDataInfo e t d deviceBlockSize i =
     do {
       let l = i + startLunNumber (ptableData t);
       d1 \<leftarrow> UfsPatchGptHeader t (d\<lparr>writeDataLen := writeDeviceLunSize (ptableData t), lunIndex := l, lunSize := capacity e l\<rparr>) deviceBlockSize;
       d2 \<leftarrow> SetLunPtnDataInfoNeedWrite e t (d1\<lparr>isGptVaild := True\<rparr>);
       Some (d2, t\<lparr>ufsPtnDataInfo := ufsPtnDataInfo t @ [d2]\<rparr>)
     }"

text \<open>\<open>uninit\<close> is what a data record holds that is not initialised.\<close>

definition parse_image_lun :: "ufs_data \<Rightarrow> lun_env \<Rightarrow> world \<Rightarrow> bytes \<Rightarrow> u32 \<Rightarrow> ufs_ptable \<Rightarrow> (bool \<times> ufs_ptable) option" where
  "parse_image_lun uninit e w img i t =
     do {
       let d = uninit\<lparr>dat := replicate TMP_DATA_SIZE 0, needWrite := True\<rparr>;
       let imgBlockSize = lbaLen (ptableData t);
       let deviceBlockSize = blockSize (ptableData t);
       let h = unat deviceBlockSize;
       mbr \<leftarrow> CheckProtectiveMbr (drop (image_pmbr_start t i) img) imgBlockSize;
       gpt \<leftarrow> (if mbr then CheckIfValidGpt (drop (image_header_start t i) img) imgBlockSize else Some False);
       if \<not> gpt then Some (True, t\<lparr>ufsPtnDataInfo := ufsPtnDataInfo t @ [d\<lparr>isGptVaild := False, needWrite := False\<rparr>]\<rparr>)
       else do {
         b1 \<leftarrow> copy_to_data 0 (drop (image_pmbr_start t i) img) (unat imgBlockSize) (dat d);
         b2 \<leftarrow> copy_to_data h (drop (image_header_start t i) img) (unat imgBlockSize) b1;
         b3 \<leftarrow> copy_to_data (2 * h) (drop (image_entry_start t i) img) (128 * 128) b2;
         (d1, t1) \<leftarrow> AddUfsPtnDataInfo e t (d\<lparr>dat := b3\<rparr>) deviceBlockSize i;
         UfsReadGpt e w t1 (dat d1) (writeDataLen d1) (lunIndex d1) deviceBlockSize
       }
     }"

primrec parse_image_luns :: "ufs_data \<Rightarrow> lun_env \<Rightarrow> world \<Rightarrow> bytes \<Rightarrow> u32 list \<Rightarrow> ufs_ptable \<Rightarrow> (bool \<times> ufs_ptable) option" where
  "parse_image_luns uninit e w img [] t = Some (True, t)"
| "parse_image_luns uninit e w img (i # rest) t =
     do {
       (ok, t1) \<leftarrow> parse_image_lun uninit e w img i t;
       if ok then parse_image_luns uninit e w img rest t1 else Some (False, t1)
     }"

definition ParsePartitionFromBuffer :: "ufs_data \<Rightarrow> lun_env \<Rightarrow> world \<Rightarrow> ufs_ptable \<Rightarrow> bytes \<Rightarrow> u32 \<Rightarrow> (bool \<times> ufs_ptable) option" where
  "ParsePartitionFromBuffer uninit e w t img imgBufSize =
     (if imgBufSize < emmcGptDataLen (ptableData t) + imgLuSize (ptableData t) then Some (False, t)
      else if blockSize (ptableData t) \<noteq> 512 \<and> blockSize (ptableData t) \<noteq> 4096 then Some (False, t)
      else let t1 = (SetDeviceLunNum e w t)\<lparr>ufsPtnDataInfo := []\<rparr>
        in parse_image_luns uninit e w img (map of_nat [0..<unat (deviceLunNum t1)]) t1)"

section \<open>From the device\<close>

definition ReadAndCheckMbr :: "lun_env \<Rightarrow> world \<Rightarrow> ufs_ptable \<Rightarrow> u32 \<Rightarrow> u32 \<Rightarrow> bool option" where
  "ReadAndCheckMbr e w t l bs =
     (if bs = 0 \<or> deviceLunNum t < l then Some False
      else case MemReadWithOffset e w (GetDeviceLunNodePath l) 0 (unat bs) of
          (False, _) \<Rightarrow> Some False
        | (True, buffer) \<Rightarrow> CheckProtectiveMbr buffer bs)"

definition LoadPartitionInfoFromLun :: "ufs_data \<Rightarrow> lun_env \<Rightarrow> world \<Rightarrow> ufs_ptable \<Rightarrow> u32 \<Rightarrow> u32 \<Rightarrow> (bool \<times> ufs_ptable) option" where
  "LoadPartitionInfoFromLun uninit e w t l n =
     (if n = 0 \<or> deviceLunNum t < l then Some (False, t)
      else case MemReadWithOffset e w (GetDeviceLunNodePath l) (unat (lunOffset t ! unat l)) (unat n) of
          (False, _) \<Rightarrow> Some (False, t)
        | (True, buffer) \<Rightarrow>
            do {
              b \<leftarrow> copy_to_data 0 buffer (unat n) (replicate TMP_DATA_SIZE 0);
              let d = uninit\<lparr>isGptVaild := True, lunIndex := l, lunSize := ucast n, writeDataLen := n, dat := b, needWrite := True\<rparr>;
              UfsReadGpt e w (t\<lparr>ufsPtnDataInfo := ufsPtnDataInfo t @ [d]\<rparr>) buffer n l (blockSize (ptableData t))
            })"

primrec load_luns :: "ufs_data \<Rightarrow> lun_env \<Rightarrow> world \<Rightarrow> u32 list \<Rightarrow> ufs_ptable \<Rightarrow> ufs_ptable option" where
  "load_luns uninit e w [] t = Some t"
| "load_luns uninit e w (l # rest) t =
     do {
       ok \<leftarrow> ReadAndCheckMbr e w t l (blockSize (ptableData t));
       t1 \<leftarrow> (if ok then map_option snd (LoadPartitionInfoFromLun uninit e w t l (writeDeviceLunSize (ptableData t))) else Some t);
       load_luns uninit e w rest t1
     }"

definition LoadPtableFromDevice :: "ufs_data \<Rightarrow> lun_env \<Rightarrow> world \<Rightarrow> ufs_ptable \<Rightarrow> (bool \<times> ufs_ptable) option" where
  "LoadPtableFromDevice uninit e w t =
     (if partitionInfo t \<noteq> [] then Some (True, t)
      else let t1 = SetDeviceLunNum e w t in
        map_option (\<lambda>t2. (deviceLunNum t1 \<noteq> 0, t2)) (load_luns uninit e w (map of_nat [0..<unat (deviceLunNum t1)]) t1))"

end
