(* ===== verification/Ufs_Edit.thy ===== *)
theory Ufs_Edit
  imports Ufs_Ptable
begin

text \<open>
  Writing and editing the partition tables of a UFS device (the rest of
  \<open>src/services/ptable_parse/ufs_ptable.cpp\<close>): the tables and their backups, the image that is edited
  before it is written, and the copy of the table of one slot to the unit of the other.
\<close>

section \<open>Writing\<close>

definition WriteBackupPartitionTable :: "world \<Rightarrow> ufs_ptable \<Rightarrow> u32 \<Rightarrow> u64 \<Rightarrow> (bool \<times> world) option" where
  "WriteBackupPartitionTable w t lunIdx lunCap =
     (let deviceBlockSize = blockSize (ptableData t); h = unat deviceBlockSize;
          backup = of_nat GPT_PTABLE_BACKUP_SIZE * deviceBlockSize in
      if length (ufsPtnDataInfo t) \<le> unat lunIdx then Some (False, w)
      else if lunCap = 0 \<or> lunCap \<le> ucast backup then Some (False, w)
      else if deviceBlockSize = 0 then Some (False, w)
      else do {
        let data = dat (ufsPtnDataInfo t ! unat lunIdx);
        let entryOffset = lunCap - ucast backup;
        let headerOffset = lunCap - ucast deviceBlockSize;
        if SECUREC_MEM_MAX_LEN < h then Some (False, w)
        else if length data < 2 * h then None
        else do {
          header \<leftarrow> PatchBackUpGptHeader (slice h h data) deviceBlockSize (entryOffset div ucast deviceBlockSize);
          case WriteBufferToPath w (GetDeviceLunNodePath lunIdx) headerOffset header of
            (False, w1) \<Rightarrow> Some (False, w1)
          | (True, w1) \<Rightarrow>
              let n = unat (of_nat (GPT_PTABLE_BACKUP_SIZE - 1) * deviceBlockSize) in
              if length data < h * 2 + n then None
              else Some (WriteBufferToPath w1 (GetDeviceLunNodePath lunIdx) entryOffset (slice (h * 2) n data))
        }
      })"

definition write_lun_table :: "lun_env \<Rightarrow> ufs_ptable \<Rightarrow> ufs_data \<Rightarrow> world \<Rightarrow> (bool \<times> world) option" where
  "write_lun_table e t d w =
     (if MAX_LUN_NUMBERS \<le> lunIndex d then Some (False, w)
      else let off = lunOffset t ! unat (lunIndex d) in
        if \<not> needWrite d \<and> off = 0 then Some (True, w)
        else if \<not> isGptVaild d then Some (True, w)
        else if length (dat d) < unat (writeDataLen d) then None
        else case WriteBufferToPath w (GetDeviceLunNodePath (lunIndex d)) off (take (unat (writeDataLen d)) (dat d)) of
            (False, w1) \<Rightarrow> Some (False, w1)
          | (True, w1) \<Rightarrow>
              if hasBackupPtable t
              then map_option (\<lambda>(_, w2). (True, w2)) (WriteBackupPartitionTable w1 t (lunIndex d) (capacity e (lunIndex d)))
              else Some (True, w1))"

primrec write_lun_tables :: "lun_env \<Rightarrow> ufs_ptable \<Rightarrow> ufs_data list \<Rightarrow> world \<Rightarrow> (bool \<times> world) option" where
  "write_lun_tables e t [] w = Some (True, w)"
| "write_lun_tables e t (d # ds) w =
     do {
       (ok, w1) \<leftarrow> write_lun_table e t d w;
       if ok then write_lun_tables e t ds w1 else Some (False, w1)
     }"

definition WritePartitionTable :: "lun_env \<Rightarrow> world \<Rightarrow> ufs_ptable \<Rightarrow> (bool \<times> world) option" where
  "WritePartitionTable e w t =
     (if ufsPtnDataInfo t = [] then Some (False, w) else write_lun_tables e t (ufsPtnDataInfo t) w)"

section \<open>Editing an image\<close>

text \<open>
  The changes of the list for one unit, each on the memory from the table of the unit on. The outer None
  is a change that never ends.
\<close>

primrec change_list :: "gpt_parse_info \<Rightarrow> u64 \<Rightarrow> u32 \<Rightarrow> ptn_info list \<Rightarrow> bytes \<Rightarrow> (bool \<times> bytes) option option" where
  "change_list gptInfo gptSize l [] buf = Some (Some (True, buf))"
| "change_list gptInfo gptSize l (p # ps) buf =
     (if lun p \<noteq> l then change_list gptInfo gptSize l ps buf
      else case ChangeGpt buf gptSize gptInfo p of
          Some (Some (True, buf')) \<Rightarrow> change_list gptInfo gptSize l ps buf'
        | r \<Rightarrow> r)"

definition edit_image_lun ::
    "lun_env \<Rightarrow> ufs_ptable \<Rightarrow> ptn_info list \<Rightarrow> u32 \<Rightarrow> bytes \<Rightarrow> (bool \<times> bytes) option option" where
  "edit_image_lun e t modifyList i img =
     (let l = i + startLunNumber (ptableData t); start = image_pmbr_start t l;
          imgBlockSize = lbaLen (ptableData t); deviceBlockSize = blockSize (ptableData t) in
      if capacity e l = 0 then Some (Some (False, img))
      else if length (ufsPtnDataInfo t) \<le> unat i then Some None
      else if \<not> isGptVaild (ufsPtnDataInfo t ! unat i) then Some (Some (True, img))
      else
        let gptInfo = \<lparr>imgBlockSize = ucast imgBlockSize, devBlockSize = ucast deviceBlockSize,
              devDensity = capacity e l -
                (if hasBackupPtable t then ucast (of_nat GPT_PTABLE_BACKUP_SIZE * deviceBlockSize) else 0)\<rparr>
        in case change_list gptInfo (ucast (imgLuSize (ptableData t))) l modifyList (drop start img) of
            None \<Rightarrow> None
          | Some None \<Rightarrow> Some None
          | Some (Some (False, buf)) \<Rightarrow> Some (Some (False, take start img @ buf))
          | Some (Some (True, buf)) \<Rightarrow>
              Some (do {
                b \<leftarrow> copy_to_data 0 buf (unat imgBlockSize) (replicate TMP_DATA_SIZE 0);
                _ \<leftarrow> UfsPatchGptHeader t \<lparr>isGptVaild = True, lunIndex = l, lunSize = capacity e l,
                      writeDataLen = writeDeviceLunSize (ptableData t), dat = b, needWrite = True\<rparr> imgBlockSize;
                Some (True, take start img @ buf)
              }))"

primrec edit_image_luns ::
    "lun_env \<Rightarrow> ufs_ptable \<Rightarrow> ptn_info list \<Rightarrow> u32 list \<Rightarrow> bytes \<Rightarrow> (bool \<times> bytes) option option" where
  "edit_image_luns e t modifyList [] img = Some (Some (True, img))"
| "edit_image_luns e t modifyList (i # rest) img =
     (case edit_image_lun e t modifyList i img of
        Some (Some (True, img')) \<Rightarrow> edit_image_luns e t modifyList rest img'
      | r \<Rightarrow> r)"

definition EditPartitionBuf ::
    "lun_env \<Rightarrow> ufs_ptable \<Rightarrow> bytes \<Rightarrow> u64 \<Rightarrow> ptn_info list \<Rightarrow> (bool \<times> bytes) option option" where
  "EditPartitionBuf e t img imgBufSize modifyList =
     (if imgBufSize = 0 \<or> modifyList = [] \<or> blockSize (ptableData t) = 0 then Some (Some (False, img))
      else if imgBufSize < ucast (emmcGptDataLen (ptableData t)) \<or> deviceLunNum t = 0 then Some (Some (False, img))
      else edit_image_luns e t modifyList (map of_nat [0..<unat (deviceLunNum t)]) img)"

section \<open>The image of the device\<close>

text \<open>A read into the image at a position; None is a write outside the image.\<close>

definition read_to_image ::
    "lun_env \<Rightarrow> world \<Rightarrow> string \<Rightarrow> nat \<Rightarrow> nat \<Rightarrow> nat \<Rightarrow> bytes \<Rightarrow> (bool \<times> bytes) option" where
  "read_to_image e w node off pos n img =
     (case MemReadWithOffset e w node off n of
        (ok, data) \<Rightarrow> if length img < pos + length data then None else Some (ok, blit pos data img))"

definition load_image_lun :: "lun_env \<Rightarrow> world \<Rightarrow> ufs_ptable \<Rightarrow> u32 \<Rightarrow> bytes \<Rightarrow> (bool \<times> bytes) option" where
  "load_image_lun e w t i img =
     (let n = lbaLen (ptableData t); deviceBlockSize = blockSize (ptableData t);
          node = GetDeviceLunNodePath (i + startLunNumber (ptableData t));
          at0 = image_pmbr_start t i in
      if \<not> CheckFileExist w node then Some (False, img)
      else do {
        (ok1, img1) \<leftarrow> read_to_image e w node 0 at0 (unat n) img;
        if \<not> ok1 then Some (True, img1)
        else do {
          isGptExist \<leftarrow> CheckProtectiveMbr (drop at0 img1) n;
          if \<not> isGptExist then Some (True, img1)
          else do {
            let at1 = at0 + unat n;
            (ok2, img2) \<leftarrow> read_to_image e w node (unat deviceBlockSize) at1 (unat n) img1;
            if \<not> ok2 then Some (False, img2)
            else do {
              maxPartCount \<leftarrow> GET_LWORD_FROM_BYTE img2 (at1 + PARTITION_COUNT_OFFSET);
              entrySize \<leftarrow> GET_LWORD_FROM_BYTE img2 (at1 + PENTRY_SIZE_OFFSET);
              read_to_image e w node (unat (deviceBlockSize + deviceBlockSize)) (at1 + unat n) (unat (maxPartCount * entrySize)) img2
            }
          }
        }
      })"

primrec load_image_luns :: "lun_env \<Rightarrow> world \<Rightarrow> ufs_ptable \<Rightarrow> u32 list \<Rightarrow> bytes \<Rightarrow> (bool \<times> bytes) option" where
  "load_image_luns e w t [] img = Some (True, img)"
| "load_image_luns e w t (i # rest) img =
     do {
       (ok, img1) \<leftarrow> load_image_lun e w t i img;
       if ok then load_image_luns e w t rest img1 else Some (False, img1)
     }"

definition GetPtableImageBuffer ::
    "lun_env \<Rightarrow> world \<Rightarrow> ufs_ptable \<Rightarrow> bytes \<Rightarrow> u32 \<Rightarrow> (bool \<times> bytes \<times> ufs_ptable) option" where
  "GetPtableImageBuffer e w t img imgBufSize =
     (let t1 = SetDeviceLunNum e w t in
      if imgBufSize = 0 \<or> imgBufSize < emmcGptDataLen (ptableData t) + imgLuSize (ptableData t) * deviceLunNum t1
      then Some (False, img, t1)
      else map_option (\<lambda>(ok, img'). (ok, img', t1)) (load_image_luns e w t1 (map of_nat [0..<unat (deviceLunNum t1)]) img))"

section \<open>The slots\<close>

definition GetTgtPartitionName :: "string \<Rightarrow> int \<Rightarrow> string" where
  "GetTgtPartitionName name sourceSlot =
     (let other = (if sourceSlot = 1 then ''_b'' else ''_a'') in
      if length name < 2 then name @ other
      else
        let suffix = drop (length name - 2) name; stem = take (length name - 2) name
        in if strcasecmp suffix ''_a'' then stem @ ''_b''
           else if strcasecmp suffix ''_b'' then stem @ ''_a''
           else name @ other)"

primrec rename_block_entries :: "int \<Rightarrow> nat \<Rightarrow> nat list \<Rightarrow> nat \<Rightarrow> bytes \<Rightarrow> ((bool \<times> bool) \<times> nat \<times> bytes) option" where
  "rename_block_entries slot base [] count img = Some ((True, False), count, img)"
| "rename_block_entries slot base (j # js) count img =
     (let pos = base + j * PARTITION_ENTRY_SIZE in
      if length img < pos + 16 then None
      else if img ! pos = 0 \<and> img ! (pos + 1) = 0 then Some ((True, True), count, img)
      else do {
        sourceName \<leftarrow> ParsePartitionName (drop (pos + GPT_PARTITION_NAME_OFFSET) img) MAX_GPT_NAME_SIZE [] (MAX_GPT_NAME_SIZE div 2);
        let targetName = GetTgtPartitionName sourceName slot;
        (ok, img') \<leftarrow> WritePartitionName targetName (length targetName) (pos + GPT_PARTITION_NAME_OFFSET) MAX_GPT_NAME_SIZE img;
        if \<not> ok then Some ((False, True), count, img')
        else rename_block_entries slot base js (count + 1) img'
      })"

text \<open>The first flag of the result is whether the entries could be renamed, the second whether the table ended.\<close>

primrec rename_blocks :: "int \<Rightarrow> nat \<Rightarrow> nat list \<Rightarrow> nat \<Rightarrow> bytes \<Rightarrow> (bool \<times> bytes) option" where
  "rename_blocks slot h [] count img = Some (True, img)"
| "rename_blocks slot h (i # rest) count img =
     (if MAX_PARTITION_NUM \<le> count then Some (True, img)
      else do {
        ((ok, ended), count', img') \<leftarrow> rename_block_entries slot ((2 + i) * h) [0..<h div PARTITION_ENTRY_SIZE] count img;
        if \<not> ok then Some (False, img')
        else if ended then Some (True, img')
        else rename_blocks slot h rest count' img'
      })"

definition EditABPartition :: "bytes \<Rightarrow> u32 \<Rightarrow> int \<Rightarrow> (bool \<times> bytes) option" where
  "EditABPartition img bs sourceSlot =
     (let h = unat bs; partEntryCnt = h div PARTITION_ENTRY_SIZE in
      if partEntryCnt = 0 then Some (False, img)
      else do {
        (ok, img1) \<leftarrow> rename_blocks sourceSlot h [0..<MAX_PARTITION_NUM div partEntryCnt] 0 img;
        if \<not> ok then Some (False, img1)
        else map_option (Pair True) (patch_crcs h img1)
      })"

definition ModifyBufferPartitionName :: "ufs_ptable \<Rightarrow> bytes \<Rightarrow> u32 \<Rightarrow> int \<Rightarrow> (bool \<times> bytes) option" where
  "ModifyBufferPartitionName t buffer bufferSize sourceSlot =
     (if bufferSize = 0 \<or> blockSize (ptableData t) = 0 then Some (False, buffer)
      else EditABPartition buffer (blockSize (ptableData t)) sourceSlot)"

definition slot_lun :: "int \<Rightarrow> u32" where
  "slot_lun slot = (if slot = 1 then 3 else 4)"

definition SyncABLunPtableDevice :: "lun_env \<Rightarrow> world \<Rightarrow> ufs_ptable \<Rightarrow> int \<Rightarrow> (bool \<times> world) option" where
  "SyncABLunPtableDevice e w t sourceSlot =
     (let n = writeDeviceLunSize (ptableData t) in
      if sourceSlot \<noteq> 1 \<and> sourceSlot \<noteq> 2 then Some (False, w)
      else if n = 0 \<or> 1024 * 1024 < n then Some (False, w)
      else case MemReadWithOffset e w (GetDeviceLunNodePath (slot_lun sourceSlot)) 0 (unat n) of
          (False, _) \<Rightarrow> Some (False, w)
        | (True, buffer) \<Rightarrow>
            do {
              (ok, buffer') \<leftarrow> ModifyBufferPartitionName t buffer n sourceSlot;
              if \<not> ok then Some (False, w)
              else Some (WriteBufferToPath w (GetDeviceLunNodePath (slot_lun (3 - sourceSlot))) 0 buffer')
            })"

definition GetABLunPartitionInfo :: "world \<Rightarrow> ufs_ptable \<Rightarrow> int \<Rightarrow> (bool \<times> string \<times> string \<times> u32) option" where
  "GetABLunPartitionInfo w t sourceSlot =
     (if sourceSlot \<noteq> 1 \<and> sourceSlot \<noteq> 2 then None
      else
        let src = GetDeviceLunNodePath (slot_lun sourceSlot); tgt = GetDeviceLunNodePath (slot_lun (3 - sourceSlot));
            off = writeDeviceLunSize (ptableData t)
        in Some (off \<noteq> 0 \<and> CheckFileExist w src \<and> CheckFileExist w tgt, src, tgt, off))"

section \<open>Correcting an image\<close>

text \<open>One partition of the loop; a table copy is corrected, the entries are read from the image.\<close>

definition correct_entry :: "u64 \<Rightarrow> bytes \<Rightarrow> ptn_info \<Rightarrow> ptn_info \<Rightarrow> bytes \<Rightarrow> (bool \<times> bytes) option" where
  "correct_entry deviceBlockSize entries src dst newBuf =
     (if startAddr src = startAddr dst \<and> partitionSize src = partitionSize dst \<and> dispName src = dispName dst
      then Some (True, newBuf)
      else if deviceBlockSize = 0 \<or> gptEntryBufOffset dst < 0 \<or> length entries < nat (gptEntryBufOffset dst) + PARTITION_ENTRY_SIZE then None
      else do {
        e1 \<leftarrow> PUT_LONG_LONG FIRST_LBA_OFFSET (startAddr dst div deviceBlockSize)
                (slice (nat (gptEntryBufOffset dst)) PARTITION_ENTRY_SIZE entries);
        e2 \<leftarrow> PUT_LONG_LONG LAST_LBA_OFFSET ((startAddr dst + partitionSize dst) div deviceBlockSize - 1) e1;
        if int (PARTITION_ENTRY_SIZE * MAX_PARTITION_NUM - PARTITION_ENTRY_SIZE) < gptEntryBufOffset src then Some (False, newBuf)
        else if gptEntryBufOffset src < 0 then None
        else Some (True, blit (nat (gptEntryBufOffset src)) e2 newBuf)
      })"

primrec correct_entries ::
    "u64 \<Rightarrow> bytes \<Rightarrow> ptn_info list \<Rightarrow> ptn_info list \<Rightarrow> int list \<Rightarrow> bytes \<Rightarrow> (bool \<times> bytes) option" where
  "correct_entries bs entries srcs dsts [] newBuf = Some (True, newBuf)"
| "correct_entries bs entries srcs dsts (i # rest) newBuf =
     (if i < 0 \<or> length srcs \<le> nat i \<or> length dsts \<le> nat i then None
      else do {
        (ok, newBuf') \<leftarrow> correct_entry bs entries (srcs ! nat i) (dsts ! nat i) newBuf;
        if ok then correct_entries bs entries srcs dsts rest newBuf' else Some (False, newBuf')
      })"

definition CorrectBufByPtnList ::
    "ufs_ptable \<Rightarrow> bytes \<Rightarrow> u64 \<Rightarrow> ptn_info list \<Rightarrow> ptn_info list \<Rightarrow> (bool \<times> bytes) option" where
  "CorrectBufByPtnList t img imgBufSize srcs dsts =
     (let editLen = PARTITION_ENTRY_SIZE * MAX_PARTITION_NUM in
      if imgBufSize = 0 \<or> length srcs \<noteq> length dsts then Some (False, img)
      else if usrDataPtnIndex t < 0 \<or> endPtnIndex t < 0 \<or> int (length dsts) \<le> usrDataPtnIndex t \<or> int (length dsts) \<le> endPtnIndex t
      then Some (False, img)
      else do {
        let start = image_entry_start t (lun (dsts ! nat (usrDataPtnIndex t)));
        if length img < start + editLen then None
        else do {
          (ok, newBuf) \<leftarrow> correct_entries (ucast (blockSize (ptableData t))) (drop start img) srcs dsts
                           [startPtnIndex t..endPtnIndex t] (slice start editLen img);
          if \<not> ok then Some (False, img)
          else if unat imgBufSize \<le> start then Some (False, img)
          else if SECUREC_MEM_MAX_LEN < unat imgBufSize - start then Some (False, img)
          else if unat imgBufSize - start < editLen then Some (False, blit start (replicate (unat imgBufSize - start) 0) img)
          else Some (True, blit start newBuf img)
        }
      })"

end
