(* ===== verification/Gpt_Laws.thy ===== *)
theory Gpt_Laws
  imports Gpt_Table
begin

text \<open>
  Laws of the partition tables: the fields of a table, the detection of damaged headers, the names, and
  the layout that a change of a partition leaves.
\<close>

section \<open>Fields\<close>

definition le_list :: "nat \<Rightarrow> 'a::len word \<Rightarrow> bytes" where
  "le_list n y = map (\<lambda>k. ucast (drop_bit (8 * k) y)) [0..<n]"

lemma length_le_list [simp]: "length (le_list n y) = n"
  by (simp add: le_list_def)

lemma nth_le_list: "k < n \<Longrightarrow> le_list n y ! k = ucast (drop_bit (8 * k) y)"
  by (simp add: le_list_def)

lemma low_byte: "ucast (w AND 0xff) = (ucast (w :: 'a::len word) :: u8)"
proof -
  have mask: "(0xff :: 'a word) = mask 8" by (simp add: mask_eq_exp_minus_1)
  show ?thesis unfolding mask by (rule bit_word_eqI) (auto simp: bit_simps dest: bit_imp_le_length)
qed

lemma PUT_LONG_le: "PUT_LONG i y x = (if i + 4 \<le> length x then Some (blit i (le_list 4 y) x) else None)"
  by (simp add: PUT_LONG_def low_byte le_list_def upt_rec)

lemma PUT_LONG_LONG_le: "PUT_LONG_LONG i y x = (if i + 8 \<le> length x then Some (blit i (le_list 8 y) x) else None)"
  by (simp add: PUT_LONG_LONG_def low_byte le_list_def upt_rec)

lemma le_list_inj: "le_list n x = le_list n y \<Longrightarrow> LENGTH('a) \<le> 8 * n \<Longrightarrow> x = (y :: 'a::len word)"
proof (rule bit_word_eqI)
  fix m assume eq: "le_list n x = le_list n y" and n: "LENGTH('a) \<le> 8 * n" "m < LENGTH('a)"
  have "bit (le_list n w ! (m div 8)) (m mod 8) = bit w m" for w :: "'a word"
    using n by (simp add: nth_le_list bit_simps less_mult_imp_div_less mult.commute)
  then show "bit x m = bit y m" using eq by metis
qed

lemma slice4: "i + 4 \<le> length x \<Longrightarrow> slice i 4 x = [x ! i, x ! (i + 1), x ! (i + 2), x ! (i + 3)]"
  by (rule nth_equalityI) (auto simp: nth_slice less_Suc_eq numeral_eq_Suc)

lemma slice8: "i + 8 \<le> length x \<Longrightarrow>
    slice i 8 x = [x ! i, x ! (i + 1), x ! (i + 2), x ! (i + 3), x ! (i + 4), x ! (i + 5), x ! (i + 6), x ! (i + 7)]"
  by (rule nth_equalityI) (auto simp: nth_slice less_Suc_eq numeral_eq_Suc)

lemma le_list_word4:
  "le_list 4 (ucast a OR push_bit 8 (ucast b) OR push_bit 16 (ucast c) OR push_bit 24 (ucast d) :: u32) = [a, b, c, d :: u8]"
proof -
  define w :: u32 where "w = ucast a OR push_bit 8 (ucast b) OR push_bit 16 (ucast c) OR push_bit 24 (ucast d)"
  have "ucast (drop_bit 0 w) = a" "ucast (drop_bit 8 w) = b" "ucast (drop_bit 16 w) = c" "ucast (drop_bit 24 w) = d"
    unfolding w_def by (rule bit_word_eqI, auto simp: bit_simps dest: bit_imp_le_length)+
  then show ?thesis unfolding w_def [symmetric] by (simp add: le_list_def upt_rec)
qed

lemma le_list_word8:
  "le_list 8 (ucast a OR push_bit 8 (ucast b) OR push_bit 16 (ucast c) OR push_bit 24 (ucast d)
     OR push_bit 32 (ucast e) OR push_bit 40 (ucast f) OR push_bit 48 (ucast g) OR push_bit 56 (ucast h) :: u64) = [a, b, c, d, e, f, g, h :: u8]"
proof -
  define w :: u64 where "w = ucast a OR push_bit 8 (ucast b) OR push_bit 16 (ucast c) OR push_bit 24 (ucast d)
     OR push_bit 32 (ucast e) OR push_bit 40 (ucast f) OR push_bit 48 (ucast g) OR push_bit 56 (ucast h)"
  have "ucast (drop_bit 0 w) = a" "ucast (drop_bit 8 w) = b" "ucast (drop_bit 16 w) = c" "ucast (drop_bit 24 w) = d"
      "ucast (drop_bit 32 w) = e" "ucast (drop_bit 40 w) = f" "ucast (drop_bit 48 w) = g" "ucast (drop_bit 56 w) = h"
    unfolding w_def by (rule bit_word_eqI, auto simp: bit_simps dest: bit_imp_le_length)+
  then show ?thesis unfolding w_def [symmetric] by (simp add: le_list_def upt_rec)
qed

lemma GET_LWORD_slice: "GET_LWORD_FROM_BYTE x i = Some y \<longleftrightarrow> i + 4 \<le> length x \<and> slice i 4 x = le_list 4 y"
proof (cases "i + 4 \<le> length x")
  case True
  then obtain w where w: "GET_LWORD_FROM_BYTE x i = Some w" "le_list 4 w = slice i 4 x"
    by (simp only: GET_LWORD_FROM_BYTE_def if_True le_list_word4 slice4)
  then show ?thesis using True le_list_inj [of 4 w y] by auto
qed (simp add: GET_LWORD_FROM_BYTE_def)

lemma GET_LLWORD_slice: "GET_LLWORD_FROM_BYTE x i = Some y \<longleftrightarrow> i + 8 \<le> length x \<and> slice i 8 x = le_list 8 y"
proof (cases "i + 8 \<le> length x")
  case True
  then obtain w where w: "GET_LLWORD_FROM_BYTE x i = Some w" "le_list 8 w = slice i 8 x"
    by (simp only: GET_LLWORD_FROM_BYTE_def if_True le_list_word8 slice8)
  then show ?thesis using True le_list_inj [of 8 w y] by auto
qed (simp add: GET_LLWORD_FROM_BYTE_def)

lemma GET_LWORD_blit:
  "p + length xs \<le> length b \<Longrightarrow> i + 4 \<le> p \<or> p + length xs \<le> i \<Longrightarrow> GET_LWORD_FROM_BYTE (blit p xs b) i = GET_LWORD_FROM_BYTE b i"
proof -
  assume p: "p + length xs \<le> length b" "i + 4 \<le> p \<or> p + length xs \<le> i"
  have "GET_LWORD_FROM_BYTE (blit p xs b) i = Some y \<longleftrightarrow> GET_LWORD_FROM_BYTE b i = Some y" for y
    using p slice_blit_disjoint [of p xs b i 4] by (auto simp: GET_LWORD_slice length_blit)
  then show ?thesis by (metis option.exhaust)
qed

lemma GET_LLWORD_blit:
  "p + length xs \<le> length b \<Longrightarrow> i + 8 \<le> p \<or> p + length xs \<le> i \<Longrightarrow> GET_LLWORD_FROM_BYTE (blit p xs b) i = GET_LLWORD_FROM_BYTE b i"
proof -
  assume p: "p + length xs \<le> length b" "i + 8 \<le> p \<or> p + length xs \<le> i"
  have "GET_LLWORD_FROM_BYTE (blit p xs b) i = Some y \<longleftrightarrow> GET_LLWORD_FROM_BYTE b i = Some y" for y
    using p slice_blit_disjoint [of p xs b i 8] by (auto simp: GET_LLWORD_slice length_blit)
  then show ?thesis by (metis option.exhaust)
qed

lemma GET_LWORD_written: "i + 4 \<le> length b \<Longrightarrow> GET_LWORD_FROM_BYTE (blit i (le_list 4 y) b) i = Some y"
  using slice_blit_same [of i "le_list 4 y" b] by (simp add: GET_LWORD_slice length_blit)

lemma GET_LLWORD_written: "i + 8 \<le> length b \<Longrightarrow> GET_LLWORD_FROM_BYTE (blit i (le_list 8 y) b) i = Some y"
  using slice_blit_same [of i "le_list 8 y" b] by (simp add: GET_LLWORD_slice length_blit)

lemma GET_LWORD_drop: "GET_LWORD_FROM_BYTE (drop h b) i = GET_LWORD_FROM_BYTE b (h + i)"
  by (auto simp: GET_LWORD_FROM_BYTE_def add.assoc)

lemma GET_LLWORD_drop: "GET_LLWORD_FROM_BYTE (drop h b) i = GET_LLWORD_FROM_BYTE b (h + i)"
  by (auto simp: GET_LLWORD_FROM_BYTE_def add.assoc)

lemma GET_LWORD_take: "i + 4 \<le> n \<Longrightarrow> n \<le> length b \<Longrightarrow> GET_LWORD_FROM_BYTE (take n b) i = GET_LWORD_FROM_BYTE b i"
  by (auto simp: GET_LWORD_FROM_BYTE_def)

lemma GET_LLWORD_take: "i + 8 \<le> n \<Longrightarrow> n \<le> length b \<Longrightarrow> GET_LLWORD_FROM_BYTE (take n b) i = GET_LLWORD_FROM_BYTE b i"
  by (auto simp: GET_LLWORD_FROM_BYTE_def)

lemma GET_LWORD_bound: "GET_LWORD_FROM_BYTE b i = Some y \<Longrightarrow> i + 4 \<le> length b"
  by (simp add: GET_LWORD_slice)

lemma GET_LLWORD_bound: "GET_LLWORD_FROM_BYTE b i = Some y \<Longrightarrow> i + 8 \<le> length b"
  by (simp add: GET_LLWORD_slice)

lemma GET_LLWORD_total: "i + 8 \<le> length b \<Longrightarrow> \<exists>y. GET_LLWORD_FROM_BYTE b i = Some y"
  by (simp add: GET_LLWORD_FROM_BYTE_def)

lemmas window_simps = GET_LWORD_drop GET_LLWORD_drop GET_LWORD_take GET_LLWORD_take

section \<open>Damaged headers\<close>

abbreviation (input) crc_cleared :: "bytes \<Rightarrow> bytes" where
  "crc_cleared b \<equiv> blit HEADER_CRC_OFFSET (le_list 4 (0 :: u32)) b"

lemma CheckGptHeader_Some:
  assumes "unat (headerSize info) \<le> length b" "LBA_LENGTH \<le> unat n" "lbas \<noteq> 0" "92 \<le> headerSize info" "headerSize info \<le> n"
  shows "CheckGptHeader b n lbas info =
    do {
      crc \<leftarrow> GET_LWORD_FROM_BYTE b HEADER_CRC_OFFSET;
      if crc \<noteq> crc32 (take (unat (headerSize info)) (crc_cleared b)) then Some False
      else do {
        currentLba \<leftarrow> GET_LLWORD_FROM_BYTE b GPT_HEADER_OFFSET;
        lastUsableLba \<leftarrow> GET_LLWORD_FROM_BYTE b LAST_USABLE_LBA_OFFSET;
        Some (\<not> (lbas < firstUsableLba info \<or> lbas < ucast (ucast lastUsableLba :: u32))
          \<and> \<not> (partitionEntrySize info \<noteq> of_nat PARTITION_ENTRY_SIZE \<or> 0x4000 div of_nat PARTITION_ENTRY_SIZE < maxPartitionCount info)
          \<and> (ucast currentLba :: u32) = 1)
      }
    }"
proof -
  let ?hs = "unat (headerSize info)"
  have hs: "92 \<le> ?hs" using assms(4) by (simp add: word_le_nat_alt)
  then have len: "HEADER_CRC_OFFSET + 4 \<le> length b" using assms(1) by simp
  then have put: "PUT_LONG HEADER_CRC_OFFSET 0 b = Some (crc_cleared b)" by (simp add: PUT_LONG_le)
  have len': "length (crc_cleared b) = length b" using len by (simp add: length_blit)
  have crc: "CalculateCrc32 (crc_cleared b) (headerSize info) = Some (crc32 (take ?hs (crc_cleared b)))"
    using CalculateCrc32_crc32 [of "headerSize info" "crc_cleared b"] hs assms(1) len' by simp
  have restore: "PUT_LONG HEADER_CRC_OFFSET y (crc_cleared b) = Some b" if "GET_LWORD_FROM_BYTE b HEADER_CRC_OFFSET = Some y" for y
  proof -
    have "le_list 4 y = slice HEADER_CRC_OFFSET 4 b" using that by (simp add: GET_LWORD_slice)
    then have "blit HEADER_CRC_OFFSET (le_list 4 y) (crc_cleared b) = b"
      using len by (intro nth_equalityI) (auto simp: blit_simps nth_slice)
    then show ?thesis using len len' by (simp add: PUT_LONG_le)
  qed
  have guards: "\<not> (unat n < LBA_LENGTH \<or> lbas = 0)" "\<not> (headerSize info < 92 \<or> n < headerSize info)"
    using assms by (auto simp: not_less)
  show ?thesis
  proof (cases "GET_LWORD_FROM_BYTE b HEADER_CRC_OFFSET")
    case None
    then show ?thesis using guards by (simp add: CheckGptHeader_def)
  next
    case (Some y)
    show ?thesis
    proof (cases "y = crc32 (take ?hs (crc_cleared b))")
      case True
      then show ?thesis using guards Some put crc restore [OF Some] by (simp add: CheckGptHeader_def)
    next
      case False
      then show ?thesis using guards Some put crc by (simp add: CheckGptHeader_def)
    qed
  qed
qed

lemma CheckGptHeader_TrueD:
  assumes "CheckGptHeader b n lbas info = Some True"
  shows "LBA_LENGTH \<le> unat n" "lbas \<noteq> 0" "92 \<le> headerSize info" "headerSize info \<le> n" "unat (headerSize info) \<le> length b"
proof -
  have guards: "\<not> (unat n < LBA_LENGTH \<or> lbas = 0)" "\<not> (headerSize info < 92 \<or> n < headerSize info)"
    using assms by (auto simp: CheckGptHeader_def split: if_splits)
  then show "LBA_LENGTH \<le> unat n" "lbas \<noteq> 0" "92 \<le> headerSize info" "headerSize info \<le> n" by auto
  obtain b1 where b1: "PUT_LONG HEADER_CRC_OFFSET 0 b = Some b1" "CalculateCrc32 b1 (headerSize info) \<noteq> None"
    using assms guards by (auto simp: CheckGptHeader_def bind_eq_Some_conv)
  have "length b1 = length b" using b1(1) by (auto simp: PUT_LONG_le length_blit split: if_splits)
  moreover have "0 < unat (headerSize info)" using guards(2) by (auto simp: not_less word_le_nat_alt)
  ultimately show "unat (headerSize info) \<le> length b"
    using b1(2) by (auto simp: CalculateCrc32_def unat_eq_0 split: if_splits)
qed

lemma take_update_split: "i < n \<Longrightarrow> n \<le> length xs \<Longrightarrow> take n (xs[i := c]) = take i xs @ c # drop (Suc i) (take n xs)"
  by (simp add: upd_conv_take_nth_drop min_def Suc_diff_Suc [symmetric] drop_take)

lemma crc32_update:
  "i < n \<Longrightarrow> n \<le> length xs \<Longrightarrow> xs ! i \<noteq> c \<Longrightarrow> crc32 (take n (xs[i := c])) \<noteq> crc32 (take n xs)"
  using crc32_one_byte [of c "xs ! i" "take i xs" "drop (Suc i) (take n xs)"] take_update_split [of i n xs c]
    take_update_split [of i n xs "xs ! i"] by auto

lemma header_damage:
  assumes ok: "CheckGptHeader b n lbas info = Some True" and i: "i < unat (headerSize info)" "c \<noteq> b ! i"
  shows "CheckGptHeader (b[i := c]) n lbas info = Some False"
proof -
  let ?hs = "unat (headerSize info)" and ?b = "b[i := c]"
  note g = CheckGptHeader_TrueD [OF ok]
  have hs: "92 \<le> ?hs" using g(3) by (simp add: word_le_nat_alt)
  obtain y where y: "GET_LWORD_FROM_BYTE b HEADER_CRC_OFFSET = Some y" "y = crc32 (take ?hs (crc_cleared b))"
    using ok unfolding CheckGptHeader_Some [OF g(5,1,2,3,4)] by (auto simp: bind_eq_Some_conv split: if_splits)
  have field: "slice HEADER_CRC_OFFSET 4 b = le_list 4 y" using y(1) by (simp add: GET_LWORD_slice)
  obtain y' where y': "GET_LWORD_FROM_BYTE ?b HEADER_CRC_OFFSET = Some y'"
    using hs g(5) by (simp add: GET_LWORD_FROM_BYTE_def)
  then have field': "slice HEADER_CRC_OFFSET 4 ?b = le_list 4 y'" by (simp add: GET_LWORD_slice)
  have "y' \<noteq> crc32 (take ?hs (crc_cleared ?b))"
  proof (cases "HEADER_CRC_OFFSET \<le> i \<and> i < HEADER_CRC_OFFSET + 4")
    case True
    then have "crc_cleared ?b = crc_cleared b"
      using hs g(5) by (intro nth_equalityI) (auto simp: blit_simps)
    moreover obtain k where k: "i = HEADER_CRC_OFFSET + k" "k < 4" using True by (metis add_less_cancel_left le_Suc_ex)
    then have "slice HEADER_CRC_OFFSET 4 ?b ! k \<noteq> slice HEADER_CRC_OFFSET 4 b ! k"
      using hs g(5) i by (simp add: nth_slice)
    then have "y' \<noteq> y" using field field' by auto
    ultimately show ?thesis using y(2) by simp
  next
    case False
    then have "crc_cleared ?b = (crc_cleared b)[i := c]" "crc_cleared b ! i = b ! i"
      using hs g(5) i by (intro nth_equalityI, auto simp: blit_simps nth_list_update)
    moreover have "slice HEADER_CRC_OFFSET 4 ?b = slice HEADER_CRC_OFFSET 4 b"
      using False hs g(5) by (intro nth_equalityI) (auto simp: nth_slice)
    then have "y' = y" using field field' le_list_inj [of 4 y' y] by simp
    ultimately show ?thesis
      using y(2) crc32_update [of i ?hs "crc_cleared b" c] i g(5) hs by (simp add: length_blit)
  qed
  then show ?thesis using y' g by (subst CheckGptHeader_Some) auto
qed

end
