(* ===== verification/Ufs_Laws.thy ===== *)
theory Ufs_Laws
  imports Ufs_Edit Gpt_Laws
begin

text \<open>
  Laws of the tables of a UFS device: what is patched is accepted, and the copy for the other slot.
\<close>

section \<open>Headers\<close>

text \<open>The fields of the header in the block that begins at \<open>h\<close>, and its two checksums.\<close>

definition header_at :: "nat \<Rightarrow> u32 \<Rightarrow> u64 \<Rightarrow> bytes \<Rightarrow> bool" where
  "header_at h count first b \<longleftrightarrow>
     GET_LLWORD_FROM_BYTE b h = Some EFI_MAGIC_NUMBER \<and> GET_LWORD_FROM_BYTE b (h + HEADER_SIZE_OFFSET) = Some 92
     \<and> GET_LLWORD_FROM_BYTE b (h + GPT_HEADER_OFFSET) = Some 1 \<and> GET_LLWORD_FROM_BYTE b (h + FIRST_USABLE_LBA_OFFSET) = Some first
     \<and> GET_LLWORD_FROM_BYTE b (h + PARTITION_ENTRIES_OFFSET) = Some 2
     \<and> GET_LWORD_FROM_BYTE b (h + PARTITION_COUNT_OFFSET) = Some count \<and> GET_LWORD_FROM_BYTE b (h + PENTRY_SIZE_OFFSET) = Some 128"

definition crcs_at :: "nat \<Rightarrow> u32 \<Rightarrow> bytes \<Rightarrow> bool" where
  "crcs_at h count b \<longleftrightarrow>
     GET_LWORD_FROM_BYTE b (h + PARTITION_CRC_OFFSET) = CalculateCrc32 (drop (2 * h) b) (count * 128)
     \<and> GET_LWORD_FROM_BYTE b (h + HEADER_CRC_OFFSET) = Some (crc32 (take 92 (crc_cleared (drop h b))))"

text \<open>Writes that leave the fields of the header alone.\<close>

lemma header_at_blit:
  assumes "header_at h count first b" "p + length xs \<le> length b"
    and "h + 92 \<le> p \<or> p + length xs \<le> h \<or> (p, length xs) \<in> {(h + 16, 4), (h + 32, 8), (h + 48, 8), (h + 88, 4)}"
  shows "header_at h count first (blit p xs b)"
  using assms unfolding header_at_def by (auto simp: GET_LWORD_blit GET_LLWORD_blit)

lemma drop_blit_before: "p + length xs \<le> n \<Longrightarrow> n \<le> length b \<Longrightarrow> drop n (blit p xs b) = drop n b"
  by (intro nth_equalityI) (auto simp: blit_simps)

lemma drop_blit_inside: "n \<le> p \<Longrightarrow> p + length xs \<le> length b \<Longrightarrow> drop n (blit p xs b) = blit (p - n) xs (drop n b)"
  by (simp add: blit_def drop_take)

lemma nat_le_diff: "a + u \<le> l \<Longrightarrow> u \<le> l - (a :: nat)"
  by simp

lemma CalculateCrc32_total: "unat n \<le> length b \<Longrightarrow> \<exists>c. CalculateCrc32 b n = Some c"
  by (simp add: CalculateCrc32_def)

lemma patch_crcs_spec:
  assumes "header_at h count first b" "512 \<le> h" "2 * h + unat (count * 128) \<le> length b"
  shows "\<exists>b'. patch_crcs h b = Some b' \<and> header_at h count first b' \<and> crcs_at h count b' \<and> length b' = length b
    \<and> drop (2 * h) b' = drop (2 * h) b \<and> GET_LLWORD_FROM_BYTE b' (h + LAST_USABLE_LBA_OFFSET) = GET_LLWORD_FROM_BYTE b (h + LAST_USABLE_LBA_OFFSET)"
proof -
  have len: "h + 512 \<le> length b" using assms(2,3) by simp
  have room: "unat (count * 128) \<le> length (drop (2 * h) b)"
    unfolding length_drop by (rule nat_le_diff [OF assms(3)])
  obtain c where c: "CalculateCrc32 (drop (2 * h) b) (count * 128) = Some c"
    using CalculateCrc32_total [OF room] by auto
  define b1 where "b1 = blit (h + PARTITION_CRC_OFFSET) (le_list 4 c) b"
  define b2 where "b2 = blit (h + HEADER_CRC_OFFSET) (le_list 4 (0 :: u32)) b1"
  define k where "k = crc32 (take 92 (drop h b2))"
  define b3 where "b3 = blit (h + HEADER_CRC_OFFSET) (le_list 4 k) b2"
  have lens: "length b1 = length b" "length b2 = length b" "length b3 = length b"
    using len by (simp_all add: b1_def b2_def b3_def length_blit)
  have hdr: "header_at h count first b1" "header_at h count first b2" "header_at h count first b3"
    unfolding b1_def b2_def b3_def using len assms(1) lens by (auto intro!: header_at_blit simp: b1_def b2_def)
  have crc: "CalculateCrc32 (drop h b2) GPT_CRC_LEN = Some k"
    using CalculateCrc32_crc32 [of 92 "drop h b2"] len lens by (simp add: k_def)
  have patched: "patch_crcs h b = Some b3"
    using assms(1) len lens c crc
    by (simp add: patch_crcs_def header_at_def PUT_LONG_le b1_def b2_def b3_def mult.commute)
  have drops: "drop (2 * h) b1 = drop (2 * h) b" "drop (2 * h) b2 = drop (2 * h) b" "drop (2 * h) b3 = drop (2 * h) b"
    using assms(2,3) lens by (simp_all add: b1_def b2_def b3_def drop_blit_before)
  have entries: "GET_LWORD_FROM_BYTE b3 (h + PARTITION_CRC_OFFSET) = Some c"
    using len lens by (simp add: b3_def b2_def b1_def GET_LWORD_blit GET_LWORD_written length_blit)
  have "crc_cleared (drop h b3) = drop h b2"
  proof -
    have "blit 16 (le_list 4 (0::u32)) (blit 16 (le_list 4 k) (blit 16 (le_list 4 (0::u32)) x)) = blit 16 (le_list 4 (0::u32)) x"
      if "20 \<le> length x" for x using that by (intro nth_equalityI) (auto simp: blit_simps)
    then show ?thesis using len lens by (simp add: b3_def b2_def drop_blit_inside length_blit)
  qed
  then have "GET_LWORD_FROM_BYTE b3 (h + HEADER_CRC_OFFSET) = Some (crc32 (take 92 (crc_cleared (drop h b3))))"
    using len lens by (simp add: k_def [symmetric]) (simp add: b3_def GET_LWORD_written)
  moreover have "GET_LLWORD_FROM_BYTE b3 (h + LAST_USABLE_LBA_OFFSET) = GET_LLWORD_FROM_BYTE b (h + LAST_USABLE_LBA_OFFSET)"
    using len lens by (simp add: b3_def b2_def b1_def GET_LLWORD_blit length_blit)
  ultimately show ?thesis using patched hdr(3) lens drops entries c by (auto simp: crcs_at_def)
qed

section \<open>Acceptance\<close>

lemma entries_room:
  assumes "bs = 512 \<or> bs = (4096 :: u32)" "count \<le> 128" "2 * unat bs + unat count * 128 \<le> unat n"
  shows "\<not> n < 2 * bs + count * (128 :: u32)" "unat (count * 128) = unat count * 128" "\<not> n < 2 * bs"
proof -
  have c: "unat count \<le> 128" using assms(2) by (simp add: word_le_nat_alt)
  then show u: "unat (count * 128) = unat count * 128" by (simp add: unat_word_ariths)
  have b: "unat (2 * bs) = 2 * unat bs" "unat bs \<le> 4096" using assms(1) by auto
  have "unat (2 * bs + count * 128) = 2 * unat bs + unat count * 128"
    using c b u by (subst unat_add_lem [THEN iffD1]) auto
  then show "\<not> n < 2 * bs + count * 128" using assms(3) by (simp add: word_less_nat_alt)
  show "\<not> n < 2 * bs" using assms(3) b by (simp add: word_less_nat_alt)
qed

lemma take_crc_cleared: "92 \<le> m \<Longrightarrow> 92 \<le> length x \<Longrightarrow> take 92 (crc_cleared (take m x)) = take 92 (crc_cleared x)"
  by (simp add: blit_def min_def drop_take)

lemma header_block_ok:
  assumes "header_at h count first b" "crcs_at h count b" "GET_LLWORD_FROM_BYTE b (h + LAST_USABLE_LBA_OFFSET) = Some lastUsable"
    and "h = unat bs" "512 \<le> h" "2 * h \<le> length b" "count \<le> 128"
    and "lbas \<noteq> 0" "first \<le> lbas" "ucast (ucast lastUsable :: u32) \<le> lbas"
  shows "CheckGptHeader (slice h h b) bs lbas
    \<lparr>headerSize = 92, partitionEntrySize = 128, maxPartitionCount = count, firstUsableLba = first\<rparr> = Some True"
proof -
  let ?info = "\<lparr>headerSize = 92, partitionEntrySize = 128, maxPartitionCount = count, firstUsableLba = first\<rparr>"
  have len: "h \<le> length (drop h b)" using assms(6) by simp
  have hs: "unat (headerSize ?info) \<le> length (slice h h b)" "LBA_LENGTH \<le> unat bs" "92 \<le> headerSize ?info" "headerSize ?info \<le> bs"
    using assms(4,5,6) len by (auto simp: word_le_nat_alt)
  have "take 92 (crc_cleared (slice h h b)) = take 92 (crc_cleared (drop h b))"
    unfolding slice_def using take_crc_cleared [of h "drop h b"] assms(5) len by simp
  then show ?thesis
    using assms len unfolding CheckGptHeader_Some [OF hs(1,2) assms(8) hs(3,4)]
    by (simp add: header_at_def crcs_at_def slice_def window_simps not_less)
qed

lemma table_accepted:
  assumes "header_at h count first b" "crcs_at h count b" "GET_LLWORD_FROM_BYTE b (h + LAST_USABLE_LBA_OFFSET) = Some lastUsable"
    and bs: "bs = 512 \<or> bs = 4096" "h = unat bs" "blockSize (ptableData t) = bs"
    and "2 * h \<le> length b" "count \<noteq> 0" "count \<le> 128" "2 * h + unat count * 128 \<le> unat n" "writeDeviceLunSize (ptableData t) \<le> n" "l \<le> 32"
    and lba: "lbas = ucast (ucast (capacity e l div ucast bs) :: u32)" "lbas \<noteq> 0" "first \<le> lbas" "ucast (ucast lastUsable :: u32) \<le> lbas"
  shows "ParseGptHeaderByUfsLun e w t b n l bs = Some True"
proof -
  let ?info = "\<lparr>headerSize = 92, partitionEntrySize = 128, maxPartitionCount = count, firstUsableLba = first\<rparr>"
  have h: "512 \<le> h" "h \<le> 4096" "bs \<noteq> 0" using bs by auto
  note r = entries_room [OF bs(1) assms(9), of n]
  have room: "\<not> n < 2 * bs + count * 128" "\<not> n < 2 * bs" using r assms(10) bs(2) by auto
  have info: "GetPartitionGptHeaderInfo (drop (unat bs) b) bs = Some (Some ?info)"
    using assms(1) h bs(2) \<open>count \<noteq> 0\<close>
    by (simp add: GetPartitionGptHeaderInfo_def CheckIfValidGpt_def header_at_def window_simps)
  let ?inputs = "\<lparr>gptImage = b, imgLen = n, lbaNum = lbas, lunNum = l\<rparr>"
  have header: "CheckGptHeader (slice (unat bs) (unat bs) b) bs lbas ?info = Some True"
    using header_block_ok [of h count first b lastUsable bs lbas] assms h by simp
  have first: "GET_LLWORD_FROM_BYTE (slice (unat bs) (unat bs) b) PARTITION_ENTRIES_OFFSET = Some 2"
    using assms(1) h assms(7) bs(2) by (simp add: slice_def window_simps header_at_def)
  have off: "(ucast ((ucast (2 :: u64) :: u32) * bs) :: u64) = ucast (2 * bs)" "unat (ucast (2 * bs) :: u64) = 2 * h" "ucast (ucast (2 * bs) :: u64) = 2 * bs"
    using bs by auto
  obtain c where c: "GET_LWORD_FROM_BYTE b (h + PARTITION_CRC_OFFSET) = Some c" "CalculateCrc32 (drop (2 * h) b) (count * 128) = Some c"
    using assms(2) h assms(7) by (auto simp: crcs_at_def GET_LWORD_FROM_BYTE_def split: if_splits)
  have crc: "UfsGetGptEntryCrc e w bs ?inputs (ucast ((ucast (2 :: u64) :: u32) * bs)) (count * 128) = Some c"
    using c(2) off room by (simp add: UfsGetGptEntryCrc_def Ptable_GetGptEntryCrc_def)
  have org: "GET_LWORD_FROM_BYTE (slice (unat bs) (unat bs) b) PARTITION_CRC_OFFSET = Some c"
    using c(1) h assms(7) bs(2) by (simp add: slice_def window_simps)
  have "PartitionCheckGptHeader (UfsGetGptEntryCrc e w bs) (writeDeviceLunSize (ptableData t)) ?inputs bs ?info = Some True"
    using assms(7,11,12) room h bs(2) lba(2) header first org crc
    by (simp add: PartitionCheckGptHeader_def Let_def not_less)
  then show ?thesis using info bs(3) h lba(1) by (simp add: ParseGptHeaderByUfsLun_def Let_def)
qed

section \<open>Patched tables\<close>

declare count_entries.simps [simp del]

lemma count_entries_spec:
  "limit = k * PARTITION_ENTRY_SIZE \<Longrightarrow> base + limit \<le> length b \<Longrightarrow> n \<le> k \<Longrightarrow>
   \<exists>m. count_entries b base limit n = Some m \<and> n \<le> m \<and> m \<le> k \<and> (n < k \<and> b ! (base + n * PARTITION_ENTRY_SIZE) \<noteq> 0 \<longrightarrow> n < m)"
proof (induction b base limit n rule: count_entries.induct)
  case (1 b base limit n)
  show ?case
  proof (cases "n < k \<and> b ! (base + n * PARTITION_ENTRY_SIZE) \<noteq> 0")
    case True
    then have "\<exists>m. count_entries b base limit (n + 1) = Some m \<and> n + 1 \<le> m \<and> m \<le> k"
      using 1 by fastforce
    then show ?thesis using True 1(2,3) by (subst count_entries.simps) auto
  next
    case False
    then have "count_entries b base limit n = Some n" using 1(2-4) by (subst count_entries.simps) auto
    then show ?thesis using False 1(4) by auto
  qed
qed

lemma ParsePartitionName_total: "MAX_GPT_NAME_SIZE \<le> length b \<Longrightarrow> \<exists>name. ParsePartitionName b MAX_GPT_NAME_SIZE [] (MAX_GPT_NAME_SIZE div 2) = Some name"
  by (simp add: ParsePartitionName_def)

lemma patch_last_partition_spec:
  assumes "0 < m" "h * 2 + m * PARTITION_ENTRY_SIZE \<le> length b"
  shows "\<exists>b'. patch_last_partition t lastUsable h m b = Some b' \<and>
    (b' = b \<or> (\<exists>p. h * 2 \<le> p \<and> p + 8 \<le> length b \<and> b' = blit p (le_list 8 lastUsable) b))"
proof -
  let ?pos = "h * 2 + (m - 1) * PARTITION_ENTRY_SIZE"
  have "?pos + 128 \<le> length b" using assms by (cases m) auto
  then have room: "MAX_GPT_NAME_SIZE \<le> length (drop (?pos + GPT_PARTITION_NAME_OFFSET) b)" "?pos + LAST_LBA_OFFSET + 8 \<le> length b" "?pos + FIRST_LBA_OFFSET + 8 \<le> length b"
    by simp_all
  obtain name where name: "ParsePartitionName (drop (?pos + GPT_PARTITION_NAME_OFFSET) b) MAX_GPT_NAME_SIZE [] (MAX_GPT_NAME_SIZE div 2) = Some name"
    using ParsePartitionName_total [OF room(1)] by blast
  obtain x y where "GET_LLWORD_FROM_BYTE b (?pos + LAST_LBA_OFFSET) = Some x" "GET_LLWORD_FROM_BYTE b (?pos + FIRST_LBA_OFFSET) = Some y"
    using GET_LLWORD_total [OF room(2)] GET_LLWORD_total [OF room(3)] by blast
  then show ?thesis using \<open>?pos + 128 \<le> length b\<close> name
    by (auto simp: patch_last_partition_def Let_def PUT_LONG_LONG_le intro!: exI [of _ "?pos + LAST_LBA_OFFSET"])
qed

definition device_sectors :: "ufs_ptable \<Rightarrow> u64 \<Rightarrow> u64" where
  "device_sectors t bytes =
     (let n = bytes div ucast (blockSize (ptableData t)) in if n = 0 then DEFAULT_SECTOR_NUM else n)"

lemma UfsPatchGptHeader_spec:
  assumes hdr: "header_at h count first (dat d)" and len: "length (dat d) = TMP_DATA_SIZE"
    and bs: "bs = 512 \<or> bs = 4096" "h = unat bs" "blockSize (ptableData t) = bs"
    and "\<not> writeDataLen d < 2 * bs" "lunSize d \<noteq> 0" "dat d ! (2 * h) \<noteq> 0" "count \<le> 128"
  shows "\<exists>b. UfsPatchGptHeader t d bs = Some (d\<lparr>dat := b\<rparr>) \<and> header_at h count first b \<and> crcs_at h count b \<and> length b = TMP_DATA_SIZE
    \<and> GET_LLWORD_FROM_BYTE b (h + LAST_USABLE_LBA_OFFSET) = Some (last_usable_sector t (device_sectors t (lunSize d)))"
proof -
  let ?n = "device_sectors t (lunSize d)" and ?last = "last_usable_sector t (device_sectors t (lunSize d))"
  have h: "512 \<le> h" "h \<le> 4096" "bs \<noteq> 0" "h * 2 + 16384 \<le> TMP_DATA_SIZE" using bs(1,2) by auto
  obtain k where k: "unat (of_nat TMP_DATA_SIZE - bs - bs) = k * PARTITION_ENTRY_SIZE" "h * 2 + k * PARTITION_ENTRY_SIZE = TMP_DATA_SIZE" "0 < k"
  proof (cases "bs = 512")
    case True
    then show thesis using bs(2) that [of 248] by simp
  next
    case False
    then show thesis using bs(1,2) that [of 192] by simp
  qed
  define b1 where "b1 = blit (h + BACKUP_HEADER_OFFSET) (le_list 8 (?n - 1)) (dat d)"
  define b2 where "b2 = blit (h + LAST_USABLE_LBA_OFFSET) (le_list 8 ?last) b1"
  have lens: "length b1 = TMP_DATA_SIZE" "length b2 = TMP_DATA_SIZE" using len h by (simp_all add: b1_def b2_def length_blit)
  have "header_at h count first b1" unfolding b1_def using hdr len h by (intro header_at_blit) auto
  then have hdr2: "header_at h count first b2" unfolding b2_def using lens h by (intro header_at_blit) auto
  have last2: "GET_LLWORD_FROM_BYTE b2 (h + LAST_USABLE_LBA_OFFSET) = Some ?last"
    unfolding b2_def using lens h by (simp add: GET_LLWORD_written)
  have used: "b2 ! (h * 2) \<noteq> 0" using assms(8) len lens h by (simp add: b2_def b1_def nth_blit length_blit mult.commute)
  obtain m where m: "count_entries b2 (h * 2) (unat (of_nat TMP_DATA_SIZE - bs - bs)) 0 = Some m" "0 < m" "m \<le> k"
    using count_entries_spec [of _ k "h * 2" b2 0] k lens used by auto
  have "h * 2 + m * PARTITION_ENTRY_SIZE \<le> length b2"
    using m(3) k(2) lens mult_le_mono1 [OF m(3), of PARTITION_ENTRY_SIZE] by linarith
  then obtain b3 where b3: "patch_last_partition t ?last h m b2 = Some b3"
      "b3 = b2 \<or> (\<exists>p. h * 2 \<le> p \<and> p + 8 \<le> length b2 \<and> b3 = blit p (le_list 8 ?last) b2)"
    using patch_last_partition_spec [OF m(2)] by blast
  have hdr3: "header_at h count first b3" "length b3 = TMP_DATA_SIZE" "GET_LLWORD_FROM_BYTE b3 (h + LAST_USABLE_LBA_OFFSET) = Some ?last"
    using b3(2) hdr2 lens last2 h by (auto intro!: header_at_blit simp: length_blit GET_LLWORD_blit)
  have "unat count \<le> 128" using assms(9) by (simp add: word_le_nat_alt)
  then have "unat (count * 128) \<le> 16384" by (simp add: unat_word_ariths)
  then have "2 * h + unat (count * 128) \<le> length b3" using h(4) hdr3(2) by linarith
  then obtain b4 where b4: "patch_crcs h b3 = Some b4" "header_at h count first b4" "crcs_at h count b4" "length b4 = TMP_DATA_SIZE"
      "GET_LLWORD_FROM_BYTE b4 (h + LAST_USABLE_LBA_OFFSET) = Some ?last"
    using patch_crcs_spec [OF hdr3(1) h(1)] hdr3 by auto
  have "UfsPatchGptHeader t d bs = Some (d\<lparr>dat := b4\<rparr>)"
  proof -
    have p1: "PUT_LONG_LONG (h + BACKUP_HEADER_OFFSET) (?n - 1) (dat d) = Some b1" using len h by (simp add: PUT_LONG_LONG_le b1_def)
    have p2: "PUT_LONG_LONG (h + LAST_USABLE_LBA_OFFSET) ?last b1 = Some b2" using lens h by (simp add: PUT_LONG_LONG_le b2_def)
    have n: "(if lunSize d div ucast bs = 0 then DEFAULT_SECTOR_NUM else lunSize d div ucast bs) = ?n"
      using bs(3) by (simp add: device_sectors_def Let_def)
    have g: "\<not> (bs = 0 \<or> writeDataLen d < 2 * bs \<or> lunSize d = 0 \<or> bs = 0)" using assms h by simp
    show ?thesis unfolding UfsPatchGptHeader_def Let_def bs(3) n bs(2) [symmetric] if_not_P [OF g] p1 p2 Option.bind.bind_lunit m(1)
      using m(2) b3(1) b4(1) by simp
  qed
  then show ?thesis using b4 by blast
qed

lemma last_usable_sector_le: "34 \<le> unat n \<Longrightarrow> unat (last_usable_sector t n) \<le> unat n"
proof -
  assume n: "34 \<le> unat n"
  have sub: "unat (a - b) = unat a - unat b" if "unat b \<le> unat a" for a b :: u64
    using that by (simp add: unat_sub word_le_nat_alt)
  define m where "m = n - 1 - (if hasBackupPtable t then of_nat GPT_PTABLE_BACKUP_SIZE else 0)"
  have m: "unat m \<le> unat n" using n by (auto simp: m_def sub)
  have "unat (m - reservedSize t) \<le> unat m" if "reservedSize t < m" using that by (simp add: sub word_less_nat_alt)
  then show ?thesis using m by (auto simp: last_usable_sector_def m_def [symmetric] Let_def)
qed

lemma ucast_up_inj: "(ucast x :: u64) = ucast y \<Longrightarrow> x = (y :: u32)"
proof -
  have id: "ucast (ucast z :: u64) = z" for z :: u32 by (rule bit_word_eqI) (simp add: bit_simps)
  assume "(ucast x :: u64) = ucast y"
  then have "(ucast (ucast x :: u64) :: u32) = ucast (ucast y :: u64)" by simp
  then show "x = y" by (simp only: id)
qed

section \<open>Parsed units\<close>

lemma UfsReadGpt_data: "UfsReadGpt e w t img n l bs = Some (ok, t') \<Longrightarrow> ufsPtnDataInfo t' = ufsPtnDataInfo t"
  by (auto simp: UfsReadGpt_def UfsReadGptEntry_def Let_def bind_eq_Some_conv split: if_splits prod.splits)

lemma parse_image_lun_prefix:
  "parse_image_lun uninit e w img i t = Some (ok, t') \<Longrightarrow> \<exists>d. ufsPtnDataInfo t' = ufsPtnDataInfo t @ [d]"
  by (auto simp: parse_image_lun_def AddUfsPtnDataInfo_def Let_def bind_eq_Some_conv split: if_splits dest!: UfsReadGpt_data)

lemma parse_image_luns_prefix:
  "parse_image_luns uninit e w img ls t = Some (ok, t') \<Longrightarrow> \<exists>ds. ufsPtnDataInfo t' = ufsPtnDataInfo t @ ds"
  by (induction ls arbitrary: t)
    (fastforce simp: bind_eq_Some_conv split: prod.splits if_splits dest: parse_image_lun_prefix)+

end
