(* ===== verification/Gpt_Change.thy ===== *)
theory Gpt_Change
  imports Gpt_Laws
begin

text \<open>
  What \<open>ChangeGpt\<close> does to a table, against a specification on the list of partitions: the loop over the
  bytes is the function \<open>change_parts\<close> on names and sectors.
\<close>

section \<open>The specification\<close>

type_synonym part = "string \<times> u64 \<times> u64"

text \<open>The partitions behind the one that changes keep their sizes; the user data take what is left.\<close>

fun shift_parts :: "u64 \<Rightarrow> u64 \<Rightarrow> part list \<Rightarrow> part list option" where
  "shift_parts end_lba pre [] = Some []"
| "shift_parts end_lba pre ((n, f, l) # ps) =
     (if n = LAST_PATITION_NAME
      then if end_lba < pre + 1 then None else map_option (Cons (n, pre + 1, end_lba)) (shift_parts end_lba end_lba ps)
      else map_option (Cons (n, pre + 1, l - f + pre + 1)) (shift_parts end_lba (l - f + pre + 1) ps))"

fun change_parts :: "u64 \<Rightarrow> string \<Rightarrow> u64 \<Rightarrow> u64 \<Rightarrow> part list \<Rightarrow> part list option" where
  "change_parts end_lba name f' l' [] = Some []"
| "change_parts end_lba name f' l' ((n, f, l) # ps) =
     (if n = name
      then if n = LAST_PATITION_NAME \<and> l' \<noteq> end_lba then None
           else map_option (Cons (n, f', l')) (shift_parts end_lba l' ps)
      else map_option (Cons (n, f, l)) (change_parts end_lba name f' l' ps))"

fun contiguous :: "part list \<Rightarrow> bool" where
  "contiguous ((n, f, l) # (n', f', l') # ps) \<longleftrightarrow> f' = l + 1 \<and> contiguous ((n', f', l') # ps)"
| "contiguous ps \<longleftrightarrow> True"

fun moved :: "u64 \<Rightarrow> part \<Rightarrow> part \<Rightarrow> bool" where
  "moved end_lba (n, f, l) (n', f', l') \<longleftrightarrow> n' = n \<and> (if n = LAST_PATITION_NAME then l' = end_lba else l' - f' = l - f)"

lemma shift_parts_contiguous: "shift_parts end_lba l ps = Some qs \<Longrightarrow> contiguous ((n, f, l) # qs)"
proof (induction ps arbitrary: n f l qs)
  case (Cons p ps)
  obtain n' f' l' where p: "p = (n', f', l')" by (cases p)
  show ?case using Cons.prems Cons.IH [where n = n'] by (auto simp: p split: if_splits)
qed simp

lemma shift_parts_keep:
  "shift_parts end_lba pre ps = Some qs \<Longrightarrow> list_all2 (moved end_lba) ps qs"
proof (induction ps arbitrary: pre qs)
  case (Cons p ps)
  obtain n f l where p: "p = (n, f, l)" by (cases p)
  show ?case using Cons.prems Cons.IH by (auto simp: p split: if_splits)
qed simp

lemma change_parts_split:
  "change_parts end_lba name f' l' (ps @ (name, f, l) # qs) = Some rs \<Longrightarrow> name \<notin> fst ` set ps \<Longrightarrow>
   \<exists>ss. rs = ps @ (name, f', l') # ss \<and> shift_parts end_lba l' qs = Some ss \<and> (name = LAST_PATITION_NAME \<longrightarrow> l' = end_lba)"
proof (induction ps arbitrary: rs)
  case (Cons p ps)
  obtain n f l where p: "p = (n, f, l)" by (cases p)
  show ?case using Cons.prems Cons.IH by (auto simp: p split: if_splits)
qed (auto split: if_splits)

lemma change_parts_join:
  "name \<notin> fst ` set ps \<Longrightarrow> shift_parts end_lba l' qs = Some ss \<Longrightarrow> (name = LAST_PATITION_NAME \<Longrightarrow> l' = end_lba) \<Longrightarrow>
   change_parts end_lba name f' l' (ps @ (name, f, l) # qs) = Some (ps @ (name, f', l') # ss)"
  by (induction ps) auto

section \<open>Entries\<close>

definition entry_name :: "bytes \<Rightarrow> string" where
  "entry_name e = the (ParsePartitionName (drop GPT_PARTITION_NAME_OFFSET e) MAX_GPT_NAME_SIZE [] (MAX_GPT_NAME_SIZE div 2))"

definition entry_part :: "bytes \<Rightarrow> part" where
  "entry_part e = (entry_name e, the (GET_LLWORD_FROM_BYTE e FIRST_LBA_OFFSET), the (GET_LLWORD_FROM_BYTE e LAST_LBA_OFFSET))"

definition set_lbas :: "u64 \<Rightarrow> u64 \<Rightarrow> bytes \<Rightarrow> bytes" where
  "set_lbas f l e = blit LAST_LBA_OFFSET (le_list 8 l) (blit FIRST_LBA_OFFSET (le_list 8 f) e)"

lemma length_set_lbas [simp]: "length e = 128 \<Longrightarrow> length (set_lbas f l e) = 128"
  by (simp add: set_lbas_def length_blit)

lemma entry_name_set_lbas: "length e = 128 \<Longrightarrow> entry_name (set_lbas f l e) = entry_name e"
  by (simp add: entry_name_def set_lbas_def blit_def)

lemma entry_part_set_lbas: "length e = 128 \<Longrightarrow> entry_part (set_lbas f l e) = (entry_name e, f, l)"
  by (simp add: entry_part_def entry_name_set_lbas)
    (simp add: set_lbas_def GET_LLWORD_written GET_LLWORD_blit length_blit)

lemma blit_in_entry: "i + length zs \<le> length e \<Longrightarrow> blit (length xs + i) zs (xs @ e @ ys) = xs @ blit i zs e @ ys"
  by (simp add: blit_def)

lemma name_in_table:
  "length e = 128 \<Longrightarrow> ParsePartitionName (drop (length xs + GPT_PARTITION_NAME_OFFSET) (xs @ e @ ys)) MAX_GPT_NAME_SIZE [] (MAX_GPT_NAME_SIZE div 2)
     = Some (entry_name e)"
  by (simp add: ParsePartitionName_def entry_name_def)

lemma get_in_table:
  assumes "i + 8 \<le> length e"
  shows "GET_LLWORD_FROM_BYTE (xs @ e @ ys) (length xs + i) = Some (the (GET_LLWORD_FROM_BYTE e i))"
proof -
  obtain y where y: "GET_LLWORD_FROM_BYTE e i = Some y" using GET_LLWORD_total [OF assms] by blast
  have "slice (length xs + i) 8 (xs @ e @ ys) = slice i 8 e" using assms by (simp add: slice_def)
  then have "GET_LLWORD_FROM_BYTE (xs @ e @ ys) (length xs + i) = Some y" using y assms by (simp add: GET_LLWORD_slice)
  then show ?thesis using y by simp
qed

lemma put_in_table:
  "i + 8 \<le> length e \<Longrightarrow> PUT_LONG_LONG (length xs + i) y (xs @ e @ ys) = Some (xs @ blit i (le_list 8 y) e @ ys)"
  by (simp add: PUT_LONG_LONG_le blit_in_entry)

lemma set_in_table:
  assumes "length e = 128"
  shows "do { b \<leftarrow> PUT_LONG_LONG (length xs + FIRST_LBA_OFFSET) f (xs @ e @ ys); b' \<leftarrow> PUT_LONG_LONG (length xs + LAST_LBA_OFFSET) l b; g b' }
    = g (xs @ set_lbas f l e @ ys)"
proof -
  have 1: "PUT_LONG_LONG (length xs + FIRST_LBA_OFFSET) f (xs @ e @ ys) = Some (xs @ blit FIRST_LBA_OFFSET (le_list 8 f) e @ ys)"
    using assms by (intro put_in_table) simp
  have 2: "PUT_LONG_LONG (length xs + LAST_LBA_OFFSET) l (xs @ blit FIRST_LBA_OFFSET (le_list 8 f) e @ ys) = Some (xs @ set_lbas f l e @ ys)"
    unfolding set_lbas_def using assms by (intro put_in_table) (simp add: length_blit)
  show ?thesis unfolding 1 Option.bind.bind_lunit 2 ..
qed

section \<open>One entry\<close>

lemma change_entry_after:
  assumes "length e = 128" "entry_part e = (n, f, l)" "n \<noteq> []" "remaining \<noteq> 0"
  shows "change_entry g m end_lba remaining (Some pre) (length xs) (xs @ e @ ys) =
    (if n \<noteq> LAST_PATITION_NAME then Some (Entry_Next (Some (l - f + pre + 1)), xs @ set_lbas (pre + 1) (l - f + pre + 1) e @ ys)
     else if end_lba < pre + 1 then Some (Entry_Result False, xs @ e @ ys)
     else Some (Entry_Next (Some end_lba), xs @ set_lbas (pre + 1) end_lba e @ ys))"
proof -
  have n: "n = entry_name e" "f = the (GET_LLWORD_FROM_BYTE e FIRST_LBA_OFFSET)" "l = the (GET_LLWORD_FROM_BYTE e LAST_LBA_OFFSET)"
    using assms(2) by (simp_all add: entry_part_def)
  have first: "GET_LLWORD_FROM_BYTE (xs @ e @ ys) (length xs + FIRST_LBA_OFFSET) = Some f"
    and last: "GET_LLWORD_FROM_BYTE (xs @ e @ ys) (length xs + LAST_LBA_OFFSET) = Some l"
    unfolding n using assms(1) by (simp_all only: get_in_table)
  have new: "GET_LLWORD_FROM_BYTE (xs @ set_lbas a b e @ ys) (length xs + LAST_LBA_OFFSET) = Some b" for a b
    using entry_part_set_lbas [OF assms(1), of a b] assms(1) by (subst get_in_table) (auto simp: entry_part_def)
  have name: "ParsePartitionName (drop (length xs + GPT_PARTITION_NAME_OFFSET) (xs @ e @ ys)) MAX_GPT_NAME_SIZE [] (MAX_GPT_NAME_SIZE div 2) = Some n"
    using name_in_table [OF assms(1)] n(1) by blast
  have adjust: "AdjustGpt (length xs) remaining n pre end_lba (xs @ e @ ys) =
    (if n \<noteq> LAST_PATITION_NAME then Some (True, xs @ set_lbas (pre + 1) (l - f + pre + 1) e @ ys)
     else if end_lba < pre + 1 then Some (False, xs @ e @ ys) else Some (True, xs @ set_lbas (pre + 1) end_lba e @ ys))"
    unfolding AdjustGpt_def first last Option.bind.bind_lunit set_in_table [OF assms(1)] using assms(3,4) by simp
  show ?thesis 
    unfolding change_entry_def name Option.bind.bind_lunit if_not_P [OF assms(3)] option.case adjust
    by (simp only: if_split_eq1 Option.bind.bind_lunit prod.case new not_True_eq_False not_False_eq_True if_True if_False simp_thms split: if_split) simp
qed

lemma change_entry_before:
  assumes "length e = 128" "entry_part e = (n, f, l)" "n \<noteq> []"
  shows "change_entry g m end_lba remaining None (length xs) (xs @ e @ ys) =
    (let f' = startAddr m div devBlockSize g; l' = f' + partitionSize m div devBlockSize g - 1 in
     if n \<noteq> dispName m then Some (Entry_Next None, xs @ e @ ys)
     else if n = LAST_PATITION_NAME \<and> l' \<noteq> end_lba then Some (Entry_Result False, xs @ e @ ys)
     else Some (Entry_Next (Some l'), xs @ set_lbas f' l' e @ ys))"
proof -
  have n: "n = entry_name e" using assms(2) by (simp add: entry_part_def)
  have name: "ParsePartitionName (drop (length xs + GPT_PARTITION_NAME_OFFSET) (xs @ e @ ys)) MAX_GPT_NAME_SIZE [] (MAX_GPT_NAME_SIZE div 2) = Some n"
    using name_in_table [OF assms(1)] n by blast
  show ?thesis unfolding change_entry_def name Option.bind.bind_lunit set_in_table [OF assms(1)] Let_def using assms(3) by simp
qed

section \<open>The loop\<close>

text \<open>
  A table in memory: the entries \<open>es\<close> between \<open>xs\<close> and \<open>ys\<close>, the loop at the first of them; it ends behind
  the last of them, at the end of the table or at an entry without a name.
\<close>

definition table_at :: "u64 \<Rightarrow> bytes \<Rightarrow> bytes list \<Rightarrow> bytes \<Rightarrow> bool" where
  "table_at gptSize xs es ys \<longleftrightarrow>
     (\<forall>e \<in> set es. length e = 128 \<and> entry_name e \<noteq> []) \<and> length xs + 128 * length es < 2 ^ 64
     \<and> (es = [] \<or> length xs + 128 * length es < unat gptSize + 128)
     \<and> (unat gptSize \<le> length xs + 128 * length es \<or> 128 \<le> length ys \<and> entry_name (take 128 ys) = [])"

definition only_lbas :: "bytes \<Rightarrow> bytes \<Rightarrow> bool" where
  "only_lbas e e' \<longleftrightarrow> e' = e \<or> (\<exists>f l. e' = set_lbas f l e)"

lemma only_lbas_simps [simp]: "only_lbas e e" "only_lbas e (set_lbas f l e)"
  by (auto simp: only_lbas_def)

lemma table_at_Cons:
  assumes "table_at gptSize xs (e # es) ys"
  shows "length e = 128" "entry_name e \<noteq> []" "\<not> gptSize \<le> of_nat (length xs)" "gptSize - of_nat (length xs) \<noteq> 0"
    and "length e' = 128 \<Longrightarrow> table_at gptSize (xs @ e') es ys"
proof -
  have "unat (of_nat (length xs) :: u64) = length xs" using assms by (auto simp: table_at_def unat_of_nat)
  then show "\<not> gptSize \<le> of_nat (length xs)" using assms by (auto simp: table_at_def word_le_nat_alt)
  then show "gptSize - of_nat (length xs) \<noteq> 0" by auto
  show "length e = 128" "entry_name e \<noteq> []" using assms by (auto simp: table_at_def)
  show "length e' = 128 \<Longrightarrow> table_at gptSize (xs @ e') es ys" using assms by (auto simp: table_at_def)
qed

lemma loop_stops:
  assumes "table_at gptSize xs [] ys"
  shows "change_entries g m end_lba gptSize 128 pre (of_nat (length xs)) (length xs) (xs @ ys) = Some (Some (True, xs @ ys))"
proof (cases "gptSize \<le> of_nat (length xs)")
  case True
  then show ?thesis by (subst change_entries.simps) simp
next
  case False
  have "unat (of_nat (length xs) :: u64) = length xs" using assms by (auto simp: table_at_def unat_of_nat)
  then have "128 \<le> length ys" "entry_name (take 128 ys) = []"
    using False assms by (auto simp: table_at_def word_le_nat_alt)
  then have "ParsePartitionName (drop (length xs + GPT_PARTITION_NAME_OFFSET) (xs @ ys)) MAX_GPT_NAME_SIZE [] (MAX_GPT_NAME_SIZE div 2) = Some []"
    using name_in_table [of "take 128 ys" xs "drop 128 ys"] by simp
  then have "change_entry g m end_lba (gptSize - of_nat (length xs)) pre (length xs) (xs @ ys) = Some (Entry_Result True, xs @ ys)"
    unfolding change_entry_def by simp
  then show ?thesis using False by (subst change_entries.simps) simp
qed

lemma loop_step:
  assumes "table_at gptSize xs (e # es) ys" "length e' = 128"
    and "change_entry g m end_lba (gptSize - of_nat (length xs)) pre (length xs) (xs @ e @ zs) = Some (Entry_Next pre', xs @ e' @ zs)"
  shows "change_entries g m end_lba gptSize 128 pre (of_nat (length xs)) (length xs) (xs @ e @ zs) =
    change_entries g m end_lba gptSize 128 pre' (of_nat (length (xs @ e'))) (length (xs @ e')) ((xs @ e') @ zs)"
proof -
  have next_pos: "of_nat (length xs) + ucast (128 :: u32) = (of_nat (length (xs @ e')) :: u64)" "length xs + unat (128 :: u32) = length (xs @ e')"
    using assms(2) by simp_all
  show ?thesis
    unfolding change_entries.simps [of g m end_lba gptSize 128 pre "of_nat (length xs)" "length xs"]
      if_not_P [OF table_at_Cons(3) [OF assms(1)]] assms(3) option.case prod.case entry_step.case next_pos
    by simp
qed

lemma loop_after:
  "table_at gptSize xs es ys \<Longrightarrow> shift_parts end_lba pre (map entry_part es) = Some ps \<Longrightarrow>
   \<exists>es'. change_entries g m end_lba gptSize 128 (Some pre) (of_nat (length xs)) (length xs) (xs @ concat es @ ys) =
       Some (Some (True, xs @ concat es' @ ys)) \<and> map entry_part es' = ps \<and> list_all2 only_lbas es es'"
proof (induction es arbitrary: xs pre ps)
  case Nil
  then show ?case by (auto simp: loop_stops)
next
  case (Cons e es)
  note t = table_at_Cons [OF Cons.prems(1)]
  obtain n f l where part: "entry_part e = (n, f, l)" by (metis prod_cases3)
  then have nn: "n = entry_name e" by (simp add: entry_part_def)
  then have n: "n \<noteq> []" using t(2) by simp
  define l' where "l' = (if n = LAST_PATITION_NAME then end_lba else l - f + pre + 1)"
  define e' where "e' = set_lbas (pre + 1) l' e"
  obtain qs where qs: "shift_parts end_lba l' (map entry_part es) = Some qs" "ps = (n, pre + 1, l') # qs"
    and ok: "n = LAST_PATITION_NAME \<longrightarrow> \<not> end_lba < pre + 1"
    using Cons.prems(2) by (auto simp: part l'_def split: if_splits)
  have e': "length e' = 128" "entry_part e' = (n, pre + 1, l')"
    using t(1) nn by (simp_all add: e'_def entry_part_set_lbas)
  have "change_entry g m end_lba (gptSize - of_nat (length xs)) (Some pre) (length xs) (xs @ e @ concat es @ ys) =
      Some (Entry_Next (Some l'), xs @ e' @ concat es @ ys)"
    unfolding change_entry_after [OF t(1) part n t(4)] using ok by (auto simp: l'_def e'_def)
  note step = loop_step [OF Cons.prems(1) e'(1) this]
  obtain es' where "change_entries g m end_lba gptSize 128 (Some l') (of_nat (length (xs @ e'))) (length (xs @ e')) ((xs @ e') @ concat es @ ys)
      = Some (Some (True, (xs @ e') @ concat es' @ ys))" "map entry_part es' = qs" "list_all2 only_lbas es es'"
    using Cons.IH [OF t(5) [OF e'(1)] qs(1)] by blast
  then show ?case using step e'(2) qs(2) by (intro exI [of _ "e' # es'"]) (simp add: e'_def)
qed

lemma loop_before:
  "table_at gptSize xs es ys \<Longrightarrow> f' = startAddr m div devBlockSize g \<Longrightarrow> l' = f' + partitionSize m div devBlockSize g - 1 \<Longrightarrow>
   change_parts end_lba (dispName m) f' l' (map entry_part es) = Some ps \<Longrightarrow>
   \<exists>es'. change_entries g m end_lba gptSize 128 None (of_nat (length xs)) (length xs) (xs @ concat es @ ys) =
       Some (Some (True, xs @ concat es' @ ys)) \<and> map entry_part es' = ps \<and> list_all2 only_lbas es es'"
proof (induction es arbitrary: xs ps)
  case Nil
  then show ?case by (auto simp: loop_stops)
next
  case (Cons e es)
  note t = table_at_Cons [OF Cons.prems(1)]
  obtain n f l where part: "entry_part e = (n, f, l)" by (metis prod_cases3)
  then have nn: "n = entry_name e" by (simp add: entry_part_def)
  then have n: "n \<noteq> []" using t(2) by simp
  note entry = change_entry_before [OF t(1) part n, of g m end_lba "gptSize - of_nat (length xs)" xs "concat es @ ys", folded Cons.prems(2), unfolded Let_def, folded Cons.prems(3)]
  show ?case
  proof (cases "n = dispName m")
    case True
    define e' where "e' = set_lbas f' l' e"
    obtain qs where qs: "shift_parts end_lba l' (map entry_part es) = Some qs" "ps = (n, f', l') # qs"
      and ok: "\<not> (n = LAST_PATITION_NAME \<and> l' \<noteq> end_lba)"
      using Cons.prems(4) True by (auto simp: part split: if_splits)
    have e': "length e' = 128" "entry_part e' = (n, f', l')"
      using t(1) nn by (simp_all add: e'_def entry_part_set_lbas)
    have "change_entry g m end_lba (gptSize - of_nat (length xs)) None (length xs) (xs @ e @ concat es @ ys) =
        Some (Entry_Next (Some l'), xs @ e' @ concat es @ ys)"
      using entry ok True by (auto simp: e'_def)
    note step = loop_step [OF Cons.prems(1) e'(1) this]
    obtain es' where "change_entries g m end_lba gptSize 128 (Some l') (of_nat (length (xs @ e'))) (length (xs @ e')) ((xs @ e') @ concat es @ ys)
        = Some (Some (True, (xs @ e') @ concat es' @ ys))" "map entry_part es' = qs" "list_all2 only_lbas es es'"
      using loop_after [OF t(5) [OF e'(1)] qs(1), of g m] by blast
    then show ?thesis using step e'(2) qs(2) by (intro exI [of _ "e' # es'"]) (simp add: e'_def)
  next
    case False
    then obtain qs where qs: "change_parts end_lba (dispName m) f' l' (map entry_part es) = Some qs" "ps = (n, f, l) # qs"
      using Cons.prems(4) by (auto simp: part)
    have "change_entry g m end_lba (gptSize - of_nat (length xs)) None (length xs) (xs @ e @ concat es @ ys) =
        Some (Entry_Next None, xs @ e @ concat es @ ys)"
      using entry False by auto
    note step = loop_step [OF Cons.prems(1) t(1) this]
    obtain es' where "change_entries g m end_lba gptSize 128 None (of_nat (length (xs @ e))) (length (xs @ e)) ((xs @ e) @ concat es @ ys)
        = Some (Some (True, (xs @ e) @ concat es' @ ys))" "map entry_part es' = qs" "list_all2 only_lbas es es'"
      using Cons.IH [OF t(5) [OF t(1)] Cons.prems(2,3) qs(1)] by blast
    then show ?thesis using step part qs(2) by (intro exI [of _ "e # es'"]) simp
  qed
qed

section \<open>Loops that do not end\<close>

lemma stuck_entries:
  assumes "\<not> gptSize \<le> readSize" "change_entry g m end_lba (gptSize - readSize) pre pos buf = Some (Entry_Next pre, buf)"
  shows "change_entries g m end_lba gptSize 0 pre readSize pos buf = None"
proof (rule ccontr)
  assume "change_entries g m end_lba gptSize 0 pre readSize pos buf \<noteq> None"
  then obtain r where r: "change_entries g m end_lba gptSize 0 pre readSize pos buf = Some r" by blast
  have "\<not> (g = g \<and> m = m \<and> end_lba = end_lba \<and> gptSize = gptSize \<and> (0 :: u32) = 0 \<and> pre = pre \<and> readSize = readSize \<and> pos = pos \<and> buf = buf)"
  proof (rule change_entries.raw_induct
      [where P = "\<lambda>g' m' e' s' n' p' rs' ps' b' y. \<not> (g' = g \<and> m' = m \<and> e' = end_lba \<and> s' = gptSize \<and> n' = 0 \<and> p' = pre
         \<and> rs' = readSize \<and> ps' = pos \<and> b' = buf)", OF _ r], goal_cases)
    case (1 f g' m' e' s' n' p' rs' ps' b' y)
    then show ?case using 1(1) [of g m end_lba gptSize 0 pre readSize pos buf y] assms by (auto split: if_splits)
  qed
  then show False by simp
qed

end
