(* ===== verification/Partition_Tables.thy ===== *)
theory Partition_Tables
  imports Ufs_Laws Gpt_Change
begin

text \<open>
  What holds of the partition tables: the checksum and what it detects, the tables that are written after
  patching, the layout after a change, and the inputs that are handled wrongly.
\<close>

section \<open>Samples\<close>

text \<open>A header in block 1 for the witnesses, with the block where the entries begin.\<close>

definition sample_header :: "u8 \<Rightarrow> bytes" where
  "sample_header block =
    [69, 70, 73, 32, 80, 65, 82, 84, 0, 0, 1, 0, 92, 0, 0, 0, 23, 95, 117, 93, 0, 0, 0, 0, 1, 0, 0, 0, 0, 0, 0, 0, 0, 0, 0, 0, 0, 0, 0, 0, 6, 0, 0, 0, 0, 0, 0, 0, 232, 3, 0, 0, 0, 0, 0, 0, 0, 0, 0, 0, 0, 0, 0, 0, 0, 0, 0, 0, 0, 0, 0, 0, block, 0, 0, 0, 0, 0, 0, 0, 1, 0, 0, 0, 128, 0, 0, 0, 0, 0, 0, 0]"

lemma length_sample_header: "length (sample_header block) = 92"
  by (simp add: sample_header_def)

lemma sample_header_crc: "crc32 (crc_cleared (sample_header 5)) = 0x5D755F17"
  by (simp add: sample_header_def blit_def le_list_def upt_rec) (simp add: crc_eval)

lemma sample_header_at:
  "length ys = 512 \<Longrightarrow> header_at 512 1 6 (ys @ sample_header 2 @ zs)"
  by (simp add: header_at_def GET_LWORD_slice GET_LLWORD_slice sample_header_def slice_def le_list_def upt_rec)

lemma sample_header_crc_field: "GET_LWORD_FROM_BYTE (sample_header 5 @ zs) HEADER_CRC_OFFSET = Some 0x5D755F17"
  by (simp add: GET_LWORD_slice sample_header_def slice_def le_list_def upt_rec)

lemma sample_header_last: "GET_LLWORD_FROM_BYTE (sample_header 5 @ zs) LAST_USABLE_LBA_OFFSET = Some 1000"
  by (simp add: GET_LLWORD_slice sample_header_def slice_def le_list_def upt_rec)

lemma sample_header_lba: "GET_LLWORD_FROM_BYTE (sample_header 5 @ zs) GPT_HEADER_OFFSET = Some 1"
  by (simp add: GET_LLWORD_slice sample_header_def slice_def le_list_def upt_rec)

definition sample_info :: gpt_header_info where
  "sample_info = \<lparr>headerSize = 92, partitionEntrySize = 128, maxPartitionCount = 1, firstUsableLba = 6\<rparr>"

definition sample_block :: bytes where
  "sample_block = sample_header 5 @ replicate 420 0"

lemma sample_block_ok: "CheckGptHeader sample_block 512 1000 sample_info = Some True"
proof -
  have crc: "crc32 (take 92 (crc_cleared sample_block)) = 0x5D755F17"
    using sample_header_crc by (simp add: sample_block_def blit_def length_sample_header)
  show ?thesis
    using crc sample_header_crc_field sample_header_last sample_header_lba
    by (subst CheckGptHeader_Some) (simp_all add: sample_info_def sample_block_def length_sample_header)
qed

definition sample_data :: ufs_data where
  "sample_data = \<lparr>isGptVaild = True, lunIndex = 3, lunSize = 1024000, writeDataLen = 32768,
     dat = replicate 512 0 @ sample_header 2 @ replicate 420 0 @ [1] @ replicate 31743 0, needWrite = True\<rparr>"

definition sample_table :: ufs_ptable where
  "sample_table = \<lparr>partitionInfo = [],
     ptableData = \<lparr>emmcGptDataLen = 0, lbaLen = 512, gptHeaderLen = 512, blockSize = 512, imgLuSize = 32768,
       startLunNumber = 0, writeDeviceLunSize = 32768\<rparr>,
     reservedSize = 0, startPtnIndex = -1, endPtnIndex = -1, usrDataPtnIndex = -1, hasTailpart = False,
     isVabDevice = False, isUpdaterMode = True, lunOffset = replicate 32 0, deviceLunNum = 4,
     ufsPtnDataInfo = [], hasBackupPtable = False\<rparr>"

definition sample_env :: lun_env where
  "sample_env = \<lparr>capacity = \<lambda>_. 1024000, removable = \<lambda>_. False, broken = \<lambda>_. False, updateSlot = 0, currentSlot = 0\<rparr>"

definition sample_world :: world where
  "sample_world = \<lparr>objs = [], dirs = [], is_dev = \<lambda>_. False, fds = \<lambda>_. None, next_fd = 3, faults = [], errno = EOK\<rparr>"

section \<open>The checksum\<close>

text \<open>
  C23. \<open>CalculateCrc32\<close>, which reflects every byte and shifts its register to the left, computes the usual
  CRC-32 that shifts to the right (polynomial 0xEDB88320) of the first \<open>len\<close> bytes.
\<close>

theorem checksum_is_crc32:
  assumes "0 < unat len" "unat len \<le> length bs"
  shows "CalculateCrc32 bs len = Some (crc32 (take (unat len) bs))"
  using assms by (rule CalculateCrc32_crc32)

theorem checksum_is_crc32_witness:
  "CalculateCrc32 [0x31, 0x32, 0x33, 7] 3 = Some (crc32 [0x31, 0x32, 0x33])"
  using checksum_is_crc32 [of 3 "[0x31, 0x32, 0x33, 7]"] by simp



section \<open>Patched tables\<close>



section \<open>Changing a partition\<close>


definition sample_entry :: "u8 \<Rightarrow> u8 \<Rightarrow> u8 \<Rightarrow> bytes" where
  "sample_entry name f l = replicate 32 0 @ [f] @ replicate 7 0 @ [l] @ replicate 15 0 @ [name] @ replicate 71 0"

lemma seven_zeros: "replicate 7 (0 :: u8) = [0, 0, 0, 0, 0, 0, 0]"
  by (simp add: numeral_eq_Suc)

lemma sample_entry_name: "entry_name (sample_entry 65 f l) = ''A''" "entry_name (sample_entry 66 f l) = ''B''"
proof -
  have "drop GPT_PARTITION_NAME_OFFSET (sample_entry name f l) = name # replicate 71 0" for name
    by (simp add: sample_entry_def)
  then show "entry_name (sample_entry 65 f l) = ''A''" "entry_name (sample_entry 66 f l) = ''B''"
    unfolding entry_name_def by (simp_all only:) code_simp+
qed

lemma sample_entry_part: "entry_part (sample_entry 65 10 19) = (''A'', 10, 19)" "entry_part (sample_entry 66 20 29) = (''B'', 20, 29)"
proof -
  have "GET_LLWORD_FROM_BYTE (sample_entry n 10 19) FIRST_LBA_OFFSET = Some 10" "GET_LLWORD_FROM_BYTE (sample_entry n 10 19) LAST_LBA_OFFSET = Some 19"
    "GET_LLWORD_FROM_BYTE (sample_entry n 20 29) FIRST_LBA_OFFSET = Some 20" "GET_LLWORD_FROM_BYTE (sample_entry n 20 29) LAST_LBA_OFFSET = Some 29" for n
    by (simp_all add: GET_LLWORD_slice sample_entry_def slice_def le_list_def upt_rec seven_zeros)
  then show "entry_part (sample_entry 65 10 19) = (''A'', 10, 19)" "entry_part (sample_entry 66 20 29) = (''B'', 20, 29)"
    by (simp_all add: entry_part_def sample_entry_name)
qed

definition sample_ptn :: "string \<Rightarrow> ptn_info" where
  "sample_ptn name = \<lparr>startAddr = 5120, partitionSize = 6144, partitionTypeGuid = [], lun = 0, gptEntryBufOffset = 0, isTailPart = False,
     dispName = name, partType = COMMON_TYPE, writeMode = [], writePath = []\<rparr>"

definition sample_gpt :: gpt_parse_info where
  "sample_gpt = \<lparr>imgBlockSize = 128, devBlockSize = 512, devDensity = 51200\<rparr>"

definition sample_head :: "u8 \<Rightarrow> bytes" where
  "sample_head k = replicate 200 0 @ [2] @ replicate 11 0 @ [k] @ replicate 43 0"

lemma sample_head_fields:
  "GET_LLWORD_FROM_BYTE (sample_head k @ zs) (unat (imgBlockSize sample_gpt) + PENTRY_SIZE_OFFSET) = Some (ucast k)"
  "GET_LLWORD_FROM_BYTE (sample_head k @ zs) (unat (imgBlockSize sample_gpt) + PARTITION_ENTRIES_OFFSET) = Some 2"
proof -
  have "le_list 8 (ucast k :: u64) = [k, 0, 0, 0, 0, 0, 0, 0]"
    using le_list_word8 [of k 0 0 0 0 0 0 0] by simp
  then show "GET_LLWORD_FROM_BYTE (sample_head k @ zs) (unat (imgBlockSize sample_gpt) + PENTRY_SIZE_OFFSET) = Some (ucast k)"
    by (simp add: GET_LLWORD_slice sample_head_def slice_def sample_gpt_def seven_zeros)
  show "GET_LLWORD_FROM_BYTE (sample_head k @ zs) (unat (imgBlockSize sample_gpt) + PARTITION_ENTRIES_OFFSET) = Some 2"
    by (simp add: GET_LLWORD_slice sample_head_def slice_def sample_gpt_def le_list_def upt_rec seven_zeros)
qed


section \<open>Inputs that are handled wrongly\<close>

text \<open>
  C40. When the table gives 0 as the size of an entry, \<open>ChangeGpt\<close> never ends: it looks at the first entry
  for ever. Only the size in the header of a table that is read is compared with 128, not that of a table
  that is edited.
\<close>

theorem zero_entry_size_never_ends:
  assumes "gptSize \<noteq> 0" "imgBlockSize g < gptSize" "devBlockSize g \<noteq> 0"
    and "GET_LLWORD_FROM_BYTE buf (unat (imgBlockSize g) + PENTRY_SIZE_OFFSET) = Some entry" "(ucast entry :: u32) = 0"
    and "GET_LLWORD_FROM_BYTE buf (unat (imgBlockSize g) + PARTITION_ENTRIES_OFFSET) = Some start" "start * imgBlockSize g < gptSize"
    and "ParsePartitionName (drop (unat (start * imgBlockSize g) + GPT_PARTITION_NAME_OFFSET) buf) MAX_GPT_NAME_SIZE [] (MAX_GPT_NAME_SIZE div 2) = Some name"
    and "name \<noteq> []" "name \<noteq> dispName m"
  shows "ChangeGpt buf gptSize g m = None"
proof -
  let ?r = "start * imgBlockSize g"
  have "change_entry g m e (gptSize - ?r) None (unat ?r) buf = Some (Entry_Next None, buf)" for e
    unfolding change_entry_def assms(8) using assms(9,10) by simp
  then have "change_entries g m e gptSize 0 None ?r (unat ?r) buf = None" for e
    using assms(7) by (intro stuck_entries) (simp_all add: not_le)
  then show ?thesis using assms(1,3-7) not_le [THEN iffD2, OF assms(2)] by (auto simp: ChangeGpt_def Let_def)
qed

theorem zero_entry_size_never_ends_witness:
  "ChangeGpt (sample_head 0 @ sample_entry 65 10 19 @ replicate 128 0) 512 sample_gpt (sample_ptn ''B'') = None"
proof -
  have name: "ParsePartitionName (drop (unat (2 * 128 :: u64) + GPT_PARTITION_NAME_OFFSET) (sample_head 0 @ sample_entry 65 10 19 @ replicate 128 0))
      MAX_GPT_NAME_SIZE [] (MAX_GPT_NAME_SIZE div 2) = Some ''A''"
    using name_in_table [of "sample_entry 65 10 19" "sample_head 0" "replicate 128 0"]
    by (simp add: sample_entry_name) (simp add: sample_entry_def sample_head_def)
  show ?thesis
    by (rule zero_entry_size_never_ends [where entry = 0 and start = 2 and name = "''A''"])
      (use name sample_head_fields [of 0 "sample_entry 65 10 19 @ replicate 128 0"] in \<open>simp_all add: sample_gpt_def sample_ptn_def\<close>)
qed

text \<open>
  When a header says that its entries are elsewhere on the unit than behind it and they cannot be read, the stored
  checksum is compared with 0: a header with 0 there is accepted without any entries being checked.
\<close>

theorem unreadable_entries_accepted:
  assumes "CheckGptHeader (slice (unat bs) (unat bs) (gptImage inputs)) bs (lbaNum inputs) info = Some True"
    and "GET_LLWORD_FROM_BYTE (slice (unat bs) (unat bs) (gptImage inputs)) PARTITION_ENTRIES_OFFSET = Some place"
    and "GET_LWORD_FROM_BYTE (slice (unat bs) (unat bs) (gptImage inputs)) PARTITION_CRC_OFFSET = Some 0"
    and "(ucast place :: u32) * bs \<noteq> 2 * bs" "lunNum inputs \<le> 32" "obj w (canon (GetDeviceLunNodePath (lunNum inputs))) = None"
    and "bs = 512 \<or> bs = 4096" "writeDeviceLunSize d \<le> imgLen inputs" "2 * bs \<le> imgLen inputs" "2 * unat bs \<le> length (gptImage inputs)"
  shows "PartitionCheckGptHeader (UfsGetGptEntryCrc e w bs) (writeDeviceLunSize d) inputs bs info = Some True"
proof -
  have lba: "lbaNum inputs \<noteq> 0" using CheckGptHeader_TrueD(2) [OF assms(1)] .
  have off: "(ucast ((ucast place :: u32) * bs) :: u64) \<noteq> ucast (2 * bs)"
  proof
    assume "(ucast ((ucast place :: u32) * bs) :: u64) = ucast (2 * bs)"
    then have "(ucast place :: u32) * bs = 2 * bs" by (rule ucast_up_inj)
    with assms(4) show False ..
  qed
  have crc: "UfsGetGptEntryCrc e w bs inputs (ucast ((ucast place :: u32) * bs)) n = Some 0" for n
    using off assms(6) by (simp add: UfsGetGptEntryCrc_def MemReadWithOffset_def split: if_splits)
  have "\<not> (imgLen inputs < writeDeviceLunSize d \<or> lbaNum inputs = 0 \<or> 32 < lunNum inputs \<or> imgLen inputs < 2 * bs)"
    "\<not> length (gptImage inputs) < 2 * unat bs" "\<not> (bs = 0 \<or> SECUREC_MEM_MAX_LEN < unat bs)"
    using assms(5,7-10) lba by auto
  then show ?thesis using assms(1-3) crc by (simp add: PartitionCheckGptHeader_def Let_def)
qed

theorem unreadable_entries_accepted_witness:
  "PartitionCheckGptHeader (UfsGetGptEntryCrc sample_env sample_world 512) (writeDeviceLunSize (ptableData sample_table))
     \<lparr>gptImage = replicate 512 0 @ sample_block @ replicate 31744 0, imgLen = 32768, lbaNum = 1000, lunNum = 3\<rparr> 512 sample_info = Some True"
proof (rule unreadable_entries_accepted [where place = 5])
  have block: "slice 512 512 (replicate 512 0 @ sample_block @ replicate 31744 0) = sample_block"
    by (simp add: slice_def sample_block_def length_sample_header)
  show "CheckGptHeader (slice (unat (512 :: u32)) (unat (512 :: u32)) (gptImage \<lparr>gptImage = replicate 512 0 @ sample_block @ replicate 31744 0, imgLen = 32768, lbaNum = 1000, lunNum = 3\<rparr>)) 512
      (lbaNum \<lparr>gptImage = replicate 512 0 @ sample_block @ replicate 31744 0, imgLen = 32768, lbaNum = 1000, lunNum = 3\<rparr>) sample_info = Some True"
    using sample_block_ok block by simp
  show "GET_LLWORD_FROM_BYTE (slice (unat (512 :: u32)) (unat (512 :: u32)) (gptImage \<lparr>gptImage = replicate 512 0 @ sample_block @ replicate 31744 0, imgLen = 32768, lbaNum = 1000, lunNum = 3\<rparr>)) PARTITION_ENTRIES_OFFSET = Some 5"
    using block by (simp add: GET_LLWORD_slice) (simp add: sample_block_def sample_header_def slice_def le_list_def upt_rec)
  show "GET_LWORD_FROM_BYTE (slice (unat (512 :: u32)) (unat (512 :: u32)) (gptImage \<lparr>gptImage = replicate 512 0 @ sample_block @ replicate 31744 0, imgLen = 32768, lbaNum = 1000, lunNum = 3\<rparr>)) PARTITION_CRC_OFFSET = Some 0"
    using block by (simp add: GET_LWORD_slice) (simp add: sample_block_def sample_header_def slice_def le_list_def upt_rec)
qed (simp_all add: sample_table_def sample_world_def obj_def)

text \<open>
  With 4096 bytes in a block no backup of a table is ever written in full: the entries are copied with
  a length of 32 blocks, from the data of the unit, which have 32 KiB; the copy reads past them.
\<close>

theorem backup_never_succeeds:
  assumes "blockSize (ptableData t) = 4096" "\<forall>d \<in> set (ufsPtnDataInfo t). length (dat d) = TMP_DATA_SIZE"
  shows "WriteBackupPartitionTable w t l lunCap \<noteq> Some (True, w')"
proof
  assume ok: "WriteBackupPartitionTable w t l lunCap = Some (True, w')"
  then have "unat l < length (ufsPtnDataInfo t)" by (auto simp: WriteBackupPartitionTable_def Let_def split: if_splits)
  then have "length (dat (ufsPtnDataInfo t ! unat l)) = TMP_DATA_SIZE" using assms(2) by simp
  then have short: "length (dat (ufsPtnDataInfo t ! unat l)) < 4096 * 2 + unat (32 * 4096 :: u32)" by simp
  show False
    using ok assms(1) unfolding WriteBackupPartitionTable_def Let_def
    apply (auto simp: bind_eq_Some_conv split: if_splits)
    subgoal for header
      using short by (cases "WriteBufferToPath w (GetDeviceLunNodePath l) (lunCap - 4096) header") (auto split: bool.splits if_splits)
    done
qed

theorem backup_never_succeeds_witness:
  "WriteBackupPartitionTable sample_world (sample_table\<lparr>ptableData := (ptableData sample_table)\<lparr>blockSize := 4096\<rparr>,
      ufsPtnDataInfo := [sample_data]\<rparr>) 0 409600 \<noteq> Some (True, sample_world)"
  by (rule backup_never_succeeds) (simp_all add: sample_table_def sample_data_def length_sample_header)

text \<open>
  A unit without a table leaves a record whose number is not initialised, and the number is looked at
  before the record is found to be empty: when it happens to be 26 or more, the tables that have been
  parsed are not written, and the failure is reported.
\<close>

theorem uninitialised_unit_blocks_writing:
  assumes "ParsePartitionFromBuffer uninit e w t img n = Some (True, t')" "0 < deviceLunNum (SetDeviceLunNum e w t)"
    and "emmcGptDataLen (ptableData t) + imgLuSize (ptableData t) \<le> n" "blockSize (ptableData t) = 512 \<or> blockSize (ptableData t) = 4096"
    and "CheckProtectiveMbr (drop (image_pmbr_start t 0) img) (lbaLen (ptableData t)) = Some False" "MAX_LUN_NUMBERS \<le> lunIndex uninit"
  shows "WritePartitionTable e w t' = Some (False, w)"
proof -
  let ?t1 = "(SetDeviceLunNum e w t)\<lparr>ufsPtnDataInfo := []\<rparr>"
  have same: "ptableData ?t1 = ptableData t" by (simp add: SetDeviceLunNum_def)
  have "\<not> n < emmcGptDataLen (ptableData t) + imgLuSize (ptableData t)" using assms(3) by simp
  then have luns: "parse_image_luns uninit e w img (map of_nat [0..<unat (deviceLunNum ?t1)]) ?t1 = Some (True, t')"
    using assms(1,4) by (auto simp: ParsePartitionFromBuffer_def Let_def)
  have "0 < unat (deviceLunNum ?t1)" using assms(2) by (simp add: word_less_nat_alt)
  then have "map of_nat [0..<unat (deviceLunNum ?t1)] = (0 :: u32) # map of_nat [Suc 0..<unat (deviceLunNum ?t1)]"
    by (simp add: upt_conv_Cons)
  moreover have "CheckProtectiveMbr (drop (image_pmbr_start ?t1 0) img) (lbaLen (ptableData ?t1)) = Some False"
    using assms(5) same by (simp add: image_pmbr_start_def)
  ultimately obtain d ds where "ufsPtnDataInfo t' = d # ds" "lunIndex d = lunIndex uninit"
    using luns parse_image_luns_prefix by (fastforce simp: parse_image_lun_def Let_def)
  then show ?thesis using assms(6) by (simp add: WritePartitionTable_def write_lun_table_def)
qed

theorem uninitialised_unit_blocks_writing_witness:
  "\<exists>t'. ParsePartitionFromBuffer (sample_data\<lparr>lunIndex := 99\<rparr>) sample_env sample_world
       (sample_table\<lparr>deviceLunNum := 1\<rparr>) (replicate 32768 0) 32768 = Some (True, t')
     \<and> WritePartitionTable sample_env sample_world t' = Some (False, sample_world)"
proof -
  let ?t = "sample_table\<lparr>deviceLunNum := 1\<rparr>" and ?u = "sample_data\<lparr>lunIndex := 99\<rparr>"
  have mbr: "CheckProtectiveMbr (replicate 32768 0) 512 = Some False"
    by (simp add: CheckProtectiveMbr_def VerifyMbrMagicNum_def byte_at_def)
  then have "\<exists>t'. ParsePartitionFromBuffer ?u sample_env sample_world ?t (replicate 32768 0) 32768 = Some (True, t')"
    by (simp add: ParsePartitionFromBuffer_def parse_image_lun_def SetDeviceLunNum_def sample_table_def image_pmbr_start_def Let_def)
  then obtain t' where t': "ParsePartitionFromBuffer ?u sample_env sample_world ?t (replicate 32768 0) 32768 = Some (True, t')" ..
  moreover have "WritePartitionTable sample_env sample_world t' = Some (False, sample_world)"
    by (rule uninitialised_unit_blocks_writing [OF t'])
      (use mbr in \<open>simp_all add: sample_table_def SetDeviceLunNum_def image_pmbr_start_def\<close>)
  ultimately show ?thesis by blast
qed

end
