(* ===== verification/Spec2Isabelle.thy ===== *)
theory Spec2Isabelle
  imports Ring_Concurrency Block_Writer Raw_Writer Store Text_Utils Command_Laws Transfer_Laws Script_Builtins Pkg_Verified Stream_Install Pkg_Signature Partition_Tables
begin

text \<open>
  \<^bold>\<open>A verification development for the OpenHarmony updater\<close>

  The updater installs a new system image. It takes an update package, checks its signature, runs the
  script in the package, and the instructions of the script write the partitions of the device: whole
  images, patches against the image that is there, or the lines of a transfer list that move, stash,
  patch and zero single blocks. It can be interrupted at any moment and continues after a restart.
  This library models these parts as executable HOL functions over an explicit world of files,
  and proves what each part promises to the next one. All paths below are under \<open>src/\<close>.

  \<^bold>\<open>How the parts interact\<close>

  \<^item> A package comes through a \<^emph>\<open>package stream\<close> (file, memory map or ring buffer). The \<^emph>\<open>update package\<close>
    reader verifies its head and the digests of its components with it.
  \<^item> The \<^emph>\<open>script interpreter\<close> runs the update script; its \<^emph>\<open>instructions\<close> are calls into the engines below.
  \<^item> The \<^emph>\<open>transfer manager\<close> runs the lines of a transfer list. A \<^emph>\<open>command\<close> loads its source from the
    partition or the \<^emph>\<open>stash store\<close>, compares hashes, and lets a \<^emph>\<open>binary patch\<close> or \<^emph>\<open>image patch\<close> stream
    through a \<^emph>\<open>block writer\<close> into a \<^emph>\<open>block set\<close> of the partition.
  \<^item> A \<^emph>\<open>streamed installation\<close> collects the package in a buffer piece by piece and runs the same commands
    as soon as a chunk is complete; the last section carries the hashes and the signature.
  \<^item> The \<^emph>\<open>partition tables\<close> are parsed, changed and written back before the images are installed.
  \<^item> Every byte goes through the \<^emph>\<open>full reads and writes\<close> over the system calls.

  \<^bold>\<open>Conventions\<close>

  \<^item> A class or struct is a \<open>record\<close> with the member names of the code; an enumeration is a \<open>datatype\<close>; an
    unsigned integer of the code is a word of its width, so that sums and products wrap as they do there.
    Signed 64-bit offsets are integers, with the cases in which the code would overflow made explicit.
  \<^item> The files, devices and descriptors are a \<open>world\<close> (theory \<open>Posix\<close>). Each system call takes the next item of a
    list of faults: it may fail, or transfer less than asked. A statement about a world with an
    arbitrary list of faults therefore is about every failing run; \<open>faults w = []\<close> is the run without any.
  \<^item> Undefined behaviour (a read or write outside a buffer, a null pointer, a division by zero, signed
    overflow) is a value: \<open>None\<close> in the engines, \<open>Crash\<close> in the interpreter, \<open>Undefined\<close> in the streamed installation.
    So a theorem that a result is \<open>Some\<close> is a theorem of memory safety, and a theorem that it is \<open>None\<close>
    shows an input on which the code leaves its buffers.
  \<^item> A loop is a structural recursion or a \<open>function\<close> with a measure. A loop that can run for ever is a
    \<open>partial_function (option)\<close> (\<open>change_entries\<close>, the loops of the zip adapter), where not returning is the
    outer \<open>None\<close>, or has fuel: the script interpreter (\<open>No_Fuel\<close>) and the loops of the streamed installation (\<open>Unfinished\<close>).
    Fuel of the interpreter is the depth of nested calls and iterations; more fuel never changes a
    result, and \<open>script_terminates\<close> gives a bound from the text of the script alone. For a
    chunk loop the size of the buffer plus five is enough fuel, as \<open>stream_cut_independent\<close> states.
  \<^item> The libraries outside the repository are parameters: SHA-256, bzip2, zlib, lz4, OpenSSL, the arithmetic
    of \<open>float\<close>, the dynamic linker. What a theorem needs of one is a premise of it (for instance that
    decompression undoes compression), and its witness instantiates the parameter.

  \<^bold>\<open>The theories\<close>

  Foundations.
  \<^item> \<open>Prelude\<close>: the types \<open>u8\<close> to \<open>u64\<close> and \<open>bytes\<close>; \<open>slice\<close> and \<open>blit\<close>, the read and write of a piece of a buffer, with
    the rewrite rules (\<open>blit_simps\<close>, \<open>mask_simps\<close>) the other theories use.
  \<^item> \<open>Posix\<close>: the world, the system calls, and \<open>ReadFully\<close> and \<open>WriteFully\<close> of \<open>utils/utils.cpp\<close>: they transfer all or
    report a failure, whatever the short transfers are.
  \<^item> \<open>Text_Utils\<close>: \<open>SplitString\<close>, \<open>Trim\<close>, \<open>String2Int\<close>, \<open>ConvertSha256Hex\<close>, with their printing inverses.
  \<^item> \<open>Ranges\<close>: lists of byte ranges, \<open>gather\<close> and \<open>scatter\<close>, the abstraction of a block set.

  Ring buffer (\<open>services/common/ring_buffer\<close>).
  \<^item> \<open>Ring_Buffer\<close>: the operations; \<open>ring_inv\<close> is kept by each; the locale \<open>bounded_fifo\<close> states the contract of a queue, and
    its interpretation \<open>ring\<close> discharges it for the code (\<open>ring_push_spec\<close>, \<open>ring_fifo_order\<close>).
  \<^item> \<open>Ring_Concurrency\<close>: the two threads, their mutexes and condition variables as a step function under an
    arbitrary scheduler, reachability and its invariants; no wake-up is lost, but \<open>Reset\<close> can deadlock.

  Blocks (\<open>services/applypatch\<close>).
  \<^item> \<open>Block_Set\<close>, \<open>Block_Laws\<close>: parser, reading, writing, zeroing, moving, comparing and overlap of \<open>block_set.cpp\<close>, and
    their refinement of \<open>gather\<close> and \<open>scatter\<close>.
  \<^item> \<open>Block_Writer\<close>: the streaming sink \<open>block_writer.cpp\<close>; any cutting of the data gives what one write gives.
  \<^item> \<open>Raw_Writer\<close>: \<open>raw_writer.cpp\<close> and the registry of \<open>data_writer.cpp\<close>.
  \<^item> \<open>Store\<close>: the stash directory \<open>store.cpp\<close>; what is stored is loaded.

  Patches (\<open>services/diffpatch\<close>).
  \<^item> \<open>Bs_Codec\<close>, \<open>Bs_Diff\<close>: the number format and \<open>diff/blocks_diff.cpp\<close>, given any suffix array.
  \<^item> \<open>Bs_Patch\<close>: \<open>patch/blocks_patch.cpp\<close>. The two virtual methods of a target are the locale \<open>patch_target\<close>, interpreted for
    the buffer variant (\<open>buffer_target\<close>); a writer that takes all it is given is \<open>accepting_writer\<close>, whose \<open>sublocale\<close> gives
    the stream variant; it is interpreted for the file writer (\<open>file_target\<close>) and for the block writer of
    a command (\<open>block_target\<close> in \<open>Command_Laws\<close>).
  \<^item> \<open>Bs_Roundtrip\<close>: applying the patch that was made gives the new data; safety for any patch.
  \<^item> \<open>Deflate_Adapter\<close>: the loops of \<open>bzip2/zip_adapter.cpp\<close> and \<open>lz4_adapter.cpp\<close> around the libraries.
  \<^item> \<open>Image_Patch\<close>: the chunk loop of \<open>patch/image_patch.cpp\<close>.

  Commands and transfers (\<open>services/applypatch\<close>, \<open>services/updater_binary/update_image_block.cpp\<close>).
  \<^item> \<open>Command\<close>: parsing of a line, the iterator, loading of source, stash and target.
  \<^item> \<open>Command_Process\<close>: every command with its whole effect, and the thread that delivers new data.
  \<^item> \<open>Transfer_List\<close>: the loop over the lines, with the retry file.
  \<^item> \<open>Frame\<close>: whatever fails, nothing but the target, the stash and the retry file changes (rules in \<open>frame_intros\<close>).
  \<^item> \<open>Command_Laws\<close>, \<open>Transfer_Laws\<close>: results of the commands without faults, resumption after an interruption, order.

  Scripts (\<open>services/script\<close>).
  \<^item> \<open>Script_Value\<close>, \<open>Script_Interp\<close>: values and operators, the syntax tree and its execution.
  \<^item> \<open>Script_Laws\<close>: scoping (\<open>scoped\<close>), monotony of the fuel (\<open>fuel_mono\<close>), termination (\<open>ends\<close>).
  \<^item> \<open>Script_Builtins\<close>: the instructions every script has, their registry and the files a script is loaded from.

  Packages (\<open>services/package\<close>).
  \<^item> \<open>Pkg_Utils\<close>, \<open>Pkg_Stream\<close>: byte order, names, dates; the streams, with the contract of a read as the locale \<open>package_stream\<close>,
    interpreted for all three (\<open>regular\<close>, \<open>mapped\<close>, \<open>flowing\<close>).
  \<^item> \<open>Pkg_Upgrade\<close>, \<open>Pkg_Upgrade_Laws\<close>: the loader of \<open>pkg_upgradefile.cpp\<close> for every version of the format, with its digests.
  \<^item> \<open>Pkg_Verified\<close>: what a successful load says about the bytes of the file, and the input that is not caught.
  \<^item> \<open>Sign_Parse\<close>, \<open>Sign_Pkcs7\<close>, \<open>Sign_Package\<close>: finding the signature at the end of a package, the signature block and its
    certificates, the decision (\<open>pkg_verify\<close>); the locale \<open>seekable_stream\<close> extends \<open>package_stream\<close> by reads at any position,
    interpreted for files and memory (\<open>file_seek\<close>, \<open>memory_seek\<close>).
  \<^item> \<open>Sign_Laws\<close>, \<open>Sign_File\<close>, \<open>Pkg_Signature\<close>: what an accepted block says, which bytes it covers, that the verification always
    ends, and the same for the head of a package and for files signed one by one.

  Streamed installation (\<open>services/stream_update\<close>, \<open>services/updater_binary/update_processor_stream.cpp\<close>).
  \<^item> \<open>Bin_Chunk\<close>: the buffer, the sections, the commands and the loop over the file.
  \<^item> \<open>Bin_Chunk_Laws\<close>, \<open>Chunk_Hash_Laws\<close>: the specification without a buffer, and what the hash section covers.
  \<^item> \<open>Stream_Install\<close>: independence of the cutting, completion only when verified, the inputs handled wrongly.

  Partition tables (\<open>services/ptable_parse\<close>).
  \<^item> \<open>Gpt_Crc\<close>: the fields of a table and \<open>CalculateCrc32\<close>, equal to the usual CRC-32; single changed bytes are detected.
  \<^item> \<open>Gpt_Table\<close>, \<open>Gpt_Laws\<close>, \<open>Gpt_Change\<close>: the class \<open>Ptable\<close>: checks of MBR and header, names, and the change of a
    partition, a refinement of a function on the list of entries.
  \<^item> \<open>Ufs_Ptable\<close>, \<open>Ufs_Edit\<close>, \<open>Ufs_Laws\<close>: the class \<open>UfsPtable\<close>: parsing, patching, writing, backup, editing, the other slot.
  \<^item> \<open>Partition_Tables\<close>: a patched table passes every check; changes keep the layout; the inputs handled wrongly.

  \<^bold>\<open>Kinds of statements\<close>

  Round trips: diff and patch, store and load, write and read, print and parse, headers of components.
  Refinements: the ring against a bounded queue, block writes against \<open>scatter\<close>, the transfer loop against a
  composition of lines, the streamed loop against a fold of chunks, patched tables. Safety: frames, what a
  verified package or stream guarantees, memory safety of the patch. Termination of the diff and of
  scripts. Errors and bounds: the inputs on which the code reads outside a buffer, loops for ever or
  reports success without having verified, each on a concrete input or a family of inputs.

  \<^bold>\<open>Not modelled\<close>

  \<^item> Effects outside the repository's control: the user interface, mounting and formatting, the driver
    interface, forked processes, reboots, system parameters, logging.
  \<^item> Containers of other formats (zip, gzip, lz4 packages) and the wrappers of zlib and lz4, whose content
    is in the libraries; the construction of the suffix array, of which only size and range matter to
    the patch; the generated scanner and parser of scripts; the loaders written in Rust.
  \<^item> The package manager (opening and forwarding), writing of packages, the flow update processors, the
    tables on eMMC, flashd, factory reset, and the records of the misc partition.
  \<^item> Threads other than those of the ring buffer: the new-data thread runs to the point where it has filled
    the writer of its command; the scripts of one priority are independent.
  \<^item> Progress values are kept as pairs of numbers instead of floating-point quotients.
\<close>

end
